(* ===== verification/Prelude.thy ===== *)
theory Prelude
  imports Main "HOL-Library.Word"
begin

unbundle bit_operations_syntax

text \<open>
  Shared vocabulary of the development: the machine integers of the Rust sources, results,
  the part of the Rust standard library the sources use (checked and saturating arithmetic,
  big-endian byte conversions, string predicates, slice windows and binary search), and the
  generic lemmas about them that the component theories rely on.

  A fixed array \<^verbatim>\<open>[u8; N]\<close> is the \<open>8 N\<close>-bit word whose big-endian bytes are the
  array: equality is array equality and the word order is the lexicographic byte order that
  \<^verbatim>\<open>Ord for [u8; N]\<close> and \<^verbatim>\<open>Ord for Uuid\<close> use.  A growable \<^verbatim>\<open>Vec<u8>\<close> or a slice is a
  list of \<open>8 word\<close>.  A \<^verbatim>\<open>usize\<close> that counts elements of a list is a \<open>nat\<close>.
\<close>

section \<open>Collections of facts\<close>

named_theorems result_simps \<open>facts that take a chain of fallible steps apart\<close>
named_theorems validated \<open>what a successful validation says about a value\<close>

section \<open>Machine integers\<close>

type_synonym u8 = "8 word"
type_synonym u16 = "16 word"
type_synonym u32 = "32 word"
type_synonym u64 = "64 word"
type_synonym i32 = "32 word"
type_synonym i64 = "64 word"
type_synonym bytes = "8 word list"
type_synonym array4 = "32 word"
type_synonym array12 = "96 word"
type_synonym array16 = "128 word"
type_synonym array32 = "256 word"
type_synonym uuid = "128 word"

abbreviation is_nil :: "uuid \<Rightarrow> bool" where
  "is_nil u \<equiv> u = 0"

abbreviation i64_MIN :: int where
  "i64_MIN \<equiv> - (2 ^ 63)"

abbreviation i64_MAX :: int where
  "i64_MAX \<equiv> 2 ^ 63 - 1"

text \<open>An \<^verbatim>\<open>i64\<close> is a 64-bit word read by \<open>sint\<close>.\<close>

definition checked_sub_i64 :: "i64 \<Rightarrow> i64 \<Rightarrow> i64 option" where
  "checked_sub_i64 a b =
     (let d = sint a - sint b
      in if i64_MIN \<le> d \<and> d \<le> i64_MAX then Some (a - b) else None)"

definition clamp_i64 :: "int \<Rightarrow> i64" where
  "clamp_i64 d = word_of_int (max i64_MIN (min i64_MAX d))"

definition saturating_add_i64 :: "i64 \<Rightarrow> i64 \<Rightarrow> i64" where
  "saturating_add_i64 a b = clamp_i64 (sint a + sint b)"

definition saturating_sub_i64 :: "i64 \<Rightarrow> i64 \<Rightarrow> i64" where
  "saturating_sub_i64 a b = clamp_i64 (sint a - sint b)"

definition saturating_add_u64 :: "u64 \<Rightarrow> u64 \<Rightarrow> u64" where
  "saturating_add_u64 a b = (if unat a + unat b < 2 ^ 64 then a + b else - 1)"

definition checked_add_u64 :: "u64 \<Rightarrow> u64 \<Rightarrow> u64 option" where
  "checked_add_u64 a b = (if unat a + unat b < 2 ^ 64 then Some (a + b) else None)"

text \<open>\<^verbatim>\<open>usize\<close> arithmetic on lengths, 64 bits wide on the supported targets.\<close>

abbreviation usize_MAX :: nat where
  "usize_MAX \<equiv> 2 ^ 64 - 1"

definition saturating_add_usize :: "nat \<Rightarrow> nat \<Rightarrow> nat" where
  "saturating_add_usize a b = min usize_MAX (a + b)"

definition checked_add_usize :: "nat \<Rightarrow> nat \<Rightarrow> nat option" where
  "checked_add_usize a b = (if a + b \<le> usize_MAX then Some (a + b) else None)"

definition checked_mul_usize :: "nat \<Rightarrow> nat \<Rightarrow> nat option" where
  "checked_mul_usize a b = (if a * b \<le> usize_MAX then Some (a * b) else None)"

lemma sint_i64_bounds: "i64_MIN \<le> sint (w :: i64)" "sint (w :: i64) \<le> i64_MAX"
  using sint_greater_eq [of w] sint_less [of w] by simp_all

lemma sint_of_int_i64: "i64_MIN \<le> d \<Longrightarrow> d \<le> i64_MAX \<Longrightarrow> sint (word_of_int d :: i64) = d"
  by (simp add: signed_take_bit_int_eq_self sint_sbintrunc')

lemma checked_sub_i64_Some:
  "checked_sub_i64 a b = Some d \<longleftrightarrow>
     i64_MIN \<le> sint a - sint b \<and> sint a - sint b \<le> i64_MAX \<and> d = a - b"
  by (auto simp: checked_sub_i64_def Let_def)

lemma sint_checked_sub_i64: "checked_sub_i64 a b = Some d \<Longrightarrow> sint d = sint a - sint b"
proof -
  assume "checked_sub_i64 a b = Some d"
  then have range: "i64_MIN \<le> sint a - sint b" "sint a - sint b \<le> i64_MAX" and d: "d = a - b"
    by (simp_all only: checked_sub_i64_Some)
  have "a - b = word_of_int (sint a - sint b)" by simp
  with d show ?thesis by (simp only: sint_of_int_i64 [OF range])
qed

lemma sint_clamp_i64: "sint (clamp_i64 d) = max i64_MIN (min i64_MAX d)"
  unfolding clamp_i64_def by (rule sint_of_int_i64) auto

lemma sint_saturating_add_i64:
  "sint (saturating_add_i64 a b) = max i64_MIN (min i64_MAX (sint a + sint b))"
  by (simp add: saturating_add_i64_def sint_clamp_i64)

lemma sint_saturating_sub_i64:
  "sint (saturating_sub_i64 a b) = max i64_MIN (min i64_MAX (sint a - sint b))"
  by (simp add: saturating_sub_i64_def sint_clamp_i64)

lemma unat_saturating_add_u64:
  "unat (saturating_add_u64 a b) = min (2 ^ 64 - 1) (unat a + unat b)"
proof (cases "unat a + unat b < 2 ^ 64")
  case True
  then show ?thesis by (simp add: saturating_add_u64_def unat_word_ariths)
next
  case False
  then show ?thesis by (simp add: saturating_add_u64_def unsigned_minus_1_eq_mask mask_eq_exp_minus_1)
qed

lemma unat_checked_add_u64: "checked_add_u64 a b = Some c \<Longrightarrow> unat c = unat a + unat b"
  by (auto simp: checked_add_u64_def unat_word_ariths split: if_splits)

section \<open>Results\<close>

text \<open>\<^verbatim>\<open>Result<T, E>\<close> is \<open>'e + 'a\<close>, the error on the left; \<^verbatim>\<open>?\<close> is \<open>and_then\<close>.\<close>

abbreviation Ok :: "'a \<Rightarrow> 'e + 'a" where
  "Ok \<equiv> Inr"

abbreviation Err :: "'e \<Rightarrow> 'e + 'a" where
  "Err \<equiv> Inl"

definition and_then :: "'e + 'a \<Rightarrow> ('a \<Rightarrow> 'e + 'b) \<Rightarrow> 'e + 'b" where
  "and_then r k = (case r of Inl e \<Rightarrow> Inl e | Inr x \<Rightarrow> k x)"

definition map_err :: "('e \<Rightarrow> 'f) \<Rightarrow> 'e + 'a \<Rightarrow> 'f + 'a" where
  "map_err f r = (case r of Inl e \<Rightarrow> Inl (f e) | Inr x \<Rightarrow> Inr x)"

definition ok_or :: "'a option \<Rightarrow> 'e \<Rightarrow> 'e + 'a" where
  "ok_or m e = (case m of None \<Rightarrow> Inl e | Some x \<Rightarrow> Inr x)"

definition is_ok :: "'e + 'a \<Rightarrow> bool" where
  "is_ok r \<longleftrightarrow> (case r of Inl _ \<Rightarrow> False | Inr _ \<Rightarrow> True)"

text \<open>\<^verbatim>\<open>for x in xs { f(x)?; }\<close> collecting the results.\<close>

fun try_map :: "('a \<Rightarrow> 'e + 'b) \<Rightarrow> 'a list \<Rightarrow> 'e + 'b list" where
  "try_map f [] = Ok []"
| "try_map f (x # xs) = and_then (f x) (\<lambda>y. and_then (try_map f xs) (\<lambda>ys. Ok (y # ys)))"

lemma and_then_simps [simp]:
  "and_then (Inl e) k = Inl e" "and_then (Inr x) k = k x"
  by (simp_all add: and_then_def)

lemma and_then_eq_Ok [result_simps]: "and_then r k = Inr y \<longleftrightarrow> (\<exists>x. r = Inr x \<and> k x = Inr y)"
  by (cases r) auto

lemma map_err_simps [simp]:
  "map_err f (Inl e) = Inl (f e)" "map_err f (Inr x) = Inr x"
  by (simp_all add: map_err_def)

lemma map_err_eq_Ok [result_simps]: "map_err f r = Inr y \<longleftrightarrow> r = Inr y"
  by (cases r) auto

lemma ok_or_simps [simp]: "ok_or None e = Inl e" "ok_or (Some x) e = Inr x"
  by (simp_all add: ok_or_def)

lemma ok_or_eq_Ok [result_simps]: "ok_or m e = Inr y \<longleftrightarrow> m = Some y"
  by (cases m) auto

lemma is_ok_simps [simp]: "\<not> is_ok (Inl e)" "is_ok (Inr x)"
  by (simp_all add: is_ok_def)

lemma is_ok_iff: "is_ok r \<longleftrightarrow> (\<exists>x. r = Inr x)"
  by (cases r) auto

lemma if_Err_eq_Ok [result_simps]: "(if c then Inl e else r) = Inr y \<longleftrightarrow> \<not> c \<and> r = Inr y"
  by simp

lemma try_map_eq_Ok [result_simps]:
  "try_map f xs = Inr ys \<longleftrightarrow> list_all2 (\<lambda>x y. f x = Inr y) xs ys"
proof (induction xs arbitrary: ys)
  case Nil
  then show ?case by auto
next
  case (Cons x xs)
  then show ?case by (auto simp: and_then_eq_Ok list_all2_Cons1)
qed

lemma unit_Ok_iff: "(r :: 'e + unit) = Inr u \<longleftrightarrow> is_ok r"
  by (cases r) auto

section \<open>Big-endian bytes\<close>

text \<open>\<open>to_be_bytes n w\<close> is \<^verbatim>\<open>w.to_be_bytes()\<close> for a word of \<open>n\<close> bytes.\<close>

definition to_be_bytes :: "nat \<Rightarrow> 'a::len word \<Rightarrow> bytes" where
  "to_be_bytes n w = map (\<lambda>i. ucast (drop_bit (8 * i) w)) (rev [0..<n])"

definition from_be_bytes :: "bytes \<Rightarrow> 'a::len word" where
  "from_be_bytes bs = foldl (\<lambda>acc b. push_bit 8 acc OR ucast b) 0 bs"

lemma length_to_be_bytes [simp]: "length (to_be_bytes n w) = n"
  by (simp add: to_be_bytes_def)

lemma from_be_bytes_snoc:
  "from_be_bytes (bs @ [b]) = push_bit 8 (from_be_bytes bs) OR ucast b"
  by (simp add: from_be_bytes_def)

lemma from_be_bytes_zeros: "from_be_bytes (replicate n 0) = 0"
proof (induction n)
  case (Suc n)
  have "replicate (Suc n) (0 :: u8) = replicate n 0 @ [0]" by (simp add: replicate_append_same)
  with Suc show ?case by (simp only: from_be_bytes_snoc) simp
qed (simp add: from_be_bytes_def)

lemma bit_from_be_bytes:
  "bit (from_be_bytes bs :: 'a::len word) k \<longleftrightarrow>
     k < LENGTH('a) \<and> k < 8 * length bs \<and> bit (rev bs ! (k div 8)) (k mod 8)"
proof (induction bs arbitrary: k rule: rev_induct)
  case Nil
  then show ?case by (simp add: from_be_bytes_def)
next
  case (snoc b bs)
  show ?case
  proof (cases "k < 8")
    case True
    then show ?thesis
      by (auto simp: from_be_bytes_snoc bit_or_iff bit_push_bit_iff bit_ucast_iff)
  next
    case False
    then have "k div 8 = Suc ((k - 8) div 8)" "k mod 8 = (k - 8) mod 8"
      by (simp_all add: le_div_geq le_mod_geq)
    with False snoc.IH [of "k - 8"] show ?thesis
      by (auto simp: from_be_bytes_snoc bit_or_iff bit_push_bit_iff bit_ucast_iff
          dest: bit_imp_le_length)
  qed
qed

lemma from_to_be_bytes [simp]:
  "LENGTH('a) \<le> 8 * n \<Longrightarrow> from_be_bytes (to_be_bytes n w) = (w :: 'a::len word)"
  by (rule bit_word_eqI)
    (simp add: bit_from_be_bytes to_be_bytes_def rev_map rev_nth bit_ucast_iff bit_drop_bit_eq
      less_mult_imp_div_less mult.commute)

lemma to_from_be_bytes [simp]:
  assumes "length bs = n" and "8 * n \<le> LENGTH('a)"
  shows "to_be_bytes n (from_be_bytes bs :: 'a::len word) = bs"
proof (rule nth_equalityI)
  show "length (to_be_bytes n (from_be_bytes bs :: 'a word)) = length bs"
    using assms(1) by simp
next
  fix i assume "i < length (to_be_bytes n (from_be_bytes bs :: 'a word))"
  then have i: "i < n" by simp
  let ?j = "n - Suc i"
  have "to_be_bytes n (from_be_bytes bs :: 'a word) ! i
      = ucast (drop_bit (8 * ?j) (from_be_bytes bs :: 'a word))"
    using i by (simp add: to_be_bytes_def rev_nth)
  also have "\<dots> = bs ! i"
  proof (rule bit_word_eqI)
    fix k assume k: "k < LENGTH(8)"
    have "rev bs ! ?j = bs ! i"
      using i assms(1) by (simp add: rev_nth)
    moreover have "8 * ?j + k < 8 * n" using k i by auto
    ultimately show "bit (ucast (drop_bit (8 * ?j) (from_be_bytes bs :: 'a word)) :: u8) k
        \<longleftrightarrow> bit (bs ! i) k"
      using k assms by (simp add: bit_ucast_iff bit_drop_bit_eq bit_from_be_bytes)
  qed
  finally show "to_be_bytes n (from_be_bytes bs :: 'a word) ! i = bs ! i" .
qed

lemma to_be_bytes_inject:
  "LENGTH('a) \<le> 8 * n \<Longrightarrow> to_be_bytes n v = to_be_bytes n w \<longleftrightarrow> v = (w :: 'a::len word)"
  by (metis from_to_be_bytes)

section \<open>Strings\<close>

text \<open>
  A Rust string is the list of its Unicode scalar values.  \<^verbatim>\<open>len()\<close> counts UTF-8 bytes,
  \<^verbatim>\<open>trim()\<close> strips the characters with the \<open>White_Space\<close> property at both ends, and
  \<^verbatim>\<open>char::is_control\<close> is the general category \<open>Cc\<close>.
\<close>

type_synonym rust_str = "nat list"

definition utf8_width :: "nat \<Rightarrow> nat" where
  "utf8_width c = (if c < 0x80 then 1 else if c < 0x800 then 2 else if c < 0x10000 then 3 else 4)"

definition str_len :: "rust_str \<Rightarrow> nat" where
  "str_len s = sum_list (map utf8_width s)"

definition is_whitespace :: "nat \<Rightarrow> bool" where
  "is_whitespace c \<longleftrightarrow>
     9 \<le> c \<and> c \<le> 13 \<or> c = 0x20 \<or> c = 0x85 \<or> c = 0xA0 \<or> c = 0x1680 \<or>
     0x2000 \<le> c \<and> c \<le> 0x200A \<or> c = 0x2028 \<or> c = 0x2029 \<or> c = 0x202F \<or> c = 0x205F \<or> c = 0x3000"

definition is_control :: "nat \<Rightarrow> bool" where
  "is_control c \<longleftrightarrow> c \<le> 0x1F \<or> 0x7F \<le> c \<and> c \<le> 0x9F"

definition str_trim :: "rust_str \<Rightarrow> rust_str" where
  "str_trim s = rev (dropWhile is_whitespace (rev (dropWhile is_whitespace s)))"

text \<open>An ASCII literal of the sources.\<close>

definition lit :: "string \<Rightarrow> rust_str" where
  "lit s = map of_char s"

definition ascii_bytes :: "string \<Rightarrow> bytes" where
  "ascii_bytes s = map of_char s"

section \<open>Slices\<close>

text \<open>\<^verbatim>\<open>xs.windows(2).any(|pair| p(pair[0], pair[1]))\<close>\<close>

fun windows2_any :: "('a \<Rightarrow> 'a \<Rightarrow> bool) \<Rightarrow> 'a list \<Rightarrow> bool" where
  "windows2_any p (x # y # zs) = (p x y \<or> windows2_any p (y # zs))"
| "windows2_any p _ = False"

lemma windows2_ge_iff: "windows2_any (\<ge>) xs \<longleftrightarrow> \<not> sorted_wrt (<) (xs :: 'a::linorder list)"
proof (induction "(\<ge>) :: 'a \<Rightarrow> 'a \<Rightarrow> bool" xs rule: windows2_any.induct)
  case (1 x y zs)
  then show ?case by (auto simp: not_le intro: order.strict_trans)
qed auto

lemma windows2_eq_sort_iff: "windows2_any (=) (sort xs) \<longleftrightarrow> \<not> distinct (xs :: 'a::linorder list)"
proof -
  have "sorted ys \<Longrightarrow> windows2_any (=) ys \<longleftrightarrow> \<not> distinct ys" for ys :: "'a list"
    by (induction "(=) :: 'a \<Rightarrow> 'a \<Rightarrow> bool" ys rule: windows2_any.induct) auto
  from this [of "sort xs"] show ?thesis by simp
qed

text \<open>
  \<^verbatim>\<open>slice::binary_search(x).is_ok()\<close>: the halving loop of the standard library.
\<close>

function bsearch_loop :: "'a::linorder list \<Rightarrow> 'a \<Rightarrow> nat \<Rightarrow> nat \<Rightarrow> nat" where
  "bsearch_loop xs x base sz =
     (if 1 < sz
      then let half = sz div 2; mid = base + half
           in bsearch_loop xs x (if x < xs ! mid then base else mid) (sz - half)
      else base)"
  by pat_completeness auto
termination
  by (relation "measure (\<lambda>(xs, x, base, sz). sz)") auto

declare bsearch_loop.simps [simp del]

definition binary_search_found :: "'a::linorder list \<Rightarrow> 'a \<Rightarrow> bool" where
  "binary_search_found xs x \<longleftrightarrow> xs \<noteq> [] \<and> xs ! bsearch_loop xs x 0 (length xs) = x"

lemma bsearch_loop_finds:
  "sorted_wrt (<) xs \<Longrightarrow> base + sz \<le> length xs \<Longrightarrow> 0 < sz \<Longrightarrow>
    bsearch_loop xs x base sz < length xs \<and>
    ((\<exists>i. base \<le> i \<and> i < base + sz \<and> xs ! i = x) \<longrightarrow> xs ! bsearch_loop xs x base sz = x)"
proof (induction xs x base sz rule: bsearch_loop.induct)
  case (1 xs x base sz)
  show ?case
  proof (cases "1 < sz")
    case False
    then have "bsearch_loop xs x base sz = base" by (simp add: bsearch_loop.simps)
    moreover have "sz = 1" using False "1.prems" by auto
    ultimately show ?thesis using "1.prems" by (auto dest: le_less_Suc_eq)
  next
    case True
    define half where "half = sz div 2"
    define mid where "mid = base + half"
    define base' where "base' = (if x < xs ! mid then base else mid)"
    have half: "0 < half" "half < sz" using True by (auto simp: half_def)
    have step: "bsearch_loop xs x base sz = bsearch_loop xs x base' (sz - half)"
      using True by (simp add: bsearch_loop.simps [of xs x base sz] Let_def half_def mid_def base'_def)
    have bound: "base' + (sz - half) \<le> length xs" "0 < sz - half"
      using "1.prems" half by (auto simp: base'_def mid_def)
    have IH: "bsearch_loop xs x base' (sz - half) < length xs \<and>
        ((\<exists>i. base' \<le> i \<and> i < base' + (sz - half) \<and> xs ! i = x) \<longrightarrow>
          xs ! bsearch_loop xs x base' (sz - half) = x)"
      using "1.IH" [OF True half_def mid_def] bound "1.prems"(1) unfolding base'_def by blast
    have keep: "base' \<le> i \<and> i < base' + (sz - half)"
      if i: "base \<le> i" "i < base + sz" "xs ! i = x" for i
    proof (cases "x < xs ! mid")
      case True
      have "i < mid"
      proof (rule ccontr)
        assume "\<not> i < mid"
        then have "xs ! mid \<le> xs ! i"
          using i "1.prems" by (cases "i = mid") (auto simp: sorted_wrt_iff_nth_less intro!: less_imp_le)
        with True i show False by simp
      qed
      then show ?thesis using True i half by (auto simp: base'_def mid_def half_def)
    next
      case False
      have "mid \<le> i"
      proof (rule ccontr)
        assume "\<not> mid \<le> i"
        then have "xs ! i < xs ! mid"
          using half "1.prems" by (auto simp: sorted_wrt_iff_nth_less mid_def)
        with False i show False by simp
      qed
      then show ?thesis using False i half by (auto simp: base'_def mid_def)
    qed
    show ?thesis using IH keep by (auto simp: step)
  qed
qed

text \<open>On the strictly sorted lists the sources search, it decides membership.\<close>

lemma binary_search_found_iff:
  assumes "sorted_wrt (<) xs"
  shows "binary_search_found xs x \<longleftrightarrow> x \<in> set xs"
proof (cases "xs = []")
  case True
  then show ?thesis by (simp add: binary_search_found_def)
next
  case False
  then have "0 < length xs" by simp
  with bsearch_loop_finds [OF assms, of 0 "length xs" x] show ?thesis
    by (auto simp: binary_search_found_def in_set_conv_nth)
qed

end
