(* ===== verification/Interfaces.thy ===== *)
theory Interfaces
  imports Prelude
begin

text \<open>
  The code outside the repository that the sources call, as parameters with their documented
  laws, and the contracts that several components of the repository share, as locales.

  Parameters: the Postcard serializer (one \<open>postcard\<close> record per serialized type) and the
  cryptographic primitives of \<^verbatim>\<open>ed25519_dalek\<close>, \<^verbatim>\<open>sha2\<close>, \<^verbatim>\<open>chacha20poly1305\<close> and \<^verbatim>\<open>hpke\<close>
  (the \<open>crypto\<close> record).  Their laws are the predicates \<open>postcard_ok\<close>, \<open>signatures_ok\<close>,
  \<open>aead_ok\<close> and \<open>hpke_ok\<close>; a theorem that needs one of them says so in its hypotheses.
\<close>

section \<open>Postcard\<close>

record 'a postcard =
  to_stdvec :: "'a \<Rightarrow> bytes option"
  take_from_bytes :: "bytes \<Rightarrow> ('a \<times> bytes) option"

text \<open>Deserializing what was serialized gives the value back and leaves what follows it.\<close>

definition postcard_ok :: "'a postcard \<Rightarrow> bool" where
  "postcard_ok c \<longleftrightarrow>
     (\<forall>v bs rest. to_stdvec c v = Some bs \<longrightarrow> take_from_bytes c (bs @ rest) = Some (v, rest))"

lemma postcard_okD:
  "postcard_ok c \<Longrightarrow> to_stdvec c v = Some bs \<Longrightarrow> take_from_bytes c (bs @ rest) = Some (v, rest)"
  by (simp add: postcard_ok_def)

lemma postcard_okD_exact:
  "postcard_ok c \<Longrightarrow> to_stdvec c v = Some bs \<Longrightarrow> take_from_bytes c bs = Some (v, [])"
  using postcard_okD [of c v bs "[]"] by simp

text \<open>A serializer that knows one value, for concrete instances.\<close>

definition single_postcard :: "'a \<Rightarrow> bytes \<Rightarrow> 'a postcard" where
  "single_postcard v0 tag = \<lparr>
     to_stdvec = (\<lambda>v. if v = v0 then Some tag else None),
     take_from_bytes = (\<lambda>bs. if take (length tag) bs = tag \<and> tag \<noteq> []
                              then Some (v0, drop (length tag) bs) else None)\<rparr>"

lemma single_postcard_ok: "tag \<noteq> [] \<Longrightarrow> postcard_ok (single_postcard v0 tag)"
  by (simp add: postcard_ok_def single_postcard_def)

text \<open>A serializer whose output the instance at hand never reads back.\<close>

definition tag_postcard :: "bytes \<Rightarrow> 'a postcard" where
  "tag_postcard tag = \<lparr>to_stdvec = (\<lambda>_. Some tag), take_from_bytes = (\<lambda>_. None)\<rparr>"

section \<open>Cryptographic primitives\<close>

text \<open>
  \<open>ed_public\<close> is \<^verbatim>\<open>SigningKey::from_bytes(sk).verifying_key().to_bytes()\<close>, \<open>ed_key_ok\<close>
  whether \<^verbatim>\<open>VerifyingKey::from_bytes\<close> accepts a key; \<open>kem_public_ok\<close> and \<open>kem_secret_ok\<close> are
  the same for the HPKE keys.  \<open>hpke_seal\<close> takes the entropy of one encapsulation explicitly.
  A signature is its 64-byte encoding.
\<close>

record crypto =
  sha256 :: "bytes \<Rightarrow> array32"
  ed_key_ok :: "array32 \<Rightarrow> bool"
  ed_public :: "array32 \<Rightarrow> array32"
  ed_sign :: "array32 \<Rightarrow> bytes \<Rightarrow> bytes"
  ed_verify :: "array32 \<Rightarrow> bytes \<Rightarrow> bytes \<Rightarrow> bool"
  kem_public_ok :: "array32 \<Rightarrow> bool"
  kem_secret_ok :: "array32 \<Rightarrow> bool"
  kem_public :: "array32 \<Rightarrow> array32"
  encapped_key_ok :: "array32 \<Rightarrow> bool"
  aead_encrypt :: "array32 \<Rightarrow> array12 \<Rightarrow> bytes \<Rightarrow> bytes \<Rightarrow> bytes option"
  aead_decrypt :: "array32 \<Rightarrow> array12 \<Rightarrow> bytes \<Rightarrow> bytes \<Rightarrow> bytes option"
  hpke_seal :: "bytes \<Rightarrow> array32 \<Rightarrow> bytes \<Rightarrow> bytes \<Rightarrow> bytes \<Rightarrow> (array32 \<times> bytes) option"
  hpke_open :: "array32 \<Rightarrow> array32 \<Rightarrow> bytes \<Rightarrow> bytes \<Rightarrow> bytes \<Rightarrow> bytes option"

text \<open>A derived public key is well formed and accepts the signatures of its secret key.\<close>

definition signatures_ok :: "'z crypto_scheme \<Rightarrow> bool" where
  "signatures_ok C \<longleftrightarrow>
     (\<forall>sk. ed_key_ok C (ed_public C sk)) \<and>
     (\<forall>sk m. length (ed_sign C sk m) = 64) \<and>
     (\<forall>sk m. ed_verify C (ed_public C sk) m (ed_sign C sk m))"

text \<open>Decryption inverts encryption; a ciphertext is the plaintext length plus a 16-byte tag.\<close>

definition aead_ok :: "'z crypto_scheme \<Rightarrow> bool" where
  "aead_ok C \<longleftrightarrow>
     (\<forall>key nonce aad msg ct. aead_encrypt C key nonce aad msg = Some ct \<longrightarrow>
        aead_decrypt C key nonce aad ct = Some msg \<and> length ct = length msg + 16)"

text \<open>Opening inverts sealing for the recipient's secret key.\<close>

definition hpke_ok :: "'z crypto_scheme \<Rightarrow> bool" where
  "hpke_ok C \<longleftrightarrow>
     (\<forall>sk. kem_secret_ok C sk \<longrightarrow> kem_public_ok C (kem_public C sk)) \<and>
     (\<forall>rnd sk info msg aad enc ct. kem_secret_ok C sk \<longrightarrow>
        hpke_seal C rnd (kem_public C sk) info msg aad = Some (enc, ct) \<longrightarrow>
        encapped_key_ok C enc \<and> hpke_open C sk enc info ct aad = Some msg)"

section \<open>Shared contracts\<close>

text \<open>
  A canonical byte format: what \<open>encode\<close> produces is the Postcard form, \<open>decode\<close> accepts only
  the Postcard form of its result, and decodes what \<open>encode\<close> produced.  Descriptors, native
  objects, key envelopes, pairing requests, credentials, revocation lists and wire messages
  all follow it.
\<close>

locale canonical_format =
  fixes codec :: "'a postcard"
    and encode :: "'a \<Rightarrow> 'e + bytes"
    and decode :: "bytes \<Rightarrow> 'f + 'a"
  assumes encode_form: "encode v = Ok bs \<Longrightarrow> to_stdvec codec v = Some bs"
    and decode_form: "decode bs = Ok v \<Longrightarrow> to_stdvec codec v = Some bs"
    and decode_encode: "postcard_ok codec \<Longrightarrow> encode v = Ok bs \<Longrightarrow> decode bs = Ok v"
begin

lemma decode_unique: "decode bs = Ok v \<Longrightarrow> decode bs' = Ok v \<Longrightarrow> bs = bs'"
  using decode_form [of bs v] decode_form [of bs' v] by simp

lemma encode_inject: "postcard_ok codec \<Longrightarrow> encode v = Ok bs \<Longrightarrow> encode w = Ok bs \<Longrightarrow> v = w"
  using decode_encode [of v bs] decode_encode [of w bs] by simp

lemma rejects_trailing:
  assumes "postcard_ok codec" and "encode v = Ok bs" and "rest \<noteq> []"
  shows "\<not> is_ok (decode (bs @ rest))"
proof
  assume "is_ok (decode (bs @ rest))"
  then obtain w where w: "decode (bs @ rest) = Ok w" by (auto simp: is_ok_iff)
  have "take_from_bytes codec (bs @ rest) = Some (w, [])"
    by (rule postcard_okD_exact [OF assms(1) decode_form [OF w]])
  moreover have "take_from_bytes codec (bs @ rest) = Some (v, rest)"
    by (rule postcard_okD [OF assms(1) encode_form [OF assms(2)]])
  ultimately show False using assms(3) by simp
qed

lemma rejects_truncation:
  assumes "postcard_ok codec" and "encode v = Ok bs" and "n < length bs"
  shows "\<not> is_ok (decode (take n bs))"
proof
  assume "is_ok (decode (take n bs))"
  then obtain w where w: "decode (take n bs) = Ok w" by (auto simp: is_ok_iff)
  have "take_from_bytes codec (take n bs @ drop n bs) = Some (w, drop n bs)"
    by (rule postcard_okD [OF assms(1) decode_form [OF w]])
  moreover have "take_from_bytes codec bs = Some (v, [])"
    by (rule postcard_okD_exact [OF assms(1) encode_form [OF assms(2)]])
  ultimately show False using assms(3) by simp
qed

end

text \<open>
  A guard over a stream of numbered items: a step that accepts an item moves the high-water
  mark to the item's number, which was above it.  The items refused leave the state alone.
\<close>

fun accepted :: "('s \<Rightarrow> 'x \<Rightarrow> 'e + 's \<times> 'y) \<Rightarrow> 's \<Rightarrow> 'x list \<Rightarrow> ('x \<times> 'y) list" where
  "accepted step s [] = []"
| "accepted step s (x # xs) =
     (case step s x of
        Inl e \<Rightarrow> accepted step s xs
      | Inr (s', y) \<Rightarrow> (x, y) # accepted step s' xs)"

lemma accepted_all:
  assumes "\<And>s x s' y. I s \<Longrightarrow> step s x = Ok (s', y) \<Longrightarrow> I s' \<and> P x y" and "I s"
  shows "\<forall>(x, y) \<in> set (accepted step s xs). P x y"
  using assms(2)
proof (induction xs arbitrary: s)
  case (Cons x xs)
  show ?case
  proof (cases "step s x")
    case (Inl e)
    then show ?thesis using Cons by simp
  next
    case (Inr r)
    then obtain s' y where "step s x = Ok (s', y)" by (cases r) auto
    with assms(1) [OF Cons.prems this] Cons.IH [of s'] show ?thesis by auto
  qed
qed simp

locale increasing_guard =
  fixes step :: "'s \<Rightarrow> 'x \<Rightarrow> 'e + 's \<times> 'y"
    and mark :: "'s \<Rightarrow> 'n::linorder"
    and number :: "'x \<Rightarrow> 'n"
  assumes accepts: "step s x = Ok (s', y) \<Longrightarrow> mark s < number x \<and> mark s' = number x"
begin

lemma accepted_increasing:
  "sorted_wrt (<) (map (number \<circ> fst) (accepted step s xs)) \<and>
   (\<forall>(x, y) \<in> set (accepted step s xs). mark s < number x)"
proof (induction xs arbitrary: s)
  case Nil
  then show ?case by simp
next
  case (Cons x xs)
  show ?case
  proof (cases "step s x")
    case (Inl e)
    then show ?thesis using Cons by simp
  next
    case (Inr p)
    then obtain s' y where p: "step s x = Ok (s', y)" by (cases p) auto
    from accepts [OF p] have *: "mark s < number x" "mark s' = number x" by simp_all
    show ?thesis
      using Cons [of s'] * by (fastforce simp: p)
  qed
qed

lemma accepted_distinct: "distinct (map (number \<circ> fst) (accepted step s xs))"
  using accepted_increasing [of s xs] strict_sorted_iff by blast

end

text \<open>
  A component with an invariant: every step of its step relation keeps it, so it holds in
  every state reached from a state where it held.
\<close>

locale invariant_machine =
  fixes step :: "'s \<Rightarrow> 's \<Rightarrow> bool"
    and inv :: "'s \<Rightarrow> bool"
  assumes step_inv: "step s t \<Longrightarrow> inv s \<Longrightarrow> inv t"
begin

lemma reachable_inv: "step\<^sup>*\<^sup>* s t \<Longrightarrow> inv s \<Longrightarrow> inv t"
  by (induction rule: rtranclp_induct) (auto intro: step_inv)

end

end
