(* ===== verification/Cursor.thy ===== *)
theory Cursor
  imports Interfaces
begin

text \<open>
  \<^verbatim>\<open>crates/protocol/src/cursor.rs\<close>: the compact cursor batches carried in encrypted cursor
  objects, their validation, and the \<^verbatim>\<open>Reader\<close> over a byte slice.
\<close>

section \<open>Data\<close>

definition MAX_CURSOR_PLAINTEXT_LEN :: nat where
  "MAX_CURSOR_PLAINTEXT_LEN = 4 * 1024 * 1024"

definition MAX_CURSOR_BITMAP_SIDE :: u32 where
  "MAX_CURSOR_BITMAP_SIDE = 512"

definition CURSOR_BATCH_HEADER_LEN :: nat where
  "CURSOR_BATCH_HEADER_LEN = 14"

definition CURSOR_EVENT_LEN :: nat where
  "CURSOR_EVENT_LEN = 33"

definition CURSOR_BITMAP_HEADER_LEN :: nat where
  "CURSOR_BITMAP_HEADER_LEN = 20"

datatype cursor_error = CursorTooLarge | CursorMalformed

record cursor_bitmap =
  bm_width :: u32
  bm_height :: u32
  hotspot_x :: i32
  hotspot_y :: i32
  rgba :: bytes

record cursor_event =
  ev_timestamp :: u64
  x_micropixels :: i64
  y_micropixels :: i64
  visible :: bool
  bitmap_id :: u64
  bitmap :: "cursor_bitmap option"

record cursor_batch =
  source_width :: u32
  source_height :: u32
  events :: "cursor_event list"

record cursor_context =
  cx_stream_id :: uuid
  cx_epoch_id :: uuid
  cx_sequence :: u64
  cx_start_timestamp :: u64
  cx_source_width :: u32
  cx_source_height :: u32

section \<open>Validation\<close>

fun encoded_len_loop :: "nat \<Rightarrow> cursor_event list \<Rightarrow> cursor_error + nat" where
  "encoded_len_loop len [] = Ok len"
| "encoded_len_loop len (e # es) =
     and_then (ok_or (checked_add_usize len CURSOR_EVENT_LEN) CursorTooLarge) (\<lambda>len1.
       and_then (case bitmap e of
                   None \<Rightarrow> Ok len1
                 | Some b \<Rightarrow>
                     ok_or (Option.bind (checked_add_usize len1 CURSOR_BITMAP_HEADER_LEN)
                              (\<lambda>v. checked_add_usize v (length (rgba b)))) CursorTooLarge)
         (\<lambda>len2. if len2 > MAX_CURSOR_PLAINTEXT_LEN then Err CursorTooLarge
                 else encoded_len_loop len2 es))"

definition encoded_len :: "cursor_batch \<Rightarrow> cursor_error + nat" where
  "encoded_len batch =
     (if length (events batch) > 2 ^ 16 - 1 then Err CursorTooLarge
      else encoded_len_loop CURSOR_BATCH_HEADER_LEN (events batch))"

definition bitmap_invalid :: "u64 \<Rightarrow> cursor_bitmap \<Rightarrow> bool" where
  "bitmap_invalid bid b \<longleftrightarrow>
     bid = 0 \<or> bm_width b = 0 \<or> bm_height b = 0 \<or>
     bm_width b > MAX_CURSOR_BITMAP_SIDE \<or> bm_height b > MAX_CURSOR_BITMAP_SIDE \<or>
     sint (hotspot_x b) < 0 \<or> sint (hotspot_y b) < 0 \<or>
     nat \<bar>sint (hotspot_x b)\<bar> \<ge> unat (bm_width b) \<or>
     nat \<bar>sint (hotspot_y b)\<bar> \<ge> unat (bm_height b) \<or>
     Option.bind (checked_mul_usize (unat (bm_width b)) (unat (bm_height b)))
       (\<lambda>pixels. checked_mul_usize pixels 4) \<noteq> Some (length (rgba b))"

fun validate_events :: "int \<Rightarrow> int \<Rightarrow> u64 option \<Rightarrow> cursor_event list \<Rightarrow> cursor_error + unit" where
  "validate_events max_x max_y previous [] = Ok ()"
| "validate_events max_x max_y previous (e # es) =
     (if (case previous of Some v \<Rightarrow> ev_timestamp e < v | None \<Rightarrow> False) then Err CursorMalformed
      else if visible e \<and> (\<not> (0 \<le> sint (x_micropixels e) \<and> sint (x_micropixels e) \<le> max_x) \<or>
                            \<not> (0 \<le> sint (y_micropixels e) \<and> sint (y_micropixels e) \<le> max_y))
      then Err CursorMalformed
      else if \<not> visible e \<and> (x_micropixels e \<noteq> 0 \<or> y_micropixels e \<noteq> 0 \<or> bitmap e \<noteq> None)
      then Err CursorMalformed
      else if (case bitmap e of Some b \<Rightarrow> bitmap_invalid (bitmap_id e) b | None \<Rightarrow> False)
      then Err CursorMalformed
      else validate_events max_x max_y (Some (ev_timestamp e)) es)"

text \<open>Both products are below \<open>2 ^ 36\<close>, so the 64-bit multiplication does not overflow.\<close>

definition validate_cursor_batch :: "cursor_batch \<Rightarrow> cursor_error + unit" where
  "validate_cursor_batch batch =
     (if source_width batch = 0 \<or> source_height batch = 0 \<or>
         source_width batch > 65535 \<or> source_height batch > 65535 \<or> events batch = []
      then Err CursorMalformed
      else and_then (validate_events (uint (source_width batch) * 1000000)
                       (uint (source_height batch) * 1000000) None (events batch))
             (\<lambda>_. and_then (encoded_len batch) (\<lambda>_. Ok ())))"

definition validate_cursor_context :: "cursor_batch \<Rightarrow> cursor_context \<Rightarrow> cursor_error + unit" where
  "validate_cursor_context batch cx =
     (if is_nil (cx_stream_id cx) \<or> is_nil (cx_epoch_id cx) \<or>
         source_width batch \<noteq> cx_source_width cx \<or> source_height batch \<noteq> cx_source_height cx \<or>
         (case events batch of [] \<Rightarrow> None | e # _ \<Rightarrow> Some (ev_timestamp e)) \<noteq> Some (cx_start_timestamp cx)
      then Err CursorMalformed
      else Ok ())"

section \<open>Encoding\<close>

definition event_flags :: "cursor_event \<Rightarrow> u8" where
  "event_flags e = of_bool (visible e) OR push_bit 1 (of_bool (bitmap e \<noteq> None))"

definition encode_bitmap :: "cursor_bitmap \<Rightarrow> cursor_error + bytes" where
  "encode_bitmap b =
     (if length (rgba b) \<ge> 2 ^ 32 then Err CursorTooLarge
      else Ok (to_be_bytes 4 (bm_width b) @ to_be_bytes 4 (bm_height b)
               @ to_be_bytes 4 (hotspot_x b) @ to_be_bytes 4 (hotspot_y b)
               @ to_be_bytes 4 (of_nat (length (rgba b)) :: u32) @ rgba b))"

definition encode_event :: "cursor_event \<Rightarrow> cursor_error + bytes" where
  "encode_event e =
     and_then (case bitmap e of None \<Rightarrow> Ok [] | Some b \<Rightarrow> encode_bitmap b) (\<lambda>image.
       Ok (to_be_bytes 8 (ev_timestamp e) @ to_be_bytes 8 (x_micropixels e)
           @ to_be_bytes 8 (y_micropixels e) @ [event_flags e] @ to_be_bytes 8 (bitmap_id e) @ image))"

definition encode_cursor_batch :: "cursor_context \<Rightarrow> cursor_batch \<Rightarrow> cursor_error + bytes" where
  "encode_cursor_batch cx batch =
     and_then (validate_cursor_batch batch) (\<lambda>_.
     and_then (validate_cursor_context batch cx) (\<lambda>_.
     and_then (encoded_len batch) (\<lambda>_.
     if length (events batch) \<ge> 2 ^ 16 then Err CursorTooLarge
     else and_then (try_map encode_event (events batch)) (\<lambda>chunks.
       Ok (ascii_bytes ''GCC1'' @ to_be_bytes 4 (source_width batch) @ to_be_bytes 4 (source_height batch)
           @ to_be_bytes 2 (of_nat (length (events batch)) :: u16) @ concat chunks)))))"

section \<open>The reader\<close>

record reader =
  rd_bytes :: bytes
  rd_offset :: nat

definition reader_new :: "bytes \<Rightarrow> reader" where
  "reader_new bs = \<lparr>rd_bytes = bs, rd_offset = 0\<rparr>"

definition reader_take :: "nat \<Rightarrow> reader \<Rightarrow> cursor_error + bytes \<times> reader" where
  "reader_take n r =
     and_then (ok_or (checked_add_usize (rd_offset r) n) CursorMalformed) (\<lambda>e.
       if rd_offset r \<le> e \<and> e \<le> length (rd_bytes r)
       then Ok (take n (drop (rd_offset r) (rd_bytes r)), r\<lparr>rd_offset := e\<rparr>)
       else Err CursorMalformed)"

definition reader_word :: "nat \<Rightarrow> reader \<Rightarrow> cursor_error + 'a::len word \<times> reader" where
  "reader_word n r = and_then (reader_take n r) (\<lambda>(bs, r'). Ok (from_be_bytes bs, r'))"

abbreviation reader_u8 :: "reader \<Rightarrow> cursor_error + u8 \<times> reader" where
  "reader_u8 \<equiv> reader_word 1"

abbreviation reader_u16 :: "reader \<Rightarrow> cursor_error + u16 \<times> reader" where
  "reader_u16 \<equiv> reader_word 2"

abbreviation reader_u32 :: "reader \<Rightarrow> cursor_error + u32 \<times> reader" where
  "reader_u32 \<equiv> reader_word 4"

abbreviation reader_u64 :: "reader \<Rightarrow> cursor_error + u64 \<times> reader" where
  "reader_u64 \<equiv> reader_word 8"

definition reader_is_empty :: "reader \<Rightarrow> bool" where
  "reader_is_empty r \<longleftrightarrow> rd_offset r = length (rd_bytes r)"

definition reader_remaining :: "reader \<Rightarrow> nat" where
  "reader_remaining r = length (rd_bytes r) - rd_offset r"

section \<open>Decoding\<close>

definition decode_bitmap :: "reader \<Rightarrow> cursor_error + cursor_bitmap \<times> reader" where
  "decode_bitmap r0 =
     and_then (reader_u32 r0) (\<lambda>(w, r1).
     and_then (reader_u32 r1) (\<lambda>(h, r2).
     and_then (reader_u32 r2) (\<lambda>(hx, r3).
     and_then (reader_u32 r3) (\<lambda>(hy, r4).
     and_then (reader_u32 r4) (\<lambda>(n, r5).
     and_then (reader_take (unat n) r5) (\<lambda>(image, r6).
       Ok (\<lparr>bm_width = w, bm_height = h, hotspot_x = hx, hotspot_y = hy, rgba = image\<rparr>, r6)))))))"

definition decode_event :: "reader \<Rightarrow> cursor_error + cursor_event \<times> reader" where
  "decode_event r0 =
     and_then (reader_u64 r0) (\<lambda>(ts, r1).
     and_then (reader_u64 r1) (\<lambda>(x, r2).
     and_then (reader_u64 r2) (\<lambda>(y, r3).
     and_then (reader_u8 r3) (\<lambda>(flags, r4).
     if flags AND NOT 3 \<noteq> 0 then Err CursorMalformed
     else and_then (reader_u64 r4) (\<lambda>(bid, r5).
     and_then (if flags AND 2 \<noteq> 0
               then and_then (decode_bitmap r5) (\<lambda>(b, r6). Ok (Some b, r6))
               else Ok (None, r5)) (\<lambda>(image, r6).
       Ok (\<lparr>ev_timestamp = ts, x_micropixels = x, y_micropixels = y, visible = (flags AND 1 \<noteq> 0),
            bitmap_id = bid, bitmap = image\<rparr>, r6)))))))"

text \<open>\<^verbatim>\<open>for _ in 0..n { ... push(item) }\<close>\<close>

fun reader_repeat ::
  "(reader \<Rightarrow> cursor_error + 'a \<times> reader) \<Rightarrow> nat \<Rightarrow> reader \<Rightarrow> cursor_error + 'a list \<times> reader" where
  "reader_repeat item 0 r = Ok ([], r)"
| "reader_repeat item (Suc n) r =
     and_then (item r) (\<lambda>(e, r').
       and_then (reader_repeat item n r') (\<lambda>(es, r''). Ok (e # es, r'')))"

definition decode_cursor_batch :: "cursor_context \<Rightarrow> bytes \<Rightarrow> cursor_error + cursor_batch" where
  "decode_cursor_batch cx bs =
     (if length bs > MAX_CURSOR_PLAINTEXT_LEN then Err CursorTooLarge
      else and_then (reader_take 4 (reader_new bs)) (\<lambda>(magic, r0).
        if magic \<noteq> ascii_bytes ''GCC1'' then Err CursorMalformed
        else and_then (reader_u32 r0) (\<lambda>(w, r1).
        and_then (reader_u32 r1) (\<lambda>(h, r2).
        and_then (reader_u16 r2) (\<lambda>(event_count, r3).
        if reader_remaining r3 < unat event_count * CURSOR_EVENT_LEN then Err CursorMalformed
        else and_then (reader_repeat decode_event (unat event_count) r3) (\<lambda>(es, r4).
        if \<not> reader_is_empty r4 then Err CursorMalformed
        else let batch = \<lparr>source_width = w, source_height = h, events = es\<rparr>
             in and_then (validate_cursor_batch batch) (\<lambda>_.
                and_then (validate_cursor_context batch cx) (\<lambda>_. Ok batch))))))))"

section \<open>Reading back what was written\<close>

text \<open>The reader stands before the bytes \<open>xs\<close>.\<close>

definition reader_at :: "reader \<Rightarrow> bytes \<Rightarrow> bool" where
  "reader_at r xs \<longleftrightarrow>
     rd_offset r \<le> length (rd_bytes r) \<and> length (rd_bytes r) \<le> usize_MAX \<and>
     drop (rd_offset r) (rd_bytes r) = xs"

lemma reader_at_new: "length bs \<le> usize_MAX \<Longrightarrow> reader_at (reader_new bs) bs"
  by (simp add: reader_at_def reader_new_def)

lemma reader_at_empty: "reader_at r xs \<Longrightarrow> reader_is_empty r \<longleftrightarrow> xs = []"
  by (auto simp: reader_at_def reader_is_empty_def)

lemma reader_at_remaining: "reader_at r xs \<Longrightarrow> reader_remaining r = length xs"
  by (auto simp: reader_at_def reader_remaining_def)

lemma reader_take_at:
  assumes "reader_at r (xs @ rest)" and "length xs = n"
  shows "\<exists>r'. reader_take n r = Ok (xs, r') \<and> reader_at r' rest"
proof -
  from assms have d: "drop (rd_offset r) (rd_bytes r) = xs @ rest"
    "rd_offset r \<le> length (rd_bytes r)" "length (rd_bytes r) \<le> usize_MAX"
    by (simp_all add: reader_at_def)
  have len: "rd_offset r + n + length rest = length (rd_bytes r)"
    using arg_cong [OF d(1), of length] d(2) assms(2) by simp
  have "drop (n + rd_offset r) (rd_bytes r) = rest"
    using arg_cong [OF d(1), of "drop n"] assms(2) by simp
  with d len assms(2) show ?thesis
    by (auto simp: reader_take_def checked_add_usize_def reader_at_def add.commute)
qed

lemma reader_take_sound:
  assumes "reader_take n r = Ok (ys, r')" and "reader_at r xs"
  shows "\<exists>rest. xs = ys @ rest \<and> length ys = n \<and> reader_at r' rest"
proof -
  from assms have "ys = take n xs" "n \<le> length xs"
    by (auto simp: reader_take_def reader_at_def checked_add_usize_def result_simps split: if_splits)
  then have "xs = ys @ drop n xs" "length ys = n" by auto
  with assms show ?thesis
    using reader_take_at [of r ys "drop n xs" n] by auto
qed

text \<open>
  One field of the format: \<open>rd\<close> reads back what \<open>enc\<close> writes, and what it reads is exactly
  what \<open>enc\<close> writes for the value it returns.
\<close>

locale reader_field =
  fixes rd :: "reader \<Rightarrow> cursor_error + 'a \<times> reader"
    and enc :: "'a \<Rightarrow> cursor_error + bytes"
  assumes reads: "enc v = Ok bs \<Longrightarrow> reader_at r (bs @ rest) \<Longrightarrow>
      \<exists>r'. rd r = Ok (v, r') \<and> reader_at r' rest"
    and sound: "rd r = Ok (v, r') \<Longrightarrow> reader_at r xs \<Longrightarrow>
      \<exists>bs rest. enc v = Ok bs \<and> xs = bs @ rest \<and> reader_at r' rest"
begin

lemma repeat_reads:
  "try_map enc vs = Ok chunks \<Longrightarrow> reader_at r (concat chunks @ rest) \<Longrightarrow>
    \<exists>r'. reader_repeat rd (length vs) r = Ok (vs, r') \<and> reader_at r' rest"
proof (induction vs arbitrary: chunks r)
  case Nil
  then show ?case by simp
next
  case (Cons v vs)
  then obtain bs chunks' where
    enc: "enc v = Ok bs" "try_map enc vs = Ok chunks'" "chunks = bs # chunks'"
    by (auto simp: and_then_eq_Ok)
  from Cons.prems(2) enc have "reader_at r (bs @ (concat chunks' @ rest))" by simp
  from reads [OF enc(1) this] obtain r1 where
    "rd r = Ok (v, r1)" "reader_at r1 (concat chunks' @ rest)" by blast
  with Cons.IH [OF enc(2)] show ?case by fastforce
qed

lemma repeat_sound:
  "reader_repeat rd n r = Ok (vs, r') \<Longrightarrow> reader_at r xs \<Longrightarrow>
    \<exists>chunks rest. try_map enc vs = Ok chunks \<and> length vs = n \<and> xs = concat chunks @ rest \<and>
      reader_at r' rest"
proof (induction n arbitrary: r vs xs)
  case 0
  then show ?case by auto
next
  case (Suc n)
  then obtain v r1 vs' where
    *: "rd r = Ok (v, r1)" "reader_repeat rd n r1 = Ok (vs', r')" "vs = v # vs'"
    by (auto simp: and_then_eq_Ok)
  from sound [OF *(1) Suc.prems(2)] obtain bs rest where
    "enc v = Ok bs" "xs = bs @ rest" "reader_at r1 rest" by blast
  with Suc.IH [OF *(2)] *(3) show ?case by fastforce
qed

end

lemma reader_field_word:
  assumes "8 * n = LENGTH('a::len)"
  shows "reader_field (reader_word n) (\<lambda>w :: 'a word. Ok (to_be_bytes n w))"
proof
  fix v :: "'a word" and bs r rest
  assume "Ok (to_be_bytes n v) = (Ok bs :: cursor_error + bytes)" "reader_at r (bs @ rest)"
  with reader_take_at [of r bs rest n] assms show "\<exists>r'. reader_word n r = Ok (v, r') \<and> reader_at r' rest"
    by (auto simp: reader_word_def)
next
  fix v :: "'a word" and r r' xs
  assume "reader_word n r = Ok (v, r')" "reader_at r xs"
  then obtain ys where "reader_take n r = Ok (ys, r')" "v = from_be_bytes ys"
    by (auto simp: reader_word_def and_then_eq_Ok)
  with reader_take_sound [OF this(1) \<open>reader_at r xs\<close>] assms
  show "\<exists>bs rest. Ok (to_be_bytes n v) = (Ok bs :: cursor_error + bytes) \<and> xs = bs @ rest \<and> reader_at r' rest"
    by auto
qed

interpretation rd_u8: reader_field reader_u8 "\<lambda>w. Ok (to_be_bytes 1 w)"
  by (rule reader_field_word) simp

interpretation rd_u16: reader_field reader_u16 "\<lambda>w. Ok (to_be_bytes 2 w)"
  by (rule reader_field_word) simp

interpretation rd_u32: reader_field reader_u32 "\<lambda>w. Ok (to_be_bytes 4 w)"
  by (rule reader_field_word) simp

interpretation rd_u64: reader_field reader_u64 "\<lambda>w. Ok (to_be_bytes 8 w)"
  by (rule reader_field_word) simp

text \<open>A bitmap and an event as sequences of fields.\<close>

lemma reader_take_field: "length xs = n \<Longrightarrow> reader_at r (xs @ rest) \<Longrightarrow>
    \<exists>r'. reader_take n r = Ok (xs, r') \<and> reader_at r' rest"
  using reader_take_at by blast

lemma decode_bitmap_reads:
  assumes enc: "encode_bitmap b = Ok bs" and at: "reader_at r (bs @ rest)"
  shows "\<exists>r'. decode_bitmap r = Ok (b, r') \<and> reader_at r' rest"
proof -
  from enc have small: "length (rgba b) < 2 ^ 32"
    and bs: "bs = to_be_bytes 4 (bm_width b) @ to_be_bytes 4 (bm_height b)
               @ to_be_bytes 4 (hotspot_x b) @ to_be_bytes 4 (hotspot_y b)
               @ to_be_bytes 4 (of_nat (length (rgba b)) :: u32) @ rgba b"
    by (simp_all add: encode_bitmap_def split: if_splits)
  have len: "unat (of_nat (length (rgba b)) :: u32) = length (rgba b)"
    using small by (simp add: unsigned_of_nat take_bit_nat_eq_self)
  from at bs obtain r1 where r1: "reader_u32 r = Ok (bm_width b, r1)"
    "reader_at r1 (to_be_bytes 4 (bm_height b) @ to_be_bytes 4 (hotspot_x b)
      @ to_be_bytes 4 (hotspot_y b) @ to_be_bytes 4 (of_nat (length (rgba b)) :: u32) @ rgba b @ rest)"
    using rd_u32.reads [OF refl, of r "bm_width b"] by auto
  then obtain r2 where r2: "reader_u32 r1 = Ok (bm_height b, r2)"
    "reader_at r2 (to_be_bytes 4 (hotspot_x b)
      @ to_be_bytes 4 (hotspot_y b) @ to_be_bytes 4 (of_nat (length (rgba b)) :: u32) @ rgba b @ rest)"
    using rd_u32.reads [OF refl, of r1 "bm_height b"] by auto
  then obtain r3 where r3: "reader_u32 r2 = Ok (hotspot_x b, r3)"
    "reader_at r3 (to_be_bytes 4 (hotspot_y b) @ to_be_bytes 4 (of_nat (length (rgba b)) :: u32) @ rgba b @ rest)"
    using rd_u32.reads [OF refl, of r2 "hotspot_x b"] by auto
  then obtain r4 where r4: "reader_u32 r3 = Ok (hotspot_y b, r4)"
    "reader_at r4 (to_be_bytes 4 (of_nat (length (rgba b)) :: u32) @ rgba b @ rest)"
    using rd_u32.reads [OF refl, of r3 "hotspot_y b"] by auto
  then obtain r5 where r5: "reader_u32 r4 = Ok (of_nat (length (rgba b)), r5)"
    "reader_at r5 (rgba b @ rest)"
    using rd_u32.reads [OF refl, of r4 "of_nat (length (rgba b))"] by auto
  with reader_take_at [OF r5(2) refl] r1 r2 r3 r4 show ?thesis
    by (auto simp: decode_bitmap_def len)
qed

lemma decode_bitmap_sound:
  assumes "decode_bitmap r = Ok (b, r')" and at: "reader_at r xs"
  shows "\<exists>bs rest. encode_bitmap b = Ok bs \<and> xs = bs @ rest \<and> reader_at r' rest"
proof -
  from assms(1) obtain w h hx hy n image r1 r2 r3 r4 r5 where
    steps: "reader_u32 r = Ok (w, r1)" "reader_u32 r1 = Ok (h, r2)" "reader_u32 r2 = Ok (hx, r3)"
      "reader_u32 r3 = Ok (hy, r4)" "reader_u32 r4 = Ok (n, r5)" "reader_take (unat n) r5 = Ok (image, r')"
    and b: "b = \<lparr>bm_width = w, bm_height = h, hotspot_x = hx, hotspot_y = hy, rgba = image\<rparr>"
    by (auto simp: decode_bitmap_def and_then_eq_Ok)
  from rd_u32.sound [OF steps(1) at] obtain s1 where s1: "xs = to_be_bytes 4 w @ s1" "reader_at r1 s1" by auto
  from rd_u32.sound [OF steps(2) s1(2)] obtain s2 where s2: "s1 = to_be_bytes 4 h @ s2" "reader_at r2 s2" by auto
  from rd_u32.sound [OF steps(3) s2(2)] obtain s3 where s3: "s2 = to_be_bytes 4 hx @ s3" "reader_at r3 s3" by auto
  from rd_u32.sound [OF steps(4) s3(2)] obtain s4 where s4: "s3 = to_be_bytes 4 hy @ s4" "reader_at r4 s4" by auto
  from rd_u32.sound [OF steps(5) s4(2)] obtain s5 where s5: "s4 = to_be_bytes 4 n @ s5" "reader_at r5 s5" by auto
  from reader_take_sound [OF steps(6) s5(2)] obtain rest where
    s6: "s5 = image @ rest" "length image = unat n" "reader_at r' rest" by auto
  have "unat n < 2 ^ 32" using unsigned_less [of n] by simp
  then show ?thesis
    using s1 s2 s3 s4 s5 s6 b by (auto simp: encode_bitmap_def)
qed

interpretation rd_bitmap: reader_field decode_bitmap encode_bitmap
  by unfold_locales (fact decode_bitmap_reads, fact decode_bitmap_sound)

text \<open>The flag byte has two bits.\<close>

lemma flags_cases:
  assumes "flags AND NOT (3 :: u8) = 0"
  shows "flags = 0 \<or> flags = 1 \<or> flags = 2 \<or> flags = 3"
proof -
  have "flags = take_bit 2 flags"
  proof (rule bit_word_eqI)
    fix k assume k: "k < LENGTH(8)"
    have "bit (flags AND NOT (mask 2)) k \<longleftrightarrow> False"
      using assms by (simp add: mask_eq_exp_minus_1)
    with k show "bit flags k \<longleftrightarrow> bit (take_bit 2 flags) k"
      by (auto simp: bit_and_iff bit_not_iff bit_mask_iff bit_take_bit_iff)
  qed
  then have "unat flags < 4"
    by (metis take_bit_nat_less_exp unsigned_take_bit_eq power2_eq_square mult_2 numeral_Bit0)
  then have "unat flags = 0 \<or> unat flags = 1 \<or> unat flags = 2 \<or> unat flags = 3" by auto
  then show ?thesis by (auto simp: word_unat_eq_iff)
qed

lemma event_flags_bits [simp]:
  "event_flags e AND NOT 3 = 0"
  "event_flags e AND - 4 = 0"
  "event_flags e AND 1 = of_bool (visible e)"
  "event_flags e AND 2 = push_bit 1 (of_bool (bitmap e \<noteq> None))"
  by (cases "visible e"; cases "bitmap e"; simp add: event_flags_def; code_simp)+

lemma to_be_bytes_u8: "to_be_bytes (Suc 0) (b :: u8) = [b]"
  by (simp add: to_be_bytes_def)

lemma decode_event_reads:
  assumes enc: "encode_event e = Ok bs" and at: "reader_at r (bs @ rest)"
  shows "\<exists>r'. decode_event r = Ok (e, r') \<and> reader_at r' rest"
proof -
  from enc obtain image where
    image: "(case bitmap e of None \<Rightarrow> Ok [] | Some b \<Rightarrow> encode_bitmap b) = Ok image"
    and bs: "bs = to_be_bytes 8 (ev_timestamp e) @ to_be_bytes 8 (x_micropixels e)
           @ to_be_bytes 8 (y_micropixels e) @ [event_flags e] @ to_be_bytes 8 (bitmap_id e) @ image"
    by (auto simp: encode_event_def and_then_eq_Ok)
  from at bs obtain r1 where r1: "reader_u64 r = Ok (ev_timestamp e, r1)"
    "reader_at r1 (to_be_bytes 8 (x_micropixels e)
           @ to_be_bytes 8 (y_micropixels e) @ [event_flags e] @ to_be_bytes 8 (bitmap_id e) @ image @ rest)"
    using rd_u64.reads [OF refl, of r "ev_timestamp e"] by auto
  then obtain r2 where r2: "reader_u64 r1 = Ok (x_micropixels e, r2)"
    "reader_at r2 (to_be_bytes 8 (y_micropixels e) @ [event_flags e] @ to_be_bytes 8 (bitmap_id e) @ image @ rest)"
    using rd_u64.reads [OF refl, of r1 "x_micropixels e"] by auto
  then obtain r3 where r3: "reader_u64 r2 = Ok (y_micropixels e, r3)"
    "reader_at r3 (to_be_bytes 1 (event_flags e) @ to_be_bytes 8 (bitmap_id e) @ image @ rest)"
    using rd_u64.reads [OF refl, of r2 "y_micropixels e"] by (auto simp: to_be_bytes_u8)
  then obtain r4 where r4: "reader_u8 r3 = Ok (event_flags e, r4)"
    "reader_at r4 (to_be_bytes 8 (bitmap_id e) @ image @ rest)"
    using rd_u8.reads [OF refl, of r3 "event_flags e"] by auto
  then obtain r5 where r5: "reader_u64 r4 = Ok (bitmap_id e, r5)" "reader_at r5 (image @ rest)"
    using rd_u64.reads [OF refl, of r4 "bitmap_id e"] by auto
  have "\<exists>r'. (if event_flags e AND 2 \<noteq> 0
               then and_then (decode_bitmap r5) (\<lambda>(b, r6). Ok (Some b, r6))
               else Ok (None, r5)) = Ok (bitmap e, r') \<and> reader_at r' rest"
  proof (cases "bitmap e")
    case None
    with image r5(2) show ?thesis by simp
  next
    case (Some b)
    with image have "encode_bitmap b = Ok image" by simp
    from rd_bitmap.reads [OF this r5(2)] Some show ?thesis by (auto simp: push_bit_of_1)
  qed
  with r1 r2 r3 r4 r5 show ?thesis
    by (auto simp: decode_event_def)
qed

lemma decode_event_sound:
  assumes "decode_event r = Ok (e, r')" and at: "reader_at r xs"
  shows "\<exists>bs rest. encode_event e = Ok bs \<and> xs = bs @ rest \<and> reader_at r' rest"
proof -
  from assms(1) obtain ts x y flags bid image r1 r2 r3 r4 r5 where
    steps: "reader_u64 r = Ok (ts, r1)" "reader_u64 r1 = Ok (x, r2)" "reader_u64 r2 = Ok (y, r3)"
      "reader_u8 r3 = Ok (flags, r4)" "reader_u64 r4 = Ok (bid, r5)"
    and flags: "flags AND NOT 3 = 0"
    and image: "(if flags AND 2 \<noteq> 0
               then and_then (decode_bitmap r5) (\<lambda>(b, r6). Ok (Some b, r6))
               else Ok (None, r5)) = Ok (image, r')"
    and e: "e = \<lparr>ev_timestamp = ts, x_micropixels = x, y_micropixels = y, visible = (flags AND 1 \<noteq> 0),
            bitmap_id = bid, bitmap = image\<rparr>"
    by (auto simp: decode_event_def and_then_eq_Ok if_Err_eq_Ok)
  from rd_u64.sound [OF steps(1) at] obtain s1 where s1: "xs = to_be_bytes 8 ts @ s1" "reader_at r1 s1" by auto
  from rd_u64.sound [OF steps(2) s1(2)] obtain s2 where s2: "s1 = to_be_bytes 8 x @ s2" "reader_at r2 s2" by auto
  from rd_u64.sound [OF steps(3) s2(2)] obtain s3 where s3: "s2 = to_be_bytes 8 y @ s3" "reader_at r3 s3" by auto
  from rd_u8.sound [OF steps(4) s3(2)] obtain s4 where s4: "s3 = [flags] @ s4" "reader_at r4 s4"
    by (auto simp: to_be_bytes_u8)
  from rd_u64.sound [OF steps(5) s4(2)] obtain s5 where s5: "s4 = to_be_bytes 8 bid @ s5" "reader_at r5 s5" by auto
  have "\<exists>bs rest. (case image of None \<Rightarrow> Ok [] | Some b \<Rightarrow> encode_bitmap b) = Ok bs \<and>
      s5 = bs @ rest \<and> reader_at r' rest \<and> (image \<noteq> None \<longleftrightarrow> flags AND 2 \<noteq> 0)"
  proof (cases "flags AND 2 \<noteq> 0")
    case True
    with image obtain b where b: "decode_bitmap r5 = Ok (b, r')" "image = Some b"
      by (auto simp: and_then_eq_Ok)
    from rd_bitmap.sound [OF b(1) s5(2)] b(2) True show ?thesis by auto
  next
    case False
    with image s5 show ?thesis by auto
  qed
  moreover have "event_flags e = flags" if "image \<noteq> None \<longleftrightarrow> flags AND 2 \<noteq> 0"
    using flags_cases [OF flags] that e by (auto simp: event_flags_def)
  ultimately show ?thesis
    using s1 s2 s3 s4 s5 e by (auto simp: encode_event_def and_then_eq_Ok)
qed

interpretation rd_event: reader_field decode_event encode_event
  by unfold_locales (fact decode_event_reads, fact decode_event_sound)

section \<open>Batches\<close>

definition event_encoded_len :: "cursor_event \<Rightarrow> nat" where
  "event_encoded_len e = CURSOR_EVENT_LEN +
     (case bitmap e of None \<Rightarrow> 0 | Some b \<Rightarrow> CURSOR_BITMAP_HEADER_LEN + length (rgba b))"

lemma length_encode_event: "encode_event e = Ok bs \<Longrightarrow> length bs = event_encoded_len e"
  by (auto simp: encode_event_def encode_bitmap_def event_encoded_len_def CURSOR_EVENT_LEN_def
      CURSOR_BITMAP_HEADER_LEN_def and_then_eq_Ok split: option.splits if_splits)

lemma length_encode_events:
  "list_all2 (\<lambda>e bs. encode_event e = Ok bs) es chunks \<Longrightarrow>
    length (concat chunks) = sum_list (map event_encoded_len es)"
  by (induction rule: list_all2_induct) (simp_all add: length_encode_event)

lemma events_min_len: "length es * CURSOR_EVENT_LEN \<le> sum_list (map event_encoded_len es)"
  by (induction es) (simp_all add: event_encoded_len_def)

lemma encoded_len_loop_sum:
  "encoded_len_loop acc es = Ok n \<Longrightarrow> n = acc + sum_list (map event_encoded_len es)"
proof (induction es arbitrary: acc)
  case Nil
  then show ?case by simp
next
  case (Cons e es)
  then show ?case
    by (cases "bitmap e")
      (auto simp: and_then_eq_Ok ok_or_eq_Ok checked_add_usize_def event_encoded_len_def bind_eq_Some_conv
        dest!: Cons.IH split: if_splits)
qed

lemma encoded_len_loop_bound:
  "encoded_len_loop acc es = Ok n \<Longrightarrow> acc \<le> MAX_CURSOR_PLAINTEXT_LEN \<Longrightarrow> n \<le> MAX_CURSOR_PLAINTEXT_LEN"
  by (induction acc es rule: encoded_len_loop.induct) (auto simp: and_then_eq_Ok split: if_splits)

lemma encoded_len_loop_ok:
  "acc + sum_list (map event_encoded_len es) \<le> MAX_CURSOR_PLAINTEXT_LEN \<Longrightarrow>
    encoded_len_loop acc es = Ok (acc + sum_list (map event_encoded_len es))"
proof (induction es arbitrary: acc)
  case Nil
  then show ?case by simp
next
  case (Cons e es)
  have "MAX_CURSOR_PLAINTEXT_LEN \<le> usize_MAX" by (simp add: MAX_CURSOR_PLAINTEXT_LEN_def)
  then show ?case
    using Cons.prems Cons.IH [of "acc + event_encoded_len e"]
    by (cases "bitmap e") (auto simp: checked_add_usize_def event_encoded_len_def add.assoc)
qed

lemma encode_cursor_batch_form:
  assumes "encode_cursor_batch cx batch = Ok bs"
  obtains chunks where "validate_cursor_batch batch = Ok ()" "validate_cursor_context batch cx = Ok ()"
    "encoded_len batch = Ok (length bs)" "length bs \<le> MAX_CURSOR_PLAINTEXT_LEN"
    "length (events batch) < 2 ^ 16" "try_map encode_event (events batch) = Ok chunks"
    "bs = ascii_bytes ''GCC1'' @ to_be_bytes 4 (source_width batch) @ to_be_bytes 4 (source_height batch)
           @ to_be_bytes 2 (of_nat (length (events batch)) :: u16) @ concat chunks"
proof -
  from assms obtain n chunks where
    *: "validate_cursor_batch batch = Ok ()" "validate_cursor_context batch cx = Ok ()"
    "encoded_len batch = Ok n" "length (events batch) < 2 ^ 16" "try_map encode_event (events batch) = Ok chunks"
    "bs = ascii_bytes ''GCC1'' @ to_be_bytes 4 (source_width batch) @ to_be_bytes 4 (source_height batch)
           @ to_be_bytes 2 (of_nat (length (events batch)) :: u16) @ concat chunks"
    by (auto simp: encode_cursor_batch_def and_then_eq_Ok if_Err_eq_Ok not_le)
  have loop: "encoded_len_loop CURSOR_BATCH_HEADER_LEN (events batch) = Ok n"
    using *(3) by (simp add: encoded_len_def split: if_splits)
  have "length bs = n"
    using encoded_len_loop_sum [OF loop] length_encode_events [OF *(5) [unfolded try_map_eq_Ok]] *(6)
    by (simp add: CURSOR_BATCH_HEADER_LEN_def ascii_bytes_def)
  moreover have "n \<le> MAX_CURSOR_PLAINTEXT_LEN"
    using encoded_len_loop_bound [OF loop]
    by (simp add: CURSOR_BATCH_HEADER_LEN_def MAX_CURSOR_PLAINTEXT_LEN_def)
  ultimately show ?thesis using that * by simp
qed

lemma decode_cursor_batch_form:
  assumes "decode_cursor_batch cx bs = Ok batch"
  obtains chunks where "validate_cursor_batch batch = Ok ()" "validate_cursor_context batch cx = Ok ()"
    "length bs \<le> MAX_CURSOR_PLAINTEXT_LEN"
    "length (events batch) < 2 ^ 16" "try_map encode_event (events batch) = Ok chunks"
    "bs = ascii_bytes ''GCC1'' @ to_be_bytes 4 (source_width batch) @ to_be_bytes 4 (source_height batch)
           @ to_be_bytes 2 (of_nat (length (events batch)) :: u16) @ concat chunks"
proof -
  from assms obtain r0 r1 r2 r3 r4 w h cnt es where
    len: "length bs \<le> MAX_CURSOR_PLAINTEXT_LEN" and
    steps: "reader_take 4 (reader_new bs) = Ok (ascii_bytes ''GCC1'', r0)" "reader_u32 r0 = Ok (w, r1)"
      "reader_u32 r1 = Ok (h, r2)" "reader_u16 r2 = Ok (cnt, r3)"
      "reader_repeat decode_event (unat cnt) r3 = Ok (es, r4)" "reader_is_empty r4" and
    ok: "validate_cursor_batch batch = Ok ()" "validate_cursor_context batch cx = Ok ()"
      "batch = \<lparr>source_width = w, source_height = h, events = es\<rparr>"
    by (auto simp: decode_cursor_batch_def and_then_eq_Ok if_Err_eq_Ok Let_def not_less)
  have "length bs \<le> usize_MAX" using len by (simp add: MAX_CURSOR_PLAINTEXT_LEN_def)
  from reader_take_sound [OF steps(1) reader_at_new [OF this]] obtain s0 where
    s0: "bs = ascii_bytes ''GCC1'' @ s0" "reader_at r0 s0" by auto
  from rd_u32.sound [OF steps(2) s0(2)] obtain s1 where s1: "s0 = to_be_bytes 4 w @ s1" "reader_at r1 s1" by auto
  from rd_u32.sound [OF steps(3) s1(2)] obtain s2 where s2: "s1 = to_be_bytes 4 h @ s2" "reader_at r2 s2" by auto
  from rd_u16.sound [OF steps(4) s2(2)] obtain s3 where s3: "s2 = to_be_bytes 2 cnt @ s3" "reader_at r3 s3" by auto
  from rd_event.repeat_sound [OF steps(5) s3(2)] obtain chunks rest where
    s4: "try_map encode_event es = Ok chunks" "length es = unat cnt" "s3 = concat chunks @ rest" "reader_at r4 rest"
    by blast
  have "rest = []" using reader_at_empty [OF s4(4)] steps(6) by simp
  moreover have "unat cnt < 2 ^ 16" using unsigned_less [of cnt] by simp
  ultimately show ?thesis
    using that [of chunks] s0 s1 s2 s3 s4 ok len by auto
qed

lemma decode_form_encodes:
  assumes "decode_cursor_batch cx bs = Ok batch"
  shows "encode_cursor_batch cx batch = Ok bs"
  using assms
proof (cases rule: decode_cursor_batch_form)
  case (1 chunks)
  then show ?thesis
    by (auto simp: encode_cursor_batch_def validate_cursor_batch_def and_then_eq_Ok if_Err_eq_Ok)
qed

lemma encode_form_decodes:
  assumes "encode_cursor_batch cx batch = Ok bs"
  shows "decode_cursor_batch cx bs = Ok batch"
  using assms
proof (cases rule: encode_cursor_batch_form)
  case (1 chunks)
  let ?cnt = "of_nat (length (events batch)) :: u16"
  have cnt: "unat ?cnt = length (events batch)"
    using 1(5) by (simp add: unsigned_of_nat take_bit_nat_eq_self)
  have "length bs \<le> usize_MAX" using 1(4) by (simp add: MAX_CURSOR_PLAINTEXT_LEN_def)
  note at = reader_at_new [OF this]
  have "length (ascii_bytes ''GCC1'') = 4" by (simp add: ascii_bytes_def)
  with reader_take_at [of "reader_new bs" "ascii_bytes ''GCC1''" _ 4] at 1(7) obtain r0 where
    r0: "reader_take 4 (reader_new bs) = Ok (ascii_bytes ''GCC1'', r0)"
    "reader_at r0 (to_be_bytes 4 (source_width batch) @ to_be_bytes 4 (source_height batch)
       @ to_be_bytes 2 ?cnt @ concat chunks)" by auto
  then obtain r1 where r1: "reader_u32 r0 = Ok (source_width batch, r1)"
    "reader_at r1 (to_be_bytes 4 (source_height batch) @ to_be_bytes 2 ?cnt @ concat chunks)"
    using rd_u32.reads [OF refl, of r0 "source_width batch"] by auto
  then obtain r2 where r2: "reader_u32 r1 = Ok (source_height batch, r2)"
    "reader_at r2 (to_be_bytes 2 ?cnt @ concat chunks)"
    using rd_u32.reads [OF refl, of r1 "source_height batch"] by auto
  then obtain r3 where r3: "reader_u16 r2 = Ok (?cnt, r3)" "reader_at r3 (concat chunks)"
    using rd_u16.reads [OF refl, of r2 ?cnt] by auto
  from rd_event.repeat_reads [OF 1(6), of r3 "[]"] r3(2) obtain r4 where
    r4: "reader_repeat decode_event (length (events batch)) r3 = Ok (events batch, r4)" "reader_at r4 []" by auto
  have "length (events batch) * CURSOR_EVENT_LEN \<le> sum_list (map event_encoded_len (events batch))"
    by (rule events_min_len)
  then have "\<not> reader_remaining r3 < length (events batch) * CURSOR_EVENT_LEN"
    using reader_at_remaining [OF r3(2)] length_encode_events [OF 1(6) [unfolded try_map_eq_Ok]] by simp
  moreover have eta: "\<lparr>source_width = source_width batch, source_height = source_height batch,
      events = events batch\<rparr> = batch" by simp
  ultimately show ?thesis
    using 1 r0 r1 r2 r3 r4 cnt reader_at_empty [OF r4(2)]
    by (simp add: decode_cursor_batch_def Let_def eta)
qed

section \<open>What validation accepts\<close>

text \<open>The declarative reading of one event's checks and of a whole batch's.\<close>

definition event_well_formed :: "int \<Rightarrow> int \<Rightarrow> cursor_event \<Rightarrow> bool" where
  "event_well_formed max_x max_y e \<longleftrightarrow>
     (if visible e
      then sint (x_micropixels e) \<in> {0..max_x} \<and> sint (y_micropixels e) \<in> {0..max_y} \<and>
           (\<forall>b. bitmap e = Some b \<longrightarrow>
              bitmap_id e \<noteq> 0 \<and> unat (bm_width b) \<in> {1..512} \<and> unat (bm_height b) \<in> {1..512} \<and>
              sint (hotspot_x b) \<in> {0..<uint (bm_width b)} \<and>
              sint (hotspot_y b) \<in> {0..<uint (bm_height b)} \<and>
              length (rgba b) = unat (bm_width b) * unat (bm_height b) * 4)
      else x_micropixels e = 0 \<and> y_micropixels e = 0 \<and> bitmap e = None)"

definition batch_well_formed :: "cursor_batch \<Rightarrow> bool" where
  "batch_well_formed batch \<longleftrightarrow>
     unat (source_width batch) \<in> {1..65535} \<and> unat (source_height batch) \<in> {1..65535} \<and>
     events batch \<noteq> [] \<and> length (events batch) \<le> 65535 \<and>
     sorted (map ev_timestamp (events batch)) \<and>
     list_all (event_well_formed (uint (source_width batch) * 1000000)
                 (uint (source_height batch) * 1000000)) (events batch) \<and>
     CURSOR_BATCH_HEADER_LEN + sum_list (map event_encoded_len (events batch))
       \<le> MAX_CURSOR_PLAINTEXT_LEN"

lemma word_gt_0_iff_unat: "(w :: 'a::len word) \<noteq> 0 \<longleftrightarrow> 1 \<le> unat w"
  by (metis One_nat_def Suc_leI gr_zeroI not_one_le_zero unat_eq_0)

lemma bitmap_invalid_iff:
  "\<not> bitmap_invalid bid b \<longleftrightarrow>
     bid \<noteq> 0 \<and> unat (bm_width b) \<in> {1..512} \<and> unat (bm_height b) \<in> {1..512} \<and>
     sint (hotspot_x b) \<in> {0..<uint (bm_width b)} \<and>
     sint (hotspot_y b) \<in> {0..<uint (bm_height b)} \<and>
     length (rgba b) = unat (bm_width b) * unat (bm_height b) * 4"
proof (cases "unat (bm_width b) \<le> 512 \<and> unat (bm_height b) \<le> 512")
  case True
  then have "unat (bm_width b) * unat (bm_height b) \<le> 512 * 512"
    by (intro mult_le_mono) simp_all
  with True show ?thesis
    by (auto simp: bitmap_invalid_def MAX_CURSOR_BITMAP_SIDE_def checked_mul_usize_def word_le_nat_alt
        word_less_nat_alt word_gt_0_iff_unat nat_less_iff not_le not_less simp flip: uint_nat)
next
  case False
  then show ?thesis
    by (auto simp: bitmap_invalid_def MAX_CURSOR_BITMAP_SIDE_def word_less_nat_alt)
qed

lemma event_well_formed_iff:
  "event_well_formed mx my e \<longleftrightarrow>
     \<not> (visible e \<and> (\<not> (0 \<le> sint (x_micropixels e) \<and> sint (x_micropixels e) \<le> mx) \<or>
                            \<not> (0 \<le> sint (y_micropixels e) \<and> sint (y_micropixels e) \<le> my))) \<and>
     \<not> (\<not> visible e \<and> (x_micropixels e \<noteq> 0 \<or> y_micropixels e \<noteq> 0 \<or> bitmap e \<noteq> None)) \<and>
     \<not> (case bitmap e of Some b \<Rightarrow> bitmap_invalid (bitmap_id e) b | None \<Rightarrow> False)"
  by (cases "visible e"; cases "bitmap e") (auto simp: event_well_formed_def bitmap_invalid_iff)

lemma validate_events_iff:
  "validate_events mx my previous es = Ok () \<longleftrightarrow>
     sorted ((case previous of None \<Rightarrow> [] | Some t \<Rightarrow> [t]) @ map ev_timestamp es) \<and>
     list_all (event_well_formed mx my) es"
proof (induction es arbitrary: previous)
  case Nil
  then show ?case by (auto split: option.splits)
next
  case (Cons e es)
  have "validate_events mx my previous (e # es) = Ok () \<longleftrightarrow>
      (case previous of Some v \<Rightarrow> v \<le> ev_timestamp e | None \<Rightarrow> True) \<and>
      event_well_formed mx my e \<and> validate_events mx my (Some (ev_timestamp e)) es = Ok ()"
    unfolding validate_events.simps if_Err_eq_Ok event_well_formed_iff
    by (auto simp: not_less split: option.split)
  with Cons.IH [of "Some (ev_timestamp e)"] show ?case
    by (auto simp del: validate_events.simps split: option.splits intro: order_trans)
qed

lemma encoded_len_iff:
  "is_ok (encoded_len batch) \<longleftrightarrow>
     length (events batch) \<le> 65535 \<and>
     CURSOR_BATCH_HEADER_LEN + sum_list (map event_encoded_len (events batch)) \<le> MAX_CURSOR_PLAINTEXT_LEN"
  (is "_ \<longleftrightarrow> _ \<and> ?n \<le> _")
proof -
  have "is_ok (encoded_len_loop CURSOR_BATCH_HEADER_LEN (events batch)) \<longleftrightarrow> ?n \<le> MAX_CURSOR_PLAINTEXT_LEN"
    using encoded_len_loop_ok [of CURSOR_BATCH_HEADER_LEN "events batch"]
      encoded_len_loop_sum [of CURSOR_BATCH_HEADER_LEN "events batch"]
      encoded_len_loop_bound [of CURSOR_BATCH_HEADER_LEN "events batch"]
    by (auto simp: is_ok_iff CURSOR_BATCH_HEADER_LEN_def MAX_CURSOR_PLAINTEXT_LEN_def)
  then show ?thesis by (auto simp: encoded_len_def)
qed

lemma validate_cursor_batch_iff: "validate_cursor_batch batch = Ok () \<longleftrightarrow> batch_well_formed batch"
proof -
  have "validate_cursor_batch batch = Ok () \<longleftrightarrow>
      \<not> (source_width batch = 0 \<or> source_height batch = 0 \<or>
         source_width batch > 65535 \<or> source_height batch > 65535 \<or> events batch = []) \<and>
      validate_events (uint (source_width batch) * 1000000)
                       (uint (source_height batch) * 1000000) None (events batch) = Ok () \<and>
      is_ok (encoded_len batch)"
    by (auto simp: validate_cursor_batch_def and_then_eq_Ok if_Err_eq_Ok is_ok_iff)
  then show ?thesis
    by (auto simp: batch_well_formed_def validate_events_iff encoded_len_iff word_less_nat_alt
        word_gt_0_iff_unat not_less)
qed

lemma encode_event_ok:
  assumes "event_well_formed mx my e"
  shows "is_ok (encode_event e)"
proof -
  have "length (rgba b) < 2 ^ 32" if "bitmap e = Some b" for b
  proof -
    have "unat (bm_width b) * unat (bm_height b) \<le> 512 * 512"
      using assms that by (intro mult_le_mono) (auto simp: event_well_formed_def split: if_splits)
    moreover have "length (rgba b) = unat (bm_width b) * unat (bm_height b) * 4"
      using assms that by (auto simp: event_well_formed_def split: if_splits)
    ultimately have "length (rgba b) \<le> 512 * 512 * 4" by linarith
    then show ?thesis by simp
  qed
  then show ?thesis
    by (cases "bitmap e") (auto simp: encode_event_def encode_bitmap_def)
qed

lemma encode_events_ok: "list_all (event_well_formed mx my) es \<Longrightarrow> is_ok (try_map encode_event es)"
proof (induction es)
  case (Cons e es)
  then obtain bs bss where "encode_event e = Ok bs" "try_map encode_event es = Ok bss"
    using encode_event_ok [of mx my e] by (auto simp: is_ok_iff)
  then show ?case by simp
qed simp

section \<open>Properties\<close>

text \<open>C39: The cursor format is exactly invertible: for a given stream context, a byte string
  decodes to a batch if and only if the batch encodes to that byte string.  So decoding what a
  publisher encoded gives the batch back, and no two byte strings decode to the same batch.\<close>

theorem cursor_codec_exact:
  "decode_cursor_batch cx bs = Ok batch \<longleftrightarrow> encode_cursor_batch cx batch = Ok bs"
  using decode_form_encodes encode_form_decodes by blast

text \<open>A batch can be encoded exactly when it is well formed (source sides and event count in
  range, timestamps in order, every event inside the source, every bitmap consistent, total size
  within the plaintext limit) and matches its stream context; then the encoded length is the
  one \<^verbatim>\<open>encoded_len\<close> announced and never exceeds the limit.\<close>

theorem cursor_encode_total:
  "(case encode_cursor_batch cx batch of
      Inr bs \<Rightarrow> encoded_len batch = Ok (length bs) \<and> length bs \<le> MAX_CURSOR_PLAINTEXT_LEN
    | Inl _ \<Rightarrow> True) \<and>
   (is_ok (encode_cursor_batch cx batch) \<longleftrightarrow>
      batch_well_formed batch \<and> validate_cursor_context batch cx = Ok ())"
proof (intro conjI iffI)
  show "case encode_cursor_batch cx batch of
      Inr bs \<Rightarrow> encoded_len batch = Ok (length bs) \<and> length bs \<le> MAX_CURSOR_PLAINTEXT_LEN
    | Inl _ \<Rightarrow> True"
    by (auto elim: encode_cursor_batch_form split: sum.split)
next
  assume "is_ok (encode_cursor_batch cx batch)"
  then show "batch_well_formed batch" "validate_cursor_context batch cx = Ok ()"
    by (auto simp: is_ok_iff validate_cursor_batch_iff [symmetric] elim: encode_cursor_batch_form)
next
  assume ok: "batch_well_formed batch \<and> validate_cursor_context batch cx = Ok ()"
  then have "is_ok (try_map encode_event (events batch))"
    using encode_events_ok by (auto simp: batch_well_formed_def)
  moreover have "is_ok (encoded_len batch)" "length (events batch) < 2 ^ 16"
    using ok by (simp_all add: batch_well_formed_def encoded_len_iff)
  moreover have "validate_cursor_batch batch = Ok ()" using ok by (simp add: validate_cursor_batch_iff)
  ultimately show "is_ok (encode_cursor_batch cx batch)"
    using ok by (auto simp: encode_cursor_batch_def is_ok_iff)
qed

end
