(* ===== verification/Tasks.thy ===== *)
theory Tasks
  imports Prelude
begin

text \<open>
  Sessions as tasks: the messages written so far, in order, the state they leave behind and how they
  end, \<open>None\<close> while the task still waits for input.  A \<open>run\<close> has no state of its own.  Sequencing is
  \<^verbatim>\<open>?\<close> and \<^verbatim>\<open>.await?\<close> of the sources: nothing after an error runs.
\<close>

section \<open>Runs\<close>

type_synonym ('m, 'e, 'a) erun = "'m list \<times> ('e + 'a) option"

definition run_of :: "'e + 'a \<Rightarrow> ('m, 'e, 'a) erun" where
  "run_of r = ([], Some r)"

definition run_then :: "('m, 'e, 'a) erun \<Rightarrow> ('a \<Rightarrow> ('m, 'e, 'b) erun) \<Rightarrow> ('m, 'e, 'b) erun" where
  "run_then r k =
     (case snd r of
        None \<Rightarrow> (fst r, None)
      | Some (Inl e) \<Rightarrow> (fst r, Some (Inl e))
      | Some (Inr x) \<Rightarrow> (fst r @ fst (k x), snd (k x)))"

fun write_all :: "('a \<Rightarrow> ('m, 'e, unit) erun) \<Rightarrow> 'a list \<Rightarrow> ('m, 'e, unit) erun" where
  "write_all write [] = run_of (Ok ())"
| "write_all write (x # xs) = run_then (write x) (\<lambda>_. write_all write xs)"

lemma run_then_simps [simp]:
  "run_then (run_of (Ok x)) k = k x" "run_then (run_of (Err e)) k = run_of (Err e)"
  by (simp_all add: run_then_def run_of_def)

lemma written_all: "m \<in> set (fst (write_all w xs)) \<Longrightarrow> \<exists>x\<in>set xs. m \<in> set (fst (w x))"
  by (induction xs) (auto simp: run_of_def run_then_def split: option.splits sum.splits)

section \<open>Tasks\<close>

type_synonym ('m, 'e, 's, 'a) etask = "'s \<Rightarrow> 'm list \<times> 's \<times> ('e + 'a) option"

definition task_run :: "('m, 'e, 'a) erun \<Rightarrow> ('m, 'e, 's, 'a) etask" where
  "task_run r = (\<lambda>s. (fst r, s, snd r))"

definition task_then :: "('m, 'e, 's, 'a) etask \<Rightarrow> ('a \<Rightarrow> ('m, 'e, 's, 'b) etask) \<Rightarrow> ('m, 'e, 's, 'b) etask" where
  "task_then m k =
     (\<lambda>s. case m s of (out, s1, r) \<Rightarrow>
        (case r of
           None \<Rightarrow> (out, s1, None)
         | Some (Inl e) \<Rightarrow> (out, s1, Some (Inl e))
         | Some (Inr x) \<Rightarrow> (case k x s1 of (out', s2, r') \<Rightarrow> (out @ out', s2, r'))))"

definition task_of :: "'e + 'a \<Rightarrow> ('m, 'e, 's, 'a) etask" where
  "task_of r = task_run (run_of r)"

lemma task_then_Ok: "task_then (task_of (Ok x)) k = k x"
  by (rule ext) (simp add: task_then_def task_of_def task_run_def run_of_def split: prod.splits)

lemma task_then_assoc: "task_then (task_then m k) h = task_then m (\<lambda>x. task_then (k x) h)"
  by (rule ext) (auto simp: task_then_def split: prod.splits option.splits sum.splits)

definition task_get :: "('s \<Rightarrow> 'a) \<Rightarrow> ('m, 'e, 's, 'a) etask" where
  "task_get f = (\<lambda>s. ([], s, Some (Ok (f s))))"

definition task_modify :: "('s \<Rightarrow> 's) \<Rightarrow> ('m, 'e, 's, unit) etask" where
  "task_modify f = (\<lambda>s. ([], f s, Some (Ok ())))"

fun task_each :: "('a \<Rightarrow> ('m, 'e, 's, unit) etask) \<Rightarrow> 'a list \<Rightarrow> ('m, 'e, 's, unit) etask" where
  "task_each f [] = task_of (Ok ())"
| "task_each f (x # xs) = task_then (f x) (\<lambda>_. task_each f xs)"

section \<open>What tasks preserve\<close>

text \<open>A relation between the states before and after, whatever the task writes and however it ends.\<close>

definition task_keeps :: "('s \<Rightarrow> 's \<Rightarrow> bool) \<Rightarrow> ('m, 'e, 's, 'a) etask \<Rightarrow> bool" where
  "task_keeps R t \<longleftrightarrow> (\<forall>s. R s (fst (snd (t s))))"

lemma task_keepsD: "task_keeps R t \<Longrightarrow> t s = (out, s', r) \<Longrightarrow> R s s'"
  unfolding task_keeps_def by (metis fst_conv snd_conv)

lemma keeps_run: "reflp R \<Longrightarrow> task_keeps R (task_run r)"
  by (simp add: task_keeps_def task_run_def reflpD)

lemma keeps_of: "reflp R \<Longrightarrow> task_keeps R (task_of r)"
  by (simp add: task_of_def keeps_run)

lemma keeps_then:
  assumes "transp R" and "task_keeps R m" and "\<And>x. task_keeps R (k x)"
  shows "task_keeps R (task_then m k)"
  unfolding task_keeps_def
proof
  fix s
  obtain out s1 r where m: "m s = (out, s1, r)" by (cases "m s")
  with assms(2) have 1: "R s s1" by (rule task_keepsD)
  show "R s (fst (snd (task_then m k s)))"
  proof (cases "\<exists>x. r = Some (Ok x)")
    case True
    then obtain x out2 s2 r2 where x: "r = Some (Ok x)" "k x s1 = (out2, s2, r2)" by (metis prod_cases3)
    then have "R s1 s2" using task_keepsD [OF assms(3)] by blast
    with 1 x m show ?thesis using transpD [OF assms(1)] by (auto simp: task_then_def)
  next
    case False
    with 1 m show ?thesis by (auto simp: task_then_def split: option.splits sum.splits)
  qed
qed

section \<open>What tasks write\<close>

text \<open>What a task writes, whatever state it starts from.\<close>

definition task_writes :: "('m \<Rightarrow> bool) \<Rightarrow> ('m, 'e, 's, 'a) etask \<Rightarrow> bool" where
  "task_writes P t \<longleftrightarrow> (\<forall>s. \<forall>m\<in>set (fst (t s)). P m)"

lemma writes_run: "(\<And>m. m \<in> set (fst r) \<Longrightarrow> P m) \<Longrightarrow> task_writes P (task_run r)"
  by (simp add: task_writes_def task_run_def)

lemma writes_of: "task_writes P (task_of r)"
  by (simp add: task_writes_def task_of_def task_run_def run_of_def)

lemma writes_then: "task_writes P m \<Longrightarrow> (\<And>x. task_writes P (k x)) \<Longrightarrow> task_writes P (task_then m k)"
  unfolding task_writes_def task_then_def
  by (auto split: prod.splits option.splits sum.splits) (metis fst_conv)+

section \<open>Monitors\<close>

text \<open>A monitor follows the messages written with a state of its own and fails on a message it does not
  allow.\<close>

fun monitor :: "('g \<Rightarrow> 'm \<Rightarrow> 'g option) \<Rightarrow> 'g \<Rightarrow> 'm list \<Rightarrow> 'g option" where
  "monitor step a [] = Some a"
| "monitor step a (m # ms) = (case step a m of None \<Rightarrow> None | Some a' \<Rightarrow> monitor step a' ms)"

lemma monitor_append:
  "monitor step a (xs @ ys) = (case monitor step a xs of None \<Rightarrow> None | Some a' \<Rightarrow> monitor step a' ys)"
  by (induction xs arbitrary: a) (auto split: option.splits)

text \<open>From a state of the monitor and the task with \<open>P\<close>, the monitor allows all the task writes, and when
  the task succeeds, its result and the two states have \<open>Q\<close>.\<close>

definition monitored ::
  "('g \<Rightarrow> 'm \<Rightarrow> 'g option) \<Rightarrow> ('g \<Rightarrow> 's \<Rightarrow> bool) \<Rightarrow> ('m, 'e, 's, 'a) etask \<Rightarrow> ('a \<Rightarrow> 'g \<Rightarrow> 's \<Rightarrow> bool) \<Rightarrow> bool" where
  "monitored step P t Q \<longleftrightarrow>
     (\<forall>a s out s' r. P a s \<longrightarrow> t s = (out, s', r) \<longrightarrow>
        (\<exists>a'. monitor step a out = Some a' \<and> (\<forall>x. r = Some (Ok x) \<longrightarrow> Q x a' s')))"

lemma monitoredD:
  assumes "monitored step P t Q" and "P a s" and "t s = (out, s', r)"
  obtains a' where "monitor step a out = Some a'" "\<forall>x. r = Some (Ok x) \<longrightarrow> Q x a' s'"
  using assms unfolding monitored_def by meson

lemma monitored_then:
  assumes "monitored step P m R" and "\<And>x. monitored step (R x) (k x) Q"
  shows "monitored step P (task_then m k) Q"
  unfolding monitored_def
proof (intro allI impI)
  fix a s out s' r
  assume "P a s" and t: "task_then m k s = (out, s', r)"
  obtain out1 s1 r1 where m: "m s = (out1, s1, r1)" by (cases "m s")
  obtain a1 where a1: "monitor step a out1 = Some a1" "\<forall>x. r1 = Some (Ok x) \<longrightarrow> R x a1 s1"
    by (rule monitoredD [OF assms(1) \<open>P a s\<close> m])
  show "\<exists>a'. monitor step a out = Some a' \<and> (\<forall>x. r = Some (Ok x) \<longrightarrow> Q x a' s')"
  proof (cases "\<exists>x. r1 = Some (Ok x)")
    case True
    then obtain x out2 s2 r2 where x: "r1 = Some (Ok x)" and k: "k x s1 = (out2, s2, r2)" by (metis prod_cases3)
    have "R x a1 s1" using a1(2) x by simp
    then obtain a2 where a2: "monitor step a1 out2 = Some a2" "\<forall>y. r2 = Some (Ok y) \<longrightarrow> Q y a2 s2"
      by (rule monitoredD [OF assms(2) _ k])
    from t m x k have "out = out1 @ out2" "s' = s2" "r = r2" by (simp_all add: task_then_def)
    with a1(1) a2 show ?thesis by (auto simp: monitor_append)
  next
    case False
    with t m have "out = out1" "\<And>x. r \<noteq> Some (Ok x)" by (auto simp: task_then_def split: option.splits sum.splits)
    with a1(1) show ?thesis by auto
  qed
qed

lemma monitored_of: "(\<And>x a s. r = Ok x \<Longrightarrow> P a s \<Longrightarrow> Q x a s) \<Longrightarrow> monitored step P (task_of r) Q"
  by (simp add: monitored_def task_of_def task_run_def run_of_def)

lemma monitored_get: "(\<And>a s. P a s \<Longrightarrow> Q (f s) a s) \<Longrightarrow> monitored step P (task_get f) Q"
  by (simp add: monitored_def task_get_def)

lemma monitored_modify: "(\<And>a s. P a s \<Longrightarrow> Q () a (f s)) \<Longrightarrow> monitored step P (task_modify f) Q"
  by (simp add: monitored_def task_modify_def)

lemma monitored_each:
  "(\<And>x. x \<in> set xs \<Longrightarrow> monitored step P (f x) (\<lambda>_. P)) \<Longrightarrow> monitored step P (task_each f xs) (\<lambda>_. P)"
  by (induction xs) (auto intro!: monitored_then monitored_of)

lemma monitored_weaken:
  "monitored step P' t Q' \<Longrightarrow> (\<And>a s. P a s \<Longrightarrow> P' a s) \<Longrightarrow> (\<And>x a s. Q' x a s \<Longrightarrow> Q x a s) \<Longrightarrow> monitored step P t Q"
  unfolding monitored_def by metis

text \<open>The usual steps of a task, with what they computed at hand for the rest.\<close>

lemma monitored_of_then:
  "(\<And>x. r = Ok x \<Longrightarrow> monitored step P (k x) Q) \<Longrightarrow> monitored step P (task_then (task_of r) k) Q"
  by (cases r) (auto simp: monitored_def task_then_def task_of_def task_run_def run_of_def split: prod.splits)

lemma monitored_of_then_pair:
  "(\<And>x y. r = Ok (x, y) \<Longrightarrow> monitored step P (k x y) Q) \<Longrightarrow> monitored step P (task_then (task_of r) (\<lambda>(x, y). k x y)) Q"
  by (rule monitored_of_then) auto

lemma monitored_get_then:
  assumes "\<And>v. monitored step (\<lambda>a s. P a s \<and> f s = v) (k v) Q"
  shows "monitored step P (task_then (task_get f) k) Q"
  unfolding monitored_def
proof (intro allI impI)
  fix a s out s' r
  assume "P a s" and "task_then (task_get f) k s = (out, s', r)"
  then have "k (f s) s = (out, s', r)" by (simp add: task_then_def task_get_def split: prod.splits)
  with \<open>P a s\<close> show "\<exists>a'. monitor step a out = Some a' \<and> (\<forall>x. r = Some (Ok x) \<longrightarrow> Q x a' s')"
    by (metis monitoredD [OF assms [of "f s"]])
qed

lemma monitored_modify_then:
  "(\<And>a s. P a s \<Longrightarrow> R a (f s)) \<Longrightarrow> monitored step R (k ()) Q \<Longrightarrow> monitored step P (task_then (task_modify f) k) Q"
  by (rule monitored_then [where R = "\<lambda>_. R"]) (auto intro: monitored_modify)

lemma monitored_get_any:
  "(\<And>v. monitored step P (k v) Q) \<Longrightarrow> monitored step P (task_then (task_get f) k) Q"
  by (rule monitored_get_then, rule monitored_weaken [where P' = P and Q' = Q]) auto

lemma monitored_keep_then:
  "monitored step P m (\<lambda>_. P) \<Longrightarrow> (\<And>x. monitored step P (k x) Q) \<Longrightarrow> monitored step P (task_then m k) Q"
  by (rule monitored_then)

lemma monitored_update_then:
  "(\<And>a s. P a s \<Longrightarrow> P a (f s)) \<Longrightarrow> monitored step P (k ()) Q \<Longrightarrow> monitored step P (task_then (task_modify f) k) Q"
  by (rule monitored_modify_then)

lemma monitored_ex:
  assumes "\<And>n. R n \<Longrightarrow> monitored step (P n) t (Q n)"
  shows "monitored step (\<lambda>a s. \<exists>n. R n \<and> P n a s) t (\<lambda>x a s. \<exists>n. R n \<and> Q n x a s)"
  unfolding monitored_def
proof (intro allI impI, elim exE conjE)
  fix a s out s' r n
  assume "R n" "P n a s" "t s = (out, s', r)"
  then obtain a' where "monitor step a out = Some a'" "\<forall>x. r = Some (Ok x) \<longrightarrow> Q n x a' s'"
    using monitoredD [OF assms] by metis
  with \<open>R n\<close> show "\<exists>a'. monitor step a out = Some a' \<and> (\<forall>x. r = Some (Ok x) \<longrightarrow> (\<exists>n. R n \<and> Q n x a' s'))" by blast
qed

text \<open>From one state of the monitor and the task, steps compute.\<close>

definition at_state :: "'g \<Rightarrow> 's \<Rightarrow> 'g \<Rightarrow> 's \<Rightarrow> bool" where
  "at_state a0 s0 a s \<longleftrightarrow> a = a0 \<and> s = s0"

lemma monitored_pointwise: "(\<And>a s. P a s \<Longrightarrow> monitored step (at_state a s) t Q) \<Longrightarrow> monitored step P t Q"
  by (simp add: monitored_def at_state_def)

lemma monitored_at_get: "monitored step (at_state a s) (k (f s)) Q \<Longrightarrow> monitored step (at_state a s) (task_then (task_get f) k) Q"
  by (rule monitored_get_then) (auto simp: monitored_def at_state_def)

lemma monitored_at_modify:
  "monitored step (at_state a (f s)) (k ()) Q \<Longrightarrow> monitored step (at_state a s) (task_then (task_modify f) k) Q"
  by (rule monitored_modify_then) (simp_all add: at_state_def)

lemma monitored_at_of: "(\<And>x. r = Ok x \<Longrightarrow> Q x a s) \<Longrightarrow> monitored step (at_state a s) (task_of r) Q"
  by (rule monitored_of) (simp add: at_state_def)

lemmas monitored_at = monitored_at_get monitored_at_modify monitored_of_then

section \<open>What holds throughout\<close>

text \<open>From states with \<open>J\<close> the task ends in one, however it ends; all it writes has \<open>G\<close>, and its result \<open>Q\<close>.\<close>

definition upholds ::
  "('s \<Rightarrow> bool) \<Rightarrow> ('m \<Rightarrow> bool) \<Rightarrow> ('m, 'e, 's, 'a) etask \<Rightarrow> ('a \<Rightarrow> bool) \<Rightarrow> bool" where
  "upholds J G t Q \<longleftrightarrow>
     (\<forall>s out s' r. J s \<longrightarrow> t s = (out, s', r) \<longrightarrow> J s' \<and> (\<forall>m\<in>set out. G m) \<and> (\<forall>x. r = Some (Ok x) \<longrightarrow> Q x))"

lemma upholdsD:
  assumes "upholds J G t Q" and "J s" and "t s = (out, s', r)"
  shows "J s'" and "\<forall>m\<in>set out. G m" and "r = Some (Ok x) \<Longrightarrow> Q x"
  using assms unfolding upholds_def by blast+

lemma upholds_then:
  assumes "upholds J G m Q" and "\<And>x. Q x \<Longrightarrow> upholds J G (k x) R"
  shows "upholds J G (task_then m k) R"
  unfolding upholds_def
proof (intro allI impI)
  fix s out s' r
  assume J: "J s" and t: "task_then m k s = (out, s', r)"
  obtain out1 s1 r1 where m: "m s = (out1, s1, r1)" by (metis prod_cases3)
  note 1 = upholdsD [OF assms(1) J m]
  show "J s' \<and> (\<forall>m\<in>set out. G m) \<and> (\<forall>x. r = Some (Ok x) \<longrightarrow> R x)"
  proof (cases "\<exists>x. r1 = Some (Ok x)")
    case True
    then obtain x out2 where x: "r1 = Some (Ok x)" "k x s1 = (out2, s', r)" "out = out1 @ out2"
      using t m by (auto simp: task_then_def split: prod.splits)
    from upholdsD [OF assms(2) [OF 1(3) [OF x(1)]] 1(1) x(2)] 1(2) x(3) show ?thesis by auto
  next
    case False
    then have "out = out1 \<and> s' = s1 \<and> (\<forall>x. r \<noteq> Some (Ok x))"
      using t m by (auto simp: task_then_def split: option.splits sum.splits)
    with 1 show ?thesis by auto
  qed
qed

lemma upholds_of: "(\<And>x. r = Ok x \<Longrightarrow> Q x) \<Longrightarrow> upholds J G (task_of r) Q"
  by (simp add: upholds_def task_of_def task_run_def run_of_def)

lemma upholds_get: "(\<And>s. J s \<Longrightarrow> Q (f s)) \<Longrightarrow> upholds J G (task_get f) Q"
  by (simp add: upholds_def task_get_def)

lemma upholds_modify: "(\<And>s. J s \<Longrightarrow> J (f s)) \<Longrightarrow> Q () \<Longrightarrow> upholds J G (task_modify f) Q"
  by (simp add: upholds_def task_modify_def)

lemma upholds_run: "(\<And>m. m \<in> set (fst r) \<Longrightarrow> G m) \<Longrightarrow> upholds J G (task_run r) (\<lambda>_. True)"
  by (simp add: upholds_def task_run_def)

lemma upholds_weaken: "upholds J G t Q \<Longrightarrow> (\<And>x. Q x \<Longrightarrow> R x) \<Longrightarrow> upholds J G t R"
  unfolding upholds_def by blast

lemma upholds_each: "(\<And>x. upholds J G (f x) (\<lambda>_. True)) \<Longrightarrow> upholds J G (task_each f xs) (\<lambda>_. True)"
  by (induction xs) (auto intro: upholds_of upholds_then)

end
