(* ===== verification/Framing.thy ===== *)
theory Framing
  imports Interfaces
begin

text \<open>
  The transport of \<^verbatim>\<open>crates/protocol/src/lib.rs\<close>: length-prefixed handshake frames, the two
  sides of the Noise XX handshake, and the segmented message transport \<^verbatim>\<open>NoiseSocket\<close>.

  The Noise state machines of the \<^verbatim>\<open>snow\<close> crate are parameters (\<open>noise_handshake\<close> and
  \<open>noise_transport\<close>).  An asynchronous stream is the list of bytes still to be read and the
  list of bytes written; reading past its end is the \<^verbatim>\<open>UnexpectedEof\<close> I/O error.
\<close>

section \<open>Constants and errors\<close>

definition MAX_FRAME_LEN :: nat where
  "MAX_FRAME_LEN = 32 * 1024 * 1024"

definition MAX_WIRE_PACKET_LEN :: nat where
  "MAX_WIRE_PACKET_LEN = 65535"

definition MAX_NOISE_PLAINTEXT_LEN :: nat where
  "MAX_NOISE_PLAINTEXT_LEN = 60 * 1024"

definition NOISE_SEGMENT_MAGIC :: bytes where
  "NOISE_SEGMENT_MAGIC = ascii_bytes ''GCN1''"

definition NOISE_SEGMENT_HEADER_LEN :: nat where
  "NOISE_SEGMENT_HEADER_LEN = 12"

datatype io_error_kind = UnexpectedEof | NotFound | AlreadyExists | InvalidData | OtherIo

datatype protocol_error =
    FrameTooLarge nat
  | MalformedFrame
  | NoiseError string
  | ProtocolIo io_error_kind
  | ProtocolPostcard
  | InvalidNoiseKeyLength nat

section \<open>Clear frames\<close>

definition write_clear_frame :: "bytes \<Rightarrow> bytes \<Rightarrow> protocol_error + bytes" where
  "write_clear_frame out data =
     (if length data > MAX_WIRE_PACKET_LEN then Err (FrameTooLarge (length data))
      else if length data \<ge> 2 ^ 32 then Err (FrameTooLarge (length data))
      else Ok (out @ to_be_bytes 4 (of_nat (length data) :: u32) @ data))"

definition read_clear_frame :: "bytes \<Rightarrow> protocol_error + bytes \<times> bytes" where
  "read_clear_frame inp =
     (if length inp < 4 then Err (ProtocolIo UnexpectedEof)
      else let len = unat (from_be_bytes (take 4 inp) :: u32); rest = drop 4 inp
           in if len > MAX_WIRE_PACKET_LEN then Err (FrameTooLarge len)
              else if length rest < len then Err (ProtocolIo UnexpectedEof)
              else Ok (take len rest, drop len rest))"

section \<open>Segments\<close>

record noise_segment_view =
  total_len :: nat
  seg_offset :: nat
  seg_chunk :: bytes

definition noise_segment :: "nat \<Rightarrow> nat \<Rightarrow> bytes \<Rightarrow> protocol_error + bytes" where
  "noise_segment n_total off chunk =
     (if n_total > 2 ^ 32 - 1 \<or> off > 2 ^ 32 - 1 \<or> saturating_add_usize off (length chunk) > n_total
      then Err MalformedFrame
      else Ok (NOISE_SEGMENT_MAGIC @ to_be_bytes 4 (of_nat n_total :: u32)
               @ to_be_bytes 4 (of_nat off :: u32) @ chunk))"

definition parse_noise_segment :: "bytes \<Rightarrow> protocol_error + noise_segment_view" where
  "parse_noise_segment segment =
     (if length segment < NOISE_SEGMENT_HEADER_LEN \<or> take 4 segment \<noteq> NOISE_SEGMENT_MAGIC
      then Err MalformedFrame
      else let n_total = unat (from_be_bytes (take 4 (drop 4 segment)) :: u32);
               off = unat (from_be_bytes (take 4 (drop 8 segment)) :: u32);
               chunk = drop NOISE_SEGMENT_HEADER_LEN segment
           in if off > n_total \<or> saturating_add_usize off (length chunk) > n_total
              then Err MalformedFrame
              else Ok \<lparr>total_len = n_total, seg_offset = off, seg_chunk = chunk\<rparr>)"

section \<open>The message transport\<close>

record 't noise_transport =
  write_message :: "'t \<Rightarrow> bytes \<Rightarrow> ('t \<times> bytes) option"
  read_message :: "'t \<Rightarrow> bytes \<Rightarrow> ('t \<times> bytes) option"

lemma and_then_cong [fundef_cong]:
  "r = r' \<Longrightarrow> (\<And>x. r' = Inr x \<Longrightarrow> k x = k' x) \<Longrightarrow> and_then r k = and_then r' k'"
  by (cases r') auto

lemma ok_or_cong: "m = m' \<Longrightarrow> ok_or m e = ok_or m' e"
  by simp

text \<open>One pass of the loop of \<^verbatim>\<open>NoiseSocket::write\<close> is one call of \<open>write_segments\<close>.\<close>

definition SEGMENT_CHUNK_LEN :: nat where
  "SEGMENT_CHUNK_LEN = MAX_NOISE_PLAINTEXT_LEN - NOISE_SEGMENT_HEADER_LEN"

definition segment_end :: "bytes \<Rightarrow> nat \<Rightarrow> nat" where
  "segment_end plain off = min (saturating_add_usize off SEGMENT_CHUNK_LEN) (length plain)"

function write_segments ::
  "'t noise_transport \<Rightarrow> 't \<Rightarrow> bytes \<Rightarrow> bytes \<Rightarrow> nat \<Rightarrow> protocol_error + 't \<times> bytes" where
  "write_segments N t out plain off =
     and_then (noise_segment (length plain) off (drop off (take (segment_end plain off) plain)))
       (\<lambda>segment. and_then (ok_or (write_message N t segment) (NoiseError ''write''))
         (\<lambda>(t', encrypted). and_then (write_clear_frame out encrypted)
           (\<lambda>out'. if segment_end plain off = length plain then Ok (t', out')
                   else write_segments N t' out' plain (segment_end plain off))))"
  by pat_completeness auto
termination
proof (relation "measure (\<lambda>(N, t, out, plain, off). length plain - off)", simp, goal_cases)
  case (1 N t out plain off segment p t' encrypted out')
  then show ?case
    by (auto simp: segment_end_def saturating_add_usize_def noise_segment_def SEGMENT_CHUNK_LEN_def
        MAX_NOISE_PLAINTEXT_LEN_def NOISE_SEGMENT_HEADER_LEN_def min_def split: if_splits)
qed

declare write_segments.simps [simp del]

definition socket_write ::
  "'t noise_transport \<Rightarrow> 'm postcard \<Rightarrow> 't \<Rightarrow> bytes \<Rightarrow> 'm \<Rightarrow> protocol_error + 't \<times> bytes" where
  "socket_write N c t out message =
     and_then (ok_or (to_stdvec c message) ProtocolPostcard)
       (\<lambda>plain. if length plain > MAX_FRAME_LEN then Err (FrameTooLarge (length plain))
                else write_segments N t out plain 0)"

text \<open>
  One pass of the loop of \<^verbatim>\<open>NoiseSocket::read_limited\<close>: a frame is read, decrypted and parsed,
  then checked against what was received before it.
\<close>

definition check_segment ::
  "nat \<Rightarrow> nat option \<Rightarrow> bytes \<Rightarrow> noise_segment_view \<Rightarrow> protocol_error + bytes" where
  "check_segment max_len expected_total plain_message segment =
     (let n_total = total_len segment; off = seg_offset segment; chunk = seg_chunk segment
      in if n_total > max_len then Err (FrameTooLarge n_total)
         else if (case expected_total of Some e \<Rightarrow> e \<noteq> n_total | None \<Rightarrow> False) then Err MalformedFrame
         else if off \<noteq> length plain_message \<or> saturating_add_usize off (length chunk) > n_total
         then Err MalformedFrame
         else if chunk = [] \<and> length plain_message < n_total then Err MalformedFrame
         else Ok (plain_message @ chunk))"

function read_segments ::
  "'t noise_transport \<Rightarrow> nat \<Rightarrow> nat option \<Rightarrow> bytes \<Rightarrow> 't \<Rightarrow> bytes
    \<Rightarrow> protocol_error + bytes \<times> 't \<times> bytes" where
  "read_segments N max_len expected_total plain_message t inp =
     and_then (read_clear_frame inp) (\<lambda>(encrypted, inp').
       and_then (ok_or (read_message N t encrypted) (NoiseError ''read'')) (\<lambda>(t', plain).
         and_then (parse_noise_segment plain) (\<lambda>segment.
           and_then (check_segment max_len expected_total plain_message segment) (\<lambda>received.
             if length received = total_len segment then Ok (received, t', inp')
             else read_segments N max_len (Some (total_len segment)) received t' inp'))))"
  by pat_completeness auto
termination
proof (relation "measure (\<lambda>(N, m, e, p, t, inp). length inp)", simp, goal_cases)
  case (1 N max_len expected_total plain_message t inp)
  then show ?case
    by (auto simp: read_clear_frame_def Let_def split: if_splits)
qed

declare read_segments.simps [simp del]

definition socket_read_limited ::
  "'t noise_transport \<Rightarrow> 'm postcard \<Rightarrow> nat \<Rightarrow> 't \<Rightarrow> bytes \<Rightarrow> protocol_error + 'm \<times> 't \<times> bytes" where
  "socket_read_limited N c max_len t inp =
     and_then (read_segments N (min max_len MAX_FRAME_LEN) None [] t inp)
       (\<lambda>(plain_message, t', inp').
          and_then (ok_or (take_from_bytes c plain_message) ProtocolPostcard)
            (\<lambda>(message, remainder).
               if remainder \<noteq> [] then Err MalformedFrame else Ok (message, t', inp')))"

definition socket_read ::
  "'t noise_transport \<Rightarrow> 'm postcard \<Rightarrow> 't \<Rightarrow> bytes \<Rightarrow> protocol_error + 'm \<times> 't \<times> bytes" where
  "socket_read N c t inp = socket_read_limited N c MAX_FRAME_LEN t inp"

section \<open>The Noise XX handshake\<close>

record ('h, 't) noise_xx =
  build_initiator :: "array32 \<Rightarrow> 'h option"
  build_responder :: "array32 \<Rightarrow> 'h option"
  hs_write :: "'h \<Rightarrow> ('h \<times> bytes) option"
  hs_read :: "'h \<Rightarrow> bytes \<Rightarrow> 'h option"
  hs_remote_static :: "'h \<Rightarrow> bytes option"
  hs_into_transport :: "'h \<Rightarrow> 't option"

definition remote_noise_static :: "('h, 't) noise_xx \<Rightarrow> 'h \<Rightarrow> string \<Rightarrow> protocol_error + array32" where
  "remote_noise_static X h role =
     and_then (ok_or (hs_remote_static X h) (NoiseError (''Noise XX omitted '' @ role @ '' static key'')))
       (\<lambda>key. if length key \<noteq> 32 then Err (InvalidNoiseKeyLength (length key))
              else Ok (from_be_bytes key))"

text \<open>
  Both sides return what they wrote to the stream with their result, because what was sent
  before an error is visible to the peer.  The input holds what the peer sends.
\<close>

definition initiator_handshake_xx ::
  "('h, 't) noise_xx \<Rightarrow> array32 \<Rightarrow> (array32 \<Rightarrow> protocol_error + unit) \<Rightarrow> bytes
    \<Rightarrow> bytes \<times> (protocol_error + 't \<times> array32 \<times> bytes)" where
  "initiator_handshake_xx X local_private_key verify_remote inp =
     (case and_then (ok_or (build_initiator X local_private_key) (NoiseError ''build''))
             (\<lambda>h. and_then (ok_or (hs_write X h) (NoiseError ''write''))
               (\<lambda>(h1, m1). and_then (write_clear_frame [] m1) (\<lambda>out1. Ok (h1, out1)))) of
        Inl e \<Rightarrow> ([], Err e)
      | Inr (h1, out1) \<Rightarrow>
          (case and_then (read_clear_frame inp)
                  (\<lambda>(m2, inp'). and_then (ok_or (hs_read X h1 m2) (NoiseError ''read''))
                    (\<lambda>h2. and_then (remote_noise_static X h2 ''responder'')
                      (\<lambda>remote. and_then (verify_remote remote)
                        (\<lambda>_. and_then (ok_or (hs_write X h2) (NoiseError ''write''))
                          (\<lambda>(h3, m3). and_then (write_clear_frame out1 m3)
                            (\<lambda>out2. Ok (h3, remote, inp', out2))))))) of
             Inl e \<Rightarrow> (out1, Err e)
           | Inr (h3, remote, inp', out2) \<Rightarrow>
               (out2, and_then (ok_or (hs_into_transport X h3) (NoiseError ''transport''))
                        (\<lambda>t. Ok (t, remote, inp')))))"

definition responder_handshake_xx ::
  "('h, 't) noise_xx \<Rightarrow> array32 \<Rightarrow> bytes \<Rightarrow> bytes \<times> (protocol_error + 't \<times> array32 \<times> bytes)" where
  "responder_handshake_xx X local_private_key inp =
     (case and_then (ok_or (build_responder X local_private_key) (NoiseError ''build''))
             (\<lambda>h. and_then (read_clear_frame inp)
               (\<lambda>(m1, inp'). and_then (ok_or (hs_read X h m1) (NoiseError ''read''))
                 (\<lambda>h1. and_then (ok_or (hs_write X h1) (NoiseError ''write''))
                   (\<lambda>(h2, m2). and_then (write_clear_frame [] m2)
                     (\<lambda>out1. Ok (h2, inp', out1)))))) of
        Inl e \<Rightarrow> ([], Err e)
      | Inr (h2, inp', out1) \<Rightarrow>
          (out1, and_then (read_clear_frame inp')
                   (\<lambda>(m3, inp''). and_then (ok_or (hs_read X h2 m3) (NoiseError ''read''))
                     (\<lambda>h3. and_then (remote_noise_static X h3 ''initiator'')
                       (\<lambda>remote. and_then (ok_or (hs_into_transport X h3) (NoiseError ''transport''))
                         (\<lambda>t. Ok (t, remote, inp''))))))) "

section \<open>Lemmas\<close>

lemmas framing_limits = MAX_FRAME_LEN_def MAX_WIRE_PACKET_LEN_def MAX_NOISE_PLAINTEXT_LEN_def
  NOISE_SEGMENT_HEADER_LEN_def SEGMENT_CHUNK_LEN_def

lemma unat_of_nat_u32: "n < 2 ^ 32 \<Longrightarrow> unat (of_nat n :: u32) = n"
  by (simp add: unat_of_nat take_bit_nat_eq_self_iff)

lemma clear_frame_read_back:
  assumes "write_clear_frame out d = Ok out'"
  obtains f where "out' = out @ f" and "\<And>rest. read_clear_frame (f @ rest) = Ok (d, rest)"
proof (rule that)
  let ?f = "to_be_bytes 4 (of_nat (length d) :: u32) @ d"
  from assms have d: "length d \<le> MAX_WIRE_PACKET_LEN" and out': "out' = out @ ?f"
    by (auto simp: write_clear_frame_def split: if_splits)
  show "out' = out @ ?f" by (rule out')
  fix rest
  from d have "unat (of_nat (length d) :: u32) = length d"
    by (intro unat_of_nat_u32) (simp add: framing_limits)
  with d show "read_clear_frame (?f @ rest) = Ok (d, rest)"
    by (simp add: read_clear_frame_def)
qed

lemma length_NOISE_SEGMENT_MAGIC [simp]: "length NOISE_SEGMENT_MAGIC = 4"
  by (simp add: NOISE_SEGMENT_MAGIC_def ascii_bytes_def)

lemma parse_built_segment:
  assumes "noise_segment n off chunk = Ok seg"
  shows "parse_noise_segment seg = Ok \<lparr>total_len = n, seg_offset = off, seg_chunk = chunk\<rparr>"
proof -
  from assms have bounds: "n < 2 ^ 32" "off < 2 ^ 32" "saturating_add_usize off (length chunk) \<le> n"
    and seg: "seg = NOISE_SEGMENT_MAGIC @ to_be_bytes 4 (of_nat n :: u32)
                    @ to_be_bytes 4 (of_nat off :: u32) @ chunk"
    by (auto simp: noise_segment_def split: if_splits)
  from bounds have "off \<le> n"
    by (auto simp: saturating_add_usize_def)
  with bounds show ?thesis
    by (simp add: parse_noise_segment_def seg unat_of_nat_u32 NOISE_SEGMENT_HEADER_LEN_def)
qed

text \<open>A segment of at most \<open>SEGMENT_CHUNK_LEN\<close> bytes never saturates the additions.\<close>

lemma segment_end_le: "segment_end plain off \<le> length plain"
  by (simp add: segment_end_def)

lemma segment_end_eq:
  "off \<le> length plain \<Longrightarrow> length plain \<le> MAX_FRAME_LEN \<Longrightarrow>
   segment_end plain off = min (off + SEGMENT_CHUNK_LEN) (length plain)"
  by (simp add: segment_end_def saturating_add_usize_def framing_limits)

text \<open>What a synchronised pair of Noise transport states promises.\<close>

definition noise_synced :: "'t noise_transport \<Rightarrow> ('t \<Rightarrow> 't \<Rightarrow> bool) \<Rightarrow> bool" where
  "noise_synced N R \<longleftrightarrow>
     (\<forall>s r m s' ct. R s r \<longrightarrow> write_message N s m = Some (s', ct) \<longrightarrow>
        (\<exists>r'. read_message N r ct = Some (r', m) \<and> R s' r'))"

text \<open>The sending side takes a message of up to \<open>MAX_NOISE_PLAINTEXT_LEN\<close> and adds its tag.\<close>

definition noise_accepts :: "'t noise_transport \<Rightarrow> bool" where
  "noise_accepts N \<longleftrightarrow>
     (\<forall>s m. length m \<le> MAX_NOISE_PLAINTEXT_LEN \<longrightarrow>
        (\<exists>s' ct. write_message N s m = Some (s', ct) \<and> length ct = length m + 16))"

lemma take_append_slice:
  "off \<le> e \<Longrightarrow> e \<le> length xs \<Longrightarrow> take off xs @ drop off (take e xs) = take e xs"
  by (metis append_take_drop_id min.absorb1 take_take)

lemma check_segment_next:
  assumes "off \<le> length plain" "off < length plain \<or> plain = []" "length plain \<le> max_len"
    "length plain \<le> MAX_FRAME_LEN" "expected = None \<or> expected = Some (length plain)"
  shows "check_segment max_len expected (take off plain)
      \<lparr>total_len = length plain, seg_offset = off,
       seg_chunk = drop off (take (segment_end plain off) plain)\<rparr>
    = Ok (take (segment_end plain off) plain)"
  using assms
  by (auto simp: check_segment_def Let_def segment_end_eq saturating_add_usize_def framing_limits
      take_append_slice min_def split: option.splits)

lemma write_segments_read_back:
  assumes sync: "noise_synced N R"
  shows "write_segments N s out plain off = Ok (s', out') \<Longrightarrow> R s r \<Longrightarrow>
    off \<le> length plain \<Longrightarrow> off < length plain \<or> plain = [] \<Longrightarrow>
    length plain \<le> max_len \<Longrightarrow> length plain \<le> MAX_FRAME_LEN \<Longrightarrow>
    expected = None \<or> expected = Some (length plain) \<Longrightarrow>
    \<exists>frames r'. out' = out @ frames \<and> R s' r' \<and>
      (\<forall>rest. read_segments N max_len expected (take off plain) r (frames @ rest)
              = Ok (plain, r', rest))"
proof (induction "length plain - off" arbitrary: off s out r expected rule: less_induct)
  case less
  let ?stop = "segment_end plain off"
  let ?chunk = "drop off (take ?stop plain)"
  from less.prems(1) obtain seg s1 ct out1 where
    seg: "noise_segment (length plain) off ?chunk = Ok seg" and
    ct: "write_message N s seg = Some (s1, ct)" and
    out1: "write_clear_frame out ct = Ok out1" and
    rest: "(if ?stop = length plain then Ok (s1, out1)
            else write_segments N s1 out1 plain ?stop) = Ok (s', out')"
    by (subst (asm) write_segments.simps) (auto simp: result_simps)
  from sync less.prems(2) ct obtain r1 where
    r1: "read_message N r ct = Some (r1, seg)" "R s1 r1"
    unfolding noise_synced_def by blast
  from clear_frame_read_back [OF out1] obtain f where
    f: "out1 = out @ f" "\<And>rest. read_clear_frame (f @ rest) = Ok (ct, rest)"
    by blast
  have step: "read_segments N max_len expected (take off plain) r (f @ x) =
      (if ?stop = length plain then Ok (plain, r1, x)
       else read_segments N max_len (Some (length plain)) (take ?stop plain) r1 x)" for x
    using check_segment_next [OF less.prems(3-7)] segment_end_le [of plain off]
    by (subst read_segments.simps)
      (simp add: f(2) r1(1) parse_built_segment [OF seg] min_absorb2)
  show ?case
  proof (cases "?stop = length plain")
    case True
    with rest step f r1 show ?thesis by auto
  next
    case False
    with less.prems(3,4,6) segment_end_le [of plain off]
    have "length plain - ?stop < length plain - off" "?stop \<le> length plain" "?stop < length plain"
      by (auto simp: segment_end_eq framing_limits)
    moreover from rest False have "write_segments N s1 out1 plain ?stop = Ok (s', out')" by simp
    ultimately obtain frames r' where
      "out' = out1 @ frames" "R s' r'"
      "\<And>rest. read_segments N max_len (Some (length plain)) (take ?stop plain) r1 (frames @ rest)
        = Ok (plain, r', rest)"
      using less.hyps [of ?stop s1 out1 r1 "Some (length plain)"] r1(2) less.prems(5,6) by blast
    with False step f(1) show ?thesis
      by (intro exI [of _ "f @ frames"] exI [of _ r']) simp
  qed
qed

lemma read_segments_bounded:
  "read_segments N max_len expected plain t inp = Ok (msg, t', inp') \<Longrightarrow> length msg \<le> max_len"
proof (induction N max_len expected plain t inp rule: read_segments.induct)
  case (1 N max_len expected plain t inp)
  from "1.prems" obtain e inp1 t1 p seg received where
    *: "read_clear_frame inp = Ok (e, inp1)" "read_message N t e = Some (t1, p)"
      "parse_noise_segment p = Ok seg" "check_segment max_len expected plain seg = Ok received" and
    rest: "(if length received = total_len seg then Ok (received, t1, inp1)
       else read_segments N max_len (Some (total_len seg)) received t1 inp1) = Ok (msg, t', inp')"
    by (subst (asm) read_segments.simps) (auto simp: result_simps)
  from *(4) have "total_len seg \<le> max_len"
    by (auto simp: check_segment_def Let_def split: if_splits)
  with rest "1.IH" [of "(e, inp1)" e inp1 "(t1, p)" t1 p seg received] * show ?case
    by (auto simp: result_simps split: if_splits)
qed

lemma write_segments_succeeds:
  assumes acc: "noise_accepts N"
  shows "off \<le> length plain \<Longrightarrow> length plain \<le> MAX_FRAME_LEN \<Longrightarrow>
    \<exists>s' out'. write_segments N s out plain off = Ok (s', out')"
proof (induction "length plain - off" arbitrary: off s out rule: less_induct)
  case less
  let ?stop = "segment_end plain off"
  let ?chunk = "drop off (take ?stop plain)"
  have e: "?stop = min (off + SEGMENT_CHUNK_LEN) (length plain)"
    by (rule segment_end_eq [OF less.prems])
  obtain seg where seg: "noise_segment (length plain) off ?chunk = Ok seg"
    using less.prems e by (auto simp: noise_segment_def saturating_add_usize_def framing_limits)
  have "length seg \<le> MAX_NOISE_PLAINTEXT_LEN"
    using seg less.prems e by (auto simp: noise_segment_def framing_limits split: if_splits)
  with acc obtain s1 ct where ct: "write_message N s seg = Some (s1, ct)" "length ct \<le> 65535"
    unfolding noise_accepts_def by (fastforce simp: framing_limits)
  then obtain out1 where out1: "write_clear_frame out ct = Ok out1"
    by (auto simp: write_clear_frame_def framing_limits)
  show ?case
  proof (cases "?stop = length plain")
    case True
    with seg ct(1) out1 show ?thesis
      by (subst write_segments.simps) simp
  next
    case False
    with e less.prems have "length plain - ?stop < length plain - off" "?stop \<le> length plain"
      by (auto simp: framing_limits)
    with less.hyps less.prems(2) obtain s' out' where
      "write_segments N s1 out1 plain ?stop = Ok (s', out')" by blast
    with False show ?thesis
      by (subst write_segments.simps) (simp add: seg ct out1)
  qed
qed

section \<open>Properties\<close>

text \<open>
  C38: A message that one side writes with \<^verbatim>\<open>NoiseSocket::write\<close>, in however many segments, is read
  back unchanged by \<^verbatim>\<open>NoiseSocket::read\<close> on the other side, which stops exactly at the end of
  the message and leaves the bytes of the next one; the two Noise states stay synchronised.
\<close>

theorem socket_round_trip:
  assumes "noise_synced N R" and "postcard_ok c" and "R s r"
    and "socket_write N c s out message = Ok (s', out')"
  shows "\<exists>frames r'. out' = out @ frames \<and> R s' r' \<and>
    (\<forall>rest. socket_read N c r (frames @ rest) = Ok (message, r', rest))"
proof -
  from assms(4) obtain plain where
    plain: "to_stdvec c message = Some plain" "length plain \<le> MAX_FRAME_LEN"
      "write_segments N s out plain 0 = Ok (s', out')"
    by (auto simp: socket_write_def result_simps)
  obtain frames r' where
    "out' = out @ frames" "R s' r'"
    "\<And>rest. read_segments N MAX_FRAME_LEN None [] r (frames @ rest) = Ok (plain, r', rest)"
    using write_segments_read_back [OF assms(1) plain(3) assms(3), of MAX_FRAME_LEN None] plain(2)
    by auto
  with postcard_okD_exact [OF assms(2) plain(1)] show ?thesis
    by (auto simp: socket_read_def socket_read_limited_def)
qed

definition example_transport :: "unit noise_transport" where
  "example_transport = \<lparr>
     write_message = (\<lambda>s m. Some (s, m @ replicate 16 0)),
     read_message = (\<lambda>s m. Some (s, take (length m - 16) m))\<rparr>"

lemma example_transport_synced: "noise_synced example_transport (\<lambda>_ _. True)"
  by (simp add: noise_synced_def example_transport_def)

lemma example_transport_accepts: "noise_accepts example_transport"
  by (simp add: noise_accepts_def example_transport_def)

lemma example_write:
  "\<exists>s' out'. socket_write example_transport (single_postcard True [7]) () [] True = Ok (s', out')"
  using write_segments_succeeds [OF example_transport_accepts, of 0 "[7]" "()" "[]"]
  by (simp add: socket_write_def single_postcard_def MAX_FRAME_LEN_def)

theorem socket_round_trip_witness:
  "\<exists>out' frames r'. socket_write example_transport (single_postcard True [7]) () [] True = Ok ((), out') \<and>
     out' = [] @ frames \<and>
     (\<forall>rest. socket_read example_transport (single_postcard True [7]) () (frames @ rest) = Ok (True, r', rest))"
proof -
  obtain s' out' where w: "socket_write example_transport (single_postcard True [7]) () [] True = Ok (s', out')"
    using example_write by blast
  show ?thesis
    using w socket_round_trip [OF example_transport_synced single_postcard_ok TrueI w] by auto
qed

text \<open>
When the Noise transport takes every plaintext of up to 60 KiB and adds a 16-byte tag,
  \<^verbatim>\<open>NoiseSocket::write\<close> succeeds on every message whose encoding has at most 32 MiB: no segment
  exceeds the packet bound, and the segmentation loop ends.
\<close>

theorem socket_write_succeeds:
  assumes "noise_accepts N" and "to_stdvec c message = Some plain" and "length plain \<le> MAX_FRAME_LEN"
  shows "is_ok (socket_write N c s out message)"
  using write_segments_succeeds [OF assms(1), of 0 plain s out] assms(2,3)
  by (auto simp: socket_write_def is_ok_iff)

theorem socket_write_succeeds_witness:
  "is_ok (socket_write example_transport (single_postcard False [1, 2]) () [9] False)"
  by (rule socket_write_succeeds [OF example_transport_accepts, where plain = "[1, 2]"])
    (simp_all add: single_postcard_def MAX_FRAME_LEN_def)

text \<open>
\<^verbatim>\<open>read_limited\<close> never assembles more than the caller's limit or \<open>MAX_FRAME_LEN\<close>,
  whatever bytes the peer sends: a message it returns was decoded from at most that many bytes.
\<close>

theorem socket_read_bounded:
  assumes "socket_read_limited N c max_len t inp = Ok (message, t', inp')"
  shows "\<exists>plain. take_from_bytes c plain = Some (message, []) \<and>
    length plain \<le> max_len \<and> length plain \<le> MAX_FRAME_LEN"
  using assms
  by (fastforce simp: socket_read_limited_def result_simps dest: read_segments_bounded split: if_splits)

text \<open>A one-byte message in one segment, as the example transport carries it.\<close>

definition example_frame :: bytes where
  "example_frame =
     [0, 0, 0, 29, 71, 67, 78, 49, 0, 0, 0, 1, 0, 0, 0, 0, 7] @ replicate 16 0"

lemma example_read:
  "socket_read_limited example_transport (single_postcard True [7]) 64 () example_frame
     = Ok (True, (), [])"
proof -
  have "read_clear_frame example_frame
      = Ok ([71, 67, 78, 49, 0, 0, 0, 1, 0, 0, 0, 0, 7] @ replicate 16 0, [])"
    by (simp add: read_clear_frame_def example_frame_def from_be_bytes_def framing_limits)
  moreover have "parse_noise_segment [71, 67, 78, 49, 0, 0, 0, 1, 0, 0, 0, 0, 7]
      = Ok \<lparr>total_len = 1, seg_offset = 0, seg_chunk = [7]\<rparr>"
    by (simp add: parse_noise_segment_def framing_limits NOISE_SEGMENT_MAGIC_def ascii_bytes_def
        from_be_bytes_def saturating_add_usize_def)
  ultimately show ?thesis
    by (simp add: socket_read_limited_def read_segments.simps example_transport_def
        check_segment_def saturating_add_usize_def framing_limits single_postcard_def)
qed

theorem socket_read_bounded_witness:
  "\<exists>plain. take_from_bytes (single_postcard True [7]) plain = Some (True, []) \<and>
    length plain \<le> 64 \<and> length plain \<le> MAX_FRAME_LEN"
  by (rule socket_read_bounded [OF example_read])

text \<open>
  The initiator sends the last handshake message only after the caller's check accepted the
  responder's static key.  Whenever the peer received anything beyond the first handshake frame,
  some key passed the check, and a completed handshake returns that key.
\<close>

theorem initiator_verifies_before_finishing:
  assumes "initiator_handshake_xx X priv verify_remote inp = (out, result)" and "out \<noteq> []"
    and "\<And>h h1 m1. build_initiator X priv = Some h \<Longrightarrow> hs_write X h = Some (h1, m1) \<Longrightarrow>
      write_clear_frame [] m1 \<noteq> Ok out"
  shows "\<exists>key. verify_remote key = Ok () \<and> (\<forall>t k rest. result = Ok (t, k, rest) \<longrightarrow> k = key)"
  using assms
  by (auto simp: initiator_handshake_xx_def result_simps split: sum.splits prod.splits)

definition example_xx :: "(nat, unit) noise_xx" where
  "example_xx = \<lparr>build_initiator = (\<lambda>_. Some 0), build_responder = (\<lambda>_. Some 0),
     hs_write = (\<lambda>h. Some (Suc h, [of_nat h])), hs_read = (\<lambda>h m. Some (Suc h)),
     hs_remote_static = (\<lambda>h. Some (replicate 32 1)), hs_into_transport = (\<lambda>h. Some ())\<rparr>"

theorem initiator_verifies_before_finishing_witness:
  "\<exists>key. (\<lambda>k. if k = from_be_bytes (replicate 32 1) then Ok () else Err MalformedFrame) key = Ok ()"
proof -
  let ?v = "\<lambda>k :: array32. if k = from_be_bytes (replicate 32 1) then Ok () else Err MalformedFrame"
  have run: "initiator_handshake_xx example_xx 5 ?v [0, 0, 0, 1, 9]
      = ([0, 0, 0, 1, 0, 0, 0, 0, 1, 2], Ok ((), from_be_bytes (replicate 32 1), []))"
    by (simp add: initiator_handshake_xx_def example_xx_def write_clear_frame_def framing_limits
        read_clear_frame_def remote_noise_static_def to_be_bytes_def from_be_bytes_def upt_rec)
  show ?thesis
    using initiator_verifies_before_finishing [OF run]
    by (auto simp: example_xx_def write_clear_frame_def to_be_bytes_def)
qed

end
