(* ===== verification/Identity.thy ===== *)
theory Identity
  imports Framing
begin

text \<open>
  \<^verbatim>\<open>crates/protocol/src/identity.rs\<close>: publisher and viewer identities, their fingerprints,
  signatures over a domain and a serialized value, the identity file, and loading or creating it.

  Every operation takes the environment of the code outside the repository: the primitives of
  \<^typ>\<open>crypto\<close> and the serializers of the types it signs or stores.  The private-file operations
  of \<^verbatim>\<open>private_state.rs\<close> (\<^verbatim>\<open>read_private\<close>, \<^verbatim>\<open>create_private\<close>) act on one path, whose content
  is the only state they have; another process may create the file between the two reads.
\<close>

section \<open>Data\<close>

definition IDENTITY_VERSION :: u16 where
  "IDENTITY_VERSION = 1"

definition IDENTITY_FILE_MAGIC :: bytes where
  "IDENTITY_FILE_MAGIC = ascii_bytes ''GCIK1''"

definition SIGNATURE_PREFIX :: bytes where
  "SIGNATURE_PREFIX = ascii_bytes ''glacialcast-signature-v1''"

definition IDENTITY_FINGERPRINT_PREFIX :: bytes where
  "IDENTITY_FINGERPRINT_PREFIX = ascii_bytes ''glacialcast-identity-v1''"

record signature_bytes =
  sig_first :: array32
  sig_second :: array32

definition signature_from_bytes :: "bytes \<Rightarrow> signature_bytes" where
  "signature_from_bytes bs =
     \<lparr>sig_first = from_be_bytes (take 32 bs), sig_second = from_be_bytes (drop 32 bs)\<rparr>"

definition signature_to_bytes :: "signature_bytes \<Rightarrow> bytes" where
  "signature_to_bytes s = to_be_bytes 32 (sig_first s) @ to_be_bytes 32 (sig_second s)"

datatype identity_error =
    IdentityUnsupportedVersion u16
  | InvalidKey
  | InvalidSignature
  | IdentityPostcard
  | IdentityIo io_error_kind

record identity_public =
  id_version :: u16
  signing_key :: array32
  kem_key :: array32

record stored_identity =
  st_version :: u16
  st_signing_secret :: array32
  st_kem_secret :: array32

record identity_secret =
  signing_secret :: array32
  kem_secret :: array32

text \<open>The environment: the primitives and the serializers of the two types of this file.\<close>

record identity_env = crypto +
  identity_codec :: "identity_public postcard"
  stored_identity_codec :: "stored_identity postcard"

section \<open>Public identities\<close>

definition identity_validate :: "'z identity_env_scheme \<Rightarrow> identity_public \<Rightarrow> identity_error + unit" where
  "identity_validate E i =
     (if id_version i \<noteq> IDENTITY_VERSION then Err (IdentityUnsupportedVersion (id_version i))
      else if \<not> ed_key_ok E (signing_key i) then Err InvalidKey
      else if kem_key i = 0 then Err InvalidKey
      else if \<not> kem_public_ok E (kem_key i) then Err InvalidKey
      else Ok ())"

definition identity_id :: "'z identity_env_scheme \<Rightarrow> identity_public \<Rightarrow> identity_error + array32" where
  "identity_id E i =
     and_then (identity_validate E i) (\<lambda>_.
       and_then (ok_or (to_stdvec (identity_codec E) i) IdentityPostcard) (\<lambda>encoded.
         Ok (sha256 E (IDENTITY_FINGERPRINT_PREFIX @ encoded))))"

text \<open>A parsed key is the encoded key it was parsed from.\<close>

definition verifying_key :: "'z identity_env_scheme \<Rightarrow> identity_public \<Rightarrow> identity_error + array32" where
  "verifying_key E i =
     and_then (identity_validate E i) (\<lambda>_.
       if ed_key_ok E (signing_key i) then Ok (signing_key i) else Err InvalidKey)"

definition kem_public_key :: "'z identity_env_scheme \<Rightarrow> identity_public \<Rightarrow> identity_error + array32" where
  "kem_public_key E i =
     and_then (identity_validate E i) (\<lambda>_.
       if kem_public_ok E (kem_key i) then Ok (kem_key i) else Err InvalidKey)"

section \<open>Private identities\<close>

definition secret_public :: "'z identity_env_scheme \<Rightarrow> identity_secret \<Rightarrow> identity_error + identity_public" where
  "secret_public E s =
     (if \<not> kem_secret_ok E (kem_secret s) then Err InvalidKey
      else let kem = kem_public E (kem_secret s)
           in if kem = 0 then Err InvalidKey
              else Ok \<lparr>id_version = IDENTITY_VERSION, signing_key = ed_public E (signing_secret s),
                       kem_key = kem\<rparr>)"

definition from_private_bytes ::
  "'z identity_env_scheme \<Rightarrow> array32 \<Rightarrow> array32 \<Rightarrow> identity_error + identity_secret" where
  "from_private_bytes E sk kem =
     (if sk = 0 \<or> kem = 0 then Err InvalidKey
      else let identity = \<lparr>signing_secret = sk, kem_secret = kem\<rparr>
           in and_then (secret_public E identity) (\<lambda>_. Ok identity))"

definition kem_private_key :: "'z identity_env_scheme \<Rightarrow> identity_secret \<Rightarrow> identity_error + array32" where
  "kem_private_key E s = (if kem_secret_ok E (kem_secret s) then Ok (kem_secret s) else Err InvalidKey)"

definition secret_encode :: "'z identity_env_scheme \<Rightarrow> identity_secret \<Rightarrow> identity_error + bytes" where
  "secret_encode E s =
     and_then (ok_or (to_stdvec (stored_identity_codec E)
                 \<lparr>st_version = IDENTITY_VERSION, st_signing_secret = signing_secret s,
                  st_kem_secret = kem_secret s\<rparr>) IdentityPostcard)
       (\<lambda>payload. Ok (IDENTITY_FILE_MAGIC @ payload))"

definition secret_decode :: "'z identity_env_scheme \<Rightarrow> bytes \<Rightarrow> identity_error + identity_secret" where
  "secret_decode E bs =
     (if take (length IDENTITY_FILE_MAGIC) bs \<noteq> IDENTITY_FILE_MAGIC then Err InvalidKey
      else and_then (ok_or (take_from_bytes (stored_identity_codec E) (drop (length IDENTITY_FILE_MAGIC) bs))
                       IdentityPostcard)
        (\<lambda>(stored, remainder).
          if remainder \<noteq> [] then Err InvalidKey
          else if st_version stored \<noteq> IDENTITY_VERSION
          then Err (IdentityUnsupportedVersion (st_version stored))
          else if st_signing_secret stored = 0 \<or> st_kem_secret stored = 0 then Err InvalidKey
          else from_private_bytes E (st_signing_secret stored) (st_kem_secret stored)))"

section \<open>Signatures\<close>

definition canonical :: "'a postcard \<Rightarrow> 'a \<Rightarrow> identity_error + bytes" where
  "canonical c v = ok_or (to_stdvec c v) IdentityPostcard"

text \<open>The bytes fed to the hash, in the order of the \<^verbatim>\<open>update\<close> calls.\<close>

definition signing_input :: "bytes \<Rightarrow> bytes \<Rightarrow> bytes" where
  "signing_input domain encoded =
     SIGNATURE_PREFIX @ to_be_bytes 2 (of_nat (length domain) :: u16) @ domain
     @ to_be_bytes 8 (of_nat (length encoded) :: u64) @ encoded"

definition signing_digest :: "'z crypto_scheme \<Rightarrow> 'a postcard \<Rightarrow> bytes \<Rightarrow> 'a \<Rightarrow> identity_error + array32" where
  "signing_digest E c domain v =
     and_then (canonical c v) (\<lambda>encoded.
       if length domain \<ge> 2 ^ 16 then Err InvalidKey
       else Ok (sha256 E (signing_input domain encoded)))"

definition sign :: "'z crypto_scheme \<Rightarrow> 'a postcard \<Rightarrow> identity_secret \<Rightarrow> bytes \<Rightarrow> 'a
    \<Rightarrow> identity_error + signature_bytes" where
  "sign E c s domain v =
     and_then (signing_digest E c domain v) (\<lambda>digest.
       Ok (signature_from_bytes (ed_sign E (signing_secret s) (to_be_bytes 32 digest))))"

definition verify :: "'z identity_env_scheme \<Rightarrow> 'a postcard \<Rightarrow> identity_public \<Rightarrow> bytes \<Rightarrow> 'a
    \<Rightarrow> signature_bytes \<Rightarrow> identity_error + unit" where
  "verify E c i domain v signature =
     and_then (signing_digest E c domain v) (\<lambda>digest.
       and_then (verifying_key E i) (\<lambda>key.
         if ed_verify E key (to_be_bytes 32 digest) (signature_to_bytes signature)
         then Ok () else Err InvalidSignature))"

section \<open>Loading or creating the identity file\<close>

text \<open>
  \<open>first\<close> is what the first read of the path returns, \<open>created\<close> what creating the file with the
  encoded identity returns and \<open>second\<close> what a read after a lost race returns.  The result
  carries the bytes written to the new file, if it was created.
\<close>

definition load_or_create_identity ::
  "'z identity_env_scheme \<Rightarrow> identity_secret \<Rightarrow> io_error_kind + bytes \<Rightarrow> io_error_kind + unit
    \<Rightarrow> io_error_kind + bytes \<Rightarrow> identity_error + identity_secret \<times> bytes option" where
  "load_or_create_identity E generated first created second =
     (case first of
        Inr bs \<Rightarrow> and_then (secret_decode E bs) (\<lambda>s. Ok (s, None))
      | Inl NotFound \<Rightarrow>
          and_then (secret_encode E generated) (\<lambda>encoded.
            (case created of
               Inr _ \<Rightarrow> Ok (generated, Some encoded)
             | Inl AlreadyExists \<Rightarrow>
                 and_then (map_err IdentityIo second) (\<lambda>bs.
                   and_then (secret_decode E bs) (\<lambda>s. Ok (s, None)))
             | Inl e \<Rightarrow> Err (IdentityIo e)))
      | Inl e \<Rightarrow> Err (IdentityIo e))"

section \<open>Lemmas\<close>

lemma signature_bytes_round_trip:
  "length bs = 64 \<Longrightarrow> signature_to_bytes (signature_from_bytes bs) = bs"
  by (simp add: signature_to_bytes_def signature_from_bytes_def)

lemma signature_from_to_bytes: "signature_from_bytes (signature_to_bytes s) = s"
  by (simp add: signature_to_bytes_def signature_from_bytes_def)

lemma identity_validate_ok [validated]:
  "identity_validate E i = Ok () \<longleftrightarrow>
     id_version i = IDENTITY_VERSION \<and> ed_key_ok E (signing_key i) \<and> kem_key i \<noteq> 0 \<and>
     kem_public_ok E (kem_key i)"
  by (auto simp: identity_validate_def)

lemma verifying_key_ok:
  "verifying_key E i = Ok k \<longleftrightarrow> identity_validate E i = Ok () \<and> k = signing_key i"
  by (auto simp: verifying_key_def and_then_eq_Ok identity_validate_ok)

lemma kem_public_key_ok:
  "kem_public_key E i = Ok k \<longleftrightarrow> identity_validate E i = Ok () \<and> k = kem_key i"
  by (auto simp: kem_public_key_def and_then_eq_Ok identity_validate_ok)

lemma verify_ok:
  "verify E c i domain v signature = Ok () \<longleftrightarrow>
     identity_validate E i = Ok () \<and>
     (\<exists>digest. signing_digest E c domain v = Ok digest \<and>
        ed_verify E (signing_key i) (to_be_bytes 32 digest) (signature_to_bytes signature))"
  by (auto simp: verify_def and_then_eq_Ok verifying_key_ok)

text \<open>The key pair law: a public identity derived from a secret one is valid.\<close>

definition keys_ok :: "'z crypto_scheme \<Rightarrow> bool" where
  "keys_ok E \<longleftrightarrow> signatures_ok E \<and> (\<forall>sk. kem_secret_ok E sk \<longrightarrow> kem_public_ok E (kem_public E sk))"

lemma secret_public_valid:
  "keys_ok E \<Longrightarrow> secret_public E s = Ok i \<Longrightarrow> identity_validate E i = Ok ()"
  by (auto simp: secret_public_def identity_validate_ok keys_ok_def signatures_ok_def Let_def
      split: if_splits)

lemma secret_public_signing_key: "secret_public E s = Ok i \<Longrightarrow> signing_key i = ed_public E (signing_secret s)"
  by (auto simp: secret_public_def Let_def split: if_splits)

lemma secret_public_kem: "secret_public E s = Ok i \<Longrightarrow> kem_secret_ok E (kem_secret s) \<and> kem_key i = kem_public E (kem_secret s)"
  by (auto simp: secret_public_def Let_def split: if_splits)

text \<open>What a secret key signs verifies under its public identity.\<close>

lemma verify_sign:
  assumes "keys_ok E" and "secret_public E s = Ok i" and "sign E c s domain v = Ok signature"
  shows "verify E c i domain v signature = Ok ()"
proof -
  from assms(3) obtain digest where d: "signing_digest E c domain v = Ok digest"
    "signature = signature_from_bytes (ed_sign E (signing_secret s) (to_be_bytes 32 digest))"
    by (auto simp: sign_def and_then_eq_Ok)
  have "signature_to_bytes signature = ed_sign E (signing_secret s) (to_be_bytes 32 digest)"
    using assms(1) d(2) by (simp add: signature_bytes_round_trip keys_ok_def signatures_ok_def)
  then show ?thesis
    using assms d(1) secret_public_valid [OF assms(1,2)] secret_public_signing_key [OF assms(2)]
    by (auto simp: verify_ok keys_ok_def signatures_ok_def)
qed

lemma sign_verify_digest: "is_ok (sign E c s domain v) \<longleftrightarrow> is_ok (signing_digest E c domain v)"
  by (auto simp: is_ok_iff sign_def and_then_eq_Ok)

lemma secret_decode_encode:
  assumes "postcard_ok (stored_identity_codec E)" and "secret_encode E s = Ok bs"
    and "from_private_bytes E (signing_secret s) (kem_secret s) = Ok s"
  shows "secret_decode E bs = Ok s"
proof -
  from assms(2) obtain payload where
    p: "to_stdvec (stored_identity_codec E)
          \<lparr>st_version = IDENTITY_VERSION, st_signing_secret = signing_secret s,
           st_kem_secret = kem_secret s\<rparr> = Some payload" "bs = IDENTITY_FILE_MAGIC @ payload"
    by (auto simp: secret_encode_def and_then_eq_Ok ok_or_eq_Ok)
  have "signing_secret s \<noteq> 0" "kem_secret s \<noteq> 0"
    using assms(3) by (auto simp: from_private_bytes_def split: if_splits)
  then show ?thesis
    using assms(3) postcard_okD_exact [OF assms(1) p(1)] p(2) by (simp add: secret_decode_def)
qed

section \<open>Properties\<close>

text \<open>Signatures are domain separated: two signed inputs hash the same bytes only when
  both the domain and the serialized value are the same, so a signature made for one kind of
  claim cannot be presented as a signature on another kind.\<close>

theorem signing_input_injective:
  assumes "length d < 2 ^ 16" and "length d' < 2 ^ 16" and "length v < 2 ^ 64" and "length v' < 2 ^ 64"
    and "signing_input d v = signing_input d' v'"
  shows "d = d' \<and> v = v'"
proof -
  have "to_be_bytes 2 (of_nat (length d) :: u16) = to_be_bytes 2 (of_nat (length d') :: u16)"
    and rest: "d @ to_be_bytes 8 (of_nat (length v) :: u64) @ v = d' @ to_be_bytes 8 (of_nat (length v') :: u64) @ v'"
    using assms(5) by (simp_all add: signing_input_def)
  then have "(of_nat (length d) :: u16) = of_nat (length d')" by (simp add: to_be_bytes_inject)
  then have "length d = length d'"
    using assms(1,2) by (simp add: word_unat_eq_iff unsigned_of_nat take_bit_nat_eq_self)
  with rest show ?thesis by simp
qed

theorem signing_input_injective_witness:
  "(length (ascii_bytes ''a'') < 2 ^ 16 \<and> length [1 :: u8] < 2 ^ 64 \<and>
     signing_input (ascii_bytes ''a'') [1] = signing_input (ascii_bytes ''a'') [1]) \<and>
   (ascii_bytes ''a'' = ascii_bytes ''a'' \<and> [1 :: u8] = [1])"
  using signing_input_injective [of "ascii_bytes ''a''" "ascii_bytes ''a''" "[1]" "[1]"]
  by (simp add: ascii_bytes_def)

text \<open>Identity continuity: when a run finds no identity file and creates one, every later
  run that reads the file it wrote gets the same identity back, whatever identity the later run
  would have generated.\<close>

theorem created_identity_is_loaded:
  assumes "postcard_ok (stored_identity_codec E)"
    and "from_private_bytes E (signing_secret g) (kem_secret g) = Ok g"
    and "load_or_create_identity E g (Inl NotFound) (Inr ()) second = Ok (s, Some bs)"
  shows "s = g \<and> load_or_create_identity E g' (Inr bs) created' second' = Ok (s, None)"
  using assms secret_decode_encode [OF assms(1) _ assms(2)]
  by (auto simp: load_or_create_identity_def and_then_eq_Ok)

text \<open>A concrete environment: signatures and ciphertexts are tags, keys are their own secrets.\<close>

definition example_crypto :: crypto where
  "example_crypto = \<lparr>
     sha256 = (\<lambda>bs. of_nat (length bs)),
     ed_key_ok = (\<lambda>k. True), ed_public = (\<lambda>sk. sk),
     ed_sign = (\<lambda>sk m. replicate 64 (ucast sk)),
     ed_verify = (\<lambda>pk m s. s = replicate 64 (ucast pk)),
     kem_public_ok = (\<lambda>k. True), kem_secret_ok = (\<lambda>k. True), kem_public = (\<lambda>sk. sk),
     encapped_key_ok = (\<lambda>k. True),
     aead_encrypt = (\<lambda>key nonce aad msg. Some (msg @ replicate 16 0)),
     aead_decrypt = (\<lambda>key nonce aad ct. if length ct < 16 then None else Some (take (length ct - 16) ct)),
     hpke_seal = (\<lambda>rnd pk info msg aad. Some (pk, msg @ replicate 16 0)),
     hpke_open = (\<lambda>sk enc info ct aad. if length ct < 16 then None else Some (take (length ct - 16) ct))\<rparr>"

lemma example_crypto_ok:
  "signatures_ok example_crypto" "aead_ok example_crypto" "hpke_ok example_crypto" "keys_ok example_crypto"
  by (auto simp: example_crypto_def signatures_ok_def aead_ok_def hpke_ok_def keys_ok_def)

definition example_secret :: identity_secret where
  "example_secret = \<lparr>signing_secret = 7, kem_secret = 9\<rparr>"

definition example_public :: identity_public where
  "example_public = \<lparr>id_version = 1, signing_key = 7, kem_key = 9\<rparr>"

definition example_identity_env :: identity_env where
  "example_identity_env = crypto.extend example_crypto
     \<lparr>identity_codec = single_postcard example_public [1],
      stored_identity_codec =
        single_postcard \<lparr>st_version = 1, st_signing_secret = 7, st_kem_secret = 9\<rparr> [2, 3]\<rparr>"

theorem created_identity_is_loaded_witness:
  "load_or_create_identity example_identity_env example_secret (Inl NotFound) (Inr ()) (Inl OtherIo)
     = Ok (example_secret, Some (IDENTITY_FILE_MAGIC @ [2, 3])) \<and>
   load_or_create_identity example_identity_env \<lparr>signing_secret = 1, kem_secret = 1\<rparr>
     (Inr (IDENTITY_FILE_MAGIC @ [2, 3])) (Inl OtherIo) (Inl OtherIo) = Ok (example_secret, None)"
proof -
  have "load_or_create_identity example_identity_env example_secret (Inl NotFound) (Inr ()) (Inl OtherIo)
     = Ok (example_secret, Some (IDENTITY_FILE_MAGIC @ [2, 3]))"
    by (simp add: load_or_create_identity_def secret_encode_def example_identity_env_def crypto.extend_def
        example_crypto_def single_postcard_def example_secret_def IDENTITY_VERSION_def)
  moreover have "postcard_ok (stored_identity_codec example_identity_env)"
    by (simp add: example_identity_env_def crypto.extend_def single_postcard_ok)
  moreover have "from_private_bytes example_identity_env (signing_secret example_secret)
      (kem_secret example_secret) = Ok example_secret"
    by (simp add: from_private_bytes_def secret_public_def example_identity_env_def crypto.extend_def
        example_crypto_def example_secret_def)
  ultimately show ?thesis
    using created_identity_is_loaded [of example_identity_env example_secret] by blast
qed

end
