(* ===== verification/Native.thy ===== *)
theory Native
  imports Identity
begin

text \<open>
  \<^verbatim>\<open>crates/protocol/src/native.rs\<close>: signed stream descriptors, encrypted native objects, epoch
  payloads, the per-group encryptor and the live sequence guard.
\<close>

section \<open>Constants and errors\<close>

definition STREAM_FORMAT_VERSION :: u16 where
  "STREAM_FORMAT_VERSION = 2"

definition MAX_DESCRIPTOR_LEN :: nat where
  "MAX_DESCRIPTOR_LEN = 64 * 1024"

definition MAX_MEDIA_CIPHERTEXT_LEN :: nat where
  "MAX_MEDIA_CIPHERTEXT_LEN = 16 * 1024 * 1024 + 16"

definition MAX_CURSOR_CIPHERTEXT_LEN :: nat where
  "MAX_CURSOR_CIPHERTEXT_LEN = 4 * 1024 * 1024 + 16"

definition MAX_EPOCH_CIPHERTEXT_LEN :: nat where
  "MAX_EPOCH_CIPHERTEXT_LEN = 1024 * 1024 + 16"

definition MAX_NATIVE_OBJECT_LEN :: nat where
  "MAX_NATIVE_OBJECT_LEN = MAX_MEDIA_CIPHERTEXT_LEN + 64 * 1024"

definition DESCRIPTOR_DOMAIN :: bytes where
  "DESCRIPTOR_DOMAIN = ascii_bytes ''glacialcast-stream-descriptor-v2''"

definition OBJECT_DOMAIN :: bytes where
  "OBJECT_DOMAIN = ascii_bytes ''glacialcast-stream-object-v2''"

definition MAX_STREAM_NAME_LEN :: nat where
  "MAX_STREAM_NAME_LEN = 128"

definition MAX_SOURCE_LABEL_LEN :: nat where
  "MAX_SOURCE_LABEL_LEN = 256"

definition MAX_CODEC_CONFIG_LEN :: nat where
  "MAX_CODEC_CONFIG_LEN = 64 * 1024"

definition AEAD_TAG_LEN :: nat where
  "AEAD_TAG_LEN = 16"

datatype native_stream_error =
    NativeUnsupportedVersion u16
  | InvalidMetadata string
  | PayloadTooLarge
  | SequenceRegression
  | NativeInvalidSignature
  | CiphertextHash
  | Decryption
  | WrongContext
  | NativeIdentity identity_error
  | NativePostcard

section \<open>Data\<close>

datatype codec_id = H264AnnexB

datatype native_object_kind = Epoch | Media | Cursor

text \<open>The order the source derives for codecs.\<close>

instantiation codec_id :: linorder
begin

definition less_eq_codec_id :: "codec_id \<Rightarrow> codec_id \<Rightarrow> bool" where
  "less_eq_codec_id a b \<longleftrightarrow> True"

definition less_codec_id :: "codec_id \<Rightarrow> codec_id \<Rightarrow> bool" where
  "less_codec_id a b \<longleftrightarrow> False"

instance
proof
  fix a b :: codec_id
  show "a \<le> b \<Longrightarrow> b \<le> a \<Longrightarrow> a = b" by (cases a; cases b) simp
qed (simp_all add: less_eq_codec_id_def less_codec_id_def)

end

record stream_descriptor_body =
  d_version :: u16
  d_publisher :: identity_public
  d_stream_id :: uuid
  d_name :: rust_str
  d_source_label :: rust_str
  d_codecs :: "codec_id list"
  d_cursor :: bool
  d_created_at_ms :: i64

record stream_descriptor =
  d_body :: stream_descriptor_body
  d_signature :: signature_bytes

record native_object_header =
  h_version :: u16
  h_publisher_id :: array32
  h_stream_id :: uuid
  h_epoch_id :: uuid
  h_key_group :: u64
  h_sequence :: u64
  h_timestamp :: u64
  h_duration :: u32
  h_kind :: native_object_kind
  h_random_access :: bool
  h_codec :: "codec_id option"
  h_ciphertext_len :: u32
  h_key_id :: array16
  h_nonce :: array12

record new_native_object =
  n_sequence :: u64
  n_timestamp :: u64
  n_duration :: u32
  n_kind :: native_object_kind
  n_random_access :: bool
  n_codec :: "codec_id option"

record native_object_claim =
  c_header :: native_object_header
  c_ciphertext_hash :: array32

record native_object =
  o_header :: native_object_header
  o_ciphertext_hash :: array32
  o_signature :: signature_bytes
  o_ciphertext :: bytes

record h264_epoch_payload =
  ep_width :: u32
  ep_height :: u32
  ep_codec_config :: bytes

record native_env = identity_env +
  descriptor_body_codec :: "stream_descriptor_body postcard"
  descriptor_codec :: "stream_descriptor postcard"
  header_codec :: "native_object_header postcard"
  claim_codec :: "native_object_claim postcard"
  object_codec :: "native_object postcard"
  epoch_codec :: "h264_epoch_payload postcard"

section \<open>Descriptors\<close>

definition validate_label :: "rust_str \<Rightarrow> nat \<Rightarrow> string \<Rightarrow> native_stream_error + unit" where
  "validate_label v n_max e =
     (if v = [] \<or> str_len v > n_max \<or> str_trim v \<noteq> v \<or> list_ex is_control v
      then Err (InvalidMetadata e) else Ok ())"

definition validate_descriptor_body ::
  "'z native_env_scheme \<Rightarrow> stream_descriptor_body \<Rightarrow> native_stream_error + unit" where
  "validate_descriptor_body E body =
     (if d_version body \<noteq> STREAM_FORMAT_VERSION then Err (NativeUnsupportedVersion (d_version body))
      else and_then (map_err NativeIdentity (identity_validate E (d_publisher body))) (\<lambda>_.
        if is_nil (d_stream_id body) then Err (InvalidMetadata ''nil stream ID'')
        else and_then (validate_label (d_name body) MAX_STREAM_NAME_LEN ''invalid stream name'') (\<lambda>_.
          and_then (validate_label (d_source_label body) MAX_SOURCE_LABEL_LEN ''invalid source label'') (\<lambda>_.
            if d_codecs body \<noteq> [H264AnnexB]
            then Err (InvalidMetadata ''unsupported or duplicate codec list'')
            else Ok ()))))"

text \<open>\<^verbatim>\<open>InvalidSignature\<close> keeps its own variant, every other identity error is wrapped.\<close>

definition native_signature_error :: "identity_error \<Rightarrow> native_stream_error" where
  "native_signature_error e =
     (case e of InvalidSignature \<Rightarrow> NativeInvalidSignature | other \<Rightarrow> NativeIdentity other)"

definition descriptor_new ::
  "'z native_env_scheme \<Rightarrow> identity_secret \<Rightarrow> uuid \<Rightarrow> rust_str \<Rightarrow> rust_str \<Rightarrow> bool \<Rightarrow> i64
    \<Rightarrow> native_stream_error + stream_descriptor" where
  "descriptor_new E publisher stream name source_label cursor created =
     and_then (map_err NativeIdentity (secret_public E publisher)) (\<lambda>public.
       let body = \<lparr>d_version = STREAM_FORMAT_VERSION, d_publisher = public, d_stream_id = stream,
                   d_name = name, d_source_label = source_label, d_codecs = [H264AnnexB],
                   d_cursor = cursor, d_created_at_ms = created\<rparr>
       in and_then (validate_descriptor_body E body) (\<lambda>_.
          and_then (map_err NativeIdentity (sign E (descriptor_body_codec E) publisher DESCRIPTOR_DOMAIN body))
            (\<lambda>signature. Ok \<lparr>d_body = body, d_signature = signature\<rparr>)))"

definition descriptor_verify :: "'z native_env_scheme \<Rightarrow> stream_descriptor \<Rightarrow> native_stream_error + unit" where
  "descriptor_verify E d =
     and_then (validate_descriptor_body E (d_body d)) (\<lambda>_.
       map_err native_signature_error
         (verify E (descriptor_body_codec E) (d_publisher (d_body d)) DESCRIPTOR_DOMAIN (d_body d)
            (d_signature d)))"

definition descriptor_encode :: "'z native_env_scheme \<Rightarrow> stream_descriptor \<Rightarrow> native_stream_error + bytes" where
  "descriptor_encode E d =
     and_then (descriptor_verify E d) (\<lambda>_.
       and_then (ok_or (to_stdvec (descriptor_codec E) d) NativePostcard) (\<lambda>encoded.
         if length encoded > MAX_DESCRIPTOR_LEN then Err PayloadTooLarge else Ok encoded))"

definition descriptor_decode :: "'z native_env_scheme \<Rightarrow> bytes \<Rightarrow> native_stream_error + stream_descriptor" where
  "descriptor_decode E bs =
     (if length bs > MAX_DESCRIPTOR_LEN then Err PayloadTooLarge
      else and_then (ok_or (take_from_bytes (descriptor_codec E) bs) NativePostcard) (\<lambda>(d, remainder).
        if remainder \<noteq> [] then Err (InvalidMetadata ''trailing descriptor data'')
        else and_then (descriptor_verify E d) (\<lambda>_.
          and_then (descriptor_encode E d) (\<lambda>encoded.
            if encoded \<noteq> bs then Err (InvalidMetadata ''noncanonical descriptor'') else Ok d))))"

section \<open>Epoch payloads and H.264 access units\<close>

definition is_annex_b :: "bytes \<Rightarrow> bool" where
  "is_annex_b bs \<longleftrightarrow> take 3 bs = [0, 0, 1] \<or> take 4 bs = [0, 0, 0, 1]"

definition nal_offset_at :: "bytes \<Rightarrow> nat \<Rightarrow> nat option" where
  "nal_offset_at bs off =
     (if take 4 (drop off bs) = [0, 0, 0, 1] then Some (off + 4)
      else if take 3 (drop off bs) = [0, 0, 1] then Some (off + 3)
      else None)"

function idr_scan :: "bytes \<Rightarrow> nat \<Rightarrow> bool" where
  "idr_scan bs off =
     (if off + 4 \<le> length bs
      then if (case nal_offset_at bs off of
                 Some nal \<Rightarrow> nal < length bs \<and> bs ! nal AND 0x1f = 5
               | None \<Rightarrow> False)
           then True
           else idr_scan bs (off + 1)
      else False)"
  by pat_completeness auto
termination
  by (relation "measure (\<lambda>(bs, off). length bs - off)") auto

declare idr_scan.simps [simp del]

definition contains_h264_idr :: "bytes \<Rightarrow> bool" where
  "contains_h264_idr bs = idr_scan bs 0"

definition validate_epoch :: "h264_epoch_payload \<Rightarrow> native_stream_error + unit" where
  "validate_epoch p =
     (if ep_width p = 0 \<or> ep_height p = 0 \<or> ep_width p > 16384 \<or> ep_height p > 16384 \<or>
         length (ep_codec_config p) > MAX_CODEC_CONFIG_LEN \<or> \<not> is_annex_b (ep_codec_config p)
      then Err (InvalidMetadata ''invalid H.264 epoch configuration'') else Ok ())"

definition epoch_encode :: "'z native_env_scheme \<Rightarrow> h264_epoch_payload \<Rightarrow> native_stream_error + bytes" where
  "epoch_encode E p =
     and_then (validate_epoch p) (\<lambda>_. ok_or (to_stdvec (epoch_codec E) p) NativePostcard)"

definition epoch_decode :: "'z native_env_scheme \<Rightarrow> bytes \<Rightarrow> native_stream_error + h264_epoch_payload" where
  "epoch_decode E bs =
     and_then (ok_or (take_from_bytes (epoch_codec E) bs) NativePostcard) (\<lambda>(p, remainder).
       if remainder \<noteq> [] then Err (InvalidMetadata ''trailing epoch payload data'')
       else and_then (validate_epoch p) (\<lambda>_.
         and_then (ok_or (to_stdvec (epoch_codec E) p) NativePostcard) (\<lambda>encoded.
           if encoded \<noteq> bs then Err (InvalidMetadata ''noncanonical epoch payload'') else Ok p)))"

section \<open>Object headers\<close>

definition max_ciphertext :: "native_object_kind \<Rightarrow> nat" where
  "max_ciphertext kind =
     (case kind of
        Epoch \<Rightarrow> MAX_EPOCH_CIPHERTEXT_LEN
      | Media \<Rightarrow> MAX_MEDIA_CIPHERTEXT_LEN
      | Cursor \<Rightarrow> MAX_CURSOR_CIPHERTEXT_LEN)"

definition validate_header :: "native_object_header \<Rightarrow> native_stream_error + unit" where
  "validate_header h =
     (if h_version h \<noteq> STREAM_FORMAT_VERSION then Err (NativeUnsupportedVersion (h_version h))
      else if h_publisher_id h = 0 \<or> is_nil (h_stream_id h) \<or> is_nil (h_epoch_id h) \<or>
              h_key_group h = 0 \<or> h_sequence h = 0 \<or> h_duration h = 0 \<or> h_key_id h = 0
      then Err (InvalidMetadata ''zero native object identifier or duration'')
      else if (from_be_bytes (drop 4 (to_be_bytes 12 (h_nonce h))) :: u64) \<noteq> h_sequence h
      then Err (InvalidMetadata ''nonce does not bind sequence'')
      else if unat (h_ciphertext_len h) < AEAD_TAG_LEN \<or>
              unat (h_ciphertext_len h) > max_ciphertext (h_kind h)
      then Err PayloadTooLarge
      else (case h_kind h of
              Epoch \<Rightarrow>
                if \<not> h_random_access h \<or> h_codec h \<noteq> Some H264AnnexB
                then Err (InvalidMetadata ''invalid epoch codec or random-access flag'') else Ok ()
            | Media \<Rightarrow>
                if h_codec h \<noteq> Some H264AnnexB then Err (InvalidMetadata ''invalid media codec'') else Ok ()
            | Cursor \<Rightarrow>
                if h_random_access h \<or> h_codec h \<noteq> None
                then Err (InvalidMetadata ''cursor object declares video metadata'') else Ok ()))"

definition validate_plaintext ::
  "'z native_env_scheme \<Rightarrow> native_object_kind \<Rightarrow> bytes \<Rightarrow> native_stream_error + unit" where
  "validate_plaintext E kind plain =
     (if plain = [] \<or> saturating_add_usize (length plain) AEAD_TAG_LEN > max_ciphertext kind
      then Err PayloadTooLarge
      else (case kind of
              Epoch \<Rightarrow> and_then (epoch_decode E plain) (\<lambda>_. Ok ())
            | Media \<Rightarrow> if \<not> is_annex_b plain then Err (InvalidMetadata ''media payload is not H.264 Annex-B'')
                       else Ok ()
            | Cursor \<Rightarrow> Ok ()))"

section \<open>Objects\<close>

definition validate_shape :: "'z native_env_scheme \<Rightarrow> native_object \<Rightarrow> native_stream_error + unit" where
  "validate_shape E obj =
     and_then (validate_header (o_header obj)) (\<lambda>_.
       if length (o_ciphertext obj) \<noteq> unat (h_ciphertext_len (o_header obj))
       then Err (InvalidMetadata ''ciphertext length mismatch'')
       else if sha256 E (o_ciphertext obj) \<noteq> o_ciphertext_hash obj then Err CiphertextHash
       else Ok ())"

definition object_claim :: "native_object \<Rightarrow> native_object_claim" where
  "object_claim obj = \<lparr>c_header = o_header obj, c_ciphertext_hash = o_ciphertext_hash obj\<rparr>"

definition verify_public ::
  "'z native_env_scheme \<Rightarrow> identity_public \<Rightarrow> native_object \<Rightarrow> native_stream_error + unit" where
  "verify_public E publisher obj =
     and_then (validate_shape E obj) (\<lambda>_.
       and_then (map_err NativeIdentity (identity_id E publisher)) (\<lambda>i.
         if h_publisher_id (o_header obj) \<noteq> i then Err WrongContext
         else map_err native_signature_error
                (verify E (claim_codec E) publisher OBJECT_DOMAIN (object_claim obj) (o_signature obj))))"

definition object_open ::
  "'z native_env_scheme \<Rightarrow> identity_public \<Rightarrow> array32 \<Rightarrow> array16 \<Rightarrow> native_object
    \<Rightarrow> native_stream_error + bytes" where
  "object_open E publisher key expected_key_id obj =
     and_then (verify_public E publisher obj) (\<lambda>_.
       if h_key_id (o_header obj) \<noteq> expected_key_id then Err WrongContext
       else and_then (ok_or (to_stdvec (header_codec E) (o_header obj)) NativePostcard) (\<lambda>aad.
         and_then (ok_or (aead_decrypt E key (h_nonce (o_header obj)) aad (o_ciphertext obj)) Decryption)
           (\<lambda>plain. and_then (validate_plaintext E (h_kind (o_header obj)) plain) (\<lambda>_.
             if h_kind (o_header obj) = Media \<and>
                h_random_access (o_header obj) \<noteq> contains_h264_idr plain
             then Err (InvalidMetadata ''media random-access flag does not match H.264 access unit'')
             else Ok plain))))"

definition object_encode ::
  "'z native_env_scheme \<Rightarrow> identity_public \<Rightarrow> native_object \<Rightarrow> native_stream_error + bytes" where
  "object_encode E publisher obj =
     and_then (verify_public E publisher obj) (\<lambda>_.
       and_then (ok_or (to_stdvec (object_codec E) obj) NativePostcard) (\<lambda>encoded.
         if length encoded > MAX_NATIVE_OBJECT_LEN then Err PayloadTooLarge else Ok encoded))"

definition object_decode ::
  "'z native_env_scheme \<Rightarrow> identity_public \<Rightarrow> bytes \<Rightarrow> native_stream_error + native_object" where
  "object_decode E publisher bs =
     (if length bs > MAX_NATIVE_OBJECT_LEN then Err PayloadTooLarge
      else and_then (ok_or (take_from_bytes (object_codec E) bs) NativePostcard) (\<lambda>(obj, remainder).
        if remainder \<noteq> [] then Err (InvalidMetadata ''trailing native object data'')
        else and_then (verify_public E publisher obj) (\<lambda>_.
          and_then (ok_or (to_stdvec (object_codec E) obj) NativePostcard) (\<lambda>encoded.
            if encoded \<noteq> bs then Err (InvalidMetadata ''noncanonical native object'') else Ok obj))))"

section \<open>Content keys and the group encryptor\<close>

definition content_key_from_bytes :: "array32 \<Rightarrow> native_stream_error + array32" where
  "content_key_from_bytes key = (if key = 0 then Err (InvalidMetadata ''zero content key'') else Ok key)"

record group_encryptor =
  g_publisher_id :: array32
  g_stream_id :: uuid
  g_epoch_id :: uuid
  g_key_group :: u64
  g_key_id :: array16
  g_nonce_prefix :: array4
  g_last_sequence :: u64
  g_media_started :: bool
  g_key :: array32

definition group_restore ::
  "'z native_env_scheme \<Rightarrow> identity_public \<Rightarrow> uuid \<Rightarrow> uuid \<Rightarrow> u64 \<Rightarrow> array16 \<Rightarrow> array4 \<Rightarrow> u64 \<Rightarrow> bool
    \<Rightarrow> array32 \<Rightarrow> native_stream_error + group_encryptor" where
  "group_restore E publisher stream epoch key_group key_id nonce_prefix last_seq media_started content_key =
     (if is_nil stream \<or> is_nil epoch \<or> key_group = 0 \<or> key_id = 0
      then Err (InvalidMetadata ''nil or zero group recovery identifier'')
      else and_then (map_err NativeIdentity (identity_id E publisher)) (\<lambda>i.
        and_then (content_key_from_bytes content_key) (\<lambda>key.
          Ok \<lparr>g_publisher_id = i, g_stream_id = stream, g_epoch_id = epoch, g_key_group = key_group,
              g_key_id = key_id, g_nonce_prefix = nonce_prefix, g_last_sequence = last_seq,
              g_media_started = media_started, g_key = key\<rparr>)))"

text \<open>The entropy (key identifier, nonce prefix, content key) is an argument.\<close>

definition group_generate ::
  "'z native_env_scheme \<Rightarrow> array16 \<Rightarrow> array4 \<Rightarrow> array32 \<Rightarrow> identity_public \<Rightarrow> uuid \<Rightarrow> uuid \<Rightarrow> u64 \<Rightarrow> u64
    \<Rightarrow> native_stream_error + group_encryptor" where
  "group_generate E key_id nonce_prefix content_key publisher stream epoch key_group prior =
     (if is_nil stream \<or> is_nil epoch \<or> key_group = 0
      then Err (InvalidMetadata ''nil group stream or epoch identifier'')
      else group_restore E publisher stream epoch key_group key_id nonce_prefix prior False content_key)"

definition seal_nonce :: "array4 \<Rightarrow> u64 \<Rightarrow> array12" where
  "seal_nonce prefix seq = from_be_bytes (to_be_bytes 4 prefix @ to_be_bytes 8 seq)"

definition seal_header :: "group_encryptor \<Rightarrow> new_native_object \<Rightarrow> u32 \<Rightarrow> native_object_header" where
  "seal_header g obj ct_len =
     \<lparr>h_version = STREAM_FORMAT_VERSION, h_publisher_id = g_publisher_id g, h_stream_id = g_stream_id g,
      h_epoch_id = g_epoch_id g, h_key_group = g_key_group g, h_sequence = n_sequence obj,
      h_timestamp = n_timestamp obj, h_duration = n_duration obj, h_kind = n_kind obj,
      h_random_access = n_random_access obj, h_codec = n_codec obj, h_ciphertext_len = ct_len,
      h_key_id = g_key_id g, h_nonce = seal_nonce (g_nonce_prefix g) (n_sequence obj)\<rparr>"

definition group_seal ::
  "'z native_env_scheme \<Rightarrow> identity_secret \<Rightarrow> group_encryptor \<Rightarrow> new_native_object \<times> bytes
    \<Rightarrow> native_stream_error + group_encryptor \<times> native_object" where
  "group_seal E publisher g = (\<lambda>(obj, plain).
     if n_sequence obj \<le> g_last_sequence g then Err SequenceRegression
     else and_then (map_err NativeIdentity (and_then (secret_public E publisher) (identity_id E))) (\<lambda>i.
       if i \<noteq> g_publisher_id g then Err WrongContext
       else and_then (validate_plaintext E (n_kind obj) plain) (\<lambda>_.
         if n_kind obj = Media \<and>
            (n_random_access obj \<noteq> contains_h264_idr plain \<or>
             \<not> g_media_started g \<and> \<not> contains_h264_idr plain)
         then Err (InvalidMetadata ''keyframe group does not begin with a declared H.264 IDR'')
         else and_then (ok_or (Option.bind (checked_add_usize (length plain) AEAD_TAG_LEN)
                  (\<lambda>len. if len < 2 ^ 32 then Some (of_nat len :: u32) else None)) PayloadTooLarge)
           (\<lambda>ct_len. let h = seal_header g obj ct_len
             in and_then (validate_header h) (\<lambda>_.
                and_then (ok_or (to_stdvec (header_codec E) h) NativePostcard) (\<lambda>aad.
                and_then (ok_or (aead_encrypt E (g_key g) (h_nonce h) aad plain) Decryption) (\<lambda>ct.
                and_then (map_err NativeIdentity
                            (sign E (claim_codec E) publisher OBJECT_DOMAIN
                               \<lparr>c_header = h, c_ciphertext_hash = sha256 E ct\<rparr>)) (\<lambda>signature.
                  Ok (g\<lparr>g_last_sequence := n_sequence obj,
                        g_media_started := (g_media_started g \<or> n_kind obj = Media)\<rparr>,
                      \<lparr>o_header = h, o_ciphertext_hash = sha256 E ct, o_signature = signature,
                       o_ciphertext = ct\<rparr>)))))))))"

section \<open>The live sequence guard\<close>

record live_sequence_guard =
  l_publisher_id :: array32
  l_stream_id :: uuid
  l_last_sequence :: u64

definition live_guard_new :: "array32 \<Rightarrow> uuid \<Rightarrow> u64 \<Rightarrow> live_sequence_guard" where
  "live_guard_new publisher stream anchor =
     \<lparr>l_publisher_id = publisher, l_stream_id = stream, l_last_sequence = anchor\<rparr>"

definition live_guard_accept ::
  "live_sequence_guard \<Rightarrow> native_object \<Rightarrow> native_stream_error + live_sequence_guard \<times> unit" where
  "live_guard_accept g obj =
     (if h_publisher_id (o_header obj) \<noteq> l_publisher_id g \<or> h_stream_id (o_header obj) \<noteq> l_stream_id g
      then Err WrongContext
      else if h_sequence (o_header obj) \<le> l_last_sequence g then Err SequenceRegression
      else Ok (g\<lparr>l_last_sequence := h_sequence (o_header obj)\<rparr>, ()))"

section \<open>Lemmas\<close>

lemma map_err_ok_or: "map_err f (ok_or m e) = ok_or m (f e)"
  by (cases m) simp_all

lemma descriptor_decode_ok:
  "descriptor_decode E bs = Ok d \<longleftrightarrow>
     take_from_bytes (descriptor_codec E) bs = Some (d, []) \<and> descriptor_encode E d = Ok bs"
  by (auto simp: descriptor_decode_def descriptor_encode_def and_then_eq_Ok ok_or_eq_Ok)

lemma descriptor_encode_ok:
  "descriptor_encode E d = Ok bs \<longleftrightarrow>
     descriptor_verify E d = Ok () \<and> to_stdvec (descriptor_codec E) d = Some bs \<and>
     length bs \<le> MAX_DESCRIPTOR_LEN"
  by (auto simp: descriptor_encode_def result_simps not_less)

lemma object_encode_ok:
  "object_encode E publisher obj = Ok bs \<longleftrightarrow>
     verify_public E publisher obj = Ok () \<and> to_stdvec (object_codec E) obj = Some bs \<and>
     length bs \<le> MAX_NATIVE_OBJECT_LEN"
  by (auto simp: object_encode_def result_simps not_less)

lemma object_decode_ok:
  "object_decode E publisher bs = Ok obj \<longleftrightarrow>
     take_from_bytes (object_codec E) bs = Some (obj, []) \<and> object_encode E publisher obj = Ok bs"
  by (auto simp: object_decode_def object_encode_def and_then_eq_Ok ok_or_eq_Ok)

lemma epoch_encode_ok:
  "epoch_encode E p = Ok bs \<longleftrightarrow> validate_epoch p = Ok () \<and> to_stdvec (epoch_codec E) p = Some bs"
  by (auto simp: epoch_encode_def and_then_eq_Ok ok_or_eq_Ok)

lemma epoch_decode_ok:
  "epoch_decode E bs = Ok p \<longleftrightarrow>
     take_from_bytes (epoch_codec E) bs = Some (p, []) \<and> epoch_encode E p = Ok bs"
  by (auto simp: epoch_decode_def epoch_encode_ok and_then_eq_Ok ok_or_eq_Ok)

interpretation descriptor_format:
  canonical_format "descriptor_codec E" "descriptor_encode E" "descriptor_decode E" for E
  by unfold_locales
    (simp_all add: descriptor_decode_ok descriptor_encode_ok postcard_okD_exact)

interpretation object_format:
  canonical_format "object_codec E" "object_encode E publisher" "object_decode E publisher" for E publisher
  by unfold_locales (simp_all add: object_decode_ok object_encode_ok postcard_okD_exact)

interpretation epoch_format: canonical_format "epoch_codec E" "epoch_encode E" "epoch_decode E" for E
  by unfold_locales (simp_all add: epoch_decode_ok epoch_encode_ok postcard_okD_exact)

lemma nonce_sequence [simp]:
  "(from_be_bytes (drop 4 (to_be_bytes 12 (seal_nonce prefix seq))) :: u64) = seq"
  by (simp add: seal_nonce_def)

lemma seal_nonce_inject: "seal_nonce prefix a = seal_nonce prefix b \<Longrightarrow> a = b"
  by (metis nonce_sequence)

lemma group_seal_ok:
  assumes "group_seal E publisher g (obj, plain) = Ok (g', sealed)"
  obtains public ct_len aad ct signature where
    "g_last_sequence g < n_sequence obj"
    "secret_public E publisher = Ok public" "identity_id E public = Ok (g_publisher_id g)"
    "validate_plaintext E (n_kind obj) plain = Ok ()"
    "n_kind obj = Media \<Longrightarrow> n_random_access obj = contains_h264_idr plain"
    "n_kind obj = Media \<Longrightarrow> g_media_started g \<or> n_random_access obj"
    "unat ct_len = length plain + AEAD_TAG_LEN" "validate_header (seal_header g obj ct_len) = Ok ()"
    "to_stdvec (header_codec E) (seal_header g obj ct_len) = Some aad"
    "aead_encrypt E (g_key g) (seal_nonce (g_nonce_prefix g) (n_sequence obj)) aad plain = Some ct"
    "sign E (claim_codec E) publisher OBJECT_DOMAIN
       \<lparr>c_header = seal_header g obj ct_len, c_ciphertext_hash = sha256 E ct\<rparr> = Ok signature"
    "g' = g\<lparr>g_last_sequence := n_sequence obj, g_media_started := (g_media_started g \<or> n_kind obj = Media)\<rparr>"
    "sealed = \<lparr>o_header = seal_header g obj ct_len, o_ciphertext_hash = sha256 E ct,
       o_signature = signature, o_ciphertext = ct\<rparr>"
proof -
  have nonce: "h_nonce (seal_header g obj l) = seal_nonce (g_nonce_prefix g) (n_sequence obj)" for l
    by (simp add: seal_header_def)
  from assms obtain public i n aad ct signature where *:
    "g_last_sequence g < n_sequence obj"
    "secret_public E publisher = Ok public" "identity_id E public = Ok i" "i = g_publisher_id g"
    "validate_plaintext E (n_kind obj) plain = Ok ()"
    "\<not> (n_kind obj = Media \<and> (n_random_access obj \<noteq> contains_h264_idr plain \<or>
             \<not> g_media_started g \<and> \<not> contains_h264_idr plain))"
    "n = length plain + AEAD_TAG_LEN" "n < 2 ^ 32"
    "validate_header (seal_header g obj (of_nat n)) = Ok ()"
    "to_stdvec (header_codec E) (seal_header g obj (of_nat n)) = Some aad"
    "aead_encrypt E (g_key g) (seal_nonce (g_nonce_prefix g) (n_sequence obj)) aad plain = Some ct"
    "sign E (claim_codec E) publisher OBJECT_DOMAIN
       \<lparr>c_header = seal_header g obj (of_nat n), c_ciphertext_hash = sha256 E ct\<rparr> = Ok signature"
    "g' = g\<lparr>g_last_sequence := n_sequence obj, g_media_started := (g_media_started g \<or> n_kind obj = Media)\<rparr>"
    "sealed = \<lparr>o_header = seal_header g obj (of_nat n), o_ciphertext_hash = sha256 E ct,
       o_signature = signature, o_ciphertext = ct\<rparr>"
    unfolding group_seal_def prod.case Let_def result_simps if_Err_eq_Ok bind_eq_Some_conv nonce
    by (auto simp: checked_add_usize_def not_le split: if_splits)
  then have "unat (of_nat n :: u32) = length plain + AEAD_TAG_LEN"
    using unat_of_nat_u32 [of n] by simp
  with * show ?thesis by (intro that [of public "of_nat n" aad ct signature]) auto
qed

lemma seal_step:
  "group_seal E publisher g x = Ok (g', sealed) \<Longrightarrow>
     g_last_sequence g < n_sequence (fst x) \<and> g_last_sequence g' = n_sequence (fst x)"
  by (cases x) (auto elim!: group_seal_ok)

interpretation seal_guard:
  increasing_guard "group_seal E publisher" g_last_sequence "\<lambda>x. n_sequence (fst x)" for E publisher
  by unfold_locales (rule seal_step)

interpretation live_guard:
  increasing_guard live_guard_accept l_last_sequence "\<lambda>obj. h_sequence (o_header obj)"
  by unfold_locales (auto simp: live_guard_accept_def split: if_splits)

text \<open>An IDR slice: a start code whose NAL unit type is 5.\<close>

definition idr_at :: "bytes \<Rightarrow> nat \<Rightarrow> bool" where
  "idr_at bs p \<longleftrightarrow>
     p + 3 < length bs \<and> bs ! p = 0 \<and> bs ! (p + 1) = 0 \<and> bs ! (p + 2) = 1 \<and> bs ! (p + 3) AND 0x1f = 5"

lemma drop_four:
  "off + 4 \<le> length bs \<Longrightarrow>
    drop off bs = bs ! off # bs ! (off + 1) # bs ! (off + 2) # bs ! (off + 3) # drop (off + 4) bs"
  by (simp add: Cons_nth_drop_Suc numeral_eq_Suc)

lemma nal_check_iff:
  assumes "off + 4 \<le> length bs"
  shows "(case nal_offset_at bs off of
            Some nal \<Rightarrow> nal < length bs \<and> bs ! nal AND 0x1f = 5 | None \<Rightarrow> False) \<longleftrightarrow>
         idr_at bs off \<or> (bs ! off = 0 \<and> idr_at bs (off + 1))"
proof -
  note d = drop_four [OF assms]
  have "off + 4 < length bs \<longleftrightarrow> off + 1 + 3 < length bs" by auto
  moreover have "bs ! (off + 1 + 1) = bs ! (off + 2)" "bs ! (off + 1 + 2) = bs ! (off + 3)"
    "bs ! (off + 1 + 3) = bs ! (off + 4)" by (simp_all add: numeral_eq_Suc)
  ultimately show ?thesis
    using assms by (auto simp: nal_offset_at_def d idr_at_def)
qed

lemma ex_ge_Suc: "(\<exists>p\<ge>off. Q p) \<longleftrightarrow> Q off \<or> (\<exists>p\<ge>off + 1. Q (p :: nat))"
proof
  assume "\<exists>p\<ge>off. Q p"
  then obtain p where "off \<le> p" "Q p" by blast
  then show "Q off \<or> (\<exists>p\<ge>off + 1. Q p)" by (cases "p = off") auto
next
  assume "Q off \<or> (\<exists>p\<ge>off + 1. Q p)"
  then show "\<exists>p\<ge>off. Q p"
    using add_leD1 by blast
qed

lemma idr_scan_iff: "idr_scan bs off \<longleftrightarrow> (\<exists>p\<ge>off. idr_at bs p)"
proof (induction bs off rule: idr_scan.induct)
  case (1 bs off)
  show ?case
  proof (cases "off + 4 \<le> length bs")
    case True
    have step: "(\<exists>p\<ge>off. idr_at bs p) \<longleftrightarrow> idr_at bs off \<or> (\<exists>p\<ge>off + 1. idr_at bs p)"
      by (rule ex_ge_Suc)
    show ?thesis
    proof (cases "idr_at bs off \<or> (bs ! off = 0 \<and> idr_at bs (off + 1))")
      case hit: True
      then have "idr_scan bs off"
        by (subst idr_scan.simps) (simp only: nal_check_iff [OF True] True if_True)
      with hit step show ?thesis by blast
    next
      case miss: False
      then have "idr_scan bs off \<longleftrightarrow> idr_scan bs (off + 1)"
        by (subst idr_scan.simps) (simp only: nal_check_iff [OF True] True if_True if_False)
      moreover have "idr_scan bs (off + 1) \<longleftrightarrow> (\<exists>p\<ge>off + 1. idr_at bs p)"
        by (rule "1.IH" [OF True]) (simp only: nal_check_iff [OF True] miss not_False_eq_True)
      ultimately show ?thesis using step miss by blast
    qed
  next
    case False
    then show ?thesis by (subst idr_scan.simps) (auto simp: idr_at_def)
  qed
qed

section \<open>Properties\<close>

text \<open>An access unit is classified as a keyframe exactly when it contains an IDR slice:
  at some offset a start code 00 00 01 is followed by a byte whose low five bits are 5.  The
  scan's handling of three- and four-byte start codes neither misses nor invents one.\<close>

theorem contains_h264_idr_correct:
  "contains_h264_idr bs \<longleftrightarrow>
     (\<exists>p. p + 3 < length bs \<and> bs ! p = 0 \<and> bs ! (p + 1) = 0 \<and> bs ! (p + 2) = 1 \<and>
          bs ! (p + 3) AND 0x1f = 5)"
  by (simp add: contains_h264_idr_def idr_scan_iff idr_at_def)

lemma seal_then_open:
  assumes "keys_ok E" and "aead_ok E" and "secret_public E publisher = Ok public"
    and "group_seal E publisher g (obj, plain) = Ok (g', sealed)"
  shows "validate_shape E sealed = Ok () \<and> verify_public E public sealed = Ok () \<and>
         object_open E public (g_key g) (g_key_id g) sealed = Ok plain"
  using assms(4)
proof (cases rule: group_seal_ok)
  case (1 public' ct_len aad ct signature)
  have pub: "public' = public" using 1(2) assms(3) by simp
  have ct: "length ct = unat ct_len"
    "aead_decrypt E (g_key g) (seal_nonce (g_nonce_prefix g) (n_sequence obj)) aad ct = Some plain"
    using assms(2) 1(7,10) by (auto simp: aead_ok_def AEAD_TAG_LEN_def)
  have header: "h_ciphertext_len (seal_header g obj ct_len) = ct_len"
    "h_publisher_id (seal_header g obj ct_len) = g_publisher_id g"
    "h_key_id (seal_header g obj ct_len) = g_key_id g" "h_kind (seal_header g obj ct_len) = n_kind obj"
    "h_random_access (seal_header g obj ct_len) = n_random_access obj"
    "h_nonce (seal_header g obj ct_len) = seal_nonce (g_nonce_prefix g) (n_sequence obj)"
    by (simp_all add: seal_header_def)
  have shape: "validate_shape E sealed = Ok ()"
    using 1(8,13) ct header by (simp add: validate_shape_def)
  have verified: "verify_public E public sealed = Ok ()"
    using shape verify_sign [OF assms(1,3) 1(11)] 1(3,13) header pub
    by (simp add: verify_public_def object_claim_def)
  show ?thesis
    using shape verified 1(4,5,9,13) ct header by (auto simp: object_open_def)
qed

text \<open>C21: End-to-end round trip: an object a publisher seals under a group key passes the
  relay's shape check, verifies under the publisher's public identity, and opens under the
  group's key to exactly the plaintext that was sealed.\<close>

theorem sealed_object_opens:
  assumes "keys_ok E" and "aead_ok E" and "secret_public E publisher = Ok public"
    and "group_seal E publisher g (obj, plain) = Ok (g', sealed)"
  shows "validate_shape E sealed = Ok () \<and> verify_public E public sealed = Ok () \<and>
         object_open E public (g_key g) (g_key_id g) sealed = Ok plain"
  using assms by (rule seal_then_open)

definition example_native_env :: native_env where
  "example_native_env = identity_env.extend example_identity_env
     \<lparr>descriptor_body_codec = tag_postcard [1], descriptor_codec = tag_postcard [2],
      header_codec = tag_postcard [3], claim_codec = tag_postcard [4], object_codec = tag_postcard [5],
      epoch_codec = tag_postcard [6]\<rparr>"

lemmas example_native_defs = example_native_env_def identity_env.extend_def identity_env.defs
  example_identity_env_def crypto.extend_def crypto.defs example_crypto_def tag_postcard_def
  single_postcard_def

lemma example_native_env_ok: "keys_ok example_native_env" "aead_ok example_native_env"
  by (auto simp: keys_ok_def signatures_ok_def aead_ok_def example_native_defs)

definition example_group :: group_encryptor where
  "example_group = \<lparr>g_publisher_id = 24, g_stream_id = 1, g_epoch_id = 2, g_key_group = 1, g_key_id = 3,
     g_nonce_prefix = 4, g_last_sequence = 5, g_media_started = False, g_key = 6\<rparr>"

definition example_new_object :: new_native_object where
  "example_new_object = \<lparr>n_sequence = 6, n_timestamp = 0, n_duration = 1, n_kind = Cursor,
     n_random_access = False, n_codec = None\<rparr>"

lemma example_seal_defs:
  "secret_public example_native_env example_secret = Ok example_public"
  "identity_id example_native_env example_public = Ok 24"
  by (simp_all add: secret_public_def identity_id_def identity_validate_def example_native_defs
      example_secret_def example_public_def IDENTITY_VERSION_def IDENTITY_FINGERPRINT_PREFIX_def
      ascii_bytes_def)

lemma example_native_fields:
  "sha256 example_native_env bs = of_nat (length bs)"
  "ed_sign example_native_env sk m = replicate 64 (ucast sk)"
  "aead_encrypt example_native_env key nonce aad msg = Some (msg @ replicate 16 0)"
  "to_stdvec (header_codec example_native_env) h = Some [3]"
  "to_stdvec (claim_codec example_native_env) c = Some [4]"
  by (simp_all add: example_native_defs)

lemma example_seal_ok: "is_ok (group_seal example_native_env example_secret example_group (example_new_object, [1, 2, 3]))"
proof -
  have nonce: "(from_be_bytes (drop 4 (to_be_bytes 12 (seal_nonce 4 6))) :: u64) = 6"
    by simp
  show ?thesis
    using nonce
    by (simp add: group_seal_def example_seal_defs example_group_def example_new_object_def
        validate_plaintext_def max_ciphertext_def saturating_add_usize_def AEAD_TAG_LEN_def
        MAX_CURSOR_CIPHERTEXT_LEN_def checked_add_usize_def Let_def seal_header_def validate_header_def
        STREAM_FORMAT_VERSION_def sign_def signing_digest_def canonical_def OBJECT_DOMAIN_def ascii_bytes_def
        example_native_fields del: nonce_sequence)
qed

theorem sealed_object_opens_witness:
  "\<exists>g' sealed. group_seal example_native_env example_secret example_group (example_new_object, [1, 2, 3])
       = Ok (g', sealed) \<and>
     validate_shape example_native_env sealed = Ok () \<and>
     verify_public example_native_env example_public sealed = Ok () \<and>
     object_open example_native_env example_public (g_key example_group) (g_key_id example_group) sealed
       = Ok [1, 2, 3]"
proof -
  from example_seal_ok obtain g' sealed where
    "group_seal example_native_env example_secret example_group (example_new_object, [1, 2, 3])
       = Ok (g', sealed)"
    by (auto simp: is_ok_iff)
  with sealed_object_opens [OF example_native_env_ok example_seal_defs(1) this] show ?thesis by blast
qed

text \<open>C22: Nonce uniqueness: over any sequence of sealing attempts on one encryptor, failed or
  not, no two of the objects it produces carry the same AEAD nonce.\<close>

theorem seal_nonces_distinct:
  "distinct (map (\<lambda>(x, sealed). h_nonce (o_header sealed)) (accepted (group_seal E publisher) g xs))"
proof -
  let ?sealed = "accepted (group_seal E publisher) g xs"
  have "\<forall>(x, sealed) \<in> set ?sealed.
      h_nonce (o_header sealed) = seal_nonce (g_nonce_prefix g) (n_sequence (fst x))"
    by (rule accepted_all [where I = "\<lambda>g'. g_nonce_prefix g' = g_nonce_prefix g"])
      (auto elim!: group_seal_ok simp: seal_header_def)
  then have nonces: "map (\<lambda>(x, sealed). h_nonce (o_header sealed)) ?sealed
      = map (seal_nonce (g_nonce_prefix g)) (map ((\<lambda>x. n_sequence (fst x)) \<circ> fst) ?sealed)"
    by (auto intro!: map_cong)
  have "inj (seal_nonce (g_nonce_prefix g))"
    by (intro injI) (rule seal_nonce_inject)
  then show ?thesis
    unfolding nonces distinct_map [of "seal_nonce (g_nonce_prefix g)"]
    by (intro conjI seal_guard.accepted_distinct) (erule inj_on_subset, rule subset_UNIV)
qed

text \<open>A live viewer never goes back: of any objects offered to the guard, in any order and
  with any repetition, those accepted are objects of the subscribed publisher and stream, with
  strictly increasing sequence numbers, all above the subscription anchor.\<close>

theorem live_guard_accepts_increasing:
  "let taken = map fst (accepted live_guard_accept (live_guard_new publisher stream anchor) objs)
   in sorted_wrt (<) (map (\<lambda>obj. h_sequence (o_header obj)) taken) \<and>
      list_all (\<lambda>obj. anchor < h_sequence (o_header obj) \<and> h_publisher_id (o_header obj) = publisher \<and>
                      h_stream_id (o_header obj) = stream) taken"
proof -
  let ?g = "live_guard_new publisher stream anchor"
  have "\<forall>(x, y) \<in> set (accepted live_guard_accept ?g objs).
      h_publisher_id (o_header x) = publisher \<and> h_stream_id (o_header x) = stream"
    by (rule accepted_all [where I = "\<lambda>g. l_publisher_id g = publisher \<and> l_stream_id g = stream"])
      (auto simp: live_guard_accept_def live_guard_new_def split: if_splits)
  then show ?thesis
    using live_guard.accepted_increasing [of ?g objs]
    by (fastforce simp: Let_def live_guard_new_def list_all_iff comp_def)
qed

end
