(* ===== verification/Envelope.thy ===== *)
theory Envelope
  imports Native
begin

text \<open>
  \<^verbatim>\<open>crates/protocol/src/envelope.rs\<close>: publisher-signed HPKE envelopes that carry one group's
  content key to one viewer.
\<close>

section \<open>Data\<close>

definition KEY_ENVELOPE_VERSION :: u16 where
  "KEY_ENVELOPE_VERSION = 1"

definition MAX_KEY_ENVELOPE_LEN :: nat where
  "MAX_KEY_ENVELOPE_LEN = 1024"

definition ENVELOPE_DOMAIN :: bytes where
  "ENVELOPE_DOMAIN = ascii_bytes ''glacialcast-key-envelope-v1''"

definition HPKE_INFO_PREFIX :: bytes where
  "HPKE_INFO_PREFIX = ascii_bytes ''glacialcast-hpke-content-key-v1''"

definition HPKE_CIPHERTEXT_LEN :: nat where
  "HPKE_CIPHERTEXT_LEN = 32 + 16"

datatype envelope_error =
    EnvelopeUnsupportedVersion u16
  | EnvelopeInvalidMetadata string
  | WrongRecipient
  | WrongPublisher
  | Hpke
  | EnvelopeIdentity identity_error

record key_envelope_header =
  k_version :: u16
  k_publisher_id :: array32
  k_recipient_id :: array32
  k_stream_id :: uuid
  k_epoch_id :: uuid
  k_key_group_id :: u64
  k_key_id :: array16

record key_envelope =
  e_header :: key_envelope_header
  e_encapsulated_key :: array32
  e_ciphertext :: bytes
  e_publisher_signature :: signature_bytes

record unsigned_envelope =
  ue_header :: key_envelope_header
  ue_encapsulated_key :: array32
  ue_ciphertext :: bytes

record envelope_env = native_env +
  envelope_header_codec :: "key_envelope_header postcard"
  unsigned_envelope_codec :: "unsigned_envelope postcard"
  envelope_codec :: "key_envelope postcard"

section \<open>Operations\<close>

definition envelope_header_validate :: "key_envelope_header \<Rightarrow> envelope_error + unit" where
  "envelope_header_validate h =
     (if k_version h \<noteq> KEY_ENVELOPE_VERSION then Err (EnvelopeUnsupportedVersion (k_version h))
      else if is_nil (k_stream_id h) \<or> is_nil (k_epoch_id h) \<or> k_key_group_id h = 0
      then Err (EnvelopeInvalidMetadata ''invalid stream key-group identity'')
      else if k_publisher_id h = 0 \<or> k_recipient_id h = 0 \<or> k_key_id h = 0
      then Err (EnvelopeInvalidMetadata ''zero identity or key identifier'')
      else Ok ())"

definition hpke_context :: "'z envelope_env_scheme \<Rightarrow> key_envelope_header \<Rightarrow> envelope_error + bytes \<times> bytes" where
  "hpke_context E h =
     and_then (map_err EnvelopeIdentity (canonical (envelope_header_codec E) h)) (\<lambda>aad.
       Ok (HPKE_INFO_PREFIX @ aad, aad))"

definition envelope_validate_shape :: "key_envelope \<Rightarrow> envelope_error + unit" where
  "envelope_validate_shape e =
     and_then (envelope_header_validate (e_header e)) (\<lambda>_.
       if length (e_ciphertext e) \<noteq> HPKE_CIPHERTEXT_LEN
       then Err (EnvelopeInvalidMetadata ''unexpected HPKE ciphertext length'') else Ok ())"

definition unsigned_of :: "key_envelope \<Rightarrow> unsigned_envelope" where
  "unsigned_of e = \<lparr>ue_header = e_header e, ue_encapsulated_key = e_encapsulated_key e,
                    ue_ciphertext = e_ciphertext e\<rparr>"

text \<open>\<open>rnd\<close> is the entropy of the encapsulation.\<close>

definition envelope_seal ::
  "'z envelope_env_scheme \<Rightarrow> bytes \<Rightarrow> identity_secret \<Rightarrow> identity_public \<Rightarrow> uuid \<Rightarrow> uuid \<Rightarrow> u64 \<Rightarrow> array16
    \<Rightarrow> array32 \<Rightarrow> envelope_error + key_envelope" where
  "envelope_seal E rnd publisher recipient stream epoch key_group key_id content_key =
     and_then (map_err EnvelopeIdentity (secret_public E publisher)) (\<lambda>publisher_public.
     and_then (map_err EnvelopeIdentity (identity_validate E recipient)) (\<lambda>_.
     and_then (map_err EnvelopeIdentity (identity_id E publisher_public)) (\<lambda>pid.
     and_then (map_err EnvelopeIdentity (identity_id E recipient)) (\<lambda>rid.
       let h = \<lparr>k_version = KEY_ENVELOPE_VERSION, k_publisher_id = pid, k_recipient_id = rid,
                k_stream_id = stream, k_epoch_id = epoch, k_key_group_id = key_group, k_key_id = key_id\<rparr>
       in and_then (envelope_header_validate h) (\<lambda>_.
          and_then (hpke_context E h) (\<lambda>(info, aad).
          and_then (map_err EnvelopeIdentity (kem_public_key E recipient)) (\<lambda>recipient_key.
          and_then (ok_or (hpke_seal E rnd recipient_key info (to_be_bytes 32 content_key) aad) Hpke)
            (\<lambda>(encapped, ct).
               if length ct \<noteq> HPKE_CIPHERTEXT_LEN
               then Err (EnvelopeInvalidMetadata ''unexpected HPKE ciphertext length'')
               else and_then (map_err EnvelopeIdentity
                       (sign E (unsigned_envelope_codec E) publisher ENVELOPE_DOMAIN
                          \<lparr>ue_header = h, ue_encapsulated_key = encapped, ue_ciphertext = ct\<rparr>))
                 (\<lambda>signature. Ok \<lparr>e_header = h, e_encapsulated_key = encapped, e_ciphertext = ct,
                                  e_publisher_signature = signature\<rparr>)))))))))"

definition envelope_verify_public ::
  "'z envelope_env_scheme \<Rightarrow> identity_public \<Rightarrow> key_envelope \<Rightarrow> envelope_error + unit" where
  "envelope_verify_public E publisher e =
     and_then (envelope_validate_shape e) (\<lambda>_.
     and_then (map_err EnvelopeIdentity (identity_validate E publisher)) (\<lambda>_.
     and_then (map_err EnvelopeIdentity (identity_id E publisher)) (\<lambda>i.
       if k_publisher_id (e_header e) \<noteq> i then Err WrongPublisher
       else map_err EnvelopeIdentity
              (verify E (unsigned_envelope_codec E) publisher ENVELOPE_DOMAIN (unsigned_of e)
                 (e_publisher_signature e)))))"

definition envelope_open ::
  "'z envelope_env_scheme \<Rightarrow> identity_secret \<Rightarrow> identity_public \<Rightarrow> key_envelope \<Rightarrow> envelope_error + array32" where
  "envelope_open E recipient publisher e =
     and_then (envelope_verify_public E publisher e) (\<lambda>_.
     and_then (map_err EnvelopeIdentity (secret_public E recipient)) (\<lambda>recipient_public.
     and_then (map_err EnvelopeIdentity (identity_id E recipient_public)) (\<lambda>rid.
       if k_recipient_id (e_header e) \<noteq> rid then Err WrongRecipient
       else and_then (hpke_context E (e_header e)) (\<lambda>(info, aad).
         and_then (map_err EnvelopeIdentity (kem_private_key E recipient)) (\<lambda>private_key.
           if \<not> encapped_key_ok E (e_encapsulated_key e) then Err Hpke
           else and_then (ok_or (hpke_open E private_key (e_encapsulated_key e) info (e_ciphertext e) aad) Hpke)
             (\<lambda>plain. if length plain = 32 then Ok (from_be_bytes plain)
                      else Err (EnvelopeInvalidMetadata ''unexpected content key length'')))))))"

definition envelope_encode ::
  "'z envelope_env_scheme \<Rightarrow> identity_public \<Rightarrow> key_envelope \<Rightarrow> envelope_error + bytes" where
  "envelope_encode E publisher e =
     and_then (envelope_verify_public E publisher e) (\<lambda>_.
     and_then (map_err EnvelopeIdentity (canonical (envelope_codec E) e)) (\<lambda>encoded.
       if length encoded > MAX_KEY_ENVELOPE_LEN then Err (EnvelopeInvalidMetadata ''key envelope too large'')
       else Ok encoded))"

definition envelope_decode ::
  "'z envelope_env_scheme \<Rightarrow> identity_public \<Rightarrow> bytes \<Rightarrow> envelope_error + key_envelope" where
  "envelope_decode E publisher bs =
     (if length bs > MAX_KEY_ENVELOPE_LEN then Err (EnvelopeInvalidMetadata ''key envelope too large'')
      else and_then (ok_or (take_from_bytes (envelope_codec E) bs) (EnvelopeIdentity IdentityPostcard))
        (\<lambda>(e, remainder).
          if remainder \<noteq> [] then Err (EnvelopeInvalidMetadata ''trailing key envelope data'')
          else and_then (envelope_verify_public E publisher e) (\<lambda>_.
            and_then (map_err EnvelopeIdentity (canonical (envelope_codec E) e)) (\<lambda>encoded.
              if encoded \<noteq> bs then Err (EnvelopeInvalidMetadata ''noncanonical key envelope'')
              else Ok e))))"

section \<open>Lemmas\<close>

lemma canonical_eq_Ok [result_simps]: "canonical c v = Ok bs \<longleftrightarrow> to_stdvec c v = Some bs"
  by (simp add: canonical_def ok_or_eq_Ok)

lemma envelope_encode_ok:
  "envelope_encode E publisher e = Ok bs \<longleftrightarrow>
     envelope_verify_public E publisher e = Ok () \<and> to_stdvec (envelope_codec E) e = Some bs \<and>
     length bs \<le> MAX_KEY_ENVELOPE_LEN"
  by (auto simp: envelope_encode_def result_simps not_less)

lemma envelope_decode_ok:
  "envelope_decode E publisher bs = Ok e \<longleftrightarrow>
     take_from_bytes (envelope_codec E) bs = Some (e, []) \<and> envelope_encode E publisher e = Ok bs"
  by (auto simp: envelope_decode_def envelope_encode_ok result_simps)

interpretation envelope_format:
  canonical_format "envelope_codec E" "envelope_encode E publisher" "envelope_decode E publisher"
  for E publisher
  by unfold_locales (simp_all add: envelope_decode_ok envelope_encode_ok postcard_okD_exact)

lemma identity_id_validate: "identity_id E i = Ok x \<Longrightarrow> identity_validate E i = Ok ()"
  by (auto simp: identity_id_def and_then_eq_Ok)

section \<open>Properties\<close>

lemma seal_then_open_envelope:
  assumes "keys_ok E" and "hpke_ok E"
    and "secret_public E publisher = Ok publisher_public"
    and "secret_public E recipient = Ok recipient_public"
    and "envelope_seal E rnd publisher recipient_public stream epoch key_group key_id key = Ok e"
  shows "envelope_verify_public E publisher_public e = Ok () \<and>
         envelope_open E recipient publisher_public e = Ok key"
proof -
  from assms(5,3) obtain pid rid h info aad encapped ct signature where
    ids: "identity_id E publisher_public = Ok pid" "identity_id E recipient_public = Ok rid"
    and h: "h = \<lparr>k_version = KEY_ENVELOPE_VERSION, k_publisher_id = pid, k_recipient_id = rid,
                k_stream_id = stream, k_epoch_id = epoch, k_key_group_id = key_group, k_key_id = key_id\<rparr>"
    and steps: "envelope_header_validate h = Ok ()" "hpke_context E h = Ok (info, aad)"
      "hpke_seal E rnd (kem_key recipient_public) info (to_be_bytes 32 key) aad = Some (encapped, ct)"
      "length ct = HPKE_CIPHERTEXT_LEN"
      "sign E (unsigned_envelope_codec E) publisher ENVELOPE_DOMAIN
         \<lparr>ue_header = h, ue_encapsulated_key = encapped, ue_ciphertext = ct\<rparr> = Ok signature"
    and e: "e = \<lparr>e_header = h, e_encapsulated_key = encapped, e_ciphertext = ct,
                 e_publisher_signature = signature\<rparr>"
    unfolding envelope_seal_def Let_def result_simps by (auto simp: kem_public_key_ok result_simps)
  have kem: "kem_secret_ok E (kem_secret recipient)" "kem_key recipient_public = kem_public E (kem_secret recipient)"
    using secret_public_kem [OF assms(4)] by simp_all
  have opens: "encapped_key_ok E encapped"
    "hpke_open E (kem_secret recipient) encapped info ct aad = Some (to_be_bytes 32 key)"
    using assms(2) steps(3) kem unfolding hpke_ok_def by metis+
  have verified: "envelope_verify_public E publisher_public e = Ok ()"
    using steps(1,4) ids verify_sign [OF assms(1,3) steps(5)] identity_id_validate [OF ids(1)] h e
    by (simp add: envelope_verify_public_def envelope_validate_shape_def unsigned_of_def)
  then show ?thesis
    using assms(4) ids steps(2) kem opens h e by (simp add: envelope_open_def kem_private_key_def)
qed

text \<open>C23: Key delivery round trip: an envelope sealed by a publisher for a viewer's public
  identity verifies under the publisher's identity, and the viewer holding the matching secret
  opens it to exactly the content key that was sealed.\<close>

theorem sealed_envelope_opens:
  assumes "keys_ok E" and "hpke_ok E"
    and "secret_public E publisher = Ok publisher_public"
    and "secret_public E recipient = Ok recipient_public"
    and "envelope_seal E rnd publisher recipient_public stream epoch key_group key_id key = Ok e"
  shows "envelope_verify_public E publisher_public e = Ok () \<and>
         envelope_open E recipient publisher_public e = Ok key"
  using assms by (rule seal_then_open_envelope)

text \<open>Only the addressee: whatever envelope is presented, if a viewer opens it then the
  envelope's recipient field is that viewer's own fingerprint, and it carries a valid signature
  of the given publisher over all its fields.\<close>

theorem envelope_open_authentic:
  assumes "envelope_open E recipient publisher e = Ok key"
  shows "\<exists>recipient_public digest.
     secret_public E recipient = Ok recipient_public \<and>
     identity_id E recipient_public = Ok (k_recipient_id (e_header e)) \<and>
     identity_id E publisher = Ok (k_publisher_id (e_header e)) \<and>
     signing_digest E (unsigned_envelope_codec E) ENVELOPE_DOMAIN (unsigned_of e) = Ok digest \<and>
     ed_verify E (signing_key publisher) (to_be_bytes 32 digest) (signature_to_bytes (e_publisher_signature e))"
  using assms
  by (auto simp: envelope_open_def envelope_verify_public_def result_simps verify_ok)

definition example_envelope_env :: envelope_env where
  "example_envelope_env = native_env.extend example_native_env
     \<lparr>envelope_header_codec = tag_postcard [7], unsigned_envelope_codec = tag_postcard [8],
      envelope_codec = tag_postcard [9]\<rparr>"

lemmas example_envelope_defs = example_envelope_env_def native_env.extend_def native_env.defs example_native_defs

lemma example_envelope_env_ok: "keys_ok example_envelope_env" "hpke_ok example_envelope_env"
  by (auto simp: keys_ok_def signatures_ok_def hpke_ok_def example_envelope_defs)

lemma example_envelope_fields:
  "secret_public example_envelope_env example_secret = Ok example_public"
  "identity_validate example_envelope_env example_public = Ok ()"
  "identity_id example_envelope_env example_public = Ok 24"
  "kem_public_key example_envelope_env example_public = Ok 9"
  "hpke_seal example_envelope_env rnd pk info msg aad = Some (pk, msg @ replicate 16 0)"
  "to_stdvec (envelope_header_codec example_envelope_env) h = Some [7]"
  "to_stdvec (unsigned_envelope_codec example_envelope_env) u = Some [8]"
  by (simp_all add: secret_public_def identity_id_def identity_validate_def kem_public_key_def
      example_envelope_defs example_secret_def example_public_def IDENTITY_VERSION_def
      IDENTITY_FINGERPRINT_PREFIX_def ascii_bytes_def)

lemma example_envelope_seal_ok:
  "is_ok (envelope_seal example_envelope_env [] example_secret example_public 1 2 1 3 77)"
  by (simp add: envelope_seal_def example_envelope_fields Let_def envelope_header_validate_def
      KEY_ENVELOPE_VERSION_def hpke_context_def canonical_def HPKE_CIPHERTEXT_LEN_def sign_def
      signing_digest_def ENVELOPE_DOMAIN_def ascii_bytes_def)

theorem sealed_envelope_opens_witness:
  "\<exists>e. envelope_seal example_envelope_env [] example_secret example_public 1 2 1 3 77 = Ok e \<and>
     envelope_verify_public example_envelope_env example_public e = Ok () \<and>
     envelope_open example_envelope_env example_secret example_public e = Ok 77"
proof -
  from example_envelope_seal_ok obtain e where
    e: "envelope_seal example_envelope_env [] example_secret example_public 1 2 1 3 77 = Ok e"
    by (auto simp: is_ok_iff)
  from sealed_envelope_opens [OF example_envelope_env_ok example_envelope_fields(1,1) e] e show ?thesis
    by blast
qed

definition example_envelope :: key_envelope where
  "example_envelope =
     \<lparr>e_header = \<lparr>k_version = 1, k_publisher_id = 24, k_recipient_id = 24, k_stream_id = 1, k_epoch_id = 2,
                  k_key_group_id = 1, k_key_id = 3\<rparr>,
      e_encapsulated_key = 9, e_ciphertext = replicate 48 0,
      e_publisher_signature = signature_from_bytes (replicate 64 7)\<rparr>"

lemma example_envelope_opens:
  "envelope_open example_envelope_env example_secret example_public example_envelope = Ok 0"
  by (simp add: envelope_open_def envelope_verify_public_def envelope_validate_shape_def
      envelope_header_validate_def example_envelope_fields example_envelope_def KEY_ENVELOPE_VERSION_def
      HPKE_CIPHERTEXT_LEN_def verify_def signing_digest_def canonical_def ENVELOPE_DOMAIN_def ascii_bytes_def
      verifying_key_def unsigned_of_def hpke_context_def kem_private_key_def signature_bytes_round_trip)
     (simp add: example_envelope_defs example_public_def from_be_bytes_zeros)

theorem envelope_open_authentic_witness:
  "envelope_open example_envelope_env example_secret example_public example_envelope = Ok 0 \<and>
   (\<exists>recipient_public digest.
     secret_public example_envelope_env example_secret = Ok recipient_public \<and>
     identity_id example_envelope_env recipient_public = Ok (k_recipient_id (e_header example_envelope)) \<and>
     identity_id example_envelope_env example_public = Ok (k_publisher_id (e_header example_envelope)) \<and>
     signing_digest example_envelope_env (unsigned_envelope_codec example_envelope_env) ENVELOPE_DOMAIN
       (unsigned_of example_envelope) = Ok digest \<and>
     ed_verify example_envelope_env (signing_key example_public) (to_be_bytes 32 digest)
       (signature_to_bytes (e_publisher_signature example_envelope)))"
  using envelope_open_authentic [OF example_envelope_opens] example_envelope_opens by blast

end
