(* ===== verification/Credential.thy ===== *)
theory Credential
  imports Envelope
begin

text \<open>
  \<^verbatim>\<open>crates/protocol/src/credential.rs\<close>: proof-of-possession requests, role credentials issued by an
  offline certificate authority, and signed revocation lists.

  Random serials and nonces are arguments.  The private-key file is read and created through
  \<^verbatim>\<open>private_state.rs\<close>, whose result is an argument.
\<close>

section \<open>Constants and errors\<close>

definition CREDENTIAL_VERSION :: u16 where
  "CREDENTIAL_VERSION = 1"

definition MAX_CREDENTIAL_SUBJECT_LEN :: nat where
  "MAX_CREDENTIAL_SUBJECT_LEN = 128"

definition MAX_REVOKED_SERIALS :: nat where
  "MAX_REVOKED_SERIALS = 16384"

definition REQUEST_DOMAIN :: bytes where
  "REQUEST_DOMAIN = ascii_bytes ''glacialcast-credential-request-v1''"

definition CREDENTIAL_DOMAIN :: bytes where
  "CREDENTIAL_DOMAIN = ascii_bytes ''glacialcast-native-credential-v1''"

definition REVOCATION_DOMAIN :: bytes where
  "REVOCATION_DOMAIN = ascii_bytes ''glacialcast-native-crl-v1''"

definition AUTHORITY_ID_DOMAIN :: bytes where
  "AUTHORITY_ID_DOMAIN = ascii_bytes ''glacialcast-native-ca-v1''"

definition AUTHORITY_FILE_MAGIC :: bytes where
  "AUTHORITY_FILE_MAGIC = ascii_bytes ''GCCA1''"

definition CLOCK_SKEW_MS :: i64 where
  "CLOCK_SKEW_MS = 5 * 60 * 1000"

definition MAX_CREDENTIAL_LIFETIME_MS :: i64 where
  "MAX_CREDENTIAL_LIFETIME_MS = 10 * 366 * 24 * 60 * 60 * 1000"

datatype credential_role = RolePublisher | RoleViewer

datatype credential_error =
    CredentialUnsupportedVersion u16
  | CredentialInvalidMetadata string
  | CredentialInvalidSignature
  | WrongIssuer
  | WrongRole
  | NotYetValid
  | Expired
  | Revoked
  | WrongNoiseKey
  | CredentialIdentity identity_error
  | CredentialPostcard
  | CredentialIo io_error_kind

section \<open>Data\<close>

record certificate_authority_public =
  ca_version :: u16
  ca_signing_key :: array32

record certificate_authority_secret =
  ca_signing_secret :: array32

record credential_request_body =
  rq_version :: u16
  rq_subject :: rust_str
  rq_role :: credential_role
  rq_noise_static_key :: array32
  rq_identity :: identity_public
  rq_nonce :: array16
  rq_issued_at_ms :: i64
  rq_expires_at_ms :: i64

record credential_request =
  rq_body :: credential_request_body
  rq_signature :: signature_bytes

record native_credential_body =
  cr_version :: u16
  cr_issuer_id :: array32
  cr_serial :: array16
  cr_request_id :: array32
  cr_subject :: rust_str
  cr_role :: credential_role
  cr_not_before_ms :: i64
  cr_not_after_ms :: i64
  cr_noise_static_key :: array32
  cr_identity :: identity_public

record native_credential =
  cr_body :: native_credential_body
  cr_signature :: signature_bytes

record revocation_list_body =
  rl_version :: u16
  rl_issuer_id :: array32
  rl_generated_at_ms :: i64
  rl_expires_at_ms :: i64
  rl_serials :: "array16 list"

record revocation_list =
  rl_body :: revocation_list_body
  rl_signature :: signature_bytes

record credential_env = envelope_env +
  authority_codec :: "certificate_authority_public postcard"
  authority_key_codec :: "(u16 \<times> array32) postcard"
  request_body_codec :: "credential_request_body postcard"
  request_codec :: "credential_request postcard"
  credential_body_codec :: "native_credential_body postcard"
  credential_codec :: "native_credential postcard"
  revocation_body_codec :: "revocation_list_body postcard"
  revocation_codec :: "revocation_list postcard"

section \<open>Validation\<close>

definition validate_subject :: "rust_str \<Rightarrow> credential_error + unit" where
  "validate_subject subject =
     (if subject = [] \<or> str_len subject > MAX_CREDENTIAL_SUBJECT_LEN \<or> str_trim subject \<noteq> subject \<or>
         list_ex is_control subject
      then Err (CredentialInvalidMetadata ''invalid subject'') else Ok ())"

definition validate_time_range :: "i64 \<Rightarrow> i64 \<Rightarrow> credential_error + unit" where
  "validate_time_range not_before_ms not_after_ms =
     and_then (ok_or (checked_sub_i64 not_after_ms not_before_ms)
                 (CredentialInvalidMetadata ''validity range overflows'')) (\<lambda>lifetime.
       if sint lifetime \<le> 0 \<or> sint lifetime > sint MAX_CREDENTIAL_LIFETIME_MS
       then Err (CredentialInvalidMetadata ''invalid validity range'') else Ok ())"

section \<open>The authority\<close>

definition authority_id ::
  "'z credential_env_scheme \<Rightarrow> certificate_authority_public \<Rightarrow> credential_error + array32" where
  "authority_id E a =
     (if ca_version a \<noteq> CREDENTIAL_VERSION then Err (CredentialUnsupportedVersion (ca_version a))
      else if \<not> ed_key_ok E (ca_signing_key a) then Err (CredentialInvalidMetadata ''invalid CA public key'')
      else and_then (ok_or (to_stdvec (authority_codec E) a) CredentialPostcard) (\<lambda>encoded.
        Ok (sha256 E (AUTHORITY_ID_DOMAIN @ encoded))))"

definition authority_verifying_key ::
  "'z credential_env_scheme \<Rightarrow> certificate_authority_public \<Rightarrow> credential_error + array32" where
  "authority_verifying_key E a =
     and_then (authority_id E a) (\<lambda>_.
       if ed_key_ok E (ca_signing_key a) then Ok (ca_signing_key a)
       else Err (CredentialInvalidMetadata ''invalid CA public key''))"

definition authority_encode ::
  "'z credential_env_scheme \<Rightarrow> certificate_authority_public \<Rightarrow> credential_error + bytes" where
  "authority_encode E a =
     and_then (authority_id E a) (\<lambda>_. ok_or (to_stdvec (authority_codec E) a) CredentialPostcard)"

definition authority_decode ::
  "'z credential_env_scheme \<Rightarrow> bytes \<Rightarrow> credential_error + certificate_authority_public" where
  "authority_decode E bs =
     and_then (ok_or (take_from_bytes (authority_codec E) bs) CredentialPostcard) (\<lambda>(a, remainder).
       if remainder \<noteq> [] then Err (CredentialInvalidMetadata ''trailing CA data'')
       else and_then (authority_id E a) (\<lambda>_. Ok a))"

definition authority_public ::
  "'z credential_env_scheme \<Rightarrow> certificate_authority_secret \<Rightarrow> certificate_authority_public" where
  "authority_public E ca = \<lparr>ca_version = CREDENTIAL_VERSION, ca_signing_key = ed_public E (ca_signing_secret ca)\<rparr>"

definition authority_sign ::
  "'z credential_env_scheme \<Rightarrow> 'a postcard \<Rightarrow> certificate_authority_secret \<Rightarrow> bytes \<Rightarrow> 'a
    \<Rightarrow> credential_error + signature_bytes" where
  "authority_sign E c ca domain v =
     and_then (map_err CredentialIdentity (signing_digest E c domain v)) (\<lambda>digest.
       Ok (signature_from_bytes (ed_sign E (ca_signing_secret ca) (to_be_bytes 32 digest))))"

text \<open>\<^verbatim>\<open>authority.verifying_key()?.verify(&digest, &signature)\<close>, shared by credentials and lists.\<close>

definition authority_verify ::
  "'z credential_env_scheme \<Rightarrow> 'a postcard \<Rightarrow> certificate_authority_public \<Rightarrow> bytes \<Rightarrow> 'a \<Rightarrow> signature_bytes
    \<Rightarrow> credential_error + unit" where
  "authority_verify E c a domain v signature =
     and_then (map_err CredentialIdentity (signing_digest E c domain v)) (\<lambda>digest.
       and_then (authority_verifying_key E a) (\<lambda>key.
         if ed_verify E key (to_be_bytes 32 digest) (signature_to_bytes signature)
         then Ok () else Err CredentialInvalidSignature))"

definition authority_secret_encode ::
  "'z credential_env_scheme \<Rightarrow> certificate_authority_secret \<Rightarrow> credential_error + bytes" where
  "authority_secret_encode E ca =
     and_then (ok_or (to_stdvec (authority_key_codec E) (CREDENTIAL_VERSION, ca_signing_secret ca))
                 CredentialPostcard)
       (\<lambda>payload. Ok (AUTHORITY_FILE_MAGIC @ payload))"

definition authority_secret_decode ::
  "'z credential_env_scheme \<Rightarrow> bytes \<Rightarrow> credential_error + certificate_authority_secret" where
  "authority_secret_decode E bs =
     (if take (length AUTHORITY_FILE_MAGIC) bs \<noteq> AUTHORITY_FILE_MAGIC
      then Err (CredentialInvalidMetadata ''invalid CA file magic'')
      else and_then (ok_or (take_from_bytes (authority_key_codec E) (drop (length AUTHORITY_FILE_MAGIC) bs))
                       CredentialPostcard) (\<lambda>((version, secret), remainder).
        if remainder \<noteq> [] then Err (CredentialInvalidMetadata ''trailing CA key data'')
        else if version \<noteq> CREDENTIAL_VERSION then Err (CredentialUnsupportedVersion version)
        else if secret = 0 then Err (CredentialInvalidMetadata ''zero CA private key'')
        else let authority = \<lparr>ca_signing_secret = secret\<rparr>
             in and_then (authority_id E (authority_public E authority)) (\<lambda>_. Ok authority)))"

text \<open>Creating and loading the private-key file, with the outcome of the file operation given.\<close>

definition create_certificate_authority ::
  "'z credential_env_scheme \<Rightarrow> array32 \<Rightarrow> io_error_kind + unit
    \<Rightarrow> credential_error + certificate_authority_public \<times> bytes" where
  "create_certificate_authority E generated created =
     (let authority = \<lparr>ca_signing_secret = generated\<rparr>
      in and_then (authority_secret_encode E authority) (\<lambda>encoded.
         and_then (map_err CredentialIo created) (\<lambda>_. Ok (authority_public E authority, encoded))))"

definition load_certificate_authority ::
  "'z credential_env_scheme \<Rightarrow> io_error_kind + bytes \<Rightarrow> credential_error + certificate_authority_secret" where
  "load_certificate_authority E read =
     and_then (map_err CredentialIo read) (authority_secret_decode E)"

section \<open>Requests\<close>

definition request_encode :: "'z credential_env_scheme \<Rightarrow> credential_request \<Rightarrow> credential_error + bytes" where
  "request_encode E r = ok_or (to_stdvec (request_codec E) r) CredentialPostcard"

definition request_decode :: "'z credential_env_scheme \<Rightarrow> bytes \<Rightarrow> credential_error + credential_request" where
  "request_decode E bs =
     and_then (ok_or (take_from_bytes (request_codec E) bs) CredentialPostcard) (\<lambda>(r, remainder).
       if remainder \<noteq> []
       then Err (CredentialInvalidMetadata ''trailing or non-canonical credential request'')
       else and_then (request_encode E r) (\<lambda>encoded.
         if encoded \<noteq> bs
         then Err (CredentialInvalidMetadata ''trailing or non-canonical credential request'')
         else Ok r))"

definition request_new ::
  "'z credential_env_scheme \<Rightarrow> array16 \<Rightarrow> identity_secret \<Rightarrow> rust_str \<Rightarrow> credential_role \<Rightarrow> array32 \<Rightarrow> i64 \<Rightarrow> i64
    \<Rightarrow> credential_error + credential_request" where
  "request_new E nonce identity subject role noise_static_key issued expires =
     and_then (validate_subject subject) (\<lambda>_.
     and_then (validate_time_range issued expires) (\<lambda>_.
       if noise_static_key = 0 then Err (CredentialInvalidMetadata ''zero Noise static key'')
       else and_then (map_err CredentialIdentity (secret_public E identity)) (\<lambda>public.
         let body = \<lparr>rq_version = CREDENTIAL_VERSION, rq_subject = subject, rq_role = role,
                     rq_noise_static_key = noise_static_key, rq_identity = public, rq_nonce = nonce,
                     rq_issued_at_ms = issued, rq_expires_at_ms = expires\<rparr>
         in and_then (map_err CredentialIdentity (sign E (request_body_codec E) identity REQUEST_DOMAIN body))
              (\<lambda>signature. Ok \<lparr>rq_body = body, rq_signature = signature\<rparr>))))"

definition credential_signature_error :: "identity_error \<Rightarrow> credential_error" where
  "credential_signature_error e =
     (case e of InvalidSignature \<Rightarrow> CredentialInvalidSignature | other \<Rightarrow> CredentialIdentity other)"

definition request_verify ::
  "'z credential_env_scheme \<Rightarrow> credential_request \<Rightarrow> i64 \<Rightarrow> i64 \<Rightarrow> credential_error + unit" where
  "request_verify E r now_ms max_lifetime_ms =
     (let b = rq_body r
      in if rq_version b \<noteq> CREDENTIAL_VERSION then Err (CredentialUnsupportedVersion (rq_version b))
         else and_then (validate_subject (rq_subject b)) (\<lambda>_.
         and_then (map_err CredentialIdentity (identity_validate E (rq_identity b))) (\<lambda>_.
         if rq_noise_static_key b = 0 \<or> rq_nonce b = 0
         then Err (CredentialInvalidMetadata ''zero Noise static key or request nonce'')
         else and_then (validate_time_range (rq_issued_at_ms b) (rq_expires_at_ms b)) (\<lambda>_.
         and_then (ok_or (checked_sub_i64 (rq_expires_at_ms b) (rq_issued_at_ms b))
                     (CredentialInvalidMetadata ''request lifetime overflows'')) (\<lambda>lifetime.
         if sint max_lifetime_ms \<le> 0 \<or> sint lifetime > sint max_lifetime_ms
         then Err (CredentialInvalidMetadata ''request lifetime exceeds policy'')
         else if sint (rq_issued_at_ms b) > sint (saturating_add_i64 now_ms CLOCK_SKEW_MS) then Err NotYetValid
         else if sint (rq_expires_at_ms b) \<le> sint now_ms then Err Expired
         else map_err credential_signature_error
                (verify E (request_body_codec E) (rq_identity b) REQUEST_DOMAIN b (rq_signature r)))))))"

definition request_id :: "'z credential_env_scheme \<Rightarrow> credential_request \<Rightarrow> credential_error + array32" where
  "request_id E r =
     and_then (ok_or (to_stdvec (request_codec E) r) CredentialPostcard) (\<lambda>encoded. Ok (sha256 E encoded))"

section \<open>Issuing\<close>

definition issue ::
  "'z credential_env_scheme \<Rightarrow> array16 \<Rightarrow> certificate_authority_secret \<Rightarrow> credential_request \<Rightarrow> i64 \<Rightarrow> i64 \<Rightarrow> i64
    \<Rightarrow> credential_error + native_credential" where
  "issue E serial ca request now_ms not_after_ms max_request_lifetime_ms =
     and_then (request_verify E request now_ms max_request_lifetime_ms) (\<lambda>_.
     and_then (validate_time_range now_ms not_after_ms) (\<lambda>_.
     and_then (authority_id E (authority_public E ca)) (\<lambda>issuer.
     and_then (request_id E request) (\<lambda>rid.
       let b = rq_body request;
           body = \<lparr>cr_version = CREDENTIAL_VERSION, cr_issuer_id = issuer, cr_serial = serial,
                   cr_request_id = rid, cr_subject = rq_subject b, cr_role = rq_role b,
                   cr_not_before_ms = now_ms, cr_not_after_ms = not_after_ms,
                   cr_noise_static_key = rq_noise_static_key b, cr_identity = rq_identity b\<rparr>
       in and_then (authority_sign E (credential_body_codec E) ca CREDENTIAL_DOMAIN body) (\<lambda>signature.
            Ok \<lparr>cr_body = body, cr_signature = signature\<rparr>)))))"

definition sign_revocations ::
  "'z credential_env_scheme \<Rightarrow> certificate_authority_secret \<Rightarrow> i64 \<Rightarrow> i64 \<Rightarrow> array16 list
    \<Rightarrow> credential_error + revocation_list" where
  "sign_revocations E ca generated_at_ms expires_at_ms serials =
     and_then (validate_time_range generated_at_ms expires_at_ms) (\<lambda>_.
       if length serials > MAX_REVOKED_SERIALS then Err (CredentialInvalidMetadata ''too many revoked serials'')
       else let serials = sort serials
            in if windows2_any (=) serials then Err (CredentialInvalidMetadata ''duplicate revoked serial'')
               else and_then (authority_id E (authority_public E ca)) (\<lambda>issuer.
                 let body = \<lparr>rl_version = CREDENTIAL_VERSION, rl_issuer_id = issuer,
                             rl_generated_at_ms = generated_at_ms, rl_expires_at_ms = expires_at_ms,
                             rl_serials = serials\<rparr>
                 in and_then (authority_sign E (revocation_body_codec E) ca REVOCATION_DOMAIN body)
                      (\<lambda>signature. Ok \<lparr>rl_body = body, rl_signature = signature\<rparr>)))"

section \<open>Revocation lists\<close>

definition revocation_encode :: "'z credential_env_scheme \<Rightarrow> revocation_list \<Rightarrow> credential_error + bytes" where
  "revocation_encode E l = ok_or (to_stdvec (revocation_codec E) l) CredentialPostcard"

definition revocation_decode :: "'z credential_env_scheme \<Rightarrow> bytes \<Rightarrow> credential_error + revocation_list" where
  "revocation_decode E bs =
     and_then (ok_or (take_from_bytes (revocation_codec E) bs) CredentialPostcard) (\<lambda>(l, remainder).
       if remainder \<noteq> [] then Err (CredentialInvalidMetadata ''trailing revocation-list data'')
       else and_then (revocation_encode E l) (\<lambda>encoded.
         if encoded \<noteq> bs then Err (CredentialInvalidMetadata ''non-canonical revocation-list data'')
         else Ok l))"

definition revocation_verify_at ::
  "'z credential_env_scheme \<Rightarrow> revocation_list \<Rightarrow> certificate_authority_public \<Rightarrow> i64 \<Rightarrow> credential_error + unit" where
  "revocation_verify_at E l authority now_ms =
     (let b = rl_body l
      in if rl_version b \<noteq> CREDENTIAL_VERSION then Err (CredentialUnsupportedVersion (rl_version b))
         else and_then (validate_time_range (rl_generated_at_ms b) (rl_expires_at_ms b)) (\<lambda>_.
         if length (rl_serials b) > MAX_REVOKED_SERIALS
         then Err (CredentialInvalidMetadata ''too many revoked serials'')
         else if windows2_any (\<ge>) (rl_serials b)
         then Err (CredentialInvalidMetadata ''revoked serials are not sorted and unique'')
         else and_then (authority_id E authority) (\<lambda>i.
         if rl_issuer_id b \<noteq> i then Err WrongIssuer
         else and_then (authority_verify E (revocation_body_codec E) authority REVOCATION_DOMAIN b
                          (rl_signature l)) (\<lambda>_.
         if sint now_ms < sint (rl_generated_at_ms b) then Err NotYetValid
         else if sint now_ms \<ge> sint (rl_expires_at_ms b) then Err Expired
         else Ok ()))))"

section \<open>Credentials\<close>

definition credential_encode :: "'z credential_env_scheme \<Rightarrow> native_credential \<Rightarrow> credential_error + bytes" where
  "credential_encode E c = ok_or (to_stdvec (credential_codec E) c) CredentialPostcard"

definition credential_decode :: "'z credential_env_scheme \<Rightarrow> bytes \<Rightarrow> credential_error + native_credential" where
  "credential_decode E bs =
     and_then (ok_or (take_from_bytes (credential_codec E) bs) CredentialPostcard) (\<lambda>(c, remainder).
       if remainder \<noteq> [] then Err (CredentialInvalidMetadata ''trailing or non-canonical credential data'')
       else and_then (credential_encode E c) (\<lambda>encoded.
         if encoded \<noteq> bs then Err (CredentialInvalidMetadata ''trailing or non-canonical credential data'')
         else Ok c))"

definition credential_verify_at ::
  "'z credential_env_scheme \<Rightarrow> native_credential \<Rightarrow> certificate_authority_public \<Rightarrow> revocation_list option
    \<Rightarrow> credential_role \<Rightarrow> array32 \<Rightarrow> i64 \<Rightarrow> credential_error + unit" where
  "credential_verify_at E c authority revocations expected_role noise_static_key now_ms =
     (let b = cr_body c
      in if cr_version b \<noteq> CREDENTIAL_VERSION then Err (CredentialUnsupportedVersion (cr_version b))
         else and_then (validate_subject (cr_subject b)) (\<lambda>_.
         and_then (validate_time_range (cr_not_before_ms b) (cr_not_after_ms b)) (\<lambda>_.
         and_then (map_err CredentialIdentity (identity_validate E (cr_identity b))) (\<lambda>_.
         if cr_request_id b = 0 \<or> cr_serial b = 0 \<or> cr_noise_static_key b = 0
         then Err (CredentialInvalidMetadata ''zero request, serial, or Noise identity'')
         else and_then (authority_id E authority) (\<lambda>i.
         if cr_issuer_id b \<noteq> i then Err WrongIssuer
         else and_then (authority_verify E (credential_body_codec E) authority CREDENTIAL_DOMAIN b
                          (cr_signature c)) (\<lambda>_.
         if cr_role b \<noteq> expected_role then Err WrongRole
         else if cr_noise_static_key b \<noteq> noise_static_key then Err WrongNoiseKey
         else if sint now_ms < sint (cr_not_before_ms b) then Err NotYetValid
         else if sint now_ms \<ge> sint (cr_not_after_ms b) then Err Expired
         else (case revocations of
                 None \<Rightarrow> Ok ()
               | Some l \<Rightarrow>
                   and_then (revocation_verify_at E l authority now_ms) (\<lambda>_.
                     if binary_search_found (rl_serials (rl_body l)) (cr_serial b) then Err Revoked
                     else Ok ()))))))))"

section \<open>Lemmas\<close>

lemma validate_time_range_ok:
  "validate_time_range nb na = Ok () \<longleftrightarrow>
     sint nb < sint na \<and> sint na - sint nb \<le> sint MAX_CREDENTIAL_LIFETIME_MS"
proof -
  have big: "sint MAX_CREDENTIAL_LIFETIME_MS \<le> i64_MAX" by (rule sint_i64_bounds)
  show ?thesis
  proof (cases "checked_sub_i64 na nb")
    case None
    then have "\<not> (i64_MIN \<le> sint na - sint nb \<and> sint na - sint nb \<le> i64_MAX)"
      by (simp add: checked_sub_i64_def Let_def split: if_splits)
    with None big show ?thesis by (auto simp: validate_time_range_def)
  next
    case (Some d)
    with sint_checked_sub_i64 [OF Some] show ?thesis by (auto simp: validate_time_range_def)
  qed
qed

lemma authority_public_id:
  assumes "signatures_ok E" and "authority_id E (authority_public E ca) = Ok i"
  shows "authority_verifying_key E (authority_public E ca) = Ok (ed_public E (ca_signing_secret ca))"
  using assms by (simp add: authority_verifying_key_def authority_public_def signatures_ok_def)

lemma authority_verify_sign:
  assumes "signatures_ok E" and "authority_id E (authority_public E ca) = Ok i"
    and "authority_sign E c ca domain v = Ok signature"
  shows "authority_verify E c (authority_public E ca) domain v signature = Ok ()"
  using assms authority_public_id [OF assms(1,2)]
  by (auto simp: authority_sign_def authority_verify_def result_simps signatures_ok_def signature_bytes_round_trip)

lemma authority_verify_ok:
  "authority_verify E c a domain v signature = Ok () \<longleftrightarrow>
     (\<exists>i digest. authority_id E a = Ok i \<and> signing_digest E c domain v = Ok digest \<and>
        ed_verify E (ca_signing_key a) (to_be_bytes 32 digest) (signature_to_bytes signature))"
  by (auto simp: authority_verify_def authority_verifying_key_def authority_id_def result_simps)

lemma request_verify_ok:
  "request_verify E r now_ms limit = Ok () \<longleftrightarrow>
     rq_version (rq_body r) = CREDENTIAL_VERSION \<and> validate_subject (rq_subject (rq_body r)) = Ok () \<and>
     rq_noise_static_key (rq_body r) \<noteq> 0 \<and> rq_nonce (rq_body r) \<noteq> 0 \<and>
     validate_time_range (rq_issued_at_ms (rq_body r)) (rq_expires_at_ms (rq_body r)) = Ok () \<and>
     sint (rq_expires_at_ms (rq_body r)) - sint (rq_issued_at_ms (rq_body r)) \<le> sint limit \<and>
     sint (rq_issued_at_ms (rq_body r)) \<le> sint (saturating_add_i64 now_ms CLOCK_SKEW_MS) \<and>
     sint now_ms < sint (rq_expires_at_ms (rq_body r)) \<and>
     verify E (request_body_codec E) (rq_identity (rq_body r)) REQUEST_DOMAIN (rq_body r) (rq_signature r) = Ok ()"
  (is "_ \<longleftrightarrow> ?ok")
proof -
  let ?b = "rq_body r"
  have valid: "verify E (request_body_codec E) (rq_identity ?b) REQUEST_DOMAIN ?b (rq_signature r) = Ok () \<Longrightarrow>
      identity_validate E (rq_identity ?b) = Ok ()" by (simp add: verify_ok)
  have range: "checked_sub_i64 (rq_expires_at_ms ?b) (rq_issued_at_ms ?b) = Some (rq_expires_at_ms ?b - rq_issued_at_ms ?b) \<and>
      sint (rq_expires_at_ms ?b - rq_issued_at_ms ?b) = sint (rq_expires_at_ms ?b) - sint (rq_issued_at_ms ?b)"
    if "validate_time_range (rq_issued_at_ms ?b) (rq_expires_at_ms ?b) = Ok ()"
  proof -
    from that obtain d where d: "checked_sub_i64 (rq_expires_at_ms ?b) (rq_issued_at_ms ?b) = Some d"
      by (auto simp: validate_time_range_def result_simps)
    with sint_checked_sub_i64 [OF d] show ?thesis by (simp add: checked_sub_i64_Some)
  qed
  show ?thesis
  proof (cases "validate_time_range (rq_issued_at_ms ?b) (rq_expires_at_ms ?b) = Ok ()")
    case True
    note True range [OF True]
    moreover from True have "sint (rq_issued_at_ms ?b) < sint (rq_expires_at_ms ?b)"
      by (simp add: validate_time_range_ok)
    ultimately show ?thesis using valid by (auto simp: request_verify_def Let_def result_simps)
  qed (auto simp: request_verify_def Let_def result_simps)
qed

lemma issue_ok:
  assumes "issue E serial ca r now_ms na limit = Ok c"
  obtains issuer rid where "request_verify E r now_ms limit = Ok ()" "validate_time_range now_ms na = Ok ()"
    "authority_id E (authority_public E ca) = Ok issuer" "request_id E r = Ok rid"
    "cr_body c = \<lparr>cr_version = CREDENTIAL_VERSION, cr_issuer_id = issuer, cr_serial = serial,
        cr_request_id = rid, cr_subject = rq_subject (rq_body r), cr_role = rq_role (rq_body r),
        cr_not_before_ms = now_ms, cr_not_after_ms = na,
        cr_noise_static_key = rq_noise_static_key (rq_body r), cr_identity = rq_identity (rq_body r)\<rparr>"
    "authority_sign E (credential_body_codec E) ca CREDENTIAL_DOMAIN (cr_body c) = Ok (cr_signature c)"
  using assms that by (auto simp: issue_def Let_def result_simps)

lemma sign_revocations_ok:
  assumes "sign_revocations E ca g e serials = Ok l"
  obtains issuer where "validate_time_range g e = Ok ()" "length serials \<le> MAX_REVOKED_SERIALS" "distinct serials"
    "authority_id E (authority_public E ca) = Ok issuer"
    "rl_body l = \<lparr>rl_version = CREDENTIAL_VERSION, rl_issuer_id = issuer, rl_generated_at_ms = g,
        rl_expires_at_ms = e, rl_serials = sort serials\<rparr>"
    "authority_sign E (revocation_body_codec E) ca REVOCATION_DOMAIN (rl_body l) = Ok (rl_signature l)"
  using assms that by (auto simp: sign_revocations_def Let_def result_simps windows2_eq_sort_iff)

lemma revocation_verify_at_sorted:
  "revocation_verify_at E l a now_ms = Ok () \<Longrightarrow> sorted_wrt (<) (rl_serials (rl_body l))"
  by (auto simp: revocation_verify_at_def Let_def result_simps windows2_ge_iff)

lemma credential_verify_at_Some:
  "credential_verify_at E c a (Some l) role key now_ms =
     and_then (credential_verify_at E c a None role key now_ms) (\<lambda>_.
       and_then (revocation_verify_at E l a now_ms) (\<lambda>_.
         if cr_serial (cr_body c) \<in> set (rl_serials (rl_body l)) then Err Revoked else Ok ()))"
proof -
  have list: "and_then (revocation_verify_at E l a now_ms) (\<lambda>_.
        if binary_search_found (rl_serials (rl_body l)) (cr_serial (cr_body c)) then Err Revoked else Ok ())
      = and_then (revocation_verify_at E l a now_ms) (\<lambda>_.
          if cr_serial (cr_body c) \<in> set (rl_serials (rl_body l)) then Err Revoked else Ok ())"
    using binary_search_found_iff [OF revocation_verify_at_sorted [of E l a now_ms]]
    by (cases "revocation_verify_at E l a now_ms") auto
  have assoc: "and_then (and_then x f) g = and_then x (\<lambda>y. and_then (f y) g)"
    for x :: "credential_error + 'b" and f :: "'b \<Rightarrow> credential_error + 'c" and g :: "'c \<Rightarrow> credential_error + 'd"
    by (cases x) simp_all
  have if_distrib: "and_then (if b then x else y) g = (if b then and_then x g else and_then y g)"
    for b and x y :: "credential_error + 'b" and g :: "'b \<Rightarrow> credential_error + 'c" by simp
  show ?thesis
    by (simp add: credential_verify_at_def Let_def assoc if_distrib list cong: if_cong)
qed

text \<open>The three signed documents are canonical byte formats.\<close>

interpretation request_format: canonical_format "request_codec E" "request_encode E" "request_decode E" for E
  by unfold_locales (auto simp: request_encode_def request_decode_def result_simps dest: postcard_okD_exact)

interpretation credential_format: canonical_format "credential_codec E" "credential_encode E" "credential_decode E" for E
  by unfold_locales (auto simp: credential_encode_def credential_decode_def result_simps dest: postcard_okD_exact)

interpretation revocation_format: canonical_format "revocation_codec E" "revocation_encode E" "revocation_decode E" for E
  by unfold_locales (auto simp: revocation_encode_def revocation_decode_def result_simps dest: postcard_okD_exact)

text \<open>A relay checking a list its authority signed looks at the clock only, and finds the serials given.\<close>

lemma signed_revocations_verify:
  assumes "signatures_ok E" and "sign_revocations E ca generated expires serials = Ok l"
  shows "revocation_verify_at E l (authority_public E ca) now_ms =
      (if sint now_ms < sint generated then Err NotYetValid
       else if sint expires \<le> sint now_ms then Err Expired else Ok ())"
    and "set (rl_serials (rl_body l)) = set serials"
proof -
  from assms(2) obtain issuer where
    1: "validate_time_range generated expires = Ok ()" "length serials \<le> MAX_REVOKED_SERIALS" "distinct serials"
    "authority_id E (authority_public E ca) = Ok issuer"
    "rl_body l = \<lparr>rl_version = CREDENTIAL_VERSION, rl_issuer_id = issuer, rl_generated_at_ms = generated,
        rl_expires_at_ms = expires, rl_serials = sort serials\<rparr>"
    "authority_sign E (revocation_body_codec E) ca REVOCATION_DOMAIN (rl_body l) = Ok (rl_signature l)"
    by (rule sign_revocations_ok)
  note signed = authority_verify_sign [OF assms(1) 1(4,6)]
  have "sorted_wrt (<) (sort serials)" using 1(3) by (simp add: strict_sorted_iff)
  then show "revocation_verify_at E l (authority_public E ca) now_ms =
      (if sint now_ms < sint generated then Err NotYetValid
       else if sint expires \<le> sint now_ms then Err Expired else Ok ())"
    using 1(1,2,4,5) signed by (simp add: revocation_verify_at_def Let_def windows2_ge_iff)
  show "set (rl_serials (rl_body l)) = set serials" using 1(5) by simp
qed

section \<open>Properties\<close>

text \<open>C24: What a relay decides about an issued credential, at every time and for every expected role
  and session key: wrong role, wrong key, not yet valid before the time of issue, expired from the
  expiry on, accepted otherwise.\<close>

theorem issued_credential_verdict:
  assumes "signatures_ok E" and "issue E serial ca r issued_ms na limit = Ok c"
    and "serial \<noteq> 0" and "request_id E r \<noteq> Ok 0"
  shows "credential_verify_at E c (authority_public E ca) None role key now_ms =
    (if rq_role (rq_body r) \<noteq> role then Err WrongRole
     else if rq_noise_static_key (rq_body r) \<noteq> key then Err WrongNoiseKey
     else if sint now_ms < sint issued_ms then Err NotYetValid
     else if sint na \<le> sint now_ms then Err Expired
     else Ok ())"
proof -
  from assms(2) obtain issuer rid where
    1: "request_verify E r issued_ms limit = Ok ()" "validate_time_range issued_ms na = Ok ()"
    "authority_id E (authority_public E ca) = Ok issuer" "request_id E r = Ok rid"
    "cr_body c = \<lparr>cr_version = CREDENTIAL_VERSION, cr_issuer_id = issuer, cr_serial = serial,
        cr_request_id = rid, cr_subject = rq_subject (rq_body r), cr_role = rq_role (rq_body r),
        cr_not_before_ms = issued_ms, cr_not_after_ms = na,
        cr_noise_static_key = rq_noise_static_key (rq_body r), cr_identity = rq_identity (rq_body r)\<rparr>"
    "authority_sign E (credential_body_codec E) ca CREDENTIAL_DOMAIN (cr_body c) = Ok (cr_signature c)"
    by (rule issue_ok)
  note signed = authority_verify_sign [OF assms(1) 1(3,6)]
  have "identity_validate E (rq_identity (rq_body r)) = Ok ()"
    "validate_subject (rq_subject (rq_body r)) = Ok ()" "rq_noise_static_key (rq_body r) \<noteq> 0"
    using 1(1) by (simp_all add: request_verify_ok verify_ok)
  then show ?thesis
    using 1(2-5) signed assms(3,4) by (simp add: credential_verify_at_def Let_def)
qed

text \<open>C25: What a signed revocation list adds: at a time within the list's validity exactly the
  credentials whose serial was listed are refused as revoked, whatever order the operator gave the
  serials in; outside its validity every credential is refused.  The halving search of the code
  decides membership.\<close>

theorem revocation_verdict:
  assumes "signatures_ok E" and "sign_revocations E ca generated expires serials = Ok l"
  shows "credential_verify_at E c (authority_public E ca) (Some l) role key now_ms =
    and_then (credential_verify_at E c (authority_public E ca) None role key now_ms) (\<lambda>_.
      if sint now_ms < sint generated then Err NotYetValid
      else if sint expires \<le> sint now_ms then Err Expired
      else if cr_serial (cr_body c) \<in> set serials then Err Revoked
      else Ok ())"
  using signed_revocations_verify [OF assms]
  by (cases "credential_verify_at E c (authority_public E ca) None role key now_ms") (auto simp: credential_verify_at_Some)

text \<open>Whatever credential a relay accepts was signed by its authority over exactly the fields
  presented, grants the role of the endpoint, binds the Noise key of the session, is within its
  validity, and is not listed in the revocation list the relay holds, which itself is signed by
  the authority and current.\<close>

theorem accepted_credential_authentic:
  assumes "credential_verify_at E c authority revocations role key now_ms = Ok ()"
  shows "cr_role (cr_body c) = role \<and> cr_noise_static_key (cr_body c) = key \<and> key \<noteq> 0 \<and>
    sint (cr_not_before_ms (cr_body c)) \<le> sint now_ms \<and> sint now_ms < sint (cr_not_after_ms (cr_body c)) \<and>
    authority_id E authority = Ok (cr_issuer_id (cr_body c)) \<and>
    (\<exists>digest. signing_digest E (credential_body_codec E) CREDENTIAL_DOMAIN (cr_body c) = Ok digest \<and>
       ed_verify E (ca_signing_key authority) (to_be_bytes 32 digest) (signature_to_bytes (cr_signature c))) \<and>
    (\<forall>l. revocations = Some l \<longrightarrow>
       cr_serial (cr_body c) \<notin> set (rl_serials (rl_body l)) \<and> revocation_verify_at E l authority now_ms = Ok ())"
proof -
  have "credential_verify_at E c authority None role key now_ms = Ok ()"
    using assms by (cases revocations) (auto simp: credential_verify_at_Some result_simps)
  moreover have "\<forall>l. revocations = Some l \<longrightarrow>
      cr_serial (cr_body c) \<notin> set (rl_serials (rl_body l)) \<and> revocation_verify_at E l authority now_ms = Ok ()"
    using assms by (auto simp: credential_verify_at_Some result_simps)
  ultimately show ?thesis
    by (auto simp: credential_verify_at_def Let_def result_simps authority_verify_ok)
qed

text \<open>A request made now is accepted by any authority whose clock is within its validity, or up
  to five minutes behind its creation, provided its lifetime is within the authority's policy.\<close>

theorem fresh_request_verifies:
  assumes "keys_ok E" and "request_new E nonce identity subject role key issued expires = Ok r" and "nonce \<noteq> 0"
    and "sint expires - sint issued \<le> sint limit"
    and "sint issued - sint CLOCK_SKEW_MS \<le> sint now_ms" and "sint now_ms < sint expires"
  shows "request_verify E r now_ms limit = Ok ()"
proof -
  from assms(2) obtain public where
    1: "validate_subject subject = Ok ()" "validate_time_range issued expires = Ok ()" "key \<noteq> 0"
    "secret_public E identity = Ok public"
    "rq_body r = \<lparr>rq_version = CREDENTIAL_VERSION, rq_subject = subject, rq_role = role,
        rq_noise_static_key = key, rq_identity = public, rq_nonce = nonce,
        rq_issued_at_ms = issued, rq_expires_at_ms = expires\<rparr>"
    "sign E (request_body_codec E) identity REQUEST_DOMAIN (rq_body r) = Ok (rq_signature r)"
    by (auto simp: request_new_def Let_def result_simps)
  have "verify E (request_body_codec E) public REQUEST_DOMAIN (rq_body r) (rq_signature r) = Ok ()"
    by (rule verify_sign [OF assms(1) 1(4,6)])
  moreover have "sint issued \<le> sint (saturating_add_i64 now_ms CLOCK_SKEW_MS)"
    using assms(5) sint_i64_bounds [of issued] by (auto simp: sint_saturating_add_i64)
  ultimately show ?thesis
    using 1(1-3,5) assms(3,4,6) by (simp add: request_verify_ok)
qed

text \<open>The authority created in a private-key file is the one loaded from it, and it signs for the
  public value that was handed out.\<close>

theorem created_authority_loads:
  assumes "postcard_ok (authority_key_codec E)" and "generated \<noteq> 0"
    and "create_certificate_authority E generated (Inr ()) = Ok (public, file)" and "is_ok (authority_id E public)"
  shows "\<exists>ca. load_certificate_authority E (Inr file) = Ok ca \<and> authority_public E ca = public \<and>
    ca_signing_secret ca = generated"
proof -
  from assms(3) obtain payload where
    1: "to_stdvec (authority_key_codec E) (CREDENTIAL_VERSION, generated) = Some payload"
    "file = AUTHORITY_FILE_MAGIC @ payload" "public = authority_public E \<lparr>ca_signing_secret = generated\<rparr>"
    by (auto simp: create_certificate_authority_def authority_secret_encode_def Let_def result_simps)
  from assms(4) obtain i where "authority_id E public = Ok i" by (auto simp: is_ok_iff)
  with 1 postcard_okD_exact [OF assms(1) 1(1)] assms(2) show ?thesis
    by (simp add: load_certificate_authority_def authority_secret_decode_def)
qed

section \<open>A concrete authority\<close>

definition example_credential_env :: credential_env where
  "example_credential_env = envelope_env.extend example_envelope_env
     \<lparr>authority_codec = tag_postcard [10], authority_key_codec = single_postcard (1, 7) [11],
      request_body_codec = tag_postcard [12], request_codec = tag_postcard [13],
      credential_body_codec = tag_postcard [14], credential_codec = tag_postcard [15],
      revocation_body_codec = tag_postcard [16], revocation_codec = tag_postcard [17]\<rparr>"

lemmas example_credential_defs =
  example_credential_env_def envelope_env.extend_def envelope_env.defs example_envelope_defs

definition example_authority :: certificate_authority_secret where
  "example_authority = \<lparr>ca_signing_secret = 7\<rparr>"

lemma example_credential_env_ok: "keys_ok example_credential_env" "signatures_ok example_credential_env"
  "postcard_ok (authority_key_codec example_credential_env)"
  by (auto simp: keys_ok_def signatures_ok_def example_credential_defs postcard_ok_def)

lemma example_credential_fields:
  "sha256 example_credential_env bs = of_nat (length bs)"
  "ed_sign example_credential_env sk m = replicate 64 (ucast sk)"
  "secret_public example_credential_env example_secret = Ok example_public"
  "to_stdvec (request_body_codec example_credential_env) b = Some [12]"
  "to_stdvec (request_codec example_credential_env) r = Some [13]"
  "to_stdvec (credential_body_codec example_credential_env) cb = Some [14]"
  "to_stdvec (revocation_body_codec example_credential_env) rb = Some [16]"
  "to_stdvec (authority_codec example_credential_env) a = Some [10]"
  "ed_key_ok example_credential_env k"
  "to_stdvec (authority_key_codec example_credential_env) (1, 7) = Some [11]"
  by (simp_all add: secret_public_def example_credential_defs example_secret_def example_public_def
      IDENTITY_VERSION_def)

lemma example_request: "is_ok (request_new example_credential_env 5 example_secret [120] RolePublisher 11 0 1000)"
  by (simp add: request_new_def validate_subject_def validate_time_range_def checked_sub_i64_def
      MAX_CREDENTIAL_LIFETIME_MS_def MAX_CREDENTIAL_SUBJECT_LEN_def str_len_def str_trim_def is_control_def
      is_whitespace_def utf8_width_def example_credential_fields sign_def signing_digest_def canonical_def
      REQUEST_DOMAIN_def ascii_bytes_def Let_def)

lemma example_request_exists:
  obtains r where "request_new example_credential_env 5 example_secret [120] RolePublisher 11 0 1000 = Ok r"
    "rq_role (rq_body r) = RolePublisher" "rq_noise_static_key (rq_body r) = 11"
proof -
  from example_request obtain r where
    "request_new example_credential_env 5 example_secret [120] RolePublisher 11 0 1000 = Ok r"
    by (auto simp: is_ok_iff)
  moreover from this have "rq_role (rq_body r) = RolePublisher" "rq_noise_static_key (rq_body r) = 11"
    by (auto simp: request_new_def Let_def result_simps)
  ultimately show thesis by (rule that)
qed

theorem fresh_request_verifies_witness:
  "\<exists>r. request_new example_credential_env 5 example_secret [120] RolePublisher 11 0 1000 = Ok r \<and>
     request_verify example_credential_env r 10 2000 = Ok ()"
proof -
  obtain r where r: "request_new example_credential_env 5 example_secret [120] RolePublisher 11 0 1000 = Ok r"
    by (rule example_request_exists)
  from fresh_request_verifies [OF example_credential_env_ok(1) r, of 2000 10] r show ?thesis
    by (auto simp: CLOCK_SKEW_MS_def)
qed

lemma example_issue:
  assumes "request_verify example_credential_env r 10 2000 = Ok ()"
  obtains c where "issue example_credential_env 77 example_authority r 10 5000 2000 = Ok c"
    "cr_serial (cr_body c) = 77"
proof -
  have "is_ok (issue example_credential_env 77 example_authority r 10 5000 2000)"
    using assms by (simp add: issue_def validate_time_range_def checked_sub_i64_def MAX_CREDENTIAL_LIFETIME_MS_def
        authority_id_def authority_public_def example_credential_fields request_id_def authority_sign_def
        signing_digest_def canonical_def CREDENTIAL_DOMAIN_def ascii_bytes_def Let_def)
  then obtain c where c: "issue example_credential_env 77 example_authority r 10 5000 2000 = Ok c"
    by (auto simp: is_ok_iff)
  then have "cr_serial (cr_body c) = 77" by (rule issue_ok) simp
  with c show thesis by (rule that)
qed

lemma example_issued:
  obtains r c where "issue example_credential_env 77 example_authority r 10 5000 2000 = Ok c"
    "rq_role (rq_body r) = RolePublisher" "rq_noise_static_key (rq_body r) = 11" "cr_serial (cr_body c) = 77"
    "request_id example_credential_env r \<noteq> Ok 0"
proof -
  obtain r where r: "request_new example_credential_env 5 example_secret [120] RolePublisher 11 0 1000 = Ok r"
    "rq_role (rq_body r) = RolePublisher" "rq_noise_static_key (rq_body r) = 11"
    by (rule example_request_exists)
  from r(1) have body: "rq_version (rq_body r) = CREDENTIAL_VERSION" "validate_subject (rq_subject (rq_body r)) = Ok ()"
    "rq_nonce (rq_body r) = 5" "rq_issued_at_ms (rq_body r) = 0" "rq_expires_at_ms (rq_body r) = 1000"
    "rq_identity (rq_body r) = example_public"
    "sign example_credential_env (request_body_codec example_credential_env) example_secret REQUEST_DOMAIN
       (rq_body r) = Ok (rq_signature r)"
    by (auto simp: request_new_def Let_def result_simps example_credential_fields)
  have "request_verify example_credential_env r 10 2000 = Ok ()"
    using body r(3) verify_sign [OF example_credential_env_ok(1) example_credential_fields(3) body(7)]
    by (simp add: request_verify_ok validate_time_range_ok MAX_CREDENTIAL_LIFETIME_MS_def
        sint_saturating_add_i64 CLOCK_SKEW_MS_def)
  then obtain c where "issue example_credential_env 77 example_authority r 10 5000 2000 = Ok c"
    "cr_serial (cr_body c) = 77" by (rule example_issue)
  moreover have "request_id example_credential_env r \<noteq> Ok 0"
    by (simp add: request_id_def example_credential_fields)
  ultimately show thesis using r by (intro that)
qed

theorem issued_credential_verdict_witness:
  "\<exists>r c. issue example_credential_env 77 example_authority r 10 5000 2000 = Ok c \<and>
     credential_verify_at example_credential_env c (authority_public example_credential_env example_authority) None
       RolePublisher 11 100 = Ok () \<and>
     credential_verify_at example_credential_env c (authority_public example_credential_env example_authority) None
       RoleViewer 11 100 = Err WrongRole"
proof -
  obtain r c where c: "issue example_credential_env 77 example_authority r 10 5000 2000 = Ok c"
    "rq_role (rq_body r) = RolePublisher" "rq_noise_static_key (rq_body r) = 11"
    "request_id example_credential_env r \<noteq> Ok 0" by (rule example_issued)
  from issued_credential_verdict [OF example_credential_env_ok(2) c(1) _ c(4)] c show ?thesis by fastforce
qed

lemma example_revocations:
  "is_ok (sign_revocations example_credential_env example_authority 0 1000 [80, 77])"
  by (simp add: sign_revocations_def validate_time_range_def checked_sub_i64_def MAX_CREDENTIAL_LIFETIME_MS_def
      MAX_REVOKED_SERIALS_def authority_id_def authority_public_def example_credential_fields authority_sign_def
      signing_digest_def canonical_def REVOCATION_DOMAIN_def ascii_bytes_def Let_def)

lemma example_accepted:
  obtains c where "cr_serial (cr_body c) = 77"
    "credential_verify_at example_credential_env c (authority_public example_credential_env example_authority) None
       RolePublisher 11 100 = Ok ()"
    "cr_not_after_ms (cr_body c) = 5000"
proof -
  obtain r c where c: "issue example_credential_env 77 example_authority r 10 5000 2000 = Ok c"
    "rq_role (rq_body r) = RolePublisher" "rq_noise_static_key (rq_body r) = 11" "cr_serial (cr_body c) = 77"
    "request_id example_credential_env r \<noteq> Ok 0" by (rule example_issued)
  from c(1) obtain issuer rid where
    1: "request_verify example_credential_env r 10 2000 = Ok ()" "validate_time_range 10 5000 = Ok ()"
    "authority_id example_credential_env (authority_public example_credential_env example_authority) = Ok issuer"
    "request_id example_credential_env r = Ok rid"
    "cr_body c = \<lparr>cr_version = CREDENTIAL_VERSION, cr_issuer_id = issuer, cr_serial = 77,
        cr_request_id = rid, cr_subject = rq_subject (rq_body r), cr_role = rq_role (rq_body r),
        cr_not_before_ms = 10, cr_not_after_ms = 5000,
        cr_noise_static_key = rq_noise_static_key (rq_body r), cr_identity = rq_identity (rq_body r)\<rparr>"
    "authority_sign example_credential_env (credential_body_codec example_credential_env) example_authority
       CREDENTIAL_DOMAIN (cr_body c) = Ok (cr_signature c)"
    by (rule issue_ok)
  have "credential_verify_at example_credential_env c (authority_public example_credential_env example_authority) None
       RolePublisher 11 100 = Ok ()"
    using 1 c authority_verify_sign [OF example_credential_env_ok(2) 1(3,6)]
    by (simp add: credential_verify_at_def Let_def request_verify_ok verify_ok)
  with c(4) show thesis by (rule that) (simp add: 1(5))
qed

theorem revocation_verdict_witness:
  "\<exists>c l. sign_revocations example_credential_env example_authority 0 1000 [80, 77] = Ok l \<and>
     credential_verify_at example_credential_env c (authority_public example_credential_env example_authority) None
       RolePublisher 11 100 = Ok () \<and>
     credential_verify_at example_credential_env c (authority_public example_credential_env example_authority) (Some l)
       RolePublisher 11 100 = Err Revoked"
proof -
  from example_revocations obtain l where
    l: "sign_revocations example_credential_env example_authority 0 1000 [80, 77] = Ok l"
    by (auto simp: is_ok_iff)
  obtain c where c: "cr_serial (cr_body c) = 77"
    "credential_verify_at example_credential_env c (authority_public example_credential_env example_authority) None
       RolePublisher 11 100 = Ok ()" by (rule example_accepted)
  with revocation_verdict [OF example_credential_env_ok(2) l, of c RolePublisher 11 100] l show ?thesis by auto
qed

theorem accepted_credential_authentic_witness:
  "\<exists>c. credential_verify_at example_credential_env c (authority_public example_credential_env example_authority) None
       RolePublisher 11 100 = Ok () \<and> cr_role (cr_body c) = RolePublisher \<and> cr_noise_static_key (cr_body c) = 11"
proof -
  obtain c where c: "credential_verify_at example_credential_env c
       (authority_public example_credential_env example_authority) None RolePublisher 11 100 = Ok ()"
    by (rule example_accepted)
  from accepted_credential_authentic [OF c] c show ?thesis by blast
qed

theorem created_authority_loads_witness:
  "\<exists>public file ca. create_certificate_authority example_credential_env 7 (Inr ()) = Ok (public, file) \<and>
     load_certificate_authority example_credential_env (Inr file) = Ok ca \<and>
     authority_public example_credential_env ca = public"
proof -
  let ?public = "authority_public example_credential_env \<lparr>ca_signing_secret = 7\<rparr>"
  have made: "create_certificate_authority example_credential_env 7 (Inr ())
      = Ok (?public, AUTHORITY_FILE_MAGIC @ [11])"
    by (simp add: create_certificate_authority_def authority_secret_encode_def CREDENTIAL_VERSION_def
        example_credential_fields Let_def)
  have "is_ok (authority_id example_credential_env ?public)"
    by (simp add: authority_id_def authority_public_def example_credential_fields)
  from created_authority_loads [OF example_credential_env_ok(3) _ made this] made show ?thesis by fastforce
qed

end
