(* ===== verification/Pairing.thy ===== *)
theory Pairing
  imports Credential
begin

text \<open>
  \<^verbatim>\<open>crates/protocol/src/pairing.rs\<close> and \<^verbatim>\<open>auth_words.rs\<close>: the two-sided pairing ceremony.  A viewer
  signs a request, the publisher answers with a signed offer, both compare an authentication
  string derived from the transcript, the viewer signs a confirmation and the publisher a decision.

  Random nonces are arguments, and so is the text of the bundled word list.
\<close>

section \<open>Constants and errors\<close>

definition PROTOCOL_VERSION :: u16 where
  "PROTOCOL_VERSION = 9"

definition PAIRING_VERSION :: u16 where
  "PAIRING_VERSION = 2"

definition MAX_PAIRING_MESSAGE_LEN :: nat where
  "MAX_PAIRING_MESSAGE_LEN = 32 * 1024"

definition MAX_DEVICE_LABEL_LEN :: nat where
  "MAX_DEVICE_LABEL_LEN = 128"

definition PAIR_REQUEST_DOMAIN :: bytes where
  "PAIR_REQUEST_DOMAIN = ascii_bytes ''glacialcast-pair-request-v2''"

definition OFFER_DOMAIN :: bytes where
  "OFFER_DOMAIN = ascii_bytes ''glacialcast-pair-offer-v2''"

definition CONFIRM_DOMAIN :: bytes where
  "CONFIRM_DOMAIN = ascii_bytes ''glacialcast-pair-viewer-confirm-v2''"

definition DECISION_DOMAIN :: bytes where
  "DECISION_DOMAIN = ascii_bytes ''glacialcast-pair-publisher-decision-v2''"

definition TRANSCRIPT_DOMAIN :: bytes where
  "TRANSCRIPT_DOMAIN = ascii_bytes ''glacialcast-pair-transcript-v2''"

definition REQUEST_ID_DOMAIN :: bytes where
  "REQUEST_ID_DOMAIN = ascii_bytes ''glacialcast-pair-request-id-v2''"

definition PAIRING_CLOCK_SKEW_MS :: i64 where
  "PAIRING_CLOCK_SKEW_MS = 5 * 60 * 1000"

datatype pairing_error =
    PairingUnsupportedVersion
  | PairingInvalidMetadata string
  | PairingInvalidSignature
  | PairingNotYetValid
  | PairingExpired
  | TranscriptMismatch
  | PairingPostcard
  | PairingIdentity identity_error

section \<open>Data\<close>

record pair_request_body =
  pr_version :: u16
  pr_protocol_version :: u16
  pr_publisher :: identity_public
  pr_stream_id :: uuid
  pr_viewer :: identity_public
  pr_viewer_credential :: "native_credential option"
  pr_device_label :: rust_str
  pr_nonce :: array32
  pr_issued_at_ms :: i64
  pr_expires_at_ms :: i64

record pair_request =
  pr_body :: pair_request_body
  pr_signature :: signature_bytes

record pair_offer_body =
  po_version :: u16
  po_request_id :: array32
  po_publisher :: identity_public
  po_viewer_id :: array32
  po_nonce :: array32
  po_relay_context :: array32
  po_issued_at_ms :: i64
  po_expires_at_ms :: i64

record pair_offer =
  po_body :: pair_offer_body
  po_signature :: signature_bytes

record pair_transcript =
  pt_protocol_version :: u16
  pt_request :: pair_request
  pt_offer :: pair_offer

record viewer_confirmation_body =
  vc_version :: u16
  vc_request_id :: array32
  vc_transcript_hash :: array32
  vc_viewer_id :: array32
  vc_confirmed_at_ms :: i64

record viewer_confirmation =
  vc_body :: viewer_confirmation_body
  vc_signature :: signature_bytes

datatype pair_decision_reason = ManualVerified | TrustedViewerCa | OpenPolicy | Rejected

record publisher_decision_body =
  pd_version :: u16
  pd_request_id :: array32
  pd_viewer_id :: array32
  pd_stream_id :: uuid
  pd_transcript_hash :: array32
  pd_approved :: bool
  pd_reason :: pair_decision_reason
  pd_decided_at_ms :: i64

record publisher_decision =
  pd_body :: publisher_decision_body
  pd_signature :: signature_bytes

record pairing_env = credential_env +
  pair_request_body_codec :: "pair_request_body postcard"
  pair_request_codec :: "pair_request postcard"
  pair_offer_body_codec :: "pair_offer_body postcard"
  transcript_codec :: "pair_transcript postcard"
  confirmation_body_codec :: "viewer_confirmation_body postcard"
  decision_body_codec :: "publisher_decision_body postcard"

section \<open>Shared helpers\<close>

definition validate_time :: "i64 \<Rightarrow> i64 \<Rightarrow> i64 \<Rightarrow> i64 \<Rightarrow> pairing_error + unit" where
  "validate_time issued_at_ms expires_at_ms now_ms max_lifetime_ms =
     and_then (ok_or (checked_sub_i64 expires_at_ms issued_at_ms)
                 (PairingInvalidMetadata ''pairing time range overflows'')) (\<lambda>lifetime.
       if sint lifetime \<le> 0 \<or> sint max_lifetime_ms \<le> 0 \<or> sint lifetime > sint max_lifetime_ms
       then Err (PairingInvalidMetadata ''pairing lifetime exceeds policy'')
       else if sint issued_at_ms > sint (saturating_add_i64 now_ms PAIRING_CLOCK_SKEW_MS)
       then Err PairingNotYetValid
       else if sint expires_at_ms \<le> sint now_ms then Err PairingExpired
       else Ok ())"

definition validate_device_label :: "rust_str \<Rightarrow> pairing_error + unit" where
  "validate_device_label label =
     (if label = [] \<or> str_len label > MAX_DEVICE_LABEL_LEN \<or> str_trim label \<noteq> label \<or> list_ex is_control label
      then Err (PairingInvalidMetadata ''invalid device label'') else Ok ())"

definition map_signature :: "identity_error \<Rightarrow> pairing_error" where
  "map_signature e = (case e of InvalidSignature \<Rightarrow> PairingInvalidSignature | other \<Rightarrow> PairingIdentity other)"

definition domain_hash :: "'z crypto_scheme \<Rightarrow> 'a postcard \<Rightarrow> bytes \<Rightarrow> 'a \<Rightarrow> pairing_error + array32" where
  "domain_hash E c domain v =
     and_then (ok_or (to_stdvec c v) PairingPostcard) (\<lambda>encoded.
       Ok (sha256 E (domain @ to_be_bytes 8 (of_nat (length encoded) :: u64) @ encoded)))"

definition encode_bounded :: "'a postcard \<Rightarrow> 'a \<Rightarrow> pairing_error + bytes" where
  "encode_bounded c v =
     and_then (ok_or (to_stdvec c v) PairingPostcard) (\<lambda>encoded.
       if length encoded > MAX_PAIRING_MESSAGE_LEN then Err (PairingInvalidMetadata ''pairing message too large'')
       else Ok encoded)"

definition decode_bounded :: "'a postcard \<Rightarrow> bytes \<Rightarrow> pairing_error + 'a" where
  "decode_bounded c bs =
     (if length bs > MAX_PAIRING_MESSAGE_LEN then Err (PairingInvalidMetadata ''pairing message too large'')
      else and_then (ok_or (take_from_bytes c bs) PairingPostcard) (\<lambda>(v, remainder).
        if remainder \<noteq> [] then Err (PairingInvalidMetadata ''trailing or noncanonical pairing data'')
        else and_then (ok_or (to_stdvec c v) PairingPostcard) (\<lambda>encoded.
          if encoded \<noteq> bs then Err (PairingInvalidMetadata ''trailing or noncanonical pairing data'')
          else Ok v)))"

text \<open>An identity fingerprint, its errors lifted as the source's \<^verbatim>\<open>?\<close> does.\<close>

definition fingerprint :: "'z identity_env_scheme \<Rightarrow> identity_public \<Rightarrow> pairing_error + array32" where
  "fingerprint E i = map_err PairingIdentity (identity_id E i)"

section \<open>Requests\<close>

definition validate_request_metadata :: "'z pairing_env_scheme \<Rightarrow> pair_request_body \<Rightarrow> pairing_error + unit" where
  "validate_request_metadata E b =
     (if pr_version b \<noteq> PAIRING_VERSION \<or> pr_protocol_version b \<noteq> PROTOCOL_VERSION
      then Err PairingUnsupportedVersion
      else and_then (map_err PairingIdentity (identity_validate E (pr_publisher b))) (\<lambda>_.
      and_then (map_err PairingIdentity (identity_validate E (pr_viewer b))) (\<lambda>_.
      if is_nil (pr_stream_id b) then Err (PairingInvalidMetadata ''nil requested stream'')
      else if (case pr_viewer_credential b of
                 Some c \<Rightarrow> cr_role (cr_body c) \<noteq> RoleViewer \<or> cr_identity (cr_body c) \<noteq> pr_viewer b
               | None \<Rightarrow> False)
      then Err (PairingInvalidMetadata ''viewer credential does not match requesting identity'')
      else and_then (validate_device_label (pr_device_label b)) (\<lambda>_.
      if pr_nonce b = 0 then Err (PairingInvalidMetadata ''zero request nonce'')
      else if sint (pr_expires_at_ms b) \<le> sint (pr_issued_at_ms b)
      then Err (PairingInvalidMetadata ''invalid request time range'')
      else Ok ()))))"

definition pair_request_new_with_credential ::
  "'z pairing_env_scheme \<Rightarrow> array32 \<Rightarrow> identity_secret \<Rightarrow> identity_public \<Rightarrow> uuid \<Rightarrow> rust_str
    \<Rightarrow> native_credential option \<Rightarrow> i64 \<Rightarrow> i64 \<Rightarrow> pairing_error + pair_request" where
  "pair_request_new_with_credential E nonce viewer publisher stream label credential issued expires =
     and_then (validate_device_label label) (\<lambda>_.
     and_then (map_err PairingIdentity (identity_validate E publisher)) (\<lambda>_.
     and_then (map_err PairingIdentity (secret_public E viewer)) (\<lambda>public.
       let body = \<lparr>pr_version = PAIRING_VERSION, pr_protocol_version = PROTOCOL_VERSION,
                   pr_publisher = publisher, pr_stream_id = stream, pr_viewer = public,
                   pr_viewer_credential = credential, pr_device_label = label, pr_nonce = nonce,
                   pr_issued_at_ms = issued, pr_expires_at_ms = expires\<rparr>
       in and_then (validate_request_metadata E body) (\<lambda>_.
          and_then (map_err PairingIdentity (sign E (pair_request_body_codec E) viewer PAIR_REQUEST_DOMAIN body))
            (\<lambda>signature. Ok \<lparr>pr_body = body, pr_signature = signature\<rparr>)))))"

definition pair_request_new ::
  "'z pairing_env_scheme \<Rightarrow> array32 \<Rightarrow> identity_secret \<Rightarrow> identity_public \<Rightarrow> uuid \<Rightarrow> rust_str \<Rightarrow> i64 \<Rightarrow> i64
    \<Rightarrow> pairing_error + pair_request" where
  "pair_request_new E nonce viewer publisher stream label issued expires =
     pair_request_new_with_credential E nonce viewer publisher stream label None issued expires"

definition pair_request_verify ::
  "'z pairing_env_scheme \<Rightarrow> pair_request \<Rightarrow> i64 \<Rightarrow> i64 \<Rightarrow> pairing_error + unit" where
  "pair_request_verify E r now_ms max_lifetime_ms =
     and_then (validate_request_metadata E (pr_body r)) (\<lambda>_.
     and_then (validate_time (pr_issued_at_ms (pr_body r)) (pr_expires_at_ms (pr_body r)) now_ms max_lifetime_ms)
       (\<lambda>_. map_err map_signature
          (verify E (pair_request_body_codec E) (pr_viewer (pr_body r)) PAIR_REQUEST_DOMAIN (pr_body r)
             (pr_signature r))))"

definition pair_request_id :: "'z pairing_env_scheme \<Rightarrow> pair_request \<Rightarrow> pairing_error + array32" where
  "pair_request_id E r = domain_hash E (pair_request_codec E) REQUEST_ID_DOMAIN r"

definition pair_request_encode :: "'z pairing_env_scheme \<Rightarrow> pair_request \<Rightarrow> pairing_error + bytes" where
  "pair_request_encode E r =
     and_then (validate_request_metadata E (pr_body r)) (\<lambda>_. encode_bounded (pair_request_codec E) r)"

definition pair_request_decode :: "'z pairing_env_scheme \<Rightarrow> bytes \<Rightarrow> pairing_error + pair_request" where
  "pair_request_decode E bs =
     and_then (decode_bounded (pair_request_codec E) bs) (\<lambda>r.
       and_then (validate_request_metadata E (pr_body r)) (\<lambda>_. Ok r))"

section \<open>Offers\<close>

definition validate_offer_metadata :: "'z pairing_env_scheme \<Rightarrow> pair_offer_body \<Rightarrow> pairing_error + unit" where
  "validate_offer_metadata E b =
     (if po_version b \<noteq> PAIRING_VERSION then Err PairingUnsupportedVersion
      else and_then (map_err PairingIdentity (identity_validate E (po_publisher b))) (\<lambda>_.
        if po_request_id b = 0 \<or> po_viewer_id b = 0 \<or> po_nonce b = 0 \<or> po_relay_context b = 0 \<or>
           sint (po_expires_at_ms b) \<le> sint (po_issued_at_ms b)
        then Err (PairingInvalidMetadata ''invalid offer metadata'') else Ok ()))"

definition pair_offer_new ::
  "'z pairing_env_scheme \<Rightarrow> array32 \<Rightarrow> identity_secret \<Rightarrow> pair_request \<Rightarrow> array32 \<Rightarrow> i64 \<Rightarrow> i64 \<Rightarrow> i64
    \<Rightarrow> pairing_error + pair_offer" where
  "pair_offer_new E nonce publisher request relay_context issued expires max_request_lifetime_ms =
     and_then (pair_request_verify E request issued max_request_lifetime_ms) (\<lambda>_.
     and_then (map_err PairingIdentity (secret_public E publisher)) (\<lambda>public.
       if public \<noteq> pr_publisher (pr_body request) \<or> relay_context = 0 then Err TranscriptMismatch
       else and_then (pair_request_id E request) (\<lambda>rid.
       and_then (fingerprint E (pr_viewer (pr_body request))) (\<lambda>vid.
         let body = \<lparr>po_version = PAIRING_VERSION, po_request_id = rid, po_publisher = public,
                     po_viewer_id = vid, po_nonce = nonce, po_relay_context = relay_context,
                     po_issued_at_ms = issued, po_expires_at_ms = expires\<rparr>
         in and_then (validate_offer_metadata E body) (\<lambda>_.
            and_then (map_err PairingIdentity (sign E (pair_offer_body_codec E) publisher OFFER_DOMAIN body))
              (\<lambda>signature. Ok \<lparr>po_body = body, po_signature = signature\<rparr>))))))"

text \<open>The offer answers exactly this request; the checks stop at the first mismatch.\<close>

definition check_offer_request :: "'z pairing_env_scheme \<Rightarrow> pair_request \<Rightarrow> pair_offer \<Rightarrow> pairing_error + unit" where
  "check_offer_request E request offer =
     and_then (pair_request_id E request) (\<lambda>rid.
       if po_request_id (po_body offer) \<noteq> rid \<or> po_publisher (po_body offer) \<noteq> pr_publisher (pr_body request)
       then Err TranscriptMismatch
       else and_then (fingerprint E (pr_viewer (pr_body request))) (\<lambda>vid.
         if po_viewer_id (po_body offer) \<noteq> vid then Err TranscriptMismatch else Ok ()))"

definition pair_offer_verify ::
  "'z pairing_env_scheme \<Rightarrow> pair_offer \<Rightarrow> pair_request \<Rightarrow> i64 \<Rightarrow> i64 \<Rightarrow> pairing_error + unit" where
  "pair_offer_verify E offer request now_ms max_lifetime_ms =
     and_then (validate_offer_metadata E (po_body offer)) (\<lambda>_.
     and_then (pair_request_verify E request now_ms max_lifetime_ms) (\<lambda>_.
     and_then (validate_time (po_issued_at_ms (po_body offer)) (po_expires_at_ms (po_body offer)) now_ms
                 max_lifetime_ms) (\<lambda>_.
     and_then (check_offer_request E request offer) (\<lambda>_.
       map_err map_signature
         (verify E (pair_offer_body_codec E) (po_publisher (po_body offer)) OFFER_DOMAIN (po_body offer)
            (po_signature offer))))))"

section \<open>The transcript\<close>

definition transcript_hash :: "'z pairing_env_scheme \<Rightarrow> pair_request \<Rightarrow> pair_offer \<Rightarrow> pairing_error + array32" where
  "transcript_hash E request offer =
     and_then (validate_request_metadata E (pr_body request)) (\<lambda>_.
     and_then (validate_offer_metadata E (po_body offer)) (\<lambda>_.
     and_then (check_offer_request E request offer) (\<lambda>_.
       domain_hash E (transcript_codec E) TRANSCRIPT_DOMAIN
         \<lparr>pt_protocol_version = PROTOCOL_VERSION, pt_request = request, pt_offer = offer\<rparr>)))"

text \<open>\<^verbatim>\<open>str::lines\<close> of the bundled word list, without the empty lines; any other count panics.\<close>

definition WORDLIST_LEN :: nat where
  "WORDLIST_LEN = 1024"

fun split_lines :: "rust_str \<Rightarrow> rust_str \<Rightarrow> rust_str list" where
  "split_lines acc [] = (if acc = [] then [] else [rev acc])"
| "split_lines acc (c # cs) =
     (if c = 10 then rev (if acc \<noteq> [] \<and> hd acc = 13 then tl acc else acc) # split_lines [] cs
      else split_lines (c # acc) cs)"

definition wordlist :: "rust_str \<Rightarrow> rust_str list option" where
  "wordlist source =
     (let words = filter (\<lambda>l. l \<noteq> []) (split_lines [] source)
      in if length words = WORDLIST_LEN then Some words else None)"

definition two_digits :: "u16 \<Rightarrow> rust_str" where
  "two_digits n = [48 + unat n div 10, 48 + unat n mod 10]"

definition authentication_string ::
  "'z pairing_env_scheme \<Rightarrow> rust_str list \<Rightarrow> pair_request \<Rightarrow> pair_offer \<Rightarrow> pairing_error + rust_str" where
  "authentication_string E words request offer =
     and_then (transcript_hash E request offer) (\<lambda>hash.
       let bs = to_be_bytes 32 hash;
           bits = (from_be_bytes (take 4 bs) :: u32);
           word = (\<lambda>shift. words ! unat ((drop_bit shift bits) AND 0x3ff));
           digits = (from_be_bytes [bs ! 4, bs ! 5] :: u16) mod 100
       in Ok (word 22 @ lit ''-'' @ word 12 @ lit ''-'' @ word 2 @ lit '' '' @ two_digits digits))"

section \<open>Confirmations\<close>

definition confirmation_approve ::
  "'z pairing_env_scheme \<Rightarrow> identity_secret \<Rightarrow> pair_request \<Rightarrow> pair_offer \<Rightarrow> i64 \<Rightarrow> pairing_error + viewer_confirmation" where
  "confirmation_approve E viewer request offer confirmed_at_ms =
     and_then (map_err PairingIdentity (secret_public E viewer)) (\<lambda>public.
     and_then (fingerprint E public) (\<lambda>viewer_id.
     and_then (fingerprint E (pr_viewer (pr_body request))) (\<lambda>vid.
       if viewer_id \<noteq> vid then Err TranscriptMismatch
       else and_then (pair_request_id E request) (\<lambda>rid.
       and_then (transcript_hash E request offer) (\<lambda>hash.
         let body = \<lparr>vc_version = PAIRING_VERSION, vc_request_id = rid, vc_transcript_hash = hash,
                     vc_viewer_id = viewer_id, vc_confirmed_at_ms = confirmed_at_ms\<rparr>
         in and_then (map_err PairingIdentity (sign E (confirmation_body_codec E) viewer CONFIRM_DOMAIN body))
              (\<lambda>signature. Ok \<lparr>vc_body = body, vc_signature = signature\<rparr>))))))"

definition confirmation_verify ::
  "'z pairing_env_scheme \<Rightarrow> viewer_confirmation \<Rightarrow> pair_request \<Rightarrow> pair_offer \<Rightarrow> pairing_error + unit" where
  "confirmation_verify E c request offer =
     (if vc_version (vc_body c) \<noteq> PAIRING_VERSION then Err TranscriptMismatch
      else and_then (pair_request_id E request) (\<lambda>rid.
      if vc_request_id (vc_body c) \<noteq> rid then Err TranscriptMismatch
      else and_then (transcript_hash E request offer) (\<lambda>hash.
      if vc_transcript_hash (vc_body c) \<noteq> hash then Err TranscriptMismatch
      else and_then (fingerprint E (pr_viewer (pr_body request))) (\<lambda>vid.
      if vc_viewer_id (vc_body c) \<noteq> vid then Err TranscriptMismatch
      else map_err map_signature
             (verify E (confirmation_body_codec E) (pr_viewer (pr_body request)) CONFIRM_DOMAIN (vc_body c)
                (vc_signature c))))))"

section \<open>Decisions\<close>

definition validate_decision :: "publisher_decision_body \<Rightarrow> pairing_error + unit" where
  "validate_decision b =
     (if pd_version b \<noteq> PAIRING_VERSION \<or> pd_request_id b = 0 \<or> pd_viewer_id b = 0 \<or> is_nil (pd_stream_id b)
      then Err (PairingInvalidMetadata ''invalid decision metadata'')
      else (case (pd_approved b, pd_reason b, pd_transcript_hash b = 0) of
              (True, ManualVerified, False) \<Rightarrow> Ok ()
            | (True, TrustedViewerCa, True) \<Rightarrow> Ok ()
            | (True, OpenPolicy, True) \<Rightarrow> Ok ()
            | (False, Rejected, True) \<Rightarrow> Ok ()
            | _ \<Rightarrow> Err (PairingInvalidMetadata ''decision reason does not match approval state'')))"

definition decision_sign ::
  "'z pairing_env_scheme \<Rightarrow> identity_secret \<Rightarrow> publisher_decision_body \<Rightarrow> pairing_error + publisher_decision" where
  "decision_sign E publisher body =
     and_then (validate_decision body) (\<lambda>_.
     and_then (map_err PairingIdentity (sign E (decision_body_codec E) publisher DECISION_DOMAIN body))
       (\<lambda>signature. Ok \<lparr>pd_body = body, pd_signature = signature\<rparr>))"

definition decision_reject ::
  "'z pairing_env_scheme \<Rightarrow> identity_secret \<Rightarrow> pair_request \<Rightarrow> i64 \<Rightarrow> pairing_error + publisher_decision" where
  "decision_reject E publisher request decided_at_ms =
     and_then (map_err PairingIdentity (secret_public E publisher)) (\<lambda>public.
       if public \<noteq> pr_publisher (pr_body request) then Err TranscriptMismatch
       else and_then (pair_request_id E request) (\<lambda>rid.
       and_then (fingerprint E (pr_viewer (pr_body request))) (\<lambda>vid.
         decision_sign E publisher
           \<lparr>pd_version = PAIRING_VERSION, pd_request_id = rid, pd_viewer_id = vid,
            pd_stream_id = pr_stream_id (pr_body request), pd_transcript_hash = 0, pd_approved = False,
            pd_reason = Rejected, pd_decided_at_ms = decided_at_ms\<rparr>)))"

definition decision_approve_manual ::
  "'z pairing_env_scheme \<Rightarrow> identity_secret \<Rightarrow> pair_request \<Rightarrow> pair_offer \<Rightarrow> viewer_confirmation \<Rightarrow> i64
    \<Rightarrow> pairing_error + publisher_decision" where
  "decision_approve_manual E publisher request offer confirmation decided_at_ms =
     and_then (confirmation_verify E confirmation request offer) (\<lambda>_.
     and_then (map_err PairingIdentity (secret_public E publisher)) (\<lambda>public.
       if public \<noteq> pr_publisher (pr_body request) then Err TranscriptMismatch
       else and_then (pair_request_id E request) (\<lambda>rid.
       and_then (fingerprint E (pr_viewer (pr_body request))) (\<lambda>vid.
       and_then (transcript_hash E request offer) (\<lambda>hash.
         decision_sign E publisher
           \<lparr>pd_version = PAIRING_VERSION, pd_request_id = rid, pd_viewer_id = vid,
            pd_stream_id = pr_stream_id (pr_body request), pd_transcript_hash = hash, pd_approved = True,
            pd_reason = ManualVerified, pd_decided_at_ms = decided_at_ms\<rparr>)))))"

definition decision_approve_by_policy ::
  "'z pairing_env_scheme \<Rightarrow> identity_secret \<Rightarrow> pair_request \<Rightarrow> pair_decision_reason \<Rightarrow> i64
    \<Rightarrow> pairing_error + publisher_decision" where
  "decision_approve_by_policy E publisher request reason decided_at_ms =
     and_then (map_err PairingIdentity (secret_public E publisher)) (\<lambda>public.
       if public \<noteq> pr_publisher (pr_body request) then Err TranscriptMismatch
       else if reason \<noteq> TrustedViewerCa \<and> reason \<noteq> OpenPolicy
       then Err (PairingInvalidMetadata ''invalid automatic approval reason'')
       else and_then (pair_request_id E request) (\<lambda>rid.
       and_then (fingerprint E (pr_viewer (pr_body request))) (\<lambda>vid.
         decision_sign E publisher
           \<lparr>pd_version = PAIRING_VERSION, pd_request_id = rid, pd_viewer_id = vid,
            pd_stream_id = pr_stream_id (pr_body request), pd_transcript_hash = 0, pd_approved = True,
            pd_reason = reason, pd_decided_at_ms = decided_at_ms\<rparr>)))"

definition decision_verify ::
  "'z pairing_env_scheme \<Rightarrow> publisher_decision \<Rightarrow> pair_request \<Rightarrow> identity_public \<Rightarrow> pairing_error + unit" where
  "decision_verify E d request publisher =
     and_then (validate_decision (pd_body d)) (\<lambda>_.
       if publisher \<noteq> pr_publisher (pr_body request) then Err TranscriptMismatch
       else and_then (pair_request_id E request) (\<lambda>rid.
       if pd_request_id (pd_body d) \<noteq> rid then Err TranscriptMismatch
       else and_then (fingerprint E (pr_viewer (pr_body request))) (\<lambda>vid.
       if pd_viewer_id (pd_body d) \<noteq> vid \<or> pd_stream_id (pd_body d) \<noteq> pr_stream_id (pr_body request)
       then Err TranscriptMismatch
       else map_err map_signature
              (verify E (decision_body_codec E) publisher DECISION_DOMAIN (pd_body d) (pd_signature d)))))"

section \<open>Lemmas\<close>

lemma validate_time_eq:
  "validate_time issued expires now_ms limit =
     (if i64_MAX < sint expires - sint issued \<or> sint expires - sint issued < i64_MIN
      then Err (PairingInvalidMetadata ''pairing time range overflows'')
      else if sint expires \<le> sint issued \<or> sint limit < sint expires - sint issued
      then Err (PairingInvalidMetadata ''pairing lifetime exceeds policy'')
      else if sint now_ms + sint PAIRING_CLOCK_SKEW_MS < sint issued then Err PairingNotYetValid
      else if sint expires \<le> sint now_ms then Err PairingExpired
      else Ok ())"
proof (cases "checked_sub_i64 expires issued")
  case None
  then show ?thesis by (auto simp: validate_time_def checked_sub_i64_def Let_def split: if_splits)
next
  case (Some d)
  note sint_checked_sub_i64 [OF Some]
  moreover from Some have "i64_MIN \<le> sint expires - sint issued" "sint expires - sint issued \<le> i64_MAX"
    by (simp_all only: checked_sub_i64_Some)
  moreover have "sint (saturating_add_i64 now_ms PAIRING_CLOCK_SKEW_MS) < sint issued \<longleftrightarrow>
      sint now_ms + sint PAIRING_CLOCK_SKEW_MS < sint issued"
    using sint_i64_bounds [of issued] sint_i64_bounds [of now_ms]
    by (auto simp: sint_saturating_add_i64 PAIRING_CLOCK_SKEW_MS_def)
  ultimately show ?thesis using Some by (auto simp: validate_time_def)
qed

lemma verify_map_signature [result_simps]:
  "map_err map_signature (verify E c i domain v s) = Ok () \<longleftrightarrow> verify E c i domain v s = Ok ()"
  by (simp add: map_err_eq_Ok)

lemma pair_request_new_ok:
  assumes "pair_request_new_with_credential E nonce viewer publisher stream label credential issued expires = Ok r"
  obtains public where "secret_public E viewer = Ok public"
    "pr_body r = \<lparr>pr_version = PAIRING_VERSION, pr_protocol_version = PROTOCOL_VERSION,
        pr_publisher = publisher, pr_stream_id = stream, pr_viewer = public,
        pr_viewer_credential = credential, pr_device_label = label, pr_nonce = nonce,
        pr_issued_at_ms = issued, pr_expires_at_ms = expires\<rparr>"
    "validate_request_metadata E (pr_body r) = Ok ()"
    "sign E (pair_request_body_codec E) viewer PAIR_REQUEST_DOMAIN (pr_body r) = Ok (pr_signature r)"
  using assms that by (auto simp: pair_request_new_with_credential_def Let_def result_simps)

lemma pair_offer_new_ok:
  assumes "pair_offer_new E nonce publisher request context_hash issued expires limit = Ok offer"
  obtains rid vid where "pair_request_verify E request issued limit = Ok ()"
    "secret_public E publisher = Ok (pr_publisher (pr_body request))"
    "pair_request_id E request = Ok rid" "fingerprint E (pr_viewer (pr_body request)) = Ok vid"
    "po_body offer = \<lparr>po_version = PAIRING_VERSION, po_request_id = rid,
        po_publisher = pr_publisher (pr_body request), po_viewer_id = vid, po_nonce = nonce,
        po_relay_context = context_hash, po_issued_at_ms = issued, po_expires_at_ms = expires\<rparr>"
    "validate_offer_metadata E (po_body offer) = Ok ()"
    "sign E (pair_offer_body_codec E) publisher OFFER_DOMAIN (po_body offer) = Ok (po_signature offer)"
  using assms that by (auto simp: pair_offer_new_def Let_def result_simps)

lemma check_offer_request_ok:
  "check_offer_request E request offer = Ok () \<longleftrightarrow>
     pair_request_id E request = Ok (po_request_id (po_body offer)) \<and>
     po_publisher (po_body offer) = pr_publisher (pr_body request) \<and>
     fingerprint E (pr_viewer (pr_body request)) = Ok (po_viewer_id (po_body offer))"
  by (auto simp: check_offer_request_def result_simps)

lemma transcript_hash_ok:
  "transcript_hash E request offer = Ok hash \<longleftrightarrow>
     validate_request_metadata E (pr_body request) = Ok () \<and> validate_offer_metadata E (po_body offer) = Ok () \<and>
     check_offer_request E request offer = Ok () \<and>
     domain_hash E (transcript_codec E) TRANSCRIPT_DOMAIN
       \<lparr>pt_protocol_version = PROTOCOL_VERSION, pt_request = request, pt_offer = offer\<rparr> = Ok hash"
  by (auto simp: transcript_hash_def result_simps)

lemma confirmation_verify_ok:
  "confirmation_verify E c request offer = Ok () \<longleftrightarrow>
     vc_version (vc_body c) = PAIRING_VERSION \<and>
     pair_request_id E request = Ok (vc_request_id (vc_body c)) \<and>
     transcript_hash E request offer = Ok (vc_transcript_hash (vc_body c)) \<and>
     fingerprint E (pr_viewer (pr_body request)) = Ok (vc_viewer_id (vc_body c)) \<and>
     verify E (confirmation_body_codec E) (pr_viewer (pr_body request)) CONFIRM_DOMAIN (vc_body c)
       (vc_signature c) = Ok ()"
  by (auto simp: confirmation_verify_def result_simps)

lemma decision_verify_ok:
  "decision_verify E d request publisher = Ok () \<longleftrightarrow>
     validate_decision (pd_body d) = Ok () \<and> publisher = pr_publisher (pr_body request) \<and>
     pair_request_id E request = Ok (pd_request_id (pd_body d)) \<and>
     fingerprint E (pr_viewer (pr_body request)) = Ok (pd_viewer_id (pd_body d)) \<and>
     pd_stream_id (pd_body d) = pr_stream_id (pr_body request) \<and>
     verify E (decision_body_codec E) publisher DECISION_DOMAIN (pd_body d) (pd_signature d) = Ok ()"
  by (auto simp: decision_verify_def result_simps)

lemma validate_decision_ok:
  "validate_decision b = Ok () \<longleftrightarrow>
     pd_version b = PAIRING_VERSION \<and> pd_request_id b \<noteq> 0 \<and> pd_viewer_id b \<noteq> 0 \<and> \<not> is_nil (pd_stream_id b) \<and>
     (pd_approved b \<longleftrightarrow> pd_reason b \<noteq> Rejected) \<and> (pd_transcript_hash b = 0 \<longleftrightarrow> pd_reason b \<noteq> ManualVerified)"
  by (cases "pd_approved b"; cases "pd_reason b"; cases "pd_transcript_hash b = 0") (auto simp: validate_decision_def)

lemma decision_signed_verifies:
  assumes "keys_ok E" and "secret_public E publisher = Ok (pr_publisher (pr_body request))"
    and "decision_sign E publisher b = Ok d"
    and "pair_request_id E request = Ok (pd_request_id b)"
    and "fingerprint E (pr_viewer (pr_body request)) = Ok (pd_viewer_id b)"
    and "pd_stream_id b = pr_stream_id (pr_body request)"
  shows "decision_verify E d request (pr_publisher (pr_body request)) = Ok () \<and> pd_body d = b"
proof -
  from assms(3) have d: "validate_decision b = Ok ()" "pd_body d = b"
    "sign E (decision_body_codec E) publisher DECISION_DOMAIN b = Ok (pd_signature d)"
    by (auto simp: decision_sign_def result_simps)
  with verify_sign [OF assms(1,2) d(3)] assms(4-6) show ?thesis by (simp add: decision_verify_ok)
qed

interpretation pair_request_format:
  canonical_format "pair_request_codec E" "pair_request_encode E" "pair_request_decode E" for E
  by unfold_locales
    (auto simp: pair_request_encode_def pair_request_decode_def encode_bounded_def decode_bounded_def result_simps
      dest: postcard_okD_exact)

section \<open>Properties\<close>

text \<open>What anyone decides about a request its viewer has created, at every time and under every
  lifetime policy: overlong requests are refused by policy, requests from more than five minutes in
  the future as not yet valid, expired ones as expired, and all others are accepted.\<close>

theorem pair_request_verdict:
  assumes "keys_ok E"
    and "pair_request_new_with_credential E nonce viewer publisher stream label credential issued expires = Ok r"
  shows "pair_request_verify E r now_ms limit =
    (if i64_MAX < sint expires - sint issued
     then Err (PairingInvalidMetadata ''pairing time range overflows'')
     else if sint limit < sint expires - sint issued
     then Err (PairingInvalidMetadata ''pairing lifetime exceeds policy'')
     else if sint now_ms + sint PAIRING_CLOCK_SKEW_MS < sint issued then Err PairingNotYetValid
     else if sint expires \<le> sint now_ms then Err PairingExpired
     else Ok ())"
proof -
  from assms(2) obtain public where
    1: "secret_public E viewer = Ok public"
    "pr_body r = \<lparr>pr_version = PAIRING_VERSION, pr_protocol_version = PROTOCOL_VERSION,
        pr_publisher = publisher, pr_stream_id = stream, pr_viewer = public,
        pr_viewer_credential = credential, pr_device_label = label, pr_nonce = nonce,
        pr_issued_at_ms = issued, pr_expires_at_ms = expires\<rparr>"
    "validate_request_metadata E (pr_body r) = Ok ()"
    "sign E (pair_request_body_codec E) viewer PAIR_REQUEST_DOMAIN (pr_body r) = Ok (pr_signature r)"
    by (rule pair_request_new_ok)
  have "sint issued < sint expires"
    using 1(2,3) by (auto simp: validate_request_metadata_def result_simps)
  moreover have "verify E (pair_request_body_codec E) public PAIR_REQUEST_DOMAIN (pr_body r) (pr_signature r) = Ok ()"
    by (rule verify_sign [OF assms(1) 1(1,4)])
  ultimately show ?thesis
    using 1(2,3) by (simp add: pair_request_verify_def validate_time_eq)
qed

lemma created_offer_verdict:
  assumes "keys_ok E" and "pair_offer_new E nonce publisher request relay_context issued expires limit = Ok offer"
  shows "pair_offer_verify E offer request now_ms limit =
    and_then (pair_request_verify E request now_ms limit) (\<lambda>_. validate_time issued expires now_ms limit)"
proof -
  from assms(2) obtain rid vid where
    o: "secret_public E publisher = Ok (pr_publisher (pr_body request))"
    "pair_request_id E request = Ok rid" "fingerprint E (pr_viewer (pr_body request)) = Ok vid"
    "po_body offer = \<lparr>po_version = PAIRING_VERSION, po_request_id = rid,
        po_publisher = pr_publisher (pr_body request), po_viewer_id = vid, po_nonce = nonce,
        po_relay_context = relay_context, po_issued_at_ms = issued, po_expires_at_ms = expires\<rparr>"
    "validate_offer_metadata E (po_body offer) = Ok ()"
    "sign E (pair_offer_body_codec E) publisher OFFER_DOMAIN (po_body offer) = Ok (po_signature offer)"
    by (rule pair_offer_new_ok)
  have "verify E (pair_offer_body_codec E) (pr_publisher (pr_body request)) OFFER_DOMAIN (po_body offer)
      (po_signature offer) = Ok ()" by (rule verify_sign [OF assms(1) o(1,6)])
  moreover have "check_offer_request E request offer = Ok ()" using o by (simp add: check_offer_request_ok)
  ultimately show ?thesis
    using o(4,5)
    by (cases "pair_request_verify E request now_ms limit"; cases "validate_time issued expires now_ms limit")
      (simp_all add: pair_offer_verify_def)
qed

lemma given_confirmation_verifies:
  assumes "keys_ok E" and "secret_public E viewer = Ok (pr_viewer (pr_body request))"
    and "confirmation_approve E viewer request offer confirmed_ms = Ok c"
  shows "confirmation_verify E c request offer = Ok ()"
proof -
  from assms(3) obtain public rid vid hash where
    c: "secret_public E viewer = Ok public" "fingerprint E (pr_viewer (pr_body request)) = Ok vid"
    "pair_request_id E request = Ok rid" "transcript_hash E request offer = Ok hash"
    "vc_body c = \<lparr>vc_version = PAIRING_VERSION, vc_request_id = rid, vc_transcript_hash = hash,
        vc_viewer_id = vid, vc_confirmed_at_ms = confirmed_ms\<rparr>"
    "sign E (confirmation_body_codec E) viewer CONFIRM_DOMAIN (vc_body c) = Ok (vc_signature c)"
    by (auto simp: confirmation_approve_def Let_def result_simps)
  with verify_sign [OF assms(1,2) c(6)] show ?thesis by (simp add: confirmation_verify_ok)
qed

lemma confirmed_request_approved:
  assumes "keys_ok E" and "\<forall>b. to_stdvec (decision_body_codec E) b \<noteq> None"
    and "secret_public E publisher = Ok (pr_publisher (pr_body request))"
    and "confirmation_verify E c request offer = Ok ()" and "vc_transcript_hash (vc_body c) \<noteq> 0"
  shows "\<exists>d. decision_approve_manual E publisher request offer c decided_ms = Ok d \<and>
    decision_verify E d request (pr_publisher (pr_body request)) = Ok () \<and> pd_approved (pd_body d) \<and>
    pd_transcript_hash (pd_body d) = vc_transcript_hash (vc_body c)"
proof -
  note c = assms(4) [unfolded confirmation_verify_ok]
  let ?b = "\<lparr>pd_version = PAIRING_VERSION, pd_request_id = vc_request_id (vc_body c),
      pd_viewer_id = vc_viewer_id (vc_body c), pd_stream_id = pr_stream_id (pr_body request),
      pd_transcript_hash = vc_transcript_hash (vc_body c), pd_approved = True, pd_reason = ManualVerified,
      pd_decided_at_ms = decided_ms\<rparr>"
  have "vc_request_id (vc_body c) \<noteq> 0 \<and> vc_viewer_id (vc_body c) \<noteq> 0 \<and> \<not> is_nil (pr_stream_id (pr_body request))"
    using c by (auto simp: transcript_hash_ok check_offer_request_ok validate_request_metadata_def
        validate_offer_metadata_def result_simps)
  then have "validate_decision ?b = Ok ()" using assms(5) by (simp add: validate_decision_ok)
  moreover obtain bs where "to_stdvec (decision_body_codec E) ?b = Some bs" using assms(2) by blast
  ultimately have "is_ok (decision_sign E publisher ?b)"
    by (simp add: decision_sign_def sign_def signing_digest_def canonical_def DECISION_DOMAIN_def ascii_bytes_def)
  then obtain d where d: "decision_sign E publisher ?b = Ok d" by (auto simp: is_ok_iff)
  from decision_signed_verifies [OF assms(1,3) d] c have
    "decision_verify E d request (pr_publisher (pr_body request)) = Ok ()" "pd_body d = ?b" by simp_all
  moreover have "decision_approve_manual E publisher request offer c decided_ms = Ok d"
    using assms(3,4) c d by (simp add: decision_approve_manual_def)
  ultimately show ?thesis by auto
qed

text \<open>C28: The ceremony completes.  When the publisher answers a viewer's request, the viewer confirms
  and the publisher approves, each with its own identity, then the viewer accepts the offer while it
  and the request are fresh, both sides derive the same transcript hash, and the publisher's approval
  is produced and verifies for the viewer.\<close>

theorem pairing_ceremony_completes:
  assumes "keys_ok E" and "\<forall>b. to_stdvec (decision_body_codec E) b \<noteq> None"
    and "pair_offer_new E nonce publisher request relay_context issued expires limit = Ok offer"
    and "secret_public E viewer = Ok (pr_viewer (pr_body request))"
    and "confirmation_approve E viewer request offer confirmed_ms = Ok c"
    and "vc_transcript_hash (vc_body c) \<noteq> 0"
  shows "pair_offer_verify E offer request now_ms limit =
      and_then (pair_request_verify E request now_ms limit) (\<lambda>_. validate_time issued expires now_ms limit) \<and>
    transcript_hash E request offer = Ok (vc_transcript_hash (vc_body c)) \<and>
    (\<exists>d. decision_approve_manual E publisher request offer c decided_ms = Ok d \<and>
      decision_verify E d request (pr_publisher (pr_body request)) = Ok () \<and> pd_approved (pd_body d) \<and>
      pd_transcript_hash (pd_body d) = vc_transcript_hash (vc_body c))"
proof -
  have "secret_public E publisher = Ok (pr_publisher (pr_body request))"
    by (rule pair_offer_new_ok [OF assms(3)])
  moreover have c: "confirmation_verify E c request offer = Ok ()"
    by (rule given_confirmation_verifies [OF assms(1,4,5)])
  moreover from c have "transcript_hash E request offer = Ok (vc_transcript_hash (vc_body c))"
    by (simp add: confirmation_verify_ok)
  ultimately show ?thesis
    using confirmed_request_approved [OF assms(1,2) _ _ assms(6)] created_offer_verdict [OF assms(1,3)] by simp
qed

text \<open>A manual approval exists only after the viewer's own signed yes: the publisher signs one
  only for a confirmation that the key of the requesting viewer signed over the hash of exactly this
  request and this offer, and the approval carries that hash.\<close>

theorem manual_approval_needs_confirmation:
  assumes "decision_approve_manual E publisher request offer c decided_ms = Ok d"
  shows "\<exists>hash digest. transcript_hash E request offer = Ok hash \<and> vc_transcript_hash (vc_body c) = hash \<and>
    pd_transcript_hash (pd_body d) = hash \<and> hash \<noteq> 0 \<and> pd_reason (pd_body d) = ManualVerified \<and>
    secret_public E publisher = Ok (pr_publisher (pr_body request)) \<and>
    pair_request_id E request = Ok (vc_request_id (vc_body c)) \<and>
    signing_digest E (confirmation_body_codec E) CONFIRM_DOMAIN (vc_body c) = Ok digest \<and>
    ed_verify E (signing_key (pr_viewer (pr_body request))) (to_be_bytes 32 digest)
      (signature_to_bytes (vc_signature c))"
  using assms
  by (auto simp: decision_approve_manual_def decision_sign_def result_simps confirmation_verify_ok verify_ok
      validate_decision_ok)

text \<open>A viewer acts only on decisions of the publisher it asked: a decision that verifies is
  signed by the publisher of the request over a body that names this request, this viewer and this
  stream; it is an approval exactly when its reason is not a rejection, and it carries a transcript
  hash exactly when it is a manual approval.\<close>

theorem accepted_decision_authentic:
  assumes "decision_verify E d request publisher = Ok ()"
  shows "publisher = pr_publisher (pr_body request) \<and>
    pair_request_id E request = Ok (pd_request_id (pd_body d)) \<and>
    identity_id E (pr_viewer (pr_body request)) = Ok (pd_viewer_id (pd_body d)) \<and>
    pd_stream_id (pd_body d) = pr_stream_id (pr_body request) \<and>
    (pd_approved (pd_body d) \<longleftrightarrow> pd_reason (pd_body d) \<noteq> Rejected) \<and>
    (pd_transcript_hash (pd_body d) = 0 \<longleftrightarrow> pd_reason (pd_body d) \<noteq> ManualVerified) \<and>
    (\<exists>digest. signing_digest E (decision_body_codec E) DECISION_DOMAIN (pd_body d) = Ok digest \<and>
       ed_verify E (signing_key publisher) (to_be_bytes 32 digest) (signature_to_bytes (pd_signature d)))"
  using assms by (auto simp: decision_verify_ok validate_decision_ok verify_ok fingerprint_def result_simps)

section \<open>A concrete ceremony\<close>

definition example_pairing_env :: pairing_env where
  "example_pairing_env = credential_env.extend example_credential_env
     \<lparr>pair_request_body_codec = tag_postcard [18], pair_request_codec = tag_postcard [19],
      pair_offer_body_codec = tag_postcard [20], transcript_codec = tag_postcard [21],
      confirmation_body_codec = tag_postcard [22], decision_body_codec = tag_postcard [23]\<rparr>"

lemmas example_pairing_defs =
  example_pairing_env_def credential_env.extend_def credential_env.defs example_credential_defs

lemma example_pairing_env_ok: "keys_ok example_pairing_env"
  "\<forall>b. to_stdvec (decision_body_codec example_pairing_env) b \<noteq> None"
  by (auto simp: keys_ok_def signatures_ok_def example_pairing_defs)

lemma example_pairing_fields:
  "sha256 example_pairing_env bs = of_nat (length bs)"
  "secret_public example_pairing_env example_secret = Ok example_public"
  "identity_validate example_pairing_env example_public = Ok ()"
  "fingerprint example_pairing_env example_public = Ok 24"
  "to_stdvec (pair_request_body_codec example_pairing_env) b1 = Some [18]"
  "to_stdvec (pair_request_codec example_pairing_env) b2 = Some [19]"
  "to_stdvec (pair_offer_body_codec example_pairing_env) b3 = Some [20]"
  "to_stdvec (transcript_codec example_pairing_env) b4 = Some [21]"
  "to_stdvec (confirmation_body_codec example_pairing_env) b5 = Some [22]"
  by (simp_all add: secret_public_def fingerprint_def identity_id_def identity_validate_def example_pairing_defs
      example_secret_def example_public_def IDENTITY_VERSION_def IDENTITY_FINGERPRINT_PREFIX_def ascii_bytes_def)

lemma example_pair_request:
  obtains r where "pair_request_new_with_credential example_pairing_env 5 example_secret example_public 1 [120] None 0 1000 = Ok r"
    "pr_viewer (pr_body r) = example_public" "pr_publisher (pr_body r) = example_public"
    "validate_request_metadata example_pairing_env (pr_body r) = Ok ()"
proof -
  have "is_ok (pair_request_new_with_credential example_pairing_env 5 example_secret example_public 1 [120] None 0 1000)"
    by (simp add: pair_request_new_with_credential_def validate_device_label_def MAX_DEVICE_LABEL_LEN_def
        str_len_def str_trim_def is_control_def is_whitespace_def utf8_width_def example_pairing_fields
        validate_request_metadata_def sign_def signing_digest_def canonical_def PAIR_REQUEST_DOMAIN_def
        ascii_bytes_def Let_def)
  then obtain r where r: "pair_request_new_with_credential example_pairing_env 5 example_secret example_public 1 [120] None 0 1000 = Ok r"
    by (auto simp: is_ok_iff)
  from r show thesis
    by (rule pair_request_new_ok) (use r in \<open>simp add: that example_pairing_fields\<close>)
qed

theorem pair_request_verdict_witness:
  "\<exists>r. pair_request_new_with_credential example_pairing_env 5 example_secret example_public 1 [120] None 0 1000 = Ok r \<and>
     pair_request_verify example_pairing_env r 500 2000 = Ok () \<and>
     pair_request_verify example_pairing_env r 1000 2000 = Err PairingExpired"
proof -
  obtain r where r: "pair_request_new_with_credential example_pairing_env 5 example_secret example_public 1 [120] None 0 1000 = Ok r"
    by (rule example_pair_request)
  from pair_request_verdict [OF example_pairing_env_ok(1) r] r show ?thesis
    by (auto simp: PAIRING_CLOCK_SKEW_MS_def)
qed

lemma example_request_verified:
  assumes "pair_request_new_with_credential example_pairing_env 5 example_secret example_public 1 [120] None 0 1000 = Ok r"
  shows "pair_request_verify example_pairing_env r 100 2000 = Ok ()"
proof -
  from assms obtain public where
    1: "secret_public example_pairing_env example_secret = Ok public"
    "pr_body r = \<lparr>pr_version = PAIRING_VERSION, pr_protocol_version = PROTOCOL_VERSION,
        pr_publisher = example_public, pr_stream_id = 1, pr_viewer = public,
        pr_viewer_credential = None, pr_device_label = [120], pr_nonce = 5,
        pr_issued_at_ms = 0, pr_expires_at_ms = 1000\<rparr>"
    "validate_request_metadata example_pairing_env (pr_body r) = Ok ()"
    "sign example_pairing_env (pair_request_body_codec example_pairing_env) example_secret PAIR_REQUEST_DOMAIN
       (pr_body r) = Ok (pr_signature r)"
    by (rule pair_request_new_ok)
  with verify_sign [OF example_pairing_env_ok(1) 1(1,4)] show ?thesis
    by (simp add: pair_request_verify_def validate_time_eq PAIRING_CLOCK_SKEW_MS_def)
qed

lemma example_ceremony:
  obtains r offer c where "pr_viewer (pr_body r) = example_public" "pr_publisher (pr_body r) = example_public"
    "pair_offer_new example_pairing_env 6 example_secret r 8 100 900 2000 = Ok offer"
    "confirmation_approve example_pairing_env example_secret r offer 200 = Ok c"
    "vc_transcript_hash (vc_body c) \<noteq> 0"
proof -
  obtain r where r: "pair_request_new_with_credential example_pairing_env 5 example_secret example_public 1 [120] None 0 1000 = Ok r"
    "pr_viewer (pr_body r) = example_public" "pr_publisher (pr_body r) = example_public"
    "validate_request_metadata example_pairing_env (pr_body r) = Ok ()"
    by (rule example_pair_request)
  have rid: "pair_request_id example_pairing_env r = Ok 39"
    by (simp add: pair_request_id_def domain_hash_def example_pairing_fields REQUEST_ID_DOMAIN_def ascii_bytes_def)
  have "is_ok (pair_offer_new example_pairing_env 6 example_secret r 8 100 900 2000)"
    using r(2,3) rid example_request_verified [OF r(1)]
    by (simp add: pair_offer_new_def example_pairing_fields validate_offer_metadata_def sign_def signing_digest_def
        canonical_def OFFER_DOMAIN_def ascii_bytes_def Let_def)
  then obtain offer where offer: "pair_offer_new example_pairing_env 6 example_secret r 8 100 900 2000 = Ok offer"
    by (auto simp: is_ok_iff)
  then have "transcript_hash example_pairing_env r offer = Ok 39"
    using r(2-4) rid
    by (auto simp: pair_offer_new_def Let_def result_simps transcript_hash_ok check_offer_request_ok domain_hash_def
        example_pairing_fields TRANSCRIPT_DOMAIN_def ascii_bytes_def)
  with rid r(2) have "is_ok (confirmation_approve example_pairing_env example_secret r offer 200)"
    by (simp add: confirmation_approve_def example_pairing_fields sign_def signing_digest_def canonical_def
        CONFIRM_DOMAIN_def ascii_bytes_def Let_def)
  then obtain c where c: "confirmation_approve example_pairing_env example_secret r offer 200 = Ok c"
    by (auto simp: is_ok_iff)
  with \<open>transcript_hash example_pairing_env r offer = Ok 39\<close> have "vc_transcript_hash (vc_body c) \<noteq> 0"
    by (auto simp: confirmation_approve_def Let_def result_simps)
  with r(2,3) offer c show thesis by (rule that)
qed

theorem pairing_ceremony_completes_witness:
  "\<exists>r offer c d. confirmation_approve example_pairing_env example_secret r offer 200 = Ok c \<and>
     decision_approve_manual example_pairing_env example_secret r offer c 300 = Ok d \<and>
     decision_verify example_pairing_env d r example_public = Ok () \<and> pd_approved (pd_body d)"
proof -
  obtain r offer c where 1: "pr_viewer (pr_body r) = example_public" "pr_publisher (pr_body r) = example_public"
    "pair_offer_new example_pairing_env 6 example_secret r 8 100 900 2000 = Ok offer"
    "confirmation_approve example_pairing_env example_secret r offer 200 = Ok c"
    "vc_transcript_hash (vc_body c) \<noteq> 0" by (rule example_ceremony)
  from pairing_ceremony_completes [OF example_pairing_env_ok 1(3) _ 1(4,5), of 0 300] 1 show ?thesis
    by (auto simp: example_pairing_fields)
qed

lemma example_decision:
  obtains r offer c d where "pr_publisher (pr_body r) = example_public"
    "decision_approve_manual example_pairing_env example_secret r offer c 300 = Ok d"
    "decision_verify example_pairing_env d r example_public = Ok ()" "pd_approved (pd_body d)"
proof -
  obtain r offer c where 1: "pr_viewer (pr_body r) = example_public" "pr_publisher (pr_body r) = example_public"
    "pair_offer_new example_pairing_env 6 example_secret r 8 100 900 2000 = Ok offer"
    "confirmation_approve example_pairing_env example_secret r offer 200 = Ok c"
    "vc_transcript_hash (vc_body c) \<noteq> 0" by (rule example_ceremony)
  have "confirmation_verify example_pairing_env c r offer = Ok ()"
    by (rule given_confirmation_verifies [OF example_pairing_env_ok(1) _ 1(4)]) (simp add: 1 example_pairing_fields)
  from confirmed_request_approved [OF example_pairing_env_ok _ this 1(5), of example_secret 300] 1(2) that
  show thesis by (auto simp: example_pairing_fields)
qed

theorem manual_approval_needs_confirmation_witness:
  "\<exists>r offer c d. decision_approve_manual example_pairing_env example_secret r offer c 300 = Ok d \<and>
     pd_reason (pd_body d) = ManualVerified \<and>
     transcript_hash example_pairing_env r offer = Ok (pd_transcript_hash (pd_body d))"
proof -
  obtain r offer c d where "decision_approve_manual example_pairing_env example_secret r offer c 300 = Ok d"
    by (rule example_decision)
  from manual_approval_needs_confirmation [OF this] this show ?thesis by fastforce
qed

theorem accepted_decision_authentic_witness:
  "\<exists>d r. decision_verify example_pairing_env d r example_public = Ok () \<and> pd_approved (pd_body d) \<and>
     pd_reason (pd_body d) \<noteq> Rejected"
proof -
  obtain r offer c d where "decision_verify example_pairing_env d r example_public = Ok ()" "pd_approved (pd_body d)"
    by (rule example_decision)
  with accepted_decision_authentic [OF this(1)] show ?thesis by blast
qed

end
