(* ===== verification/Wire.thy ===== *)
theory Wire
  imports Pairing
begin

text \<open>
  \<^verbatim>\<open>crates/protocol/src/wire.rs\<close>: the four message families between publishers, viewers and the
  relay, their structural validation, and the bounded canonical encoding they share.
\<close>

section \<open>Constants and errors\<close>

definition MAX_STREAMS_PER_MESSAGE :: nat where
  "MAX_STREAMS_PER_MESSAGE = 4096"

definition MAX_ERROR_DETAIL_LEN :: nat where
  "MAX_ERROR_DETAIL_LEN = 512"

datatype wire_error =
    WireUnsupportedVersion u16
  | TooLarge
  | Invalid string
  | WirePostcard

section \<open>Data\<close>

datatype relay_access_mode = PublicAccess | SignedAccess

record session_hello =
  hello_protocol_version :: u16
  hello_role :: credential_role
  hello_identity :: identity_public
  hello_credential :: "native_credential option"

record relay_welcome =
  welcome_protocol_version :: u16
  welcome_access_mode :: relay_access_mode
  welcome_relay_time_ms :: i64
  welcome_credential_expires_at_ms :: "i64 option"

record publisher_resume_stream =
  pub_resume_stream_id :: uuid
  pub_resume_next_sequence :: u64
  pub_resume_epoch_id :: uuid
  pub_resume_key_group :: u64

record relay_resume_stream =
  resume_stream_id :: uuid
  resume_committed_through :: u64

record retained_bounds =
  oldest_sequence :: u64
  newest_sequence :: u64
  oldest_timestamp :: u64
  newest_timestamp :: u64

record catalog_entry =
  cat_descriptor :: stream_descriptor
  cat_publisher_online :: bool
  cat_retained :: "retained_bounds option"

datatype subscription_start =
    Live
  | OldestRetained
  | Sequence u64
  | Timestamp u64

datatype relay_error_code =
    CodeUnauthorized | CodeCredentialExpired | CodeWrongRole | CodeNotFound | CodeRateLimited
  | CodeHistoryUnavailable | CodeProtocolViolation | CodeStorageFailure

record relay_error =
  err_code :: relay_error_code
  err_detail :: rust_str

text \<open>\<^verbatim>\<open>std::net::SocketAddr\<close>: address and port, with the flow label and scope of IPv6.\<close>

datatype socket_addr = SocketV4 u32 u16 | SocketV6 "128 word" u16 u32 u32

datatype publisher_message =
    PubHello session_hello
  | PubResume array32 "publisher_resume_stream list"
  | PubDescriptor stream_descriptor
  | PubObject native_object
  | PubKeyEnvelope key_envelope
  | PubPairOffer pair_offer
  | PubPairDecision publisher_decision
  | PubFetchPairingInbox
  | PubPing i64

datatype relay_publisher_message =
    RpWelcome relay_welcome
  | RpResumeState "relay_resume_stream list"
  | RpPublishAck uuid u64
  | RpPairRequest pair_request socket_addr i64
  | RpViewerConfirmation viewer_confirmation
  | RpPairingAck array32
  | RpPairingInboxComplete
  | RpError relay_error
  | RpPong i64

datatype viewer_message =
    VwHello session_hello
  | VwCatalog
  | VwPairRequest pair_request
  | VwPairConfirmation viewer_confirmation
  | VwFetchInbox
  | VwSubscribe array32 uuid subscription_start
  | VwReanchor u64
  | VwPing i64

datatype relay_viewer_message =
    RvWelcome relay_welcome
  | RvCatalog "catalog_entry list"
  | RvPairOffer pair_offer
  | RvPairDecision publisher_decision
  | RvKeyEnvelope key_envelope
  | RvPairingQueued array32
  | RvInboxComplete
  | RvSubscriptionStarted u64 "retained_bounds option" bool
  | RvObject native_object
  | RvLive u64
  | RvError relay_error
  | RvPong i64

record wire_env = pairing_env +
  publisher_message_codec :: "publisher_message postcard"
  relay_publisher_message_codec :: "relay_publisher_message postcard"
  viewer_message_codec :: "viewer_message postcard"
  relay_viewer_message_codec :: "relay_viewer_message postcard"

section \<open>Validation\<close>

definition invalid_as :: "string \<Rightarrow> 'e + unit \<Rightarrow> wire_error + unit" where
  "invalid_as what r = map_err (\<lambda>_. Invalid what) r"

definition check_version :: "u16 \<Rightarrow> wire_error + unit" where
  "check_version version = (if version \<noteq> PROTOCOL_VERSION then Err (WireUnsupportedVersion version) else Ok ())"

definition validate_welcome :: "relay_welcome \<Rightarrow> wire_error + unit" where
  "validate_welcome w =
     and_then (check_version (welcome_protocol_version w)) (\<lambda>_.
       case (welcome_access_mode w, welcome_credential_expires_at_ms w) of
         (PublicAccess, None) \<Rightarrow> Ok ()
       | (SignedAccess, Some _) \<Rightarrow> Ok ()
       | _ \<Rightarrow> Err (Invalid ''relay welcome admission mode and expiry disagree''))"

fun sorted_unique_from :: "uuid option \<Rightarrow> uuid list \<Rightarrow> wire_error + unit" where
  "sorted_unique_from previous [] = Ok ()"
| "sorted_unique_from previous (s # ss) =
     (if (case previous of Some prior \<Rightarrow> prior \<ge> s | None \<Rightarrow> False)
      then Err (Invalid ''stream records are not sorted and unique'')
      else sorted_unique_from (Some s) ss)"

definition sorted_unique_streams :: "uuid list \<Rightarrow> wire_error + unit" where
  "sorted_unique_streams ss = sorted_unique_from None ss"

definition validate_offer_shape :: "'z identity_env_scheme \<Rightarrow> pair_offer \<Rightarrow> wire_error + unit" where
  "validate_offer_shape E offer =
     and_then (invalid_as ''invalid offer publisher'' (identity_validate E (po_publisher (po_body offer)))) (\<lambda>_.
       let b = po_body offer
       in if po_version b \<noteq> PAIRING_VERSION \<or> po_request_id b = 0 \<or> po_viewer_id b = 0 \<or> po_nonce b = 0 \<or>
             po_relay_context b = 0 \<or> sint (po_expires_at_ms b) \<le> sint (po_issued_at_ms b)
          then Err (Invalid ''invalid pair offer'') else Ok ())"

definition validate_confirmation_shape :: "viewer_confirmation \<Rightarrow> wire_error + unit" where
  "validate_confirmation_shape c =
     (let b = vc_body c
      in if vc_version b \<noteq> PAIRING_VERSION \<or> vc_request_id b = 0 \<or> vc_transcript_hash b = 0 \<or> vc_viewer_id b = 0
         then Err (Invalid ''invalid viewer confirmation'') else Ok ())"

definition validate_decision_shape :: "publisher_decision \<Rightarrow> wire_error + unit" where
  "validate_decision_shape d =
     (let b = pd_body d
      in if pd_version b \<noteq> PAIRING_VERSION \<or> pd_request_id b = 0 \<or> pd_viewer_id b = 0 \<or> is_nil (pd_stream_id b)
         then Err (Invalid ''invalid publisher decision'') else Ok ())"

definition hello_validate ::
  "'z identity_env_scheme \<Rightarrow> session_hello \<Rightarrow> credential_role \<Rightarrow> wire_error + unit" where
  "hello_validate E h expected_role =
     and_then (check_version (hello_protocol_version h)) (\<lambda>_.
       if hello_role h \<noteq> expected_role then Err (Invalid ''session hello has the wrong role'')
       else and_then (invalid_as ''invalid session identity'' (identity_validate E (hello_identity h))) (\<lambda>_.
         case hello_credential h of
           None \<Rightarrow> Ok ()
         | Some c \<Rightarrow>
             if cr_role (cr_body c) \<noteq> expected_role \<or> cr_identity (cr_body c) \<noteq> hello_identity h
             then Err (Invalid ''credential role or identity differs from session'')
             else if cr_version (cr_body c) \<noteq> CREDENTIAL_VERSION \<or> cr_subject (cr_body c) = [] \<or>
                     str_len (cr_subject (cr_body c)) > MAX_CREDENTIAL_SUBJECT_LEN \<or>
                     str_trim (cr_subject (cr_body c)) \<noteq> cr_subject (cr_body c) \<or>
                     list_ex is_control (cr_subject (cr_body c))
             then Err (Invalid ''invalid credential metadata'')
             else Ok ()))"

definition bounds_validate :: "retained_bounds \<Rightarrow> wire_error + unit" where
  "bounds_validate b =
     (if oldest_sequence b = 0 \<or> oldest_sequence b > newest_sequence b \<or> oldest_timestamp b > newest_timestamp b
      then Err (Invalid ''invalid retained bounds'') else Ok ())"

definition bounds_option_validate :: "retained_bounds option \<Rightarrow> wire_error + unit" where
  "bounds_option_validate r = (case r of Some b \<Rightarrow> bounds_validate b | None \<Rightarrow> Ok ())"

definition relay_error_validate :: "relay_error \<Rightarrow> wire_error + unit" where
  "relay_error_validate e =
     (if str_len (err_detail e) > MAX_ERROR_DETAIL_LEN \<or> str_trim (err_detail e) \<noteq> err_detail e \<or>
         list_ex is_control (err_detail e)
      then Err (Invalid ''invalid relay error detail'') else Ok ())"

fun publisher_message_validate :: "'z wire_env_scheme \<Rightarrow> publisher_message \<Rightarrow> wire_error + unit" where
  "publisher_message_validate E (PubHello h) = hello_validate E h RolePublisher"
| "publisher_message_validate E (PubResume publisher_id ss) =
     (if publisher_id = 0 \<or> length ss > MAX_STREAMS_PER_MESSAGE \<or>
         list_ex (\<lambda>s. is_nil (pub_resume_stream_id s) \<or> pub_resume_next_sequence s = 0 \<or>
                      is_nil (pub_resume_epoch_id s) \<or> pub_resume_key_group s = 0) ss
      then Err (Invalid ''invalid publisher resume state'')
      else sorted_unique_streams (map pub_resume_stream_id ss))"
| "publisher_message_validate E (PubDescriptor d) = invalid_as ''invalid stream descriptor'' (descriptor_verify E d)"
| "publisher_message_validate E (PubObject obj) = invalid_as ''invalid native object'' (validate_shape E obj)"
| "publisher_message_validate E (PubKeyEnvelope e) = invalid_as ''invalid key envelope'' (envelope_validate_shape e)"
| "publisher_message_validate E (PubPairOffer offer) = validate_offer_shape E offer"
| "publisher_message_validate E (PubPairDecision d) = validate_decision_shape d"
| "publisher_message_validate E PubFetchPairingInbox = Ok ()"
| "publisher_message_validate E (PubPing t) = Ok ()"

definition pair_request_encodes :: "'z wire_env_scheme \<Rightarrow> pair_request \<Rightarrow> wire_error + unit" where
  "pair_request_encodes E r =
     invalid_as ''invalid pairing request'' (and_then (pair_request_encode E r) (\<lambda>_. Ok ()))"

fun relay_publisher_message_validate :: "'z wire_env_scheme \<Rightarrow> relay_publisher_message \<Rightarrow> wire_error + unit" where
  "relay_publisher_message_validate E (RpWelcome w) = validate_welcome w"
| "relay_publisher_message_validate E (RpResumeState ss) =
     (if length ss > MAX_STREAMS_PER_MESSAGE \<or> list_ex (\<lambda>s. is_nil (resume_stream_id s)) ss
      then Err (Invalid ''invalid relay resume state'')
      else sorted_unique_streams (map resume_stream_id ss))"
| "relay_publisher_message_validate E (RpPublishAck sid committed) =
     (if is_nil sid \<or> committed = 0 then Err (Invalid ''invalid publish acknowledgement'') else Ok ())"
| "relay_publisher_message_validate E (RpPairRequest r addr t) = pair_request_encodes E r"
| "relay_publisher_message_validate E (RpViewerConfirmation c) = validate_confirmation_shape c"
| "relay_publisher_message_validate E (RpPairingAck rid) =
     (if rid = 0 then Err (Invalid ''invalid pairing acknowledgement'') else Ok ())"
| "relay_publisher_message_validate E RpPairingInboxComplete = Ok ()"
| "relay_publisher_message_validate E (RpError e) = relay_error_validate e"
| "relay_publisher_message_validate E (RpPong t) = Ok ()"

fun viewer_message_validate :: "'z wire_env_scheme \<Rightarrow> viewer_message \<Rightarrow> wire_error + unit" where
  "viewer_message_validate E (VwHello h) = hello_validate E h RoleViewer"
| "viewer_message_validate E VwCatalog = Ok ()"
| "viewer_message_validate E (VwPairRequest r) = pair_request_encodes E r"
| "viewer_message_validate E (VwPairConfirmation c) = validate_confirmation_shape c"
| "viewer_message_validate E VwFetchInbox = Ok ()"
| "viewer_message_validate E (VwSubscribe publisher_id sid start) =
     (if publisher_id = 0 \<or> is_nil sid \<or> start = Sequence 0
      then Err (Invalid ''invalid subscription request'') else Ok ())"
| "viewer_message_validate E (VwReanchor after) =
     (if after = 0 then Err (Invalid ''invalid subscription re-anchor'') else Ok ())"
| "viewer_message_validate E (VwPing t) = Ok ()"

text \<open>The loop over the catalog, which collects the stream identifiers.\<close>

fun catalog_validate :: "'z wire_env_scheme \<Rightarrow> catalog_entry list \<Rightarrow> uuid list \<Rightarrow> wire_error + unit" where
  "catalog_validate E [] ids = sorted_unique_streams ids"
| "catalog_validate E (c # cs) ids =
     and_then (invalid_as ''invalid catalog descriptor'' (descriptor_verify E (cat_descriptor c))) (\<lambda>_.
     and_then (bounds_option_validate (cat_retained c)) (\<lambda>_.
       catalog_validate E cs (ids @ [d_stream_id (d_body (cat_descriptor c))])))"

fun relay_viewer_message_validate :: "'z wire_env_scheme \<Rightarrow> relay_viewer_message \<Rightarrow> wire_error + unit" where
  "relay_viewer_message_validate E (RvWelcome w) = validate_welcome w"
| "relay_viewer_message_validate E (RvCatalog entries) =
     (if length entries > MAX_STREAMS_PER_MESSAGE then Err (Invalid ''catalog contains too many streams'')
      else catalog_validate E entries [])"
| "relay_viewer_message_validate E (RvPairOffer offer) = validate_offer_shape E offer"
| "relay_viewer_message_validate E (RvPairDecision d) = validate_decision_shape d"
| "relay_viewer_message_validate E (RvKeyEnvelope e) = invalid_as ''invalid key envelope'' (envelope_validate_shape e)"
| "relay_viewer_message_validate E (RvPairingQueued rid) =
     (if rid = 0 then Err (Invalid ''invalid queued pairing request ID'') else Ok ())"
| "relay_viewer_message_validate E RvInboxComplete = Ok ()"
| "relay_viewer_message_validate E (RvSubscriptionStarted first retained live) =
     (if first = 0 then Err (Invalid ''invalid subscription anchor'') else bounds_option_validate retained)"
| "relay_viewer_message_validate E (RvObject obj) = invalid_as ''invalid native object'' (validate_shape E obj)"
| "relay_viewer_message_validate E (RvLive through) =
     (if through = 0 then Err (Invalid ''invalid live-tail sequence'') else Ok ())"
| "relay_viewer_message_validate E (RvError e) = relay_error_validate e"
| "relay_viewer_message_validate E (RvPong t) = Ok ()"

section \<open>Encoding\<close>

definition encode_native_message :: "'m postcard \<Rightarrow> ('m \<Rightarrow> wire_error + unit) \<Rightarrow> 'm \<Rightarrow> wire_error + bytes" where
  "encode_native_message codec validate_wire m =
     and_then (validate_wire m) (\<lambda>_.
     and_then (ok_or (to_stdvec codec m) WirePostcard) (\<lambda>encoded.
       if length encoded > MAX_FRAME_LEN then Err TooLarge else Ok encoded))"

definition decode_native_message :: "'m postcard \<Rightarrow> ('m \<Rightarrow> wire_error + unit) \<Rightarrow> bytes \<Rightarrow> wire_error + 'm" where
  "decode_native_message codec validate_wire bs =
     (if length bs > MAX_FRAME_LEN then Err TooLarge
      else and_then (ok_or (take_from_bytes codec bs) WirePostcard) (\<lambda>(m, remainder).
        if remainder \<noteq> [] then Err (Invalid ''trailing native message data'')
        else and_then (validate_wire m) (\<lambda>_.
        and_then (ok_or (to_stdvec codec m) WirePostcard) (\<lambda>encoded.
          if encoded \<noteq> bs then Err (Invalid ''noncanonical native message'') else Ok m))))"

section \<open>Lemmas\<close>

lemma invalid_as_ok [result_simps]: "invalid_as what r = Ok () \<longleftrightarrow> r = Ok ()"
  by (simp add: invalid_as_def map_err_eq_Ok)

lemma sorted_unique_from_ok:
  "sorted_unique_from p ss = Ok () \<longleftrightarrow> sorted_wrt (<) ss \<and> (case p of Some prior \<Rightarrow> ss = [] \<or> prior < hd ss | None \<Rightarrow> True)"
proof (induction ss arbitrary: p)
  case (Cons s ss)
  have "sorted_wrt (<) (s # ss) \<longleftrightarrow> sorted_wrt (<) ss \<and> (ss = [] \<or> s < hd ss)"
    by (cases ss) (auto dest: order.strict_trans)
  with Cons.IH [of "Some s"] show ?case by (cases p) (auto simp: not_le)
qed (simp split: option.splits)

lemma sorted_unique_streams_ok: "sorted_unique_streams ss = Ok () \<longleftrightarrow> sorted_wrt (<) ss"
  by (simp add: sorted_unique_streams_def sorted_unique_from_ok)

lemma catalog_validate_ok:
  "catalog_validate E entries ids = Ok () \<longleftrightarrow>
     (\<forall>c\<in>set entries. descriptor_verify E (cat_descriptor c) = Ok () \<and> bounds_option_validate (cat_retained c) = Ok ()) \<and>
     sorted_wrt (<) (ids @ map (\<lambda>c. d_stream_id (d_body (cat_descriptor c))) entries)"
  by (induction E entries ids rule: catalog_validate.induct) (auto simp: sorted_unique_streams_ok result_simps)

lemma bounds_validate_ok:
  "bounds_validate b = Ok () \<longleftrightarrow>
     oldest_sequence b \<noteq> 0 \<and> oldest_sequence b \<le> newest_sequence b \<and> oldest_timestamp b \<le> newest_timestamp b"
  by (auto simp: bounds_validate_def not_less)

interpretation message_format:
  canonical_format codec "encode_native_message codec validate_wire" "decode_native_message codec validate_wire"
  for codec validate_wire
  by unfold_locales
    (auto simp: encode_native_message_def decode_native_message_def result_simps dest: postcard_okD_exact)

section \<open>Properties\<close>

text \<open>A peer decodes exactly the encodings of valid messages: bytes decode to a message if and
  only if encoding that message produces those bytes.  So every message sent arrives as it was, and
  no two byte strings carry the same message.\<close>

theorem native_message_exact:
  assumes "postcard_ok codec"
  shows "decode_native_message codec validate_wire bs = Ok m \<longleftrightarrow> encode_native_message codec validate_wire m = Ok bs"
proof
  assume "encode_native_message codec validate_wire m = Ok bs"
  then show "decode_native_message codec validate_wire bs = Ok m" by (rule message_format.decode_encode [OF assms])
next
  assume "decode_native_message codec validate_wire bs = Ok m"
  then show "encode_native_message codec validate_wire m = Ok bs"
    by (auto simp: encode_native_message_def decode_native_message_def result_simps)
qed

text \<open>C40: What a viewer may rely on in a catalog it decoded: at most the bounded number of entries,
  every descriptor signed by the publisher it names, retained ranges that are not empty and not
  reversed, and no stream listed twice.\<close>

theorem decoded_catalog_well_formed:
  assumes "decode_native_message codec (relay_viewer_message_validate E) bs = Ok (RvCatalog entries)"
  shows "length entries \<le> MAX_STREAMS_PER_MESSAGE \<and>
    distinct (map (\<lambda>c. d_stream_id (d_body (cat_descriptor c))) entries) \<and>
    (\<forall>c\<in>set entries. descriptor_verify E (cat_descriptor c) = Ok () \<and>
       (\<forall>b. cat_retained c = Some b \<longrightarrow> 0 < oldest_sequence b \<and> oldest_sequence b \<le> newest_sequence b \<and>
          oldest_timestamp b \<le> newest_timestamp b))"
proof -
  from assms have "length entries \<le> MAX_STREAMS_PER_MESSAGE" "catalog_validate E entries [] = Ok ()"
    by (auto simp: decode_native_message_def result_simps split: if_splits)
  then show ?thesis
    by (auto simp: catalog_validate_ok bounds_option_validate_def bounds_validate_ok strict_sorted_iff
        word_greater_zero_iff)
qed

section \<open>Concrete messages\<close>

definition example_descriptor :: stream_descriptor where
  "example_descriptor =
     \<lparr>d_body = \<lparr>d_version = 2, d_publisher = example_public, d_stream_id = 1, d_name = [120],
               d_source_label = [121], d_codecs = [H264AnnexB], d_cursor = True, d_created_at_ms = 0\<rparr>,
      d_signature = signature_from_bytes (replicate 64 7)\<rparr>"

definition example_catalog :: relay_viewer_message where
  "example_catalog = RvCatalog [\<lparr>cat_descriptor = example_descriptor, cat_publisher_online = True,
     cat_retained = Some \<lparr>oldest_sequence = 1, newest_sequence = 4, oldest_timestamp = 0, newest_timestamp = 0\<rparr>\<rparr>]"

definition example_wire_env :: wire_env where
  "example_wire_env = pairing_env.extend example_pairing_env
     \<lparr>publisher_message_codec = tag_postcard [24], relay_publisher_message_codec = tag_postcard [25],
      viewer_message_codec = single_postcard (VwReanchor 9) [26],
      relay_viewer_message_codec = single_postcard example_catalog [27]\<rparr>"

lemmas example_wire_defs =
  example_wire_env_def pairing_env.extend_def pairing_env.defs example_pairing_defs

lemma example_label_ok: "validate_label [c] n what = Ok ()" if "c = 120 \<or> c = 121" "0 < n"
  using that by (auto simp: validate_label_def str_len_def str_trim_def is_control_def is_whitespace_def utf8_width_def)

lemma example_descriptor_verifies:
  assumes "identity_validate E example_public = Ok ()"
    and "\<And>m s. ed_verify E 7 m s \<longleftrightarrow> s = replicate 64 7"
    and "\<And>b. to_stdvec (descriptor_body_codec E) b = Some [1]"
  shows "descriptor_verify E example_descriptor = Ok ()"
proof -
  have "validate_descriptor_body E (d_body example_descriptor) = Ok ()"
    by (simp add: validate_descriptor_body_def example_descriptor_def assms(1) STREAM_FORMAT_VERSION_def
        example_label_ok MAX_STREAM_NAME_LEN_def MAX_SOURCE_LABEL_LEN_def)
  moreover have "verify E (descriptor_body_codec E) example_public DESCRIPTOR_DOMAIN (d_body example_descriptor)
      (signature_from_bytes (replicate 64 7)) = Ok ()"
    unfolding verify_ok by (simp add: assms signing_digest_def canonical_def DESCRIPTOR_DOMAIN_def ascii_bytes_def
        signature_bytes_round_trip) (simp add: example_public_def assms)
  ultimately show ?thesis by (simp add: descriptor_verify_def) (simp add: example_descriptor_def)
qed

lemma example_wire_fields:
  "identity_validate example_wire_env example_public = Ok ()"
  "ed_verify example_wire_env pk m s \<longleftrightarrow> s = replicate 64 (ucast pk)"
  "to_stdvec (descriptor_body_codec example_wire_env) b = Some [1]"
  by (simp_all add: example_wire_defs identity_validate_def example_public_def IDENTITY_VERSION_def)

theorem native_message_exact_witness:
  "encode_native_message (viewer_message_codec example_wire_env) (viewer_message_validate example_wire_env)
     (VwReanchor 9) = Ok [26] \<and>
   decode_native_message (viewer_message_codec example_wire_env) (viewer_message_validate example_wire_env) [26]
     = Ok (VwReanchor 9)"
proof -
  have codec: "viewer_message_codec example_wire_env = single_postcard (VwReanchor 9) [26]"
    by (simp add: example_wire_env_def pairing_env.extend_def)
  have "encode_native_message (viewer_message_codec example_wire_env) (viewer_message_validate example_wire_env)
     (VwReanchor 9) = Ok [26]"
    by (simp add: codec encode_native_message_def single_postcard_def MAX_FRAME_LEN_def)
  moreover have "postcard_ok (viewer_message_codec example_wire_env)" unfolding codec by (rule single_postcard_ok) simp
  note native_message_exact [OF this]
  ultimately show ?thesis by simp
qed

theorem decoded_catalog_well_formed_witness:
  "\<exists>entries. decode_native_message (relay_viewer_message_codec example_wire_env)
     (relay_viewer_message_validate example_wire_env) [27] = Ok (RvCatalog entries) \<and> length entries = 1 \<and>
     (\<forall>c\<in>set entries. descriptor_verify example_wire_env (cat_descriptor c) = Ok ())"
proof -
  obtain entries where entries: "example_catalog = RvCatalog entries" "length entries = 1"
    by (simp add: example_catalog_def)
  have codec: "relay_viewer_message_codec example_wire_env = single_postcard example_catalog [27]"
    by (simp add: example_wire_env_def pairing_env.extend_def)
  have "descriptor_verify example_wire_env example_descriptor = Ok ()"
    by (rule example_descriptor_verifies) (simp_all add: example_wire_fields)
  then have "relay_viewer_message_validate example_wire_env example_catalog = Ok ()"
    by (simp add: example_catalog_def MAX_STREAMS_PER_MESSAGE_def invalid_as_def bounds_option_validate_def
        bounds_validate_def sorted_unique_streams_def)
  then have "decode_native_message (relay_viewer_message_codec example_wire_env)
     (relay_viewer_message_validate example_wire_env) [27] = Ok example_catalog"
    by (simp add: decode_native_message_def codec single_postcard_def MAX_FRAME_LEN_def)
  with entries decoded_catalog_well_formed show ?thesis by metis
qed

end
