(* ===== verification/NativeStore.thy ===== *)
theory NativeStore
  imports Wire "HOL-Library.Product_Lexorder"
begin

text \<open>
  \<^verbatim>\<open>crates/relay/src/native_store.rs\<close>: the relay's durable store of stream descriptors, opaque
  objects grouped by keyframe group, and viewer envelopes.

  The database is the four tables of the schema, each a list of rows.  An operation is one
  transaction: it returns the new database, or an error and the old one stays.  The schema's
  \<^verbatim>\<open>PRIMARY KEY\<close>, \<^verbatim>\<open>FOREIGN KEY ... ON DELETE CASCADE\<close>, \<^verbatim>\<open>CHECK\<close> and \<^verbatim>\<open>STRICT\<close> integer
  constraints are checked where a statement writes a row.  An SQL integer is an \<open>int\<close> that a
  constraint keeps in the 64-bit range; a \<^verbatim>\<open>SUM\<close> that leaves the range is an error.
\<close>

section \<open>Data\<close>

definition MAX_LIST_OBJECTS :: nat where
  "MAX_LIST_OBJECTS = 16384"

record native_store_limits =
  max_streams :: u64
  max_streams_per_publisher :: u64
  max_objects_per_group :: u64
  max_group_bytes :: u64
  max_envelopes_per_group :: u64
  max_total_bytes :: u64
  max_publisher_bytes :: u64

definition default_limits :: native_store_limits where
  "default_limits =
     \<lparr>max_streams = 1024, max_streams_per_publisher = 16, max_objects_per_group = 4096,
      max_group_bytes = 64 * 1024 * 1024, max_envelopes_per_group = 128,
      max_total_bytes = 10 * 1024 * 1024 * 1024, max_publisher_bytes = 1024 * 1024 * 1024\<rparr>"

text \<open>The configuration of an open store; a duration is its number of nanoseconds.\<close>

record native_store_config =
  retention_bytes :: "u64 option"
  retention_age :: "nat option"
  limits :: native_store_limits

record stream_row =
  s_stream_id :: uuid
  s_publisher_id :: array32
  s_descriptor :: bytes
  s_high_water :: int
  s_active_epoch :: "uuid option"
  s_active_group :: "int option"

record group_row =
  gr_stream_id :: uuid
  gr_epoch_id :: uuid
  gr_key_group :: int
  gr_key_id :: array16
  gr_first_sequence :: int
  gr_last_sequence :: int
  gr_first_timestamp :: int
  gr_last_timestamp :: int
  gr_received_first_ms :: int
  gr_received_last_ms :: int
  gr_retained_bytes :: int
  gr_complete :: bool

record object_row =
  ob_stream_id :: uuid
  ob_sequence :: int
  ob_epoch_id :: uuid
  ob_key_group :: int
  ob_received_at_ms :: int
  ob_object :: bytes

record envelope_row =
  en_stream_id :: uuid
  en_epoch_id :: uuid
  en_key_group :: int
  en_recipient_id :: array32
  en_key_id :: array16
  en_received_at_ms :: int
  en_envelope :: bytes

record native_db =
  streams :: "stream_row list"
  groups :: "group_row list"
  objects :: "object_row list"
  envelopes :: "envelope_row list"

datatype group_item_kind = ObjectItem | EnvelopeItem

record native_commit =
  committed_through :: u64
  evicted_groups :: nat
  inserted :: bool

record native_retained_bounds =
  nb_oldest_sequence :: u64
  nb_newest_sequence :: u64
  nb_oldest_timestamp :: u64
  nb_newest_timestamp :: u64

record native_stream_summary =
  su_publisher_id :: array32
  su_high_water :: u64
  su_retained_bytes :: u64
  su_retained :: "native_retained_bounds option"

datatype store_error =
    Refused string
  | SqlFault
  | NativeFault native_stream_error
  | EnvelopeFault envelope_error
  | IdentityFault identity_error

definition empty_db :: native_db where
  "empty_db = \<lparr>streams = [], groups = [], objects = [], envelopes = []\<rparr>"

section \<open>Tables\<close>

type_synonym group_key = "uuid \<times> uuid \<times> int"

definition gr_key :: "group_row \<Rightarrow> group_key" where
  "gr_key g = (gr_stream_id g, gr_epoch_id g, gr_key_group g)"

definition ob_key :: "object_row \<Rightarrow> uuid \<times> int" where
  "ob_key r = (ob_stream_id r, ob_sequence r)"

definition ob_group :: "object_row \<Rightarrow> group_key" where
  "ob_group r = (ob_stream_id r, ob_epoch_id r, ob_key_group r)"

definition en_group :: "envelope_row \<Rightarrow> group_key" where
  "en_group r = (en_stream_id r, en_epoch_id r, en_key_group r)"

definition en_key :: "envelope_row \<Rightarrow> group_key \<times> array32" where
  "en_key r = (en_group r, en_recipient_id r)"

definition find_stream :: "native_db \<Rightarrow> uuid \<Rightarrow> stream_row option" where
  "find_stream db sid = find (\<lambda>r. s_stream_id r = sid) (streams db)"

definition find_group :: "native_db \<Rightarrow> group_key \<Rightarrow> group_row option" where
  "find_group db k = find (\<lambda>r. gr_key r = k) (groups db)"

definition find_object :: "native_db \<Rightarrow> uuid \<Rightarrow> int \<Rightarrow> object_row option" where
  "find_object db sid seq = find (\<lambda>r. ob_key r = (sid, seq)) (objects db)"

definition find_envelope :: "native_db \<Rightarrow> group_key \<Rightarrow> array32 \<Rightarrow> envelope_row option" where
  "find_envelope db k rid = find (\<lambda>r. en_key r = (k, rid)) (envelopes db)"

definition sql_int :: "int \<Rightarrow> bool" where
  "sql_int i \<longleftrightarrow> i64_MIN \<le> i \<and> i \<le> i64_MAX"

definition stream_check :: "stream_row \<Rightarrow> bool" where
  "stream_check s \<longleftrightarrow>
     s_high_water s \<ge> 0 \<and> sql_int (s_high_water s) \<and>
     (case s_active_group s of None \<Rightarrow> True | Some k \<Rightarrow> k > 0 \<and> sql_int k)"

definition group_check :: "group_row \<Rightarrow> bool" where
  "group_check g \<longleftrightarrow>
     gr_key_group g > 0 \<and> gr_first_sequence g > 0 \<and> gr_last_sequence g \<ge> gr_first_sequence g \<and>
     gr_first_timestamp g \<ge> 0 \<and> gr_last_timestamp g \<ge> gr_first_timestamp g \<and>
     gr_retained_bytes g \<ge> 0 \<and>
     list_all sql_int [gr_key_group g, gr_last_sequence g, gr_last_timestamp g, gr_retained_bytes g]"

definition object_check :: "object_row \<Rightarrow> bool" where
  "object_check r \<longleftrightarrow> ob_sequence r > 0 \<and> ob_key_group r > 0"

definition envelope_check :: "envelope_row \<Rightarrow> bool" where
  "envelope_check r \<longleftrightarrow> en_key_group r > 0"

text \<open>\<^verbatim>\<open>INSERT\<close>: the checks, the primary key and the foreign key of the new row.\<close>

definition insert_stream :: "stream_row \<Rightarrow> native_db \<Rightarrow> store_error + native_db" where
  "insert_stream s db =
     (if \<not> stream_check s \<or> find_stream db (s_stream_id s) \<noteq> None then Err SqlFault
      else Ok (db\<lparr>streams := streams db @ [s]\<rparr>))"

definition insert_group :: "group_row \<Rightarrow> native_db \<Rightarrow> store_error + native_db" where
  "insert_group g db =
     (if \<not> group_check g \<or> find_group db (gr_key g) \<noteq> None \<or> find_stream db (gr_stream_id g) = None
      then Err SqlFault
      else Ok (db\<lparr>groups := groups db @ [g]\<rparr>))"

definition insert_object :: "object_row \<Rightarrow> native_db \<Rightarrow> store_error + native_db" where
  "insert_object r db =
     (if \<not> object_check r \<or> find_object db (ob_stream_id r) (ob_sequence r) \<noteq> None \<or>
         find_group db (ob_group r) = None
      then Err SqlFault
      else Ok (db\<lparr>objects := objects db @ [r]\<rparr>))"

definition insert_envelope :: "envelope_row \<Rightarrow> native_db \<Rightarrow> store_error + native_db" where
  "insert_envelope r db =
     (if \<not> envelope_check r \<or> find_envelope db (en_group r) (en_recipient_id r) \<noteq> None \<or>
         find_group db (en_group r) = None
      then Err SqlFault
      else Ok (db\<lparr>envelopes := envelopes db @ [r]\<rparr>))"

text \<open>\<^verbatim>\<open>UPDATE ... WHERE\<close> the primary key matches: no row is not an error.\<close>

definition update_stream :: "uuid \<Rightarrow> (stream_row \<Rightarrow> stream_row) \<Rightarrow> native_db \<Rightarrow> store_error + native_db" where
  "update_stream sid f db =
     (if list_ex (\<lambda>r. s_stream_id r = sid \<and> \<not> stream_check (f r)) (streams db) then Err SqlFault
      else Ok (db\<lparr>streams := map (\<lambda>r. if s_stream_id r = sid then f r else r) (streams db)\<rparr>))"

definition update_group :: "group_key \<Rightarrow> (group_row \<Rightarrow> group_row) \<Rightarrow> native_db \<Rightarrow> store_error + native_db" where
  "update_group k f db =
     (if list_ex (\<lambda>r. gr_key r = k \<and> \<not> group_check (f r)) (groups db) then Err SqlFault
      else Ok (db\<lparr>groups := map (\<lambda>r. if gr_key r = k then f r else r) (groups db)\<rparr>))"

text \<open>\<^verbatim>\<open>DELETE FROM groups\<close>, with the objects and envelopes of the group.\<close>

definition delete_group :: "group_key \<Rightarrow> native_db \<Rightarrow> native_db" where
  "delete_group k db =
     db\<lparr>groups := filter (\<lambda>r. gr_key r \<noteq> k) (groups db),
        objects := filter (\<lambda>r. ob_group r \<noteq> k) (objects db),
        envelopes := filter (\<lambda>r. en_group r \<noteq> k) (envelopes db)\<rparr>"

text \<open>\<^verbatim>\<open>SELECT COALESCE(SUM(...), 0)\<close>\<close>

definition sql_sum :: "int list \<Rightarrow> store_error + int" where
  "sql_sum xs = (if sql_int (sum_list xs) then Ok (sum_list xs) else Err SqlFault)"

definition groups_of :: "native_db \<Rightarrow> uuid \<Rightarrow> group_row list" where
  "groups_of db sid = filter (\<lambda>g. gr_stream_id g = sid) (groups db)"

definition complete_groups_of :: "native_db \<Rightarrow> uuid \<Rightarrow> group_row list" where
  "complete_groups_of db sid = filter gr_complete (groups_of db sid)"

text \<open>\<^verbatim>\<open>ORDER BY key LIMIT 1\<close> and \<^verbatim>\<open>ORDER BY key DESC LIMIT 1\<close>\<close>

definition first_by :: "('a \<Rightarrow> 'b::linorder) \<Rightarrow> 'a list \<Rightarrow> 'a option" where
  "first_by k xs = (case sort_key k xs of [] \<Rightarrow> None | x # _ \<Rightarrow> Some x)"

definition last_by :: "('a \<Rightarrow> 'b::linorder) \<Rightarrow> 'a list \<Rightarrow> 'a option" where
  "last_by k xs = (case rev (sort_key k xs) of [] \<Rightarrow> None | x # _ \<Rightarrow> Some x)"

section \<open>Numbers\<close>

definition to_sql_u64 :: "u64 \<Rightarrow> store_error + int" where
  "to_sql_u64 v = (if uint v \<le> i64_MAX then Ok (uint v) else Err (Refused ''exceeds the durable SQLite bound''))"

definition from_sql_u64 :: "int \<Rightarrow> store_error + u64" where
  "from_sql_u64 i = (if i \<ge> 0 then Ok (word_of_int i) else Err (Refused ''negative in durable state''))"

section \<open>Opening\<close>

definition limits_inconsistent :: "native_store_limits \<Rightarrow> bool" where
  "limits_inconsistent l \<longleftrightarrow>
     max_streams l = 0 \<or> max_streams_per_publisher l = 0 \<or>
     max_streams_per_publisher l > max_streams l \<or> max_objects_per_group l = 0 \<or>
     max_group_bytes l = 0 \<or> max_envelopes_per_group l = 0 \<or> max_total_bytes l = 0 \<or>
     max_publisher_bytes l = 0 \<or> max_publisher_bytes l > max_total_bytes l"

definition open_with_limits ::
  "u64 option \<Rightarrow> nat option \<Rightarrow> native_store_limits \<Rightarrow> store_error + native_store_config" where
  "open_with_limits r_bytes r_age l =
     (if r_bytes = Some 0 \<or> r_age = Some 0
      then Err (Refused ''native retention limits must be positive when configured'')
      else if limits_inconsistent l then Err (Refused ''native store hard limits are zero or inconsistent'')
      else Ok \<lparr>retention_bytes = r_bytes, retention_age = r_age, limits = l\<rparr>)"

section \<open>Descriptors\<close>

definition descriptor_in_transaction ::
  "'z native_env_scheme \<Rightarrow> native_db \<Rightarrow> uuid \<Rightarrow> store_error + stream_descriptor option" where
  "descriptor_in_transaction E db sid =
     (case find_stream db sid of
        None \<Rightarrow> Ok None
      | Some s \<Rightarrow> and_then (map_err NativeFault (descriptor_decode E (s_descriptor s))) (\<lambda>d. Ok (Some d)))"

definition put_descriptor ::
  "'z native_env_scheme \<Rightarrow> native_store_config \<Rightarrow> stream_descriptor \<Rightarrow> native_db \<Rightarrow> store_error + native_db" where
  "put_descriptor E cfg d db =
     and_then (map_err NativeFault (descriptor_encode E d)) (\<lambda>encoded.
     and_then (map_err IdentityFault (identity_id E (d_publisher (d_body d)))) (\<lambda>pid.
       let sid = d_stream_id (d_body d)
       in case find_stream db sid of
            Some s \<Rightarrow>
              if s_publisher_id s \<noteq> pid then Err (Refused ''stream ID is already owned by another publisher'')
              else if s_descriptor s \<noteq> encoded
              then update_stream sid (\<lambda>r. r\<lparr>s_descriptor := encoded\<rparr>) db
              else Ok db
          | None \<Rightarrow>
              if length (streams db) \<ge> unat (max_streams (limits cfg)) \<or>
                 length (filter (\<lambda>r. s_publisher_id r = pid) (streams db))
                   \<ge> unat (max_streams_per_publisher (limits cfg))
              then Err (Refused ''native stream descriptor limit reached'')
              else insert_stream
                     \<lparr>s_stream_id = sid, s_publisher_id = pid, s_descriptor = encoded, s_high_water = 0,
                      s_active_epoch = None, s_active_group = None\<rparr> db))"

section \<open>Retention\<close>

definition stream_bytes :: "native_db \<Rightarrow> uuid \<Rightarrow> store_error + u64" where
  "stream_bytes db sid =
     and_then (sql_sum (map gr_retained_bytes (groups_of db sid))) from_sql_u64"

text \<open>\<^verbatim>\<open>now_ms.saturating_sub(i64::try_from(age.as_millis()).unwrap_or(i64::MAX))\<close>\<close>

definition age_cutoff :: "native_store_config \<Rightarrow> i64 \<Rightarrow> int option" where
  "age_cutoff cfg now_ms =
     map_option (\<lambda>age. let millis = int (age div 1000000)
       in sint (saturating_sub_i64 now_ms (word_of_int (min millis i64_MAX)))) (retention_age cfg)"

lemma first_by_set: "first_by k xs = Some x \<Longrightarrow> x \<in> set xs"
  unfolding first_by_def by (metis list.set_intros(1) list.simps(4,5) neq_Nil_conv option.distinct(1)
      option.inject set_sort)

lemma delete_group_shrinks:
  "g \<in> set (groups db) \<Longrightarrow> length (groups (delete_group (gr_key g) db)) < length (groups db)"
  by (simp add: delete_group_def) (rule length_filter_less [where x = g], simp_all)

function enforce_retention_loop ::
  "native_store_config \<Rightarrow> uuid \<Rightarrow> int option \<Rightarrow> native_db \<Rightarrow> nat \<Rightarrow> store_error + native_db \<times> nat" where
  "enforce_retention_loop cfg sid cutoff db removed =
     and_then (case retention_bytes cfg of
                 Some l \<Rightarrow> and_then (stream_bytes db sid) (\<lambda>n. Ok (n > l))
               | None \<Rightarrow> Ok False)
       (\<lambda>bytes_exceeded.
          case first_by gr_first_sequence (complete_groups_of db sid) of
            None \<Rightarrow> Ok (db, removed)
          | Some oldest \<Rightarrow>
              let age_exceeded = (case cutoff of Some c \<Rightarrow> gr_received_last_ms oldest < c | None \<Rightarrow> False)
              in if \<not> bytes_exceeded \<and> \<not> age_exceeded then Ok (db, removed)
                 else enforce_retention_loop cfg sid cutoff (delete_group (gr_key oldest) db)
                        (saturating_add_usize removed 1))"
  by pat_completeness auto
termination
  by (relation "measure (\<lambda>(cfg, sid, cutoff, db, removed). length (groups db))")
    (auto dest!: first_by_set simp: complete_groups_of_def groups_of_def intro: delete_group_shrinks)

declare enforce_retention_loop.simps [simp del]

definition enforce_retention ::
  "native_store_config \<Rightarrow> uuid \<Rightarrow> i64 \<Rightarrow> native_db \<Rightarrow> store_error + native_db \<times> nat" where
  "enforce_retention cfg sid now_ms db = enforce_retention_loop cfg sid (age_cutoff cfg now_ms) db 0"

fun retention_over ::
  "native_store_config \<Rightarrow> i64 \<Rightarrow> uuid list \<Rightarrow> native_db \<Rightarrow> nat \<Rightarrow> store_error + native_db \<times> nat" where
  "retention_over cfg now_ms [] db removed = Ok (db, removed)"
| "retention_over cfg now_ms (sid # sids) db removed =
     and_then (enforce_retention cfg sid now_ms db) (\<lambda>(db', n).
       retention_over cfg now_ms sids db' (saturating_add_usize removed n))"

definition enforce_retention_at ::
  "native_store_config \<Rightarrow> i64 \<Rightarrow> native_db \<Rightarrow> store_error + native_db \<times> nat" where
  "enforce_retention_at cfg now_ms db = retention_over cfg now_ms (sort (map s_stream_id (streams db))) db 0"

section \<open>Quotas\<close>

definition publisher_owns :: "native_db \<Rightarrow> array32 \<Rightarrow> group_row \<Rightarrow> bool" where
  "publisher_owns db pid g \<longleftrightarrow>
     (case find_stream db (gr_stream_id g) of Some s \<Rightarrow> s_publisher_id s = pid | None \<Rightarrow> False)"

definition check_group_growth ::
  "native_store_config \<Rightarrow> native_db \<Rightarrow> array32 \<Rightarrow> group_key \<Rightarrow> u64 \<Rightarrow> group_item_kind \<Rightarrow> store_error + unit" where
  "check_group_growth cfg db pid k added kind =
     and_then (ok_or (find_group db k) SqlFault) (\<lambda>g.
       let item_count = (case kind of
             ObjectItem \<Rightarrow> length (filter (\<lambda>r. ob_group r = k) (objects db))
           | EnvelopeItem \<Rightarrow> length (filter (\<lambda>r. en_group r = k) (envelopes db)));
           item_limit = (case kind of
             ObjectItem \<Rightarrow> max_objects_per_group (limits cfg)
           | EnvelopeItem \<Rightarrow> max_envelopes_per_group (limits cfg))
       in if item_count \<ge> unat item_limit then Err (Refused ''native keyframe group resource limit reached'')
          else and_then (from_sql_u64 (gr_retained_bytes g)) (\<lambda>group_bytes.
            if saturating_add_u64 group_bytes added > max_group_bytes (limits cfg)
            then Err (Refused ''native keyframe group resource limit reached'')
            else and_then (sql_sum (map gr_retained_bytes (groups db))) (\<lambda>n_total.
            and_then (sql_sum (map gr_retained_bytes (filter (publisher_owns db pid) (groups db)))) (\<lambda>n_publisher.
            and_then (from_sql_u64 n_total) (\<lambda>total_bytes.
              if saturating_add_u64 total_bytes added > max_total_bytes (limits cfg)
              then Err (Refused ''native relay or publisher byte quota reached'')
              else and_then (from_sql_u64 n_publisher) (\<lambda>publisher_bytes.
                if saturating_add_u64 publisher_bytes added > max_publisher_bytes (limits cfg)
                then Err (Refused ''native relay or publisher byte quota reached'')
                else Ok ()))))))"

section \<open>Storing objects\<close>

definition validate_group_progression ::
  "uuid option \<Rightarrow> int option \<Rightarrow> uuid \<Rightarrow> int \<Rightarrow> native_object \<Rightarrow> store_error + unit" where
  "validate_group_progression active_epoch active_group new_epoch new_group obj =
     (if (case (active_epoch, active_group) of
            (Some e, Some k) \<Rightarrow> e = new_epoch \<and> new_group \<le> k
          | _ \<Rightarrow> False)
      then Err (Refused ''native key group regressed within one epoch'')
      else if h_kind (o_header obj) = Cursor \<or> \<not> h_random_access (o_header obj)
      then Err (Refused ''new native group does not begin at a random-access video boundary'')
      else Ok ())"

text \<open>
  Crossing into a new group: the active group is completed, the new group's row is inserted and
  becomes active.
\<close>

definition start_group ::
  "stream_row \<Rightarrow> native_object \<Rightarrow> int \<Rightarrow> int \<Rightarrow> i64 \<Rightarrow> native_db \<Rightarrow> store_error + native_db" where
  "start_group s obj sequence key_group received db =
     (let h = o_header obj; sid = h_stream_id h; eid = h_epoch_id h
      in and_then (case (s_active_epoch s, s_active_group s) of
                     (Some e, Some k) \<Rightarrow> update_group (sid, e, k) (\<lambda>g. g\<lparr>gr_complete := True\<rparr>) db
                   | _ \<Rightarrow> Ok db) (\<lambda>db1.
         and_then (validate_group_progression (s_active_epoch s) (s_active_group s) eid key_group obj) (\<lambda>_.
         and_then (to_sql_u64 (h_timestamp h)) (\<lambda>timestamp.
         and_then (insert_group
             \<lparr>gr_stream_id = sid, gr_epoch_id = eid, gr_key_group = key_group, gr_key_id = h_key_id h,
              gr_first_sequence = sequence, gr_last_sequence = sequence,
              gr_first_timestamp = timestamp, gr_last_timestamp = timestamp,
              gr_received_first_ms = sint received, gr_received_last_ms = sint received,
              gr_retained_bytes = 0, gr_complete = False\<rparr> db1) (\<lambda>db2.
           update_stream sid (\<lambda>r. r\<lparr>s_active_epoch := Some eid, s_active_group := Some key_group\<rparr>) db2)))))"

definition group_changed :: "stream_row \<Rightarrow> uuid \<Rightarrow> int \<Rightarrow> bool" where
  "group_changed s eid key_group \<longleftrightarrow> s_active_epoch s \<noteq> Some eid \<or> s_active_group s \<noteq> Some key_group"

definition enter_group ::
  "stream_row \<Rightarrow> native_object \<Rightarrow> int \<Rightarrow> int \<Rightarrow> i64 \<Rightarrow> native_db \<Rightarrow> store_error + native_db" where
  "enter_group s obj sequence key_group received db =
     (let h = o_header obj
      in if group_changed s (h_epoch_id h) key_group
         then start_group s obj sequence key_group received db
         else and_then (ok_or (find_group db (h_stream_id h, h_epoch_id h, key_group)) SqlFault) (\<lambda>g.
           if gr_key_id g \<noteq> h_key_id h
           then Err (Refused ''native group changed key ID without rotating group'') else Ok db))"

text \<open>The object row, the group's accounting and the stream's high-water mark.\<close>

definition append_object ::
  "group_key \<Rightarrow> int \<Rightarrow> u64 \<Rightarrow> i64 \<Rightarrow> bytes \<Rightarrow> native_db \<Rightarrow> store_error + native_db" where
  "append_object k sequence timestamp received encoded db =
     (let (sid, eid, key_group) = k
      in and_then (insert_object
             \<lparr>ob_stream_id = sid, ob_sequence = sequence, ob_epoch_id = eid, ob_key_group = key_group,
              ob_received_at_ms = sint received, ob_object = encoded\<rparr> db) (\<lambda>db1.
         and_then (to_sql_u64 (of_nat (length encoded))) (\<lambda>object_bytes.
         and_then (to_sql_u64 timestamp) (\<lambda>ts.
         and_then (update_group k (\<lambda>g. g\<lparr>gr_last_sequence := sequence, gr_last_timestamp := ts,
                       gr_received_last_ms := max (gr_received_last_ms g) (sint received),
                       gr_retained_bytes := gr_retained_bytes g + object_bytes\<rparr>) db1) (\<lambda>db2.
           update_stream sid (\<lambda>r. r\<lparr>s_high_water := sequence\<rparr>) db2)))))"

definition store_object ::
  "'z native_env_scheme \<Rightarrow> native_store_config \<Rightarrow> native_object \<Rightarrow> i64 \<Rightarrow> native_db
    \<Rightarrow> store_error + native_db \<times> native_commit" where
  "store_object E cfg obj received db =
     (let h = o_header obj; sid = h_stream_id h
      in and_then (map_err NativeFault (validate_shape E obj)) (\<lambda>_.
         and_then (descriptor_in_transaction E db sid) (\<lambda>found.
         and_then (ok_or found (Refused ''native object stream has no descriptor'')) (\<lambda>d.
         and_then (map_err NativeFault (verify_public E (d_publisher (d_body d)) obj)) (\<lambda>_.
         and_then (map_err NativeFault (object_encode E (d_publisher (d_body d)) obj)) (\<lambda>encoded.
         and_then (to_sql_u64 (h_sequence h)) (\<lambda>sequence.
           case find_object db sid sequence of
             Some existing \<Rightarrow>
               if ob_object existing \<noteq> encoded
               then Err (Refused ''native sequence already exists with different content'')
               else Ok (db, \<lparr>committed_through = h_sequence h, evicted_groups = 0, inserted = False\<rparr>)
           | None \<Rightarrow>
               and_then (ok_or (find_stream db sid) SqlFault) (\<lambda>s.
               if s_high_water s + 1 > i64_MAX then Err (Refused ''native sequence space exhausted'')
               else if sequence \<noteq> s_high_water s + 1 then Err (Refused ''native sequence is out of order'')
               else and_then (to_sql_u64 (h_key_group h)) (\<lambda>key_group.
                 and_then (enter_group s obj sequence key_group received db) (\<lambda>db1.
                 and_then (map_err IdentityFault (identity_id E (d_publisher (d_body d)))) (\<lambda>pid.
                 and_then (check_group_growth cfg db1 pid (sid, h_epoch_id h, key_group)
                             (of_nat (length encoded)) ObjectItem) (\<lambda>_.
                 and_then (append_object (sid, h_epoch_id h, key_group) sequence (h_timestamp h) received
                             encoded db1) (\<lambda>db2.
                 and_then (enforce_retention cfg sid received db2) (\<lambda>(db3, n).
                   Ok (db3, \<lparr>committed_through = h_sequence h, evicted_groups = n,
                             inserted = True\<rparr>)))))))))))))))"

section \<open>Storing envelopes\<close>

definition append_envelope ::
  "group_key \<Rightarrow> array32 \<Rightarrow> array16 \<Rightarrow> i64 \<Rightarrow> bytes \<Rightarrow> native_db \<Rightarrow> store_error + native_db" where
  "append_envelope k rid kid received encoded db =
     (let (sid, eid, key_group) = k
      in and_then (insert_envelope
             \<lparr>en_stream_id = sid, en_epoch_id = eid, en_key_group = key_group, en_recipient_id = rid,
              en_key_id = kid, en_received_at_ms = sint received, en_envelope = encoded\<rparr> db) (\<lambda>db1.
         and_then (to_sql_u64 (of_nat (length encoded))) (\<lambda>n.
           update_group k (\<lambda>g. g\<lparr>gr_retained_bytes := gr_retained_bytes g + n\<rparr>) db1)))"

definition store_envelope ::
  "'z envelope_env_scheme \<Rightarrow> native_store_config \<Rightarrow> key_envelope \<Rightarrow> i64 \<Rightarrow> native_db
    \<Rightarrow> store_error + native_db \<times> bool" where
  "store_envelope E cfg e received db =
     (let h = e_header e; sid = k_stream_id h
      in and_then (map_err EnvelopeFault (envelope_validate_shape e)) (\<lambda>_.
         and_then (descriptor_in_transaction E db sid) (\<lambda>found.
         and_then (ok_or found (Refused ''key envelope stream has no descriptor'')) (\<lambda>d.
         and_then (map_err EnvelopeFault (envelope_verify_public E (d_publisher (d_body d)) e)) (\<lambda>_.
         and_then (map_err EnvelopeFault (envelope_encode E (d_publisher (d_body d)) e)) (\<lambda>encoded.
         and_then (to_sql_u64 (k_key_group_id h)) (\<lambda>key_group.
           let k = (sid, k_epoch_id h, key_group)
           in case find_group db k of
                None \<Rightarrow> Ok (db, False)
              | Some g \<Rightarrow>
                  if gr_key_id g \<noteq> k_key_id h
                  then Err (Refused ''key envelope contradicts the retained ciphertext group key'')
                  else if find_envelope db k (k_recipient_id h) \<noteq> None then Ok (db, False)
                  else and_then (map_err IdentityFault (identity_id E (d_publisher (d_body d)))) (\<lambda>pid.
                    and_then (check_group_growth cfg db pid k (of_nat (length encoded)) EnvelopeItem) (\<lambda>_.
                    and_then (append_envelope k (k_recipient_id h) (k_key_id h) received encoded db) (\<lambda>db1.
                    and_then (enforce_retention cfg sid received db1) (\<lambda>(db2, n).
                      Ok (db2, True))))))))))))"

section \<open>Finishing a publisher session\<close>

definition finalize_stream :: "uuid \<Rightarrow> native_db \<Rightarrow> store_error + native_db" where
  "finalize_stream sid db =
     (case find_stream db sid of
        None \<Rightarrow> Ok db
      | Some s \<Rightarrow>
          (case (s_active_epoch s, s_active_group s) of
             (Some e, Some k) \<Rightarrow>
               and_then (update_group (sid, e, k) (\<lambda>g. g\<lparr>gr_complete := True\<rparr>) db)
                 (update_stream sid (\<lambda>r. r\<lparr>s_active_epoch := None, s_active_group := None\<rparr>))
           | _ \<Rightarrow> Ok db))"

section \<open>Reading\<close>

definition get_object ::
  "'z native_env_scheme \<Rightarrow> native_db \<Rightarrow> uuid \<Rightarrow> u64 \<Rightarrow> store_error + native_object option" where
  "get_object E db sid seq =
     and_then (descriptor_in_transaction E db sid) (\<lambda>found.
       case found of
         None \<Rightarrow> Ok None
       | Some d \<Rightarrow>
           and_then (to_sql_u64 seq) (\<lambda>sequence.
             case find_object db sid sequence of
               None \<Rightarrow> Ok None
             | Some r \<Rightarrow>
                 and_then (map_err NativeFault (object_decode E (d_publisher (d_body d)) (ob_object r)))
                   (\<lambda>obj. Ok (Some obj))))"

definition list_objects ::
  "'z native_env_scheme \<Rightarrow> native_db \<Rightarrow> uuid \<Rightarrow> u64 \<Rightarrow> nat \<Rightarrow> store_error + native_object list" where
  "list_objects E db sid after limit =
     (if limit = 0 \<or> limit > MAX_LIST_OBJECTS
      then Err (Refused ''native object list limit is outside its bounds'')
      else and_then (descriptor_in_transaction E db sid) (\<lambda>found.
        and_then (ok_or found (Refused ''native stream has no descriptor'')) (\<lambda>d.
        and_then (to_sql_u64 after) (\<lambda>sequence.
          try_map (\<lambda>r. map_err NativeFault (object_decode E (d_publisher (d_body d)) (ob_object r)))
            (take limit (sort_key ob_sequence
               (filter (\<lambda>r. ob_stream_id r = sid \<and> ob_sequence r > sequence) (objects db))))))))"

text \<open>The join of the envelopes with their groups, newest group first.\<close>

definition envelope_join :: "native_db \<Rightarrow> uuid \<Rightarrow> array32 \<Rightarrow> (int \<times> bytes) list" where
  "envelope_join db sid rid =
     concat (map (\<lambda>r. map (\<lambda>g. (gr_first_sequence g, en_envelope r))
                        (filter (\<lambda>g. gr_key g = en_group r) (groups db)))
       (filter (\<lambda>r. en_stream_id r = sid \<and> en_recipient_id r = rid) (envelopes db)))"

definition list_envelopes ::
  "'z envelope_env_scheme \<Rightarrow> native_db \<Rightarrow> uuid \<Rightarrow> array32 \<Rightarrow> nat \<Rightarrow> store_error + key_envelope list" where
  "list_envelopes E db sid rid limit =
     (if rid = 0 \<or> limit = 0 \<or> limit > MAX_LIST_OBJECTS then Err (Refused ''invalid native envelope list request'')
      else and_then (descriptor_in_transaction E db sid) (\<lambda>found.
        and_then (ok_or found (Refused ''native stream has no descriptor'')) (\<lambda>d.
          try_map (\<lambda>(_, bs). map_err EnvelopeFault (envelope_decode E (d_publisher (d_body d)) bs))
            (take limit (rev (sort_key fst (envelope_join db sid rid)))))))"

definition get_envelope ::
  "'z envelope_env_scheme \<Rightarrow> native_db \<Rightarrow> uuid \<Rightarrow> uuid \<Rightarrow> u64 \<Rightarrow> array32
    \<Rightarrow> store_error + key_envelope option" where
  "get_envelope E db sid eid key_group rid =
     (if is_nil sid \<or> is_nil eid \<or> key_group = 0 \<or> rid = 0
      then Err (Refused ''invalid native envelope lookup'')
      else and_then (descriptor_in_transaction E db sid) (\<lambda>found.
        and_then (ok_or found (Refused ''native stream has no descriptor'')) (\<lambda>d.
        and_then (to_sql_u64 key_group) (\<lambda>k.
          case find_envelope db (sid, eid, k) rid of
            None \<Rightarrow> Ok None
          | Some r \<Rightarrow>
              and_then (map_err EnvelopeFault (envelope_decode E (d_publisher (d_body d)) (en_envelope r)))
                (\<lambda>e. Ok (Some e))))))"

definition high_water :: "native_db \<Rightarrow> uuid \<Rightarrow> store_error + u64 option" where
  "high_water db sid =
     (case find_stream db sid of
        None \<Rightarrow> Ok None
      | Some s \<Rightarrow> and_then (from_sql_u64 (s_high_water s)) (\<lambda>v. Ok (Some v)))"

definition retained_bounds_in_connection ::
  "native_db \<Rightarrow> uuid \<Rightarrow> store_error + native_retained_bounds option" where
  "retained_bounds_in_connection db sid =
     (case complete_groups_of db sid of
        [] \<Rightarrow> Ok None
      | g # gs \<Rightarrow>
          and_then (from_sql_u64 (fold min (map gr_first_sequence gs) (gr_first_sequence g))) (\<lambda>oldest.
          and_then (from_sql_u64 (fold max (map gr_last_sequence gs) (gr_last_sequence g))) (\<lambda>newest.
          and_then (from_sql_u64 (fold min (map gr_first_timestamp gs) (gr_first_timestamp g))) (\<lambda>oldest_ts.
          and_then (from_sql_u64 (fold max (map gr_last_timestamp gs) (gr_last_timestamp g))) (\<lambda>newest_ts.
            Ok (Some \<lparr>nb_oldest_sequence = oldest, nb_newest_sequence = newest,
                      nb_oldest_timestamp = oldest_ts, nb_newest_timestamp = newest_ts\<rparr>))))))"

definition subscription_anchor :: "native_db \<Rightarrow> uuid \<Rightarrow> subscription_start \<Rightarrow> store_error + u64" where
  "subscription_anchor db sid start =
     and_then (ok_or (find_stream db sid) (Refused ''subscription stream does not exist'')) (\<lambda>s.
     and_then (from_sql_u64 (s_high_water s)) (\<lambda>hw.
     and_then (ok_or (checked_add_u64 hw 1) (Refused ''native sequence space exhausted'')) (\<lambda>next_live.
     and_then (case start of
                 Live \<Rightarrow> Ok (last_by gr_first_sequence (groups_of db sid))
               | OldestRetained \<Rightarrow> Ok (first_by gr_first_sequence (complete_groups_of db sid))
               | Sequence seq \<Rightarrow> and_then (to_sql_u64 seq) (\<lambda>n.
                   Ok (last_by gr_first_sequence
                         (filter (\<lambda>g. gr_first_sequence g \<le> n) (groups_of db sid))))
               | Timestamp ts \<Rightarrow> and_then (to_sql_u64 ts) (\<lambda>n.
                   Ok (last_by (\<lambda>g. (gr_first_timestamp g, gr_first_sequence g))
                         (filter (\<lambda>g. gr_first_timestamp g \<le> n) (groups_of db sid)))))
       (\<lambda>selected. case selected of
          Some g \<Rightarrow> from_sql_u64 (gr_first_sequence g)
        | None \<Rightarrow> Ok next_live))))"

definition summaries :: "native_db \<Rightarrow> store_error + (uuid \<times> native_stream_summary) list" where
  "summaries db =
     try_map (\<lambda>s. and_then (sql_sum (map gr_retained_bytes (groups_of db (s_stream_id s)))) (\<lambda>n.
         and_then (from_sql_u64 (s_high_water s)) (\<lambda>hw.
         and_then (from_sql_u64 n) (\<lambda>retained.
         and_then (retained_bounds_in_connection db (s_stream_id s)) (\<lambda>bounds.
           Ok (s_stream_id s, \<lparr>su_publisher_id = s_publisher_id s, su_high_water = hw,
                               su_retained_bytes = retained, su_retained = bounds\<rparr>))))))
       (sort_key s_stream_id (streams db))"

end
