(* ===== verification/StoreInvariant.thy ===== *)
theory StoreInvariant
  imports NativeStore
begin

text \<open>
  The invariant of the relay's native store and the proof that every transaction keeps it:
  keys are unique and references resolve, the groups of a stream are disjoint sequence
  intervals, every sequence from the start of a retained group to the stream's high-water mark
  is held by exactly one object, the only incomplete group of a stream is its active one and
  ends at the high-water mark, an envelope carries its group's key identifier, and the byte
  count of a group is the size of what it holds.
\<close>

section \<open>Rows and keys\<close>

lemma key_unique:
  "distinct (map key xs) \<Longrightarrow> a \<in> set xs \<Longrightarrow> b \<in> set xs \<Longrightarrow> key a = key b \<Longrightarrow> a = b"
  by (auto simp: distinct_map inj_on_def)

lemma find_None: "find P xs = None \<longleftrightarrow> (\<forall>x\<in>set xs. \<not> P x)"
  by (auto simp: find_None_iff)

lemma find_Some_set: "find P xs = Some x \<Longrightarrow> x \<in> set xs \<and> P x"
  by (auto simp: find_Some_iff)

lemma find_key_iff:
  assumes "distinct (map key xs)"
  shows "find (\<lambda>r. key r = k) xs = Some r \<longleftrightarrow> r \<in> set xs \<and> key r = k"
proof
  assume "r \<in> set xs \<and> key r = k"
  then have r: "r \<in> set xs" "key r = k" by simp_all
  then obtain r' where r': "find (\<lambda>r. key r = k) xs = Some r'"
    by (cases "find (\<lambda>r. key r = k) xs") (auto simp: find_None)
  from find_Some_set [OF r'] r have "r' = r" by (intro key_unique [OF assms]) simp_all
  with r' show "find (\<lambda>r. key r = k) xs = Some r" by simp
qed (auto dest: find_Some_set)

lemma update_keys:
  "(\<And>r. key (f r) = key r) \<Longrightarrow> map key (map (\<lambda>r. if P r then f r else r) xs) = map key xs"
  by simp

lemma distinct_filter_keys: "distinct (map key xs) \<Longrightarrow> distinct (map key (filter P xs))"
  by (simp add: distinct_map_filter)

lemma distinct_snoc_key:
  "distinct (map key (xs @ [x])) \<longleftrightarrow> distinct (map key xs) \<and> (\<forall>y\<in>set xs. key y \<noteq> key x)"
  by (auto simp: image_iff)

lemma first_by_least: "first_by k xs = Some x \<Longrightarrow> x \<in> set xs \<and> (\<forall>y\<in>set xs. k x \<le> k y)"
proof -
  assume "first_by k xs = Some x"
  then obtain zs where zs: "sort_key k xs = x # zs"
    by (auto simp: first_by_def split: list.splits)
  have "sorted (map k (x # zs))" using sorted_sort_key [of k xs] zs by simp
  moreover have "set (x # zs) = set xs" by (metis set_sort zs)
  ultimately show ?thesis by auto
qed

lemma last_by_greatest: "last_by k xs = Some x \<Longrightarrow> x \<in> set xs \<and> (\<forall>y\<in>set xs. k y \<le> k x)"
proof -
  assume "last_by k xs = Some x"
  then obtain zs where "rev (sort_key k xs) = x # zs"
    by (auto simp: last_by_def split: list.splits)
  then have zs: "sort_key k xs = rev zs @ [x]" by (metis rev_rev_ident rev.simps(2))
  have "sorted (map k (rev zs @ [x]))" using sorted_sort_key [of k xs] zs by simp
  moreover have "set (rev zs @ [x]) = set xs" by (metis set_sort zs)
  ultimately show ?thesis by (auto simp: sorted_append)
qed

lemma sort_key_Nil: "sort_key k xs = [] \<longleftrightarrow> xs = []"
  by (metis set_empty set_sort)

lemma first_by_None: "first_by k xs = None \<longleftrightarrow> xs = []"
  by (auto simp: first_by_def sort_key_Nil split: list.splits)

lemma first_by_Nil [simp]: "first_by k [] = None"
  by (simp add: first_by_def)

lemma last_by_None: "last_by k xs = None \<longleftrightarrow> xs = []"
  by (auto simp: last_by_def sort_key_Nil split: list.splits)

section \<open>The invariant\<close>

definition active :: "stream_row \<Rightarrow> (uuid \<times> int) option" where
  "active s = (case (s_active_epoch s, s_active_group s) of (Some e, Some k) \<Rightarrow> Some (e, k) | _ \<Rightarrow> None)"

lemma active_high_water [simp]: "active (s\<lparr>s_high_water := n\<rparr>) = active s"
  by (simp add: active_def)

text \<open>
  Inside the transaction that stores the first object of a group, the stream named by \<open>pend\<close>
  has a group row for the next sequence before the object is there.
\<close>

definition through :: "uuid option \<Rightarrow> stream_row \<Rightarrow> int" where
  "through pend s = s_high_water s + (if pend = Some (s_stream_id s) then 1 else 0)"

definition group_in_stream :: "uuid option \<Rightarrow> stream_row \<Rightarrow> group_row \<Rightarrow> bool" where
  "group_in_stream pend s g \<longleftrightarrow>
     s_stream_id s = gr_stream_id g \<and> gr_last_sequence g \<le> through pend s \<and>
     (gr_complete g \<longleftrightarrow> active s \<noteq> Some (gr_epoch_id g, gr_key_group g))"

definition inv_keys :: "native_db \<Rightarrow> bool" where
  "inv_keys db \<longleftrightarrow>
     distinct (map s_stream_id (streams db)) \<and> distinct (map gr_key (groups db)) \<and>
     distinct (map ob_key (objects db)) \<and> distinct (map en_key (envelopes db))"

definition inv_rows :: "native_db \<Rightarrow> bool" where
  "inv_rows db \<longleftrightarrow>
     (\<forall>s\<in>set (streams db). stream_check s \<and> (s_active_epoch s = None \<longleftrightarrow> s_active_group s = None)) \<and>
     (\<forall>g\<in>set (groups db). group_check g)"

definition inv_owner :: "uuid option \<Rightarrow> native_db \<Rightarrow> bool" where
  "inv_owner pend db \<longleftrightarrow> (\<forall>g\<in>set (groups db). \<exists>s\<in>set (streams db). group_in_stream pend s g)"

definition inv_active :: "uuid option \<Rightarrow> native_db \<Rightarrow> bool" where
  "inv_active pend db \<longleftrightarrow>
     (\<forall>s\<in>set (streams db). \<forall>e k. active s = Some (e, k) \<longrightarrow>
        (\<exists>g\<in>set (groups db). gr_key g = (s_stream_id s, e, k) \<and> gr_last_sequence g = through pend s))"

definition inv_disjoint :: "native_db \<Rightarrow> bool" where
  "inv_disjoint db \<longleftrightarrow>
     (\<forall>g\<in>set (groups db). \<forall>g'\<in>set (groups db). gr_stream_id g = gr_stream_id g' \<longrightarrow> gr_key g \<noteq> gr_key g' \<longrightarrow>
        gr_last_sequence g < gr_first_sequence g' \<or> gr_last_sequence g' < gr_first_sequence g)"

definition inv_objects :: "native_db \<Rightarrow> bool" where
  "inv_objects db \<longleftrightarrow>
     (\<forall>r\<in>set (objects db). \<exists>g\<in>set (groups db). gr_key g = ob_group r \<and>
        gr_first_sequence g \<le> ob_sequence r \<and> ob_sequence r \<le> gr_last_sequence g)"

definition inv_cover :: "native_db \<Rightarrow> bool" where
  "inv_cover db \<longleftrightarrow>
     (\<forall>s\<in>set (streams db). \<forall>g\<in>set (groups db). gr_stream_id g = s_stream_id s \<longrightarrow>
        (\<forall>n. gr_first_sequence g \<le> n \<longrightarrow> n \<le> s_high_water s \<longrightarrow>
           (\<exists>r\<in>set (objects db). ob_key r = (s_stream_id s, n))))"

definition inv_envelopes :: "native_db \<Rightarrow> bool" where
  "inv_envelopes db \<longleftrightarrow>
     (\<forall>r\<in>set (envelopes db). \<exists>g\<in>set (groups db). gr_key g = en_group r \<and> gr_key_id g = en_key_id r)"

definition held_bytes :: "native_db \<Rightarrow> group_key \<Rightarrow> int" where
  "held_bytes db k =
     sum_list (map (\<lambda>r. int (length (ob_object r))) (filter (\<lambda>r. ob_group r = k) (objects db))) +
     sum_list (map (\<lambda>r. int (length (en_envelope r))) (filter (\<lambda>r. en_group r = k) (envelopes db)))"

definition inv_bytes :: "native_db \<Rightarrow> bool" where
  "inv_bytes db \<longleftrightarrow> (\<forall>g\<in>set (groups db). gr_retained_bytes g = held_bytes db (gr_key g))"

definition store_inv_upto :: "uuid option \<Rightarrow> native_db \<Rightarrow> bool" where
  "store_inv_upto pend db \<longleftrightarrow>
     inv_keys db \<and> inv_rows db \<and> inv_owner pend db \<and> inv_active pend db \<and> inv_disjoint db \<and>
     inv_objects db \<and> inv_cover db \<and> inv_envelopes db \<and> inv_bytes db"

definition store_inv :: "native_db \<Rightarrow> bool" where
  "store_inv db \<longleftrightarrow> store_inv_upto None db"

lemmas inv_defs = inv_keys_def inv_rows_def inv_owner_def inv_active_def inv_disjoint_def
  inv_objects_def inv_cover_def inv_envelopes_def inv_bytes_def

lemma store_inv_empty: "store_inv empty_db"
  by (simp add: store_inv_def store_inv_upto_def inv_defs empty_db_def)

lemma through_None [simp]: "through None s = s_high_water s"
  by (simp add: through_def)

section \<open>Consequences\<close>

lemma stream_unique:
  "inv_keys db \<Longrightarrow> s \<in> set (streams db) \<Longrightarrow> s' \<in> set (streams db) \<Longrightarrow> s_stream_id s = s_stream_id s' \<Longrightarrow> s = s'"
  by (auto simp: inv_keys_def dest: key_unique)

lemma group_unique:
  "inv_keys db \<Longrightarrow> g \<in> set (groups db) \<Longrightarrow> g' \<in> set (groups db) \<Longrightarrow> gr_key g = gr_key g' \<Longrightarrow> g = g'"
  by (auto simp: inv_keys_def dest: key_unique)

lemma find_stream_iff:
  "inv_keys db \<Longrightarrow> find_stream db sid = Some s \<longleftrightarrow> s \<in> set (streams db) \<and> s_stream_id s = sid"
  by (simp add: find_stream_def inv_keys_def find_key_iff)

lemma find_group_iff:
  "inv_keys db \<Longrightarrow> find_group db k = Some g \<longleftrightarrow> g \<in> set (groups db) \<and> gr_key g = k"
  by (simp add: find_group_def inv_keys_def find_key_iff)

lemma find_object_iff:
  "inv_keys db \<Longrightarrow> find_object db sid n = Some r \<longleftrightarrow> r \<in> set (objects db) \<and> ob_key r = (sid, n)"
  by (simp add: find_object_def inv_keys_def find_key_iff)

lemma store_invD:
  assumes "store_inv_upto pend db"
  shows "inv_keys db" "inv_rows db" "inv_owner pend db" "inv_active pend db" "inv_disjoint db"
    "inv_objects db" "inv_cover db" "inv_envelopes db" "inv_bytes db"
  using assms by (simp_all add: store_inv_upto_def)

lemma ownerE:
  assumes "store_inv_upto pend db" and "g \<in> set (groups db)"
  obtains s where "s \<in> set (streams db)" "group_in_stream pend s g"
  using assms by (auto simp: store_inv_upto_def inv_owner_def)

lemma owner_is:
  assumes "store_inv_upto pend db" and "g \<in> set (groups db)" and "s \<in> set (streams db)"
    and "gr_stream_id g = s_stream_id s"
  shows "group_in_stream pend s g"
proof -
  obtain s' where "s' \<in> set (streams db)" "group_in_stream pend s' g" using ownerE [OF assms(1,2)] .
  moreover from this have "s' = s"
    using stream_unique [OF store_invD(1) [OF assms(1)]] assms(3,4) by (auto simp: group_in_stream_def)
  ultimately show ?thesis by simp
qed

lemma activeE:
  assumes "store_inv_upto pend db" and "s \<in> set (streams db)" and "active s = Some (e, k)"
  obtains g where "g \<in> set (groups db)" "gr_key g = (s_stream_id s, e, k)" "gr_last_sequence g = through pend s"
  using assms unfolding store_inv_upto_def inv_active_def by blast

lemma disjointD:
  assumes "store_inv_upto pend db" and "g \<in> set (groups db)" and "g' \<in> set (groups db)"
    and "gr_stream_id g = gr_stream_id g'" and "gr_key g \<noteq> gr_key g'"
  shows "gr_last_sequence g < gr_first_sequence g' \<or> gr_last_sequence g' < gr_first_sequence g"
  using assms unfolding store_inv_upto_def inv_disjoint_def by blast

lemma objectE:
  assumes "store_inv_upto pend db" and "r \<in> set (objects db)"
  obtains g where "g \<in> set (groups db)" "gr_key g = ob_group r"
    "gr_first_sequence g \<le> ob_sequence r" "ob_sequence r \<le> gr_last_sequence g"
  using assms unfolding store_inv_upto_def inv_objects_def by blast

lemma coverE:
  assumes "store_inv_upto pend db" and "s \<in> set (streams db)" and "g \<in> set (groups db)"
    and "gr_stream_id g = s_stream_id s" and "gr_first_sequence g \<le> n" and "n \<le> s_high_water s"
  obtains r where "r \<in> set (objects db)" "ob_key r = (s_stream_id s, n)"
  using assms unfolding store_inv_upto_def inv_cover_def by blast

lemma group_checkD:
  assumes "store_inv_upto pend db" and "g \<in> set (groups db)"
  shows "group_check g" "gr_first_sequence g \<le> gr_last_sequence g"
  using assms by (auto simp: store_inv_upto_def inv_rows_def group_check_def)

text \<open>The active group of a stream lies after all its other groups.\<close>

lemma active_is_newest:
  assumes inv: "store_inv_upto pend db" and "a \<in> set (groups db)" "\<not> gr_complete a"
    and "g \<in> set (groups db)" "gr_stream_id g = gr_stream_id a" "gr_key g \<noteq> gr_key a"
  shows "gr_last_sequence g < gr_first_sequence a"
proof -
  obtain s where s: "s \<in> set (streams db)" "group_in_stream pend s a" using ownerE [OF inv assms(2)] .
  with assms(3) have act: "active s = Some (gr_epoch_id a, gr_key_group a)"
    by (simp add: group_in_stream_def)
  obtain a' where a': "a' \<in> set (groups db)" "gr_key a' = (s_stream_id s, gr_epoch_id a, gr_key_group a)"
    "gr_last_sequence a' = through pend s" using activeE [OF inv s(1) act] .
  then have "a' = a"
    using group_unique [OF store_invD(1) [OF inv] a'(1) assms(2)] s by (simp add: group_in_stream_def gr_key_def)
  with a' have last: "gr_last_sequence a = through pend s" by simp
  have "group_in_stream pend s g"
    using owner_is [OF inv assms(4) s(1)] s(2) assms(5) by (simp add: group_in_stream_def)
  with last have "gr_last_sequence g \<le> gr_last_sequence a" by (simp add: group_in_stream_def)
  with group_checkD(2) [OF inv assms(4)] disjointD [OF inv assms(4,2,5,6)] show ?thesis by linarith
qed

section \<open>Eviction\<close>

lemma held_bytes_delete: "k' \<noteq> k \<Longrightarrow> held_bytes (delete_group k db) k' = held_bytes db k'"
proof -
  assume "k' \<noteq> k"
  then have "(ob_group r \<noteq> k \<and> ob_group r = k') = (ob_group r = k')"
    "(en_group e \<noteq> k \<and> en_group e = k') = (en_group e = k')" for r e by auto
  then show ?thesis by (simp add: held_bytes_def delete_group_def)
qed

lemma delete_group_simps [simp]:
  "streams (delete_group k db) = streams db"
  "set (groups (delete_group k db)) = {g \<in> set (groups db). gr_key g \<noteq> k}"
  "set (objects (delete_group k db)) = {r \<in> set (objects db). ob_group r \<noteq> k}"
  "set (envelopes (delete_group k db)) = {r \<in> set (envelopes db). en_group r \<noteq> k}"
  by (auto simp: delete_group_def)

text \<open>A complete group that no other complete group of its stream precedes may be deleted.\<close>

lemma delete_oldest_inv:
  assumes inv: "store_inv_upto pend db" and g0: "g0 \<in> set (groups db)" "gr_complete g0"
    and oldest: "\<And>g. g \<in> set (groups db) \<Longrightarrow> gr_stream_id g = gr_stream_id g0 \<Longrightarrow> gr_complete g \<Longrightarrow>
      gr_first_sequence g0 \<le> gr_first_sequence g"
  shows "store_inv_upto pend (delete_group (gr_key g0) db)"
proof -
  let ?db = "delete_group (gr_key g0) db"
  note keys = store_invD(1) [OF inv]
  have before: "gr_last_sequence g0 < gr_first_sequence g"
    if g: "g \<in> set (groups db)" "gr_stream_id g = gr_stream_id g0" "gr_key g \<noteq> gr_key g0" for g
  proof (cases "gr_complete g")
    case True
    with oldest [OF g(1,2)] have "gr_first_sequence g0 \<le> gr_first_sequence g" by simp
    with disjointD [OF inv g(1) g0(1) g(2,3)] group_checkD(2) [OF inv g(1)] group_checkD(2) [OF inv g0(1)]
    show ?thesis by linarith
  next
    case False
    with active_is_newest [OF inv g(1) False g0(1)] g show ?thesis by simp
  qed
  have "inv_keys ?db"
    using keys by (auto simp: inv_keys_def delete_group_def intro: distinct_filter_keys)
  moreover have "inv_rows ?db" using store_invD(2) [OF inv] by (auto simp: inv_rows_def)
  moreover have "inv_owner pend ?db" using store_invD(3) [OF inv] by (auto simp: inv_owner_def)
  moreover have "inv_active pend ?db"
    unfolding inv_active_def
  proof (intro ballI allI impI)
    fix s e k assume s: "s \<in> set (streams ?db)" "active s = Some (e, k)"
    then have "s \<in> set (streams db)" by simp
    from activeE [OF inv this s(2)] obtain g where g: "g \<in> set (groups db)"
      "gr_key g = (s_stream_id s, e, k)" "gr_last_sequence g = through pend s" .
    have "group_in_stream pend s g" using owner_is [OF inv g(1)] s(1) g(2) by (simp add: gr_key_def)
    with s(2) g(2) have "\<not> gr_complete g" by (simp add: group_in_stream_def gr_key_def)
    with g0(2) have "gr_key g \<noteq> gr_key g0" using group_unique [OF keys g(1) g0(1)] by auto
    with g show "\<exists>g\<in>set (groups ?db). gr_key g = (s_stream_id s, e, k) \<and> gr_last_sequence g = through pend s"
      by auto
  qed
  moreover have "inv_disjoint ?db" using store_invD(5) [OF inv] by (auto simp: inv_disjoint_def)
  moreover have "inv_objects ?db" using store_invD(6) [OF inv] by (fastforce simp: inv_objects_def)
  moreover have "inv_cover ?db"
    unfolding inv_cover_def
  proof (intro ballI impI allI)
    fix s g n assume *: "s \<in> set (streams ?db)" "g \<in> set (groups ?db)" "gr_stream_id g = s_stream_id s"
      "gr_first_sequence g \<le> n" "n \<le> s_high_water s"
    then obtain r where r: "r \<in> set (objects db)" "ob_key r = (s_stream_id s, n)"
      using coverE [OF inv, of s g n] by auto
    obtain g' where g': "g' \<in> set (groups db)" "gr_key g' = ob_group r" "ob_sequence r \<le> gr_last_sequence g'"
      using objectE [OF inv r(1)] by blast
    have "ob_group r \<noteq> gr_key g0"
    proof
      assume eq: "ob_group r = gr_key g0"
      with g' have "g' = g0" using group_unique [OF keys g'(1) g0(1)] by simp
      moreover have "gr_stream_id g = gr_stream_id g0"
        using eq r(2) *(3) by (simp add: ob_group_def gr_key_def ob_key_def)
      ultimately show False using before [of g] g'(3) r(2) * by (auto simp: ob_key_def)
    qed
    with r show "\<exists>r\<in>set (objects ?db). ob_key r = (s_stream_id s, n)" by auto
  qed
  moreover have "inv_envelopes ?db" using store_invD(8) [OF inv] by (fastforce simp: inv_envelopes_def)
  moreover have "inv_bytes ?db"
    using store_invD(9) [OF inv] by (auto simp: inv_bytes_def held_bytes_delete)
  ultimately show ?thesis by (simp add: store_inv_upto_def)
qed

lemma oldest_complete:
  assumes "first_by gr_first_sequence (complete_groups_of db sid) = Some g0"
  shows "g0 \<in> set (groups db)" "gr_complete g0" "gr_stream_id g0 = sid"
    "\<And>g. g \<in> set (groups db) \<Longrightarrow> gr_stream_id g = gr_stream_id g0 \<Longrightarrow> gr_complete g \<Longrightarrow>
      gr_first_sequence g0 \<le> gr_first_sequence g"
  using first_by_least [OF assms] by (auto simp: complete_groups_of_def groups_of_def)

text \<open>What makes the eviction loop take one more group: the stream is above its byte limit, or the
  group is older than the age limit.\<close>

definition retention_exceeded :: "native_store_config \<Rightarrow> uuid \<Rightarrow> int option \<Rightarrow> native_db \<Rightarrow> group_row \<Rightarrow> bool" where
  "retention_exceeded cfg sid cutoff db g \<longleftrightarrow>
     (\<exists>l b. retention_bytes cfg = Some l \<and> stream_bytes db sid = Ok b \<and> l < b) \<or>
     (\<exists>c. cutoff = Some c \<and> gr_received_last_ms g < c)"

text \<open>Induction over the eviction loop, one deleted group per pass.\<close>

lemma enforce_retention_loop_cases:
  assumes "enforce_retention_loop cfg sid cutoff db removed = Ok (db', n)"
  obtains "db' = db" "n = removed"
    "case retention_bytes cfg of None \<Rightarrow> True | Some l \<Rightarrow>
       (\<exists>b. stream_bytes db sid = Ok b \<and> (b \<le> l \<or> complete_groups_of db sid = []))"
    "case cutoff of None \<Rightarrow> True | Some c \<Rightarrow>
       (\<forall>g0. first_by gr_first_sequence (complete_groups_of db sid) = Some g0 \<longrightarrow> c \<le> gr_received_last_ms g0)"
  | g0 where "first_by gr_first_sequence (complete_groups_of db sid) = Some g0"
    "enforce_retention_loop cfg sid cutoff (delete_group (gr_key g0) db) (saturating_add_usize removed 1)
       = Ok (db', n)" "retention_exceeded cfg sid cutoff db g0"
proof -
  note step = assms [unfolded enforce_retention_loop.simps [of cfg sid cutoff db removed]]
  show ?thesis
proof (cases "first_by gr_first_sequence (complete_groups_of db sid)")
  case None
  then have "complete_groups_of db sid = []" by (simp add: first_by_None)
  with step that(1) show ?thesis
    by (cases "retention_bytes cfg"; cases cutoff) (auto simp: and_then_eq_Ok)
next
  case (Some g0)
  show ?thesis
  proof (cases "retention_exceeded cfg sid cutoff db g0")
    case True
    with Some step that(2) [OF Some] show ?thesis
      by (cases "retention_bytes cfg"; cases cutoff)
        (auto simp: retention_exceeded_def and_then_eq_Ok Let_def not_less split: if_splits)
  next
    case False
    with Some step that(1) show ?thesis
      by (cases "retention_bytes cfg"; cases cutoff)
        (auto simp: retention_exceeded_def and_then_eq_Ok Let_def not_less split: if_splits)
  qed
qed
qed

lemma enforce_retention_loop_inv:
  "enforce_retention_loop cfg sid cutoff db removed = Ok (db', n) \<Longrightarrow> store_inv_upto pend db \<Longrightarrow>
    store_inv_upto pend db'"
proof (induction "length (groups db)" arbitrary: db removed rule: less_induct)
  case less
  from less.prems(1) show ?case
  proof (cases rule: enforce_retention_loop_cases)
    case 1
    with less.prems(2) show ?thesis by simp
  next
    case (2 g0)
    note o = oldest_complete [OF 2(1)]
    show ?thesis
      by (rule less.hyps [OF delete_group_shrinks [OF o(1)] 2(2)])
        (rule delete_oldest_inv [OF less.prems(2) o(1,2,4)])
  qed
qed

section \<open>Rewriting rows in place\<close>

lemma update_group_ok:
  "update_group k f db = Ok db' \<longleftrightarrow>
     (\<forall>g\<in>set (groups db). gr_key g = k \<longrightarrow> group_check (f g)) \<and>
     db' = db\<lparr>groups := map (\<lambda>r. if gr_key r = k then f r else r) (groups db)\<rparr>"
  by (auto simp: update_group_def list_ex_iff)

lemma update_stream_ok:
  "update_stream sid f db = Ok db' \<longleftrightarrow>
     (\<forall>r\<in>set (streams db). s_stream_id r = sid \<longrightarrow> stream_check (f r)) \<and>
     db' = db\<lparr>streams := map (\<lambda>r. if s_stream_id r = sid then f r else r) (streams db)\<rparr>"
  by (auto simp: update_stream_def list_ex_iff)

text \<open>
  The parts of the invariant that do not look at completeness, activity or descriptors depend
  on the following view of the tables only.
\<close>

definition group_core :: "group_row \<Rightarrow> group_key \<times> array16 \<times> int \<times> int \<times> int" where
  "group_core g = (gr_key g, gr_key_id g, gr_first_sequence g, gr_last_sequence g, gr_retained_bytes g)"

definition stream_core :: "stream_row \<Rightarrow> uuid \<times> int" where
  "stream_core s = (s_stream_id s, s_high_water s)"

definition same_core :: "native_db \<Rightarrow> native_db \<Rightarrow> bool" where
  "same_core db db' \<longleftrightarrow>
     map group_core (groups db') = map group_core (groups db) \<and>
     map stream_core (streams db') = map stream_core (streams db) \<and>
     objects db' = objects db \<and> envelopes db' = envelopes db"

lemma map_eq_member:
  assumes "map f xs = map f ys" and "x \<in> set xs"
  shows "\<exists>y\<in>set ys. f y = f x"
proof -
  have "f x \<in> set (map f ys)" using assms by (metis in_set_conv_decomp_first list.set_map image_eqI)
  then show ?thesis by auto
qed

lemma same_coreE:
  assumes "same_core db db'"
  shows "g' \<in> set (groups db') \<Longrightarrow> \<exists>g\<in>set (groups db). group_core g = group_core g'"
    and "g \<in> set (groups db) \<Longrightarrow> \<exists>g'\<in>set (groups db'). group_core g' = group_core g"
    and "s' \<in> set (streams db') \<Longrightarrow> \<exists>s\<in>set (streams db). stream_core s = stream_core s'"
  using assms unfolding same_core_def by (blast intro: map_eq_member sym)+

lemma group_core_stream: "group_core g = group_core g' \<Longrightarrow> gr_stream_id g = gr_stream_id g'"
  by (simp add: group_core_def gr_key_def)

lemma gr_key_stream: "gr_key g = gr_key g' \<Longrightarrow> gr_stream_id g = gr_stream_id g'"
  by (simp add: gr_key_def)

lemma same_core_inv:
  assumes inv: "store_inv_upto pend db" and core: "same_core db db'"
  shows "inv_keys db'" "inv_disjoint db'" "inv_objects db'" "inv_cover db'" "inv_envelopes db'" "inv_bytes db'"
proof -
  note G = same_coreE(1) [OF core] and G' = same_coreE(2) [OF core] and S = same_coreE(3) [OF core]
  have rows: "objects db' = objects db" "envelopes db' = envelopes db" using core by (simp_all add: same_core_def)
  have "map gr_key (groups db') = map gr_key (groups db)"
    "map s_stream_id (streams db') = map s_stream_id (streams db)"
    using core unfolding same_core_def
    by (metis (no_types, lifting) map_map comp_def fst_conv group_core_def stream_core_def map_cong)+
  then show "inv_keys db'" using store_invD(1) [OF inv] by (simp add: inv_keys_def rows)
  show "inv_disjoint db'"
    unfolding inv_disjoint_def
  proof (intro ballI impI)
    fix g h assume *: "g \<in> set (groups db')" "h \<in> set (groups db')" "gr_stream_id g = gr_stream_id h"
      "gr_key g \<noteq> gr_key h"
    from G [OF *(1)] G [OF *(2)] obtain g0 h0 where
      0: "g0 \<in> set (groups db)" "group_core g0 = group_core g" "h0 \<in> set (groups db)" "group_core h0 = group_core h"
      by blast
    with * group_core_stream [OF 0(2)] group_core_stream [OF 0(4)] disjointD [OF inv 0(1,3)]
    show "gr_last_sequence g < gr_first_sequence h \<or> gr_last_sequence h < gr_first_sequence g"
      by (auto simp: group_core_def)
  qed
  show "inv_objects db'"
    unfolding inv_objects_def rows
  proof
    fix r assume "r \<in> set (objects db)"
    from objectE [OF inv this] obtain g where g: "g \<in> set (groups db)" "gr_key g = ob_group r"
      "gr_first_sequence g \<le> ob_sequence r" "ob_sequence r \<le> gr_last_sequence g" .
    from G' [OF g(1)] g show "\<exists>g\<in>set (groups db'). gr_key g = ob_group r \<and>
        gr_first_sequence g \<le> ob_sequence r \<and> ob_sequence r \<le> gr_last_sequence g"
      by (auto simp: group_core_def)
  qed
  show "inv_cover db'"
    unfolding inv_cover_def rows
  proof (intro ballI allI impI)
    fix s g n assume *: "s \<in> set (streams db')" "g \<in> set (groups db')" "gr_stream_id g = s_stream_id s"
      "gr_first_sequence g \<le> n" "n \<le> s_high_water s"
    from G [OF *(2)] S [OF *(1)] obtain g0 s0 where
      0: "g0 \<in> set (groups db)" "group_core g0 = group_core g" "s0 \<in> set (streams db)" "stream_core s0 = stream_core s"
      by blast
    then have "gr_stream_id g0 = s_stream_id s0" "gr_first_sequence g0 \<le> n" "n \<le> s_high_water s0"
      "s_stream_id s0 = s_stream_id s"
      using * by (auto simp: group_core_def stream_core_def dest: gr_key_stream)
    with coverE [OF inv 0(3,1), of n] show "\<exists>r\<in>set (objects db). ob_key r = (s_stream_id s, n)" by metis
  qed
  show "inv_envelopes db'"
    using store_invD(8) [OF inv] G' unfolding inv_envelopes_def rows
    by (fastforce simp: group_core_def)
  show "inv_bytes db'"
    using store_invD(9) [OF inv] G unfolding inv_bytes_def held_bytes_def rows
    by (fastforce simp: group_core_def)
qed

section \<open>Completing the active group\<close>

definition close_active :: "stream_row \<Rightarrow> native_db \<Rightarrow> native_db" where
  "close_active s db =
     db\<lparr>groups := map (\<lambda>g. if gr_stream_id g = s_stream_id s \<and> active s = Some (gr_epoch_id g, gr_key_group g)
                           then g\<lparr>gr_complete := True\<rparr> else g) (groups db),
        streams := map (\<lambda>r. if s_stream_id r = s_stream_id s
                            then r\<lparr>s_active_epoch := None, s_active_group := None\<rparr> else r) (streams db)\<rparr>"

lemma close_active_inv:
  assumes inv: "store_inv db" and s: "s \<in> set (streams db)"
  shows "store_inv (close_active s db)"
proof -
  let ?db = "close_active s db"
  have inv': "store_inv_upto None db" using inv by (simp add: store_inv_def)
  have core: "same_core db ?db"
    by (auto simp: same_core_def close_active_def group_core_def stream_core_def gr_key_def)
  have "inv_rows ?db"
    using store_invD(2) [OF inv'] by (auto simp: inv_rows_def close_active_def group_check_def stream_check_def)
  moreover have "inv_owner None ?db"
    unfolding inv_owner_def
  proof
    fix g' assume "g' \<in> set (groups ?db)"
    then obtain g where g: "g \<in> set (groups db)"
      "g' = (if gr_stream_id g = s_stream_id s \<and> active s = Some (gr_epoch_id g, gr_key_group g)
             then g\<lparr>gr_complete := True\<rparr> else g)"
      by (auto simp: close_active_def)
    obtain t where t: "t \<in> set (streams db)" "group_in_stream None t g" using ownerE [OF inv' g(1)] .
    define t' where "t' = (if s_stream_id t = s_stream_id s
      then t\<lparr>s_active_epoch := None, s_active_group := None\<rparr> else t)"
    have "t' \<in> set (streams ?db)" using t(1) by (auto simp: close_active_def t'_def)
    moreover have "group_in_stream None t' g'"
      using t g(2) stream_unique [OF store_invD(1) [OF inv'] t(1) s]
      by (auto simp: group_in_stream_def t'_def active_def)
    ultimately show "\<exists>t\<in>set (streams ?db). group_in_stream None t g'" by blast
  qed
  moreover have "inv_active None ?db"
    unfolding inv_active_def
  proof (intro ballI allI impI)
    fix t e k assume t: "t \<in> set (streams ?db)" "active t = Some (e, k)"
    then have t': "t \<in> set (streams db)" "s_stream_id t \<noteq> s_stream_id s"
      by (auto simp: close_active_def active_def split: if_splits)
    from activeE [OF inv' t'(1) t(2)] obtain g where
      g: "g \<in> set (groups db)" "gr_key g = (s_stream_id t, e, k)" "gr_last_sequence g = through None t" .
    then have "g \<in> set (groups ?db)" using t'(2) by (auto simp: close_active_def gr_key_def image_iff intro: bexI [of _ g])
    with g show "\<exists>g\<in>set (groups ?db). gr_key g = (s_stream_id t, e, k) \<and> gr_last_sequence g = through None t"
      by blast
  qed
  ultimately show ?thesis
    using same_core_inv [OF inv' core] by (simp add: store_inv_def store_inv_upto_def)
qed

section \<open>Opening a group\<close>

definition open_row :: "group_row \<Rightarrow> native_db \<Rightarrow> native_db" where
  "open_row g db =
     db\<lparr>groups := groups db @ [g],
        streams := map (\<lambda>r. if s_stream_id r = gr_stream_id g
                            then r\<lparr>s_active_epoch := Some (gr_epoch_id g), s_active_group := Some (gr_key_group g)\<rparr>
                            else r) (streams db)\<rparr>"

lemma held_bytes_unknown:
  assumes inv: "store_inv_upto pend db" and "\<And>g. g \<in> set (groups db) \<Longrightarrow> gr_key g \<noteq> k"
  shows "held_bytes db k = 0"
proof -
  have "filter (\<lambda>r. ob_group r = k) (objects db) = []"
    using assms by (auto simp: filter_empty_conv elim!: objectE)
  moreover have "filter (\<lambda>r. en_group r = k) (envelopes db) = []"
    using store_invD(8) [OF inv] assms(2) by (auto simp: filter_empty_conv inv_envelopes_def)
  ultimately show ?thesis by (simp add: held_bytes_def)
qed

lemma open_row_inv:
  assumes "store_inv db" and s: "s \<in> set (streams db)" "active s = None"
    and g: "gr_stream_id g = s_stream_id s" "gr_first_sequence g = s_high_water s + 1"
      "gr_last_sequence g = s_high_water s + 1" "gr_retained_bytes g = 0" "\<not> gr_complete g" "group_check g"
    and new: "\<And>g'. g' \<in> set (groups db) \<Longrightarrow> gr_key g' \<noteq> gr_key g"
  shows "store_inv_upto (Some (s_stream_id s)) (open_row g db)"
proof -
  let ?db = "open_row g db" and ?p = "Some (s_stream_id s)"
  let ?u = "\<lambda>r. if s_stream_id r = gr_stream_id g
    then r\<lparr>s_active_epoch := Some (gr_epoch_id g), s_active_group := Some (gr_key_group g)\<rparr> else r"
  have inv: "store_inv_upto None db" using assms(1) by (simp add: store_inv_def)
  have G: "set (groups ?db) = insert g (set (groups db))" and S: "set (streams ?db) = ?u ` set (streams db)"
    and O: "objects ?db = objects db" "envelopes ?db = envelopes db"
    by (auto simp: open_row_def)
  have below: "gr_last_sequence g' \<le> s_high_water s"
    if "g' \<in> set (groups db)" "gr_stream_id g' = s_stream_id s" for g'
    using owner_is [OF inv that(1) s(1) that(2)] by (simp add: group_in_stream_def)
  have "map s_stream_id (streams ?db) = map s_stream_id (streams db)"
    "groups ?db = groups db @ [g]" by (simp_all add: open_row_def)
  then have "inv_keys ?db"
    using store_invD(1) [OF inv] new unfolding inv_keys_def O by (simp only: distinct_snoc_key) blast
  moreover have "inv_rows ?db"
    using store_invD(2) [OF inv] g(6) by (auto simp: inv_rows_def G S stream_check_def group_check_def)
  moreover have "inv_owner ?p ?db"
    unfolding inv_owner_def G
  proof (intro ballI)
    fix g' assume "g' \<in> insert g (set (groups db))"
    then consider "g' = g" | "g' \<in> set (groups db)" "g' \<noteq> g" by blast
    then show "\<exists>t\<in>set (streams ?db). group_in_stream ?p t g'"
    proof cases
      case 1
      have "group_in_stream ?p (?u s) g" using g by (simp add: group_in_stream_def active_def through_def)
      with s(1) 1 show ?thesis unfolding S by blast
    next
      case 2
      obtain t where t: "t \<in> set (streams db)" "group_in_stream None t g'" using ownerE [OF inv 2(1)] .
      have "group_in_stream ?p (?u t) g'"
        using t new [OF 2(1)] s(2) g(1) stream_unique [OF store_invD(1) [OF inv] t(1) s(1)]
        by (auto simp: group_in_stream_def active_def through_def gr_key_def)
      with t(1) show ?thesis unfolding S by blast
    qed
  qed
  moreover have "inv_active ?p ?db"
    unfolding inv_active_def
  proof (intro ballI allI impI)
    fix t' e k assume t': "t' \<in> set (streams ?db)" "active t' = Some (e, k)"
    then obtain t where t: "t \<in> set (streams db)" "t' = ?u t" unfolding S by blast
    show "\<exists>h\<in>set (groups ?db). gr_key h = (s_stream_id t', e, k) \<and> gr_last_sequence h = through ?p t'"
    proof (cases "s_stream_id t = gr_stream_id g")
      case True
      then have "t = s" using stream_unique [OF store_invD(1) [OF inv] t(1) s(1)] g(1) by simp
      with t t'(2) g show ?thesis by (auto simp: G gr_key_def active_def through_def)
    next
      case False
      with t t'(2) have "active t = Some (e, k)" "t' = t" by simp_all
      from activeE [OF inv t(1) this(1)] obtain h where "h \<in> set (groups db)"
        "gr_key h = (s_stream_id t, e, k)" "gr_last_sequence h = through None t" .
      with False \<open>t' = t\<close> g(1) show ?thesis by (auto simp: G through_def)
    qed
  qed
  moreover have "inv_disjoint ?db"
    unfolding inv_disjoint_def G
  proof (intro ballI impI)
    fix x y assume "x \<in> insert g (set (groups db))" "y \<in> insert g (set (groups db))"
      and same: "gr_stream_id x = gr_stream_id y" and ne: "gr_key x \<noteq> gr_key y"
    then consider "x = g" "y \<in> set (groups db)" | "y = g" "x \<in> set (groups db)"
      | "x \<in> set (groups db)" "y \<in> set (groups db)" by blast
    then show "gr_last_sequence x < gr_first_sequence y \<or> gr_last_sequence y < gr_first_sequence x"
      by cases (use below [of x] below [of y] same ne g disjointD [OF inv, of x y] in auto)
  qed
  moreover have "inv_objects ?db" using store_invD(6) [OF inv] unfolding inv_objects_def G O by blast
  moreover have "inv_cover ?db"
    unfolding inv_cover_def O
  proof (intro ballI allI impI)
    fix t' h n assume *: "t' \<in> set (streams ?db)" "h \<in> set (groups ?db)" "gr_stream_id h = s_stream_id t'"
      "gr_first_sequence h \<le> n" "n \<le> s_high_water t'"
    then obtain t where t: "t \<in> set (streams db)" "t' = ?u t" unfolding S by blast
    then have ids: "s_stream_id t' = s_stream_id t" "s_high_water t' = s_high_water t" by simp_all
    show "\<exists>r\<in>set (objects db). ob_key r = (s_stream_id t', n)"
    proof (cases "h = g")
      case True
      with *(3) ids(1) g(1) have "s_stream_id t = s_stream_id s" by simp
      with stream_unique [OF store_invD(1) [OF inv] t(1) s(1)] have "t = s" .
      with True * ids g(2) show ?thesis by simp
    next
      case False
      with *(2) G have "h \<in> set (groups db)" by simp
      with coverE [OF inv t(1) this, of n] * ids show ?thesis by metis
    qed
  qed
  moreover have "inv_envelopes ?db" using store_invD(8) [OF inv] unfolding inv_envelopes_def G O by blast
  moreover have "inv_bytes ?db"
    using store_invD(9) [OF inv] held_bytes_unknown [OF inv new] g(4)
    unfolding inv_bytes_def G held_bytes_def O by auto
  ultimately show ?thesis by (simp add: store_inv_upto_def)
qed

section \<open>Appending an object\<close>

definition append_row :: "object_row \<Rightarrow> (group_row \<Rightarrow> group_row) \<Rightarrow> native_db \<Rightarrow> native_db" where
  "append_row r f db =
     db\<lparr>objects := objects db @ [r],
        groups := map (\<lambda>g. if gr_key g = ob_group r then f g else g) (groups db),
        streams := map (\<lambda>t. if s_stream_id t = ob_stream_id r then t\<lparr>s_high_water := ob_sequence r\<rparr> else t)
          (streams db)\<rparr>"

lemma append_row_inv:
  assumes inv: "store_inv_upto pend db" and pend: "pend = None \<or> pend = Some (s_stream_id s)"
    and s: "s \<in> set (streams db)" "active s = Some (ob_epoch_id r, ob_key_group r)"
    and r: "ob_stream_id r = s_stream_id s" "ob_sequence r = s_high_water s + 1" "sql_int (ob_sequence r)"
      "\<And>r'. r' \<in> set (objects db) \<Longrightarrow> ob_key r' \<noteq> ob_key r"
    and f: "\<And>g. gr_key (f g) = gr_key g" "\<And>g. gr_key_id (f g) = gr_key_id g"
      "\<And>g. gr_first_sequence (f g) = gr_first_sequence g" "\<And>g. gr_last_sequence (f g) = ob_sequence r"
      "\<And>g. gr_retained_bytes (f g) = gr_retained_bytes g + int (length (ob_object r))"
      "\<And>g. gr_complete (f g) = gr_complete g"
      "\<And>g. g \<in> set (groups db) \<Longrightarrow> gr_key g = ob_group r \<Longrightarrow> group_check (f g)"
  shows "store_inv (append_row r f db)"
proof -
  let ?db = "append_row r f db"
  let ?u = "\<lambda>t. if s_stream_id t = ob_stream_id r then t\<lparr>s_high_water := ob_sequence r\<rparr> else t"
  let ?v = "\<lambda>g. if gr_key g = ob_group r then f g else g"
  note keys = store_invD(1) [OF inv]
  have G: "set (groups ?db) = ?v ` set (groups db)" and S: "set (streams ?db) = ?u ` set (streams db)"
    and O: "objects ?db = objects db @ [r]" "envelopes ?db = envelopes db"
    by (auto simp: append_row_def)
  have key: "gr_key (?v g) = gr_key g" and kid: "gr_key_id (?v g) = gr_key_id g"
    and fst: "gr_first_sequence (?v g) = gr_first_sequence g" and cmp: "gr_complete (?v g) = gr_complete g" for g
    using f by simp_all
  have sid: "gr_stream_id (?v g) = gr_stream_id g" "gr_epoch_id (?v g) = gr_epoch_id g"
    "gr_key_group (?v g) = gr_key_group g" for g
    using key [of g] by (simp_all add: gr_key_def)
  from activeE [OF inv s] obtain a where a: "a \<in> set (groups db)" "gr_key a = ob_group r"
    "gr_last_sequence a = through pend s" using r(1) by (auto simp: ob_group_def)
  have a_open: "\<not> gr_complete a"
    using owner_is [OF inv a(1) s(1)] a(2) s(2) r(1) by (auto simp: group_in_stream_def gr_key_def ob_group_def)
  have a_sid: "gr_stream_id a = s_stream_id s" using a(2) r(1) by (simp add: gr_key_def ob_group_def)
  have hw: "s_high_water s \<le> through pend s" "through pend s \<le> ob_sequence r"
    using pend r(2) by (auto simp: through_def)
  have others: "gr_last_sequence g < gr_first_sequence a"
    if "g \<in> set (groups db)" "gr_stream_id g = s_stream_id s" "gr_key g \<noteq> ob_group r" for g
    using active_is_newest [OF inv a(1) a_open that(1)] that a_sid a(2) by simp
  have a_first: "gr_first_sequence a \<le> ob_sequence r"
    using group_checkD(2) [OF inv a(1)] a(3) hw by linarith
  have sw: "s_stream_id t = s_stream_id s \<longleftrightarrow> t = s" if "t \<in> set (streams db)" for t
    using stream_unique [OF keys that s(1)] by auto
  have "map s_stream_id (streams ?db) = map s_stream_id (streams db)"
    "map gr_key (groups ?db) = map gr_key (groups db)" by (auto simp: append_row_def f(1))
  then have "inv_keys ?db"
    using keys r(4) unfolding inv_keys_def O by (simp only: distinct_snoc_key) blast
  moreover have "inv_rows ?db"
    using store_invD(2) [OF inv] f(7) r(2,3) s(1) unfolding inv_rows_def G S
    by (auto simp: stream_check_def r(1) sw)
  moreover have "inv_owner None ?db"
    unfolding inv_owner_def G
  proof
    fix g' assume "g' \<in> ?v ` set (groups db)"
    then obtain g where g: "g \<in> set (groups db)" "g' = ?v g" by blast
    obtain t where t: "t \<in> set (streams db)" "group_in_stream pend t g" using ownerE [OF inv g(1)] .
    have "group_in_stream None (?u t) (?v g)"
    proof (cases "t = s")
      case True
      with t(2) hw sid cmp f(4) r(1) show ?thesis
        by (auto simp: group_in_stream_def active_def)
    next
      case False
      then have "s_stream_id t \<noteq> s_stream_id s" using sw [OF t(1)] by simp
      moreover from this have "gr_key g \<noteq> ob_group r"
        using t(2) r(1) by (auto simp: group_in_stream_def gr_key_def ob_group_def)
      ultimately show ?thesis using t(2) pend r(1) by (auto simp: group_in_stream_def through_def)
    qed
    with t(1) g(2) show "\<exists>t\<in>set (streams ?db). group_in_stream None t g'" unfolding S by blast
  qed
  moreover have "inv_active None ?db"
    unfolding inv_active_def
  proof (intro ballI allI impI)
    fix t' e k assume t': "t' \<in> set (streams ?db)" "active t' = Some (e, k)"
    then obtain t where t: "t \<in> set (streams db)" "t' = ?u t" unfolding S by blast
    then have act: "active t = Some (e, k)" "s_stream_id t' = s_stream_id t"
      using t'(2) by (auto split: if_splits)
    from activeE [OF inv t(1) act(1)] obtain g where
      g: "g \<in> set (groups db)" "gr_key g = (s_stream_id t, e, k)" "gr_last_sequence g = through pend t" .
    have last: "gr_last_sequence (?v g) = through None t'"
    proof (cases "t = s")
      case True
      with g(2) act(1) s(2) r(1) have "gr_key g = ob_group r" by (simp add: ob_group_def)
      with True t(2) r(1) f(4) show ?thesis by simp
    next
      case False
      then have "s_stream_id t \<noteq> s_stream_id s" using sw [OF t(1)] by simp
      with g t(2) r(1) pend show ?thesis by (auto simp: ob_group_def through_def)
    qed
    have "gr_key (?v g) = (s_stream_id t', e, k)" unfolding key act(2) by (rule g(2))
    moreover have "?v g \<in> set (groups ?db)" unfolding G using g(1) by (rule imageI)
    ultimately show "\<exists>g\<in>set (groups ?db). gr_key g = (s_stream_id t', e, k) \<and> gr_last_sequence g = through None t'"
      using last by blast
  qed
  moreover have "inv_disjoint ?db"
    unfolding inv_disjoint_def G
  proof (intro ballI impI)
    fix g' h' assume "g' \<in> ?v ` set (groups db)" "h' \<in> ?v ` set (groups db)"
      and same: "gr_stream_id g' = gr_stream_id h'" and ne: "gr_key g' \<noteq> gr_key h'"
    then obtain g h where gh: "g \<in> set (groups db)" "g' = ?v g" "h \<in> set (groups db)" "h' = ?v h" by blast
    from same ne gh sid key have sd: "gr_stream_id g = gr_stream_id h" "gr_key g \<noteq> gr_key h" by auto
    have last: "gr_last_sequence (?v x) = (if gr_key x = ob_group r then ob_sequence r else gr_last_sequence x)" for x
      using f(4) by simp
    have is_a: "x = a" if "x \<in> set (groups db)" "gr_key x = ob_group r" for x
      using group_unique [OF keys that(1) a(1)] that(2) a(2) by simp
    show "gr_last_sequence g' < gr_first_sequence h' \<or> gr_last_sequence h' < gr_first_sequence g'"
      using disjointD [OF inv gh(1,3) sd] others [OF gh(1)] others [OF gh(3)] is_a [OF gh(1)] is_a [OF gh(3)]
        sd a_sid unfolding gh(2,4) last fst by auto
  qed
  moreover have "inv_objects ?db"
    unfolding inv_objects_def G O
  proof
    fix x assume "x \<in> set (objects db @ [r])"
    then consider "x = r" | "x \<in> set (objects db)" by auto
    then show "\<exists>g\<in>?v ` set (groups db). gr_key g = ob_group x \<and> gr_first_sequence g \<le> ob_sequence x \<and>
        ob_sequence x \<le> gr_last_sequence g"
    proof cases
      case 1
      with a(1,2) a_first key [of a] fst [of a] f(4) show ?thesis by (intro bexI [of _ "?v a"]) auto
    next
      case 2
      from objectE [OF inv this] obtain g where g: "g \<in> set (groups db)" "gr_key g = ob_group x"
        "gr_first_sequence g \<le> ob_sequence x" "ob_sequence x \<le> gr_last_sequence g" .
      have "ob_sequence x \<le> gr_last_sequence (?v g)"
        using g(4) group_unique [OF keys g(1) a(1)] a(2,3) hw f(4) by auto
      with g key [of g] fst [of g] show ?thesis by (intro bexI [of _ "?v g"]) auto
    qed
  qed
  moreover have "inv_cover ?db"
    unfolding inv_cover_def G S O
  proof (intro ballI allI impI)
    fix t' g' n assume "t' \<in> ?u ` set (streams db)" "g' \<in> ?v ` set (groups db)"
      and *: "gr_stream_id g' = s_stream_id t'" "gr_first_sequence g' \<le> n" "n \<le> s_high_water t'"
    then obtain t g where tg: "t \<in> set (streams db)" "t' = ?u t" "g \<in> set (groups db)" "g' = ?v g" by blast
    have old: "gr_stream_id g = s_stream_id t" "gr_first_sequence g \<le> n" "s_stream_id t' = s_stream_id t"
      using * tg sid fst by auto
    show "\<exists>x\<in>set (objects db @ [r]). ob_key x = (s_stream_id t', n)"
    proof (cases "n \<le> s_high_water t")
      case True
      from coverE [OF inv tg(1,3) old(1,2) True] old(3) show ?thesis by auto
    next
      case False
      then have "s_stream_id t = ob_stream_id r" using tg(2) *(3) by (auto split: if_splits)
      moreover from this have "t = s" using sw [OF tg(1)] r(1) by simp
      ultimately have "n = ob_sequence r" using False *(3) tg(2) r(2) by simp
      with old(3) \<open>s_stream_id t = ob_stream_id r\<close> show ?thesis by (auto simp: ob_key_def)
    qed
  qed
  moreover have "inv_envelopes ?db"
    unfolding inv_envelopes_def G O
  proof
    fix x assume "x \<in> set (envelopes db)"
    then obtain g where g: "g \<in> set (groups db)" "gr_key g = en_group x" "gr_key_id g = en_key_id x"
      using store_invD(8) [OF inv] unfolding inv_envelopes_def by blast
    show "\<exists>g\<in>?v ` set (groups db). gr_key g = en_group x \<and> gr_key_id g = en_key_id x"
      using g key [of g] kid [of g] by (intro bexI [of _ "?v g"]) simp_all
  qed
  moreover have "inv_bytes ?db"
    unfolding inv_bytes_def G
  proof
    fix g' assume "g' \<in> ?v ` set (groups db)"
    then obtain g where g: "g \<in> set (groups db)" "g' = ?v g" by blast
    have "gr_retained_bytes g = held_bytes db (gr_key g)" using store_invD(9) [OF inv] g(1) by (simp add: inv_bytes_def)
    then show "gr_retained_bytes g' = held_bytes ?db (gr_key g')"
      unfolding g(2) key using f(5) by (simp add: held_bytes_def O)
  qed
  ultimately show ?thesis by (simp add: store_inv_def store_inv_upto_def)
qed

section \<open>Appending an envelope\<close>

definition append_envelope_row :: "envelope_row \<Rightarrow> native_db \<Rightarrow> native_db" where
  "append_envelope_row r db =
     db\<lparr>envelopes := envelopes db @ [r],
        groups := map (\<lambda>g. if gr_key g = en_group r
                           then g\<lparr>gr_retained_bytes := gr_retained_bytes g + int (length (en_envelope r))\<rparr>
                           else g) (groups db)\<rparr>"

lemma append_envelope_row_inv:
  assumes "store_inv db" and g0: "g0 \<in> set (groups db)" "gr_key g0 = en_group r" "gr_key_id g0 = en_key_id r"
    and r: "\<And>r'. r' \<in> set (envelopes db) \<Longrightarrow> en_key r' \<noteq> en_key r"
    and ok: "\<And>g. g \<in> set (groups db) \<Longrightarrow> gr_key g = en_group r \<Longrightarrow>
      group_check (g\<lparr>gr_retained_bytes := gr_retained_bytes g + int (length (en_envelope r))\<rparr>)"
  shows "store_inv (append_envelope_row r db)"
proof -
  let ?db = "append_envelope_row r db"
  let ?v = "\<lambda>g. if gr_key g = en_group r
    then g\<lparr>gr_retained_bytes := gr_retained_bytes g + int (length (en_envelope r))\<rparr> else g"
  have inv: "store_inv_upto None db" using assms(1) by (simp add: store_inv_def)
  have G: "set (groups ?db) = ?v ` set (groups db)" and O: "streams ?db = streams db"
    "objects ?db = objects db" "envelopes ?db = envelopes db @ [r]"
    by (auto simp: append_envelope_row_def)
  have f: "gr_key (?v g) = gr_key g" "gr_key_id (?v g) = gr_key_id g"
    "gr_first_sequence (?v g) = gr_first_sequence g" "gr_last_sequence (?v g) = gr_last_sequence g"
    "gr_complete (?v g) = gr_complete g" "gr_stream_id (?v g) = gr_stream_id g"
    "gr_epoch_id (?v g) = gr_epoch_id g" "gr_key_group (?v g) = gr_key_group g" for g
    by (simp_all add: gr_key_def)
  have "map gr_key (groups ?db) = map gr_key (groups db)" by (auto simp: append_envelope_row_def gr_key_def)
  then have "inv_keys ?db"
    using store_invD(1) [OF inv] r unfolding inv_keys_def O by (simp only: distinct_snoc_key) blast
  moreover have "inv_rows ?db"
    using store_invD(2) [OF inv] ok unfolding inv_rows_def G O by auto
  moreover have "inv_owner None ?db"
    using store_invD(3) [OF inv] unfolding inv_owner_def G O group_in_stream_def ball_simps(9) f .
  moreover have "inv_active None ?db"
    using store_invD(4) [OF inv] unfolding inv_active_def G O bex_simps(7) f .
  moreover have "inv_disjoint ?db"
    using store_invD(5) [OF inv] unfolding inv_disjoint_def G ball_simps(9) f .
  moreover have "inv_objects ?db"
    using store_invD(6) [OF inv] unfolding inv_objects_def G O bex_simps(7) f .
  moreover have "inv_cover ?db"
    using store_invD(7) [OF inv] unfolding inv_cover_def G O ball_simps(9) f .
  moreover have "inv_envelopes ?db"
    using store_invD(8) [OF inv] g0 unfolding inv_envelopes_def G O bex_simps(7) f by auto
  moreover have "inv_bytes ?db"
    unfolding inv_bytes_def G ball_simps(9) f
  proof
    fix g assume "g \<in> set (groups db)"
    then have "gr_retained_bytes g = held_bytes db (gr_key g)"
      using store_invD(9) [OF inv] by (simp add: inv_bytes_def)
    then show "gr_retained_bytes (?v g) = held_bytes ?db (gr_key g)"
      by (simp add: held_bytes_def O)
  qed
  ultimately show ?thesis by (simp add: store_inv_def store_inv_upto_def)
qed

section \<open>Streams\<close>

lemma insert_stream_inv:
  assumes "store_inv db" and "insert_stream s db = Ok db'" and "active s = None"
    and "s_active_epoch s = None" "s_active_group s = None"
  shows "store_inv db'"
proof -
  have inv: "store_inv_upto None db" using assms(1) by (simp add: store_inv_def)
  from assms(2) have new: "\<And>t. t \<in> set (streams db) \<Longrightarrow> s_stream_id t \<noteq> s_stream_id s" "stream_check s"
    and db': "db' = db\<lparr>streams := streams db @ [s]\<rparr>"
    by (auto simp: insert_stream_def find_stream_def find_None split: if_splits)
  have S: "streams db' = streams db @ [s]" and O: "groups db' = groups db" "objects db' = objects db"
    "envelopes db' = envelopes db" by (simp_all add: db')
  have none: "gr_stream_id g \<noteq> s_stream_id s" if "g \<in> set (groups db)" for g
    by (rule ownerE [OF inv that]) (use new(1) in \<open>auto simp: group_in_stream_def\<close>)
  have "inv_keys db'"
    using store_invD(1) [OF inv] new(1) unfolding inv_keys_def S O by (simp only: distinct_snoc_key) blast
  moreover have "inv_rows db'"
    using store_invD(2) [OF inv] new(2) assms(4,5) by (auto simp: inv_rows_def S O)
  moreover have "inv_owner None db'" using store_invD(3) [OF inv] by (auto simp: inv_owner_def S O)
  moreover have "inv_active None db'" using store_invD(4) [OF inv] assms(3) by (auto simp: inv_active_def S O)
  moreover have "inv_disjoint db'" using store_invD(5) [OF inv] by (simp add: inv_disjoint_def O)
  moreover have "inv_objects db'" using store_invD(6) [OF inv] by (simp add: inv_objects_def O)
  moreover have "inv_cover db'" using store_invD(7) [OF inv] none by (auto simp: inv_cover_def S O)
  moreover have "inv_envelopes db'" using store_invD(8) [OF inv] by (simp add: inv_envelopes_def O)
  moreover have "inv_bytes db'" using store_invD(9) [OF inv] by (simp add: inv_bytes_def held_bytes_def O)
  ultimately show ?thesis by (simp add: store_inv_def store_inv_upto_def)
qed

lemma update_descriptor_inv:
  assumes "store_inv db" and "update_stream sid (\<lambda>r. r\<lparr>s_descriptor := bs\<rparr>) db = Ok db'"
  shows "store_inv db'"
proof -
  have inv: "store_inv_upto None db" using assms(1) by (simp add: store_inv_def)
  let ?u = "\<lambda>r. if s_stream_id r = sid then r\<lparr>s_descriptor := bs\<rparr> else r"
  from assms(2) have db': "db' = db\<lparr>streams := map ?u (streams db)\<rparr>" by (simp add: update_stream_ok)
  have f: "s_stream_id (?u s) = s_stream_id s" "s_high_water (?u s) = s_high_water s"
    "s_active_epoch (?u s) = s_active_epoch s" "s_active_group (?u s) = s_active_group s" for s by simp_all
  have act: "active (?u s) = active s" "stream_check (?u s) = stream_check s" for s
    unfolding active_def stream_check_def f by simp_all
  have S: "set (streams db') = ?u ` set (streams db)" "groups db' = groups db" by (simp_all add: db')
  have core: "same_core db db'" by (auto simp: same_core_def db' stream_core_def)
  have "inv_rows db'"
    using store_invD(2) [OF inv] unfolding inv_rows_def S ball_simps(9) f act .
  moreover have "inv_owner None db'"
    using store_invD(3) [OF inv] unfolding inv_owner_def S bex_simps(7) group_in_stream_def through_def f act .
  moreover have "inv_active None db'"
    using store_invD(4) [OF inv] unfolding inv_active_def S ball_simps(9) through_def f act .
  ultimately show ?thesis
    using same_core_inv [OF inv core] by (simp add: store_inv_def store_inv_upto_def)
qed

section \<open>The transactions\<close>

lemma to_sql_u64_ok: "to_sql_u64 v = Ok n \<longleftrightarrow> uint v \<le> i64_MAX \<and> n = uint v"
  by (auto simp: to_sql_u64_def)

lemma to_sql_u64_range:
  assumes "to_sql_u64 v = Ok n"
  shows "0 \<le> n" "sql_int n"
proof -
  from assms have n: "n = uint v" "uint v \<le> i64_MAX" by (simp_all add: to_sql_u64_ok)
  then show "0 \<le> n" by simp
  then have "i64_MIN \<le> n" by (rule order_trans [rotated]) simp
  with n show "sql_int n" by (simp add: sql_int_def)
qed

lemma to_sql_u64_length: "length bs < 2 ^ 64 \<Longrightarrow> to_sql_u64 (of_nat (length bs)) = Ok n \<Longrightarrow> n = int (length bs)"
  by (simp add: to_sql_u64_ok unsigned_of_nat take_bit_nat_eq_self)

lemma from_sql_u64_ok: "from_sql_u64 i = Ok v \<longleftrightarrow> 0 \<le> i \<and> v = word_of_int i"
  by (auto simp: from_sql_u64_def)

lemma close_active_groups:
  "groups (close_active s db) = map (\<lambda>g. if gr_stream_id g = s_stream_id s \<and>
      active s = Some (gr_epoch_id g, gr_key_group g) then g\<lparr>gr_complete := True\<rparr> else g) (groups db)"
  by (simp add: close_active_def)

lemma start_group_ok:
  assumes "inv_rows db" and s: "s \<in> set (streams db)" "s_stream_id s = h_stream_id (o_header obj)"
    and "start_group s obj seq kg received db = Ok db'"
  obtains g where "db' = open_row g (close_active s db)"
    "gr_stream_id g = s_stream_id s" "gr_epoch_id g = h_epoch_id (o_header obj)" "gr_key_group g = kg"
    "gr_key_id g = h_key_id (o_header obj)"
    "gr_first_sequence g = seq" "gr_last_sequence g = seq" "gr_retained_bytes g = 0" "\<not> gr_complete g"
    "group_check g" "\<And>g'. g' \<in> set (groups (close_active s db)) \<Longrightarrow> gr_key g' \<noteq> gr_key g"
    "h_kind (o_header obj) \<noteq> Cursor" "h_random_access (o_header obj)"
proof -
  have both: "s_active_epoch s = None \<longleftrightarrow> s_active_group s = None"
    using assms(1) s(1) by (simp add: inv_rows_def)
  let ?u = "\<lambda>r. r\<lparr>s_active_epoch := Some (h_epoch_id (o_header obj)), s_active_group := Some kg\<rparr>"
  from assms(4) obtain db1 ts g where
    first: "(case (s_active_epoch s, s_active_group s) of
        (Some e, Some k) \<Rightarrow> update_group (h_stream_id (o_header obj), e, k) (\<lambda>g. g\<lparr>gr_complete := True\<rparr>) db
      | _ \<Rightarrow> Ok db) = Ok db1"
    and prog: "validate_group_progression (s_active_epoch s) (s_active_group s)
        (h_epoch_id (o_header obj)) kg obj = Ok ()"
    and g: "g = \<lparr>gr_stream_id = h_stream_id (o_header obj), gr_epoch_id = h_epoch_id (o_header obj),
        gr_key_group = kg, gr_key_id = h_key_id (o_header obj), gr_first_sequence = seq,
        gr_last_sequence = seq, gr_first_timestamp = ts, gr_last_timestamp = ts,
        gr_received_first_ms = sint received, gr_received_last_ms = sint received,
        gr_retained_bytes = 0, gr_complete = False\<rparr>"
    and ins: "group_check g" "find_group db1 (gr_key g) = None"
    and db': "db' = db1\<lparr>groups := groups db1 @ [g],
        streams := map (\<lambda>r. if s_stream_id r = h_stream_id (o_header obj) then ?u r else r) (streams db1)\<rparr>"
    by (auto simp: start_group_def Let_def and_then_eq_Ok update_stream_ok insert_group_def split: if_splits)
  have "groups db1 = groups (close_active s db)" "streams db1 = streams db" "objects db1 = objects db"
    "envelopes db1 = envelopes db"
    using first both s(2)
    by (auto simp: close_active_groups active_def update_group_ok gr_key_def split: option.splits intro!: map_cong)
  moreover have "map (\<lambda>r. if s_stream_id r = h_stream_id (o_header obj) then ?u r else r) (streams db)
      = streams (open_row g (close_active s db))"
    using s(2) g by (simp add: open_row_def close_active_def)
  ultimately have "db' = open_row g (close_active s db)"
    using db' by (simp add: open_row_def close_active_def)
  with g ins prog \<open>groups db1 = _\<close> s(2) show ?thesis
    by (intro that [of g]) (auto simp: validate_group_progression_def find_group_def find_None split: if_splits)
qed

lemma close_active_stream:
  assumes "s \<in> set (streams db)"
  shows "s\<lparr>s_active_epoch := None, s_active_group := None\<rparr> \<in> set (streams (close_active s db))"
  using assms by (auto simp: close_active_def)

lemma start_group_inv:
  assumes inv: "store_inv db" and s: "s \<in> set (streams db)" "s_stream_id s = h_stream_id (o_header obj)"
    and "seq = s_high_water s + 1" and "start_group s obj seq kg received db = Ok db'"
  shows "store_inv_upto (Some (s_stream_id s)) db'"
    and "\<exists>s'\<in>set (streams db'). s_stream_id s' = s_stream_id s \<and> s_high_water s' = s_high_water s \<and>
      active s' = Some (h_epoch_id (o_header obj), kg)"
    and "objects db' = objects db"
proof -
  have rows: "inv_rows db" using inv by (simp add: store_inv_def store_inv_upto_def)
  let ?s = "s\<lparr>s_active_epoch := None, s_active_group := None\<rparr>"
  from start_group_ok [OF rows s assms(5)] obtain g where
    db': "db' = open_row g (close_active s db)" and
    g: "gr_stream_id g = s_stream_id ?s" "gr_epoch_id g = h_epoch_id (o_header obj)" "gr_key_group g = kg"
      "gr_first_sequence g = s_high_water ?s + 1" "gr_last_sequence g = s_high_water ?s + 1"
      "gr_retained_bytes g = 0" "\<not> gr_complete g" "group_check g"
      "\<And>g'. g' \<in> set (groups (close_active s db)) \<Longrightarrow> gr_key g' \<noteq> gr_key g"
    using assms(4) by auto
  have "active ?s = None" by (simp add: active_def)
  from open_row_inv [OF close_active_inv [OF inv s(1)] close_active_stream [OF s(1)] this g(1,4-8) g(9)]
  show "store_inv_upto (Some (s_stream_id s)) db'" using db' by simp
  show "\<exists>s'\<in>set (streams db'). s_stream_id s' = s_stream_id s \<and> s_high_water s' = s_high_water s \<and>
      active s' = Some (h_epoch_id (o_header obj), kg)"
    using close_active_stream [OF s(1)] g db'
    by (intro bexI [of _ "?s\<lparr>s_active_epoch := Some (gr_epoch_id g), s_active_group := Some (gr_key_group g)\<rparr>"])
      (auto simp: open_row_def active_def image_iff intro!: bexI [of _ ?s])
  show "objects db' = objects db" using db' by (simp add: open_row_def close_active_def)
qed

lemma append_object_ok:
  assumes "append_object (sid, eid, kg) seq ts received encoded db = Ok db'" and "length encoded < 2 ^ 64"
  obtains r f where "db' = append_row r f db"
    "r = \<lparr>ob_stream_id = sid, ob_sequence = seq, ob_epoch_id = eid, ob_key_group = kg,
          ob_received_at_ms = sint received, ob_object = encoded\<rparr>"
    "\<forall>r'\<in>set (objects db). ob_key r' \<noteq> ob_key r"
    "f = (\<lambda>g. g\<lparr>gr_last_sequence := seq, gr_last_timestamp := uint ts,
            gr_received_last_ms := max (gr_received_last_ms g) (sint received),
            gr_retained_bytes := gr_retained_bytes g + int (length encoded)\<rparr>)"
    "\<forall>g\<in>set (groups db). gr_key g = ob_group r \<longrightarrow> group_check (f g)"
proof -
  let ?r = "\<lparr>ob_stream_id = sid, ob_sequence = seq, ob_epoch_id = eid, ob_key_group = kg,
          ob_received_at_ms = sint received, ob_object = encoded\<rparr>"
  let ?f = "\<lambda>g. g\<lparr>gr_last_sequence := seq, gr_last_timestamp := uint ts,
            gr_received_last_ms := max (gr_received_last_ms g) (sint received),
            gr_retained_bytes := gr_retained_bytes g + int (length encoded)\<rparr>"
  have k: "ob_group ?r = (sid, eid, kg)" by (simp add: ob_group_def)
  from assms(1) have ins: "find_object db sid seq = None"
    and upd: "\<forall>g\<in>set (groups db). gr_key g = (sid, eid, kg) \<longrightarrow> group_check (?f g)"
    and db': "db' = append_row ?r ?f db"
    using to_sql_u64_length [OF assms(2)]
    by (auto simp: append_object_def insert_object_def and_then_eq_Ok update_group_ok update_stream_ok
        to_sql_u64_ok append_row_def k split: if_splits)
  show ?thesis
    using ins upd db' k
    by (intro that [of ?r ?f]) (auto simp: find_object_def find_None ob_key_def)
qed

lemma append_object_inv:
  assumes inv: "store_inv_upto pend db" and pend: "pend = None \<or> pend = Some (s_stream_id s)"
    and s: "s \<in> set (streams db)" "active s = Some (eid, kg)"
    and seq: "seq = s_high_water s + 1" "sql_int seq"
    and ok: "append_object (s_stream_id s, eid, kg) seq ts received encoded db = Ok db'"
      "length encoded < 2 ^ 64"
  shows "store_inv db'"
proof -
  from append_object_ok [OF ok] obtain r f where *: "db' = append_row r f db"
    "r = \<lparr>ob_stream_id = s_stream_id s, ob_sequence = seq, ob_epoch_id = eid, ob_key_group = kg,
          ob_received_at_ms = sint received, ob_object = encoded\<rparr>"
    "\<forall>r'\<in>set (objects db). ob_key r' \<noteq> ob_key r"
    "f = (\<lambda>g. g\<lparr>gr_last_sequence := seq, gr_last_timestamp := uint ts,
            gr_received_last_ms := max (gr_received_last_ms g) (sint received),
            gr_retained_bytes := gr_retained_bytes g + int (length encoded)\<rparr>)"
    "\<forall>g\<in>set (groups db). gr_key g = ob_group r \<longrightarrow> group_check (f g)" .
  show ?thesis
    unfolding *(1)
    by (rule append_row_inv [OF inv pend s(1)]) (use * s seq in \<open>auto simp: gr_key_def\<close>)
qed

lemma store_object_ok:
  assumes "store_object E cfg obj received db = Ok (db', c)"
  obtains d encoded existing where
    "find_object db (h_stream_id (o_header obj)) (uint (h_sequence (o_header obj))) = Some existing"
    "ob_object existing = encoded" "object_encode E (d_publisher (d_body d)) obj = Ok encoded"
    "descriptor_in_transaction E db (h_stream_id (o_header obj)) = Ok (Some d)"
    "db' = db" "c = \<lparr>committed_through = h_sequence (o_header obj), evicted_groups = 0, inserted = False\<rparr>"
  | d encoded s kg db1 db2 n pid where
    "find_object db (h_stream_id (o_header obj)) (uint (h_sequence (o_header obj))) = None"
    "object_encode E (d_publisher (d_body d)) obj = Ok encoded"
    "descriptor_in_transaction E db (h_stream_id (o_header obj)) = Ok (Some d)"
    "find_stream db (h_stream_id (o_header obj)) = Some s"
    "uint (h_sequence (o_header obj)) = s_high_water s + 1" "s_high_water s + 1 \<le> i64_MAX"
    "to_sql_u64 (h_key_group (o_header obj)) = Ok kg"
    "enter_group s obj (s_high_water s + 1) kg received db = Ok db1"
    "identity_id E (d_publisher (d_body d)) = Ok pid"
    "check_group_growth cfg db1 pid (h_stream_id (o_header obj), h_epoch_id (o_header obj), kg)
       (of_nat (length encoded)) ObjectItem = Ok ()"
    "append_object (h_stream_id (o_header obj), h_epoch_id (o_header obj), kg) (s_high_water s + 1)
       (h_timestamp (o_header obj)) received encoded db1 = Ok db2"
    "enforce_retention cfg (h_stream_id (o_header obj)) received db2 = Ok (db', n)"
    "c = \<lparr>committed_through = h_sequence (o_header obj), evicted_groups = n, inserted = True\<rparr>"
proof (cases "find_object db (h_stream_id (o_header obj)) (uint (h_sequence (o_header obj)))")
  case None
  with assms that(2) show ?thesis
    by (auto simp: store_object_def Let_def result_simps to_sql_u64_ok not_less)
next
  case (Some existing)
  with assms that(1) show ?thesis
    by (auto simp: store_object_def Let_def result_simps to_sql_u64_ok)
qed

end
