(* ===== verification/StoreProperties.thy ===== *)
theory StoreProperties
  imports StoreInvariant
begin

text \<open>
  What the native store guarantees: its invariant holds in every state its transactions reach,
  sequence numbers are contiguous and never reused, eviction removes whole complete groups
  oldest first, quotas hold, a stream keeps its publisher, and subscriptions start at a
  decodable boundary.
\<close>

section \<open>Transactions keep the invariant\<close>

lemma enter_group_inv:
  assumes inv: "store_inv db" and s: "s \<in> set (streams db)" "s_stream_id s = h_stream_id (o_header obj)"
    and ok: "enter_group s obj (s_high_water s + 1) kg received db = Ok db1"
  obtains pend s1 where "store_inv_upto pend db1" "pend = None \<or> pend = Some (s_stream_id s1)"
    "s1 \<in> set (streams db1)" "s_stream_id s1 = s_stream_id s" "s_high_water s1 = s_high_water s"
    "active s1 = Some (h_epoch_id (o_header obj), kg)" "objects db1 = objects db"
proof (cases "group_changed s (h_epoch_id (o_header obj)) kg")
  case True
  with ok have "start_group s obj (s_high_water s + 1) kg received db = Ok db1"
    by (simp add: enter_group_def Let_def)
  note st = start_group_inv [OF inv s refl this]
  from st(2) obtain s1 where "s1 \<in> set (streams db1)" "s_stream_id s1 = s_stream_id s"
    "s_high_water s1 = s_high_water s" "active s1 = Some (h_epoch_id (o_header obj), kg)" by blast
  with st(1,3) show ?thesis by (intro that [of "Some (s_stream_id s)" s1]) auto
next
  case False
  with ok have "db1 = db" by (auto simp: enter_group_def Let_def result_simps)
  moreover have "active s = Some (h_epoch_id (o_header obj), kg)"
    using False by (simp add: group_changed_def active_def)
  ultimately show ?thesis using inv s by (intro that [of None s]) (auto simp: store_inv_def)
qed

lemma enforce_retention_inv:
  "enforce_retention cfg sid now_ms db = Ok (db', n) \<Longrightarrow> store_inv db \<Longrightarrow> store_inv db'"
  unfolding enforce_retention_def store_inv_def by (rule enforce_retention_loop_inv)

lemma retention_over_inv:
  "retention_over cfg now_ms sids db removed = Ok (db', n) \<Longrightarrow> store_inv db \<Longrightarrow> store_inv db'"
  by (induction sids arbitrary: db removed) (auto simp: and_then_eq_Ok dest: enforce_retention_inv)

lemma enforce_retention_at_inv:
  "enforce_retention_at cfg now_ms db = Ok (db', n) \<Longrightarrow> store_inv db \<Longrightarrow> store_inv db'"
  unfolding enforce_retention_at_def by (rule retention_over_inv)

lemma object_encode_small: "object_encode E p obj = Ok bs \<Longrightarrow> length bs < 2 ^ 64"
  by (auto simp: object_encode_ok MAX_NATIVE_OBJECT_LEN_def MAX_MEDIA_CIPHERTEXT_LEN_def)

lemma envelope_encode_small: "envelope_encode E p e = Ok bs \<Longrightarrow> length bs < 2 ^ 64"
  by (auto simp: envelope_encode_ok MAX_KEY_ENVELOPE_LEN_def)

lemma found_stream:
  assumes "store_inv db" and "find_stream db sid = Some s"
  shows "s \<in> set (streams db)" "s_stream_id s = sid" "0 \<le> s_high_water s"
proof -
  have keys: "inv_keys db" "inv_rows db" using assms(1) by (simp_all add: store_inv_def store_inv_upto_def)
  with assms(2) show "s \<in> set (streams db)" "s_stream_id s = sid" by (simp_all add: find_stream_iff)
  with keys(2) show "0 \<le> s_high_water s" by (auto simp: inv_rows_def stream_check_def)
qed

text \<open>The state in which the object has been appended, before retention runs.\<close>

lemma stored_object_inv:
  assumes inv: "store_inv db" and s: "find_stream db (h_stream_id (o_header obj)) = Some s"
    and hw: "s_high_water s + 1 \<le> i64_MAX"
    and enter: "enter_group s obj (s_high_water s + 1) kg received db = Ok db1"
    and enc: "object_encode E p obj = Ok encoded"
    and app: "append_object (h_stream_id (o_header obj), h_epoch_id (o_header obj), kg) (s_high_water s + 1)
       (h_timestamp (o_header obj)) received encoded db1 = Ok db2"
  shows "store_inv db2"
proof -
  note s' = found_stream [OF inv s]
  have seq: "sql_int (s_high_water s + 1)" using s'(3) hw by (simp add: sql_int_def)
  from enter_group_inv [OF inv s'(1,2) enter] obtain pend s1 where
    1: "store_inv_upto pend db1" "pend = None \<or> pend = Some (s_stream_id s1)"
    "s1 \<in> set (streams db1)" "s_stream_id s1 = s_stream_id s" "s_high_water s1 = s_high_water s"
    "active s1 = Some (h_epoch_id (o_header obj), kg)" .
  show ?thesis
    by (rule append_object_inv [OF 1(1,2,3,6) _ _ _ object_encode_small [OF enc]])
      (use 1(4,5) s'(2) seq app in simp_all)
qed

lemma store_object_inv:
  assumes "store_inv db" and "store_object E cfg obj received db = Ok (db', c)"
  shows "store_inv db'"
  using assms(2)
proof (cases rule: store_object_ok)
  case 1
  with assms(1) show ?thesis by simp
next
  case 2
  show ?thesis
    by (rule enforce_retention_inv [OF 2(12)], rule stored_object_inv [OF assms(1) 2(4,6,8,2,11)])
qed

lemma append_envelope_ok:
  assumes "append_envelope (sid, eid, kg) rid kid received encoded db = Ok db'" and "length encoded < 2 ^ 64"
  obtains r where "db' = append_envelope_row r db"
    "r = \<lparr>en_stream_id = sid, en_epoch_id = eid, en_key_group = kg, en_recipient_id = rid, en_key_id = kid,
          en_received_at_ms = sint received, en_envelope = encoded\<rparr>"
    "\<forall>r'\<in>set (envelopes db). en_key r' \<noteq> en_key r"
    "\<forall>g\<in>set (groups db). gr_key g = en_group r \<longrightarrow>
       group_check (g\<lparr>gr_retained_bytes := gr_retained_bytes g + int (length (en_envelope r))\<rparr>)"
proof -
  let ?r = "\<lparr>en_stream_id = sid, en_epoch_id = eid, en_key_group = kg, en_recipient_id = rid, en_key_id = kid,
          en_received_at_ms = sint received, en_envelope = encoded\<rparr>"
  have k: "en_group ?r = (sid, eid, kg)" by (simp add: en_group_def)
  from assms(1) have "find_envelope db (sid, eid, kg) rid = None"
    "\<forall>g\<in>set (groups db). gr_key g = (sid, eid, kg) \<longrightarrow>
       group_check (g\<lparr>gr_retained_bytes := gr_retained_bytes g + int (length encoded)\<rparr>)"
    "db' = append_envelope_row ?r db"
    using to_sql_u64_length [OF assms(2)]
    by (auto simp: append_envelope_def insert_envelope_def and_then_eq_Ok update_group_ok
        append_envelope_row_def k split: if_splits)
  then show ?thesis
    by (intro that [of ?r]) (auto simp: find_envelope_def find_None en_key_def k)
qed

lemma store_envelope_ok:
  assumes "store_envelope E cfg e received db = Ok (db', stored)"
  obtains "db' = db" "\<not> stored"
  | d encoded kg g db1 n pid where
    "find_group db (k_stream_id (e_header e), k_epoch_id (e_header e), kg) = Some g"
    "gr_key_id g = k_key_id (e_header e)" "to_sql_u64 (k_key_group_id (e_header e)) = Ok kg"
    "descriptor_in_transaction E db (k_stream_id (e_header e)) = Ok (Some d)"
    "envelope_encode E (d_publisher (d_body d)) e = Ok encoded"
    "identity_id E (d_publisher (d_body d)) = Ok pid"
    "check_group_growth cfg db pid (k_stream_id (e_header e), k_epoch_id (e_header e), kg)
       (of_nat (length encoded)) EnvelopeItem = Ok ()"
    "append_envelope (k_stream_id (e_header e), k_epoch_id (e_header e), kg) (k_recipient_id (e_header e))
       (k_key_id (e_header e)) received encoded db = Ok db1"
    "enforce_retention cfg (k_stream_id (e_header e)) received db1 = Ok (db', n)" "stored"
  using assms that
  by (auto simp: store_envelope_def Let_def result_simps split: option.splits if_splits)

lemma appended_envelope_inv:
  assumes inv: "store_inv db" and g: "find_group db (sid, eid, kg) = Some g" "gr_key_id g = kid"
    and app: "append_envelope (sid, eid, kg) rid kid received encoded db = Ok db1" "length encoded < 2 ^ 64"
  shows "store_inv db1"
proof -
  from append_envelope_ok [OF app] obtain r where r: "db1 = append_envelope_row r db"
    "r = \<lparr>en_stream_id = sid, en_epoch_id = eid, en_key_group = kg, en_recipient_id = rid, en_key_id = kid,
          en_received_at_ms = sint received, en_envelope = encoded\<rparr>"
    "\<forall>r'\<in>set (envelopes db). en_key r' \<noteq> en_key r"
    "\<forall>g\<in>set (groups db). gr_key g = en_group r \<longrightarrow>
       group_check (g\<lparr>gr_retained_bytes := gr_retained_bytes g + int (length (en_envelope r))\<rparr>)" .
  have "g \<in> set (groups db)" "gr_key g = (sid, eid, kg)"
    using inv g(1) by (simp_all add: find_group_iff store_inv_def store_inv_upto_def)
  with r g(2) show ?thesis
    unfolding r(1) by (intro append_envelope_row_inv [OF inv, of g]) (auto simp: en_group_def)
qed

lemma store_envelope_inv:
  assumes "store_inv db" and "store_envelope E cfg e received db = Ok (db', stored)"
  shows "store_inv db'"
  using assms(2)
proof (cases rule: store_envelope_ok)
  case 1
  with assms(1) show ?thesis by simp
next
  case 2
  show ?thesis
    by (rule enforce_retention_inv [OF 2(9)],
        rule appended_envelope_inv [OF assms(1) 2(1,2,8) envelope_encode_small [OF 2(5)]])
qed

lemma finalize_stream_ok:
  assumes inv: "store_inv db" and "finalize_stream sid db = Ok db'"
  shows "db' = db \<or> (\<exists>s\<in>set (streams db). s_stream_id s = sid \<and> db' = close_active s db)"
proof (cases "find_stream db sid")
  case None
  with assms(2) show ?thesis by (simp add: finalize_stream_def)
next
  case (Some s)
  note s = found_stream [OF inv Some]
  show ?thesis
  proof (cases "active s")
    case None
    with Some assms(2) show ?thesis by (auto simp: finalize_stream_def active_def split: option.splits)
  next
    case (Some k)
    then obtain e kg where act: "s_active_epoch s = Some e" "s_active_group s = Some kg"
      by (auto simp: active_def split: option.splits)
    have "db' = close_active s db"
      using assms(2) \<open>find_stream db sid = Some s\<close> act s(2)
      by (auto simp: finalize_stream_def and_then_eq_Ok update_group_ok update_stream_ok close_active_def
          active_def gr_key_def intro!: map_cong)
    with s show ?thesis by blast
  qed
qed

lemma finalize_stream_inv: "store_inv db \<Longrightarrow> finalize_stream sid db = Ok db' \<Longrightarrow> store_inv db'"
  using finalize_stream_ok close_active_inv by blast

lemma put_descriptor_cases:
  assumes "put_descriptor E cfg d db = Ok db'"
  obtains "db' = db"
  | encoded s where "find_stream db (d_stream_id (d_body d)) = Some s"
    "update_stream (d_stream_id (d_body d)) (\<lambda>r. r\<lparr>s_descriptor := encoded\<rparr>) db = Ok db'"
  | encoded pid where "find_stream db (d_stream_id (d_body d)) = None"
    "length (streams db) < unat (max_streams (limits cfg))"
    "length (filter (\<lambda>r. s_publisher_id r = pid) (streams db)) < unat (max_streams_per_publisher (limits cfg))"
    "insert_stream \<lparr>s_stream_id = d_stream_id (d_body d), s_publisher_id = pid, s_descriptor = encoded,
       s_high_water = 0, s_active_epoch = None, s_active_group = None\<rparr> db = Ok db'"
proof (cases "find_stream db (d_stream_id (d_body d))")
  case None
  with assms that(3) show ?thesis
    by (auto simp: put_descriptor_def Let_def result_simps not_le)
next
  case (Some s)
  with assms that(1,2) show ?thesis
    by (auto simp: put_descriptor_def Let_def result_simps split: if_splits)
qed

lemma put_descriptor_inv:
  assumes "store_inv db" and "put_descriptor E cfg d db = Ok db'"
  shows "store_inv db'"
  using assms(2)
proof (cases rule: put_descriptor_cases)
  case 1
  with assms(1) show ?thesis by simp
next
  case 2
  show ?thesis by (rule update_descriptor_inv [OF assms(1) 2(2)])
next
  case 3
  show ?thesis by (rule insert_stream_inv [OF assms(1) 3(4)]) (simp_all add: active_def)
qed

section \<open>The store as a state machine\<close>

text \<open>One committed transaction of the store, whichever client asked for it.\<close>

inductive store_step :: "'z envelope_env_scheme \<Rightarrow> native_store_config \<Rightarrow> native_db \<Rightarrow> native_db \<Rightarrow> bool" for E cfg where
  put: "put_descriptor E cfg d db = Ok db' \<Longrightarrow> store_step E cfg db db'"
| store: "store_object E cfg obj received db = Ok (db', c) \<Longrightarrow> store_step E cfg db db'"
| envelope: "store_envelope E cfg e received db = Ok (db', stored) \<Longrightarrow> store_step E cfg db db'"
| finalize: "finalize_stream sid db = Ok db' \<Longrightarrow> store_step E cfg db db'"
| retention: "enforce_retention_at cfg now_ms db = Ok (db', n) \<Longrightarrow> store_step E cfg db db'"

inductive_cases store_stepE: "store_step E cfg db db'"

lemma store_step_inv: "store_step E cfg db db' \<Longrightarrow> store_inv db \<Longrightarrow> store_inv db'"
  by (induction rule: store_step.induct)
    (blast intro: put_descriptor_inv store_object_inv store_envelope_inv finalize_stream_inv
      enforce_retention_at_inv)+

interpretation store_machine: invariant_machine "store_step E cfg" store_inv for E cfg
  by unfold_locales (rule store_step_inv)

section \<open>Eviction removes whole groups, oldest first\<close>

text \<open>The database without the groups of \<open>K\<close> and what they hold.\<close>

definition without_groups :: "group_key set \<Rightarrow> native_db \<Rightarrow> native_db" where
  "without_groups K db =
     db\<lparr>groups := filter (\<lambda>g. gr_key g \<notin> K) (groups db),
        objects := filter (\<lambda>r. ob_group r \<notin> K) (objects db),
        envelopes := filter (\<lambda>r. en_group r \<notin> K) (envelopes db)\<rparr>"

lemma without_groups_empty: "without_groups {} db = db"
  by (simp add: without_groups_def)

lemma without_groups_insert: "without_groups K (delete_group k db) = without_groups (insert k K) db"
  by (auto simp: without_groups_def delete_group_def intro!: filter_cong)

text \<open>The groups that eviction took: complete groups of the stream, all before what is left of it.\<close>

definition evictable :: "native_db \<Rightarrow> uuid \<Rightarrow> group_key set \<Rightarrow> bool" where
  "evictable db sid K \<longleftrightarrow>
     finite K \<and>
     (\<forall>k\<in>K. \<exists>g\<in>set (groups db). gr_key g = k \<and> gr_stream_id g = sid \<and> gr_complete g) \<and>
     (\<forall>g\<in>set (groups db). \<forall>h\<in>set (groups db). gr_key g \<in> K \<longrightarrow> gr_key h \<notin> K \<longrightarrow> gr_stream_id h = sid \<longrightarrow>
        gr_last_sequence g < gr_first_sequence h)"

lemma oldest_precedes:
  assumes inv: "store_inv_upto pend db" and o: "first_by gr_first_sequence (complete_groups_of db sid) = Some g0"
    and h: "h \<in> set (groups db)" "gr_stream_id h = sid" "gr_key h \<noteq> gr_key g0"
  shows "gr_last_sequence g0 < gr_first_sequence h"
proof (cases "gr_complete h")
  case True
  with oldest_complete [OF o] h have "gr_first_sequence g0 \<le> gr_first_sequence h" by auto
  with disjointD [OF inv h(1) oldest_complete(1) [OF o]] h oldest_complete(3) [OF o]
    group_checkD(2) [OF inv h(1)] group_checkD(2) [OF inv oldest_complete(1) [OF o]]
  show ?thesis by auto
next
  case False
  from active_is_newest [OF inv h(1) False oldest_complete(1) [OF o]] h oldest_complete(3) [OF o]
  show ?thesis by auto
qed

lemma evictable_insert:
  assumes inv: "store_inv_upto pend db" and o: "first_by gr_first_sequence (complete_groups_of db sid) = Some g0"
    and K: "evictable (delete_group (gr_key g0) db) sid K"
  shows "evictable db sid (insert (gr_key g0) K)" "gr_key g0 \<notin> K"
proof -
  show "gr_key g0 \<notin> K" using K by (auto simp: evictable_def)
  show "evictable db sid (insert (gr_key g0) K)"
    unfolding evictable_def
  proof (intro conjI ballI impI)
    show "finite (insert (gr_key g0) K)" using K by (simp add: evictable_def)
  next
    fix k assume "k \<in> insert (gr_key g0) K"
    then show "\<exists>g\<in>set (groups db). gr_key g = k \<and> gr_stream_id g = sid \<and> gr_complete g"
      using K oldest_complete(1-3) [OF o] by (auto simp: evictable_def)
  next
    fix g h assume gh: "g \<in> set (groups db)" "h \<in> set (groups db)" "gr_key g \<in> insert (gr_key g0) K"
      "gr_key h \<notin> insert (gr_key g0) K" "gr_stream_id h = sid"
    show "gr_last_sequence g < gr_first_sequence h"
    proof (cases "gr_key g = gr_key g0")
      case True
      then have "g = g0" using group_unique [OF store_invD(1) [OF inv] gh(1) oldest_complete(1) [OF o]] by simp
      with oldest_precedes [OF inv o gh(2,5)] gh(4) show ?thesis by simp
    next
      case False
      with K gh show ?thesis by (auto simp: evictable_def)
    qed
  qed
qed

text \<open>The groups of \<open>K\<close> that were evicted before \<open>g\<close>, the older ones.\<close>

definition evicted_before :: "native_db \<Rightarrow> group_key set \<Rightarrow> group_row \<Rightarrow> group_key set" where
  "evicted_before db K g =
     gr_key ` {h \<in> set (groups db). gr_key h \<in> K \<and> gr_first_sequence h < gr_first_sequence g}"

definition evicted_as_needed ::
  "native_store_config \<Rightarrow> uuid \<Rightarrow> int option \<Rightarrow> native_db \<Rightarrow> group_key set \<Rightarrow> bool" where
  "evicted_as_needed cfg sid cutoff db K \<longleftrightarrow>
     (\<forall>g\<in>set (groups db). gr_key g \<in> K \<longrightarrow>
        retention_exceeded cfg sid cutoff (without_groups (evicted_before db K g) db) g)"

lemma evicted_as_needed_insert:
  assumes inv: "store_inv_upto pend db" and o: "first_by gr_first_sequence (complete_groups_of db sid) = Some g0"
    and ex: "retention_exceeded cfg sid cutoff db g0"
    and K: "evictable (delete_group (gr_key g0) db) sid K"
    and needed: "evicted_as_needed cfg sid cutoff (delete_group (gr_key g0) db) K"
  shows "evicted_as_needed cfg sid cutoff db (insert (gr_key g0) K)"
  unfolding evicted_as_needed_def
proof (intro ballI impI)
  note o1 = oldest_complete [OF o]
  have K': "\<exists>h\<in>set (groups db). gr_key h = k \<and> gr_stream_id h = sid \<and> gr_key h \<noteq> gr_key g0" if "k \<in> K" for k
    using K that by (fastforce simp: evictable_def delete_group_def)
  have younger: "gr_first_sequence g0 < gr_first_sequence h" if "h \<in> set (groups db)" "gr_key h \<in> K" for h
  proof -
    from K' [OF that(2)] obtain h' where "h' \<in> set (groups db)" "gr_key h' = gr_key h" "gr_stream_id h' = sid"
      "gr_key h' \<noteq> gr_key g0" by blast
    moreover from this have "h' = h" using group_unique [OF store_invD(1) [OF inv]] that(1) by blast
    ultimately show ?thesis
      using oldest_precedes [OF inv o that(1)] group_checkD(2) [OF inv o1(1)] by auto
  qed
  fix g assume g: "g \<in> set (groups db)" "gr_key g \<in> insert (gr_key g0) K"
  show "retention_exceeded cfg sid cutoff (without_groups (evicted_before db (insert (gr_key g0) K) g) db) g"
  proof (cases "gr_key g = gr_key g0")
    case True
    then have "g = g0" using group_unique [OF store_invD(1) [OF inv] g(1) o1(1)] by simp
    moreover have "h = g0" if "h \<in> set (groups db)" "gr_key h = gr_key g0" for h
      using group_unique [OF store_invD(1) [OF inv] that(1) o1(1)] that(2) by simp
    then have "evicted_before db (insert (gr_key g0) K) g0 = {}"
      using younger by (fastforce simp: evicted_before_def)
    ultimately show ?thesis using ex by (simp add: without_groups_empty)
  next
    case False
    with g have gK: "gr_key g \<in> K" by simp
    have "evicted_before db (insert (gr_key g0) K) g = insert (gr_key g0) (evicted_before (delete_group (gr_key g0) db) K g)"
      using younger [OF g(1) gK] o1(1) by (auto simp: evicted_before_def delete_group_def)
    moreover have "g \<in> set (groups (delete_group (gr_key g0) db))" using g(1) False by (simp add: delete_group_def)
    with needed gK have "retention_exceeded cfg sid cutoff
        (without_groups (evicted_before (delete_group (gr_key g0) db) K g) (delete_group (gr_key g0) db)) g"
      by (simp add: evicted_as_needed_def)
    ultimately show ?thesis by (simp add: without_groups_insert)
  qed
qed

lemma enforce_retention_loop_evicts:
  "enforce_retention_loop cfg sid cutoff db removed = Ok (db', n) \<Longrightarrow> store_inv_upto pend db \<Longrightarrow>
    \<exists>K. evictable db sid K \<and> db' = without_groups K db \<and> evicted_as_needed cfg sid cutoff db K \<and>
      (case retention_bytes cfg of None \<Rightarrow> True | Some l \<Rightarrow>
        (\<exists>b. stream_bytes db' sid = Ok b \<and> (b \<le> l \<or> complete_groups_of db' sid = []))) \<and>
      (case cutoff of None \<Rightarrow> True | Some c \<Rightarrow>
        (\<forall>g0. first_by gr_first_sequence (complete_groups_of db' sid) = Some g0 \<longrightarrow> c \<le> gr_received_last_ms g0))"
proof (induction "length (groups db)" arbitrary: db removed rule: less_induct)
  case less
  from less.prems(1) show ?case
  proof (cases rule: enforce_retention_loop_cases)
    case 1
    then show ?thesis
      by (intro exI [of _ "{}"]) (auto simp: evictable_def evicted_as_needed_def without_groups_empty)
  next
    case (2 g0)
    note o = oldest_complete [OF 2(1)]
    from less.hyps [OF delete_group_shrinks [OF o(1)] 2(2) delete_oldest_inv [OF less.prems(2) o(1,2,4)]]
    obtain K where K: "evictable (delete_group (gr_key g0) db) sid K"
      "evicted_as_needed cfg sid cutoff (delete_group (gr_key g0) db) K"
      "db' = without_groups K (delete_group (gr_key g0) db)"
      "(case retention_bytes cfg of None \<Rightarrow> True | Some l \<Rightarrow>
        (\<exists>b. stream_bytes db' sid = Ok b \<and> (b \<le> l \<or> complete_groups_of db' sid = []))) \<and>
      (case cutoff of None \<Rightarrow> True | Some c \<Rightarrow>
        (\<forall>g0. first_by gr_first_sequence (complete_groups_of db' sid) = Some g0 \<longrightarrow> c \<le> gr_received_last_ms g0))"
      by blast
    with evictable_insert(1) [OF less.prems(2) 2(1) K(1)] evicted_as_needed_insert [OF less.prems(2) 2(1,3) K(1,2)]
    show ?thesis
      by (intro exI [of _ "insert (gr_key g0) K"]) (simp add: without_groups_insert)
  qed
qed

lemma enforce_retention_without:
  assumes "enforce_retention cfg sid now_ms db = Ok (db', n)" and "store_inv db"
  obtains K where "evictable db sid K" "db' = without_groups K db"
  using enforce_retention_loop_evicts [of cfg sid "age_cutoff cfg now_ms" db 0 db' n None] assms
  unfolding enforce_retention_def store_inv_def by blast

lemma without_groups_streams [simp]: "streams (without_groups K db) = streams db"
  by (simp add: without_groups_def)

text \<open>C13: Commit-time and periodic retention evict only whole complete groups of the stream, with
  all their objects and envelopes, and only ones that lie entirely before everything the stream
  still retains; nothing else in the database changes.  They evict no more than needed: when a group
  went, with only the older evicted groups gone before it, the stream was above its byte limit or
  the group was older than the age limit.  And no less: when they are done, the stream is within its
  byte limit unless no complete group is left, and the oldest complete group left, if there is one,
  is within the age limit.\<close>

theorem retention_evicts_oldest_whole_groups:
  assumes "store_inv db" and "enforce_retention cfg sid now_ms db = Ok (db', n)"
  shows "\<exists>K. db' = without_groups K db \<and>
     (\<forall>k\<in>K. \<exists>g\<in>set (groups db). gr_key g = k \<and> gr_stream_id g = sid \<and> gr_complete g) \<and>
     (\<forall>g\<in>set (groups db). \<forall>h\<in>set (groups db). gr_key g \<in> K \<longrightarrow> gr_key h \<notin> K \<longrightarrow> gr_stream_id h = sid \<longrightarrow>
        gr_last_sequence g < gr_first_sequence h) \<and>
     (\<forall>g\<in>set (groups db). gr_key g \<in> K \<longrightarrow>
        (\<exists>l b. retention_bytes cfg = Some l \<and> stream_bytes (without_groups (evicted_before db K g) db) sid = Ok b \<and> l < b) \<or>
        (\<exists>c. age_cutoff cfg now_ms = Some c \<and> gr_received_last_ms g < c)) \<and>
     (case retention_bytes cfg of None \<Rightarrow> True | Some l \<Rightarrow>
        (\<exists>b. stream_bytes db' sid = Ok b \<and> (b \<le> l \<or> complete_groups_of db' sid = []))) \<and>
     (case age_cutoff cfg now_ms of None \<Rightarrow> True | Some c \<Rightarrow>
        (\<forall>g0. first_by gr_first_sequence (complete_groups_of db' sid) = Some g0 \<longrightarrow> c \<le> gr_received_last_ms g0))"
  using enforce_retention_loop_evicts [of cfg sid "age_cutoff cfg now_ms" db 0 db' n None] assms
  unfolding enforce_retention_def store_inv_def evictable_def evicted_as_needed_def retention_exceeded_def by blast

section \<open>How stream rows evolve\<close>

text \<open>A stream keeps its publisher, and its high-water mark never goes down.\<close>

definition streams_grow :: "native_db \<Rightarrow> native_db \<Rightarrow> bool" where
  "streams_grow db db' \<longleftrightarrow>
     (\<forall>s\<in>set (streams db). \<exists>s'\<in>set (streams db'). s_stream_id s' = s_stream_id s \<and>
        s_publisher_id s' = s_publisher_id s \<and> s_high_water s \<le> s_high_water s')"

lemma streams_grow_refl: "streams db' = streams db \<Longrightarrow> streams_grow db db'"
  by (auto simp: streams_grow_def)

lemma streams_grow_trans: "streams_grow db1 db2 \<Longrightarrow> streams_grow db2 db3 \<Longrightarrow> streams_grow db1 db3"
  unfolding streams_grow_def by (metis order_trans)

lemma streams_grow_map:
  assumes "streams db' = map u (streams db)"
    and "\<And>s. s \<in> set (streams db) \<Longrightarrow> s_stream_id (u s) = s_stream_id s \<and> s_publisher_id (u s) = s_publisher_id s \<and>
      s_high_water s \<le> s_high_water (u s)"
  shows "streams_grow db db'"
  using assms by (auto simp: streams_grow_def)

lemma close_active_grow: "streams_grow db (close_active s db)"
  by (rule streams_grow_map [where u = "\<lambda>r. if s_stream_id r = s_stream_id s
        then r\<lparr>s_active_epoch := None, s_active_group := None\<rparr> else r"])
    (simp_all add: close_active_def)

lemma open_row_grow: "streams_grow db (open_row g db)"
  by (rule streams_grow_map [where u = "\<lambda>r. if s_stream_id r = gr_stream_id g
        then r\<lparr>s_active_epoch := Some (gr_epoch_id g), s_active_group := Some (gr_key_group g)\<rparr> else r"])
    (simp_all add: open_row_def)

lemma enter_group_grow:
  assumes "store_inv db" and "s \<in> set (streams db)" "s_stream_id s = h_stream_id (o_header obj)"
    and "enter_group s obj seq kg received db = Ok db1"
  shows "streams_grow db db1"
proof (cases "group_changed s (h_epoch_id (o_header obj)) kg")
  case True
  have rows: "inv_rows db" using assms(1) by (simp add: store_inv_def store_inv_upto_def)
  from True assms(4) have "start_group s obj seq kg received db = Ok db1" by (simp add: enter_group_def Let_def)
  from start_group_ok [OF rows assms(2,3) this] obtain g where "db1 = open_row g (close_active s db)" by blast
  then show ?thesis using close_active_grow open_row_grow streams_grow_trans by blast
next
  case False
  with assms(4) have "db1 = db" by (auto simp: enter_group_def Let_def result_simps)
  then show ?thesis by (simp add: streams_grow_refl)
qed

lemma append_object_streams:
  "append_object (sid, eid, kg) seq ts received encoded db = Ok db' \<Longrightarrow>
    streams db' = map (\<lambda>r. if s_stream_id r = sid then r\<lparr>s_high_water := seq\<rparr> else r) (streams db)"
  by (auto simp: append_object_def insert_object_def and_then_eq_Ok update_group_ok update_stream_ok split: if_splits)

lemma enforce_retention_streams:
  "store_inv db \<Longrightarrow> enforce_retention cfg sid now_ms db = Ok (db', n) \<Longrightarrow> streams db' = streams db"
  by (rule enforce_retention_without [of cfg sid now_ms db db' n]) simp_all

lemma retention_over_streams:
  "retention_over cfg now_ms sids db removed = Ok (db', n) \<Longrightarrow> store_inv db \<Longrightarrow> streams db' = streams db"
proof (induction sids arbitrary: db removed)
  case (Cons sid sids)
  then obtain db1 m where 1: "enforce_retention cfg sid now_ms db = Ok (db1, m)"
    "retention_over cfg now_ms sids db1 (saturating_add_usize removed m) = Ok (db', n)"
    by (auto simp: and_then_eq_Ok)
  with Cons.IH [OF 1(2) enforce_retention_inv [OF 1(1) Cons.prems(2)]]
    enforce_retention_streams [OF Cons.prems(2) 1(1)] show ?case by simp
qed simp

lemma stored_object_grow:
  assumes inv: "store_inv db" and s: "find_stream db (h_stream_id (o_header obj)) = Some s"
    and enter: "enter_group s obj (s_high_water s + 1) kg received db = Ok db1"
    and app: "append_object (h_stream_id (o_header obj), h_epoch_id (o_header obj), kg) (s_high_water s + 1)
       (h_timestamp (o_header obj)) received encoded db1 = Ok db2"
  shows "streams_grow db db2"
proof -
  note s' = found_stream [OF inv s]
  from enter_group_inv [OF inv s'(1,2) enter] obtain pend s1 where
    1: "store_inv_upto pend db1" "s1 \<in> set (streams db1)" "s_stream_id s1 = s_stream_id s"
    "s_high_water s1 = s_high_water s" .
  have "streams_grow db1 db2"
  proof (rule streams_grow_map [OF append_object_streams [OF app]])
    fix t assume t: "t \<in> set (streams db1)"
    have "t = s1" if "s_stream_id t = h_stream_id (o_header obj)"
      using stream_unique [OF store_invD(1) [OF 1(1)] t 1(2)] that 1(3) s'(2) by simp
    with 1(4) show "s_stream_id (if s_stream_id t = h_stream_id (o_header obj) then t\<lparr>s_high_water := s_high_water s + 1\<rparr> else t)
        = s_stream_id t \<and> s_publisher_id (if s_stream_id t = h_stream_id (o_header obj)
          then t\<lparr>s_high_water := s_high_water s + 1\<rparr> else t) = s_publisher_id t \<and>
        s_high_water t \<le> s_high_water (if s_stream_id t = h_stream_id (o_header obj)
          then t\<lparr>s_high_water := s_high_water s + 1\<rparr> else t)" by auto
  qed
  with enter_group_grow [OF inv s'(1,2) enter] show ?thesis by (rule streams_grow_trans)
qed

lemma put_descriptor_grow:
  assumes "put_descriptor E cfg d db = Ok db'"
  shows "streams_grow db db'"
  using assms
proof (cases rule: put_descriptor_cases)
  case 1
  then show ?thesis by (simp add: streams_grow_refl)
next
  case (2 encoded s)
  show ?thesis
    by (rule streams_grow_map [where u = "\<lambda>r. if s_stream_id r = d_stream_id (d_body d)
          then r\<lparr>s_descriptor := encoded\<rparr> else r"]) (use 2(2) in \<open>simp_all add: update_stream_ok\<close>)
next
  case 3
  then show ?thesis by (auto simp: streams_grow_def insert_stream_def split: if_splits)
qed

lemma store_object_grow:
  assumes "store_inv db" and "store_object E cfg obj received db = Ok (db', c)"
  shows "streams_grow db db'"
  using assms(2)
proof (cases rule: store_object_ok)
  case 1
  then show ?thesis by (simp add: streams_grow_refl)
next
  case (2 d encoded s kg db1 db2 n pid)
  from enforce_retention_streams [OF stored_object_inv [OF assms(1) 2(4,6,8,2,11)] 2(12)]
    stored_object_grow [OF assms(1) 2(4,8,11)] show ?thesis
    by (simp add: streams_grow_def)
qed

lemma store_envelope_streams:
  assumes "store_inv db" and "store_envelope E cfg e received db = Ok (db', stored)"
  shows "streams db' = streams db"
  using assms(2)
proof (cases rule: store_envelope_ok)
  case 1
  then show ?thesis by simp
next
  case (2 d encoded kg g db1 n pid)
  from append_envelope_ok [OF 2(8) envelope_encode_small [OF 2(5)]] obtain r where "db1 = append_envelope_row r db" .
  moreover from appended_envelope_inv [OF assms(1) 2(1,2,8) envelope_encode_small [OF 2(5)]] 2(9)
  have "streams db' = streams db1" by (rule enforce_retention_streams)
  ultimately show ?thesis by (simp add: append_envelope_row_def)
qed

lemma store_step_grow:
  assumes "store_step E cfg db db'" and "store_inv db"
  shows "streams_grow db db'"
  using assms
proof (cases rule: store_step.cases)
  case put
  then show ?thesis by (rule put_descriptor_grow)
next
  case store
  with assms(2) show ?thesis by (rule store_object_grow)
next
  case envelope
  with assms(2) show ?thesis by (simp add: streams_grow_refl store_envelope_streams)
next
  case finalize
  with finalize_stream_ok [OF assms(2) finalize] close_active_grow show ?thesis
    by (auto simp: streams_grow_refl)
next
  case retention
  with assms(2) show ?thesis
    by (auto simp: enforce_retention_at_def streams_grow_refl dest: retention_over_streams)
qed

lemma store_steps_grow: "(store_step E cfg)\<^sup>*\<^sup>* db db' \<Longrightarrow> store_inv db \<Longrightarrow> streams_grow db db' \<and> store_inv db'"
proof (induction rule: rtranclp_induct)
  case base
  then show ?case by (simp add: streams_grow_refl)
next
  case (step y z)
  then show ?case using store_step_grow store_step_inv streams_grow_trans by blast
qed

text \<open>Storing objects leaves the descriptors alone.\<close>

definition stream_descriptors :: "native_db \<Rightarrow> (uuid \<times> bytes) list" where
  "stream_descriptors db = map (\<lambda>s. (s_stream_id s, s_descriptor s)) (streams db)"

lemma find_stream_descriptor:
  "map_option s_descriptor (find_stream db sid) = map_of (stream_descriptors db) sid"
proof -
  have "map_option s_descriptor (find (\<lambda>r. s_stream_id r = sid) rows)
      = map_of (map (\<lambda>s. (s_stream_id s, s_descriptor s)) rows) sid" for rows
    by (induction rows) auto
  then show ?thesis by (simp add: find_stream_def stream_descriptors_def)
qed

lemma descriptors_kept_lookup:
  assumes "stream_descriptors db' = stream_descriptors db"
  shows "descriptor_in_transaction E db' sid = descriptor_in_transaction E db sid"
proof -
  have "map_option s_descriptor (find_stream db' sid) = map_option s_descriptor (find_stream db sid)"
    by (simp add: find_stream_descriptor assms)
  then show ?thesis
    by (cases "find_stream db' sid"; cases "find_stream db sid") (simp_all add: descriptor_in_transaction_def)
qed

lemma enter_group_descriptors:
  assumes "store_inv db" and "s \<in> set (streams db)" "s_stream_id s = h_stream_id (o_header obj)"
    and "enter_group s obj seq kg received db = Ok db1"
  shows "stream_descriptors db1 = stream_descriptors db"
proof (cases "group_changed s (h_epoch_id (o_header obj)) kg")
  case True
  have rows: "inv_rows db" using assms(1) by (simp add: store_inv_def store_inv_upto_def)
  from True assms(4) have "start_group s obj seq kg received db = Ok db1" by (simp add: enter_group_def Let_def)
  from start_group_ok [OF rows assms(2,3) this] obtain g where "db1 = open_row g (close_active s db)" by blast
  then show ?thesis by (simp add: stream_descriptors_def open_row_def close_active_def)
next
  case False
  with assms(4) show ?thesis by (auto simp: enter_group_def Let_def result_simps)
qed

lemma store_object_descriptors:
  assumes "store_inv db" and "store_object E cfg obj received db = Ok (db', c)"
  shows "stream_descriptors db' = stream_descriptors db"
  using assms(2)
proof (cases rule: store_object_ok)
  case 1
  then show ?thesis by simp
next
  case (2 d encoded s kg db1 db2 n pid)
  note s' = found_stream [OF assms(1) 2(4)]
  have "streams db' = streams db2"
    by (rule enforce_retention_streams [OF stored_object_inv [OF assms(1) 2(4,6,8,2,11)] 2(12)])
  moreover have "stream_descriptors db2 = stream_descriptors db1"
    by (simp add: stream_descriptors_def append_object_streams [OF 2(11)])
  ultimately show ?thesis
    using enter_group_descriptors [OF assms(1) s'(1,2) 2(8)] by (simp add: stream_descriptors_def)
qed

section \<open>What storing an object does\<close>

text \<open>After an insertion the stream's active group ends at the object just stored.\<close>

lemma stored_object_stream:
  assumes inv: "store_inv db" and s: "find_stream db (h_stream_id (o_header obj)) = Some s"
    and enter: "enter_group s obj (s_high_water s + 1) kg received db = Ok db1"
    and app: "append_object (h_stream_id (o_header obj), h_epoch_id (o_header obj), kg) (s_high_water s + 1)
       (h_timestamp (o_header obj)) received encoded db1 = Ok db2"
  shows "\<exists>s2\<in>set (streams db2). s_stream_id s2 = h_stream_id (o_header obj) \<and>
    s_high_water s2 = s_high_water s + 1 \<and> active s2 = Some (h_epoch_id (o_header obj), kg)"
proof -
  note s' = found_stream [OF inv s]
  from enter_group_inv [OF inv s'(1,2) enter] obtain pend s1 where
    1: "s1 \<in> set (streams db1)" "s_stream_id s1 = s_stream_id s" "active s1 = Some (h_epoch_id (o_header obj), kg)" .
  with s'(2) show ?thesis
    by (intro bexI [of _ "s1\<lparr>s_high_water := s_high_water s + 1\<rparr>"])
      (auto simp: append_object_streams [OF app])
qed

lemma evicted_objects:
  assumes "store_inv db" and "enforce_retention cfg sid now_ms db = Ok (db', n)"
  shows "set (objects db') \<subseteq> set (objects db)"
  by (rule enforce_retention_without [OF assms(2,1)]) (auto simp: without_groups_def)

text \<open>The row stored by an insertion is there, with the encoded object, and eviction spared it.\<close>

lemma inserted_object_present:
  assumes inv: "store_inv db" and "store_object E cfg obj received db = Ok (db', c)" and "inserted c"
  obtains d s' r encoded where
    "descriptor_in_transaction E db (h_stream_id (o_header obj)) = Ok (Some d)"
    "object_encode E (d_publisher (d_body d)) obj = Ok encoded"
    "s' \<in> set (streams db')" "s_stream_id s' = h_stream_id (o_header obj)"
    "s_high_water s' = uint (h_sequence (o_header obj))"
    "find_object db' (h_stream_id (o_header obj)) (uint (h_sequence (o_header obj))) = Some r"
    "ob_object r = encoded"
  using assms(2)
proof (cases rule: store_object_ok)
  case 1
  with assms(3) show ?thesis by simp
next
  case (2 d encoded s kg db1 db2 n pid)
  let ?sid = "h_stream_id (o_header obj)" and ?seq = "uint (h_sequence (o_header obj))"
  note inv2 = stored_object_inv [OF inv 2(4,6,8,2,11)]
  note inv' = enforce_retention_inv [OF 2(12) inv2]
  from stored_object_stream [OF inv 2(4,8,11)] obtain s2 where
    s2: "s2 \<in> set (streams db2)" "s_stream_id s2 = ?sid" "s_high_water s2 = ?seq"
      "active s2 = Some (h_epoch_id (o_header obj), kg)" using 2(5) by auto
  then have s2': "s2 \<in> set (streams db')" using enforce_retention_streams [OF inv2 2(12)] by simp
  have upto: "store_inv_upto None db'" "store_inv_upto None db2" using inv' inv2 by (simp_all add: store_inv_def)
  from activeE [OF upto(1) s2' s2(4)] obtain g where
    g: "g \<in> set (groups db')" "gr_key g = (s_stream_id s2, h_epoch_id (o_header obj), kg)"
      "gr_last_sequence g = s_high_water s2" by auto
  have "gr_first_sequence g \<le> ?seq" using group_checkD(2) [OF upto(1) g(1)] g(3) s2(3) by simp
  with coverE [OF upto(1) s2' g(1), of ?seq] g(2) s2 obtain r where
    r: "r \<in> set (objects db')" "ob_key r = (?sid, ?seq)" by (auto simp: gr_key_def)
  from append_object_ok [OF 2(11) object_encode_small [OF 2(2)]] obtain f where
    app: "db2 = append_row \<lparr>ob_stream_id = ?sid, ob_sequence = s_high_water s + 1, ob_epoch_id = h_epoch_id (o_header obj),
      ob_key_group = kg, ob_received_at_ms = sint received, ob_object = encoded\<rparr> f db1" by blast
  let ?r = "\<lparr>ob_stream_id = ?sid, ob_sequence = s_high_water s + 1, ob_epoch_id = h_epoch_id (o_header obj),
      ob_key_group = kg, ob_received_at_ms = sint received, ob_object = encoded\<rparr>"
  have "r \<in> set (objects db2)" using evicted_objects [OF inv2 2(12)] r(1) by blast
  moreover have "?r \<in> set (objects db2)" using app by (simp add: append_row_def)
  moreover have "ob_key r = ob_key ?r" using r(2) 2(5) by (simp add: ob_key_def)
  ultimately have "r = ?r"
    using store_invD(1) [OF upto(2)] unfolding inv_keys_def by (blast intro: key_unique)
  then have "ob_object r = encoded" by simp
  moreover have "find_object db' ?sid ?seq = Some r"
    using r store_invD(1) [OF upto(1)] by (simp add: find_object_iff)
  ultimately show ?thesis using that 2(2,3) s2' s2(2,3) by blast
qed

lemma high_water_found:
  assumes "store_inv db" and "s \<in> set (streams db)" and "s_stream_id s = sid"
  shows "high_water db sid = Ok (Some (word_of_int (s_high_water s)))"
proof -
  have k: "inv_keys db" "inv_rows db" using assms(1) by (simp_all add: store_inv_def store_inv_upto_def)
  then have "find_stream db sid = Some s" using assms(2,3) by (simp add: find_stream_iff)
  moreover have "0 \<le> s_high_water s" using k(2) assms(2) by (auto simp: inv_rows_def stream_check_def)
  ultimately show ?thesis by (simp add: high_water_def from_sql_u64_def)
qed

text \<open>C10: Sequence numbers are contiguous and never reused.  A committed store either inserts
  the object whose sequence is exactly one above the stream's high-water mark, which becomes the
  new mark, and the object is then found under that sequence; or it recognises a retry, the encoding
  of the object being byte for byte what is stored under its sequence, and leaves the database as it
  was.\<close>

theorem store_object_contiguous:
  assumes "store_inv db" and "store_object E cfg obj received db = Ok (db', c)"
  shows "committed_through c = h_sequence (o_header obj) \<and>
    (if inserted c
     then \<exists>v r d. high_water db (h_stream_id (o_header obj)) = Ok (Some v) \<and>
            uint (h_sequence (o_header obj)) = uint v + 1 \<and>
            high_water db' (h_stream_id (o_header obj)) = Ok (Some (h_sequence (o_header obj))) \<and>
            find_object db (h_stream_id (o_header obj)) (uint (h_sequence (o_header obj))) = None \<and>
            find_object db' (h_stream_id (o_header obj)) (uint (h_sequence (o_header obj))) = Some r \<and>
            descriptor_in_transaction E db (h_stream_id (o_header obj)) = Ok (Some d) \<and>
            object_encode E (d_publisher (d_body d)) obj = Ok (ob_object r)
     else db' = db \<and>
          (\<exists>r d. find_object db (h_stream_id (o_header obj)) (uint (h_sequence (o_header obj))) = Some r \<and>
             descriptor_in_transaction E db (h_stream_id (o_header obj)) = Ok (Some d) \<and>
             object_encode E (d_publisher (d_body d)) obj = Ok (ob_object r)))"
proof (cases "inserted c")
  case True
  note inv' = store_object_inv [OF assms]
  from inserted_object_present [OF assms True] obtain d s' r encoded where
    1: "descriptor_in_transaction E db (h_stream_id (o_header obj)) = Ok (Some d)"
    "object_encode E (d_publisher (d_body d)) obj = Ok encoded"
    "s' \<in> set (streams db')" "s_stream_id s' = h_stream_id (o_header obj)"
    "s_high_water s' = uint (h_sequence (o_header obj))"
    "find_object db' (h_stream_id (o_header obj)) (uint (h_sequence (o_header obj))) = Some r"
    "ob_object r = encoded" .
  from assms(2) True obtain s where
    2: "find_object db (h_stream_id (o_header obj)) (uint (h_sequence (o_header obj))) = None"
    "find_stream db (h_stream_id (o_header obj)) = Some s"
    "uint (h_sequence (o_header obj)) = s_high_water s + 1" "s_high_water s + 1 \<le> i64_MAX"
    "committed_through c = h_sequence (o_header obj)"
    by (cases rule: store_object_ok) auto
  note s = found_stream [OF assms(1) 2(2)]
  have "uint (word_of_int (s_high_water s) :: u64) = s_high_water s"
    using s(3) 2(4) by (simp add: unsigned_of_int take_bit_int_eq_self)
  moreover have "high_water db' (h_stream_id (o_header obj)) = Ok (Some (h_sequence (o_header obj)))"
    using high_water_found [OF inv' 1(3,4)] 1(5) by simp
  ultimately show ?thesis
    using True 1(1,2,6,7) 2 high_water_found [OF assms(1) s(1,2)] by auto
next
  case False
  with assms(2) show ?thesis by (cases rule: store_object_ok) auto
qed

text \<open>Retrying is idempotent: once an object was inserted, storing the same object again, at
  any later time of arrival, succeeds, reports no insertion and changes nothing.\<close>

theorem store_object_retry:
  assumes "store_inv db" and "store_object E cfg obj received db = Ok (db', c)" and "inserted c"
  shows "store_object E cfg obj received' db'
    = Ok (db', \<lparr>committed_through = h_sequence (o_header obj), evicted_groups = 0, inserted = False\<rparr>)"
proof -
  let ?sid = "h_stream_id (o_header obj)"
  from inserted_object_present [OF assms] obtain d s' r encoded where
    1: "descriptor_in_transaction E db ?sid = Ok (Some d)"
    "object_encode E (d_publisher (d_body d)) obj = Ok encoded"
    "s' \<in> set (streams db')" "s_stream_id s' = ?sid"
    "find_object db' ?sid (uint (h_sequence (o_header obj))) = Some r" "ob_object r = encoded" .
  from assms(2) have "validate_shape E obj = Ok ()" "to_sql_u64 (h_sequence (o_header obj)) = Ok (uint (h_sequence (o_header obj)))"
    by (auto simp: store_object_def Let_def result_simps to_sql_u64_ok)
  moreover have "verify_public E (d_publisher (d_body d)) obj = Ok ()"
    using 1(2) by (simp add: object_encode_ok)
  moreover have "descriptor_in_transaction E db' ?sid = Ok (Some d)"
    using descriptors_kept_lookup [OF store_object_descriptors [OF assms(1,2)], of E ?sid] 1(1) by simp
  ultimately show ?thesis
    using 1 by (simp add: store_object_def Let_def)
qed

section \<open>Subscriptions\<close>

text \<open>The groups a start position may select, and the order among them.\<close>

definition eligible :: "subscription_start \<Rightarrow> group_row \<Rightarrow> bool" where
  "eligible start g =
     (case start of
        Live \<Rightarrow> True
      | OldestRetained \<Rightarrow> gr_complete g
      | Sequence n \<Rightarrow> gr_first_sequence g \<le> uint n
      | Timestamp t \<Rightarrow> gr_first_timestamp g \<le> uint t)"

definition preferred :: "subscription_start \<Rightarrow> group_row \<Rightarrow> group_row \<Rightarrow> bool" where
  "preferred start g h =
     (case start of
        Live \<Rightarrow> gr_first_sequence h \<le> gr_first_sequence g
      | OldestRetained \<Rightarrow> gr_first_sequence g \<le> gr_first_sequence h
      | Sequence n \<Rightarrow> gr_first_sequence h \<le> gr_first_sequence g
      | Timestamp t \<Rightarrow> (gr_first_timestamp h, gr_first_sequence h) \<le> (gr_first_timestamp g, gr_first_sequence g))"

lemma anchor_selection:
  assumes "(case start of
       Live \<Rightarrow> Ok (last_by gr_first_sequence (groups_of db sid))
     | OldestRetained \<Rightarrow> Ok (first_by gr_first_sequence (complete_groups_of db sid))
     | Sequence seq \<Rightarrow> and_then (to_sql_u64 seq) (\<lambda>n.
         Ok (last_by gr_first_sequence (filter (\<lambda>g. gr_first_sequence g \<le> n) (groups_of db sid))))
     | Timestamp ts \<Rightarrow> and_then (to_sql_u64 ts) (\<lambda>n.
         Ok (last_by (\<lambda>g. (gr_first_timestamp g, gr_first_sequence g))
               (filter (\<lambda>g. gr_first_timestamp g \<le> n) (groups_of db sid))))) = (Ok selected :: store_error + group_row option)"
  shows "case selected of
     None \<Rightarrow> \<forall>g\<in>set (groups db). gr_stream_id g = sid \<longrightarrow> \<not> eligible start g
   | Some g \<Rightarrow> g \<in> set (groups db) \<and> gr_stream_id g = sid \<and> eligible start g \<and>
       (\<forall>h\<in>set (groups db). gr_stream_id h = sid \<longrightarrow> eligible start h \<longrightarrow> preferred start g h)"
proof (cases selected)
  case None
  with assms show ?thesis
    by (cases start) (auto simp: last_by_None first_by_None groups_of_def complete_groups_of_def eligible_def
        filter_empty_conv and_then_eq_Ok to_sql_u64_ok)
next
  case (Some g)
  with assms show ?thesis
    by (cases start) (auto simp: groups_of_def complete_groups_of_def eligible_def preferred_def and_then_eq_Ok
        to_sql_u64_ok simp del: less_eq_prod_simp dest!: last_by_greatest first_by_least)
qed

lemma first_sequence_range:
  assumes "store_inv db" and "g \<in> set (groups db)"
  shows "0 < gr_first_sequence g" "uint (word_of_int (gr_first_sequence g) :: u64) = gr_first_sequence g"
proof -
  have c: "group_check g" using assms group_checkD(1) by (auto simp: store_inv_def)
  then show "0 < gr_first_sequence g" by (simp add: group_check_def)
  moreover have "gr_first_sequence g \<le> i64_MAX"
    using c unfolding group_check_def sql_int_def by simp
  ultimately show "uint (word_of_int (gr_first_sequence g) :: u64) = gr_first_sequence g"
    by (simp add: unsigned_of_int take_bit_int_eq_self)
qed

lemma stored_up_to_high_water:
  assumes inv: "store_inv db" and s: "find_stream db sid = Some s"
    and g: "g \<in> set (groups db)" "gr_stream_id g = sid" "gr_first_sequence g \<le> n" "n \<le> s_high_water s"
  shows "find_object db sid n \<noteq> None"
proof -
  have inv': "store_inv_upto None db" using inv by (simp add: store_inv_def)
  note s' = found_stream [OF inv s]
  obtain r where "r \<in> set (objects db)" "ob_key r = (s_stream_id s, n)"
    using coverE [OF inv' s'(1) g(1) _ g(3,4)] g(2) s'(2) by auto
  with s'(2) show ?thesis by (auto simp: find_object_def find_None)
qed

text \<open>C14: A subscription starts where a viewer can decode: the anchor is the first sequence of a
  retained group, namely the newest one for a live start, the oldest complete one for an
  oldest-retained start, and the last one not after the requested sequence or timestamp
  otherwise; when no retained group qualifies it is the next live sequence.  Every object from the
  anchor to the high-water mark is stored.\<close>

theorem subscription_anchor_decodable:
  assumes "store_inv db" and "subscription_anchor db sid start = Ok a"
  shows "\<exists>s. find_stream db sid = Some s \<and>
    (if \<exists>g\<in>set (groups db). gr_stream_id g = sid \<and> eligible start g
     then \<exists>g\<in>set (groups db). gr_stream_id g = sid \<and> eligible start g \<and> uint a = gr_first_sequence g \<and>
            (\<forall>h\<in>set (groups db). gr_stream_id h = sid \<longrightarrow> eligible start h \<longrightarrow> preferred start g h)
     else uint a = s_high_water s + 1) \<and>
    (\<forall>n. uint a \<le> n \<longrightarrow> n \<le> s_high_water s \<longrightarrow> find_object db sid n \<noteq> None)"
proof -
  from assms(2) obtain s v next_live selected where
    s: "find_stream db sid = Some s" "from_sql_u64 (s_high_water s) = Ok v"
      "checked_add_u64 v 1 = Some next_live"
    and sel: "(case start of
       Live \<Rightarrow> Ok (last_by gr_first_sequence (groups_of db sid))
     | OldestRetained \<Rightarrow> Ok (first_by gr_first_sequence (complete_groups_of db sid))
     | Sequence seq \<Rightarrow> and_then (to_sql_u64 seq) (\<lambda>n.
         Ok (last_by gr_first_sequence (filter (\<lambda>g. gr_first_sequence g \<le> n) (groups_of db sid))))
     | Timestamp ts \<Rightarrow> and_then (to_sql_u64 ts) (\<lambda>n.
         Ok (last_by (\<lambda>g. (gr_first_timestamp g, gr_first_sequence g))
               (filter (\<lambda>g. gr_first_timestamp g \<le> n) (groups_of db sid))))) = (Ok selected :: store_error + group_row option)"
    and a: "(case selected of Some g \<Rightarrow> from_sql_u64 (gr_first_sequence g) | None \<Rightarrow> Ok next_live) = Ok a"
    unfolding subscription_anchor_def result_simps by blast
  note choice = anchor_selection [OF sel]
  show ?thesis
  proof (cases selected)
    case None
    have "0 \<le> s_high_water s" "s_high_water s \<le> i64_MAX"
      using found_stream [OF assms(1) s(1)] store_invD(2) [of None db] assms(1)
      by (auto simp: store_inv_def inv_rows_def stream_check_def sql_int_def)
    then have "uint v = s_high_water s"
      using s(2) by (auto simp: from_sql_u64_ok unsigned_of_int take_bit_int_eq_self)
    then have "uint next_live = s_high_water s + 1"
      using arg_cong [OF unat_checked_add_u64 [OF s(3)], of int] by simp
    then show ?thesis using None choice a s(1) by auto
  next
    case (Some g)
    with a have "a = word_of_int (gr_first_sequence g)" by (simp add: from_sql_u64_ok)
    then have "uint a = gr_first_sequence g"
      using first_sequence_range(2) [OF assms(1), of g] Some choice by simp
    then show ?thesis
      using Some choice s(1) stored_up_to_high_water [OF assms(1) s(1), of g] by (auto intro!: bexI [of _ g])
  qed
qed

section \<open>Reading back\<close>

text \<open>Every object row holds the canonical form of an object with the row's coordinates.\<close>

definition row_holds :: "'z native_env_scheme \<Rightarrow> object_row \<Rightarrow> bool" where
  "row_holds E r \<longleftrightarrow>
     (\<exists>obj. to_stdvec (object_codec E) obj = Some (ob_object r) \<and>
        h_stream_id (o_header obj) = ob_stream_id r \<and> uint (h_sequence (o_header obj)) = ob_sequence r \<and>
        h_epoch_id (o_header obj) = ob_epoch_id r \<and> uint (h_key_group (o_header obj)) = ob_key_group r)"

definition rows_hold :: "'z native_env_scheme \<Rightarrow> native_db \<Rightarrow> bool" where
  "rows_hold E db \<longleftrightarrow> (\<forall>r\<in>set (objects db). row_holds E r)"

definition store_ok :: "'z native_env_scheme \<Rightarrow> native_db \<Rightarrow> bool" where
  "store_ok E db \<longleftrightarrow> store_inv db \<and> rows_hold E db"

lemma rows_hold_subset: "rows_hold E db \<Longrightarrow> set (objects db') \<subseteq> set (objects db) \<Longrightarrow> rows_hold E db'"
  by (auto simp: rows_hold_def)

lemma stored_rows_hold:
  assumes inv: "store_inv db" and rows: "rows_hold E db"
    and "store_object E cfg obj received db = Ok (db', c)"
  shows "rows_hold E db'"
  using assms(3)
proof (cases rule: store_object_ok)
  case 1
  with rows show ?thesis by simp
next
  case (2 d encoded s kg db1 db2 n pid)
  let ?r = "\<lparr>ob_stream_id = h_stream_id (o_header obj), ob_sequence = s_high_water s + 1,
      ob_epoch_id = h_epoch_id (o_header obj), ob_key_group = kg, ob_received_at_ms = sint received,
      ob_object = encoded\<rparr>"
  note s' = found_stream [OF inv 2(4)]
  from enter_group_inv [OF inv s'(1,2) 2(8)] have 1: "objects db1 = objects db" by blast
  from append_object_ok [OF 2(11) object_encode_small [OF 2(2)]] obtain f where "db2 = append_row ?r f db1" by blast
  then have "objects db2 = objects db @ [?r]" using 1 by (simp add: append_row_def)
  moreover have "row_holds E ?r"
    using 2(2,5,7) by (auto simp: row_holds_def object_encode_ok to_sql_u64_ok intro!: exI [of _ obj])
  ultimately have "rows_hold E db2" using rows by (simp add: rows_hold_def)
  then show ?thesis
    by (rule rows_hold_subset) (rule evicted_objects [OF stored_object_inv [OF inv 2(4,6,8,2,11)] 2(12)])
qed

lemma retention_over_objects:
  "retention_over cfg now_ms sids db removed = Ok (db', n) \<Longrightarrow> store_inv db \<Longrightarrow>
    set (objects db') \<subseteq> set (objects db)"
proof (induction sids arbitrary: db removed)
  case (Cons sid sids)
  then obtain db1 m where 1: "enforce_retention cfg sid now_ms db = Ok (db1, m)"
    "retention_over cfg now_ms sids db1 (saturating_add_usize removed m) = Ok (db', n)"
    by (auto simp: and_then_eq_Ok)
  with Cons.IH [OF 1(2) enforce_retention_inv [OF 1(1) Cons.prems(2)]]
    evicted_objects [OF Cons.prems(2) 1(1)] show ?case by blast
qed simp

lemma store_envelope_objects:
  assumes "store_inv db" and "store_envelope E cfg e received db = Ok (db', stored)"
  shows "set (objects db') \<subseteq> set (objects db)"
  using assms(2)
proof (cases rule: store_envelope_ok)
  case 1
  then show ?thesis by simp
next
  case (2 d encoded kg g db1 n pid)
  from append_envelope_ok [OF 2(8) envelope_encode_small [OF 2(5)]] obtain r where "db1 = append_envelope_row r db" .
  then have "objects db1 = objects db" by (simp add: append_envelope_row_def)
  with evicted_objects [OF appended_envelope_inv [OF assms(1) 2(1,2,8) envelope_encode_small [OF 2(5)]] 2(9)]
  show ?thesis by simp
qed

lemma put_descriptor_objects: "put_descriptor E cfg d db = Ok db' \<Longrightarrow> objects db' = objects db"
  by (erule put_descriptor_cases) (auto simp: update_stream_ok insert_stream_def split: if_splits)

lemma store_step_ok:
  assumes "store_step E cfg db db'" and "store_ok E db"
  shows "store_ok E db'"
proof -
  have inv: "store_inv db" and rows: "rows_hold E db" using assms(2) by (simp_all add: store_ok_def)
  from assms(1) have "rows_hold E db'"
  proof (cases rule: store_step.cases)
    case (put d)
    with rows show ?thesis by (simp add: rows_hold_def put_descriptor_objects)
  next
    case store
    then show ?thesis by (rule stored_rows_hold [OF inv rows])
  next
    case envelope
    with store_envelope_objects [OF inv] rows show ?thesis by (blast intro: rows_hold_subset)
  next
    case finalize
    with finalize_stream_ok [OF inv] rows show ?thesis by (fastforce simp: rows_hold_def close_active_def)
  next
    case retention
    with retention_over_objects [OF _ inv] rows show ?thesis
      unfolding enforce_retention_at_def by (blast intro: rows_hold_subset)
  qed
  with store_step_inv [OF assms(1) inv] show ?thesis by (simp add: store_ok_def)
qed

interpretation store_contents: invariant_machine "store_step E cfg" "store_ok E" for E cfg
  by unfold_locales (rule store_step_ok)

text \<open>The stored sequences of a stream are an interval.\<close>

lemma stored_convex:
  assumes inv: "store_inv db" and r: "r \<in> set (objects db)" "r' \<in> set (objects db)"
    and same: "ob_stream_id r = sid" "ob_stream_id r' = sid" and n: "ob_sequence r \<le> n" "n \<le> ob_sequence r'"
  shows "\<exists>x\<in>set (objects db). ob_stream_id x = sid \<and> ob_sequence x = n"
proof -
  have inv': "store_inv_upto None db" using inv by (simp add: store_inv_def)
  obtain g where g: "g \<in> set (groups db)" "gr_key g = ob_group r" "gr_first_sequence g \<le> ob_sequence r"
    using objectE [OF inv' r(1)] by blast
  obtain g' where g': "g' \<in> set (groups db)" "gr_key g' = ob_group r'" "ob_sequence r' \<le> gr_last_sequence g'"
    using objectE [OF inv' r(2)] by blast
  have ids: "gr_stream_id g = sid" "gr_stream_id g' = sid"
    using g(2) g'(2) same by (simp_all add: gr_key_def ob_group_def)
  obtain s where s: "s \<in> set (streams db)" "group_in_stream None s g'" using ownerE [OF inv' g'(1)] .
  then have "gr_stream_id g = s_stream_id s" "n \<le> s_high_water s"
    using ids n(2) g'(3) by (auto simp: group_in_stream_def)
  then obtain x where "x \<in> set (objects db)" "ob_key x = (s_stream_id s, n)"
    using coverE [OF inv' s(1) g(1), of n] g(3) n(1) by auto
  with \<open>gr_stream_id g = s_stream_id s\<close> ids show ?thesis by (auto simp: ob_key_def)
qed

lemma sorted_convex_step:
  assumes strict: "sorted_wrt (<) xs" and convex: "\<And>n. xs ! i \<le> n \<Longrightarrow> n \<le> xs ! Suc i \<Longrightarrow> n \<in> set xs"
    and i: "Suc i < length xs"
  shows "xs ! Suc i = (xs ! i :: int) + 1"
proof -
  have less: "xs ! i < xs ! Suc i" using strict i by (simp add: sorted_wrt_iff_nth_less)
  then have "xs ! i + 1 \<in> set xs" by (intro convex) auto
  then obtain j where j: "j < length xs" "xs ! j = xs ! i + 1" by (auto simp: in_set_conv_nth)
  have "i < j" using strict i j by (metis antisym_conv3 less_add_one less_asym sorted_wrt_iff_nth_less Suc_lessD)
  moreover have "\<not> Suc i < j"
  proof
    assume "Suc i < j"
    then have "xs ! Suc i < xs ! j" using strict j(1) by (simp add: sorted_wrt_iff_nth_less)
    with less j(2) show False by simp
  qed
  ultimately have "j = Suc i" by simp
  with j(2) show ?thesis by simp
qed

text \<open>The rows that a listing reads, in order.\<close>

definition listed_rows :: "native_db \<Rightarrow> uuid \<Rightarrow> int \<Rightarrow> nat \<Rightarrow> object_row list" where
  "listed_rows db sid after limit = take limit (sort_key ob_sequence
     (filter (\<lambda>r. ob_stream_id r = sid \<and> ob_sequence r > after) (objects db)))"

lemma listed_rows_consecutive:
  assumes inv: "store_inv db" and i: "Suc i < length (listed_rows db sid after limit)"
  shows "ob_sequence (listed_rows db sid after limit ! Suc i) = ob_sequence (listed_rows db sid after limit ! i) + 1"
proof -
  let ?rows = "filter (\<lambda>r. ob_stream_id r = sid \<and> ob_sequence r > after) (objects db)"
  let ?seqs = "map ob_sequence (sort_key ob_sequence ?rows)"
  have "inj_on ob_sequence (set ?rows)"
    using inv by (auto simp: store_inv_def store_inv_upto_def inv_keys_def distinct_map inj_on_def ob_key_def)
  moreover have "distinct ?rows"
    using inv by (auto simp: store_inv_def store_inv_upto_def inv_keys_def distinct_map)
  ultimately have "distinct ?seqs" by (simp add: distinct_map)
  then have strict: "sorted_wrt (<) ?seqs" by (simp add: strict_sorted_iff)
  have len: "Suc i < limit" "Suc i < length ?seqs" using i by (simp_all add: listed_rows_def)
  have "?seqs ! Suc i = ?seqs ! i + 1"
  proof (rule sorted_convex_step [OF strict _ len(2)])
    fix n assume n: "?seqs ! i \<le> n" "n \<le> ?seqs ! Suc i"
    let ?a = "sort_key ob_sequence ?rows ! i" and ?b = "sort_key ob_sequence ?rows ! Suc i"
    have "?a \<in> set (sort_key ob_sequence ?rows)" "?b \<in> set (sort_key ob_sequence ?rows)"
      using len(2) by (simp_all add: nth_mem del: set_sort)
    then have ab: "?a \<in> set (objects db)" "?b \<in> set (objects db)" "ob_stream_id ?a = sid"
      "ob_stream_id ?b = sid" "after < ob_sequence ?a" by simp_all
    have ends: "ob_sequence ?a \<le> n" "n \<le> ob_sequence ?b" using n len(2) by simp_all
    from stored_convex [OF inv ab(1-4) ends] obtain x where
      x: "x \<in> set (objects db)" "ob_stream_id x = sid" "ob_sequence x = n" by blast
    then have "x \<in> set ?rows" using ab(5) ends(1) by simp
    with x(3) show "n \<in> set ?seqs" by auto
  qed
  with len show ?thesis by (simp add: listed_rows_def)
qed

text \<open>Replay has no gaps: the objects a listing returns belong to the requested stream, lie
  above the requested sequence, and carry consecutive sequence numbers.\<close>

theorem list_objects_consecutive:
  assumes "postcard_ok (object_codec E)" and "store_ok E db"
    and "list_objects E db sid after limit = Ok objs"
  shows "length objs \<le> limit \<and>
    (\<forall>i<length objs. h_stream_id (o_header (objs ! i)) = sid \<and> uint after < uint (h_sequence (o_header (objs ! i)))) \<and>
    (\<forall>i. Suc i < length objs \<longrightarrow>
       uint (h_sequence (o_header (objs ! Suc i))) = uint (h_sequence (o_header (objs ! i))) + 1)"
proof -
  have inv: "store_inv db" and rows: "rows_hold E db" using assms(2) by (simp_all add: store_ok_def)
  let ?rs = "listed_rows db sid (uint after) limit"
  from assms(3) obtain d :: stream_descriptor where
    all: "list_all2 (\<lambda>r obj. object_decode E (d_publisher (d_body d)) (ob_object r) = Ok obj) ?rs objs"
    by (auto simp: list_objects_def result_simps to_sql_u64_ok listed_rows_def)
  have members: "set ?rs \<subseteq> {r \<in> set (objects db). ob_stream_id r = sid \<and> uint after < ob_sequence r}"
    unfolding listed_rows_def by (rule order_trans [OF set_take_subset]) auto
  have same: "h_stream_id (o_header (objs ! i)) = ob_stream_id (?rs ! i) \<and>
      uint (h_sequence (o_header (objs ! i))) = ob_sequence (?rs ! i)" if i: "i < length objs" for i
  proof -
    have "i < length ?rs" using list_all2_lengthD [OF all] i by simp
    then have mem: "?rs ! i \<in> set (objects db)" using members nth_mem by blast
    from list_all2_nthD2 [OF all i] have
      "take_from_bytes (object_codec E) (ob_object (?rs ! i)) = Some (objs ! i, [])"
      by (simp add: object_decode_ok)
    moreover obtain obj where obj: "to_stdvec (object_codec E) obj = Some (ob_object (?rs ! i))"
      "h_stream_id (o_header obj) = ob_stream_id (?rs ! i)" "uint (h_sequence (o_header obj)) = ob_sequence (?rs ! i)"
      using rows mem unfolding rows_hold_def row_holds_def by blast
    ultimately have "obj = objs ! i" using postcard_okD_exact [OF assms(1) obj(1)] by simp
    with obj show ?thesis by simp
  qed
  have len: "length objs = length ?rs" using list_all2_lengthD [OF all] by simp
  show ?thesis
  proof (intro conjI allI impI)
    show "length objs \<le> limit" using len by (simp add: listed_rows_def)
  next
    fix i assume i: "i < length objs"
    then have "?rs ! i \<in> set ?rs" using len by simp
    with members same [OF i] show "h_stream_id (o_header (objs ! i)) = sid"
      "uint after < uint (h_sequence (o_header (objs ! i)))" by auto
  next
    fix i assume i: "Suc i < length objs"
    with listed_rows_consecutive [OF inv, of i sid "uint after" limit] same [of i] same [of "Suc i"] len
    show "uint (h_sequence (o_header (objs ! Suc i))) = uint (h_sequence (o_header (objs ! i))) + 1" by simp
  qed
qed

section \<open>Reachable states\<close>

text \<open>C9: In every state the store's transactions can reach from an empty database, the store's
  invariant holds: unique keys and resolving references, disjoint group intervals, an object for
  every sequence from the start of a retained group to the high-water mark, one incomplete group
  per stream at most and it is the active one, envelopes under their group's key identifier,
  exact byte counts, and rows that hold the canonical form of the object they index.\<close>

theorem store_reachable_ok:
  assumes "(store_step E cfg)\<^sup>*\<^sup>* empty_db db"
  shows "store_ok E db"
proof -
  have "store_ok E empty_db"
    by (simp add: store_ok_def store_inv_empty rows_hold_def) (simp add: empty_db_def)
  then show ?thesis using store_contents.reachable_inv [OF assms] by blast
qed

end
