(* ===== verification/StoreQuotas.thy ===== *)
theory StoreQuotas
  imports StoreProperties
begin

text \<open>
  The hard limits of the native store (\<^verbatim>\<open>NativeStoreLimits\<close>, \<^verbatim>\<open>check_group_growth\<close> and the
  stream counts of \<^verbatim>\<open>put_descriptor\<close>): no sequence of transactions takes the store above them.
\<close>

section \<open>Owners\<close>

definition owners :: "native_db \<Rightarrow> (uuid \<times> array32) list" where
  "owners db = map (\<lambda>s. (s_stream_id s, s_publisher_id s)) (streams db)"

lemma find_stream_owner: "map_option s_publisher_id (find_stream db sid) = map_of (owners db) sid"
proof -
  have "map_option s_publisher_id (find (\<lambda>r. s_stream_id r = sid) rows)
      = map_of (map (\<lambda>s. (s_stream_id s, s_publisher_id s)) rows) sid" for rows
    by (induction rows) auto
  then show ?thesis by (simp add: find_stream_def owners_def)
qed

lemma publisher_owns_iff: "publisher_owns db pid g \<longleftrightarrow> map_of (owners db) (gr_stream_id g) = Some pid"
  unfolding publisher_owns_def find_stream_owner [symmetric] by (cases "find_stream db (gr_stream_id g)") auto

section \<open>Quotas\<close>

definition total_bytes :: "native_db \<Rightarrow> int" where
  "total_bytes db = sum_list (map gr_retained_bytes (groups db))"

definition publisher_bytes :: "native_db \<Rightarrow> array32 \<Rightarrow> int" where
  "publisher_bytes db pid = sum_list (map gr_retained_bytes (filter (publisher_owns db pid) (groups db)))"

definition group_within :: "native_store_limits \<Rightarrow> native_db \<Rightarrow> group_row \<Rightarrow> bool" where
  "group_within l db g \<longleftrightarrow>
     gr_retained_bytes g \<le> uint (max_group_bytes l) \<and>
     length (filter (\<lambda>r. ob_group r = gr_key g) (objects db)) \<le> unat (max_objects_per_group l) \<and>
     length (filter (\<lambda>r. en_group r = gr_key g) (envelopes db)) \<le> unat (max_envelopes_per_group l)"

definition within_quotas :: "native_store_limits \<Rightarrow> native_db \<Rightarrow> bool" where
  "within_quotas l db \<longleftrightarrow>
     length (streams db) \<le> unat (max_streams l) \<and>
     (\<forall>pid. length (filter (\<lambda>s. s_publisher_id s = pid) (streams db)) \<le> unat (max_streams_per_publisher l)) \<and>
     (\<forall>g\<in>set (groups db). group_within l db g) \<and>
     total_bytes db \<le> uint (max_total_bytes l) \<and>
     (\<forall>pid. publisher_bytes db pid \<le> uint (max_publisher_bytes l))"

text \<open>The descriptor a stream row holds is a verified one and names the row's stream and publisher.\<close>

definition descriptors_ok :: "'z native_env_scheme \<Rightarrow> native_db \<Rightarrow> bool" where
  "descriptors_ok E db \<longleftrightarrow>
     (\<forall>s\<in>set (streams db). \<exists>d. descriptor_encode E d = Ok (s_descriptor s) \<and>
        d_stream_id (d_body d) = s_stream_id s \<and>
        identity_id E (d_publisher (d_body d)) = Ok (s_publisher_id s))"

definition quota_inv :: "'z native_env_scheme \<Rightarrow> native_store_limits \<Rightarrow> native_db \<Rightarrow> bool" where
  "quota_inv E l db \<longleftrightarrow> store_inv db \<and> descriptors_ok E db \<and> within_quotas l db"

lemma descriptors_ok_map:
  assumes "descriptors_ok E db" and "streams db' = map u (streams db)"
    and "\<And>s. s_stream_id (u s) = s_stream_id s \<and> s_publisher_id (u s) = s_publisher_id s \<and>
      s_descriptor (u s) = s_descriptor s"
  shows "descriptors_ok E db'"
  using assms by (simp add: descriptors_ok_def)

lemma same_streams_quota:
  assumes "streams db' = map u (streams db)"
    and "\<And>s. s_stream_id (u s) = s_stream_id s \<and> s_publisher_id (u s) = s_publisher_id s"
  shows "owners db' = owners db" "length (streams db') = length (streams db)"
    "length (filter (\<lambda>s. s_publisher_id s = pid) (streams db')) = length (filter (\<lambda>s. s_publisher_id s = pid) (streams db))"
  using assms by (simp_all add: owners_def filter_map comp_def)

text \<open>Deleting rows of non-negative size only lowers the sums.\<close>

lemma sum_filter_le:
  "(\<And>x. x \<in> set xs \<Longrightarrow> 0 \<le> f x) \<Longrightarrow> sum_list (map f (filter P xs)) \<le> (sum_list (map f xs) :: int)"
  by (induction xs) (auto intro: add_increasing add_mono)

lemma filter_twice_le: "length (filter P (filter Q xs)) \<le> length (filter P xs)"
  by (induction xs) auto

lemma nonneg_bytes: "store_inv_upto pend db \<Longrightarrow> g \<in> set (groups db) \<Longrightarrow> 0 \<le> gr_retained_bytes g"
  using group_checkD(1) by (auto simp: group_check_def)

lemma without_groups_quota:
  assumes "store_inv db" and "within_quotas l db"
  shows "within_quotas l (without_groups K db)"
proof -
  let ?db = "without_groups K db"
  have nn: "\<And>g. g \<in> set (groups db) \<Longrightarrow> 0 \<le> gr_retained_bytes g"
    using assms(1) nonneg_bytes by (auto simp: store_inv_def)
  have own: "publisher_owns ?db pid = publisher_owns db pid" for pid
    by (auto simp: fun_eq_iff publisher_owns_def find_stream_def)
  have "total_bytes ?db \<le> total_bytes db"
    unfolding total_bytes_def without_groups_def by simp (rule sum_filter_le [OF nn])
  moreover have "publisher_bytes ?db pid \<le> publisher_bytes db pid" for pid
  proof -
    have "publisher_bytes ?db pid
        = sum_list (map gr_retained_bytes (filter (\<lambda>g. gr_key g \<notin> K) (filter (publisher_owns db pid) (groups db))))"
      unfolding publisher_bytes_def own by (simp add: without_groups_def conj_commute)
    also have "\<dots> \<le> publisher_bytes db pid"
      unfolding publisher_bytes_def by (rule sum_filter_le) (use nn in auto)
    finally show ?thesis .
  qed
  moreover have "group_within l ?db g" if "g \<in> set (groups ?db)" for g
  proof -
    have "group_within l db g" using that assms(2) by (auto simp: within_quotas_def without_groups_def)
    moreover have "length (filter (\<lambda>r. ob_group r = gr_key g) (objects ?db)) \<le> length (filter (\<lambda>r. ob_group r = gr_key g) (objects db))"
      "length (filter (\<lambda>r. en_group r = gr_key g) (envelopes ?db)) \<le> length (filter (\<lambda>r. en_group r = gr_key g) (envelopes db))"
      unfolding without_groups_def by (simp_all add: filter_twice_le del: filter_filter)
    ultimately show ?thesis by (auto simp: group_within_def)
  qed
  ultimately show ?thesis
    using assms(2) unfolding within_quotas_def without_groups_streams by (meson order_trans)
qed

section \<open>The growth check\<close>

lemma sat_add_le:
  assumes "0 \<le> a" "a \<le> i64_MAX" "uint b \<le> i64_MAX" and "\<not> saturating_add_u64 (word_of_int a) b > m"
  shows "a + uint b \<le> uint m"
proof -
  have a: "unat (word_of_int a :: u64) = nat a"
    using assms(1,2) by (simp add: unsigned_of_int take_bit_int_eq_self nat_less_iff)
  have "int (nat a) + int (unat b) < 18446744073709551616" using assms(1-3) by simp
  then have "nat a + unat b < 18446744073709551616" by linarith
  then have "nat a + unat b < 2 ^ 64" by simp
  then have "unat (saturating_add_u64 (word_of_int a) b) = nat a + unat b"
    by (simp add: unat_saturating_add_u64 a)
  moreover have "unat (saturating_add_u64 (word_of_int a) b) \<le> unat m"
    using assms(4) by (simp add: not_less word_le_nat_alt)
  ultimately have "nat a + unat b \<le> unat m" by (simp only:)
  then have "int (nat a + unat b) \<le> int (unat m)" by (rule zle_int [THEN iffD2])
  with assms(1) show ?thesis by (simp add: of_nat_add del: of_nat_le_iff)
qed

lemma check_group_growth_ok:
  assumes "check_group_growth cfg db pid k added kind = Ok ()" and "uint added \<le> i64_MAX"
    and "\<And>g. g \<in> set (groups db) \<Longrightarrow> group_check g"
  obtains g where "find_group db k = Some g"
    "gr_retained_bytes g + uint added \<le> uint (max_group_bytes (limits cfg))"
    "total_bytes db + uint added \<le> uint (max_total_bytes (limits cfg))"
    "publisher_bytes db pid + uint added \<le> uint (max_publisher_bytes (limits cfg))"
    "kind = ObjectItem \<Longrightarrow> length (filter (\<lambda>r. ob_group r = k) (objects db)) < unat (max_objects_per_group (limits cfg))"
    "kind = EnvelopeItem \<Longrightarrow> length (filter (\<lambda>r. en_group r = k) (envelopes db)) < unat (max_envelopes_per_group (limits cfg))"
proof -
  let ?count = "case kind of
             ObjectItem \<Rightarrow> length (filter (\<lambda>r. ob_group r = k) (objects db))
           | EnvelopeItem \<Rightarrow> length (filter (\<lambda>r. en_group r = k) (envelopes db))"
  let ?limit = "case kind of
             ObjectItem \<Rightarrow> max_objects_per_group (limits cfg)
           | EnvelopeItem \<Rightarrow> max_envelopes_per_group (limits cfg)"
  from assms(1) obtain g where g: "find_group db k = Some g" and count: "\<not> unat ?limit \<le> ?count"
    and sums: "0 \<le> gr_retained_bytes g" "sql_int (total_bytes db)" "sql_int (publisher_bytes db pid)"
      "0 \<le> total_bytes db" "0 \<le> publisher_bytes db pid"
    and sat: "\<not> saturating_add_u64 (word_of_int (gr_retained_bytes g)) added > max_group_bytes (limits cfg)"
      "\<not> saturating_add_u64 (word_of_int (total_bytes db)) added > max_total_bytes (limits cfg)"
      "\<not> saturating_add_u64 (word_of_int (publisher_bytes db pid)) added > max_publisher_bytes (limits cfg)"
    unfolding check_group_growth_def Let_def result_simps total_bytes_def publisher_bytes_def
    by (auto simp: sql_sum_def from_sql_u64_ok split: if_splits)
  have "gr_retained_bytes g \<le> i64_MAX"
    using assms(3) [of g] g by (auto simp: find_group_def group_check_def sql_int_def dest: find_Some_set)
  moreover have "total_bytes db \<le> i64_MAX" "publisher_bytes db pid \<le> i64_MAX"
    using sums(2,3) by (simp_all add: sql_int_def)
  ultimately show ?thesis
    using sums(1,4,5) sat assms(2) g count
    by (intro that [of g]) (auto intro!: sat_add_le split: group_item_kind.splits)
qed

text \<open>Adding to the one row with a key moves a sum over the table by what was added.\<close>

lemma sum_update_key:
  assumes "distinct (map key xs)" and "g \<in> set xs" and "key g = k"
    and "\<And>x. P (f x) = P x" and "\<And>x. w (f x) = w x + (n :: int)"
  shows "sum_list (map w (filter P (map (\<lambda>x. if key x = k then f x else x) xs)))
    = sum_list (map w (filter P xs)) + (if P g then n else 0)"
  using assms(1,2)
proof (induction xs)
  case (Cons x xs)
  show ?case
  proof (cases "key x = k")
    case True
    with Cons.prems assms(3) have "x = g" by (auto simp: image_iff)
    moreover have "key y \<noteq> k" if "y \<in> set xs" for y
      using Cons.prems(1) True that by (metis distinct.simps(2) image_eqI list.set_map list.simps(9))
    then have "map (\<lambda>x. if key x = k then f x else x) xs = xs" by (intro map_idI) simp
    ultimately show ?thesis using True assms(4,5) by simp
  next
    case False
    with Cons assms(3) show ?thesis by auto
  qed
qed simp

lemma sum_update_key_all:
  assumes "distinct (map key xs)" and "g \<in> set xs" and "key g = k" and "\<And>x. w (f x) = w x + (n :: int)"
  shows "sum_list (map w (map (\<lambda>x. if key x = k then f x else x) xs)) = sum_list (map w xs) + n"
  using sum_update_key [OF assms(1-3), of "\<lambda>_. True" f w n] assms(4) by simp

section \<open>Transactions stay within the quotas\<close>

lemma within_quotas_cong:
  assumes q: "within_quotas l db"
    and st: "streams db' = map u (streams db)"
      "\<And>s. s_stream_id (u s) = s_stream_id s \<and> s_publisher_id (u s) = s_publisher_id s"
    and gr: "groups db' = map c (groups db)"
      "\<And>g. gr_key (c g) = gr_key g \<and> gr_retained_bytes (c g) = gr_retained_bytes g"
    and rows: "objects db' = objects db" "envelopes db' = envelopes db"
  shows "within_quotas l db'"
proof -
  note same = same_streams_quota [OF st]
  have "gr_stream_id (c g) = gr_stream_id g" for g using gr(2) [of g] by (simp add: gr_key_def)
  then have own: "publisher_owns db' pid (c g) = publisher_owns db pid g" for pid g
    by (simp add: publisher_owns_iff same(1))
  have "total_bytes db' = total_bytes db" by (simp add: total_bytes_def gr comp_def)
  moreover have "publisher_bytes db' pid = publisher_bytes db pid" for pid
    by (simp add: publisher_bytes_def gr filter_map comp_def own)
  moreover have "group_within l db' (c g) = group_within l db g" for g
    by (simp add: group_within_def gr rows)
  ultimately show ?thesis using q unfolding within_quotas_def same(2,3) gr(1) by simp
qed

lemma close_active_quota:
  assumes "within_quotas l db"
  shows "within_quotas l (close_active s db)"
  by (rule within_quotas_cong [OF assms, where
        u = "\<lambda>r. if s_stream_id r = s_stream_id s then r\<lparr>s_active_epoch := None, s_active_group := None\<rparr> else r" and
        c = "\<lambda>g. if gr_stream_id g = s_stream_id s \<and> active s = Some (gr_epoch_id g, gr_key_group g)
               then g\<lparr>gr_complete := True\<rparr> else g"])
    (simp_all add: close_active_def gr_key_def)

lemma open_row_quota:
  assumes inv: "store_inv db" and q: "within_quotas l db" and g: "gr_retained_bytes g = 0"
    and new: "\<And>g'. g' \<in> set (groups db) \<Longrightarrow> gr_key g' \<noteq> gr_key g"
  shows "within_quotas l (open_row g db)"
proof -
  let ?u = "\<lambda>r. if s_stream_id r = gr_stream_id g
    then r\<lparr>s_active_epoch := Some (gr_epoch_id g), s_active_group := Some (gr_key_group g)\<rparr> else r"
  have inv': "store_inv_upto None db" using inv by (simp add: store_inv_def)
  have st: "streams (open_row g db) = map ?u (streams db)" by (simp add: open_row_def)
  have "s_stream_id (?u s) = s_stream_id s \<and> s_publisher_id (?u s) = s_publisher_id s" for s by simp
  note same = same_streams_quota [OF st this]
  have own: "publisher_owns (open_row g db) pid = publisher_owns db pid" for pid
    by (simp add: fun_eq_iff publisher_owns_iff same(1))
  have rows: "groups (open_row g db) = groups db @ [g]" "objects (open_row g db) = objects db"
    "envelopes (open_row g db) = envelopes db" by (simp_all add: open_row_def)
  have "filter (\<lambda>r. ob_group r = gr_key g) (objects db) = []" "filter (\<lambda>r. en_group r = gr_key g) (envelopes db) = []"
    using new store_invD(8) [OF inv'] by (auto simp: filter_empty_conv inv_envelopes_def elim!: objectE [OF inv'])
  then have "group_within l (open_row g db) g" using g by (simp add: group_within_def rows)
  moreover have "group_within l (open_row g db) h = group_within l db h" for h
    by (simp add: group_within_def rows)
  moreover have "total_bytes (open_row g db) = total_bytes db" "publisher_bytes (open_row g db) pid = publisher_bytes db pid" for pid
    using g by (simp_all add: total_bytes_def publisher_bytes_def rows own)
  ultimately show ?thesis using q unfolding within_quotas_def same(2,3) rows(1) by auto
qed

lemma enter_group_quota:
  assumes inv: "store_inv db" and q: "within_quotas l db"
    and s: "s \<in> set (streams db)" "s_stream_id s = h_stream_id (o_header obj)"
    and ok: "enter_group s obj seq kg received db = Ok db1"
  shows "within_quotas l db1" "owners db1 = owners db"
proof -
  have rows: "inv_rows db" using inv by (simp add: store_inv_def store_inv_upto_def)
  have "within_quotas l db1 \<and> owners db1 = owners db"
  proof (cases "group_changed s (h_epoch_id (o_header obj)) kg")
    case True
    with ok have "start_group s obj seq kg received db = Ok db1" by (simp add: enter_group_def Let_def)
    from start_group_ok [OF rows s this] obtain g where
      g: "db1 = open_row g (close_active s db)" "gr_retained_bytes g = 0"
        "\<And>g'. g' \<in> set (groups (close_active s db)) \<Longrightarrow> gr_key g' \<noteq> gr_key g" by blast
    from open_row_quota [OF close_active_inv [OF inv s(1)] close_active_quota [OF q] g(2,3)] g(1)
    show ?thesis by (simp add: owners_def open_row_def close_active_def)
  next
    case False
    with ok q show ?thesis by (auto simp: enter_group_def Let_def result_simps)
  qed
  then show "within_quotas l db1" "owners db1 = owners db" by simp_all
qed

lemma grown_group_quota:
  assumes q: "within_quotas l db" and keys: "distinct (map gr_key (groups db))"
    and g0: "g0 \<in> set (groups db)" "gr_key g0 = k" "gr_retained_bytes g0 + n \<le> uint (max_group_bytes l)"
    and st: "streams db' = map u (streams db)"
      "\<And>s. s_stream_id (u s) = s_stream_id s \<and> s_publisher_id (u s) = s_publisher_id s"
    and gr: "groups db' = map (\<lambda>g. if gr_key g = k then f g else g) (groups db)"
      "\<And>g. gr_key (f g) = gr_key g" "\<And>g. gr_retained_bytes (f g) = gr_retained_bytes g + n"
    and counts: "\<And>k'. length (filter (\<lambda>r. ob_group r = k') (objects db')) \<le>
        (if k' = k then unat (max_objects_per_group l) else length (filter (\<lambda>r. ob_group r = k') (objects db)))"
      "\<And>k'. length (filter (\<lambda>r. en_group r = k') (envelopes db')) \<le>
        (if k' = k then unat (max_envelopes_per_group l) else length (filter (\<lambda>r. en_group r = k') (envelopes db)))"
    and sums: "total_bytes db + n \<le> uint (max_total_bytes l)"
      "map_of (owners db) (gr_stream_id g0) = Some pid" "publisher_bytes db pid + n \<le> uint (max_publisher_bytes l)"
  shows "within_quotas l db'"
proof -
  note same = same_streams_quota [OF st]
  have "gr_stream_id (f g) = gr_stream_id g" for g using gr(2) [of g] by (simp add: gr_key_def)
  then have own: "publisher_owns db' p (f g) = publisher_owns db' p g" "publisher_owns db' p g = publisher_owns db p g" for p g
    by (simp_all add: publisher_owns_iff same(1))
  have "total_bytes db' = total_bytes db + n"
    unfolding total_bytes_def gr(1) by (rule sum_update_key_all [OF keys g0(1,2)]) (rule gr(3))
  moreover have "publisher_bytes db' p = publisher_bytes db p + (if p = pid then n else 0)" for p
  proof -
    have "publisher_bytes db' p = sum_list (map gr_retained_bytes (filter (publisher_owns db' p) (groups db)))
        + (if publisher_owns db' p g0 then n else 0)"
      unfolding publisher_bytes_def gr(1)
      by (rule sum_update_key [OF keys g0(1,2)]) (rule own(1), rule gr(3))
    moreover have "publisher_owns db' p g0 \<longleftrightarrow> p = pid"
      using sums(2) unfolding own(2) by (auto simp: publisher_owns_iff)
    moreover have "publisher_owns db' p = publisher_owns db p" by (rule ext) (rule own(2))
    ultimately show ?thesis by (simp add: publisher_bytes_def)
  qed
  moreover have "group_within l db' g'" if g': "g' \<in> set (groups db')" for g'
  proof -
    obtain g where g: "g \<in> set (groups db)" "g' = (if gr_key g = k then f g else g)" using g' gr(1) by auto
    have w: "group_within l db g" using q g(1) by (simp add: within_quotas_def)
    show ?thesis
    proof (cases "gr_key g = k")
      case True
      then have "g = g0" using key_unique [OF keys g(1) g0(1)] g0(2) by simp
      with True g(2) g0 gr(2,3) counts [of k] show ?thesis by (simp add: group_within_def)
    next
      case False
      with w g(2) counts [of "gr_key g"] show ?thesis by (auto simp: group_within_def intro: order_trans)
    qed
  qed
  ultimately show ?thesis
    using q sums unfolding within_quotas_def same(2,3) by auto
qed

lemma descriptor_owner:
  assumes "postcard_ok (descriptor_codec E)" and "descriptors_ok E db" and "store_inv db"
    and "descriptor_in_transaction E db sid = Ok (Some d)" and "identity_id E (d_publisher (d_body d)) = Ok pid"
  shows "map_of (owners db) sid = Some pid"
proof -
  from assms(4) obtain s where s: "find_stream db sid = Some s" "descriptor_decode E (s_descriptor s) = Ok d"
    by (auto simp: descriptor_in_transaction_def result_simps split: option.splits)
  have "s \<in> set (streams db)" by (rule found_stream(1) [OF assms(3) s(1)])
  then obtain d' where "to_stdvec (descriptor_codec E) d' = Some (s_descriptor s)"
    "identity_id E (d_publisher (d_body d')) = Ok (s_publisher_id s)"
    using assms(2) by (auto simp: descriptors_ok_def descriptor_encode_ok)
  moreover from this(1) s(2) have "d' = d"
    using postcard_okD_exact [OF assms(1)] by (auto simp: descriptor_decode_ok)
  ultimately have "s_publisher_id s = pid" using assms(5) by simp
  then show ?thesis using find_stream_owner [of db sid] s(1) by simp
qed

lemma uint_of_length: "length bs < 2 ^ 63 \<Longrightarrow> uint (of_nat (length bs) :: u64) = int (length bs)"
  by (simp add: unsigned_of_nat take_bit_nat_eq_self)

lemma stored_object_quota:
  assumes pc: "postcard_ok (descriptor_codec E)" and inv: "store_inv db" and desc: "descriptors_ok E db"
    and q: "within_quotas (limits cfg) db" and s: "find_stream db (h_stream_id (o_header obj)) = Some s"
    and d: "descriptor_in_transaction E db (h_stream_id (o_header obj)) = Ok (Some d)"
      "identity_id E (d_publisher (d_body d)) = Ok pid" "object_encode E (d_publisher (d_body d)) obj = Ok encoded"
    and enter: "enter_group s obj (s_high_water s + 1) kg received db = Ok db1"
    and grow: "check_group_growth cfg db1 pid (h_stream_id (o_header obj), h_epoch_id (o_header obj), kg)
       (of_nat (length encoded)) ObjectItem = Ok ()"
    and app: "append_object (h_stream_id (o_header obj), h_epoch_id (o_header obj), kg) (s_high_water s + 1)
       (h_timestamp (o_header obj)) received encoded db1 = Ok db2"
  shows "within_quotas (limits cfg) db2"
proof -
  let ?k = "(h_stream_id (o_header obj), h_epoch_id (o_header obj), kg)"
  note s' = found_stream [OF inv s]
  from enter_group_inv [OF inv s'(1,2) enter] obtain pend where inv1: "store_inv_upto pend db1" by blast
  note q1 = enter_group_quota [OF inv q s'(1,2) enter]
  have small: "length encoded < 2 ^ 63"
    using d(3) by (auto simp: object_encode_ok MAX_NATIVE_OBJECT_LEN_def MAX_MEDIA_CIPHERTEXT_LEN_def)
  note len = uint_of_length [OF small]
  have "uint (of_nat (length encoded) :: u64) \<le> i64_MAX" using small len by simp
  from check_group_growth_ok [OF grow this group_checkD(1) [OF inv1]] obtain g where
    g: "find_group db1 ?k = Some g" "gr_retained_bytes g + int (length encoded) \<le> uint (max_group_bytes (limits cfg))"
      "total_bytes db1 + int (length encoded) \<le> uint (max_total_bytes (limits cfg))"
      "publisher_bytes db1 pid + int (length encoded) \<le> uint (max_publisher_bytes (limits cfg))"
      "length (filter (\<lambda>r. ob_group r = ?k) (objects db1)) < unat (max_objects_per_group (limits cfg))"
    using len by auto
  have g0: "g \<in> set (groups db1)" "gr_key g = ?k"
    using g(1) store_invD(1) [OF inv1] by (simp_all add: find_group_iff)
  obtain r f where
    r0: "db2 = append_row r f db1" "r = \<lparr>ob_stream_id = h_stream_id (o_header obj), ob_sequence = s_high_water s + 1,
          ob_epoch_id = h_epoch_id (o_header obj), ob_key_group = kg,
          ob_received_at_ms = sint received, ob_object = encoded\<rparr>"
    and f: "f = (\<lambda>g. g\<lparr>gr_last_sequence := s_high_water s + 1, gr_last_timestamp := uint (h_timestamp (o_header obj)),
            gr_received_last_ms := max (gr_received_last_ms g) (sint received),
            gr_retained_bytes := gr_retained_bytes g + int (length encoded)\<rparr>)"
    by (rule append_object_ok [OF app object_encode_small [OF d(3)]])
  have r: "db2 = append_row r f db1" "ob_group r = ?k" "ob_stream_id r = h_stream_id (o_header obj)"
    using r0 by (simp_all add: ob_group_def)
  show ?thesis
  proof (rule grown_group_quota [OF q1(1) _ g0 g(2), where f = f and u = "\<lambda>t. if s_stream_id t = ob_stream_id r
      then t\<lparr>s_high_water := ob_sequence r\<rparr> else t" and pid = pid])
    show "distinct (map gr_key (groups db1))" using store_invD(1) [OF inv1] by (simp add: inv_keys_def)
    show "map_of (owners db1) (gr_stream_id g) = Some pid"
      using descriptor_owner [OF pc desc inv d(1,2)] q1(2) g0(2) by (simp add: gr_key_def)
    fix k'
    have "group_within (limits cfg) db1 g" using q1(1) g0(1) by (simp add: within_quotas_def)
    then show "length (filter (\<lambda>r. en_group r = k') (envelopes db2)) \<le>
        (if k' = ?k then unat (max_envelopes_per_group (limits cfg))
         else length (filter (\<lambda>r. en_group r = k') (envelopes db1)))"
      using r(1) g0(2) by (auto simp: append_row_def group_within_def)
  qed (use r g f in \<open>auto simp: append_row_def gr_key_def\<close>)
qed

lemma appended_envelope_quota:
  assumes pc: "postcard_ok (descriptor_codec E)" and inv: "store_inv db" and desc: "descriptors_ok E db"
    and q: "within_quotas (limits cfg) db"
    and d: "descriptor_in_transaction E db sid = Ok (Some d)" "identity_id E (d_publisher (d_body d)) = Ok pid"
    and small: "length encoded < 2 ^ 63"
    and grow: "check_group_growth cfg db pid (sid, eid, kg) (of_nat (length encoded)) EnvelopeItem = Ok ()"
    and app: "append_envelope (sid, eid, kg) rid kid received encoded db = Ok db1"
  shows "within_quotas (limits cfg) db1"
proof -
  have inv1: "store_inv_upto None db" using inv by (simp add: store_inv_def)
  note len = uint_of_length [OF small]
  have "uint (of_nat (length encoded) :: u64) \<le> i64_MAX" using small len by simp
  from check_group_growth_ok [OF grow this group_checkD(1) [OF inv1]] obtain g where
    g: "find_group db (sid, eid, kg) = Some g" "gr_retained_bytes g + int (length encoded) \<le> uint (max_group_bytes (limits cfg))"
      "total_bytes db + int (length encoded) \<le> uint (max_total_bytes (limits cfg))"
      "publisher_bytes db pid + int (length encoded) \<le> uint (max_publisher_bytes (limits cfg))"
      "length (filter (\<lambda>r. en_group r = (sid, eid, kg)) (envelopes db)) < unat (max_envelopes_per_group (limits cfg))"
    using len by auto
  have g0: "g \<in> set (groups db)" "gr_key g = (sid, eid, kg)"
    using g(1) store_invD(1) [OF inv1] by (simp_all add: find_group_iff)
  have "length encoded < 2 ^ 64" using small by simp
  then obtain r where r0: "db1 = append_envelope_row r db"
    "r = \<lparr>en_stream_id = sid, en_epoch_id = eid, en_key_group = kg, en_recipient_id = rid, en_key_id = kid,
          en_received_at_ms = sint received, en_envelope = encoded\<rparr>"
    by (rule append_envelope_ok [OF app])
  then have r: "db1 = append_envelope_row r db" "en_group r = (sid, eid, kg)" "en_envelope r = encoded"
    by (simp_all add: en_group_def)
  show ?thesis
  proof (rule grown_group_quota [OF q _ g0 g(2), where u = id and pid = pid and
        f = "\<lambda>g. g\<lparr>gr_retained_bytes := gr_retained_bytes g + int (length (en_envelope r))\<rparr>"])
    show "distinct (map gr_key (groups db))" using store_invD(1) [OF inv1] by (simp add: inv_keys_def)
    show "map_of (owners db) (gr_stream_id g) = Some pid"
      using descriptor_owner [OF pc desc inv d] g0(2) by (simp add: gr_key_def)
    fix k'
    have "group_within (limits cfg) db g" using q g0(1) by (simp add: within_quotas_def)
    then show "length (filter (\<lambda>r. ob_group r = k') (objects db1)) \<le>
        (if k' = (sid, eid, kg) then unat (max_objects_per_group (limits cfg))
         else length (filter (\<lambda>r. ob_group r = k') (objects db)))"
      using r(1) g0(2) by (auto simp: append_envelope_row_def group_within_def)
  qed (use r g in \<open>auto simp: append_envelope_row_def gr_key_def\<close>)
qed

section \<open>Every transaction keeps the quotas\<close>

definition stream_identities :: "native_db \<Rightarrow> (uuid \<times> array32 \<times> bytes) set" where
  "stream_identities db = (\<lambda>s. (s_stream_id s, s_publisher_id s, s_descriptor s)) ` set (streams db)"

lemma stream_identities_zip:
  "stream_identities db = (\<lambda>((sid, pid), (_, bs)). (sid, pid, bs)) ` set (zip (owners db) (stream_descriptors db))"
  by (simp add: stream_identities_def owners_def stream_descriptors_def zip_map1 zip_map2 zip_same_conv_map
      image_comp comp_def)

lemma descriptors_ok_identities:
  "descriptors_ok E db \<longleftrightarrow> (\<forall>(sid, pid, bs) \<in> stream_identities db. \<exists>d.
     descriptor_encode E d = Ok bs \<and> d_stream_id (d_body d) = sid \<and>
     identity_id E (d_publisher (d_body d)) = Ok pid)"
  by (simp add: descriptors_ok_def stream_identities_def)

lemma descriptors_ok_cong:
  assumes "descriptors_ok E db" and "owners db' = owners db" and "stream_descriptors db' = stream_descriptors db"
  shows "descriptors_ok E db'"
  using assms(1) unfolding descriptors_ok_identities stream_identities_zip assms(2,3) .

lemma same_streams_ok:
  assumes "descriptors_ok E db" and "streams db' = streams db"
  shows "descriptors_ok E db'"
  using assms by (simp add: descriptors_ok_def)

lemma group_owner_known:
  assumes "store_inv db" and "g \<in> set (groups db)"
  shows "gr_stream_id g \<in> set (map s_stream_id (streams db))"
proof -
  obtain s where "s \<in> set (streams db)" "group_in_stream None s g"
    using ownerE [of None db g] assms by (auto simp: store_inv_def)
  then show ?thesis by (force simp: group_in_stream_def)
qed

lemma insert_stream_quota:
  assumes inv: "store_inv db" and q: "within_quotas l db" and db': "db' = db\<lparr>streams := streams db @ [s]\<rparr>"
    and room: "length (streams db) < unat (max_streams l)"
      "length (filter (\<lambda>r. s_publisher_id r = s_publisher_id s) (streams db)) < unat (max_streams_per_publisher l)"
  shows "within_quotas l db'"
proof -
  have "publisher_owns db' p g = publisher_owns db p g" if "g \<in> set (groups db)" for p g
  proof -
    have "map_of (owners db) (gr_stream_id g) \<noteq> None"
      using group_owner_known [OF inv that] by (auto simp: owners_def map_of_eq_None_iff image_iff)
    then show ?thesis by (auto simp: publisher_owns_iff owners_def db' map_add_Some_iff)
  qed
  then have "publisher_bytes db' p = publisher_bytes db p" for p
    unfolding publisher_bytes_def by (simp add: db' cong: filter_cong)
  moreover have "total_bytes db' = total_bytes db" "group_within l db' g = group_within l db g" for g
    by (simp_all add: total_bytes_def group_within_def db')
  moreover have "length (filter (\<lambda>r. s_publisher_id r = p) (streams db')) \<le> unat (max_streams_per_publisher l)" for p
    using q room(2) by (auto simp: within_quotas_def db')
  ultimately show ?thesis using q room(1) by (simp add: within_quotas_def db')
qed

lemma put_descriptor_quota:
  assumes inv: "store_inv db" and q: "within_quotas (limits cfg) db" and desc: "descriptors_ok E db"
    and ok: "put_descriptor E cfg d db = Ok db'"
  shows "within_quotas (limits cfg) db' \<and> descriptors_ok E db'"
proof -
  let ?sid = "d_stream_id (d_body d)"
  from ok obtain encoded pid where enc: "descriptor_encode E d = Ok encoded"
    and pid: "identity_id E (d_publisher (d_body d)) = Ok pid"
    by (auto simp: put_descriptor_def result_simps)
  show ?thesis
  proof (cases "find_stream db ?sid")
    case None
    let ?s = "\<lparr>s_stream_id = ?sid, s_publisher_id = pid, s_descriptor = encoded, s_high_water = 0,
      s_active_epoch = None, s_active_group = None\<rparr>"
    from None ok enc pid have db': "db' = db\<lparr>streams := streams db @ [?s]\<rparr>"
      and room: "length (streams db) < unat (max_streams (limits cfg))"
        "length (filter (\<lambda>r. s_publisher_id r = s_publisher_id ?s) (streams db))
           < unat (max_streams_per_publisher (limits cfg))"
      by (auto simp: put_descriptor_def Let_def result_simps insert_stream_def not_le split: if_splits)
    have "descriptors_ok E db'" using desc enc pid by (auto simp: descriptors_ok_def db')
    with insert_stream_quota [OF inv q db' room] show ?thesis by simp
  next
    case (Some s)
    note s = found_stream [OF inv Some]
    let ?u = "\<lambda>r. if s_stream_id r = ?sid then r\<lparr>s_descriptor := encoded\<rparr> else r"
    from Some ok enc pid have own: "s_publisher_id s = pid" and
      "db' = db \<or> db' = db\<lparr>streams := map ?u (streams db)\<rparr>"
      by (auto simp: put_descriptor_def Let_def result_simps update_stream_ok split: if_splits)
    moreover have "descriptors_ok E (db\<lparr>streams := map ?u (streams db)\<rparr>)"
    proof -
      have "r = s" if "r \<in> set (streams db)" "s_stream_id r = ?sid" for r
        using stream_unique [of db r s] that s inv by (simp add: store_inv_def store_inv_upto_def)
      with desc enc pid own show ?thesis by (auto simp: descriptors_ok_def)
    qed
    moreover have "within_quotas (limits cfg) (db\<lparr>streams := map ?u (streams db)\<rparr>)"
      by (rule within_quotas_cong [OF q, where u = ?u and c = id]) simp_all
    ultimately show ?thesis using q desc by auto
  qed
qed

lemma retention_quota:
  assumes "enforce_retention cfg sid now_ms db = Ok (db', n)" and "store_inv db" and "within_quotas l db"
  shows "within_quotas l db'"
  by (rule enforce_retention_without [OF assms(1,2)]) (simp add: without_groups_quota [OF assms(2,3)])

lemma retention_over_quota:
  "retention_over cfg now_ms sids db removed = Ok (db', n) \<Longrightarrow> store_inv db \<Longrightarrow> within_quotas l db \<Longrightarrow>
   within_quotas l db'"
  by (induction sids arbitrary: db removed)
    (auto simp: and_then_eq_Ok dest: enforce_retention_inv retention_quota)

lemma store_object_quota:
  assumes pc: "postcard_ok (descriptor_codec E)" and q: "quota_inv E (limits cfg) db"
    and ok: "store_object E cfg obj received db = Ok (db', c)"
  shows "within_quotas (limits cfg) db' \<and> descriptors_ok E db'"
proof -
  have inv: "store_inv db" and desc: "descriptors_ok E db" and w: "within_quotas (limits cfg) db"
    using q by (simp_all add: quota_inv_def)
  from ok show ?thesis
  proof (cases rule: store_object_ok)
    case 1
    with desc w show ?thesis by simp
  next
    case (2 d encoded s kg db1 db2 n pid)
    note s = found_stream [OF inv 2(4)]
    note inv2 = stored_object_inv [OF inv 2(4,6,8,2,11)]
    have "owners db2 = owners db1" by (simp add: owners_def append_object_streams [OF 2(11)])
    with enforce_retention_streams [OF inv2 2(12)] enter_group_quota(2) [OF inv w s(1,2) 2(8)]
    have "owners db' = owners db" by (simp add: owners_def)
    then have "descriptors_ok E db'" by (rule descriptors_ok_cong [OF desc _ store_object_descriptors [OF inv ok]])
    with retention_quota [OF 2(12) inv2 stored_object_quota [OF pc inv desc w 2(4,3,9,2,8,10,11)]]
    show ?thesis by simp
  qed
qed

lemma store_envelope_quota:
  assumes pc: "postcard_ok (descriptor_codec E)" and q: "quota_inv E (limits cfg) db"
    and ok: "store_envelope E cfg e received db = Ok (db', stored)"
  shows "within_quotas (limits cfg) db' \<and> descriptors_ok E db'"
proof -
  have inv: "store_inv db" and desc: "descriptors_ok E db" and w: "within_quotas (limits cfg) db"
    using q by (simp_all add: quota_inv_def)
  have "descriptors_ok E db'" by (rule same_streams_ok [OF desc store_envelope_streams [OF inv ok]])
  moreover from ok have "within_quotas (limits cfg) db'"
  proof (cases rule: store_envelope_ok)
    case 1
    with w show ?thesis by simp
  next
    case (2 d encoded kg g db1 n pid)
    have "length encoded < 2 ^ 63" using 2(5) by (auto simp: envelope_encode_ok MAX_KEY_ENVELOPE_LEN_def)
    from retention_quota [OF 2(9) appended_envelope_inv [OF inv 2(1,2,8) envelope_encode_small [OF 2(5)]]
        appended_envelope_quota [OF pc inv desc w 2(4,6) this 2(7,8)]] show ?thesis .
  qed
  ultimately show ?thesis by simp
qed

lemma store_step_quota:
  assumes pc: "postcard_ok (descriptor_codec E)" and q: "quota_inv E (limits cfg) db"
    and step: "store_step E cfg db db'"
  shows "quota_inv E (limits cfg) db'"
proof -
  have inv: "store_inv db" and desc: "descriptors_ok E db" and w: "within_quotas (limits cfg) db"
    using q by (simp_all add: quota_inv_def)
  from step have "within_quotas (limits cfg) db' \<and> descriptors_ok E db'"
  proof (cases rule: store_step.cases)
    case put
    then show ?thesis by (rule put_descriptor_quota [OF inv w desc])
  next
    case store
    then show ?thesis by (rule store_object_quota [OF pc q])
  next
    case envelope
    then show ?thesis by (rule store_envelope_quota [OF pc q])
  next
    case finalize
    from finalize_stream_ok [OF inv finalize] show ?thesis
    proof (elim disjE bexE conjE)
      fix s assume "db' = close_active s db"
      moreover have "descriptors_ok E (close_active s db)"
        by (rule descriptors_ok_cong [OF desc])
          (simp_all add: owners_def stream_descriptors_def close_active_def)
      ultimately show ?thesis using close_active_quota [OF w] by simp
    qed (use w desc in simp)
  next
    case retention
    with retention_over_quota [OF _ inv w] same_streams_ok [OF desc retention_over_streams [OF _ inv]]
    show ?thesis unfolding enforce_retention_at_def by blast
  qed
  with store_step_inv [OF step inv] show ?thesis by (simp add: quota_inv_def)
qed

lemma quota_inv_empty: "quota_inv E l empty_db"
  using store_inv_empty by (simp add: quota_inv_def descriptors_ok_def within_quotas_def empty_db_def
      total_bytes_def publisher_bytes_def)

interpretation store_quotas: invariant_machine "\<lambda>db db'. postcard_ok (descriptor_codec E) \<and> store_step E cfg db db'"
  "quota_inv E (limits cfg)" for E cfg
  by unfold_locales (blast intro: store_step_quota)

lemma reachable_quota_inv:
  assumes "postcard_ok (descriptor_codec E)" and "(store_step E cfg)\<^sup>*\<^sup>* empty_db db"
  shows "quota_inv E (limits cfg) db"
proof -
  have "(\<lambda>db db'. postcard_ok (descriptor_codec E) \<and> store_step E cfg db db')\<^sup>*\<^sup>* empty_db db"
    using assms(2) by (rule rtranclp_mono [THEN predicate2D, rotated]) (use assms(1) in auto)
  from store_quotas.reachable_inv [OF this quota_inv_empty] show ?thesis .
qed

text \<open>C11: No sequence of committed transactions, in any order and from any publishers, takes a store
  opened empty above a configured hard limit: the number of streams, the streams of one publisher,
  the objects, envelopes and bytes of one group, the bytes of one publisher and the bytes of the
  whole store.\<close>

theorem store_within_quotas:
  assumes "postcard_ok (descriptor_codec E)" and "(store_step E cfg)\<^sup>*\<^sup>* empty_db db"
  shows "within_quotas (limits cfg) db"
  using reachable_quota_inv [OF assms] by (simp add: quota_inv_def)

section \<open>Ownership\<close>

text \<open>The descriptor a reachable row holds is found, verified, and names the row's own publisher.\<close>

lemma row_descriptor:
  assumes "postcard_ok (descriptor_codec E)" and "descriptors_ok E db" and "store_inv db" and "find_stream db sid = Some s"
  obtains d where "descriptor_in_transaction E db sid = Ok (Some d)" "descriptor_verify E d = Ok ()"
    "d_stream_id (d_body d) = sid" "identity_id E (d_publisher (d_body d)) = Ok (s_publisher_id s)"
proof -
  note s = found_stream [OF assms(3,4)]
  from assms(2) s(1,2) obtain d where d: "descriptor_encode E d = Ok (s_descriptor s)" "d_stream_id (d_body d) = sid"
    "identity_id E (d_publisher (d_body d)) = Ok (s_publisher_id s)"
    by (auto simp: descriptors_ok_def)
  then have "descriptor_decode E (s_descriptor s) = Ok d" "descriptor_verify E d = Ok ()"
    using postcard_okD_exact [OF assms(1)] by (auto simp: descriptor_decode_ok descriptor_encode_ok)
  with d assms(4) show thesis by (intro that) (simp_all add: descriptor_in_transaction_def)
qed

text \<open>C15: A stream belongs to the publisher that created it.  Whatever transactions follow, the stream
  stays registered under the same publisher fingerprint, the descriptor stored with it is a verified
  one for that stream signed by a publisher with that very fingerprint, a descriptor of any other
  publisher for the stream is refused, and the stream's high-water mark never decreases.\<close>

theorem stream_owner_permanent:
  assumes "postcard_ok (descriptor_codec E)" and "(store_step E cfg)\<^sup>*\<^sup>* empty_db db"
    and "find_stream db sid = Some s" and "(store_step E cfg)\<^sup>*\<^sup>* db db'"
  shows "\<exists>s' d. find_stream db' sid = Some s' \<and> s_publisher_id s' = s_publisher_id s \<and>
    s_high_water s \<le> s_high_water s' \<and>
    descriptor_in_transaction E db' sid = Ok (Some d) \<and> descriptor_verify E d = Ok () \<and>
    d_stream_id (d_body d) = sid \<and> identity_id E (d_publisher (d_body d)) = Ok (s_publisher_id s) \<and>
    (\<forall>d'. d_stream_id (d_body d') = sid \<longrightarrow> identity_id E (d_publisher (d_body d')) \<noteq> Ok (s_publisher_id s) \<longrightarrow>
       (\<exists>e. put_descriptor E cfg d' db' = Err e))"
proof -
  have inv: "store_inv db" using reachable_quota_inv [OF assms(1,2)] by (simp add: quota_inv_def)
  note s = found_stream [OF inv assms(3)]
  from store_steps_grow [OF assms(4) inv] s obtain s' where
    s': "s' \<in> set (streams db')" "s_stream_id s' = sid" "s_publisher_id s' = s_publisher_id s"
      "s_high_water s \<le> s_high_water s'" and inv': "store_inv db'"
    by (auto simp: streams_grow_def)
  have "inv_keys db'" using inv' by (simp add: store_inv_def store_inv_upto_def)
  with s' have found: "find_stream db' sid = Some s'" by (auto simp: find_stream_iff)
  have "descriptors_ok E db'"
    using reachable_quota_inv [OF assms(1) rtranclp_trans [OF assms(2,4)]] by (simp add: quota_inv_def)
  from row_descriptor [OF assms(1) this inv' found] obtain d where
    d: "descriptor_in_transaction E db' sid = Ok (Some d)" "descriptor_verify E d = Ok ()"
    "d_stream_id (d_body d) = sid" "identity_id E (d_publisher (d_body d)) = Ok (s_publisher_id s')" .
  have "\<exists>e. put_descriptor E cfg d' db' = Err e"
    if "d_stream_id (d_body d') = sid" "identity_id E (d_publisher (d_body d')) \<noteq> Ok (s_publisher_id s)" for d'
    using that found s'(3)
    by (cases "descriptor_encode E d'"; cases "identity_id E (d_publisher (d_body d'))") (auto simp: put_descriptor_def)
  with found s'(3,4) d show ?thesis by auto
qed

end
