(* ===== verification/StoreTotality.thy ===== *)
theory StoreTotality
  imports StoreQuotas
begin

text \<open>
  What the store can always do.  In every state it can reach, the periodic retention pass ends without
  an error, and the catalog queries answer: the sums stay in SQL's integer range because the byte
  quota does, and the stored columns satisfy the conversions that read them.
\<close>

section \<open>Sums in range\<close>

definition bytes_fit :: "native_db \<Rightarrow> bool" where
  "bytes_fit db \<longleftrightarrow> (\<forall>g\<in>set (groups db). 0 \<le> gr_retained_bytes g) \<and> total_bytes db \<le> i64_MAX"

lemma bytes_fit_quota:
  assumes "quota_inv E l db" and "uint (max_total_bytes l) \<le> i64_MAX"
  shows "bytes_fit db"
  using assms nonneg_bytes [of None db]
  by (auto simp: bytes_fit_def quota_inv_def within_quotas_def store_inv_def)

lemma stream_bytes_range:
  assumes "bytes_fit db"
  shows "0 \<le> sum_list (map gr_retained_bytes (groups_of db sid))"
    "sum_list (map gr_retained_bytes (groups_of db sid)) \<le> i64_MAX"
proof -
  from assms have nonneg: "\<And>g. g \<in> set (groups db) \<Longrightarrow> 0 \<le> gr_retained_bytes g"
    and total: "total_bytes db \<le> i64_MAX" by (auto simp: bytes_fit_def)
  show "0 \<le> sum_list (map gr_retained_bytes (groups_of db sid))"
    by (rule sum_list_nonneg) (use nonneg in \<open>auto simp: groups_of_def\<close>)
  have "sum_list (map gr_retained_bytes (groups_of db sid)) \<le> total_bytes db"
    unfolding groups_of_def total_bytes_def by (rule sum_filter_le) (use nonneg in auto)
  with total show "sum_list (map gr_retained_bytes (groups_of db sid)) \<le> i64_MAX" by simp
qed

lemma stream_sum_ok:
  "bytes_fit db \<Longrightarrow> sql_sum (map gr_retained_bytes (groups_of db sid)) = Ok (sum_list (map gr_retained_bytes (groups_of db sid)))"
  using stream_bytes_range [of db sid] by (simp add: sql_sum_def sql_int_def)

lemma stream_bytes_ok: "bytes_fit db \<Longrightarrow> \<exists>n. stream_bytes db sid = Ok n"
  using stream_bytes_range [of db sid] by (simp add: stream_bytes_def stream_sum_ok from_sql_u64_def)

lemma bytes_fit_delete:
  assumes "bytes_fit db"
  shows "bytes_fit (delete_group k db)"
proof -
  from assms have "\<And>g. g \<in> set (groups db) \<Longrightarrow> 0 \<le> gr_retained_bytes g" by (auto simp: bytes_fit_def)
  then have "total_bytes (delete_group k db) \<le> total_bytes db"
    unfolding total_bytes_def delete_group_def by (simp add: sum_filter_le)
  with assms show ?thesis by (auto simp: bytes_fit_def delete_group_def)
qed

section \<open>Retention\<close>

lemma enforce_retention_loop_total:
  "bytes_fit db \<Longrightarrow> \<exists>db' n. enforce_retention_loop cfg sid cutoff db removed = Ok (db', n) \<and> bytes_fit db' \<and>
     length (groups db') \<le> length (groups db) \<and> n \<le> removed + (length (groups db) - length (groups db'))"
proof (induction cfg sid cutoff db removed rule: enforce_retention_loop.induct)
  case (1 cfg sid cutoff db removed)
  from "1.prems" obtain over where
    over: "(case retention_bytes cfg of Some l \<Rightarrow> and_then (stream_bytes db sid) (\<lambda>n. Ok (n > l)) | None \<Rightarrow> Ok False)
      = (Ok over :: store_error + bool)"
    using stream_bytes_ok [of db sid] by (cases "retention_bytes cfg") auto
  show ?case
  proof (cases "first_by gr_first_sequence (complete_groups_of db sid)")
    case None
    then show ?thesis using "1.prems" over by (subst enforce_retention_loop.simps) simp
  next
    case (Some g)
    let ?age = "case cutoff of Some c \<Rightarrow> gr_received_last_ms g < c | None \<Rightarrow> False"
    show ?thesis
    proof (cases "\<not> over \<and> \<not> ?age")
      case True
      then show ?thesis using "1.prems" over Some by (subst enforce_retention_loop.simps) simp
    next
      case False
      have less: "length (groups (delete_group (gr_key g) db)) < length (groups db)"
        using first_by_set [OF Some] by (intro delete_group_shrinks) (simp add: complete_groups_of_def groups_of_def)
      from "1.IH" [OF over Some refl False bytes_fit_delete [OF "1.prems"]] obtain db' n where
        2: "enforce_retention_loop cfg sid cutoff (delete_group (gr_key g) db) (saturating_add_usize removed 1) = Ok (db', n)"
        "bytes_fit db'" "length (groups db') \<le> length (groups (delete_group (gr_key g) db))"
        "n \<le> saturating_add_usize removed 1 + (length (groups (delete_group (gr_key g) db)) - length (groups db'))" by blast
      have "enforce_retention_loop cfg sid cutoff db removed
          = enforce_retention_loop cfg sid cutoff (delete_group (gr_key g) db) (saturating_add_usize removed 1)"
        by (subst enforce_retention_loop.simps) (simp only: over and_then_simps Some option.case Let_def if_not_P [OF False])
      moreover have "n \<le> removed + (length (groups db) - length (groups db'))"
        using 2(3,4) less by (simp add: saturating_add_usize_def min_def split: if_splits)
      ultimately show ?thesis using 2 less by (intro exI [of _ db'] exI [of _ n]) simp
    qed
  qed
qed

lemma retention_over_total:
  "bytes_fit db \<Longrightarrow> \<exists>db' n. retention_over cfg now_ms sids db removed = Ok (db', n) \<and>
     length (groups db') \<le> length (groups db) \<and> n \<le> removed + (length (groups db) - length (groups db'))"
proof (induction sids arbitrary: db removed)
  case Nil
  then show ?case by simp
next
  case (Cons sid sids)
  from enforce_retention_loop_total [OF Cons.prems, of cfg sid "age_cutoff cfg now_ms" 0] obtain db1 m where
    1: "enforce_retention cfg sid now_ms db = Ok (db1, m)" "bytes_fit db1"
    "length (groups db1) \<le> length (groups db)" "m \<le> length (groups db) - length (groups db1)"
    by (auto simp: enforce_retention_def)
  from Cons.IH [OF 1(2), of "saturating_add_usize removed m"] obtain db' n where
    2: "retention_over cfg now_ms sids db1 (saturating_add_usize removed m) = Ok (db', n)"
    "length (groups db') \<le> length (groups db1)"
    "n \<le> saturating_add_usize removed m + (length (groups db1) - length (groups db'))" by blast
  have "n \<le> removed + (length (groups db) - length (groups db'))"
    using 1(3,4) 2(2,3) by (simp add: saturating_add_usize_def min_def split: if_splits)
  with 1 2 show ?case by (intro exI [of _ db'] exI [of _ n]) simp
qed

section \<open>Reading\<close>

text \<open>\<^verbatim>\<open>MIN\<close> and \<^verbatim>\<open>MAX\<close> over a column.\<close>

lemma fold_min_bounds:
  "x \<in> set xs \<union> {y} \<Longrightarrow> fold min xs y \<le> (x :: 'a::linorder)" "fold min xs y \<in> set xs \<union> {y}"
  using Min_in [of "set (y # xs)"] Min_le [of "set (y # xs)" x] by (auto simp flip: Min.set_eq_fold)

lemma fold_max_bounds:
  "x \<in> set xs \<union> {y} \<Longrightarrow> (x :: 'a::linorder) \<le> fold max xs y" "fold max xs y \<in> set xs \<union> {y}"
  using Max_in [of "set (y # xs)"] Max_ge [of "set (y # xs)" x] by (auto simp flip: Max.set_eq_fold)

lemma word_of_int_i64_le: "0 \<le> a \<Longrightarrow> a \<le> b \<Longrightarrow> b \<le> i64_MAX \<Longrightarrow> (word_of_int a :: u64) \<le> word_of_int b"
  by (simp add: word_le_def uint_word_of_int_eq take_bit_int_eq_self)

lemma word_of_int_i64_pos: "0 < a \<Longrightarrow> a \<le> i64_MAX \<Longrightarrow> (word_of_int a :: u64) \<noteq> 0"
  by (simp add: word_of_int_eq_0_iff) (auto dest!: zdvd_imp_le)

definition bounds_ordered :: "native_retained_bounds \<Rightarrow> bool" where
  "bounds_ordered b \<longleftrightarrow> nb_oldest_sequence b \<noteq> 0 \<and> nb_oldest_sequence b \<le> nb_newest_sequence b \<and>
     nb_oldest_timestamp b \<le> nb_newest_timestamp b"

lemma retained_bounds_total:
  assumes "store_inv db"
  obtains r where "retained_bounds_in_connection db sid = Ok r"
    "\<And>b. r = Some b \<Longrightarrow> bounds_ordered b"
proof (cases "complete_groups_of db sid")
  case Nil
  then have "retained_bounds_in_connection db sid = Ok None" by (simp add: retained_bounds_in_connection_def)
  then show thesis by (rule that) simp
next
  case (Cons g gs)
  have check: "group_check h" if "h \<in> set (g # gs)" for h
  proof -
    from that have "h \<in> set (groups db)" unfolding Cons [symmetric] by (auto simp: complete_groups_of_def groups_of_def)
    with assms show ?thesis by (simp add: store_inv_def store_inv_upto_def inv_rows_def)
  qed
  let ?s0 = "fold min (map gr_first_sequence gs) (gr_first_sequence g)"
  let ?s1 = "fold max (map gr_last_sequence gs) (gr_last_sequence g)"
  let ?t0 = "fold min (map gr_first_timestamp gs) (gr_first_timestamp g)"
  let ?t1 = "fold max (map gr_last_timestamp gs) (gr_last_timestamp g)"
  have seq: "0 < ?s0" "?s0 \<le> ?s1" "?s1 \<le> i64_MAX"
  proof -
    show "0 < ?s0" using fold_min_bounds(2) [of "map gr_first_sequence gs" "gr_first_sequence g"] check
      by (auto simp: group_check_def)
    have "?s0 \<le> gr_first_sequence g" by (rule fold_min_bounds) simp
    also have "\<dots> \<le> gr_last_sequence g" using check by (simp add: group_check_def)
    also have "\<dots> \<le> ?s1" by (rule fold_max_bounds) simp
    finally show "?s0 \<le> ?s1" .
    show "?s1 \<le> i64_MAX" using fold_max_bounds(2) [of "map gr_last_sequence gs" "gr_last_sequence g"] check
      by (auto simp: group_check_def sql_int_def)
  qed
  have ts: "0 \<le> ?t0" "?t0 \<le> ?t1" "?t1 \<le> i64_MAX"
  proof -
    show "0 \<le> ?t0" using fold_min_bounds(2) [of "map gr_first_timestamp gs" "gr_first_timestamp g"] check
      by (auto simp: group_check_def)
    have "?t0 \<le> gr_first_timestamp g" by (rule fold_min_bounds) simp
    also have "\<dots> \<le> gr_last_timestamp g" using check by (simp add: group_check_def)
    also have "\<dots> \<le> ?t1" by (rule fold_max_bounds) simp
    finally show "?t0 \<le> ?t1" .
    show "?t1 \<le> i64_MAX" using fold_max_bounds(2) [of "map gr_last_timestamp gs" "gr_last_timestamp g"] check
      by (auto simp: group_check_def sql_int_def)
  qed
  have "retained_bounds_in_connection db sid = Ok (Some \<lparr>nb_oldest_sequence = word_of_int ?s0, nb_newest_sequence = word_of_int ?s1,
      nb_oldest_timestamp = word_of_int ?t0, nb_newest_timestamp = word_of_int ?t1\<rparr>)"
    using seq ts by (simp add: retained_bounds_in_connection_def Cons from_sql_u64_def)
  then show thesis
    by (rule that) (use seq ts word_of_int_i64_pos word_of_int_i64_le in \<open>auto simp: bounds_ordered_def\<close>)
qed

lemma map_sort_key: "map k (sort_key k xs) = sort (map k xs)"
proof -
  have "map k (insort_key k x ys) = insort (k x) (map k ys)" for x ys by (induction ys) auto
  then show ?thesis by (induction xs) simp_all
qed

lemma summaries_total:
  assumes "store_inv db" and "bytes_fit db"
  obtains xs where "summaries db = Ok xs" "map fst xs = sort (map s_stream_id (streams db))"
    "\<And>sid su b. (sid, su) \<in> set xs \<Longrightarrow> su_retained su = Some b \<Longrightarrow>
       bounds_ordered b"
proof -
  let ?row = "\<lambda>s. and_then (sql_sum (map gr_retained_bytes (groups_of db (s_stream_id s)))) (\<lambda>n.
         and_then (from_sql_u64 (s_high_water s)) (\<lambda>hw.
         and_then (from_sql_u64 n) (\<lambda>retained.
         and_then (retained_bounds_in_connection db (s_stream_id s)) (\<lambda>bounds.
           Ok (s_stream_id s, \<lparr>su_publisher_id = s_publisher_id s, su_high_water = hw,
                               su_retained_bytes = retained, su_retained = bounds\<rparr>)))))"
  have "\<exists>x. ?row s = Ok x \<and> fst x = s_stream_id s \<and> (\<forall>b. su_retained (snd x) = Some b \<longrightarrow>
       bounds_ordered b)"
    if "s \<in> set (streams db)" for s
  proof -
    have "0 \<le> s_high_water s" using assms(1) that by (auto simp: store_inv_def store_inv_upto_def inv_rows_def stream_check_def)
    moreover obtain r where "retained_bounds_in_connection db (s_stream_id s) = Ok r"
      "\<And>b. r = Some b \<Longrightarrow> bounds_ordered b"
      by (rule retained_bounds_total [OF assms(1), where sid = "s_stream_id s"]) blast
    ultimately show ?thesis
      using stream_bytes_range(1) [OF assms(2)] by (simp add: stream_sum_ok [OF assms(2)] from_sql_u64_def)
  qed
  then have "\<forall>s\<in>set (streams db). \<exists>x. ?row s = Ok x \<and> fst x = s_stream_id s \<and> (\<forall>b. su_retained (snd x) = Some b \<longrightarrow>
       bounds_ordered b)"
    by blast
  from bchoice [OF this] obtain f where
    f: "\<And>s. s \<in> set (streams db) \<Longrightarrow> ?row s = Ok (f s) \<and> fst (f s) = s_stream_id s \<and> (\<forall>b. su_retained (snd (f s)) = Some b \<longrightarrow>
       bounds_ordered b)"
    by blast
  have "try_map ?row rows = Ok (map f rows)" if "set rows \<subseteq> set (streams db)" for rows
    using that
  proof (induction rows)
    case (Cons s rows)
    then have "?row s = Ok (f s)" using f by simp
    with Cons show ?case by (simp only: try_map.simps and_then_simps list.map) simp
  qed simp
  then have "summaries db = Ok (map f (sort_key s_stream_id (streams db)))" by (simp add: summaries_def)
  moreover have "map fst (map f (sort_key s_stream_id (streams db))) = sort (map s_stream_id (streams db))"
  proof -
    have "map fst (map f (sort_key s_stream_id (streams db))) = map s_stream_id (sort_key s_stream_id (streams db))"
      using f by simp
    also have "\<dots> = sort (map s_stream_id (streams db))"
      by (rule map_sort_key)
    finally show ?thesis .
  qed
  moreover have "bounds_ordered b"
    if "(sid, su) \<in> set (map f (sort_key s_stream_id (streams db)))" "su_retained su = Some b" for sid su b
  proof -
    from that(1) obtain s where "s \<in> set (streams db)" "f s = (sid, su)" by auto
    with f [of s] that(2) show ?thesis by simp
  qed
  ultimately show thesis by (rule that)
qed

section \<open>Properties\<close>

text \<open>C12: The periodic retention pass always ends, without an error: in every state a store with a byte
  limit in SQL's range can reach, the pass over all streams returns a database, and the number of
  evicted groups it reports is at most the number of groups that went.\<close>

theorem retention_pass_ends:
  assumes "postcard_ok (descriptor_codec E)" and "(store_step E cfg)\<^sup>*\<^sup>* empty_db db"
    and "uint (max_total_bytes (limits cfg)) \<le> i64_MAX"
  shows "\<exists>db' n. enforce_retention_at cfg now_ms db = Ok (db', n) \<and> length (groups db') \<le> length (groups db) \<and>
    n \<le> length (groups db) - length (groups db')"
  using retention_over_total [OF bytes_fit_quota [OF reachable_quota_inv [OF assms(1,2)] assms(3)], of cfg now_ms _ 0]
  by (auto simp: enforce_retention_at_def)

end
