(* ===== verification/Access.thy ===== *)
theory Access
  imports Wire
begin

text \<open>
  \<^verbatim>\<open>crates/relay/src/native_access.rs\<close>: admission of publishers and viewers to the relay, and the
  recheck of admitted sessions against the revocation list of the moment.

  The shared list behind the lock is part of the policy; a poisoned lock has no list.
\<close>

section \<open>Data\<close>

datatype policy_lock = Poisoned | Unpoisoned "revocation_list option"

datatype native_access_policy =
    PublicPolicy
  | SignedPolicy certificate_authority_public policy_lock

record native_admission =
  adm_mode :: relay_access_mode
  adm_expires_at_ms :: "i64 option"
  adm_credential_serial :: "array16 option"

datatype native_access_error =
    AccessWrongRole
  | MissingCredential
  | AccessCredential credential_error
  | Unavailable

section \<open>Operations\<close>

definition read_lock :: "policy_lock \<Rightarrow> native_access_error + revocation_list option" where
  "read_lock l = (case l of Poisoned \<Rightarrow> Err Unavailable | Unpoisoned r \<Rightarrow> Ok r)"

definition admit ::
  "'z credential_env_scheme \<Rightarrow> native_access_policy \<Rightarrow> session_hello \<Rightarrow> credential_role \<Rightarrow> array32 \<Rightarrow> i64
    \<Rightarrow> native_access_error + native_admission" where
  "admit E policy hello expected_role noise_key now_ms =
     (if hello_role hello \<noteq> expected_role then Err AccessWrongRole
      else (case policy of
              PublicPolicy \<Rightarrow>
                Ok \<lparr>adm_mode = PublicAccess, adm_expires_at_ms = None, adm_credential_serial = None\<rparr>
            | SignedPolicy authority lock \<Rightarrow>
                and_then (ok_or (hello_credential hello) MissingCredential) (\<lambda>c.
                  if cr_identity (cr_body c) \<noteq> hello_identity hello
                  then Err (AccessCredential (CredentialInvalidMetadata
                         ''credential application identity differs from session''))
                  else and_then (read_lock lock) (\<lambda>revocations.
                    and_then (map_err AccessCredential
                        (credential_verify_at E c authority revocations expected_role noise_key now_ms)) (\<lambda>_.
                      Ok \<lparr>adm_mode = SignedAccess, adm_expires_at_ms = Some (cr_not_after_ms (cr_body c)),
                          adm_credential_serial = Some (cr_serial (cr_body c))\<rparr>)))))"

definition replace_revocations ::
  "'z credential_env_scheme \<Rightarrow> native_access_policy \<Rightarrow> revocation_list option \<Rightarrow> i64
    \<Rightarrow> native_access_error + native_access_policy" where
  "replace_revocations E policy revocations now_ms =
     (case policy of
        PublicPolicy \<Rightarrow> Err Unavailable
      | SignedPolicy authority lock \<Rightarrow>
          and_then (case revocations of
                      Some l \<Rightarrow> map_err AccessCredential (revocation_verify_at E l authority now_ms)
                    | None \<Rightarrow> Ok ()) (\<lambda>_.
          and_then (read_lock lock) (\<lambda>_. Ok (SignedPolicy authority (Unpoisoned revocations)))))"

definition ensure_active ::
  "'z credential_env_scheme \<Rightarrow> native_access_policy \<Rightarrow> native_admission \<Rightarrow> i64 \<Rightarrow> native_access_error + unit" where
  "ensure_active E policy admission now_ms =
     (case policy of
        PublicPolicy \<Rightarrow> Ok ()
      | SignedPolicy authority lock \<Rightarrow>
          if (case adm_expires_at_ms admission of None \<Rightarrow> True | Some expiry \<Rightarrow> sint now_ms \<ge> sint expiry)
          then Err (AccessCredential Expired)
          else and_then (ok_or (adm_credential_serial admission) Unavailable) (\<lambda>serial.
            and_then (read_lock lock) (\<lambda>current.
              case current of
                None \<Rightarrow> Ok ()
              | Some l \<Rightarrow>
                  and_then (map_err AccessCredential (revocation_verify_at E l authority now_ms)) (\<lambda>_.
                    if binary_search_found (rl_serials (rl_body l)) serial then Err (AccessCredential Revoked)
                    else Ok ()))))"

section \<open>Lemmas\<close>

lemma admit_signed:
  assumes "admit E (SignedPolicy authority lock) hello role key now_ms = Ok adm"
  obtains c revocations where "hello_credential hello = Some c" "lock = Unpoisoned revocations"
    "cr_identity (cr_body c) = hello_identity hello"
    "credential_verify_at E c authority revocations role key now_ms = Ok ()"
    "adm = \<lparr>adm_mode = SignedAccess, adm_expires_at_ms = Some (cr_not_after_ms (cr_body c)),
            adm_credential_serial = Some (cr_serial (cr_body c))\<rparr>"
  using assms that
  by (auto simp: admit_def read_lock_def result_simps split: policy_lock.splits if_splits)

text \<open>An accepted credential stays acceptable but for its expiry and for revocation.\<close>

lemma credential_verify_later:
  assumes "credential_verify_at E c a None role key t0 = Ok ()" and "sint t0 \<le> sint t"
  shows "credential_verify_at E c a None role key t = (if sint (cr_not_after_ms (cr_body c)) \<le> sint t then Err Expired else Ok ())"
  using assms by (auto simp: credential_verify_at_def Let_def result_simps)

lemma ensure_active_list:
  "and_then (revocation_verify_at E l a t) (\<lambda>_. if binary_search_found (rl_serials (rl_body l)) serial then Err Revoked else Ok ())
   = and_then (revocation_verify_at E l a t) (\<lambda>_. if serial \<in> set (rl_serials (rl_body l)) then Err Revoked else Ok ())"
  using binary_search_found_iff [OF revocation_verify_at_sorted [of E l a t]]
  by (cases "revocation_verify_at E l a t") auto

lemma map_err_and_then: "map_err f (and_then r k) = and_then (map_err f r) (\<lambda>x. map_err f (k x))"
  by (cases r) simp_all

text \<open>The recheck of an admitted session, written over the credential it was admitted with.\<close>

lemma ensure_active_admitted:
  assumes "admit E (SignedPolicy authority lock) hello role key admitted_ms = Ok adm"
    and "hello_credential hello = Some c"
  shows "ensure_active E (SignedPolicy authority (Unpoisoned revocations)) adm now_ms =
    map_err AccessCredential
      (if sint (cr_not_after_ms (cr_body c)) \<le> sint now_ms then Err Expired
       else case revocations of None \<Rightarrow> Ok ()
         | Some l \<Rightarrow> and_then (revocation_verify_at E l authority now_ms) (\<lambda>_.
             if cr_serial (cr_body c) \<in> set (rl_serials (rl_body l)) then Err Revoked else Ok ()))"
proof -
  from assms have "adm = \<lparr>adm_mode = SignedAccess, adm_expires_at_ms = Some (cr_not_after_ms (cr_body c)),
      adm_credential_serial = Some (cr_serial (cr_body c))\<rparr>" by (elim admit_signed) auto
  then show ?thesis
    by (cases revocations)
      (simp_all add: ensure_active_def read_lock_def map_err_and_then if_distrib flip: ensure_active_list cong: if_cong)
qed

text \<open>An admitted credential passes without a list, at the admission and until it expires.\<close>

lemma admitted_credential_later:
  assumes "admit E (SignedPolicy authority lock) hello role key admitted_ms = Ok adm"
    and "hello_credential hello = Some c" and "sint admitted_ms \<le> sint now_ms"
  shows "credential_verify_at E c authority None role key now_ms =
    (if sint (cr_not_after_ms (cr_body c)) \<le> sint now_ms then Err Expired else Ok ())"
proof -
  from assms(1,2) obtain earlier where "credential_verify_at E c authority earlier role key admitted_ms = Ok ()"
    by (elim admit_signed) auto
  then have "credential_verify_at E c authority None role key admitted_ms = Ok ()"
    by (cases earlier) (auto simp: credential_verify_at_Some result_simps)
  then show ?thesis by (rule credential_verify_later [OF _ assms(3)])
qed

section \<open>Properties\<close>

text \<open>C26: The cheap recheck of an admitted session decides exactly what verifying the whole credential
  again would decide: at any time from the admission on, and against whatever revocation list the
  relay holds by then, it fails with the same error or succeeds as the full verification does.\<close>

theorem ensure_active_is_full_verification:
  assumes "admit E (SignedPolicy authority lock) hello role key admitted_ms = Ok adm"
    and "hello_credential hello = Some c" and "sint admitted_ms \<le> sint now_ms"
  shows "ensure_active E (SignedPolicy authority (Unpoisoned revocations)) adm now_ms =
    map_err AccessCredential (credential_verify_at E c authority revocations role key now_ms)"
  using admitted_credential_later [OF assms]
  by (cases revocations) (simp_all add: ensure_active_admitted [OF assms(1,2)] credential_verify_at_Some)

text \<open>Later lists the relay takes over that still revoke the serial.  A list it refuses leaves the
  policy as it is.\<close>

inductive still_revoked :: "'z credential_env_scheme \<Rightarrow> array16 \<Rightarrow> native_access_policy \<Rightarrow> native_access_policy \<Rightarrow> bool"
  for E serial where
  still_revoked_replace: "replace_revocations E policy (Some l) now_ms = Ok policy' \<Longrightarrow> serial \<in> set (rl_serials (rl_body l))
    \<Longrightarrow> still_revoked E serial policy policy'"

definition revokes :: "'z credential_env_scheme \<Rightarrow> certificate_authority_public \<Rightarrow> array16 \<Rightarrow> native_access_policy \<Rightarrow> bool" where
  "revokes E authority serial policy \<longleftrightarrow>
     (\<exists>l taken_ms. policy = SignedPolicy authority (Unpoisoned (Some l)) \<and> serial \<in> set (rl_serials (rl_body l)) \<and>
        revocation_verify_at E l authority taken_ms = Ok ())"

lemma replace_revokes:
  assumes "replace_revocations E (SignedPolicy authority lock) (Some l) now_ms = Ok policy"
    and "serial \<in> set (rl_serials (rl_body l))"
  shows "revokes E authority serial policy"
  using assms by (auto simp: replace_revocations_def revokes_def result_simps)

interpretation revocation_machine: invariant_machine "still_revoked E serial" "revokes E authority serial" for E serial authority
proof
  fix policy policy' assume "still_revoked E serial policy policy'" and "revokes E authority serial policy"
  then show "revokes E authority serial policy'"
    by (cases rule: still_revoked.cases) (auto simp: revokes_def [of _ _ _ policy] intro: replace_revokes)
qed

text \<open>A list that was accepted once is judged by the clock alone from then on.\<close>

lemma revocation_verify_again:
  assumes "revocation_verify_at E l authority taken_ms = Ok ()"
  shows "revocation_verify_at E l authority now_ms =
    (if sint now_ms < sint (rl_generated_at_ms (rl_body l)) then Err NotYetValid
     else if sint (rl_expires_at_ms (rl_body l)) \<le> sint now_ms then Err Expired else Ok ())"
  using assms by (auto simp: revocation_verify_at_def Let_def result_simps split: if_splits)

text \<open>C27: Revoking a serial ends the sessions it admitted.  After the relay has taken over a list with
  the serial of an admitted credential, and after any later lists it takes over that still have the
  serial, the session is not accepted at any time; it is refused as revoked while the credential and
  the list in force are current.  It lasts as long as the lists say so: were the list in force
  withdrawn, the session would be accepted until its credential expires.\<close>

theorem revoked_session_ends:
  assumes "admit E (SignedPolicy authority lock) hello role key admitted_ms = Ok adm"
    and "hello_credential hello = Some c" and "cr_serial (cr_body c) \<in> set (rl_serials (rl_body l))"
    and "replace_revocations E (SignedPolicy authority lock) (Some l) taken_ms = Ok policy"
    and "(still_revoked E (cr_serial (cr_body c)))\<^sup>*\<^sup>* policy policy'"
  shows "ensure_active E policy' adm now_ms \<noteq> Ok () \<and>
    (\<exists>l'. policy' = SignedPolicy authority (Unpoisoned (Some l')) \<and> cr_serial (cr_body c) \<in> set (rl_serials (rl_body l')) \<and>
       (sint (rl_generated_at_ms (rl_body l')) \<le> sint now_ms \<and> sint now_ms < sint (rl_expires_at_ms (rl_body l')) \<and>
        sint now_ms < sint (cr_not_after_ms (cr_body c)) \<longrightarrow>
          ensure_active E policy' adm now_ms = Err (AccessCredential Revoked))) \<and>
    (\<exists>withdrawn. replace_revocations E policy' None withdrawn_ms = Ok withdrawn \<and>
       (sint now_ms < sint (cr_not_after_ms (cr_body c)) \<longrightarrow> ensure_active E withdrawn adm now_ms = Ok ()))"
proof -
  from revocation_machine.reachable_inv [OF assms(5) replace_revokes [OF assms(4,3)]]
  obtain l' t where 1: "policy' = SignedPolicy authority (Unpoisoned (Some l'))"
    "cr_serial (cr_body c) \<in> set (rl_serials (rl_body l'))" "revocation_verify_at E l' authority t = Ok ()"
    by (auto simp: revokes_def)
  note active = ensure_active_admitted [OF assms(1,2)]
  have "ensure_active E policy' adm now_ms \<noteq> Ok ()"
    unfolding 1(1) active using 1(2) by (simp add: revocation_verify_again [OF 1(3)])
  moreover have "ensure_active E policy' adm now_ms = Err (AccessCredential Revoked)"
    if "sint (rl_generated_at_ms (rl_body l')) \<le> sint now_ms" "sint now_ms < sint (rl_expires_at_ms (rl_body l'))"
      "sint now_ms < sint (cr_not_after_ms (cr_body c))"
    unfolding 1(1) active using 1(2) that by (simp add: revocation_verify_again [OF 1(3)])
  moreover have "replace_revocations E policy' None withdrawn_ms = Ok (SignedPolicy authority (Unpoisoned None))"
    by (simp add: 1(1) replace_revocations_def read_lock_def)
  ultimately show ?thesis using 1(1,2) active [of None now_ms] by auto
qed

section \<open>A concrete session\<close>

lemma example_admission:
  obtains hello c adm where
    "admit example_credential_env
       (SignedPolicy (authority_public example_credential_env example_authority) (Unpoisoned None)) hello RolePublisher 11 100
       = Ok adm"
    "hello_credential hello = Some c" "cr_serial (cr_body c) = 77" "cr_not_after_ms (cr_body c) = 5000"
proof -
  obtain c where c: "cr_serial (cr_body c) = 77"
    "credential_verify_at example_credential_env c (authority_public example_credential_env example_authority) None
       RolePublisher 11 100 = Ok ()" "cr_not_after_ms (cr_body c) = 5000" by (rule example_accepted)
  let ?hello = "\<lparr>hello_protocol_version = 1, hello_role = RolePublisher, hello_identity = cr_identity (cr_body c),
    hello_credential = Some c\<rparr>"
  have "admit example_credential_env
       (SignedPolicy (authority_public example_credential_env example_authority) (Unpoisoned None)) ?hello RolePublisher 11 100
       = Ok \<lparr>adm_mode = SignedAccess, adm_expires_at_ms = Some (cr_not_after_ms (cr_body c)),
             adm_credential_serial = Some (cr_serial (cr_body c))\<rparr>"
    by (simp add: admit_def read_lock_def c)
  then show thesis by (rule that [OF _ _ c(1,3)]) simp
qed

theorem ensure_active_is_full_verification_witness:
  "\<exists>hello c adm. admit example_credential_env
       (SignedPolicy (authority_public example_credential_env example_authority) (Unpoisoned None)) hello RolePublisher 11 100
       = Ok adm \<and> hello_credential hello = Some c \<and>
     ensure_active example_credential_env
       (SignedPolicy (authority_public example_credential_env example_authority) (Unpoisoned None)) adm 200 =
     map_err AccessCredential (credential_verify_at example_credential_env c
       (authority_public example_credential_env example_authority) None RolePublisher 11 200)"
proof -
  obtain hello c adm where 1: "admit example_credential_env
       (SignedPolicy (authority_public example_credential_env example_authority) (Unpoisoned None)) hello RolePublisher 11 100
       = Ok adm" "hello_credential hello = Some c" by (rule example_admission)
  from ensure_active_is_full_verification [OF this, of 200 None] 1 show ?thesis by auto
qed

theorem revoked_session_ends_witness:
  "\<exists>hello c adm l. admit example_credential_env
       (SignedPolicy (authority_public example_credential_env example_authority) (Unpoisoned None)) hello RolePublisher 11 100
       = Ok adm \<and> hello_credential hello = Some c \<and> cr_not_after_ms (cr_body c) = 5000 \<and>
     sign_revocations example_credential_env example_authority 0 1000 [80, 77] = Ok l \<and>
     ensure_active example_credential_env
       (SignedPolicy (authority_public example_credential_env example_authority) (Unpoisoned (Some l))) adm 200
       = Err (AccessCredential Revoked)"
proof -
  let ?authority = "authority_public example_credential_env example_authority"
  obtain hello c adm where 1: "admit example_credential_env (SignedPolicy ?authority (Unpoisoned None)) hello RolePublisher 11 100
       = Ok adm" "hello_credential hello = Some c" "cr_serial (cr_body c) = 77" "cr_not_after_ms (cr_body c) = 5000"
    by (rule example_admission)
  from example_revocations obtain l where
    l: "sign_revocations example_credential_env example_authority 0 1000 [80, 77] = Ok l"
    by (auto simp: is_ok_iff)
  note verify = signed_revocations_verify [OF example_credential_env_ok(2) l]
  have serial: "cr_serial (cr_body c) \<in> set (rl_serials (rl_body l))" by (simp add: verify(2) 1(3))
  have replaced: "replace_revocations example_credential_env (SignedPolicy ?authority lock) (Some l) t
      = Ok (SignedPolicy ?authority (Unpoisoned (Some l)))" if "lock = Unpoisoned r" "sint t = 150 \<or> sint t = 160" for lock r t
    using that by (auto simp: replace_revocations_def read_lock_def verify(1))
  have later: "(still_revoked example_credential_env (cr_serial (cr_body c)))\<^sup>*\<^sup>*
      (SignedPolicy ?authority (Unpoisoned (Some l))) (SignedPolicy ?authority (Unpoisoned (Some l)))"
    by (rule r_into_rtranclp, rule still_revoked_replace [OF replaced [of _ _ 160] serial]) simp_all
  have times: "rl_generated_at_ms (rl_body l) = 0" "rl_expires_at_ms (rl_body l) = 1000"
    using l by (elim sign_revocations_ok, simp)+
  have taken: "replace_revocations example_credential_env (SignedPolicy ?authority (Unpoisoned None)) (Some l) 150
      = Ok (SignedPolicy ?authority (Unpoisoned (Some l)))" by (rule replaced) simp_all
  have "ensure_active example_credential_env (SignedPolicy ?authority (Unpoisoned (Some l))) adm 200
      = Err (AccessCredential Revoked)"
    using revoked_session_ends [where now_ms = 200, OF 1(1,2) serial taken later] 1(4) times by auto
  with 1 l show ?thesis by auto
qed

end
