(* ===== verification/PairingStore.thy ===== *)
theory PairingStore
  imports Wire "HOL-Library.Product_Lexorder"
begin

text \<open>
  \<^verbatim>\<open>crates/relay/src/pairing_store.rs\<close>: the relay's durable queue of pairing ceremonies between
  viewers and publishers that need not be online together.

  The table \<^verbatim>\<open>pair_requests\<close> is the list of its rows.  An operation is one immediate transaction: it
  returns the new table, or an error and the old table stays.  A timestamp column is an \<open>i64\<close>, and
  SQL compares it as \<open>sint\<close>; identifiers compare as blobs, that is as words.  Printing and parsing
  the peer's socket address is a parameter, as is the serialization of the records.
\<close>

section \<open>Data\<close>

definition MAX_PENDING_GLOBAL :: nat where
  "MAX_PENDING_GLOBAL = 16384"

definition MAX_PENDING_PER_PUBLISHER :: nat where
  "MAX_PENDING_PER_PUBLISHER = 1024"

definition MAX_REQUESTS_PER_MINUTE :: nat where
  "MAX_REQUESTS_PER_MINUTE = 10"

definition MAX_INBOX_RECORDS :: nat where
  "MAX_INBOX_RECORDS = 4096"

definition DECISION_RETENTION_MS :: i64 where
  "DECISION_RETENTION_MS = 30 * 24 * 60 * 60 * 1000"

record pair_request_delivery =
  del_request :: pair_request
  del_source_addr :: socket_addr
  del_received_at_ms :: i64

record publisher_pairing_inbox =
  inbox_requests :: "pair_request_delivery list"
  inbox_confirmations :: "viewer_confirmation list"

record viewer_pairing_inbox =
  inbox_offers :: "pair_offer list"
  inbox_decisions :: "publisher_decision list"

record pair_row =
  pq_request_id :: array32
  pq_publisher_id :: array32
  pq_viewer_id :: array32
  pq_source_addr :: rust_str
  pq_received_at_ms :: i64
  pq_expires_at_ms :: i64
  pq_request :: bytes
  pq_offer :: "bytes option"
  pq_confirmation :: "bytes option"
  pq_decision :: "bytes option"
  pq_decided_at_ms :: "i64 option"

type_synonym pairing_db = "pair_row list"

datatype pairing_store_error =
    PsRefused string
  | PsPairing pairing_error
  | PsIdentity identity_error
  | PsPostcard
  | PsConstraint
  | PsAddress

record pairing_store_env = wire_env +
  pair_offer_codec :: "pair_offer postcard"
  confirmation_codec :: "viewer_confirmation postcard"
  decision_codec :: "publisher_decision postcard"
  source_text :: "socket_addr \<Rightarrow> rust_str"
  source_parse :: "rust_str \<Rightarrow> socket_addr option"

section \<open>Rows\<close>

definition encode_pair :: "'a postcard \<Rightarrow> 'a \<Rightarrow> pairing_store_error + bytes" where
  "encode_pair c v =
     and_then (ok_or (to_stdvec c v) PsPostcard) (\<lambda>encoded.
       if length encoded > MAX_PAIRING_MESSAGE_LEN then Err (PsRefused ''pairing record exceeds its bound'')
       else Ok encoded)"

definition decode_pair :: "'a postcard \<Rightarrow> bytes \<Rightarrow> pairing_store_error + 'a" where
  "decode_pair c bs =
     (if length bs > MAX_PAIRING_MESSAGE_LEN then Err (PsRefused ''pairing record exceeds its bound'')
      else and_then (ok_or (take_from_bytes c bs) PsPostcard) (\<lambda>(v, remainder).
        if remainder \<noteq> [] then Err (PsRefused ''pairing record is trailing or noncanonical'')
        else and_then (ok_or (to_stdvec c v) PsPostcard) (\<lambda>encoded.
          if encoded \<noteq> bs then Err (PsRefused ''pairing record is trailing or noncanonical'')
          else Ok v)))"

definition find_row :: "pairing_db \<Rightarrow> array32 \<Rightarrow> pair_row option" where
  "find_row db rid = find (\<lambda>r. pq_request_id r = rid) db"

definition update_row :: "(pair_row \<Rightarrow> pair_row) \<Rightarrow> array32 \<Rightarrow> pairing_db \<Rightarrow> pairing_db" where
  "update_row f rid db = map (\<lambda>r. if pq_request_id r = rid then f r else r) db"

definition purgeable :: "i64 \<Rightarrow> pair_row \<Rightarrow> bool" where
  "purgeable now_ms r \<longleftrightarrow>
     (case pq_decision r of
        None \<Rightarrow> sint (pq_expires_at_ms r) \<le> sint now_ms
      | Some _ \<Rightarrow> (case pq_decided_at_ms r of
                     None \<Rightarrow> False
                   | Some t \<Rightarrow> sint t < sint (saturating_sub_i64 now_ms DECISION_RETENTION_MS)))"

definition purge :: "pairing_db \<Rightarrow> i64 \<Rightarrow> pairing_db" where
  "purge db now_ms = filter (\<lambda>r. \<not> purgeable now_ms r) db"

text \<open>The row is inserted under the constraints of the schema: the primary key, and the length of the
  address, which SQLite counts up to the first NUL.\<close>

definition insert_row :: "pair_row \<Rightarrow> pairing_db \<Rightarrow> pairing_store_error + pairing_db" where
  "insert_row r db =
     (let len = length (takeWhile (\<lambda>c. c \<noteq> 0) (pq_source_addr r))
      in if find_row db (pq_request_id r) \<noteq> None \<or> len < 3 \<or> 128 < len then Err PsConstraint
         else Ok (db @ [r]))"

definition require_count_below ::
  "pairing_db \<Rightarrow> (pair_row \<Rightarrow> bool) \<Rightarrow> nat \<Rightarrow> string \<Rightarrow> pairing_store_error + unit" where
  "require_count_below db sql_where limit error =
     (if length (filter sql_where db) \<ge> limit then Err (PsRefused error) else Ok ())"

definition request_by_id ::
  "'z pairing_store_env_scheme \<Rightarrow> pairing_db \<Rightarrow> array32 \<Rightarrow> pairing_store_error + pair_request option" where
  "request_by_id E db rid =
     (case find_row db rid of
        None \<Rightarrow> Ok None
      | Some r \<Rightarrow> and_then (decode_pair (pair_request_codec E) (pq_request r)) (\<lambda>v. Ok (Some v)))"

definition offer_by_id ::
  "'z pairing_store_env_scheme \<Rightarrow> pairing_db \<Rightarrow> array32 \<Rightarrow> pairing_store_error + pair_offer option" where
  "offer_by_id E db rid =
     (case Option.bind (find_row db rid) pq_offer of
        None \<Rightarrow> Ok None
      | Some encoded \<Rightarrow> and_then (decode_pair (pair_offer_codec E) encoded) (\<lambda>v. Ok (Some v)))"

definition confirmation_by_id ::
  "'z pairing_store_env_scheme \<Rightarrow> pairing_db \<Rightarrow> array32 \<Rightarrow> pairing_store_error + viewer_confirmation option" where
  "confirmation_by_id E db rid =
     (case Option.bind (find_row db rid) pq_confirmation of
        None \<Rightarrow> Ok None
      | Some encoded \<Rightarrow> and_then (decode_pair (confirmation_codec E) encoded) (\<lambda>v. Ok (Some v)))"

definition column_access ::
  "string \<Rightarrow> ((pair_row \<Rightarrow> bytes option) \<times> (bytes \<Rightarrow> pair_row \<Rightarrow> pair_row)) option" where
  "column_access column =
     (if column = ''offer'' then Some (pq_offer, \<lambda>e r. r\<lparr>pq_offer := Some e\<rparr>)
      else if column = ''confirmation'' then Some (pq_confirmation, \<lambda>e r. r\<lparr>pq_confirmation := Some e\<rparr>)
      else None)"

definition store_once ::
  "pairing_db \<Rightarrow> string \<Rightarrow> array32 \<Rightarrow> bytes \<Rightarrow> pairing_store_error + pairing_db \<times> bool" where
  "store_once db column rid encoded =
     (case column_access column of
        None \<Rightarrow> Err (PsRefused ''unsupported pairing column'')
      | Some (get, put) \<Rightarrow>
          (case map_option get (find_row db rid) of
             Some (Some existing) \<Rightarrow> Ok (db, False)
           | None \<Rightarrow> Err (PsRefused ''pairing request no longer exists'')
           | Some None \<Rightarrow> Ok (update_row (put encoded) rid db, True)))"

section \<open>Operations\<close>

definition enqueue_request ::
  "'z pairing_store_env_scheme \<Rightarrow> pairing_db \<Rightarrow> pair_request \<Rightarrow> socket_addr \<Rightarrow> i64 \<Rightarrow> i64
    \<Rightarrow> pairing_store_error + pairing_db \<times> bool" where
  "enqueue_request E db request source_addr now_ms max_lifetime_ms =
     and_then (map_err PsPairing (pair_request_verify E request now_ms max_lifetime_ms)) (\<lambda>_.
     and_then (encode_pair (pair_request_codec E) request) (\<lambda>encoded.
     and_then (map_err PsPairing (pair_request_id E request)) (\<lambda>request_id.
     and_then (map_err PsIdentity (identity_id E (pr_publisher (pr_body request)))) (\<lambda>publisher_id.
     and_then (map_err PsIdentity (identity_id E (pr_viewer (pr_body request)))) (\<lambda>viewer_id.
       let db = purge db now_ms;
           source = source_text E source_addr;
           window_start = saturating_sub_i64 now_ms 60000
       in (case find_row db request_id of
             Some existing \<Rightarrow>
               if pq_request existing \<noteq> encoded
               then Err (PsRefused ''pair request ID conflicts with different signed content'')
               else Ok (db, False)
           | None \<Rightarrow>
               and_then (require_count_below db (\<lambda>r. pq_decision r = None) MAX_PENDING_GLOBAL
                           ''global pending pairing queue is full'') (\<lambda>_.
               and_then (require_count_below db
                           (\<lambda>r. pq_publisher_id r = publisher_id \<and> pq_decision r = None)
                           MAX_PENDING_PER_PUBLISHER ''publisher pending pairing queue is full'') (\<lambda>_.
               and_then (require_count_below db
                           (\<lambda>r. pq_source_addr r = source \<and> sint window_start \<le> sint (pq_received_at_ms r))
                           MAX_REQUESTS_PER_MINUTE ''pairing source rate limit exceeded'') (\<lambda>_.
               and_then (require_count_below db
                           (\<lambda>r. pq_viewer_id r = viewer_id \<and> sint window_start \<le> sint (pq_received_at_ms r))
                           MAX_REQUESTS_PER_MINUTE ''pairing identity rate limit exceeded'') (\<lambda>_.
               and_then (insert_row \<lparr>pq_request_id = request_id, pq_publisher_id = publisher_id,
                             pq_viewer_id = viewer_id, pq_source_addr = source, pq_received_at_ms = now_ms,
                             pq_expires_at_ms = pr_expires_at_ms (pr_body request), pq_request = encoded,
                             pq_offer = None, pq_confirmation = None, pq_decision = None,
                             pq_decided_at_ms = None\<rparr> db)
                 (\<lambda>db. Ok (db, True))))))))))))"

definition store_offer ::
  "'z pairing_store_env_scheme \<Rightarrow> pairing_db \<Rightarrow> pair_offer \<Rightarrow> i64 \<Rightarrow> i64
    \<Rightarrow> pairing_store_error + pairing_db \<times> bool" where
  "store_offer E db offer now_ms max_lifetime_ms =
     (let db = purge db now_ms; rid = po_request_id (po_body offer)
      in and_then (and_then (request_by_id E db rid)
           (\<lambda>found. ok_or found (PsRefused ''pair offer request is not pending''))) (\<lambda>request.
         and_then (map_err PsPairing (pair_offer_verify E offer request now_ms max_lifetime_ms)) (\<lambda>_.
         and_then (encode_pair (pair_offer_codec E) offer) (\<lambda>encoded.
           store_once db ''offer'' rid encoded))))"

definition store_confirmation ::
  "'z pairing_store_env_scheme \<Rightarrow> pairing_db \<Rightarrow> viewer_confirmation \<Rightarrow> i64
    \<Rightarrow> pairing_store_error + pairing_db \<times> bool" where
  "store_confirmation E db confirmation now_ms =
     (let db = purge db now_ms; rid = vc_request_id (vc_body confirmation)
      in and_then (and_then (request_by_id E db rid)
           (\<lambda>found. ok_or found (PsRefused ''viewer confirmation request is not pending''))) (\<lambda>request.
         and_then (and_then (offer_by_id E db rid)
           (\<lambda>found. ok_or found (PsRefused ''viewer confirmation has no publisher offer''))) (\<lambda>offer.
         and_then (map_err PsPairing (confirmation_verify E confirmation request offer)) (\<lambda>_.
         and_then (encode_pair (confirmation_codec E) confirmation) (\<lambda>encoded.
           store_once db ''confirmation'' rid encoded)))))"

text \<open>What a manual approval has to match: the stored offer and the stored confirmation.\<close>

definition check_manual ::
  "'z pairing_store_env_scheme \<Rightarrow> pairing_db \<Rightarrow> publisher_decision \<Rightarrow> pair_request
    \<Rightarrow> pairing_store_error + unit" where
  "check_manual E db decision request =
     (let rid = pd_request_id (pd_body decision)
      in and_then (and_then (offer_by_id E db rid)
           (\<lambda>found. ok_or found (PsRefused ''manual publisher decision has no offer''))) (\<lambda>offer.
         and_then (and_then (confirmation_by_id E db rid)
           (\<lambda>found. ok_or found (PsRefused ''manual publisher decision has no viewer confirmation''))) (\<lambda>confirmation.
         and_then (map_err PsPairing (confirmation_verify E confirmation request offer)) (\<lambda>_.
         and_then (map_err PsPairing (transcript_hash E request offer)) (\<lambda>hash.
           if pd_transcript_hash (pd_body decision) \<noteq> hash
           then Err (PsRefused ''publisher decision transcript does not match stored ceremony'')
           else Ok ())))))"

definition store_decision ::
  "'z pairing_store_env_scheme \<Rightarrow> pairing_db \<Rightarrow> publisher_decision \<Rightarrow> i64
    \<Rightarrow> pairing_store_error + pairing_db \<times> bool" where
  "store_decision E db decision now_ms =
     (let db = purge db now_ms; rid = pd_request_id (pd_body decision)
      in and_then (and_then (request_by_id E db rid)
           (\<lambda>found. ok_or found (PsRefused ''publisher decision request is unknown''))) (\<lambda>request.
         and_then (map_err PsPairing (decision_verify E decision request (pr_publisher (pr_body request)))) (\<lambda>_.
         and_then (if pd_reason (pd_body decision) = ManualVerified then check_manual E db decision request
                   else Ok ()) (\<lambda>_.
         and_then (encode_pair (decision_codec E) decision) (\<lambda>encoded.
           case Option.bind (find_row db rid) pq_decision of
             Some existing \<Rightarrow> Ok (db, False)
           | None \<Rightarrow> Ok (update_row (\<lambda>r. r\<lparr>pq_decision := Some encoded, pq_decided_at_ms := Some now_ms\<rparr>) rid db,
                        True))))))"

text \<open>\<^verbatim>\<open>ORDER BY received_at_ms, request_id\<close>\<close>

definition delivery_order :: "pairing_db \<Rightarrow> pairing_db" where
  "delivery_order db = sort_key (\<lambda>r. (sint (pq_received_at_ms r), pq_request_id r)) db"

definition deliver_row ::
  "'z pairing_store_env_scheme \<Rightarrow> i64 \<Rightarrow> pair_row
    \<Rightarrow> pairing_store_error + pair_request_delivery \<times> viewer_confirmation option" where
  "deliver_row E now_ms r =
     and_then (decode_pair (pair_request_codec E) (pq_request r)) (\<lambda>request.
     and_then (ok_or (checked_sub_i64 (pr_expires_at_ms (pr_body request)) (pr_issued_at_ms (pr_body request)))
                 (PsRefused ''queued pair request has an invalid lifetime'')) (\<lambda>lifetime.
     and_then (map_err PsPairing (pair_request_verify E request now_ms lifetime)) (\<lambda>_.
     and_then (ok_or (source_parse E (pq_source_addr r)) PsAddress) (\<lambda>addr.
       let delivery = \<lparr>del_request = request, del_source_addr = addr, del_received_at_ms = pq_received_at_ms r\<rparr>
       in (case pq_confirmation r of
             None \<Rightarrow> Ok (delivery, None)
           | Some encoded \<Rightarrow>
               and_then (decode_pair (confirmation_codec E) encoded) (\<lambda>c. Ok (delivery, Some c)))))))"

definition somes :: "'a option list \<Rightarrow> 'a list" where
  "somes xs = concat (map (\<lambda>x. case x of None \<Rightarrow> [] | Some y \<Rightarrow> [y]) xs)"

definition publisher_inbox ::
  "'z pairing_store_env_scheme \<Rightarrow> pairing_db \<Rightarrow> identity_public \<Rightarrow> i64
    \<Rightarrow> pairing_store_error + pairing_db \<times> publisher_pairing_inbox" where
  "publisher_inbox E db publisher now_ms =
     and_then (map_err PsIdentity (identity_id E publisher)) (\<lambda>publisher_id.
       let db = purge db now_ms;
           rows = take MAX_INBOX_RECORDS (delivery_order
                    (filter (\<lambda>r. pq_publisher_id r = publisher_id \<and> pq_decision r = None) db))
       in and_then (try_map (deliver_row E now_ms) rows) (\<lambda>deliveries.
            Ok (db, \<lparr>inbox_requests = map fst deliveries, inbox_confirmations = somes (map snd deliveries)\<rparr>)))"

definition decode_optional :: "'a postcard \<Rightarrow> bytes option \<Rightarrow> pairing_store_error + 'a option" where
  "decode_optional c column =
     (case column of None \<Rightarrow> Ok None | Some encoded \<Rightarrow> and_then (decode_pair c encoded) (\<lambda>v. Ok (Some v)))"

definition viewer_inbox ::
  "'z pairing_store_env_scheme \<Rightarrow> pairing_db \<Rightarrow> identity_public \<Rightarrow> i64
    \<Rightarrow> pairing_store_error + pairing_db \<times> viewer_pairing_inbox" where
  "viewer_inbox E db viewer now_ms =
     and_then (map_err PsIdentity (identity_id E viewer)) (\<lambda>viewer_id.
       let db = purge db now_ms;
           rows = take MAX_INBOX_RECORDS (delivery_order
                    (filter (\<lambda>r. pq_viewer_id r = viewer_id \<and> (pq_offer r \<noteq> None \<or> pq_decision r \<noteq> None)) db))
       in and_then (try_map (\<lambda>r.
              and_then (decode_optional (pair_offer_codec E) (pq_offer r)) (\<lambda>offer.
              and_then (decode_optional (decision_codec E) (pq_decision r)) (\<lambda>decision. Ok (offer, decision)))) rows)
            (\<lambda>found. Ok (db, \<lparr>inbox_offers = somes (map fst found), inbox_decisions = somes (map snd found)\<rparr>)))"

section \<open>The store as a state machine\<close>

text \<open>The state is the table and the time of the last transaction; the relay's clock does not run
  backwards.\<close>

inductive pairing_step :: "'z pairing_store_env_scheme \<Rightarrow> pairing_db \<times> i64 \<Rightarrow> pairing_db \<times> i64 \<Rightarrow> bool" for E where
  step_enqueue: "enqueue_request E db request addr now_ms limit = Ok (db', fresh) \<Longrightarrow> sint t \<le> sint now_ms
    \<Longrightarrow> pairing_step E (db, t) (db', now_ms)"
| step_offer: "store_offer E db offer now_ms limit = Ok (db', fresh) \<Longrightarrow> sint t \<le> sint now_ms
    \<Longrightarrow> pairing_step E (db, t) (db', now_ms)"
| step_confirmation: "store_confirmation E db confirmation now_ms = Ok (db', fresh) \<Longrightarrow> sint t \<le> sint now_ms
    \<Longrightarrow> pairing_step E (db, t) (db', now_ms)"
| step_decision: "store_decision E db decision now_ms = Ok (db', fresh) \<Longrightarrow> sint t \<le> sint now_ms
    \<Longrightarrow> pairing_step E (db, t) (db', now_ms)"
| step_publisher_inbox: "publisher_inbox E db publisher now_ms = Ok (db', inbox) \<Longrightarrow> sint t \<le> sint now_ms
    \<Longrightarrow> pairing_step E (db, t) (db', now_ms)"
| step_viewer_inbox: "viewer_inbox E db viewer now_ms = Ok (db', found) \<Longrightarrow> sint t \<le> sint now_ms
    \<Longrightarrow> pairing_step E (db, t) (db', now_ms)"

inductive_cases pairing_stepE: "pairing_step E (db, t) (db', t')"

section \<open>Invariant\<close>

text \<open>What the relay relies on of the serializers and of the text of socket addresses: a printed
  address parses, not necessarily to the address that was printed, since the text of an IPv6 address
  leaves its flow label out.\<close>

definition pairing_store_env_ok :: "'z pairing_store_env_scheme \<Rightarrow> bool" where
  "pairing_store_env_ok E \<longleftrightarrow>
     postcard_ok (pair_request_codec E) \<and> postcard_ok (pair_offer_codec E) \<and>
     postcard_ok (confirmation_codec E) \<and> postcard_ok (decision_codec E) \<and>
     (\<forall>a. source_parse E (source_text E a) \<noteq> None)"

definition request_queued :: "'z pairing_store_env_scheme \<Rightarrow> i64 \<Rightarrow> pair_row \<Rightarrow> pair_request \<Rightarrow> bool" where
  "request_queued E t r request \<longleftrightarrow>
     decode_pair (pair_request_codec E) (pq_request r) = Ok request \<and>
     pair_request_id E request = Ok (pq_request_id r) \<and>
     identity_id E (pr_publisher (pr_body request)) = Ok (pq_publisher_id r) \<and>
     identity_id E (pr_viewer (pr_body request)) = Ok (pq_viewer_id r) \<and>
     pq_expires_at_ms r = pr_expires_at_ms (pr_body request) \<and>
     (\<exists>limit. pair_request_verify E request (pq_received_at_ms r) limit = Ok ()) \<and>
     sint (pq_received_at_ms r) \<le> sint t \<and> source_parse E (pq_source_addr r) \<noteq> None"

definition offer_queued :: "'z pairing_store_env_scheme \<Rightarrow> pair_row \<Rightarrow> pair_request \<Rightarrow> pair_offer \<Rightarrow> bool" where
  "offer_queued E r request offer \<longleftrightarrow>
     decode_optional (pair_offer_codec E) (pq_offer r) = Ok (Some offer) \<and>
     (\<exists>now_ms limit. pair_offer_verify E offer request now_ms limit = Ok ())"

definition confirmation_queued ::
  "'z pairing_store_env_scheme \<Rightarrow> pair_row \<Rightarrow> pair_request \<Rightarrow> pair_offer \<Rightarrow> viewer_confirmation \<Rightarrow> bool" where
  "confirmation_queued E r request offer c \<longleftrightarrow>
     offer_queued E r request offer \<and>
     decode_optional (confirmation_codec E) (pq_confirmation r) = Ok (Some c) \<and>
     confirmation_verify E c request offer = Ok ()"

definition decision_queued ::
  "'z pairing_store_env_scheme \<Rightarrow> pair_row \<Rightarrow> pair_request \<Rightarrow> publisher_decision \<Rightarrow> bool" where
  "decision_queued E r request d \<longleftrightarrow>
     decode_optional (decision_codec E) (pq_decision r) = Ok (Some d) \<and>
     decision_verify E d request (pr_publisher (pr_body request)) = Ok () \<and>
     (pd_reason (pd_body d) = ManualVerified \<longrightarrow>
        (\<exists>offer c. confirmation_queued E r request offer c \<and>
           transcript_hash E request offer = Ok (pd_transcript_hash (pd_body d))))"

definition row_ok :: "'z pairing_store_env_scheme \<Rightarrow> i64 \<Rightarrow> pair_row \<Rightarrow> bool" where
  "row_ok E t r \<longleftrightarrow>
     (\<exists>request. request_queued E t r request \<and>
        (pq_offer r \<noteq> None \<longrightarrow> (\<exists>offer. offer_queued E r request offer)) \<and>
        (pq_confirmation r \<noteq> None \<longrightarrow> (\<exists>offer c. confirmation_queued E r request offer c)) \<and>
        (pq_decision r \<noteq> None \<longrightarrow> (\<exists>d. decision_queued E r request d)))"

definition rate_bounded :: "(pair_row \<Rightarrow> 'k) \<Rightarrow> pairing_db \<Rightarrow> bool" where
  "rate_bounded key db \<longleftrightarrow>
     (\<forall>k w. length (filter (\<lambda>r. key r = k \<and> w \<le> sint (pq_received_at_ms r) \<and> sint (pq_received_at_ms r) \<le> w + 60000) db)
        \<le> MAX_REQUESTS_PER_MINUTE)"

definition pending_bounded :: "pairing_db \<Rightarrow> bool" where
  "pending_bounded db \<longleftrightarrow>
     length (filter (\<lambda>r. pq_decision r = None) db) \<le> MAX_PENDING_GLOBAL \<and>
     (\<forall>p. length (filter (\<lambda>r. pq_publisher_id r = p \<and> pq_decision r = None) db) \<le> MAX_PENDING_PER_PUBLISHER)"

definition pairing_inv :: "'z pairing_store_env_scheme \<Rightarrow> pairing_db \<times> i64 \<Rightarrow> bool" where
  "pairing_inv E s \<longleftrightarrow>
     (case s of (db, t) \<Rightarrow>
        distinct (map pq_request_id db) \<and> (\<forall>r\<in>set db. row_ok E t r) \<and> pending_bounded db \<and>
        rate_bounded pq_source_addr db \<and> rate_bounded pq_viewer_id db)"

section \<open>Lemmas\<close>

interpretation pair_record_format: canonical_format codec "encode_pair codec" "decode_pair codec" for codec
  by unfold_locales (auto simp: encode_pair_def decode_pair_def result_simps dest: postcard_okD_exact)

lemma find_row_Some:
  "find_row db rid = Some r \<Longrightarrow> r \<in> set db \<and> pq_request_id r = rid"
  by (auto simp: find_row_def find_Some_iff)

lemma find_row_None: "find_row db rid = None \<longleftrightarrow> rid \<notin> pq_request_id ` set db"
  by (auto simp: find_row_def find_None_iff)

lemma find_row_distinct:
  assumes "distinct (map pq_request_id db)" and "r \<in> set db"
  shows "find_row db (pq_request_id r) = Some r"
proof (cases "find_row db (pq_request_id r)")
  case None
  with assms(2) show ?thesis by (auto simp: find_row_None)
next
  case (Some r')
  then show ?thesis using find_row_Some [OF Some] assms
    by (metis distinct_map inj_on_def)
qed

text \<open>Counts of a \<^verbatim>\<open>WHERE\<close> clause only fall when rows go, and when rows change away from it.\<close>

lemma count_filter: "length (filter P (filter Q xs)) \<le> length (filter P xs)"
  by (induction xs) auto

lemma count_mono: "(\<And>x. x \<in> set xs \<Longrightarrow> P x \<Longrightarrow> Q x) \<Longrightarrow> length (filter P xs) \<le> length (filter Q xs)"
  by (induction xs) auto

lemma count_map: "(\<And>x. P (g x) \<Longrightarrow> Q x) \<Longrightarrow> length (filter P (map g xs)) \<le> length (filter Q xs)"
  by (induction xs) auto

lemma rate_bounded_filter: "rate_bounded key db \<Longrightarrow> rate_bounded key (filter P db)"
  unfolding rate_bounded_def using count_filter le_trans by blast

lemma pending_bounded_filter: "pending_bounded db \<Longrightarrow> pending_bounded (filter P db)"
  unfolding pending_bounded_def using count_filter le_trans by blast

lemma rate_bounded_map:
  assumes "rate_bounded key db" and "\<And>r. key (g r) = key r" and "\<And>r. pq_received_at_ms (g r) = pq_received_at_ms r"
  shows "rate_bounded key (map g db)"
  unfolding rate_bounded_def
proof (intro allI)
  fix k w
  let ?P = "\<lambda>r. key r = k \<and> w \<le> sint (pq_received_at_ms r) \<and> sint (pq_received_at_ms r) \<le> w + 60000"
  have "length (filter ?P (map g db)) \<le> length (filter ?P db)" by (rule count_map) (simp add: assms)
  also have "\<dots> \<le> MAX_REQUESTS_PER_MINUTE" using assms(1) by (simp add: rate_bounded_def)
  finally show "length (filter ?P (map g db)) \<le> MAX_REQUESTS_PER_MINUTE" .
qed

text \<open>A request that passed the rolling window at the newest time keeps every window bounded.\<close>

lemma rate_bounded_snoc:
  assumes "rate_bounded key db" and "\<And>r. r \<in> set db \<Longrightarrow> sint (pq_received_at_ms r) \<le> sint (pq_received_at_ms n)"
    and "length (filter (\<lambda>r. key r = key n \<and> sint (saturating_sub_i64 (pq_received_at_ms n) 60000) \<le> sint (pq_received_at_ms r)) db)
      < MAX_REQUESTS_PER_MINUTE"
  shows "rate_bounded key (db @ [n])"
  unfolding rate_bounded_def
proof (intro allI)
  fix k w
  let ?P = "\<lambda>r. key r = k \<and> w \<le> sint (pq_received_at_ms r) \<and> sint (pq_received_at_ms r) \<le> w + 60000"
  have old: "length (filter ?P db) \<le> MAX_REQUESTS_PER_MINUTE" using assms(1) by (simp add: rate_bounded_def)
  show "length (filter ?P (db @ [n])) \<le> MAX_REQUESTS_PER_MINUTE"
  proof (cases "?P n")
    case True
    have "length (filter ?P db) \<le> length (filter (\<lambda>r. key r = key n \<and>
        sint (saturating_sub_i64 (pq_received_at_ms n) 60000) \<le> sint (pq_received_at_ms r)) db)"
      by (rule count_mono) (use True sint_i64_bounds in \<open>auto simp: sint_saturating_sub_i64\<close>)
    with assms(3) True show ?thesis by simp
  next
    case False
    with old show ?thesis by auto
  qed
qed

lemma row_ok_later: "row_ok E t r \<Longrightarrow> sint t \<le> sint t' \<Longrightarrow> row_ok E t' r"
  unfolding row_ok_def request_queued_def by (meson order_trans)

lemma purge_inv: "pairing_inv E (db, t) \<Longrightarrow> sint t \<le> sint now_ms \<Longrightarrow> pairing_inv E (purge db now_ms, now_ms)"
  by (auto simp: pairing_inv_def purge_def pending_bounded_filter rate_bounded_filter distinct_map_filter
      intro: row_ok_later)

lemma update_row_inv:
  assumes "pairing_inv E (db, t)"
    and "\<And>r. r \<in> set db \<Longrightarrow> pq_request_id r = rid \<Longrightarrow> row_ok E t (f r)"
    and "\<And>r. pq_request_id (f r) = pq_request_id r" "\<And>r. pq_publisher_id (f r) = pq_publisher_id r"
    and "\<And>r. pq_source_addr (f r) = pq_source_addr r" "\<And>r. pq_viewer_id (f r) = pq_viewer_id r"
    and "\<And>r. pq_received_at_ms (f r) = pq_received_at_ms r"
    and "\<And>r. pq_decision (f r) = None \<Longrightarrow> pq_decision r = None"
  shows "pairing_inv E (update_row f rid db, t)"
proof -
  let ?g = "\<lambda>r. if pq_request_id r = rid then f r else r"
  have rate: "rate_bounded pq_source_addr (map ?g db)" "rate_bounded pq_viewer_id (map ?g db)"
    by (rule rate_bounded_map; use assms(1,5-7) in \<open>simp add: pairing_inv_def\<close>)+
  have pending: "length (filter (\<lambda>r. Q (pq_publisher_id r) \<and> pq_decision r = None) (map ?g db))
      \<le> length (filter (\<lambda>r. Q (pq_publisher_id r) \<and> pq_decision r = None) db)" for Q
    by (rule count_map) (use assms(4,8) in \<open>auto split: if_splits\<close>)
  have "pending_bounded (map ?g db)"
    using assms(1) pending [of "\<lambda>_. True"] pending [of "\<lambda>p. p = _"]
    unfolding pairing_inv_def pending_bounded_def by simp (meson le_trans)
  moreover have "map pq_request_id (map ?g db) = map pq_request_id db" using assms(3) by simp
  moreover have "\<forall>r\<in>set (map ?g db). row_ok E t r" using assms(1,2) by (auto simp: pairing_inv_def)
  ultimately show ?thesis
    using assms(1) rate unfolding pairing_inv_def update_row_def prod.case by (simp only: simp_thms)
qed

text \<open>What a successful operation found and did.\<close>

lemma request_by_id_Some:
  "and_then (request_by_id E db rid) (\<lambda>found. ok_or found e) = Ok request \<longleftrightarrow>
     (\<exists>r. find_row db rid = Some r \<and> decode_pair (pair_request_codec E) (pq_request r) = Ok request)"
  by (auto simp: request_by_id_def result_simps split: option.splits)

lemma offer_by_id_Some:
  "and_then (offer_by_id E db rid) (\<lambda>found. ok_or found e) = Ok offer \<longleftrightarrow>
     (\<exists>r. find_row db rid = Some r \<and> decode_optional (pair_offer_codec E) (pq_offer r) = Ok (Some offer))"
  by (auto simp: offer_by_id_def decode_optional_def result_simps bind_eq_Some_conv split: option.splits)

lemma confirmation_by_id_Some:
  "and_then (confirmation_by_id E db rid) (\<lambda>found. ok_or found e) = Ok c \<longleftrightarrow>
     (\<exists>r. find_row db rid = Some r \<and> decode_optional (confirmation_codec E) (pq_confirmation r) = Ok (Some c))"
  by (auto simp: confirmation_by_id_def decode_optional_def result_simps bind_eq_Some_conv split: option.splits)

lemma store_once_offer:
  "store_once db ''offer'' rid encoded = Ok (db', fresh) \<longleftrightarrow>
     (\<exists>r. find_row db rid = Some r \<and> fresh = (pq_offer r = None) \<and>
        db' = (if fresh then update_row (\<lambda>r. r\<lparr>pq_offer := Some encoded\<rparr>) rid db else db))"
  by (auto simp: store_once_def column_access_def split: option.splits)

lemma store_once_confirmation:
  "store_once db ''confirmation'' rid encoded = Ok (db', fresh) \<longleftrightarrow>
     (\<exists>r. find_row db rid = Some r \<and> fresh = (pq_confirmation r = None) \<and>
        db' = (if fresh then update_row (\<lambda>r. r\<lparr>pq_confirmation := Some encoded\<rparr>) rid db else db))"
  by (auto simp: store_once_def column_access_def split: option.splits)

lemma store_offer_ok:
  assumes "store_offer E db offer now_ms limit = Ok (db', fresh)"
  obtains r request encoded where "find_row (purge db now_ms) (po_request_id (po_body offer)) = Some r"
    "decode_pair (pair_request_codec E) (pq_request r) = Ok request"
    "pair_offer_verify E offer request now_ms limit = Ok ()"
    "encode_pair (pair_offer_codec E) offer = Ok encoded" "fresh = (pq_offer r = None)"
    "db' = (if fresh then update_row (\<lambda>r. r\<lparr>pq_offer := Some encoded\<rparr>) (po_request_id (po_body offer)) (purge db now_ms)
            else purge db now_ms)"
  using assms that
  by (auto simp: store_offer_def Let_def and_then_eq_Ok [of "map_err _ _"] and_then_eq_Ok [of "encode_pair _ _"]
      and_then_eq_Ok [of "and_then (request_by_id _ _ _) _"] request_by_id_Some store_once_offer map_err_eq_Ok)

lemma store_confirmation_ok:
  assumes "store_confirmation E db c now_ms = Ok (db', fresh)"
  obtains r request offer encoded where "find_row (purge db now_ms) (vc_request_id (vc_body c)) = Some r"
    "decode_pair (pair_request_codec E) (pq_request r) = Ok request"
    "decode_optional (pair_offer_codec E) (pq_offer r) = Ok (Some offer)"
    "confirmation_verify E c request offer = Ok ()"
    "encode_pair (confirmation_codec E) c = Ok encoded" "fresh = (pq_confirmation r = None)"
    "db' = (if fresh then update_row (\<lambda>r. r\<lparr>pq_confirmation := Some encoded\<rparr>) (vc_request_id (vc_body c)) (purge db now_ms)
            else purge db now_ms)"
  using assms that
  by (auto simp: store_confirmation_def Let_def and_then_eq_Ok [of "map_err _ _"] and_then_eq_Ok [of "encode_pair _ _"]
      and_then_eq_Ok [of "and_then (request_by_id _ _ _) _"] and_then_eq_Ok [of "and_then (offer_by_id _ _ _) _"]
      request_by_id_Some offer_by_id_Some store_once_confirmation map_err_eq_Ok)

lemma check_manual_ok:
  assumes "check_manual E db d request = Ok ()" and "find_row db (pd_request_id (pd_body d)) = Some r"
  obtains offer c where "decode_optional (pair_offer_codec E) (pq_offer r) = Ok (Some offer)"
    "decode_optional (confirmation_codec E) (pq_confirmation r) = Ok (Some c)"
    "confirmation_verify E c request offer = Ok ()" "transcript_hash E request offer = Ok (pd_transcript_hash (pd_body d))"
  using assms that
  by (auto simp: check_manual_def Let_def and_then_eq_Ok [of "map_err _ _"]
      and_then_eq_Ok [of "and_then (offer_by_id _ _ _) _"] and_then_eq_Ok [of "and_then (confirmation_by_id _ _ _) _"]
      offer_by_id_Some confirmation_by_id_Some map_err_eq_Ok if_Err_eq_Ok)

lemma store_decision_ok:
  assumes "store_decision E db d now_ms = Ok (db', fresh)"
  obtains r request encoded where "find_row (purge db now_ms) (pd_request_id (pd_body d)) = Some r"
    "decode_pair (pair_request_codec E) (pq_request r) = Ok request"
    "decision_verify E d request (pr_publisher (pr_body request)) = Ok ()"
    "pd_reason (pd_body d) = ManualVerified \<Longrightarrow> check_manual E (purge db now_ms) d request = Ok ()"
    "encode_pair (decision_codec E) d = Ok encoded" "fresh = (pq_decision r = None)"
    "db' = (if fresh then update_row (\<lambda>r. r\<lparr>pq_decision := Some encoded, pq_decided_at_ms := Some now_ms\<rparr>)
              (pd_request_id (pd_body d)) (purge db now_ms) else purge db now_ms)"
  using assms that
  by (auto simp: store_decision_def Let_def and_then_eq_Ok [of "map_err _ _"] and_then_eq_Ok [of "encode_pair _ _"]
      and_then_eq_Ok [of "and_then (request_by_id _ _ _) _"] and_then_eq_Ok [of "if _ then _ else _"]
      request_by_id_Some map_err_eq_Ok split: option.splits if_splits)

lemma enqueue_request_ok:
  assumes "enqueue_request E db request addr now_ms limit = Ok (db', fresh)"
  obtains encoded rid pid vid where "pair_request_verify E request now_ms limit = Ok ()"
    "encode_pair (pair_request_codec E) request = Ok encoded" "pair_request_id E request = Ok rid"
    "identity_id E (pr_publisher (pr_body request)) = Ok pid" "identity_id E (pr_viewer (pr_body request)) = Ok vid"
    "fresh = (find_row (purge db now_ms) rid = None)" "\<not> fresh \<Longrightarrow> db' = purge db now_ms"
    "fresh \<Longrightarrow> length (filter (\<lambda>r. pq_decision r = None) (purge db now_ms)) < MAX_PENDING_GLOBAL \<and>
       length (filter (\<lambda>r. pq_publisher_id r = pid \<and> pq_decision r = None) (purge db now_ms)) < MAX_PENDING_PER_PUBLISHER \<and>
       length (filter (\<lambda>r. pq_source_addr r = source_text E addr \<and>
         sint (saturating_sub_i64 now_ms 60000) \<le> sint (pq_received_at_ms r)) (purge db now_ms)) < MAX_REQUESTS_PER_MINUTE \<and>
       length (filter (\<lambda>r. pq_viewer_id r = vid \<and>
         sint (saturating_sub_i64 now_ms 60000) \<le> sint (pq_received_at_ms r)) (purge db now_ms)) < MAX_REQUESTS_PER_MINUTE \<and>
       db' = purge db now_ms @ [\<lparr>pq_request_id = rid, pq_publisher_id = pid, pq_viewer_id = vid,
         pq_source_addr = source_text E addr, pq_received_at_ms = now_ms,
         pq_expires_at_ms = pr_expires_at_ms (pr_body request), pq_request = encoded, pq_offer = None,
         pq_confirmation = None, pq_decision = None, pq_decided_at_ms = None\<rparr>]"
proof -
  from assms obtain encoded rid pid vid where
    1: "pair_request_verify E request now_ms limit = Ok ()"
    "encode_pair (pair_request_codec E) request = Ok encoded" "pair_request_id E request = Ok rid"
    "identity_id E (pr_publisher (pr_body request)) = Ok pid" "identity_id E (pr_viewer (pr_body request)) = Ok vid"
    unfolding enqueue_request_def and_then_eq_Ok map_err_eq_Ok by auto
  show thesis
  proof (rule that [OF 1])
    show "fresh = (find_row (purge db now_ms) rid = None)"
      using assms 1 by (auto simp: enqueue_request_def Let_def result_simps split: option.splits if_splits)
  qed (use assms 1 in \<open>auto simp: enqueue_request_def Let_def result_simps require_count_below_def insert_row_def
        split: option.splits if_splits\<close>)
qed

text \<open>Each kind of write keeps the row in order.\<close>

lemma row_ok_offer:
  assumes "row_ok E t r" and "pq_offer r = None" and "decode_pair (pair_request_codec E) (pq_request r) = Ok request"
    and "pair_offer_verify E offer request now_ms limit = Ok ()" and "decode_pair (pair_offer_codec E) encoded = Ok offer"
  shows "row_ok E t (r\<lparr>pq_offer := Some encoded\<rparr>)"
proof -
  have "pq_confirmation r = None"
    using assms(1,2) by (auto simp: row_ok_def confirmation_queued_def offer_queued_def decode_optional_def)
  moreover have "offer_queued E (r\<lparr>pq_offer := Some encoded\<rparr>) request offer"
    using assms(4,5) by (auto simp: offer_queued_def decode_optional_def)
  ultimately show ?thesis
    using assms(1-3)
    by (fastforce simp: row_ok_def request_queued_def decision_queued_def confirmation_queued_def offer_queued_def
        decode_optional_def)
qed

lemma row_ok_confirmation:
  assumes "row_ok E t r" and "pq_confirmation r = None"
    and "decode_pair (pair_request_codec E) (pq_request r) = Ok request"
    and "decode_optional (pair_offer_codec E) (pq_offer r) = Ok (Some offer)"
    and "confirmation_verify E c request offer = Ok ()" and "decode_pair (confirmation_codec E) encoded = Ok c"
  shows "row_ok E t (r\<lparr>pq_confirmation := Some encoded\<rparr>)"
proof -
  have "offer_queued E r request offer"
    using assms(1,3,4) by (auto simp: row_ok_def request_queued_def offer_queued_def decode_optional_def split: option.splits)
  then have "confirmation_queued E (r\<lparr>pq_confirmation := Some encoded\<rparr>) request offer c"
    using assms(5,6) by (simp add: confirmation_queued_def offer_queued_def decode_optional_def)
  then show ?thesis
    using assms(1-3)
    by (fastforce simp: row_ok_def request_queued_def decision_queued_def confirmation_queued_def offer_queued_def
        decode_optional_def)
qed

lemma row_ok_decision:
  assumes "row_ok E t r" and "decode_pair (pair_request_codec E) (pq_request r) = Ok request"
    and "decision_verify E d request (pr_publisher (pr_body request)) = Ok ()"
    and "pd_reason (pd_body d) = ManualVerified \<Longrightarrow> \<exists>offer c.
      decode_optional (pair_offer_codec E) (pq_offer r) = Ok (Some offer) \<and>
      decode_optional (confirmation_codec E) (pq_confirmation r) = Ok (Some c) \<and>
      confirmation_verify E c request offer = Ok () \<and> transcript_hash E request offer = Ok (pd_transcript_hash (pd_body d))"
    and "decode_pair (decision_codec E) encoded = Ok d"
  shows "row_ok E t (r\<lparr>pq_decision := Some encoded, pq_decided_at_ms := Some now_ms\<rparr>)"
proof -
  let ?r = "r\<lparr>pq_decision := Some encoded, pq_decided_at_ms := Some now_ms\<rparr>"
  have same: "request_queued E t ?r = request_queued E t r" "offer_queued E ?r = offer_queued E r"
    "confirmation_queued E ?r = confirmation_queued E r"
    by (simp_all add: fun_eq_iff request_queued_def offer_queued_def confirmation_queued_def)
  have queued: "request_queued E t r request" "pq_offer r \<noteq> None \<Longrightarrow> \<exists>offer. offer_queued E r request offer"
    "pq_confirmation r \<noteq> None \<Longrightarrow> \<exists>offer c. confirmation_queued E r request offer c"
    using assms(1,2) by (auto simp: row_ok_def request_queued_def)
  have "decision_queued E ?r request d"
    unfolding decision_queued_def same
  proof (intro conjI impI)
    assume "pd_reason (pd_body d) = ManualVerified"
    with assms(4) obtain offer c where
      1: "decode_optional (pair_offer_codec E) (pq_offer r) = Ok (Some offer)"
      "decode_optional (confirmation_codec E) (pq_confirmation r) = Ok (Some c)"
      "confirmation_verify E c request offer = Ok ()" "transcript_hash E request offer = Ok (pd_transcript_hash (pd_body d))"
      by blast
    then have "pq_offer r \<noteq> None" by (cases "pq_offer r") (simp_all add: decode_optional_def)
    with queued(2) 1(1) have "offer_queued E r request offer" by (auto simp: offer_queued_def)
    with 1 show "\<exists>offer c. confirmation_queued E r request offer c \<and>
        transcript_hash E request offer = Ok (pd_transcript_hash (pd_body d))"
      by (auto simp: confirmation_queued_def)
  qed (use assms(3,5) in \<open>simp_all add: decode_optional_def\<close>)
  with queued show ?thesis by (auto simp: row_ok_def same)
qed

text \<open>The row found is the only one with its identifier.\<close>

lemma update_found_inv:
  assumes inv: "pairing_inv E (db, t)" and found: "find_row db rid = Some r" and "row_ok E t (f r)"
    and "\<And>r. pq_request_id (f r) = pq_request_id r" "\<And>r. pq_publisher_id (f r) = pq_publisher_id r"
    and "\<And>r. pq_source_addr (f r) = pq_source_addr r" "\<And>r. pq_viewer_id (f r) = pq_viewer_id r"
    and "\<And>r. pq_received_at_ms (f r) = pq_received_at_ms r"
    and "\<And>r. pq_decision (f r) = None \<Longrightarrow> pq_decision r = None"
  shows "pairing_inv E (update_row f rid db, t)"
proof (rule update_row_inv [OF inv])
  fix r'
  assume "r' \<in> set db" "pq_request_id r' = rid"
  then have "r' = r" using find_row_distinct [of db r'] inv found by (auto simp: pairing_inv_def)
  then show "row_ok E t (f r')" using assms(3) by simp
qed (use assms in auto)

lemma store_offer_inv:
  assumes "pairing_store_env_ok E" and "pairing_inv E (db, t)" and "sint t \<le> sint now_ms"
    and "store_offer E db offer now_ms limit = Ok (db', fresh)"
  shows "pairing_inv E (db', now_ms)"
  using assms(4)
proof (rule store_offer_ok)
  fix r request encoded
  assume 1: "find_row (purge db now_ms) (po_request_id (po_body offer)) = Some r"
    "decode_pair (pair_request_codec E) (pq_request r) = Ok request"
    "pair_offer_verify E offer request now_ms limit = Ok ()"
    "encode_pair (pair_offer_codec E) offer = Ok encoded" "fresh = (pq_offer r = None)"
    "db' = (if fresh then update_row (\<lambda>r. r\<lparr>pq_offer := Some encoded\<rparr>) (po_request_id (po_body offer)) (purge db now_ms)
            else purge db now_ms)"
  note inv = purge_inv [OF assms(2,3)]
  have "row_ok E now_ms r" using inv find_row_Some [OF 1(1)] by (simp add: pairing_inv_def)
  moreover have "decode_pair (pair_offer_codec E) encoded = Ok offer"
    using assms(1) 1(4) pair_record_format.decode_encode by (auto simp: pairing_store_env_ok_def)
  ultimately have "pq_offer r = None \<Longrightarrow> row_ok E now_ms (r\<lparr>pq_offer := Some encoded\<rparr>)"
    using row_ok_offer 1(2,3) by blast
  then have "pq_offer r = None \<Longrightarrow>
      pairing_inv E (update_row (\<lambda>r. r\<lparr>pq_offer := Some encoded\<rparr>) (po_request_id (po_body offer)) (purge db now_ms), now_ms)"
    by (intro update_found_inv [OF inv 1(1)]) simp_all
  with inv 1(5,6) show ?thesis by simp
qed

lemma store_confirmation_inv:
  assumes "pairing_store_env_ok E" and "pairing_inv E (db, t)" and "sint t \<le> sint now_ms"
    and "store_confirmation E db c now_ms = Ok (db', fresh)"
  shows "pairing_inv E (db', now_ms)"
  using assms(4)
proof (rule store_confirmation_ok)
  fix r request offer encoded
  assume 1: "find_row (purge db now_ms) (vc_request_id (vc_body c)) = Some r"
    "decode_pair (pair_request_codec E) (pq_request r) = Ok request"
    "decode_optional (pair_offer_codec E) (pq_offer r) = Ok (Some offer)"
    "confirmation_verify E c request offer = Ok ()"
    "encode_pair (confirmation_codec E) c = Ok encoded" "fresh = (pq_confirmation r = None)"
    "db' = (if fresh then update_row (\<lambda>r. r\<lparr>pq_confirmation := Some encoded\<rparr>) (vc_request_id (vc_body c)) (purge db now_ms)
            else purge db now_ms)"
  note inv = purge_inv [OF assms(2,3)]
  have "row_ok E now_ms r" using inv find_row_Some [OF 1(1)] by (simp add: pairing_inv_def)
  moreover have "decode_pair (confirmation_codec E) encoded = Ok c"
    using assms(1) 1(5) pair_record_format.decode_encode by (auto simp: pairing_store_env_ok_def)
  ultimately have "pq_confirmation r = None \<Longrightarrow> row_ok E now_ms (r\<lparr>pq_confirmation := Some encoded\<rparr>)"
    using row_ok_confirmation 1(2-4) by blast
  then have "pq_confirmation r = None \<Longrightarrow>
      pairing_inv E (update_row (\<lambda>r. r\<lparr>pq_confirmation := Some encoded\<rparr>) (vc_request_id (vc_body c)) (purge db now_ms), now_ms)"
    by (intro update_found_inv [OF inv 1(1)]) simp_all
  with inv 1(6,7) show ?thesis by simp
qed

lemma store_decision_inv:
  assumes "pairing_store_env_ok E" and "pairing_inv E (db, t)" and "sint t \<le> sint now_ms"
    and "store_decision E db d now_ms = Ok (db', fresh)"
  shows "pairing_inv E (db', now_ms)"
  using assms(4)
proof (rule store_decision_ok)
  fix r request encoded
  assume 1: "find_row (purge db now_ms) (pd_request_id (pd_body d)) = Some r"
    "decode_pair (pair_request_codec E) (pq_request r) = Ok request"
    "decision_verify E d request (pr_publisher (pr_body request)) = Ok ()"
    "pd_reason (pd_body d) = ManualVerified \<Longrightarrow> check_manual E (purge db now_ms) d request = Ok ()"
    "encode_pair (decision_codec E) d = Ok encoded" "fresh = (pq_decision r = None)"
    "db' = (if fresh then update_row (\<lambda>r. r\<lparr>pq_decision := Some encoded, pq_decided_at_ms := Some now_ms\<rparr>)
              (pd_request_id (pd_body d)) (purge db now_ms) else purge db now_ms)"
  note inv = purge_inv [OF assms(2,3)]
  have "row_ok E now_ms r" using inv find_row_Some [OF 1(1)] by (simp add: pairing_inv_def)
  moreover have "decode_pair (decision_codec E) encoded = Ok d"
    using assms(1) 1(5) pair_record_format.decode_encode by (auto simp: pairing_store_env_ok_def)
  ultimately have "row_ok E now_ms (r\<lparr>pq_decision := Some encoded, pq_decided_at_ms := Some now_ms\<rparr>)"
    using 1(2,3) check_manual_ok [OF 1(4) 1(1)] by (intro row_ok_decision) blast+
  then have "pairing_inv E (update_row (\<lambda>r. r\<lparr>pq_decision := Some encoded, pq_decided_at_ms := Some now_ms\<rparr>)
      (pd_request_id (pd_body d)) (purge db now_ms), now_ms)"
    by (intro update_found_inv [OF inv 1(1)]) simp_all
  with inv 1(7) show ?thesis by simp
qed

lemma enqueue_request_inv:
  assumes "pairing_store_env_ok E" and "pairing_inv E (db, t)" and "sint t \<le> sint now_ms"
    and "enqueue_request E db request addr now_ms limit = Ok (db', fresh)"
  shows "pairing_inv E (db', now_ms)"
  using assms(4)
proof (rule enqueue_request_ok)
  fix encoded rid pid vid
  let ?n = "\<lparr>pq_request_id = rid, pq_publisher_id = pid, pq_viewer_id = vid,
         pq_source_addr = source_text E addr, pq_received_at_ms = now_ms,
         pq_expires_at_ms = pr_expires_at_ms (pr_body request), pq_request = encoded, pq_offer = None,
         pq_confirmation = None, pq_decision = None, pq_decided_at_ms = None\<rparr>"
  assume 1: "pair_request_verify E request now_ms limit = Ok ()"
    "encode_pair (pair_request_codec E) request = Ok encoded" "pair_request_id E request = Ok rid"
    "identity_id E (pr_publisher (pr_body request)) = Ok pid" "identity_id E (pr_viewer (pr_body request)) = Ok vid"
    "fresh = (find_row (purge db now_ms) rid = None)" "\<not> fresh \<Longrightarrow> db' = purge db now_ms"
    and counts: "fresh \<Longrightarrow> length (filter (\<lambda>r. pq_decision r = None) (purge db now_ms)) < MAX_PENDING_GLOBAL \<and>
       length (filter (\<lambda>r. pq_publisher_id r = pid \<and> pq_decision r = None) (purge db now_ms)) < MAX_PENDING_PER_PUBLISHER \<and>
       length (filter (\<lambda>r. pq_source_addr r = source_text E addr \<and>
         sint (saturating_sub_i64 now_ms 60000) \<le> sint (pq_received_at_ms r)) (purge db now_ms)) < MAX_REQUESTS_PER_MINUTE \<and>
       length (filter (\<lambda>r. pq_viewer_id r = vid \<and>
         sint (saturating_sub_i64 now_ms 60000) \<le> sint (pq_received_at_ms r)) (purge db now_ms)) < MAX_REQUESTS_PER_MINUTE \<and>
       db' = purge db now_ms @ [?n]"
  note inv = purge_inv [OF assms(2,3)]
  show ?thesis
  proof (cases fresh)
    case True
    have "decode_pair (pair_request_codec E) encoded = Ok request"
      using assms(1) 1(2) pair_record_format.decode_encode by (auto simp: pairing_store_env_ok_def)
    then have new: "row_ok E now_ms ?n"
      using assms(1) 1(1-5) by (auto simp: row_ok_def request_queued_def pairing_store_env_ok_def)
    have before: "sint (pq_received_at_ms r) \<le> sint (pq_received_at_ms ?n)" if "r \<in> set (purge db now_ms)" for r
      using that inv by (auto simp: pairing_inv_def row_ok_def request_queued_def)
    have "rate_bounded pq_source_addr (purge db now_ms @ [?n])" "rate_bounded pq_viewer_id (purge db now_ms @ [?n])"
      by (rule rate_bounded_snoc; use inv before counts True in \<open>simp add: pairing_inv_def\<close>)+
    moreover have "pending_bounded (purge db now_ms @ [?n])"
      using inv counts True by (simp add: pending_bounded_def pairing_inv_def)
    moreover have "rid \<notin> pq_request_id ` set (purge db now_ms)" using True 1(6) by (simp add: find_row_None)
    ultimately show ?thesis using inv new counts True by (simp add: pairing_inv_def)
  next
    case False
    with 1(7) inv show ?thesis by simp
  qed
qed

lemma inbox_purges:
  "publisher_inbox E db publisher now_ms = Ok (db', inbox) \<Longrightarrow> db' = purge db now_ms"
  "viewer_inbox E db viewer now_ms = Ok (db', found) \<Longrightarrow> db' = purge db now_ms"
  by (auto simp: publisher_inbox_def viewer_inbox_def Let_def result_simps)

interpretation pairing_machine:
  invariant_machine "pairing_step E" "\<lambda>s. pairing_store_env_ok E \<longrightarrow> pairing_inv E s" for E
proof
  fix s s'
  assume "pairing_step E s s'" and "pairing_store_env_ok E \<longrightarrow> pairing_inv E s"
  then show "pairing_store_env_ok E \<longrightarrow> pairing_inv E s'"
  proof (induction rule: pairing_step.induct)
    case step_enqueue
    then show ?case using enqueue_request_inv by blast
  next
    case step_offer
    then show ?case using store_offer_inv by blast
  next
    case step_confirmation
    then show ?case using store_confirmation_inv by blast
  next
    case step_decision
    then show ?case using store_decision_inv by blast
  next
    case step_publisher_inbox
    then show ?case using inbox_purges(1) purge_inv by blast
  next
    case step_viewer_inbox
    then show ?case using inbox_purges(2) purge_inv by blast
  qed
qed

lemma empty_queue_inv: "pairing_inv E ([], t)"
  by (simp add: pairing_inv_def pending_bounded_def rate_bounded_def)

lemma reachable_pairing_inv:
  "pairing_store_env_ok E \<Longrightarrow> (pairing_step E)\<^sup>*\<^sup>* ([], t0) s \<Longrightarrow> pairing_inv E s"
  using pairing_machine.reachable_inv empty_queue_inv by blast

text \<open>A queued request passes the check at delivery for as long as it has not expired.\<close>

lemma queued_request_verifies:
  assumes "request_queued E t r request" and "sint t \<le> sint now_ms" and "sint now_ms < sint (pq_expires_at_ms r)"
  obtains lifetime where "checked_sub_i64 (pr_expires_at_ms (pr_body request)) (pr_issued_at_ms (pr_body request)) = Some lifetime"
    "pair_request_verify E request now_ms lifetime = Ok ()"
proof -
  from assms(1) obtain limit where
    1: "validate_request_metadata E (pr_body request) = Ok ()"
    "validate_time (pr_issued_at_ms (pr_body request)) (pr_expires_at_ms (pr_body request)) (pq_received_at_ms r) limit = Ok ()"
    "verify E (pair_request_body_codec E) (pr_viewer (pr_body request)) PAIR_REQUEST_DOMAIN (pr_body request)
       (pr_signature request) = Ok ()"
    by (auto simp: request_queued_def pair_request_verify_def result_simps)
  then obtain lifetime where
    l: "checked_sub_i64 (pr_expires_at_ms (pr_body request)) (pr_issued_at_ms (pr_body request)) = Some lifetime"
    by (auto simp: validate_time_def result_simps)
  have "validate_time (pr_issued_at_ms (pr_body request)) (pr_expires_at_ms (pr_body request)) now_ms lifetime = Ok ()"
    using 1(2) assms sint_checked_sub_i64 [OF l] unfolding validate_time_eq
    by (auto simp: request_queued_def split: if_splits)
  with 1 have "pair_request_verify E request now_ms lifetime = Ok ()" by (simp add: pair_request_verify_def)
  with l show thesis by (rule that)
qed

lemma deliver_row_ok:
  assumes "row_ok E t r" and "sint t \<le> sint now_ms" and "sint now_ms < sint (pq_expires_at_ms r)"
  obtains delivery confirmation where "deliver_row E now_ms r = Ok (delivery, confirmation)"
    "decode_pair (pair_request_codec E) (pq_request r) = Ok (del_request delivery)"
proof -
  from assms(1) obtain request where
    1: "request_queued E t r request" "pq_confirmation r \<noteq> None \<Longrightarrow> \<exists>offer c. confirmation_queued E r request offer c"
    by (auto simp: row_ok_def)
  then obtain addr where addr: "source_parse E (pq_source_addr r) = Some addr" by (auto simp: request_queued_def)
  obtain lifetime where l: "checked_sub_i64 (pr_expires_at_ms (pr_body request)) (pr_issued_at_ms (pr_body request)) = Some lifetime"
    "pair_request_verify E request now_ms lifetime = Ok ()"
    using queued_request_verifies [OF 1(1) assms(2,3)] .
  have decoded: "decode_pair (pair_request_codec E) (pq_request r) = Ok request" using 1(1) by (simp add: request_queued_def)
  show thesis
  proof (cases "pq_confirmation r")
    case None
    with decoded l addr have "deliver_row E now_ms r =
        Ok (\<lparr>del_request = request, del_source_addr = addr, del_received_at_ms = pq_received_at_ms r\<rparr>, None)"
      by (simp add: deliver_row_def)
    then show thesis by (rule that) (simp add: decoded)
  next
    case (Some e)
    with 1(2) obtain c where "decode_pair (confirmation_codec E) e = Ok c"
      by (auto simp: confirmation_queued_def decode_optional_def result_simps)
    with Some decoded l addr have "deliver_row E now_ms r =
        Ok (\<lparr>del_request = request, del_source_addr = addr, del_received_at_ms = pq_received_at_ms r\<rparr>, Some c)"
      by (simp add: deliver_row_def)
    then show thesis by (rule that) (simp add: decoded)
  qed
qed

text \<open>Artifacts of a row that a step leaves in the table.\<close>

definition keeps_artifacts :: "pair_row \<Rightarrow> pair_row \<Rightarrow> bool" where
  "keeps_artifacts r r' \<longleftrightarrow>
     pq_request_id r' = pq_request_id r \<and> pq_request r' = pq_request r \<and>
     (pq_offer r \<noteq> None \<longrightarrow> pq_offer r' = pq_offer r) \<and>
     (pq_confirmation r \<noteq> None \<longrightarrow> pq_confirmation r' = pq_confirmation r) \<and>
     (pq_decision r \<noteq> None \<longrightarrow> pq_decision r' = pq_decision r \<and> pq_decided_at_ms r' = pq_decided_at_ms r)"

lemma keeps_artifacts_refl [simp]: "keeps_artifacts r r"
  by (simp add: keeps_artifacts_def)

lemma keeps_artifacts_fill:
  "pq_offer r = None \<Longrightarrow> keeps_artifacts r (r\<lparr>pq_offer := x\<rparr>)"
  "pq_confirmation r = None \<Longrightarrow> keeps_artifacts r (r\<lparr>pq_confirmation := x\<rparr>)"
  "pq_decision r = None \<Longrightarrow> keeps_artifacts r (r\<lparr>pq_decision := x, pq_decided_at_ms := y\<rparr>)"
  by (simp_all add: keeps_artifacts_def)

lemma update_row_keeps:
  assumes "distinct (map pq_request_id db)" and "find_row db rid = Some r0" and "keeps_artifacts r0 (f r0)"
    and "r \<in> set db"
  shows "\<exists>r'\<in>set (update_row f rid db). keeps_artifacts r r'"
proof -
  have "keeps_artifacts r (if pq_request_id r = rid then f r else r)"
    using find_row_distinct [OF assms(1,4)] assms(2,3) by auto
  moreover have "(if pq_request_id r = rid then f r else r) \<in> set (update_row f rid db)"
    using assms(4) unfolding update_row_def set_map by (rule imageI)
  ultimately show ?thesis by (rule bexI)
qed

lemma step_keeps_artifacts:
  assumes inv: "pairing_inv E (db, t)" and step: "pairing_step E (db, t) (db', now_ms)" and r: "r \<in> set (purge db now_ms)"
  shows "\<exists>r'\<in>set db'. keeps_artifacts r r'"
proof -
  from inv have ids: "distinct (map pq_request_id (purge db now_ms))"
    by (simp add: pairing_inv_def purge_def distinct_map_filter)
  note update = update_row_keeps [OF ids _ _ r]
  have same: "\<exists>r'\<in>set (purge db now_ms). keeps_artifacts r r'" using r keeps_artifacts_refl by (rule bexI [rotated])
  show ?thesis
    using step
  proof cases
    case step_enqueue
    then have "set (purge db now_ms) \<subseteq> set db'" by (elim enqueue_request_ok) auto
    with r show ?thesis using keeps_artifacts_refl by blast
  next
    case step_offer
    then show ?thesis
      by (elim store_offer_ok) (use r in \<open>auto intro!: update same keeps_artifacts_fill split: if_splits\<close>)
  next
    case step_confirmation
    then show ?thesis
      by (elim store_confirmation_ok) (use r in \<open>auto intro!: update same keeps_artifacts_fill split: if_splits\<close>)
  next
    case step_decision
    then show ?thesis
      by (elim store_decision_ok) (use r in \<open>auto intro!: update same keeps_artifacts_fill split: if_splits\<close>)
  next
    case step_publisher_inbox
    then show ?thesis using r inbox_purges(1) keeps_artifacts_refl by blast
  next
    case step_viewer_inbox
    then show ?thesis using r inbox_purges(2) keeps_artifacts_refl by blast
  qed
qed

lemma viewer_inbox_ok:
  assumes "viewer_inbox E db viewer now_ms = Ok (db', inbox)"
  obtains vid rows found where "identity_id E viewer = Ok vid"
    "rows = take MAX_INBOX_RECORDS (delivery_order
       (filter (\<lambda>r. pq_viewer_id r = vid \<and> (pq_offer r \<noteq> None \<or> pq_decision r \<noteq> None)) (purge db now_ms)))"
    "list_all2 (\<lambda>r x. decode_optional (pair_offer_codec E) (pq_offer r) = Ok (fst x) \<and>
       decode_optional (decision_codec E) (pq_decision r) = Ok (snd x)) rows found"
    "inbox_decisions inbox = somes (map snd found)" "inbox_offers inbox = somes (map fst found)"
proof -
  from assms obtain vid found where 1: "identity_id E viewer = Ok vid"
    "try_map (\<lambda>r. and_then (decode_optional (pair_offer_codec E) (pq_offer r)) (\<lambda>offer.
       and_then (decode_optional (decision_codec E) (pq_decision r)) (\<lambda>decision. Ok (offer, decision))))
       (take MAX_INBOX_RECORDS (delivery_order
         (filter (\<lambda>r. pq_viewer_id r = vid \<and> (pq_offer r \<noteq> None \<or> pq_decision r \<noteq> None)) (purge db now_ms)))) = Ok found"
    "(purge db now_ms, \<lparr>inbox_offers = somes (map fst found), inbox_decisions = somes (map snd found)\<rparr>) = (db', inbox)"
    unfolding viewer_inbox_def Let_def and_then_eq_Ok [of "map_err _ _"] map_err_eq_Ok and_then_eq_Ok [of "try_map _ _"] sum.inject
    by (elim exE conjE) (rule that)
  have "list_all2 (\<lambda>r x. decode_optional (pair_offer_codec E) (pq_offer r) = Ok (fst x) \<and>
       decode_optional (decision_codec E) (pq_decision r) = Ok (snd x)) (take MAX_INBOX_RECORDS (delivery_order
         (filter (\<lambda>r. pq_viewer_id r = vid \<and> (pq_offer r \<noteq> None \<or> pq_decision r \<noteq> None)) (purge db now_ms)))) found"
    using 1(2) unfolding try_map_eq_Ok by (rule list_all2_mono) (auto simp: result_simps)
  then show thesis by (rule that [OF 1(1) refl]) (use 1(3) in auto)
qed

lemma list_all2_somes:
  assumes "list_all2 R rows xs" and "y \<in> set (somes (map f xs))"
  obtains r x where "r \<in> set rows" "R r x" "f x = Some y"
proof -
  from assms(2) obtain x where "x \<in> set xs" and y: "f x = Some y" by (auto simp: somes_def split: option.splits)
  then obtain i where i: "i < length xs" "xs ! i = x" by (auto simp: in_set_conv_nth)
  with assms(1) have "rows ! i \<in> set rows" "R (rows ! i) x" by (auto simp: list_all2_conv_all_nth)
  then show thesis using y by (rule that)
qed

section \<open>Properties\<close>

text \<open>C29: Whatever decision the relay hands a viewer, in any state the queue can reach, comes from a
  row of the queue and belongs there: the request stored in the row is one that viewer signed, the
  decision is signed by the publisher the request names and answers that request, and if it is a
  manual approval the row also holds an offer the publisher signed and a confirmation of that very
  offer the viewer signed, and the decision carries the transcript hash of the stored request and
  the stored offer.\<close>

theorem delivered_decisions_authentic:
  assumes "pairing_store_env_ok E" and "(pairing_step E)\<^sup>*\<^sup>* ([], t0) (db, t)"
    and "viewer_inbox E db viewer now_ms = Ok (db', inbox)" and "d \<in> set (inbox_decisions inbox)"
  shows "\<exists>r\<in>set db. \<exists>request.
    decode_optional (decision_codec E) (pq_decision r) = Ok (Some d) \<and>
    decode_pair (pair_request_codec E) (pq_request r) = Ok request \<and>
    pair_request_id E request = Ok (pq_request_id r) \<and>
    identity_id E (pr_viewer (pr_body request)) = identity_id E viewer \<and>
    verify E (pair_request_body_codec E) (pr_viewer (pr_body request)) PAIR_REQUEST_DOMAIN (pr_body request)
      (pr_signature request) = Ok () \<and>
    decision_verify E d request (pr_publisher (pr_body request)) = Ok () \<and>
    (pd_reason (pd_body d) = ManualVerified \<longrightarrow>
      (\<exists>offer c. decode_optional (pair_offer_codec E) (pq_offer r) = Ok (Some offer) \<and>
         decode_optional (confirmation_codec E) (pq_confirmation r) = Ok (Some c) \<and>
         (\<exists>seen_ms limit. pair_offer_verify E offer request seen_ms limit = Ok ()) \<and>
         confirmation_verify E c request offer = Ok () \<and>
         transcript_hash E request offer = Ok (pd_transcript_hash (pd_body d))))"
proof -
  from assms(3) obtain vid rows found where
    1: "identity_id E viewer = Ok vid"
    "rows = take MAX_INBOX_RECORDS (delivery_order
       (filter (\<lambda>r. pq_viewer_id r = vid \<and> (pq_offer r \<noteq> None \<or> pq_decision r \<noteq> None)) (purge db now_ms)))"
    "list_all2 (\<lambda>r x. decode_optional (pair_offer_codec E) (pq_offer r) = Ok (fst x) \<and>
       decode_optional (decision_codec E) (pq_decision r) = Ok (snd x)) rows found"
    "inbox_decisions inbox = somes (map snd found)"
    by (rule viewer_inbox_ok)
  from 1(3) assms(4) [unfolded 1(4)] obtain r x where
    r: "r \<in> set rows" "decode_optional (decision_codec E) (pq_decision r) = Ok (Some d)"
    by (rule list_all2_somes) simp
  then have row: "r \<in> set db" "pq_viewer_id r = vid" by (auto simp: 1(2) delivery_order_def purge_def dest!: in_set_takeD)
  have "pq_decision r \<noteq> None" using r(2) by (cases "pq_decision r") (simp_all add: decode_optional_def)
  moreover have "row_ok E t r" using row(1) reachable_pairing_inv [OF assms(1,2)] by (simp add: pairing_inv_def)
  ultimately obtain request where q: "request_queued E t r request" "decision_queued E r request d"
    using r(2) by (auto simp: row_ok_def decision_queued_def)
  then show ?thesis using 1(1) row(2)
    by (intro bexI [OF _ row(1)] exI [of _ request])
      (fastforce simp: request_queued_def decision_queued_def confirmation_queued_def offer_queued_def
        pair_request_verify_def result_simps)
qed

text \<open>A publisher always gets its inbox, and all of it: in every state the queue can reach, and at
  every later time, fetching the inbox succeeds and delivers exactly the requests to this publisher
  that are neither decided nor expired, oldest first.  No stored record can make the fetch fail,
  and the record bound of the query never cuts a request off.\<close>

theorem publisher_inbox_complete:
  assumes "pairing_store_env_ok E" and "(pairing_step E)\<^sup>*\<^sup>* ([], t0) (db, t)" and "sint t \<le> sint now_ms"
    and "identity_id E publisher = Ok pid"
  shows "\<exists>inbox. publisher_inbox E db publisher now_ms = Ok (purge db now_ms, inbox) \<and>
    map (\<lambda>d. Ok (del_request d)) (inbox_requests inbox) =
    map (\<lambda>r. decode_pair (pair_request_codec E) (pq_request r)) (delivery_order (filter
      (\<lambda>r. pq_publisher_id r = pid \<and> pq_decision r = None \<and> sint now_ms < sint (pq_expires_at_ms r)) db))"
proof -
  let ?pending = "filter (\<lambda>r. pq_publisher_id r = pid \<and> pq_decision r = None) (purge db now_ms)"
  note inv = reachable_pairing_inv [OF assms(1,2)]
  have pending: "?pending = filter (\<lambda>r. pq_publisher_id r = pid \<and> pq_decision r = None \<and> sint now_ms < sint (pq_expires_at_ms r)) db"
    by (auto simp: purge_def purgeable_def intro: filter_cong)
  have "length ?pending \<le> MAX_PENDING_PER_PUBLISHER"
    using purge_inv [OF inv assms(3)] by (simp add: pairing_inv_def pending_bounded_def)
  then have rows: "take MAX_INBOX_RECORDS (delivery_order ?pending) = delivery_order ?pending"
    by (simp add: delivery_order_def MAX_PENDING_PER_PUBLISHER_def MAX_INBOX_RECORDS_def)
  have "\<exists>d. deliver_row E now_ms r = Ok d \<and> decode_pair (pair_request_codec E) (pq_request r) = Ok (del_request (fst d))"
    if "r \<in> set (delivery_order ?pending)" for r
  proof -
    from that inv have "row_ok E t r" "sint now_ms < sint (pq_expires_at_ms r)"
      by (auto simp: pending delivery_order_def pairing_inv_def)
    with assms(3) obtain x y where "deliver_row E now_ms r = Ok (x, y)"
      "decode_pair (pair_request_codec E) (pq_request r) = Ok (del_request x)" by (elim deliver_row_ok)
    then show ?thesis by (intro exI [of _ "(x, y)"]) simp
  qed
  then have "\<forall>r\<in>set (delivery_order ?pending). \<exists>d. deliver_row E now_ms r = Ok d \<and>
      decode_pair (pair_request_codec E) (pq_request r) = Ok (del_request (fst d))" by blast
  from bchoice [OF this] obtain d where d: "\<And>r. r \<in> set (delivery_order ?pending) \<Longrightarrow> deliver_row E now_ms r = Ok (d r) \<and>
      decode_pair (pair_request_codec E) (pq_request r) = Ok (del_request (fst (d r)))" by blast
  then have "try_map (deliver_row E now_ms) (delivery_order ?pending) = Ok (map d (delivery_order ?pending))"
    by (simp add: try_map_eq_Ok list_all2_conv_all_nth)
  then have "publisher_inbox E db publisher now_ms = Ok (purge db now_ms,
      \<lparr>inbox_requests = map fst (map d (delivery_order ?pending)),
       inbox_confirmations = somes (map snd (map d (delivery_order ?pending)))\<rparr>)"
    by (simp add: publisher_inbox_def assms(4) rows Let_def)
  moreover have "map (\<lambda>d. Ok (del_request d)) (map fst (map d (delivery_order ?pending))) =
      map (\<lambda>r. decode_pair (pair_request_codec E) (pq_request r)) (delivery_order ?pending)"
    using d by simp
  ultimately show ?thesis unfolding pending by (intro exI conjI) (assumption, simp only: publisher_pairing_inbox.simps)
qed

text \<open>The queue is bounded in every state it can reach: the undecided requests in all and for each
  publisher, and the requests received from one source, or of one viewer, within any minute.\<close>

theorem pairing_queue_bounded:
  assumes "pairing_store_env_ok E" and "(pairing_step E)\<^sup>*\<^sup>* ([], t0) (db, t)"
  shows "length (filter (\<lambda>r. pq_decision r = None) db) \<le> 16384 \<and>
    length (filter (\<lambda>r. pq_publisher_id r = pid \<and> pq_decision r = None) db) \<le> 1024 \<and>
    length (filter (\<lambda>r. pq_source_addr r = source \<and> w \<le> sint (pq_received_at_ms r) \<and>
      sint (pq_received_at_ms r) \<le> w + 60000) db) \<le> 10 \<and>
    length (filter (\<lambda>r. pq_viewer_id r = vid \<and> w \<le> sint (pq_received_at_ms r) \<and>
      sint (pq_received_at_ms r) \<le> w + 60000) db) \<le> 10"
  using reachable_pairing_inv [OF assms]
  by (simp add: pairing_inv_def pending_bounded_def rate_bounded_def MAX_PENDING_GLOBAL_def
      MAX_PENDING_PER_PUBLISHER_def MAX_REQUESTS_PER_MINUTE_def)

text \<open>C30: The first artifact wins: no operation replaces a stored request, offer, confirmation or
  decision, whatever is submitted later; a row goes only by the purge.\<close>

theorem first_artifact_wins:
  assumes "pairing_store_env_ok E" and "(pairing_step E)\<^sup>*\<^sup>* ([], t0) (db, t)"
    and "pairing_step E (db, t) (db', now_ms)" and "r \<in> set db" and "\<not> purgeable now_ms r"
  shows "\<exists>r'\<in>set db'. pq_request_id r' = pq_request_id r \<and> pq_request r' = pq_request r \<and>
     (pq_offer r \<noteq> None \<longrightarrow> pq_offer r' = pq_offer r) \<and>
     (pq_confirmation r \<noteq> None \<longrightarrow> pq_confirmation r' = pq_confirmation r) \<and>
     (pq_decision r \<noteq> None \<longrightarrow> pq_decision r' = pq_decision r \<and> pq_decided_at_ms r' = pq_decided_at_ms r)"
  using step_keeps_artifacts [OF reachable_pairing_inv [OF assms(1,2)] assms(3)] assms(4,5)
  by (simp add: purge_def keeps_artifacts_def)

end
