(* ===== verification/Delivery.thy ===== *)
theory Delivery
  imports Tasks StoreTotality Access PairingStore
begin

text \<open>
  \<^verbatim>\<open>crates/relay/src/native_service.rs\<close>, the viewer's subscription: retained replay from the store, then
  the live channel, with replay again after a gap.

  A session is an asynchronous task.  What it wrote so far and whether it has ended is a \<open>run\<close>: the
  messages in order and the result, or \<open>None\<close> when the observed inputs end while the task still
  waits.  Every call into the store sees a database of its own, since publishers commit in between;
  these databases, the clock readings and the received items are the inputs.
\<close>

section \<open>Errors\<close>

datatype service_error =
    SvRefused string
  | SvStore store_error
  | SvQueue pairing_store_error
  | SvAccess native_access_error
  | SvWire wire_error
  | SvIdentity identity_error
  | SvPairing pairing_error

type_synonym ('m, 'a) run = "('m, service_error, 'a) erun"

section \<open>Messages\<close>

definition write_viewer :: "'z wire_env_scheme \<Rightarrow> relay_viewer_message \<Rightarrow> (relay_viewer_message, unit) run" where
  "write_viewer E m =
     (case relay_viewer_message_validate E m of
        Inl e \<Rightarrow> ([], Some (Err (SvWire e)))
      | Inr _ \<Rightarrow> ([m], Some (Ok ())))"

definition send_viewer_error ::
  "'z wire_env_scheme \<Rightarrow> relay_error_code \<Rightarrow> string \<Rightarrow> (relay_viewer_message, unit) run" where
  "send_viewer_error E code detail = write_viewer E (RvError \<lparr>err_code = code, err_detail = lit detail\<rparr>)"

definition retained_wire :: "native_retained_bounds \<Rightarrow> retained_bounds" where
  "retained_wire b =
     \<lparr>oldest_sequence = nb_oldest_sequence b, newest_sequence = nb_newest_sequence b,
      oldest_timestamp = nb_oldest_timestamp b, newest_timestamp = nb_newest_timestamp b\<rparr>"

definition active_credential_error_code :: "native_admission \<Rightarrow> i64 \<Rightarrow> relay_error_code" where
  "active_credential_error_code admission now_ms =
     (if (case adm_expires_at_ms admission of Some expiry \<Rightarrow> sint now_ms \<ge> sint expiry | None \<Rightarrow> False)
      then CodeCredentialExpired else CodeUnauthorized)"

section \<open>Replay\<close>

definition SUBSCRIPTION_PAGE :: nat where
  "SUBSCRIPTION_PAGE = 1024"

definition send_group_envelope ::
  "'z wire_env_scheme \<Rightarrow> native_db \<Rightarrow> uuid \<Rightarrow> uuid \<Rightarrow> u64 \<Rightarrow> array32 \<Rightarrow> (relay_viewer_message, unit) run" where
  "send_group_envelope E db sid eid key_group rid =
     run_then (run_of (map_err SvStore (get_envelope E db sid eid key_group rid))) (\<lambda>found.
       case found of
         Some envelope \<Rightarrow> write_viewer E (RvKeyEnvelope envelope)
       | None \<Rightarrow> run_of (Ok ()))"

text \<open>One page of replay: the database its listing reads, and for each sequence the database from which
  the envelope ahead of that object is read.\<close>

record page =
  pg_db :: native_db
  pg_at :: "u64 \<Rightarrow> native_db"

fun deliver_page ::
  "'z wire_env_scheme \<Rightarrow> (u64 \<Rightarrow> native_db) \<Rightarrow> uuid \<Rightarrow> array32 \<Rightarrow> (uuid \<times> u64) option \<Rightarrow> native_object list \<Rightarrow> u64
    \<Rightarrow> (relay_viewer_message, u64) run" where
  "deliver_page E db_at sid rid delivered [] last_sequence = run_of (Ok last_sequence)"
| "deliver_page E db_at sid rid delivered (obj # objs) last_sequence =
     (let seq = h_sequence (o_header obj); group = (h_epoch_id (o_header obj), h_key_group (o_header obj))
      in if seq \<noteq> saturating_add_u64 last_sequence 1
         then run_of (Err (SvRefused ''retained native stream contains a sequence gap''))
         else run_then (if delivered \<noteq> Some group
                        then send_group_envelope E (db_at seq) sid (fst group) (snd group) rid
                        else run_of (Ok ())) (\<lambda>_.
              run_then (write_viewer E (RvObject obj)) (\<lambda>_.
                deliver_page E db_at sid rid (Some group) objs seq)))"

fun reanchor_from_store ::
  "'z wire_env_scheme \<Rightarrow> uuid \<Rightarrow> array32 \<Rightarrow> page list \<Rightarrow> u64 \<Rightarrow> (relay_viewer_message, u64) run" where
  "reanchor_from_store E sid rid [] last_sequence = ([], None)"
| "reanchor_from_store E sid rid (p # ps) last_sequence =
     run_then (run_of (map_err SvStore (list_objects E (pg_db p) sid last_sequence SUBSCRIPTION_PAGE))) (\<lambda>objs.
       if objs = [] then run_of (Ok last_sequence)
       else run_then (deliver_page E (pg_at p) sid rid None objs last_sequence) (\<lambda>last_sequence.
         if length objs < SUBSCRIPTION_PAGE then run_of (Ok last_sequence)
         else reanchor_from_store E sid rid ps last_sequence))"

section \<open>The live channel\<close>

datatype live_item = LiveObject native_object | LiveEnvelope key_envelope

datatype live_received = RecvTimeout | RecvItem live_item | RecvLagged | RecvClosed

text \<open>One turn of the loop: the policy and the three readings of the clock at its checks, the time
  since the last live activity, what the channel yields, and the pages a replay would read.\<close>

record live_turn =
  lt_policy :: native_access_policy
  lt_expiry_ms :: i64
  lt_active_ms :: i64
  lt_code_ms :: i64
  lt_idle :: nat
  lt_received :: live_received
  lt_pages :: "page list"

definition live_gap ::
  "'z wire_env_scheme \<Rightarrow> uuid \<Rightarrow> array32 \<Rightarrow> page list \<Rightarrow> u64 \<Rightarrow> (relay_viewer_message, u64) run" where
  "live_gap E sid rid pages before =
     run_then (reanchor_from_store E sid rid pages before) (\<lambda>last_sequence.
       if last_sequence = before
       then run_then (send_viewer_error E CodeHistoryUnavailable ''live subscription gap is no longer retained'') (\<lambda>_.
              run_of (Err (SvRefused ''live subscription gap could not be re-anchored'')))
       else run_of (Ok last_sequence))"

definition live_receive ::
  "'z wire_env_scheme \<Rightarrow> uuid \<Rightarrow> array32 \<Rightarrow> live_turn \<Rightarrow> u64 \<Rightarrow> (relay_viewer_message, u64) run" where
  "live_receive E sid rid turn last_sequence =
     (case lt_received turn of
        RecvTimeout \<Rightarrow> run_of (Ok last_sequence)
      | RecvItem (LiveEnvelope envelope) \<Rightarrow>
          if k_recipient_id (e_header envelope) = rid
          then run_then (write_viewer E (RvKeyEnvelope envelope)) (\<lambda>_. run_of (Ok last_sequence))
          else run_of (Ok last_sequence)
      | RecvItem (LiveObject obj) \<Rightarrow>
          if h_sequence (o_header obj) \<le> last_sequence then run_of (Ok last_sequence)
          else if h_sequence (o_header obj) = saturating_add_u64 last_sequence 1
          then run_then (write_viewer E (RvObject obj)) (\<lambda>_. run_of (Ok (h_sequence (o_header obj))))
          else live_gap E sid rid (lt_pages turn) last_sequence
      | RecvLagged \<Rightarrow> live_gap E sid rid (lt_pages turn) last_sequence
      | RecvClosed \<Rightarrow> run_of (Err (SvRefused ''native live stream channel closed'')))"

definition live_step ::
  "'z wire_env_scheme \<Rightarrow> uuid \<Rightarrow> array32 \<Rightarrow> native_admission \<Rightarrow> nat \<Rightarrow> live_turn \<Rightarrow> u64
    \<Rightarrow> (relay_viewer_message, u64) run" where
  "live_step E sid rid admission idle_timeout turn last_sequence =
     (if (case adm_expires_at_ms admission of Some expiry \<Rightarrow> sint (lt_expiry_ms turn) \<ge> sint expiry | None \<Rightarrow> False)
      then run_then (send_viewer_error E CodeCredentialExpired ''viewer credential expired'') (\<lambda>_.
             run_of (Err (SvRefused ''viewer credential expired'')))
      else case ensure_active E (lt_policy turn) admission (lt_active_ms turn) of
        Inl error \<Rightarrow>
          run_then (send_viewer_error E (active_credential_error_code admission (lt_code_ms turn))
                      ''viewer credential is no longer valid'') (\<lambda>_. run_of (Err (SvAccess error)))
      | Inr _ \<Rightarrow>
          if idle_timeout - lt_idle turn = 0 then run_of (Err (SvRefused ''viewer subscription idle timeout''))
          else live_receive E sid rid turn last_sequence)"

fun live_loop ::
  "'z wire_env_scheme \<Rightarrow> uuid \<Rightarrow> array32 \<Rightarrow> native_admission \<Rightarrow> nat \<Rightarrow> live_turn list \<Rightarrow> u64
    \<Rightarrow> (relay_viewer_message, unit) run" where
  "live_loop E sid rid admission idle_timeout [] last_sequence = ([], None)"
| "live_loop E sid rid admission idle_timeout (turn # turns) last_sequence =
     run_then (live_step E sid rid admission idle_timeout turn last_sequence) (\<lambda>last_sequence.
       live_loop E sid rid admission idle_timeout turns last_sequence)"

section \<open>Subscriptions\<close>

text \<open>The databases the calls of one subscription read, in the order of the calls.\<close>

record subscription_inputs =
  si_descriptor :: native_db
  si_anchor :: native_db
  si_retained :: native_db
  si_high_water :: native_db
  si_object :: native_db
  si_envelope :: native_db
  si_pages :: "page list"
  si_turns :: "live_turn list"

definition subscription_prologue ::
  "'z wire_env_scheme \<Rightarrow> native_db \<Rightarrow> native_db \<Rightarrow> array32 \<Rightarrow> uuid \<Rightarrow> u64 \<Rightarrow> u64 \<Rightarrow> (relay_viewer_message, unit) run" where
  "subscription_prologue E object_db envelope_db rid sid anchor high =
     (if anchor > high \<and> high > 0
      then run_then (run_of (map_err SvStore (get_object E object_db sid high))) (\<lambda>found.
             case found of
               Some obj \<Rightarrow> send_group_envelope E envelope_db sid (h_epoch_id (o_header obj))
                             (h_key_group (o_header obj)) rid
             | None \<Rightarrow> run_of (Ok ()))
      else run_of (Ok ()))"

definition subscription ::
  "'z wire_env_scheme \<Rightarrow> array32 \<Rightarrow> array32 \<Rightarrow> uuid \<Rightarrow> subscription_start \<Rightarrow> native_admission \<Rightarrow> nat
    \<Rightarrow> subscription_inputs \<Rightarrow> (relay_viewer_message, unit) run" where
  "subscription E rid publisher_id sid start admission idle_timeout inputs =
     run_then (run_of (map_err SvStore (descriptor_in_transaction E (si_descriptor inputs) sid))) (\<lambda>found.
     run_then (run_of (ok_or found (SvRefused ''subscription stream not found''))) (\<lambda>d.
     run_then (run_of (map_err SvIdentity (identity_id E (d_publisher (d_body d))))) (\<lambda>owner.
     if owner \<noteq> publisher_id then run_of (Err (SvRefused ''subscription publisher identity mismatch''))
     else run_then (run_of (map_err SvStore (subscription_anchor (si_anchor inputs) sid start))) (\<lambda>anchor.
     run_then (run_of (map_err SvStore (retained_bounds_in_connection (si_retained inputs) sid))) (\<lambda>retained.
     run_then (run_of (map_err SvStore (high_water (si_high_water inputs) sid))) (\<lambda>mark.
     let high = (case mark of Some v \<Rightarrow> v | None \<Rightarrow> 0)
     in run_then (write_viewer E (RvSubscriptionStarted anchor (map_option retained_wire retained) (anchor > high))) (\<lambda>_.
        run_then (subscription_prologue E (si_object inputs) (si_envelope inputs) rid sid anchor high) (\<lambda>_.
        run_then (reanchor_from_store E sid rid (si_pages inputs) (if anchor = 0 then 0 else anchor - 1)) (\<lambda>last_sequence.
        run_then (if last_sequence > 0 then write_viewer E (RvLive last_sequence) else run_of (Ok ())) (\<lambda>_.
          live_loop E sid rid admission idle_timeout (si_turns inputs) last_sequence))))))))))"

section \<open>Gapless runs\<close>

text \<open>The sequences of the objects written, in order.\<close>

fun object_sequences :: "relay_viewer_message list \<Rightarrow> u64 list" where
  "object_sequences [] = []"
| "object_sequences (RvObject obj # ms) = h_sequence (o_header obj) # object_sequences ms"
| "object_sequences (m # ms) = object_sequences ms"

fun follows :: "u64 \<Rightarrow> u64 list \<Rightarrow> bool" where
  "follows n [] = True"
| "follows n (s # ss) \<longleftrightarrow> s = saturating_add_u64 n 1 \<and> follows s ss"

text \<open>A run that continues from a sequence: the objects it writes follow it one by one, and it returns
  the last of them.\<close>

definition gapless :: "u64 \<Rightarrow> (relay_viewer_message, u64) run \<Rightarrow> bool" where
  "gapless n r \<longleftrightarrow>
     follows n (object_sequences (fst r)) \<and>
     (\<forall>x. snd r = Some (Ok x) \<longrightarrow> x = last (n # object_sequences (fst r)))"

definition silent :: "(relay_viewer_message, 'a) run \<Rightarrow> bool" where
  "silent r \<longleftrightarrow> object_sequences (fst r) = []"

lemma object_sequences_append [simp]: "object_sequences (xs @ ys) = object_sequences xs @ object_sequences ys"
  by (induction xs rule: object_sequences.induct) simp_all

lemma follows_append: "follows n (xs @ ys) \<longleftrightarrow> follows n xs \<and> follows (last (n # xs)) ys"
  by (induction n xs rule: follows.induct) auto

lemma gapless_run_of: "gapless n (run_of (Ok n))" "gapless n (run_of (Err e))"
  by (simp_all add: gapless_def run_of_def)

lemma gapless_then:
  assumes "gapless n r" and "\<And>x. gapless x (k x)"
  shows "gapless n (run_then r k)"
proof (cases "\<exists>x. snd r = Some (Ok x)")
  case True
  then obtain x where x: "snd r = Some (Ok x)" by blast
  with assms(1) have "x = last (n # object_sequences (fst r))" by (simp add: gapless_def)
  with assms(1) assms(2) [of x] x show ?thesis by (auto simp: run_then_def gapless_def follows_append)
next
  case False
  then show ?thesis using assms(1) by (auto simp: run_then_def gapless_def split: option.splits sum.splits)
qed

lemma gapless_silent_then:
  assumes "silent r" and "\<And>x. gapless n (k x)"
  shows "gapless n (run_then r k)"
proof (cases "\<exists>x. snd r = Some (Ok x)")
  case True
  then obtain x where "snd r = Some (Ok x)" by blast
  with assms(1) assms(2) [of x] show ?thesis by (simp add: run_then_def gapless_def silent_def)
next
  case False
  then show ?thesis using assms(1) by (auto simp: run_then_def gapless_def silent_def split: option.splits sum.splits)
qed

lemma silent_then: "silent r \<Longrightarrow> (\<And>x. silent (k x)) \<Longrightarrow> silent (run_then r k)"
  by (auto simp: silent_def run_then_def split: option.splits sum.splits)

lemma silent_run_of [simp]: "silent (run_of r)"
  by (simp add: silent_def run_of_def)

lemma silent_error [simp]: "silent (send_viewer_error E code detail)"
  by (simp add: silent_def send_viewer_error_def write_viewer_def split: sum.splits)

lemma silent_write [simp]: "silent (write_viewer E m)" if "\<nexists>obj. m = RvObject obj"
  using that by (cases m) (simp_all add: silent_def write_viewer_def split: sum.splits)

lemma silent_envelope [simp]: "silent (send_group_envelope E db sid eid k rid)"
  unfolding send_group_envelope_def by (rule silent_then) (simp_all split: option.splits)

lemma gapless_object:
  "h_sequence (o_header obj) = saturating_add_u64 n 1 \<Longrightarrow>
   (\<And>u. gapless (h_sequence (o_header obj)) (k u)) \<Longrightarrow> gapless n (run_then (write_viewer E (RvObject obj)) k)"
  by (cases "relay_viewer_message_validate E (RvObject obj)") (simp_all add: write_viewer_def run_then_def gapless_def)

lemma deliver_page_gapless: "gapless n (deliver_page E db_at sid rid delivered objs n)"
proof (induction objs arbitrary: n delivered)
  case Nil
  then show ?case by (simp add: gapless_run_of)
next
  case (Cons obj objs)
  then show ?case
    by (auto simp: Let_def gapless_run_of intro!: gapless_silent_then gapless_object)
qed

lemma reanchor_gapless: "gapless n (reanchor_from_store E sid rid pages n)"
proof (induction pages arbitrary: n)
  case Nil
  then show ?case by (simp add: gapless_def)
next
  case (Cons p ps)
  then show ?case
    by (auto intro!: gapless_silent_then gapless_then deliver_page_gapless simp: gapless_run_of)
qed

lemma live_gap_gapless: "gapless n (live_gap E sid rid pages n)"
  unfolding live_gap_def
  by (rule gapless_then [OF reanchor_gapless]) (auto intro!: gapless_silent_then simp: gapless_run_of)

lemma live_step_gapless: "gapless n (live_step E sid rid admission idle turn n)"
proof -
  have "gapless n (live_receive E sid rid turn n)"
    by (auto simp: live_receive_def gapless_run_of intro!: gapless_silent_then gapless_object live_gap_gapless
        split: live_received.splits live_item.splits)
  then show ?thesis
    by (auto simp: live_step_def gapless_run_of intro!: gapless_silent_then split: sum.splits)
qed

lemma follows_then:
  assumes "gapless n r" and "\<And>x. follows x (object_sequences (fst (k x)))"
  shows "follows n (object_sequences (fst (run_then r k)))"
  using assms by (auto simp: run_then_def gapless_def follows_append split: option.splits sum.splits)

lemma live_loop_gapless: "follows n (object_sequences (fst (live_loop E sid rid admission idle turns n)))"
  by (induction turns arbitrary: n) (auto intro!: follows_then live_step_gapless)

lemma follows_nth: "follows n ss \<Longrightarrow> i < length ss \<Longrightarrow> unat (ss ! i) = min (2 ^ 64 - 1) (unat n + Suc i)"
proof (induction n ss arbitrary: i rule: follows.induct)
  case (2 n s ss)
  then have s: "unat s = min (2 ^ 64 - 1) (unat n + 1)" by (simp add: unat_saturating_add_u64)
  show ?case
  proof (cases i)
    case 0
    with s show ?thesis by simp
  next
    case (Suc j)
    with "2.IH" [of j] "2.prems" s show ?thesis by (simp add: min_def split: if_splits)
  qed
qed simp

text \<open>Nothing follows a refused message, and the first message of a subscription names its anchor.\<close>

lemma follows_silent_then:
  assumes "silent r" and "\<And>x. follows n (object_sequences (fst (k x)))"
  shows "follows n (object_sequences (fst (run_then r k)))"
  using assms by (auto simp: run_then_def silent_def split: option.splits sum.splits)

definition announced :: "(relay_viewer_message, 'a) run \<Rightarrow> bool" where
  "announced r \<longleftrightarrow>
     fst r = [] \<or>
     (\<exists>a retained live rest. a \<noteq> 0 \<and> fst r = RvSubscriptionStarted a retained live # rest \<and>
        follows (a - 1) (object_sequences rest))"

lemma announced_run_of: "announced (run_of r)"
  by (simp add: announced_def run_of_def)

lemma announced_then: "(\<And>x. announced (k x)) \<Longrightarrow> announced (run_then (run_of r) k)"
  by (cases r) (simp_all add: announced_run_of)

lemma announced_start:
  assumes "\<And>x. follows (if a = 0 then 0 else a - 1) (object_sequences (fst (k x)))"
  shows "announced (run_then (write_viewer E (RvSubscriptionStarted a retained live)) k)"
  using assms [of "()"]
  by (cases "relay_viewer_message_validate E (RvSubscriptionStarted a retained live)")
    (auto simp: write_viewer_def run_then_def announced_def split: if_splits)

lemma subscription_announced: "announced (subscription E rid publisher_id sid start admission idle inputs)"
proof -
  have silent: "silent (subscription_prologue E object_db envelope_db rid sid anchor high)" for object_db envelope_db anchor high
    unfolding subscription_prologue_def by (auto intro!: silent_then split: option.splits)
  have tail: "follows n (object_sequences (fst (run_then (reanchor_from_store E sid rid pages n) (\<lambda>m.
      run_then (if m > 0 then write_viewer E (RvLive m) else run_of (Ok ())) (\<lambda>_.
        live_loop E sid rid admission idle turns m)))))" for n pages turns
    by (rule follows_then [OF reanchor_gapless], rule follows_silent_then [OF _ live_loop_gapless]) simp
  show ?thesis
    unfolding subscription_def Let_def
    by (auto intro!: announced_then announced_start simp: announced_run_of)
      (auto intro!: follows_silent_then [OF silent] tail [simplified])
qed

section \<open>Properties\<close>

text \<open>C2: What a viewer receives has no gap, no repetition and no reordering: whatever the store returns
  at each call, whatever the live channel yields or drops, and wherever the session is cut off, the
  objects written to a subscription carry the announced first sequence and its successors, one by
  one.\<close>

theorem subscription_gapless:
  "object_sequences (fst (subscription E rid publisher_id sid start admission idle inputs)) = [] \<or>
   (\<exists>a retained live rest.
      fst (subscription E rid publisher_id sid start admission idle inputs) = RvSubscriptionStarted a retained live # rest \<and>
      map unat (object_sequences rest) = map (\<lambda>i. min (2 ^ 64 - 1) (unat a + i)) [0..<length (object_sequences rest)])"
proof -
  have "map unat ss = map (\<lambda>i. min (2 ^ 64 - 1) (unat a + i)) [0..<length ss]"
    if "follows (a - 1) ss" "a \<noteq> 0" for a ss
  proof (rule nth_equalityI)
    fix i
    assume "i < length (map unat ss)"
    then have "unat (ss ! i) = min (2 ^ 64 - 1) (unat (a - 1) + Suc i)" using follows_nth [OF that(1)] by simp
    moreover have "unat (a - 1) + Suc i = unat a + i"
      using that(2) unat_gt_0 [of a] by (simp add: unat_minus_one)
    ultimately show "map unat ss ! i = map (\<lambda>i. min (2 ^ 64 - 1) (unat a + i)) [0..<length ss] ! i"
      using \<open>i < length (map unat ss)\<close> by simp
  qed simp
  with subscription_announced [of E rid publisher_id sid start admission idle inputs] show ?thesis
    unfolding announced_def by fastforce
qed

end
