(* ===== verification/Service.thy ===== *)
theory Service
  imports Delivery
begin

text \<open>
  \<^verbatim>\<open>crates/relay/src/native_service.rs\<close>, the sessions of publishers and viewers over the shared state of
  the relay: the store, the pairing queue, the set of streams with a connected publisher and the
  live channels.

  A session handles one message at a time.  What it writes, what it does to the shared state and how
  it ends is a \<open>task\<close>.  The handling of one message is one step; sessions interleave between messages.
  The items sent on a live channel are recorded in order.  Lock poisoning and worker panics are not
  part of the model.
\<close>

section \<open>State\<close>

definition PAIRING_REQUEST_LIFETIME_MS :: i64 where
  "PAIRING_REQUEST_LIFETIME_MS = 24 * 60 * 60 * 1000"

record relay_state =
  rs_db :: native_db
  rs_queue :: pairing_db
  rs_online :: "uuid set"
  rs_live :: "(uuid \<times> live_item) list"

text \<open>A publisher session sees the relay and its own \<^verbatim>\<open>touched_streams\<close>.\<close>

record publisher_session =
  ps_relay :: relay_state
  ps_touched :: "uuid set"

section \<open>Tasks\<close>

type_synonym ('m, 's, 'a) task = "('m, service_error, 's, 'a) etask"

definition on_relay :: "('m, relay_state, 'a) task \<Rightarrow> ('m, publisher_session, 'a) task" where
  "on_relay t = (\<lambda>s. case t (ps_relay s) of (out, st, r) \<Rightarrow> (out, s\<lparr>ps_relay := st\<rparr>, r))"

definition store_call :: "(native_db \<Rightarrow> store_error + native_db \<times> 'a) \<Rightarrow> ('m, relay_state, 'a) task" where
  "store_call operation =
     (\<lambda>st. case operation (rs_db st) of
        Inl e \<Rightarrow> ([], st, Some (Err (SvStore e)))
      | Inr (db, x) \<Rightarrow> ([], st\<lparr>rs_db := db\<rparr>, Some (Ok x)))"

definition store_read :: "(native_db \<Rightarrow> store_error + 'a) \<Rightarrow> ('m, relay_state, 'a) task" where
  "store_read operation =
     (\<lambda>st. ([], st, Some (map_err SvStore (operation (rs_db st)))))"

definition pairing_call :: "(pairing_db \<Rightarrow> pairing_store_error + pairing_db \<times> 'a) \<Rightarrow> ('m, relay_state, 'a) task" where
  "pairing_call operation =
     (\<lambda>st. case operation (rs_queue st) of
        Inl e \<Rightarrow> ([], st, Some (Err (SvQueue e)))
      | Inr (q, x) \<Rightarrow> ([], st\<lparr>rs_queue := q\<rparr>, Some (Ok x)))"

definition live_send :: "uuid \<Rightarrow> live_item \<Rightarrow> ('m, relay_state, unit) task" where
  "live_send sid item = (\<lambda>st. ([], st\<lparr>rs_live := rs_live st @ [(sid, item)]\<rparr>, Some (Ok ())))"

definition claim_online :: "uuid \<Rightarrow> ('m, publisher_session, unit) task" where
  "claim_online sid =
     (\<lambda>s. if sid \<in> ps_touched s then ([], s, Some (Ok ()))
          else if sid \<in> rs_online (ps_relay s)
          then ([], s, Some (Err (SvRefused ''stream already has an active publisher session'')))
          else ([], s\<lparr>ps_relay := (ps_relay s)\<lparr>rs_online := insert sid (rs_online (ps_relay s))\<rparr>,
                      ps_touched := insert sid (ps_touched s)\<rparr>, Some (Ok ())))"

section \<open>Writing and reading\<close>

definition relay_welcome_for :: "native_admission \<Rightarrow> i64 \<Rightarrow> relay_welcome" where
  "relay_welcome_for admission now_ms =
     \<lparr>welcome_protocol_version = PROTOCOL_VERSION, welcome_access_mode = adm_mode admission,
      welcome_relay_time_ms = now_ms, welcome_credential_expires_at_ms = adm_expires_at_ms admission\<rparr>"

definition write_publisher ::
  "'z wire_env_scheme \<Rightarrow> relay_publisher_message \<Rightarrow> (relay_publisher_message, unit) run" where
  "write_publisher E m =
     (case relay_publisher_message_validate E m of
        Inl e \<Rightarrow> ([], Some (Err (SvWire e)))
      | Inr _ \<Rightarrow> ([m], Some (Ok ())))"

definition send_publisher_error ::
  "'z wire_env_scheme \<Rightarrow> relay_error_code \<Rightarrow> string \<Rightarrow> (relay_publisher_message, unit) run" where
  "send_publisher_error E code detail = write_publisher E (RpError \<lparr>err_code = code, err_detail = lit detail\<rparr>)"

datatype session_read_error = ReadExpired | ReadIdle | ReadProtocol service_error

text \<open>\<^verbatim>\<open>tokio::time::timeout\<close>: a read yields after some nanoseconds, or never.\<close>

definition timeout :: "nat \<Rightarrow> (nat \<times> 'a) option \<Rightarrow> 'a option" where
  "timeout limit read = (case read of Some (elapsed, x) \<Rightarrow> if elapsed \<le> limit then Some x else None | None \<Rightarrow> None)"

definition read_until_expiry ::
  "(nat \<times> (service_error + 'a)) option \<Rightarrow> i64 option \<Rightarrow> nat \<Rightarrow> i64 \<Rightarrow> session_read_error + 'a" where
  "read_until_expiry read expires_at_ms idle_timeout now_ms =
     (case expires_at_ms of
        None \<Rightarrow>
          (case timeout idle_timeout read of
             Some result \<Rightarrow> map_err ReadProtocol result
           | None \<Rightarrow> Err ReadIdle)
      | Some expiry \<Rightarrow>
          let remaining_ms = saturating_sub_i64 expiry now_ms
          in if sint remaining_ms < 0 then Err ReadExpired
             else let remaining = nat (sint remaining_ms) * 1000000
                  in (case timeout (min remaining idle_timeout) read of
                        Some result \<Rightarrow> map_err ReadProtocol result
                      | None \<Rightarrow> if remaining \<le> idle_timeout then Err ReadExpired else Err ReadIdle))"

section \<open>Publisher sessions\<close>

definition require_publisher :: "identity_public \<Rightarrow> identity_public \<Rightarrow> service_error + unit" where
  "require_publisher actual expected =
     (if actual \<noteq> expected then Err (SvRefused ''publisher application identity mismatch'') else Ok ())"

definition validate_resume_stream ::
  "'z wire_env_scheme \<Rightarrow> identity_public \<Rightarrow> publisher_resume_stream
    \<Rightarrow> (relay_publisher_message, publisher_session, unit) task" where
  "validate_resume_stream E publisher stream =
     task_then (on_relay (store_read (\<lambda>db. descriptor_in_transaction E db (pub_resume_stream_id stream)))) (\<lambda>found.
       case found of
         Some d \<Rightarrow> task_of (require_publisher (d_publisher (d_body d)) publisher)
       | None \<Rightarrow> task_of (Ok ()))"

fun resume_streams ::
  "'z wire_env_scheme \<Rightarrow> identity_public \<Rightarrow> publisher_resume_stream list
    \<Rightarrow> (relay_publisher_message, publisher_session, relay_resume_stream list) task" where
  "resume_streams E publisher [] = task_of (Ok [])"
| "resume_streams E publisher (stream # rest) =
     task_then (validate_resume_stream E publisher stream) (\<lambda>_.
     task_then (claim_online (pub_resume_stream_id stream)) (\<lambda>_.
     task_then (on_relay (store_read (\<lambda>db. high_water db (pub_resume_stream_id stream)))) (\<lambda>mark.
     task_then (resume_streams E publisher rest) (\<lambda>states.
       task_of (Ok (\<lparr>resume_stream_id = pub_resume_stream_id stream,
                     resume_committed_through = (case mark of Some v \<Rightarrow> v | None \<Rightarrow> 0)\<rparr> # states))))))"

definition publish_object ::
  "'z pairing_store_env_scheme \<Rightarrow> native_store_config \<Rightarrow> array32 \<Rightarrow> native_object \<Rightarrow> i64
    \<Rightarrow> (relay_publisher_message, publisher_session, unit) task" where
  "publish_object E cfg publisher_id obj now_ms =
     (let sid = h_stream_id (o_header obj)
      in if h_publisher_id (o_header obj) \<noteq> publisher_id
         then task_of (Err (SvRefused ''native object publisher identity mismatch''))
         else task_then (claim_online sid) (\<lambda>_.
              task_then (on_relay (store_call (store_object E cfg obj now_ms))) (\<lambda>commit.
              task_then (if inserted commit then on_relay (live_send sid (LiveObject obj)) else task_of (Ok ())) (\<lambda>_.
                task_run (write_publisher E (RpPublishAck sid (committed_through commit)))))))"

definition publish_envelope ::
  "'z pairing_store_env_scheme \<Rightarrow> native_store_config \<Rightarrow> array32 \<Rightarrow> key_envelope \<Rightarrow> i64
    \<Rightarrow> (relay_publisher_message, publisher_session, unit) task" where
  "publish_envelope E cfg publisher_id envelope now_ms =
     (if k_publisher_id (e_header envelope) \<noteq> publisher_id
      then task_of (Err (SvRefused ''key envelope publisher identity mismatch''))
      else task_then (on_relay (store_call (store_envelope E cfg envelope now_ms))) (\<lambda>inserted.
             if inserted then on_relay (live_send (k_stream_id (e_header envelope)) (LiveEnvelope envelope))
             else task_of (Ok ())))"

definition publisher_message_step ::
  "'z pairing_store_env_scheme \<Rightarrow> native_store_config \<Rightarrow> session_hello \<Rightarrow> array32 \<Rightarrow> publisher_message \<Rightarrow> i64
    \<Rightarrow> (relay_publisher_message, publisher_session, unit) task" where
  "publisher_message_step E cfg hello publisher_id message now_ms =
     (case message of
        PubHello _ \<Rightarrow>
          task_then (task_run (send_publisher_error E CodeProtocolViolation ''duplicate publisher hello'')) (\<lambda>_.
            task_of (Err (SvRefused ''duplicate publisher hello'')))
      | PubResume claimed resumed \<Rightarrow>
          if claimed \<noteq> publisher_id then task_of (Err (SvRefused ''publisher resume identity mismatch''))
          else task_then (resume_streams E (hello_identity hello) resumed) (\<lambda>states.
                 task_run (write_publisher E (RpResumeState states)))
      | PubDescriptor d \<Rightarrow>
          task_then (task_of (require_publisher (d_publisher (d_body d)) (hello_identity hello))) (\<lambda>_.
          task_then (claim_online (d_stream_id (d_body d))) (\<lambda>_.
            on_relay (store_call (\<lambda>db. and_then (put_descriptor E cfg d db) (\<lambda>db. Ok (db, ()))))))
      | PubObject obj \<Rightarrow> publish_object E cfg publisher_id obj now_ms
      | PubKeyEnvelope envelope \<Rightarrow> publish_envelope E cfg publisher_id envelope now_ms
      | PubPairOffer offer \<Rightarrow>
          if po_publisher (po_body offer) \<noteq> hello_identity hello
          then task_of (Err (SvRefused ''pair offer publisher identity mismatch''))
          else task_then (on_relay (pairing_call (\<lambda>q. store_offer E q offer now_ms PAIRING_REQUEST_LIFETIME_MS))) (\<lambda>_.
                 task_run (write_publisher E (RpPairingAck (po_request_id (po_body offer)))))
      | PubPairDecision decision \<Rightarrow>
          task_then (on_relay (pairing_call (\<lambda>q. store_decision E q decision now_ms))) (\<lambda>_.
            task_run (write_publisher E (RpPairingAck (pd_request_id (pd_body decision)))))
      | PubFetchPairingInbox \<Rightarrow>
          task_then (on_relay (pairing_call (\<lambda>q. publisher_inbox E q (hello_identity hello) now_ms))) (\<lambda>inbox.
          task_then (task_run (write_all (\<lambda>d. write_publisher E
                       (RpPairRequest (del_request d) (del_source_addr d) (del_received_at_ms d))) (inbox_requests inbox))) (\<lambda>_.
          task_then (task_run (write_all (\<lambda>c. write_publisher E (RpViewerConfirmation c)) (inbox_confirmations inbox))) (\<lambda>_.
            task_run (write_publisher E RpPairingInboxComplete))))
      | PubPing _ \<Rightarrow> task_run (write_publisher E (RpPong now_ms)))"

text \<open>One turn of the loop: the policy and the clock at its checks, and what the read yields.\<close>

record 'm session_turn =
  tn_policy :: native_access_policy
  tn_active_ms :: i64
  tn_code_ms :: i64
  tn_read_ms :: i64
  tn_read :: "(nat \<times> (service_error + 'm)) option"
  tn_now_ms :: i64

definition publisher_turn ::
  "'z pairing_store_env_scheme \<Rightarrow> native_store_config \<Rightarrow> session_hello \<Rightarrow> native_admission \<Rightarrow> nat \<Rightarrow> array32
    \<Rightarrow> publisher_message session_turn \<Rightarrow> (relay_publisher_message, publisher_session, unit) task" where
  "publisher_turn E cfg hello admission idle_timeout publisher_id turn =
     (case ensure_active E (tn_policy turn) admission (tn_active_ms turn) of
        Inl error \<Rightarrow>
          task_then (task_run (send_publisher_error E (active_credential_error_code admission (tn_code_ms turn))
                       ''publisher credential is no longer valid'')) (\<lambda>_. task_of (Err (SvAccess error)))
      | Inr _ \<Rightarrow>
          (case read_until_expiry (tn_read turn) (adm_expires_at_ms admission) idle_timeout (tn_read_ms turn) of
             Inl ReadExpired \<Rightarrow>
               task_then (task_run (send_publisher_error E CodeCredentialExpired ''publisher credential expired'')) (\<lambda>_.
                 task_of (Err (SvRefused ''publisher credential expired'')))
           | Inl ReadIdle \<Rightarrow> task_of (Err (SvRefused ''publisher session idle timeout''))
           | Inl (ReadProtocol error) \<Rightarrow> task_of (Err error)
           | Inr message \<Rightarrow>
               task_then (task_of (map_err SvWire (publisher_message_validate E message))) (\<lambda>_.
                 publisher_message_step E cfg hello publisher_id message (tn_now_ms turn))))"

fun publisher_loop ::
  "'z pairing_store_env_scheme \<Rightarrow> native_store_config \<Rightarrow> session_hello \<Rightarrow> native_admission \<Rightarrow> nat \<Rightarrow> array32
    \<Rightarrow> publisher_message session_turn list \<Rightarrow> (relay_publisher_message, publisher_session, unit) task" where
  "publisher_loop E cfg hello admission idle_timeout publisher_id [] = task_run ([], None)"
| "publisher_loop E cfg hello admission idle_timeout publisher_id (turn # turns) =
     task_then (publisher_turn E cfg hello admission idle_timeout publisher_id turn) (\<lambda>_.
       publisher_loop E cfg hello admission idle_timeout publisher_id turns)"

text \<open>Opening a session: the hello must be first and admitted before anything else is answered.\<close>

definition publisher_hello ::
  "'z wire_env_scheme \<Rightarrow> native_access_policy \<Rightarrow> publisher_message \<Rightarrow> array32 \<Rightarrow> i64 \<Rightarrow> i64
    \<Rightarrow> (relay_publisher_message, session_hello \<times> native_admission) run" where
  "publisher_hello E policy message noise_key now_ms welcome_ms =
     run_then (run_of (map_err SvWire (publisher_message_validate E message))) (\<lambda>_.
       case message of
         PubHello hello \<Rightarrow>
           (case admit E policy hello RolePublisher noise_key now_ms of
              Inl error \<Rightarrow>
                run_then (send_publisher_error E CodeUnauthorized ''publisher credential rejected'') (\<lambda>_.
                  run_of (Err (SvAccess error)))
            | Inr admission \<Rightarrow>
                run_then (write_publisher E (RpWelcome (relay_welcome_for admission welcome_ms))) (\<lambda>_.
                  run_of (Ok (hello, admission))))
       | _ \<Rightarrow>
           run_then (send_publisher_error E CodeProtocolViolation ''publisher hello must be first'') (\<lambda>_.
             run_of (Err (SvRefused ''publisher hello was not first''))))"

text \<open>Closing it: the touched streams are finalized, in the order of the set's iteration, errors logged
  only, and go offline.\<close>

fun finalize_streams :: "uuid list \<Rightarrow> native_db \<Rightarrow> native_db" where
  "finalize_streams [] db = db"
| "finalize_streams (sid # sids) db =
     finalize_streams sids (case finalize_stream sid db of Inl _ \<Rightarrow> db | Inr db' \<Rightarrow> db')"

definition close_publisher :: "uuid list \<Rightarrow> relay_state \<Rightarrow> relay_state" where
  "close_publisher touched st =
     st\<lparr>rs_db := finalize_streams touched (rs_db st), rs_online := rs_online st - set touched\<rparr>"

section \<open>Viewer sessions\<close>

definition catalog :: "'z wire_env_scheme \<Rightarrow> relay_state \<Rightarrow> service_error + catalog_entry list" where
  "catalog E st =
     and_then (map_err SvStore (summaries (rs_db st))) (\<lambda>found.
       try_map (\<lambda>(sid, summary).
           and_then (map_err SvStore (descriptor_in_transaction E (rs_db st) sid)) (\<lambda>descriptor.
           and_then (ok_or descriptor (SvRefused ''native summary lost its descriptor'')) (\<lambda>d.
             Ok \<lparr>cat_descriptor = d, cat_publisher_online = sid \<in> rs_online st,
                 cat_retained = map_option retained_wire (su_retained summary)\<rparr>)))
         found)"

definition request_pairing ::
  "'z pairing_store_env_scheme \<Rightarrow> session_hello \<Rightarrow> socket_addr \<Rightarrow> pair_request \<Rightarrow> i64
    \<Rightarrow> (relay_viewer_message, relay_state, unit) task" where
  "request_pairing E hello source_addr request now_ms =
     (if pr_viewer (pr_body request) \<noteq> hello_identity hello
      then task_of (Err (SvRefused ''pair request viewer identity mismatch''))
      else task_then (store_read (\<lambda>db. descriptor_in_transaction E db (pr_stream_id (pr_body request)))) (\<lambda>found.
        if map_option (\<lambda>d. d_publisher (d_body d)) found \<noteq> Some (pr_publisher (pr_body request))
        then task_run (send_viewer_error E CodeNotFound ''requested stream is not published by that identity'')
        else task_then (task_of (map_err SvPairing (pair_request_id E request))) (\<lambda>request_id.
             task_then (pairing_call (\<lambda>q. enqueue_request E q request source_addr now_ms PAIRING_REQUEST_LIFETIME_MS)) (\<lambda>_.
               task_run (write_viewer E (RvPairingQueued request_id))))))"

fun send_envelopes ::
  "'z wire_env_scheme \<Rightarrow> array32 \<Rightarrow> uuid list \<Rightarrow> (relay_viewer_message, relay_state, unit) task" where
  "send_envelopes E recipient_id [] = task_of (Ok ())"
| "send_envelopes E recipient_id (sid # sids) =
     task_then (store_read (\<lambda>db. list_envelopes E db sid recipient_id 4096)) (\<lambda>found.
     task_then (task_run (write_all (\<lambda>e. write_viewer E (RvKeyEnvelope e)) found)) (\<lambda>_.
       send_envelopes E recipient_id sids))"

definition fetch_inbox ::
  "'z pairing_store_env_scheme \<Rightarrow> session_hello \<Rightarrow> i64 \<Rightarrow> (relay_viewer_message, relay_state, unit) task" where
  "fetch_inbox E hello now_ms =
     task_then (pairing_call (\<lambda>q. viewer_inbox E q (hello_identity hello) now_ms)) (\<lambda>inbox.
     task_then (task_run (write_all (\<lambda>offer. write_viewer E (RvPairOffer offer)) (inbox_offers inbox))) (\<lambda>_.
     task_then (task_run (write_all (\<lambda>d. write_viewer E (RvPairDecision d)) (inbox_decisions inbox))) (\<lambda>_.
     task_then (task_of (map_err SvIdentity (identity_id E (hello_identity hello)))) (\<lambda>recipient_id.
     task_then (store_read summaries) (\<lambda>found.
     task_then (send_envelopes E recipient_id (map fst found)) (\<lambda>_.
       task_run (write_viewer E RvInboxComplete)))))))"

text \<open>Whether the loop goes on: a subscription takes the session over until its end.\<close>

definition viewer_message_step ::
  "'z pairing_store_env_scheme \<Rightarrow> session_hello \<Rightarrow> native_admission \<Rightarrow> socket_addr \<Rightarrow> nat \<Rightarrow> subscription_inputs
    \<Rightarrow> viewer_message \<Rightarrow> i64 \<Rightarrow> (relay_viewer_message, relay_state, bool) task" where
  "viewer_message_step E hello admission source_addr idle_timeout inputs message now_ms =
     (case message of
        VwHello _ \<Rightarrow> task_of (Err (SvRefused ''duplicate viewer hello''))
      | VwCatalog \<Rightarrow>
          (\<lambda>st. task_then (task_of (catalog E st)) (\<lambda>entries.
             task_then (task_run (write_viewer E (RvCatalog entries))) (\<lambda>_. task_of (Ok True))) st)
      | VwSubscribe publisher_id sid start \<Rightarrow>
          task_then (task_of (map_err SvIdentity (identity_id E (hello_identity hello)))) (\<lambda>recipient_id.
          task_then (task_run (subscription E recipient_id publisher_id sid start admission idle_timeout inputs)) (\<lambda>_.
            task_of (Ok False)))
      | VwPing _ \<Rightarrow> task_then (task_run (write_viewer E (RvPong now_ms))) (\<lambda>_. task_of (Ok True))
      | VwPairRequest request \<Rightarrow>
          task_then (request_pairing E hello source_addr request now_ms) (\<lambda>_. task_of (Ok True))
      | VwPairConfirmation confirmation \<Rightarrow>
          task_then (task_of (map_err SvIdentity (identity_id E (hello_identity hello)))) (\<lambda>viewer_id.
            if vc_viewer_id (vc_body confirmation) \<noteq> viewer_id
            then task_of (Err (SvRefused ''pair confirmation viewer identity mismatch''))
            else task_then (pairing_call (\<lambda>q. store_confirmation E q confirmation now_ms)) (\<lambda>_.
                 task_then (task_run (write_viewer E (RvPairingQueued (vc_request_id (vc_body confirmation))))) (\<lambda>_.
                   task_of (Ok True))))
      | VwFetchInbox \<Rightarrow> task_then (fetch_inbox E hello now_ms) (\<lambda>_. task_of (Ok True))
      | VwReanchor _ \<Rightarrow>
          task_then (task_run (send_viewer_error E CodeProtocolViolation ''re-anchor requires an active subscription'')) (\<lambda>_.
            task_of (Ok True)))"

definition viewer_turn ::
  "'z pairing_store_env_scheme \<Rightarrow> session_hello \<Rightarrow> native_admission \<Rightarrow> socket_addr \<Rightarrow> nat \<Rightarrow> subscription_inputs
    \<Rightarrow> viewer_message session_turn \<Rightarrow> (relay_viewer_message, relay_state, bool) task" where
  "viewer_turn E hello admission source_addr idle_timeout inputs turn =
     (case ensure_active E (tn_policy turn) admission (tn_active_ms turn) of
        Inl error \<Rightarrow>
          task_then (task_run (send_viewer_error E (active_credential_error_code admission (tn_code_ms turn))
                       ''viewer credential is no longer valid'')) (\<lambda>_. task_of (Err (SvAccess error)))
      | Inr _ \<Rightarrow>
          (case read_until_expiry (tn_read turn) (adm_expires_at_ms admission) idle_timeout (tn_read_ms turn) of
             Inl ReadExpired \<Rightarrow>
               task_then (task_run (send_viewer_error E CodeCredentialExpired ''viewer credential expired'')) (\<lambda>_.
                 task_of (Err (SvRefused ''viewer credential expired'')))
           | Inl ReadIdle \<Rightarrow> task_of (Err (SvRefused ''viewer session idle timeout''))
           | Inl (ReadProtocol error) \<Rightarrow> task_of (Err error)
           | Inr message \<Rightarrow>
               task_then (task_of (map_err SvWire (viewer_message_validate E message))) (\<lambda>_.
                 viewer_message_step E hello admission source_addr idle_timeout inputs message (tn_now_ms turn))))"

fun viewer_loop ::
  "'z pairing_store_env_scheme \<Rightarrow> session_hello \<Rightarrow> native_admission \<Rightarrow> socket_addr \<Rightarrow> nat
    \<Rightarrow> (viewer_message session_turn \<times> subscription_inputs) list \<Rightarrow> (relay_viewer_message, relay_state, unit) task" where
  "viewer_loop E hello admission source_addr idle_timeout [] = task_run ([], None)"
| "viewer_loop E hello admission source_addr idle_timeout ((turn, inputs) # turns) =
     task_then (viewer_turn E hello admission source_addr idle_timeout inputs turn) (\<lambda>continue.
       if continue then viewer_loop E hello admission source_addr idle_timeout turns else task_of (Ok ()))"

definition viewer_hello ::
  "'z wire_env_scheme \<Rightarrow> native_access_policy \<Rightarrow> viewer_message \<Rightarrow> array32 \<Rightarrow> i64 \<Rightarrow> i64
    \<Rightarrow> (relay_viewer_message, session_hello \<times> native_admission) run" where
  "viewer_hello E policy message noise_key now_ms welcome_ms =
     run_then (run_of (map_err SvWire (viewer_message_validate E message))) (\<lambda>_.
       case message of
         VwHello hello \<Rightarrow>
           (case admit E policy hello RoleViewer noise_key now_ms of
              Inl error \<Rightarrow>
                run_then (send_viewer_error E CodeUnauthorized ''viewer credential rejected'') (\<lambda>_.
                  run_of (Err (SvAccess error)))
            | Inr admission \<Rightarrow>
                run_then (write_viewer E (RvWelcome (relay_welcome_for admission welcome_ms))) (\<lambda>_.
                  run_of (Ok (hello, admission))))
       | _ \<Rightarrow>
           run_then (send_viewer_error E CodeProtocolViolation ''viewer hello must be first'') (\<lambda>_.
             run_of (Err (SvRefused ''viewer hello was not first''))))"

end
