(* ===== verification/ServiceProperties.thy ===== *)
theory ServiceProperties
  imports Service
begin

text \<open>
  The relay as a whole: sessions of publishers and viewers and the periodic retention pass interleave
  over the shared state.  Every step of it is a sequence of transactions of the two stores, so what
  holds in their reachable states holds in the relay; and a stream never has two publishers.
\<close>

section \<open>The relay as a state machine\<close>

text \<open>The shared state, the streams each open publisher session has claimed, and the clock.\<close>

record relay_system =
  sys_relay :: relay_state
  sys_sessions :: "nat \<Rightarrow> uuid set option"
  sys_clock :: i64

definition initial_system :: "i64 \<Rightarrow> relay_system" where
  "initial_system t =
     \<lparr>sys_relay = \<lparr>rs_db = empty_db, rs_queue = [], rs_online = {}, rs_live = []\<rparr>,
      sys_sessions = (\<lambda>_. None), sys_clock = t\<rparr>"

inductive relay_step ::
  "'z pairing_store_env_scheme \<Rightarrow> native_store_config \<Rightarrow> relay_system \<Rightarrow> relay_system \<Rightarrow> bool" for E cfg where
  sys_connect: "sys_sessions s i = None \<Longrightarrow> relay_step E cfg s (s\<lparr>sys_sessions := (sys_sessions s)(i \<mapsto> {})\<rparr>)"
| sys_publish: "sys_sessions s i = Some touched \<Longrightarrow> sint (sys_clock s) \<le> sint now_ms \<Longrightarrow>
    publisher_message_step E cfg hello publisher_id message now_ms
      \<lparr>ps_relay = sys_relay s, ps_touched = touched\<rparr> = (out, p, r) \<Longrightarrow>
    relay_step E cfg s \<lparr>sys_relay = ps_relay p, sys_sessions = (sys_sessions s)(i \<mapsto> ps_touched p), sys_clock = now_ms\<rparr>"
| sys_disconnect: "sys_sessions s i = Some touched \<Longrightarrow> set order = touched \<Longrightarrow>
    relay_step E cfg s (s\<lparr>sys_relay := close_publisher order (sys_relay s), sys_sessions := (sys_sessions s)(i := None)\<rparr>)"
| sys_view: "sint (sys_clock s) \<le> sint now_ms \<Longrightarrow>
    viewer_message_step E hello admission source_addr idle inputs request now_ms (sys_relay s) = (out', st, r') \<Longrightarrow>
    relay_step E cfg s (s\<lparr>sys_relay := st, sys_clock := now_ms\<rparr>)"
| sys_retain: "enforce_retention_at cfg now_ms (rs_db (sys_relay s)) = Ok (db, n) \<Longrightarrow>
    relay_step E cfg s (s\<lparr>sys_relay := (sys_relay s)\<lparr>rs_db := db\<rparr>\<rparr>)"

section \<open>Sessions over the relay\<close>

lemma keeps_on_relay:
  assumes "task_keeps R t" and "\<And>s st. R (ps_relay s) st \<Longrightarrow> Q s (s\<lparr>ps_relay := st\<rparr>)"
  shows "task_keeps Q (on_relay t)"
  unfolding task_keeps_def
proof
  fix s :: publisher_session
  obtain out st r where "t (ps_relay s) = (out, st, r)" by (cases "t (ps_relay s)")
  with task_keepsD [OF assms(1)] assms(2) show "Q s (fst (snd (on_relay t s)))" by (simp add: on_relay_def)
qed

section \<open>Steps of the relay are transactions of the stores\<close>

definition queue_moves :: "'z pairing_store_env_scheme \<Rightarrow> i64 \<Rightarrow> pairing_db \<Rightarrow> pairing_db \<Rightarrow> bool" where
  "queue_moves E now_ms q q' \<longleftrightarrow>
     (\<forall>t. sint t \<le> sint now_ms \<longrightarrow> (\<exists>u. (pairing_step E)\<^sup>*\<^sup>* (q, t) (q', u) \<and> sint u \<le> sint now_ms))"

definition relay_moves ::
  "'z pairing_store_env_scheme \<Rightarrow> native_store_config \<Rightarrow> i64 \<Rightarrow> relay_state \<Rightarrow> relay_state \<Rightarrow> bool" where
  "relay_moves E cfg now_ms st st' \<longleftrightarrow>
     (store_step E cfg)\<^sup>*\<^sup>* (rs_db st) (rs_db st') \<and> queue_moves E now_ms (rs_queue st) (rs_queue st') \<and>
     rs_online st' = rs_online st"

lemma queue_moves_refl: "queue_moves E now_ms q q"
  by (auto simp: queue_moves_def)

lemma queue_moves_trans: "queue_moves E now_ms q1 q2 \<Longrightarrow> queue_moves E now_ms q2 q3 \<Longrightarrow> queue_moves E now_ms q1 q3"
  unfolding queue_moves_def by (meson rtranclp_trans)

lemma queue_moves_step: "(\<And>t. sint t \<le> sint now_ms \<Longrightarrow> pairing_step E (q, t) (q', now_ms)) \<Longrightarrow> queue_moves E now_ms q q'"
  unfolding queue_moves_def by blast

lemma relay_moves_refl: "reflp (relay_moves E cfg now_ms)"
  by (auto simp: relay_moves_def queue_moves_refl intro: reflpI)

lemma relay_moves_trans: "transp (relay_moves E cfg now_ms)"
  by (rule transpI) (auto simp: relay_moves_def intro: rtranclp_trans queue_moves_trans)

lemmas relay_moves_rules = keeps_run [OF relay_moves_refl] keeps_of [OF relay_moves_refl] keeps_then [OF relay_moves_trans]

lemma keeps_store_call:
  assumes "\<And>db db' x. operation db = Ok (db', x) \<Longrightarrow> (store_step E cfg)\<^sup>*\<^sup>* db db'"
  shows "task_keeps (relay_moves E cfg now_ms) (store_call operation)"
  using assms by (auto simp: task_keeps_def store_call_def relay_moves_def queue_moves_refl split: sum.splits)

lemma keeps_store_read: "task_keeps (relay_moves E cfg now_ms) (store_read operation)"
  using relay_moves_refl by (auto simp: task_keeps_def store_read_def dest: reflpD)

lemma keeps_pairing_call:
  assumes "\<And>q q' x t. operation q = Ok (q', x) \<Longrightarrow> sint t \<le> sint now_ms \<Longrightarrow> pairing_step E (q, t) (q', now_ms)"
  shows "task_keeps (relay_moves E cfg now_ms) (pairing_call operation)"
  using assms by (auto simp: task_keeps_def pairing_call_def relay_moves_def queue_moves_refl queue_moves_step split: sum.splits)

lemma keeps_live_send: "task_keeps (relay_moves E cfg now_ms) (live_send sid item)"
  by (simp add: task_keeps_def live_send_def relay_moves_def queue_moves_refl)

lemmas relay_calls = keeps_store_call keeps_store_read keeps_pairing_call keeps_live_send

lemma viewer_message_step_moves:
  "task_keeps (relay_moves E cfg now_ms) (viewer_message_step E hello admission source_addr idle inputs message now_ms)"
proof -
  have send: "task_keeps (relay_moves E cfg now_ms) (send_envelopes E rid sids)" for rid sids
    by (induction sids) (auto intro!: relay_moves_rules relay_calls)
  have catalog: "task_keeps (relay_moves E cfg now_ms) (\<lambda>st. task_then (task_of (catalog E st)) (\<lambda>entries.
      task_then (task_run (write_viewer E (RvCatalog entries))) (\<lambda>_. task_of (Ok True))) st)"
  proof -
    have "task_keeps (relay_moves E cfg now_ms) (task_then (task_of c) (\<lambda>entries.
      task_then (task_run (write_viewer E (RvCatalog entries))) (\<lambda>_. task_of (Ok True))))" for c
      by (auto intro!: relay_moves_rules)
    then show ?thesis by (simp add: task_keeps_def)
  qed
  show ?thesis
    by (cases message)
      (auto simp: viewer_message_step_def request_pairing_def fetch_inbox_def
        intro!: relay_moves_rules relay_calls send catalog intro: step_enqueue step_confirmation step_viewer_inbox)
qed

text \<open>A publisher session moves the relay and claims streams nobody had claimed.\<close>

definition session_moves ::
  "'z pairing_store_env_scheme \<Rightarrow> native_store_config \<Rightarrow> i64 \<Rightarrow> publisher_session \<Rightarrow> publisher_session \<Rightarrow> bool" where
  "session_moves E cfg now_ms s s' \<longleftrightarrow>
     (store_step E cfg)\<^sup>*\<^sup>* (rs_db (ps_relay s)) (rs_db (ps_relay s')) \<and>
     queue_moves E now_ms (rs_queue (ps_relay s)) (rs_queue (ps_relay s')) \<and>
     ps_touched s \<subseteq> ps_touched s' \<and> (ps_touched s' - ps_touched s) \<inter> rs_online (ps_relay s) = {} \<and>
     rs_online (ps_relay s') = rs_online (ps_relay s) \<union> (ps_touched s' - ps_touched s)"

lemma session_moves_refl: "reflp (session_moves E cfg now_ms)"
  by (auto simp: session_moves_def queue_moves_refl intro: reflpI)

lemma session_moves_trans: "transp (session_moves E cfg now_ms)"
proof (rule transpI)
  fix a b c
  assume 1: "session_moves E cfg now_ms a b" and 2: "session_moves E cfg now_ms b c"
  then have "(store_step E cfg)\<^sup>*\<^sup>* (rs_db (ps_relay a)) (rs_db (ps_relay c))"
    "queue_moves E now_ms (rs_queue (ps_relay a)) (rs_queue (ps_relay c))"
    by (auto simp: session_moves_def intro: rtranclp_trans queue_moves_trans)
  with 1 2 show "session_moves E cfg now_ms a c" unfolding session_moves_def by blast
qed

lemmas session_moves_rules =
  keeps_run [OF session_moves_refl] keeps_of [OF session_moves_refl] keeps_then [OF session_moves_trans]

lemma keeps_relay: "task_keeps (relay_moves E cfg now_ms) t \<Longrightarrow> task_keeps (session_moves E cfg now_ms) (on_relay t)"
  by (erule keeps_on_relay) (auto simp: relay_moves_def session_moves_def)

lemma keeps_claim: "task_keeps (session_moves E cfg now_ms) (claim_online sid)"
  by (auto simp: task_keeps_def claim_online_def session_moves_def queue_moves_refl)

lemma transaction_steps:
  "put_descriptor E cfg d db = Ok db' \<Longrightarrow> (store_step E cfg)\<^sup>*\<^sup>* db db'"
  "store_object E cfg obj received db = Ok (db', c) \<Longrightarrow> (store_step E cfg)\<^sup>*\<^sup>* db db'"
  "store_envelope E cfg e received db = Ok (db', stored) \<Longrightarrow> (store_step E cfg)\<^sup>*\<^sup>* db db'"
  by (rule r_into_rtranclp, erule store_step.intros)+

lemma publisher_message_step_moves:
  "task_keeps (session_moves E cfg now_ms) (publisher_message_step E cfg hello publisher_id message now_ms)"
proof -
  have resume: "task_keeps (session_moves E cfg now_ms) (resume_streams E i rs)" for i rs
    by (induction rs)
      (auto simp: validate_resume_stream_def intro!: session_moves_rules keeps_relay keeps_claim relay_calls split: option.splits)
  show ?thesis
    by (cases message)
      (auto simp: publisher_message_step_def publish_object_def publish_envelope_def Let_def result_simps
        intro!: session_moves_rules keeps_relay keeps_claim relay_calls resume
        intro: step_offer step_decision step_publisher_inbox transaction_steps)
qed

section \<open>Invariant\<close>

definition system_inv :: "'z pairing_store_env_scheme \<Rightarrow> native_store_config \<Rightarrow> i64 \<Rightarrow> relay_system \<Rightarrow> bool" where
  "system_inv E cfg t0 s \<longleftrightarrow>
     (store_step E cfg)\<^sup>*\<^sup>* empty_db (rs_db (sys_relay s)) \<and>
     (\<exists>u. (pairing_step E)\<^sup>*\<^sup>* ([], t0) (rs_queue (sys_relay s), u) \<and> sint u \<le> sint (sys_clock s)) \<and>
     (\<forall>i j a b. sys_sessions s i = Some a \<longrightarrow> sys_sessions s j = Some b \<longrightarrow> i \<noteq> j \<longrightarrow> a \<inter> b = {}) \<and>
     rs_online (sys_relay s) = \<Union>(ran (sys_sessions s))"

lemma finalize_streams_steps: "(store_step E cfg)\<^sup>*\<^sup>* db (finalize_streams sids db)"
proof (induction sids arbitrary: db)
  case (Cons sid sids)
  show ?case
  proof (cases "finalize_stream sid db")
    case (Inr db')
    then have "store_step E cfg db db'" by (rule store_step.finalize)
    with Cons [of db'] Inr show ?thesis by (simp add: converse_rtranclp_into_rtranclp)
  qed (simp add: Cons)
qed simp

lemma system_queue:
  assumes "system_inv E cfg t0 s" and "sint (sys_clock s) \<le> sint now_ms"
    and "queue_moves E now_ms (rs_queue (sys_relay s)) q"
  shows "\<exists>u. (pairing_step E)\<^sup>*\<^sup>* ([], t0) (q, u) \<and> sint u \<le> sint now_ms"
proof -
  from assms(1) obtain u where u: "(pairing_step E)\<^sup>*\<^sup>* ([], t0) (rs_queue (sys_relay s), u)" "sint u \<le> sint (sys_clock s)"
    unfolding system_inv_def by blast
  with assms(2) have "sint u \<le> sint now_ms" by simp
  with assms(3) obtain v where "(pairing_step E)\<^sup>*\<^sup>* (rs_queue (sys_relay s), u) (q, v)" "sint v \<le> sint now_ms"
    unfolding queue_moves_def by blast
  with u(1) show ?thesis by (meson rtranclp_trans)
qed

text \<open>The streams claimed by session \<open>i\<close> and by the others.\<close>

lemma claimed_split:
  fixes m :: "'a \<Rightarrow> 'b set option"
  shows "\<Union>(ran m) = (case m i of None \<Rightarrow> {} | Some a \<Rightarrow> a) \<union> \<Union>(ran (m(i := None)))"
proof -
  have member: "x \<in> \<Union>(ran f) \<longleftrightarrow> (\<exists>j a. f j = Some a \<and> x \<in> a)" for x and f :: "'a \<Rightarrow> 'b set option"
    by (auto simp: ran_def)
  have upd: "(m(i := None)) j = Some a \<longleftrightarrow> j \<noteq> i \<and> m j = Some a" for j a by simp
  show ?thesis
  proof (rule set_eqI)
    fix x
    show "x \<in> \<Union>(ran m) \<longleftrightarrow> x \<in> (case m i of None \<Rightarrow> {} | Some a \<Rightarrow> a) \<union> \<Union>(ran (m(i := None)))"
      unfolding Un_iff member upd by (cases "m i"; simp; metis option.distinct(1) option.inject)
  qed
qed

lemma claimed_split_Some: "m i = Some a \<Longrightarrow> \<Union>(ran m) = a \<union> \<Union>(ran (m(i := None)))"
  using claimed_split [of m i] by (simp only: option.case)

lemma system_step_inv:
  assumes "relay_step E cfg s s'" and inv: "system_inv E cfg t0 s"
  shows "system_inv E cfg t0 s'"
  using assms(1)
proof cases
  case (sys_connect i)
  with inv show ?thesis by (auto simp: system_inv_def split: if_splits)
next
  case (sys_publish i touched now_ms hello publisher_id message out p r)
  from task_keepsD [OF publisher_message_step_moves sys_publish(4)]
  have moves: "session_moves E cfg now_ms \<lparr>ps_relay = sys_relay s, ps_touched = touched\<rparr> p" .
  have online: "ps_touched p = touched \<union> (ps_touched p - touched)"
    "(ps_touched p - touched) \<inter> \<Union>(ran (sys_sessions s)) = {}"
    "rs_online (ps_relay p) = \<Union>(ran (sys_sessions s)) \<union> (ps_touched p - touched)"
    using inv moves by (auto simp: system_inv_def session_moves_def)
  have others: "a \<inter> ps_touched p = {}" if "sys_sessions s j = Some a" "j \<noteq> i" for a j
  proof -
    have "a \<inter> touched = {}" using inv that sys_publish(2) unfolding system_inv_def by blast
    moreover have "a \<subseteq> \<Union>(ran (sys_sessions s))" using that(1) by (auto simp: ran_def)
    ultimately show ?thesis using online by blast
  qed
  have "(store_step E cfg)\<^sup>*\<^sup>* empty_db (rs_db (ps_relay p))"
    using inv moves by (auto simp: system_inv_def session_moves_def)
  moreover have "\<exists>u. (pairing_step E)\<^sup>*\<^sup>* ([], t0) (rs_queue (ps_relay p), u) \<and> sint u \<le> sint now_ms"
    by (rule system_queue [OF inv sys_publish(3)]) (use moves in \<open>simp add: session_moves_def\<close>)
  moreover have "rs_online (ps_relay p) = \<Union>(ran ((sys_sessions s)(i \<mapsto> ps_touched p)))"
  proof -
    have eq: "(touched \<union> R) \<union> (ps_touched p - touched) = ps_touched p \<union> R" for R using online(1) by blast
    have "\<Union>(ran ((sys_sessions s)(i \<mapsto> ps_touched p))) = ps_touched p \<union> \<Union>(ran ((sys_sessions s)(i := None)))"
      using claimed_split_Some [of "(sys_sessions s)(i \<mapsto> ps_touched p)" i] by (simp only: fun_upd_upd fun_upd_same)
    then show ?thesis
      unfolding online(3) claimed_split_Some [of "sys_sessions s" i, OF sys_publish(2)] eq by (rule sym)
  qed
  moreover have "\<forall>k j a b. ((sys_sessions s)(i \<mapsto> ps_touched p)) k = Some a \<longrightarrow>
      ((sys_sessions s)(i \<mapsto> ps_touched p)) j = Some b \<longrightarrow> k \<noteq> j \<longrightarrow> a \<inter> b = {}"
  proof (intro allI impI)
    fix k j a b
    assume "((sys_sessions s)(i \<mapsto> ps_touched p)) k = Some a" "((sys_sessions s)(i \<mapsto> ps_touched p)) j = Some b" "k \<noteq> j"
    then show "a \<inter> b = {}"
      using others [of k a] others [of j b] inv unfolding system_inv_def by (cases "k = i"; cases "j = i") (simp_all, blast+)
  qed
  ultimately show ?thesis unfolding system_inv_def sys_publish(1) relay_system.simps by (intro conjI)
next
  case (sys_disconnect i touched order)
  have "(store_step E cfg)\<^sup>*\<^sup>* empty_db (rs_db (close_publisher order (sys_relay s)))"
  proof -
    have "(store_step E cfg)\<^sup>*\<^sup>* empty_db (rs_db (sys_relay s))" using inv by (simp add: system_inv_def)
    from rtranclp_trans [OF this finalize_streams_steps] show ?thesis by (simp add: close_publisher_def)
  qed
  moreover have "rs_online (close_publisher order (sys_relay s)) = \<Union>(ran ((sys_sessions s)(i := None)))"
  proof -
    have "a \<inter> touched = {}" if "sys_sessions s j = Some a" "j \<noteq> i" for a j
      using inv that sys_disconnect(2) unfolding system_inv_def by blast
    then have "touched \<inter> \<Union>(ran ((sys_sessions s)(i := None))) = {}" by (auto simp: ran_def split: if_splits)
    then show ?thesis
      using inv claimed_split_Some [of "sys_sessions s" i, OF sys_disconnect(2)] sys_disconnect(3) unfolding system_inv_def close_publisher_def by auto
  qed
  ultimately show ?thesis
    using inv unfolding system_inv_def sys_disconnect(1) by (auto simp: close_publisher_def split: if_splits)
next
  case (sys_view now_ms hello admission source_addr idle inputs request out' st r')
  from task_keepsD [OF viewer_message_step_moves sys_view(3)]
  have moves: "relay_moves E cfg now_ms (sys_relay s) st" .
  then have "(store_step E cfg)\<^sup>*\<^sup>* empty_db (rs_db st)" "rs_online st = rs_online (sys_relay s)"
    using inv by (auto simp: system_inv_def relay_moves_def)
  moreover have "\<exists>u. (pairing_step E)\<^sup>*\<^sup>* ([], t0) (rs_queue st, u) \<and> sint u \<le> sint now_ms"
    by (rule system_queue [OF inv sys_view(2)]) (use moves in \<open>simp add: relay_moves_def\<close>)
  ultimately show ?thesis using inv unfolding system_inv_def sys_view(1) by simp
next
  case (sys_retain now_ms db n)
  then have "store_step E cfg (rs_db (sys_relay s)) db" by (intro store_step.retention)
  with inv show ?thesis unfolding system_inv_def sys_retain(1) by (auto intro: rtranclp.rtrancl_into_rtrancl)
qed

interpretation relay_machine: invariant_machine "relay_step E cfg" "system_inv E cfg t0" for E cfg t0
  by unfold_locales (rule system_step_inv)

lemma initial_system_inv: "system_inv E cfg t0 (initial_system t0)"
  by (auto simp: system_inv_def initial_system_def ran_def)

lemma reachable_system_inv: "(relay_step E cfg)\<^sup>*\<^sup>* (initial_system t0) s \<Longrightarrow> system_inv E cfg t0 s"
  using relay_machine.reachable_inv initial_system_inv by blast

section \<open>The catalog\<close>

lemma catalog_entry_ok:
  assumes "descriptors_ok E db" and "inv_keys db" and "postcard_ok (descriptor_codec E)" and "s \<in> set (streams db)"
  obtains d where "descriptor_in_transaction E db (s_stream_id s) = Ok (Some d)" "descriptor_verify E d = Ok ()"
    "d_stream_id (d_body d) = s_stream_id s"
proof -
  from assms(1,4) obtain d where d: "descriptor_encode E d = Ok (s_descriptor s)" "d_stream_id (d_body d) = s_stream_id s"
    by (auto simp: descriptors_ok_def)
  have "descriptor_decode E (s_descriptor s) = Ok d" by (rule descriptor_format.decode_encode [OF assms(3) d(1)])
  moreover have "find_stream db (s_stream_id s) = Some s" using assms(2,4) by (simp add: find_stream_iff)
  ultimately have "descriptor_in_transaction E db (s_stream_id s) = Ok (Some d)" by (simp add: descriptor_in_transaction_def)
  moreover have "descriptor_verify E d = Ok ()" using d(1) by (simp add: descriptor_encode_ok)
  ultimately show thesis using d(2) by (rule that)
qed

lemma catalog_entries_ok:
  assumes "\<And>sid. sid \<in> fst ` set xs \<Longrightarrow> \<exists>d. descriptor_in_transaction E (rs_db st) sid = Ok (Some d) \<and>
      descriptor_verify E d = Ok () \<and> d_stream_id (d_body d) = sid"
    and "\<And>sid su b. (sid, su) \<in> set xs \<Longrightarrow> su_retained su = Some b \<Longrightarrow> bounds_ordered b"
  shows "\<exists>entries. try_map (\<lambda>(sid, summary).
           and_then (map_err SvStore (descriptor_in_transaction E (rs_db st) sid)) (\<lambda>descriptor.
           and_then (ok_or descriptor (SvRefused ''native summary lost its descriptor'')) (\<lambda>d.
             Ok \<lparr>cat_descriptor = d, cat_publisher_online = sid \<in> rs_online st,
                 cat_retained = map_option retained_wire (su_retained summary)\<rparr>))) xs = Ok entries \<and>
     map (\<lambda>c. d_stream_id (d_body (cat_descriptor c))) entries = map fst xs \<and>
     (\<forall>c\<in>set entries. descriptor_verify E (cat_descriptor c) = Ok () \<and> bounds_option_validate (cat_retained c) = Ok () \<and>
        cat_publisher_online c = (d_stream_id (d_body (cat_descriptor c)) \<in> rs_online st))" (is "\<exists>entries. ?made xs entries")
  using assms
proof (induction xs)
  case Nil
  then show ?case by simp
next
  case (Cons x xs)
  obtain sid su where x: "x = (sid, su)" by (cases x)
  from Cons.prems(1) [of sid] x obtain d where
    d: "descriptor_in_transaction E (rs_db st) sid = Ok (Some d)" "descriptor_verify E d = Ok ()"
    "d_stream_id (d_body d) = sid" by auto
  have "bounds_option_validate (map_option retained_wire (su_retained su)) = Ok ()"
    using Cons.prems(2) [of sid su] x
    by (cases "su_retained su") (auto simp: bounds_option_validate_def bounds_validate_ok retained_wire_def bounds_ordered_def)
  moreover have "\<exists>entries. ?made xs entries"
    by (rule Cons.IH) (use Cons.prems in \<open>auto 4 3\<close>)
  then obtain entries where "?made xs entries" by blast
  ultimately show ?case using d by (auto simp: x intro!: exI)
qed

section \<open>Acknowledgements\<close>

lemma writes_on_relay: "task_writes P t \<Longrightarrow> task_writes P (on_relay t)"
  unfolding task_writes_def on_relay_def by (auto split: prod.splits) (metis fst_conv)

lemma writes_calls:
  "task_writes P (store_call f)" "task_writes P (store_read g)" "task_writes P (pairing_call h)"
  "task_writes P (live_send sid item)" "task_writes P (claim_online sid)"
  by (auto simp: task_writes_def store_call_def store_read_def pairing_call_def live_send_def claim_online_def
      split: sum.splits prod.splits)

lemmas writes_rules = writes_run writes_of writes_then writes_on_relay writes_calls

lemma written_publisher: "m \<in> set (fst (write_publisher E m')) \<Longrightarrow> m = m'"
  by (simp add: write_publisher_def split: sum.splits)

definition not_ack :: "relay_publisher_message \<Rightarrow> bool" where
  "not_ack m \<longleftrightarrow> (\<forall>sid n. m \<noteq> RpPublishAck sid n)"

lemma only_objects_acknowledged:
  assumes "\<nexists>obj. message = PubObject obj"
  shows "task_writes not_ack (publisher_message_step E cfg hello publisher_id message now_ms)"
proof -
  have resume: "task_writes not_ack (resume_streams E i rs)" for i rs
    by (induction rs) (auto simp: validate_resume_stream_def intro!: writes_rules split: option.splits)
  have one: "task_writes not_ack (task_run (write_publisher E m))" if "not_ack m" for m
    by (rule writes_run, drule written_publisher) (simp add: that)
  have all: "task_writes not_ack (task_run (write_all (\<lambda>x. write_publisher E (f x)) xs))" if "\<And>x. not_ack (f x)" for f and xs :: "'b list"
    by (rule writes_run, drule written_all, elim bexE, drule written_publisher) (simp add: that)
  show ?thesis
    using assms
    by (cases message)
      (auto simp: publisher_message_step_def publish_envelope_def send_publisher_error_def not_ack_def
        intro!: writes_then writes_of writes_on_relay writes_calls resume one all)
qed

lemma stored_object_found:
  assumes "store_inv db" and "store_object E cfg obj received db = Ok (db', c)"
  shows "committed_through c = h_sequence (o_header obj) \<and>
    (\<exists>row d. find_object db' (h_stream_id (o_header obj)) (uint (h_sequence (o_header obj))) = Some row \<and>
       descriptor_in_transaction E db (h_stream_id (o_header obj)) = Ok (Some d) \<and>
       object_encode E (d_publisher (d_body d)) obj = Ok (ob_object row))"
  using assms(2)
proof (cases rule: store_object_ok)
  case (2 d encoded s kg db1 db2 n pid)
  then have "inserted c" by simp
  from inserted_object_present [OF assms this] have
    "\<exists>row d. find_object db' (h_stream_id (o_header obj)) (uint (h_sequence (o_header obj))) = Some row \<and>
       descriptor_in_transaction E db (h_stream_id (o_header obj)) = Ok (Some d) \<and>
       object_encode E (d_publisher (d_body d)) obj = Ok (ob_object row)" by metis
  with 2 show ?thesis by simp
qed auto

lemma publish_object_writes:
  assumes "publish_object E cfg publisher_id obj now_ms s = (out, p, r)" and "out \<noteq> []"
  obtains c where "h_publisher_id (o_header obj) = publisher_id"
    "store_object E cfg obj now_ms (rs_db (ps_relay s)) = Ok (rs_db (ps_relay p), c)"
    "out = [RpPublishAck (h_stream_id (o_header obj)) (committed_through c)]"
    "h_stream_id (o_header obj) \<in> ps_touched p"
proof -
  let ?sid = "h_stream_id (o_header obj)"
  have owner: "h_publisher_id (o_header obj) = publisher_id"
    using assms by (cases "h_publisher_id (o_header obj) = publisher_id") (simp_all add: publish_object_def Let_def task_of_def task_run_def run_of_def)
  obtain s1 r1 where claim: "claim_online ?sid s = ([] :: relay_publisher_message list, s1, r1)" "rs_db (ps_relay s1) = rs_db (ps_relay s)"
    "r1 = Some (Ok ()) \<Longrightarrow> ?sid \<in> ps_touched s1"
  proof (cases "claim_online ?sid s :: relay_publisher_message list \<times> publisher_session \<times> (service_error + unit) option")
    case (fields out s1 r1)
    then show thesis by (intro that [of s1 r1]) (auto simp: claim_online_def split: if_splits)
  qed
  have r1: "r1 = Some (Ok ())"
    using assms owner claim(1) by (cases r1; auto simp: publish_object_def Let_def task_then_def split: sum.splits)
  then obtain db c where c: "store_object E cfg obj now_ms (rs_db (ps_relay s)) = Ok (db, c)"
    using assms owner claim(1,2)
    by (cases "store_object E cfg obj now_ms (rs_db (ps_relay s))")
      (auto simp: publish_object_def Let_def task_then_def on_relay_def store_call_def)
  have "rs_db (ps_relay p) = db \<and> ps_touched p = ps_touched s1 \<and> out = [RpPublishAck ?sid (committed_through c)]"
    using assms owner claim(1,2) r1 c
    by (cases "relay_publisher_message_validate E (RpPublishAck ?sid (committed_through c))")
      (auto simp: publish_object_def Let_def task_then_def on_relay_def store_call_def live_send_def task_of_def task_run_def
        run_of_def write_publisher_def split: if_splits)
  with owner c claim(3) r1 show thesis by (intro that [of c]) auto
qed

section \<open>Properties\<close>

text \<open>C16: A stream has at most one connected publisher: no two open sessions have claimed the same
  stream, and the streams shown as online are exactly the claimed ones.\<close>

theorem one_publisher_per_stream:
  assumes "(relay_step E cfg)\<^sup>*\<^sup>* (initial_system t0) s"
  shows "(\<forall>i j a b. sys_sessions s i = Some a \<longrightarrow> sys_sessions s j = Some b \<longrightarrow> i \<noteq> j \<longrightarrow> a \<inter> b = {}) \<and>
    rs_online (sys_relay s) = {sid. \<exists>i a. sys_sessions s i = Some a \<and> sid \<in> a}"
proof -
  have "\<Union>(ran (sys_sessions s)) = {sid. \<exists>i a. sys_sessions s i = Some a \<and> sid \<in> a}" by (auto simp: ran_def)
  with reachable_system_inv [OF assms] show ?thesis by (simp add: system_inv_def)
qed

text \<open>C17: A viewer can always have the catalog: in every state the relay can reach, with limits the
  message can carry, assembling the catalog succeeds and the message passes its own validation; it
  lists every stream, and a stream as online exactly while a session publishes it.\<close>

theorem catalog_always_sendable:
  assumes "(relay_step E cfg)\<^sup>*\<^sup>* (initial_system t0) s" and "postcard_ok (descriptor_codec E)"
    and "uint (max_total_bytes (limits cfg)) \<le> i64_MAX" and "unat (max_streams (limits cfg)) \<le> MAX_STREAMS_PER_MESSAGE"
  shows "\<exists>entries. catalog E (sys_relay s) = Ok entries \<and>
    write_viewer E (RvCatalog entries) = ([RvCatalog entries], Some (Ok ())) \<and>
    map (\<lambda>c. d_stream_id (d_body (cat_descriptor c))) entries = sort (map s_stream_id (streams (rs_db (sys_relay s)))) \<and>
    (\<forall>c\<in>set entries. cat_publisher_online c \<longleftrightarrow>
       (\<exists>i a. sys_sessions s i = Some a \<and> d_stream_id (d_body (cat_descriptor c)) \<in> a))"
proof -
  let ?db = "rs_db (sys_relay s)"
  note sys = reachable_system_inv [OF assms(1)]
  then have quota: "quota_inv E (limits cfg) ?db" using reachable_quota_inv [OF assms(2)] by (auto simp: system_inv_def)
  then have inv: "store_inv ?db" "descriptors_ok E ?db" "inv_keys ?db" and count: "length (streams ?db) \<le> MAX_STREAMS_PER_MESSAGE"
    using assms(4) by (auto simp: quota_inv_def store_inv_def store_inv_upto_def within_quotas_def)
  obtain xs where xs: "summaries ?db = Ok xs" "map fst xs = sort (map s_stream_id (streams ?db))"
    "\<And>sid su b. (sid, su) \<in> set xs \<Longrightarrow> su_retained su = Some b \<Longrightarrow> bounds_ordered b"
    by (rule summaries_total [OF inv(1) bytes_fit_quota [OF quota assms(3)]]) blast
  have ids: "fst ` set xs = s_stream_id ` set (streams ?db)" using arg_cong [OF xs(2), of set] by simp
  have found: "\<exists>d. descriptor_in_transaction E ?db sid = Ok (Some d) \<and> descriptor_verify E d = Ok () \<and> d_stream_id (d_body d) = sid"
    if sid: "sid \<in> fst ` set xs" for sid
  proof -
    from sid ids obtain r where r: "r \<in> set (streams ?db)" "sid = s_stream_id r" by auto
    show ?thesis unfolding r(2) by (rule catalog_entry_ok [OF inv(2,3) assms(2) r(1)]) blast
  qed
  have "\<exists>entries. catalog E (sys_relay s) = Ok entries \<and>
     map (\<lambda>c. d_stream_id (d_body (cat_descriptor c))) entries = map fst xs \<and>
     (\<forall>c\<in>set entries. descriptor_verify E (cat_descriptor c) = Ok () \<and> bounds_option_validate (cat_retained c) = Ok () \<and>
        cat_publisher_online c = (d_stream_id (d_body (cat_descriptor c)) \<in> rs_online (sys_relay s)))"
    unfolding catalog_def xs(1) map_err_simps and_then_simps by (rule catalog_entries_ok) (erule found, erule (1) xs(3))
  then obtain entries where
    entries: "catalog E (sys_relay s) = Ok entries" "map (\<lambda>c. d_stream_id (d_body (cat_descriptor c))) entries = map fst xs"
    "\<forall>c\<in>set entries. descriptor_verify E (cat_descriptor c) = Ok () \<and> bounds_option_validate (cat_retained c) = Ok () \<and>
        cat_publisher_online c = (d_stream_id (d_body (cat_descriptor c)) \<in> rs_online (sys_relay s))"
    by blast
  have "distinct (map s_stream_id (streams ?db))" using inv(3) by (simp add: inv_keys_def)
  then have "sorted_wrt (<) (map fst xs)" by (simp add: xs(2) strict_sorted_iff)
  moreover have "length entries = length (streams ?db)"
    using arg_cong [OF entries(2), of length] arg_cong [OF xs(2), of length] by simp
  ultimately have "relay_viewer_message_validate E (RvCatalog entries) = Ok ()"
    using entries(2,3) count by (simp add: catalog_validate_ok)
  moreover have "rs_online (sys_relay s) = {sid. \<exists>i a. sys_sessions s i = Some a \<and> sid \<in> a}"
    using sys by (auto simp: system_inv_def ran_def)
  ultimately show ?thesis using entries xs(2) by (intro exI [of _ entries]) (simp add: write_viewer_def)
qed

text \<open>C1: An acknowledgement means the object is on disk: whatever message a publisher sends, the relay
  answers with an acknowledgement of a sequence of a stream only to the object with that sequence,
  sent by the session's own publisher, and then the store holds exactly the encoding of this object,
  whether it was inserted now or before.\<close>

theorem acknowledged_object_durable:
  assumes "store_inv (rs_db (ps_relay s))"
    and "publisher_message_step E cfg hello publisher_id message now_ms s = (out, p, r)"
    and "RpPublishAck sid n \<in> set out"
  shows "\<exists>obj row d. message = PubObject obj \<and> h_stream_id (o_header obj) = sid \<and> h_sequence (o_header obj) = n \<and>
    h_publisher_id (o_header obj) = publisher_id \<and> sid \<in> ps_touched p \<and>
    find_object (rs_db (ps_relay p)) sid (uint n) = Some row \<and>
    descriptor_in_transaction E (rs_db (ps_relay s)) sid = Ok (Some d) \<and>
    object_encode E (d_publisher (d_body d)) obj = Ok (ob_object row)"
proof -
  have "\<exists>obj. message = PubObject obj"
    using only_objects_acknowledged [of message E cfg hello publisher_id now_ms] assms(2,3)
    unfolding task_writes_def not_ack_def by (metis fst_conv)
  then obtain obj where obj: "message = PubObject obj" by blast
  with assms(2) have step: "publish_object E cfg publisher_id obj now_ms s = (out, p, r)"
    by (simp add: publisher_message_step_def)
  have "out \<noteq> []" using assms(3) by auto
  from publish_object_writes [OF step this] obtain c where
    c: "h_publisher_id (o_header obj) = publisher_id"
    "store_object E cfg obj now_ms (rs_db (ps_relay s)) = Ok (rs_db (ps_relay p), c)"
    "out = [RpPublishAck (h_stream_id (o_header obj)) (committed_through c)]"
    "h_stream_id (o_header obj) \<in> ps_touched p" .
  with stored_object_found [OF assms(1) c(2)] assms(3) obj show ?thesis by auto
qed

end
