(* ===== verification/Isolation.thy ===== *)
theory Isolation
  imports ServiceProperties
begin

text \<open>
  What one session can do to the others.  The relay shares one database, one pairing queue and one set
  of live channels among all sessions; the checks of the message handlers against the identity of the
  session confine each message to what belongs to that identity.
\<close>

section \<open>One stream of the database\<close>

text \<open>Everything the database holds of a stream\<close>

definition stream_view ::
  "native_db \<Rightarrow> uuid \<Rightarrow> stream_row option \<times> group_row list \<times> object_row list \<times> envelope_row list" where
  "stream_view db sid =
     (find_stream db sid, groups_of db sid, filter (\<lambda>r. ob_stream_id r = sid) (objects db),
      filter (\<lambda>r. en_stream_id r = sid) (envelopes db))"

definition keeps_others :: "uuid \<Rightarrow> native_db \<Rightarrow> native_db \<Rightarrow> bool" where
  "keeps_others sid db db' \<longleftrightarrow> (\<forall>other. other \<noteq> sid \<longrightarrow> stream_view db' other = stream_view db other)"

lemma keeps_others_refl: "keeps_others sid db db"
  by (simp add: keeps_others_def)

lemma keeps_others_trans: "keeps_others sid db1 db2 \<Longrightarrow> keeps_others sid db2 db3 \<Longrightarrow> keeps_others sid db1 db3"
  by (simp add: keeps_others_def)

text \<open>Rows added to a table, and rows changed in place, are out of sight of the other streams.\<close>

lemma filter_map_same:
  "(\<And>x. f (h x) = f x) \<Longrightarrow> (\<And>x. f x = k \<Longrightarrow> h x = x) \<Longrightarrow> filter (\<lambda>x. f x = k) (map h xs) = filter (\<lambda>x. f x = k) xs"
  by (induction xs) auto

lemma find_map_same:
  "(\<And>x. f (h x) = f x) \<Longrightarrow> (\<And>x. f x = k \<Longrightarrow> h x = x) \<Longrightarrow> find (\<lambda>x. f x = k) (map h xs) = find (\<lambda>x. f x = k) xs"
  by (induction xs) auto

lemma close_active_others: "keeps_others (s_stream_id s) db (close_active s db)"
  unfolding keeps_others_def stream_view_def groups_of_def find_stream_def close_active_def
  by (auto intro!: filter_map_same find_map_same)

lemma open_row_others: "keeps_others (gr_stream_id g) db (open_row g db)"
  unfolding keeps_others_def stream_view_def groups_of_def find_stream_def open_row_def
  by (auto intro!: find_map_same)

lemma append_row_others: "(\<And>g. gr_stream_id (f g) = gr_stream_id g) \<Longrightarrow> keeps_others (ob_stream_id r) db (append_row r f db)"
  unfolding keeps_others_def stream_view_def groups_of_def find_stream_def append_row_def
  by (auto simp: gr_key_def ob_group_def intro!: filter_map_same find_map_same)

lemma append_object_others:
  assumes "append_object (sid, eid, kg) seq ts received encoded db = Ok db'" and "length encoded < 2 ^ 64"
  shows "keeps_others sid db db'"
proof (rule append_object_ok [OF assms])
  fix r f assume "db' = append_row r f db" and r: "r = \<lparr>ob_stream_id = sid, ob_sequence = seq, ob_epoch_id = eid,
      ob_key_group = kg, ob_received_at_ms = sint received, ob_object = encoded\<rparr>"
    and f: "f = (\<lambda>g. g\<lparr>gr_last_sequence := seq, gr_last_timestamp := uint ts,
      gr_received_last_ms := max (gr_received_last_ms g) (sint received),
      gr_retained_bytes := gr_retained_bytes g + int (length encoded)\<rparr>)"
  moreover have "gr_stream_id (f g) = gr_stream_id g" for g by (simp add: f)
  moreover have "ob_stream_id r = sid" by (simp add: r)
  ultimately show ?thesis using append_row_others [of f r db] by metis
qed

lemma append_envelope_row_others: "keeps_others (en_stream_id r) db (append_envelope_row r db)"
  unfolding keeps_others_def stream_view_def groups_of_def find_stream_def append_envelope_row_def
  by (auto simp: gr_key_def en_group_def intro!: filter_map_same)

lemma append_envelope_others:
  assumes "append_envelope (sid, eid, kg) rid kid received encoded db = Ok db'" and "length encoded < 2 ^ 64"
  shows "keeps_others sid db db'"
proof (rule append_envelope_ok [OF assms])
  fix r assume "db' = append_envelope_row r db" and r: "r = \<lparr>en_stream_id = sid, en_epoch_id = eid, en_key_group = kg,
      en_recipient_id = rid, en_key_id = kid, en_received_at_ms = sint received, en_envelope = encoded\<rparr>"
  moreover have "en_stream_id r = sid" by (simp add: r)
  ultimately show ?thesis using append_envelope_row_others [of r db] by metis
qed

lemma without_groups_others:
  assumes "\<And>k. k \<in> K \<Longrightarrow> fst k = sid"
  shows "keeps_others sid db (without_groups K db)"
  unfolding keeps_others_def stream_view_def groups_of_def find_stream_def without_groups_def
  using assms by (auto simp: gr_key_def ob_group_def en_group_def intro!: filter_cong)

lemma enforce_retention_others:
  assumes "store_inv db" and "enforce_retention cfg sid now_ms db = Ok (db', n)"
  shows "keeps_others sid db db'"
proof -
  from assms(2,1) obtain K where "evictable db sid K" "db' = without_groups K db" by (rule enforce_retention_without)
  then show ?thesis by (auto simp: evictable_def gr_key_def intro!: without_groups_others)
qed

lemma enter_group_others:
  assumes "store_inv db" and "s \<in> set (streams db)" "s_stream_id s = h_stream_id (o_header obj)"
    and "enter_group s obj seq kg received db = Ok db1"
  shows "keeps_others (h_stream_id (o_header obj)) db db1"
proof (cases "group_changed s (h_epoch_id (o_header obj)) kg")
  case True
  have rows: "inv_rows db" using assms(1) by (simp add: store_inv_def store_inv_upto_def)
  from True assms(4) have "start_group s obj seq kg received db = Ok db1" by (simp add: enter_group_def Let_def)
  from start_group_ok [OF rows assms(2,3) this] obtain g where
    "db1 = open_row g (close_active s db)" "gr_stream_id g = s_stream_id s" by blast
  with close_active_others [of s db] open_row_others [of g "close_active s db"] assms(3) show ?thesis
    using keeps_others_trans by metis
next
  case False
  with assms(4) have "db1 = db" by (auto simp: enter_group_def Let_def result_simps)
  then show ?thesis by (simp add: keeps_others_refl)
qed

lemma store_object_others:
  assumes "store_inv db" and "store_object E cfg obj received db = Ok (db', c)"
  shows "keeps_others (h_stream_id (o_header obj)) db db'"
  using assms(2)
proof (cases rule: store_object_ok)
  case 1
  then show ?thesis by (simp add: keeps_others_refl)
next
  case (2 d encoded s kg db1 db2 n pid)
  let ?sid = "h_stream_id (o_header obj)"
  note s = found_stream [OF assms(1) 2(4)]
  have "keeps_others ?sid db db1" by (rule enter_group_others [OF assms(1) s(1,2) 2(8)])
  moreover have "keeps_others ?sid db1 db2" by (rule append_object_others [OF 2(11) object_encode_small [OF 2(2)]])
  moreover have "keeps_others ?sid db2 db'"
    by (rule enforce_retention_others [OF stored_object_inv [OF assms(1) 2(4,6,8,2,11)] 2(12)])
  ultimately show ?thesis using keeps_others_trans by blast
qed

lemma store_envelope_others:
  assumes "store_inv db" and "store_envelope E cfg e received db = Ok (db', stored)"
  shows "keeps_others (k_stream_id (e_header e)) db db'"
  using assms(2)
proof (cases rule: store_envelope_ok)
  case 1
  then show ?thesis by (simp add: keeps_others_refl)
next
  case (2 d encoded kg g db1 n pid)
  have "keeps_others (k_stream_id (e_header e)) db db1"
    by (rule append_envelope_others [OF 2(8) envelope_encode_small [OF 2(5)]])
  moreover have "keeps_others (k_stream_id (e_header e)) db1 db'"
    by (rule enforce_retention_others [OF appended_envelope_inv [OF assms(1) 2(1,2,8) envelope_encode_small [OF 2(5)]] 2(9)])
  ultimately show ?thesis using keeps_others_trans by blast
qed

lemma put_descriptor_others:
  assumes "put_descriptor E cfg d db = Ok db'"
  shows "keeps_others (d_stream_id (d_body d)) db db'"
  using assms
proof (cases rule: put_descriptor_cases)
  case 1
  then show ?thesis by (simp add: keeps_others_refl)
next
  case (2 encoded s)
  then show ?thesis
    by (auto simp: update_stream_ok keeps_others_def stream_view_def groups_of_def find_stream_def intro!: find_map_same)
next
  case (3 encoded pid)
  have "find P (xs @ ys) = (case find P xs of Some x \<Rightarrow> Some x | None \<Rightarrow> find P ys)" for P and xs ys :: "stream_row list"
    by (induction xs) auto
  with 3 show ?thesis
    by (auto simp: insert_stream_def keeps_others_def stream_view_def groups_of_def find_stream_def
        split: if_splits option.splits)
qed

section \<open>Streams of one publisher\<close>

text \<open>A change confined to the streams of a publisher: the streams of all others are as they were, and
  a new stream is one of the publisher's.\<close>

definition streams_confined :: "array32 \<Rightarrow> native_db \<Rightarrow> native_db \<Rightarrow> bool" where
  "streams_confined pid db db' \<longleftrightarrow>
     (\<forall>sid s. find_stream db sid = Some s \<longrightarrow> s_publisher_id s \<noteq> pid \<longrightarrow> stream_view db' sid = stream_view db sid) \<and>
     (\<forall>sid s. find_stream db' sid = Some s \<longrightarrow> find_stream db sid = None \<longrightarrow> s_publisher_id s = pid)"

lemma streams_confined_refl: "streams_confined pid db db"
  by (simp add: streams_confined_def)

lemma streams_confinedI:
  assumes "keeps_others sid db db'" and "\<And>s. find_stream db sid = Some s \<Longrightarrow> s_publisher_id s = pid"
    and "\<And>s. find_stream db' sid = Some s \<Longrightarrow> s_publisher_id s = pid"
  shows "streams_confined pid db db'"
proof -
  have "find_stream db' other = find_stream db other" if "other \<noteq> sid" for other
    using assms(1) that by (simp add: keeps_others_def stream_view_def)
  with assms show ?thesis unfolding streams_confined_def keeps_others_def by (metis option.distinct(1))
qed

lemma owner_kept:
  assumes "streams_grow db db'" and "store_inv db" and "store_inv db'" and "find_stream db sid = Some s"
  obtains s' where "find_stream db' sid = Some s'" "s_publisher_id s' = s_publisher_id s"
proof -
  note s = found_stream [OF assms(2,4)]
  from assms(1) s(1,2) obtain s' where s': "s' \<in> set (streams db')" "s_stream_id s' = sid" "s_publisher_id s' = s_publisher_id s"
    by (auto simp: streams_grow_def)
  moreover have "inv_keys db'" using assms(3) by (simp add: store_inv_def store_inv_upto_def)
  ultimately show thesis by (intro that [of s']) (auto simp: find_stream_iff)
qed

lemma found_owner: "map_of (owners db) sid = Some pid \<longleftrightarrow> (\<exists>s. find_stream db sid = Some s \<and> s_publisher_id s = pid)"
  by (metis find_stream_owner map_option_eq_Some)

text \<open>Whoever stores an object or an envelope under its own fingerprint owns the stream.\<close>

lemma stored_object_confined:
  assumes "postcard_ok (descriptor_codec E)" and "quota_inv E l db" and "store_object E cfg obj received db = Ok (db', c)"
    and "h_publisher_id (o_header obj) = pid"
  shows "streams_confined pid db db' \<and> (\<exists>s. find_stream db' (h_stream_id (o_header obj)) = Some s \<and> s_publisher_id s = pid)"
proof -
  let ?sid = "h_stream_id (o_header obj)"
  have inv: "store_inv db" "descriptors_ok E db" using assms(2) by (simp_all add: quota_inv_def)
  note inv' = store_object_inv [OF inv(1) assms(3)]
  from assms(3) obtain d encoded where d: "descriptor_in_transaction E db ?sid = Ok (Some d)"
    "object_encode E (d_publisher (d_body d)) obj = Ok encoded" by (cases rule: store_object_ok) auto
  then have "identity_id E (d_publisher (d_body d)) = Ok pid"
    using assms(4) by (auto simp: object_encode_ok verify_public_def result_simps)
  from descriptor_owner [OF assms(1) inv(2,1) d(1) this] obtain s where
    s: "find_stream db ?sid = Some s" "s_publisher_id s = pid" by (auto simp: found_owner)
  obtain s' where "find_stream db' ?sid = Some s'" "s_publisher_id s' = pid"
    by (rule owner_kept [OF store_object_grow [OF inv(1) assms(3)] inv(1) inv' s(1)]) (simp add: s(2))
  with s streams_confinedI [OF store_object_others [OF inv(1) assms(3)], of pid] show ?thesis by auto
qed

lemma stored_envelope_confined:
  assumes "postcard_ok (descriptor_codec E)" and "quota_inv E l db" and "store_envelope E cfg e received db = Ok (db', stored)"
    and "k_publisher_id (e_header e) = pid"
  shows "streams_confined pid db db' \<and>
    (stored \<longrightarrow> (\<exists>s. find_stream db' (k_stream_id (e_header e)) = Some s \<and> s_publisher_id s = pid))"
  using assms(3)
proof (cases rule: store_envelope_ok)
  case 1
  then show ?thesis by (simp add: streams_confined_refl)
next
  case (2 d encoded kg g db1 n pid')
  let ?sid = "k_stream_id (e_header e)"
  have inv: "store_inv db" "descriptors_ok E db" using assms(2) by (simp_all add: quota_inv_def)
  have "identity_id E (d_publisher (d_body d)) = Ok pid"
    using 2(5) assms(4) by (auto simp: envelope_encode_ok envelope_verify_public_def result_simps)
  from descriptor_owner [OF assms(1) inv(2,1) 2(4) this] obtain s where
    s: "find_stream db ?sid = Some s" "s_publisher_id s = pid" by (auto simp: found_owner)
  moreover have "find_stream db' ?sid = Some s"
    using s(1) store_envelope_streams [OF inv(1) assms(3)] by (simp add: find_stream_def)
  ultimately show ?thesis using streams_confinedI [OF store_envelope_others [OF inv(1) assms(3)], of pid] by auto
qed

lemma put_descriptor_confined:
  assumes "put_descriptor E cfg d db = Ok db'" and "identity_id E (d_publisher (d_body d)) = Ok pid" and "store_inv db"
  shows "streams_confined pid db db'"
proof (rule streams_confinedI [OF put_descriptor_others [OF assms(1)]])
  let ?sid = "d_stream_id (d_body d)"
  note inv' = put_descriptor_inv [OF assms(3,1)]
  show own: "s_publisher_id s = pid" if "find_stream db ?sid = Some s" for s
    using assms(1,2) that by (auto simp: put_descriptor_def Let_def result_simps split: if_splits)
  show "s_publisher_id s' = pid" if "find_stream db' ?sid = Some s'" for s'
  proof (cases "find_stream db ?sid")
    case None
    have "find P (xs @ ys) = (case find P xs of Some x \<Rightarrow> Some x | None \<Rightarrow> find P ys)" for P and xs ys :: "stream_row list"
      by (induction xs) auto
    with None assms(1,2) that show ?thesis
      by (auto simp: put_descriptor_def Let_def result_simps insert_stream_def find_stream_def split: if_splits)
  next
    case (Some s)
    with owner_kept [OF put_descriptor_grow [OF assms(1)] assms(3) inv' Some] own [OF Some] that show ?thesis by auto
  qed
qed

section \<open>The queue\<close>

text \<open>A change of the queue that leaves the rows of \<open>P\<close> alone, but for the purge.\<close>

definition queue_confined :: "'z pairing_store_env_scheme \<Rightarrow> (pair_row \<Rightarrow> bool) \<Rightarrow> i64 \<Rightarrow> pairing_db \<Rightarrow> pairing_db \<Rightarrow> bool" where
  "queue_confined E P now_ms q q' \<longleftrightarrow>
     (\<forall>t. pairing_inv E (q, t) \<longrightarrow> sint t \<le> sint now_ms \<longrightarrow>
        (\<exists>u. pairing_inv E (q', u) \<and> sint u \<le> sint now_ms) \<and>
        (filter P q' = filter P q \<or> filter P q' = filter P (purge q now_ms)))"

lemma filter_purge: "filter P (purge q now_ms) = purge (filter P q) now_ms"
  by (simp add: purge_def conj_commute)

lemma purge_purge: "purge (purge q now_ms) now_ms = purge q now_ms"
  by (simp add: purge_def)

lemma queue_confined_refl: "queue_confined E P now_ms q q"
  by (auto simp: queue_confined_def)

lemma queue_confined_trans:
  "queue_confined E P now_ms q1 q2 \<Longrightarrow> queue_confined E P now_ms q2 q3 \<Longrightarrow> queue_confined E P now_ms q1 q3"
  unfolding queue_confined_def filter_purge by (metis purge_purge)

lemma queue_confined_step:
  assumes "pairing_store_env_ok E" and "\<And>t. sint t \<le> sint now_ms \<Longrightarrow> pairing_step E (q, t) (q', now_ms)"
    and "\<And>t. pairing_inv E (q, t) \<Longrightarrow> filter P q' = filter P (purge q now_ms)"
  shows "queue_confined E P now_ms q q'"
  unfolding queue_confined_def
proof (intro allI impI conjI)
  fix t assume t: "pairing_inv E (q, t)" "sint t \<le> sint now_ms"
  have "pairing_inv E (q', now_ms)"
    using pairing_machine.reachable_inv [OF r_into_rtranclp [of "pairing_step E", OF assms(2) [OF t(2)]]] t(1) assms(1) by blast
  then show "\<exists>u. pairing_inv E (q', u) \<and> sint u \<le> sint now_ms" by blast
  show "filter P q' = filter P q \<or> filter P q' = filter P (purge q now_ms)" using assms(3) [OF t(1)] by simp
qed

lemma filter_update_row:
  assumes "distinct (map pq_request_id q)" and "find_row q rid = Some r" and "\<not> P r" and "\<not> P (f r)"
  shows "filter P (update_row f rid q) = filter P q"
proof -
  have "r' = r" if "r' \<in> set q" "pq_request_id r' = rid" for r'
    using find_row_distinct [OF assms(1) that(1)] that(2) assms(2) by simp
  then have "filter P (map (\<lambda>r. if pq_request_id r = rid then f r else r) xs) = filter P xs" if "set xs \<subseteq> set q" for xs
    using that assms(3,4) by (induction xs) auto
  then show ?thesis by (simp add: update_row_def)
qed

lemma purged_row:
  assumes "pairing_inv E (q, t)" and "find_row (purge q now_ms) rid = Some r" and "decode_pair (pair_request_codec E) (pq_request r) = Ok request"
  shows "distinct (map pq_request_id (purge q now_ms))" and "identity_id E (pr_publisher (pr_body request)) = Ok (pq_publisher_id r)"
    and "identity_id E (pr_viewer (pr_body request)) = Ok (pq_viewer_id r)"
proof -
  show "distinct (map pq_request_id (purge q now_ms))"
    using assms(1) by (simp add: pairing_inv_def purge_def distinct_map_filter)
  have "r \<in> set q" using find_row_Some [OF assms(2)] by (auto simp: purge_def)
  then have "row_ok E t r" using assms(1) by (simp add: pairing_inv_def)
  with assms(3) show "identity_id E (pr_publisher (pr_body request)) = Ok (pq_publisher_id r)"
    "identity_id E (pr_viewer (pr_body request)) = Ok (pq_viewer_id r)"
    by (auto simp: row_ok_def request_queued_def)
qed

text \<open>The rows of the other publishers, and of the other viewers\<close>

abbreviation other_publishers :: "array32 \<Rightarrow> pair_row \<Rightarrow> bool" where
  "other_publishers pid r \<equiv> pq_publisher_id r \<noteq> pid"

abbreviation other_viewers :: "array32 \<Rightarrow> pair_row \<Rightarrow> bool" where
  "other_viewers vid r \<equiv> pq_viewer_id r \<noteq> vid"

lemma store_offer_confined:
  assumes "pairing_store_env_ok E" and "store_offer E q offer now_ms limit = Ok (q', fresh)"
    and "identity_id E (po_publisher (po_body offer)) = Ok pid"
  shows "queue_confined E (other_publishers pid) now_ms q q'"
proof (rule queue_confined_step [OF assms(1)])
  fix t assume inv: "pairing_inv E (q, t)"
  from assms(2) obtain r request encoded where
    1: "find_row (purge q now_ms) (po_request_id (po_body offer)) = Some r"
    "decode_pair (pair_request_codec E) (pq_request r) = Ok request"
    "pair_offer_verify E offer request now_ms limit = Ok ()"
    "q' = (if fresh then update_row (\<lambda>r. r\<lparr>pq_offer := Some encoded\<rparr>) (po_request_id (po_body offer)) (purge q now_ms)
            else purge q now_ms)" by (rule store_offer_ok)
  note row = purged_row [OF inv 1(1,2)]
  have "pq_publisher_id r = pid"
    using 1(3) row(2) assms(3) by (auto simp: pair_offer_verify_def check_offer_request_def result_simps split: if_splits)
  then show "filter (other_publishers pid) q' = filter (other_publishers pid) (purge q now_ms)"
    using filter_update_row [OF row(1) 1(1), of "other_publishers pid" "\<lambda>r. r\<lparr>pq_offer := Some encoded\<rparr>"] 1(4) by simp
qed (use assms(2) in \<open>blast intro: step_offer\<close>)

lemma store_confirmation_confined:
  assumes "pairing_store_env_ok E" and "store_confirmation E q c now_ms = Ok (q', fresh)" and "vc_viewer_id (vc_body c) = vid"
  shows "queue_confined E (other_viewers vid) now_ms q q'"
proof (rule queue_confined_step [OF assms(1)])
  fix t assume inv: "pairing_inv E (q, t)"
  from assms(2) obtain r request offer encoded where
    1: "find_row (purge q now_ms) (vc_request_id (vc_body c)) = Some r"
    "decode_pair (pair_request_codec E) (pq_request r) = Ok request" "confirmation_verify E c request offer = Ok ()"
    "q' = (if fresh then update_row (\<lambda>r. r\<lparr>pq_confirmation := Some encoded\<rparr>) (vc_request_id (vc_body c)) (purge q now_ms)
            else purge q now_ms)" by (rule store_confirmation_ok)
  note row = purged_row [OF inv 1(1,2)]
  have "pq_viewer_id r = vid"
    using 1(3) row(3) assms(3) by (auto simp: confirmation_verify_def fingerprint_def result_simps split: if_splits)
  then show "filter (other_viewers vid) q' = filter (other_viewers vid) (purge q now_ms)"
    using filter_update_row [OF row(1) 1(1), of "other_viewers vid" "\<lambda>r. r\<lparr>pq_confirmation := Some encoded\<rparr>"] 1(4) by simp
qed (use assms(2) in \<open>blast intro: step_confirmation\<close>)

lemma enqueue_request_confined:
  assumes "pairing_store_env_ok E" and "enqueue_request E q request addr now_ms limit = Ok (q', fresh)"
    and "identity_id E (pr_viewer (pr_body request)) = Ok vid"
  shows "queue_confined E (other_viewers vid) now_ms q q'"
proof (rule queue_confined_step [OF assms(1)])
  show "filter (other_viewers vid) q' = filter (other_viewers vid) (purge q now_ms)"
    using assms(2)
  proof (cases rule: enqueue_request_ok)
    case (1 encoded rid pid vid')
    then show ?thesis using assms(3) by (cases fresh) auto
  qed
qed (use assms(2) in \<open>blast intro: step_enqueue\<close>)

lemma inbox_confined:
  assumes "pairing_store_env_ok E"
  shows "publisher_inbox E q publisher now_ms = Ok (q', inbox) \<Longrightarrow> queue_confined E P now_ms q q'"
    and "viewer_inbox E q viewer now_ms = Ok (q', found) \<Longrightarrow> queue_confined E P now_ms q q'"
  using queue_confined_step [OF assms, of now_ms q q' P] inbox_purges [of E q _ now_ms q']
  by (blast intro: step_publisher_inbox step_viewer_inbox)+

section \<open>Viewer sessions\<close>

definition viewer_confined :: "'z pairing_store_env_scheme \<Rightarrow> array32 \<Rightarrow> i64 \<Rightarrow> relay_state \<Rightarrow> relay_state \<Rightarrow> bool" where
  "viewer_confined E vid now_ms st st' \<longleftrightarrow>
     rs_db st' = rs_db st \<and> rs_online st' = rs_online st \<and> rs_live st' = rs_live st \<and>
     queue_confined E (other_viewers vid) now_ms (rs_queue st) (rs_queue st')"

lemma viewer_confined_refl: "reflp (viewer_confined E vid now_ms)"
  by (auto simp: viewer_confined_def queue_confined_refl intro: reflpI)

lemma viewer_confined_trans: "transp (viewer_confined E vid now_ms)"
  by (rule transpI) (auto simp: viewer_confined_def intro: queue_confined_trans)

lemmas viewer_confined_rules =
  keeps_run [OF viewer_confined_refl] keeps_of [OF viewer_confined_refl] keeps_then [OF viewer_confined_trans]

lemma confined_read: "task_keeps (viewer_confined E vid now_ms) (store_read operation)"
  using viewer_confined_refl by (auto simp: task_keeps_def store_read_def dest: reflpD)

lemma confined_pairing_call:
  assumes "\<And>q q' x. operation q = Ok (q', x) \<Longrightarrow> queue_confined E (other_viewers vid) now_ms q q'"
  shows "task_keeps (viewer_confined E vid now_ms) (pairing_call operation)"
  using assms by (auto simp: task_keeps_def pairing_call_def viewer_confined_def queue_confined_refl split: sum.splits)

lemma viewer_message_confined:
  assumes "pairing_store_env_ok E" and "identity_id E (hello_identity hello) = Ok vid"
  shows "task_keeps (viewer_confined E vid now_ms) (viewer_message_step E hello admission source_addr idle inputs message now_ms)"
proof -
  have send: "task_keeps (viewer_confined E vid now_ms) (send_envelopes E rid sids)" for rid sids
    by (induction sids) (auto intro!: viewer_confined_rules confined_read)
  have catalog: "task_keeps (viewer_confined E vid now_ms) (\<lambda>st. task_then (task_of (catalog E st)) (\<lambda>entries.
      task_then (task_run (write_viewer E (RvCatalog entries))) (\<lambda>_. task_of (Ok True))) st)"
  proof -
    have "task_keeps (viewer_confined E vid now_ms) (task_then (task_of c) (\<lambda>entries.
      task_then (task_run (write_viewer E (RvCatalog entries))) (\<lambda>_. task_of (Ok True))))" for c
      by (auto intro!: viewer_confined_rules)
    then show ?thesis by (simp add: task_keeps_def)
  qed
  have enqueue: "queue_confined E (other_viewers vid) now_ms q q'"
    if "pr_viewer (pr_body request) = hello_identity hello" "enqueue_request E q request addr now_ms limit = Ok (q', fresh)"
    for q q' request addr limit fresh
    by (rule enqueue_request_confined [OF assms(1) that(2)]) (simp add: that(1) assms(2))
  show ?thesis
    using assms(2)
    by (cases message)
      (auto simp: viewer_message_step_def request_pairing_def fetch_inbox_def task_then_Ok
        intro!: viewer_confined_rules confined_read confined_pairing_call send catalog
        intro: enqueue store_confirmation_confined [OF assms(1)] inbox_confined [OF assms(1)])
qed

section \<open>Publisher sessions\<close>

text \<open>Messages that leave the database and the live channels alone\<close>

definition same_media :: "publisher_session \<Rightarrow> publisher_session \<Rightarrow> bool" where
  "same_media s s' \<longleftrightarrow> rs_db (ps_relay s') = rs_db (ps_relay s) \<and> rs_live (ps_relay s') = rs_live (ps_relay s)"

lemma same_media_refl: "reflp same_media" and same_media_trans: "transp same_media"
  by (auto simp: same_media_def intro: reflpI transpI)

lemmas same_media_rules = keeps_run [OF same_media_refl] keeps_of [OF same_media_refl] keeps_then [OF same_media_trans]

lemma same_media_calls:
  "task_keeps same_media (claim_online sid)" "task_keeps same_media (on_relay (store_read f))"
  "task_keeps same_media (on_relay (pairing_call g))"
  by (auto simp: task_keeps_def same_media_def claim_online_def on_relay_def store_read_def pairing_call_def split: sum.splits)

lemma quiet_messages:
  assumes "\<nexists>d. message = PubDescriptor d" and "\<nexists>obj. message = PubObject obj" and "\<nexists>e. message = PubKeyEnvelope e"
  shows "task_keeps same_media (publisher_message_step E cfg hello publisher_id message now_ms)"
proof -
  have resume: "task_keeps same_media (resume_streams E i rs)" for i rs
    by (induction rs) (auto simp: validate_resume_stream_def intro!: same_media_rules same_media_calls split: option.splits)
  show ?thesis
    using assms
    by (cases message) (auto simp: publisher_message_step_def intro!: same_media_rules same_media_calls resume)
qed

text \<open>What the three others do to them\<close>

lemma claimed:
  obtains s1 r1 where "claim_online sid s = ([] :: relay_publisher_message list, s1, r1)" "same_media s s1"
proof -
  obtain out s1 r1 where c: "claim_online sid s = (out :: relay_publisher_message list, s1, r1)" by (metis prod_cases3)
  then have "out = []" by (auto simp: claim_online_def split: if_splits)
  with c task_keepsD [OF same_media_calls(1) c] show thesis by (intro that [of s1 r1]) simp_all
qed

definition media_confined :: "array32 \<Rightarrow> publisher_session \<Rightarrow> publisher_session \<Rightarrow> bool" where
  "media_confined pid s s' \<longleftrightarrow>
     streams_confined pid (rs_db (ps_relay s)) (rs_db (ps_relay s')) \<and>
     (\<exists>items. rs_live (ps_relay s') = rs_live (ps_relay s) @ items \<and>
        (\<forall>(sid, item)\<in>set items. \<exists>row. find_stream (rs_db (ps_relay s')) sid = Some row \<and> s_publisher_id row = pid))"

lemma same_media_confined: "same_media s s' \<Longrightarrow> media_confined pid s s'"
  by (simp add: same_media_def media_confined_def streams_confined_refl)

lemma publish_object_confined:
  assumes "postcard_ok (descriptor_codec E)" and "quota_inv E l (rs_db (ps_relay s))"
    and "publish_object E cfg pid obj now_ms s = (out, p, r)"
  shows "media_confined pid s p"
proof (cases "h_publisher_id (o_header obj) = pid")
  case False
  with assms(3) have "p = s" by (simp add: publish_object_def Let_def task_of_def task_run_def)
  then show ?thesis by (simp add: same_media_confined same_media_def)
next
  case True
  let ?sid = "h_stream_id (o_header obj)"
  obtain s1 r1 where claim: "claim_online ?sid s = ([] :: relay_publisher_message list, s1, r1)" "same_media s s1"
    by (rule claimed)
  show ?thesis
  proof (cases "r1 = Some (Ok ()) \<and> (\<exists>db c. store_object E cfg obj now_ms (rs_db (ps_relay s1)) = Ok (db, c))")
    case False
    then have "p = s1"
      using assms(3) True claim(1)
      by (cases r1; cases "store_object E cfg obj now_ms (rs_db (ps_relay s1))")
        (auto simp: publish_object_def Let_def task_then_def on_relay_def store_call_def split: sum.splits)
    with claim(2) show ?thesis by (simp add: same_media_confined)
  next
    case stored: True
    then obtain db c where c: "store_object E cfg obj now_ms (rs_db (ps_relay s)) = Ok (db, c)"
      using claim(2) by (auto simp: same_media_def)
    have "rs_db (ps_relay p) = db \<and> (rs_live (ps_relay p) = rs_live (ps_relay s) \<or>
        rs_live (ps_relay p) = rs_live (ps_relay s) @ [(?sid, LiveObject obj)])"
      using assms(3) True claim stored c
      by (cases "relay_publisher_message_validate E (RpPublishAck ?sid (committed_through c))")
        (auto simp: publish_object_def Let_def task_then_def on_relay_def store_call_def live_send_def task_of_def task_run_def
          run_of_def write_publisher_def same_media_def split: if_splits)
    with stored_object_confined [OF assms(1,2) c True] show ?thesis unfolding media_confined_def by auto
  qed
qed

lemma publish_envelope_confined:
  assumes "postcard_ok (descriptor_codec E)" and "quota_inv E l (rs_db (ps_relay s))"
    and "publish_envelope E cfg pid e now_ms s = (out, p, r)"
  shows "media_confined pid s p"
proof (cases "k_publisher_id (e_header e) = pid \<and> (\<exists>db x. store_envelope E cfg e now_ms (rs_db (ps_relay s)) = Ok (db, x))")
  case False
  then have "p = s"
    using assms(3) by (cases "store_envelope E cfg e now_ms (rs_db (ps_relay s))")
      (auto simp: publish_envelope_def task_then_def task_of_def task_run_def on_relay_def store_call_def split: if_splits)
  then show ?thesis by (simp add: same_media_confined same_media_def)
next
  case True
  then obtain db x where x: "store_envelope E cfg e now_ms (rs_db (ps_relay s)) = Ok (db, x)" by blast
  have "rs_db (ps_relay p) = db \<and> rs_live (ps_relay p) = rs_live (ps_relay s) @
      (if x then [(k_stream_id (e_header e), LiveEnvelope e)] else [])"
    using assms(3) True x
    by (auto simp: publish_envelope_def task_then_def task_of_def task_run_def on_relay_def store_call_def live_send_def
        split: if_splits)
  with stored_envelope_confined [OF assms(1,2) x] True show ?thesis unfolding media_confined_def by auto
qed

lemma publish_descriptor_confined:
  assumes "store_inv (rs_db (ps_relay s))" and "identity_id E (hello_identity hello) = Ok pid"
    and "publisher_message_step E cfg hello pid (PubDescriptor d) now_ms s = (out, p, r)"
  shows "media_confined pid s p"
proof (cases "d_publisher (d_body d) = hello_identity hello")
  case False
  with assms(3) have "p = s"
    by (simp add: publisher_message_step_def require_publisher_def task_then_def task_of_def task_run_def run_of_def)
  then show ?thesis by (simp add: same_media_confined same_media_def)
next
  case True
  let ?sid = "d_stream_id (d_body d)"
  obtain s1 r1 where claim: "claim_online ?sid s = ([] :: relay_publisher_message list, s1, r1)" "same_media s s1"
    by (rule claimed)
  have step: "task_then (claim_online ?sid) (\<lambda>_. on_relay (store_call (\<lambda>db. and_then (put_descriptor E cfg d db) (\<lambda>db. Ok (db, ()))))) s
      = (out, p, r)"
    using assms(3) True by (simp add: publisher_message_step_def require_publisher_def task_then_Ok)
  show ?thesis
  proof (cases "r1 = Some (Ok ()) \<and> (\<exists>db. put_descriptor E cfg d (rs_db (ps_relay s1)) = Ok db)")
    case False
    then have "p = s1"
      using step claim(1)
      by (cases r1; cases "put_descriptor E cfg d (rs_db (ps_relay s1))")
        (auto simp: task_then_def on_relay_def store_call_def split: sum.splits)
    with claim(2) show ?thesis by (simp add: same_media_confined)
  next
    case stored: True
    then obtain db where db: "put_descriptor E cfg d (rs_db (ps_relay s)) = Ok db"
      using claim(2) by (auto simp: same_media_def)
    have "rs_db (ps_relay p) = db \<and> rs_live (ps_relay p) = rs_live (ps_relay s)"
      using step claim stored db by (auto simp: task_then_def on_relay_def store_call_def same_media_def)
    with put_descriptor_confined [OF db _ assms(1), of pid] True assms(2) show ?thesis unfolding media_confined_def by auto
  qed
qed

text \<open>Streams claimed by resuming are the publisher's own, or new.\<close>

definition resumes_own :: "'z wire_env_scheme \<Rightarrow> identity_public \<Rightarrow> publisher_session \<Rightarrow> publisher_session \<Rightarrow> bool" where
  "resumes_own E i s s' \<longleftrightarrow>
     same_media s s' \<and>
     (\<forall>sid \<in> ps_touched s' - ps_touched s. \<forall>d. descriptor_in_transaction E (rs_db (ps_relay s)) sid = Ok (Some d) \<longrightarrow>
        d_publisher (d_body d) = i)"

lemma resumes_own_refl: "reflp (resumes_own E i)"
  by (auto simp: resumes_own_def same_media_def intro!: reflpI)

lemma resumes_own_trans: "transp (resumes_own E i)"
  by (rule transpI) (simp add: resumes_own_def same_media_def, blast)

lemma resume_one: "task_keeps (resumes_own E i) (task_then (validate_resume_stream E i stream) (\<lambda>_. claim_online (pub_resume_stream_id stream)))"
  unfolding task_keeps_def
proof
  fix s :: publisher_session
  let ?sid = "pub_resume_stream_id stream" and ?d = "descriptor_in_transaction E (rs_db (ps_relay s)) (pub_resume_stream_id stream)"
  let ?v = "case ?d of Inl e \<Rightarrow> Err (SvStore e) | Inr None \<Rightarrow> Ok () | Inr (Some d) \<Rightarrow> require_publisher (d_publisher (d_body d)) i"
  have "validate_resume_stream E i stream s = ([] :: relay_publisher_message list, s, Some ?v)"
    by (auto simp: validate_resume_stream_def task_then_def on_relay_def store_read_def task_of_def task_run_def run_of_def
        split: sum.splits option.splits)
  then have step: "fst (snd (task_then (validate_resume_stream E i stream) (\<lambda>_. claim_online ?sid) s)) =
      (case ?v of Inl _ \<Rightarrow> s | Inr _ \<Rightarrow> fst (snd (claim_online ?sid s :: relay_publisher_message list \<times> _)))"
    by (simp add: task_then_def split: sum.splits prod.splits)
  show "resumes_own E i s (fst (snd (task_then (validate_resume_stream E i stream) (\<lambda>_. claim_online ?sid) s)))"
  proof (cases ?v)
    case (Inl e)
    then show ?thesis using step reflpD [OF resumes_own_refl] by simp
  next
    case (Inr x)
    then have own: "d_publisher (d_body d) = i" if "?d = Ok (Some d)" for d
      using that by (simp add: require_publisher_def split: if_splits)
    show ?thesis unfolding step using own Inr by (auto simp: resumes_own_def same_media_def claim_online_def)
  qed
qed

lemma resume_own: "task_keeps (resumes_own E i) (resume_streams E i rs)"
proof (induction rs)
  case Nil
  show ?case by (simp add: keeps_of resumes_own_refl)
next
  case (Cons stream rs)
  have read: "task_keeps (resumes_own E i) (on_relay (store_read f))" for f
    by (auto simp: task_keeps_def on_relay_def store_read_def resumes_own_def same_media_def)
  show ?case
    unfolding resume_streams.simps task_then_assoc [of "validate_resume_stream E i stream", symmetric]
    by (intro keeps_then [OF resumes_own_trans] resume_one read Cons keeps_of [OF resumes_own_refl])
qed

text \<open>The queue\<close>

lemma publisher_queue_confined:
  assumes "pairing_store_env_ok E" and "identity_id E (hello_identity hello) = Ok pid" and "\<nexists>d. message = PubPairDecision d"
  shows "task_keeps (\<lambda>s s'. queue_confined E (other_publishers pid) now_ms (rs_queue (ps_relay s)) (rs_queue (ps_relay s')))
    (publisher_message_step E cfg hello publisher_id message now_ms)" (is "task_keeps ?R _")
proof -
  have refl: "reflp ?R" and trans: "transp ?R" by (auto simp: queue_confined_refl intro: reflpI transpI queue_confined_trans)
  note rules = keeps_run [OF refl] keeps_of [OF refl] keeps_then [OF trans]
  have calls: "task_keeps ?R (claim_online sid)" "task_keeps ?R (on_relay (store_read f))"
    "task_keeps ?R (on_relay (store_call g))" "task_keeps ?R (on_relay (live_send sid item))"
    for sid item and f :: "native_db \<Rightarrow> store_error + 'b" and g :: "native_db \<Rightarrow> store_error + native_db \<times> 'c"
    by (auto simp: task_keeps_def claim_online_def on_relay_def store_read_def store_call_def live_send_def queue_confined_refl
        split: sum.splits)
  have pairing: "task_keeps ?R (on_relay (pairing_call operation))"
    if "\<And>q q' x. operation q = Ok (q', x) \<Longrightarrow> queue_confined E (other_publishers pid) now_ms q q'"
    for operation :: "pairing_db \<Rightarrow> pairing_store_error + pairing_db \<times> 'd"
    using that by (auto simp: task_keeps_def on_relay_def pairing_call_def queue_confined_refl split: sum.splits)
  have resume: "task_keeps ?R (resume_streams E i rs)" for i rs
    by (induction rs) (auto simp: validate_resume_stream_def intro!: rules calls split: option.splits)
  have offer: "queue_confined E (other_publishers pid) now_ms q q'"
    if "po_publisher (po_body offer) = hello_identity hello" "store_offer E q offer now_ms limit = Ok (q', fresh)"
    for q q' offer limit fresh
    by (rule store_offer_confined [OF assms(1) that(2)]) (simp add: that(1) assms(2))
  show ?thesis
    using assms(2,3)
    by (cases message)
      (auto simp: publisher_message_step_def publish_object_def publish_envelope_def Let_def
        intro!: rules calls resume pairing intro: offer inbox_confined [OF assms(1)])
qed

text \<open>Whatever message it is\<close>

lemma publisher_message_media:
  assumes "postcard_ok (descriptor_codec E)" and "quota_inv E l (rs_db (ps_relay s))" and "identity_id E (hello_identity hello) = Ok pid"
    and "publisher_message_step E cfg hello pid message now_ms s = (out, p, r)"
  shows "media_confined pid s p"
proof (cases message)
  case (PubDescriptor d)
  with assms(2,4) show ?thesis using publish_descriptor_confined [OF _ assms(3)] by (simp add: quota_inv_def)
next
  case (PubObject obj)
  then have "publish_object E cfg pid obj now_ms s = (out, p, r)" using assms(4) by (simp add: publisher_message_step_def)
  then show ?thesis by (rule publish_object_confined [OF assms(1,2)])
next
  case (PubKeyEnvelope e)
  then have "publish_envelope E cfg pid e now_ms s = (out, p, r)" using assms(4) by (simp add: publisher_message_step_def)
  then show ?thesis by (rule publish_envelope_confined [OF assms(1,2)])
qed (use task_keepsD [OF quiet_messages assms(4)] in \<open>auto intro: same_media_confined\<close>)

lemma resumed_streams_own:
  assumes "postcard_ok (descriptor_codec E)" and "quota_inv E l (rs_db (ps_relay s))" and "identity_id E (hello_identity hello) = Ok pid"
    and "publisher_message_step E cfg hello pid (PubResume claimed resumed) now_ms s = (out, p, r)"
    and "sid \<in> ps_touched p - ps_touched s" and "find_stream (rs_db (ps_relay s)) sid = Some row"
  shows "s_publisher_id row = pid"
proof -
  have inv: "store_inv (rs_db (ps_relay s))" "descriptors_ok E (rs_db (ps_relay s))" using assms(2) by (simp_all add: quota_inv_def)
  have "task_keeps (resumes_own E (hello_identity hello)) (publisher_message_step E cfg hello pid (PubResume claimed resumed) now_ms)"
    unfolding publisher_message_step_def
    by (auto intro!: keeps_then [OF resumes_own_trans] keeps_run [OF resumes_own_refl] keeps_of [OF resumes_own_refl] resume_own)
  from task_keepsD [OF this assms(4)] assms(5)
  have own: "\<And>d. descriptor_in_transaction E (rs_db (ps_relay s)) sid = Ok (Some d) \<Longrightarrow> d_publisher (d_body d) = hello_identity hello"
    by (simp add: resumes_own_def)
  from row_descriptor [OF assms(1) inv(2,1) assms(6)] own assms(3) show ?thesis by fastforce
qed

section \<open>Properties\<close>

text \<open>C3: Sessions are isolated from each other.  In every state the relay can reach, whatever message a
  publisher session sends, the streams of the other publishers stay exactly as they were, with their
  descriptor, groups, objects and envelopes, a stream that is new afterwards is the session's own, what
  goes out on live channels goes out on channels of its own streams, and streams it resumes are its
  own or unknown so far.  But for the purge of old rows, no message of a publisher other than a
  decision, which carries the signature of the publisher of the request, touches requests to other
  publishers in the pairing queue.  Whatever message a viewer sends, it changes neither the database nor the online streams nor
  the live channels, and in the queue only rows of this viewer, again but for the purge.\<close>

theorem sessions_isolated:
  assumes "(relay_step E cfg)\<^sup>*\<^sup>* (initial_system t0) s" and "sint (sys_clock s) \<le> sint now_ms"
    and "postcard_ok (descriptor_codec E)" and "pairing_store_env_ok E" and "identity_id E (hello_identity hello) = Ok i"
  shows "(\<forall>message touched out p r.
      publisher_message_step E cfg hello i message now_ms \<lparr>ps_relay = sys_relay s, ps_touched = touched\<rparr> = (out, p, r) \<longrightarrow>
      (\<forall>sid row. find_stream (rs_db (sys_relay s)) sid = Some row \<longrightarrow> s_publisher_id row \<noteq> i \<longrightarrow>
         stream_view (rs_db (ps_relay p)) sid = stream_view (rs_db (sys_relay s)) sid) \<and>
      (\<forall>sid row. find_stream (rs_db (ps_relay p)) sid = Some row \<longrightarrow> find_stream (rs_db (sys_relay s)) sid = None \<longrightarrow>
         s_publisher_id row = i) \<and>
      (\<exists>items. rs_live (ps_relay p) = rs_live (sys_relay s) @ items \<and>
         (\<forall>(sid, item)\<in>set items. \<exists>row. find_stream (rs_db (ps_relay p)) sid = Some row \<and> s_publisher_id row = i)) \<and>
      (\<forall>claimed resumed. message = PubResume claimed resumed \<longrightarrow>
         (\<forall>sid\<in>ps_touched p - touched. \<forall>row. find_stream (rs_db (sys_relay s)) sid = Some row \<longrightarrow> s_publisher_id row = i)) \<and>
      ((\<nexists>d. message = PubPairDecision d) \<longrightarrow>
         filter (other_publishers i) (rs_queue (ps_relay p)) = filter (other_publishers i) (rs_queue (sys_relay s)) \<or>
         filter (other_publishers i) (rs_queue (ps_relay p)) = filter (other_publishers i) (purge (rs_queue (sys_relay s)) now_ms))) \<and>
    (\<forall>message admission source_addr idle inputs out st r.
      viewer_message_step E hello admission source_addr idle inputs message now_ms (sys_relay s) = (out, st, r) \<longrightarrow>
      rs_db st = rs_db (sys_relay s) \<and> rs_online st = rs_online (sys_relay s) \<and> rs_live st = rs_live (sys_relay s) \<and>
      (filter (other_viewers i) (rs_queue st) = filter (other_viewers i) (rs_queue (sys_relay s)) \<or>
       filter (other_viewers i) (rs_queue st) = filter (other_viewers i) (purge (rs_queue (sys_relay s)) now_ms)))"
proof -
  let ?db = "rs_db (sys_relay s)" and ?q = "rs_queue (sys_relay s)"
  note sys = reachable_system_inv [OF assms(1)]
  then have quota: "quota_inv E (limits cfg) ?db" using reachable_quota_inv [OF assms(3)] by (auto simp: system_inv_def)
  from sys obtain u where u: "(pairing_step E)\<^sup>*\<^sup>* ([], t0) (?q, u)" "sint u \<le> sint (sys_clock s)"
    by (auto simp: system_inv_def)
  have queue: "filter P q = filter P ?q \<or> filter P q = filter P (purge ?q now_ms)" if "queue_confined E P now_ms ?q q" for P q
    using that reachable_pairing_inv [OF assms(4) u(1)] u(2) assms(2) unfolding queue_confined_def by fastforce
  have publisher: "media_confined i \<lparr>ps_relay = sys_relay s, ps_touched = touched\<rparr> p \<and>
      (\<forall>claimed resumed. message = PubResume claimed resumed \<longrightarrow>
         (\<forall>sid\<in>ps_touched p - touched. \<forall>row. find_stream ?db sid = Some row \<longrightarrow> s_publisher_id row = i)) \<and>
      ((\<nexists>d. message = PubPairDecision d) \<longrightarrow> queue_confined E (other_publishers i) now_ms ?q (rs_queue (ps_relay p)))"
    if step: "publisher_message_step E cfg hello i message now_ms \<lparr>ps_relay = sys_relay s, ps_touched = touched\<rparr> = (out, p, r)"
    for message touched out p r
    using publisher_message_media [OF assms(3) _ assms(5) step, of "limits cfg"] quota step
      resumed_streams_own [OF assms(3) _ assms(5), of "limits cfg" "\<lparr>ps_relay = sys_relay s, ps_touched = touched\<rparr>" cfg]
      task_keepsD [OF publisher_queue_confined [OF assms(4,5)] step] by auto
  have viewer: "viewer_confined E i now_ms (sys_relay s) st"
    if "viewer_message_step E hello admission source_addr idle inputs message now_ms (sys_relay s) = (out, st, r)"
    for message admission source_addr idle inputs out st r
    by (rule task_keepsD [OF viewer_message_confined [OF assms(4,5)] that])
  show ?thesis
  proof (rule conjI; intro allI impI)
    fix message touched out p r
    assume "publisher_message_step E cfg hello i message now_ms \<lparr>ps_relay = sys_relay s, ps_touched = touched\<rparr> = (out, p, r)"
    from publisher [OF this] queue show "(\<forall>sid row. find_stream ?db sid = Some row \<longrightarrow> s_publisher_id row \<noteq> i \<longrightarrow>
         stream_view (rs_db (ps_relay p)) sid = stream_view ?db sid) \<and>
      (\<forall>sid row. find_stream (rs_db (ps_relay p)) sid = Some row \<longrightarrow> find_stream ?db sid = None \<longrightarrow> s_publisher_id row = i) \<and>
      (\<exists>items. rs_live (ps_relay p) = rs_live (sys_relay s) @ items \<and>
         (\<forall>(sid, item)\<in>set items. \<exists>row. find_stream (rs_db (ps_relay p)) sid = Some row \<and> s_publisher_id row = i)) \<and>
      (\<forall>claimed resumed. message = PubResume claimed resumed \<longrightarrow>
         (\<forall>sid\<in>ps_touched p - touched. \<forall>row. find_stream ?db sid = Some row \<longrightarrow> s_publisher_id row = i)) \<and>
      ((\<nexists>d. message = PubPairDecision d) \<longrightarrow>
         filter (other_publishers i) (rs_queue (ps_relay p)) = filter (other_publishers i) ?q \<or>
         filter (other_publishers i) (rs_queue (ps_relay p)) = filter (other_publishers i) (purge ?q now_ms))"
      unfolding media_confined_def streams_confined_def by auto
  next
    fix message admission source_addr idle inputs out st r
    assume "viewer_message_step E hello admission source_addr idle inputs message now_ms (sys_relay s) = (out, st, r)"
    from viewer [OF this] queue show "rs_db st = ?db \<and> rs_online st = rs_online (sys_relay s) \<and> rs_live st = rs_live (sys_relay s) \<and>
      (filter (other_viewers i) (rs_queue st) = filter (other_viewers i) ?q \<or>
       filter (other_viewers i) (rs_queue st) = filter (other_viewers i) (purge ?q now_ms))" unfolding viewer_confined_def by blast
  qed
qed

end
