(* ===== verification/StoreExample.thy ===== *)
theory StoreExample
  imports StoreTotality
begin

text \<open>
  A run of the store on concrete input: a descriptor is put, an object stored, the stream
  finalized and the group aged out.  The properties of the store hold along it.
\<close>

section \<open>The environment\<close>

definition example_object :: native_object where
  "example_object =
     \<lparr>o_header = \<lparr>h_version = 2, h_publisher_id = 24, h_stream_id = 1, h_epoch_id = 2, h_key_group = 1,
                 h_sequence = 1, h_timestamp = 10, h_duration = 1, h_kind = Epoch, h_random_access = True,
                 h_codec = Some H264AnnexB, h_ciphertext_len = 16, h_key_id = 3, h_nonce = seal_nonce 4 1\<rparr>,
      o_ciphertext_hash = 16, o_signature = signature_from_bytes (replicate 64 7),
      o_ciphertext = replicate 16 0\<rparr>"

definition example_store_env :: envelope_env where
  "example_store_env = example_envelope_env
     \<lparr>descriptor_codec := single_postcard example_descriptor [2],
      object_codec := single_postcard example_object [5]\<rparr>"

definition example_config :: native_store_config where
  "example_config = \<lparr>retention_bytes = None, retention_age = Some 1000000, limits = default_limits\<rparr>"

definition example_stream :: "int \<Rightarrow> (uuid \<times> int) option \<Rightarrow> stream_row" where
  "example_stream hw act = \<lparr>s_stream_id = 1, s_publisher_id = 24, s_descriptor = [2], s_high_water = hw,
     s_active_epoch = map_option fst act, s_active_group = map_option snd act\<rparr>"

definition example_group_row :: "bool \<Rightarrow> group_row" where
  "example_group_row complete = \<lparr>gr_stream_id = 1, gr_epoch_id = 2, gr_key_group = 1, gr_key_id = 3,
     gr_first_sequence = 1, gr_last_sequence = 1, gr_first_timestamp = 10, gr_last_timestamp = 10,
     gr_received_first_ms = 0, gr_received_last_ms = 0, gr_retained_bytes = 1, gr_complete = complete\<rparr>"

definition example_object_row :: object_row where
  "example_object_row = \<lparr>ob_stream_id = 1, ob_sequence = 1, ob_epoch_id = 2, ob_key_group = 1,
     ob_received_at_ms = 0, ob_object = [5]\<rparr>"

definition example_db0 :: native_db where
  "example_db0 = \<lparr>streams = [example_stream 0 None], groups = [], objects = [], envelopes = []\<rparr>"

definition example_db1 :: native_db where
  "example_db1 = \<lparr>streams = [example_stream 1 (Some (2, 1))], groups = [example_group_row False],
     objects = [example_object_row], envelopes = []\<rparr>"

definition example_db2 :: native_db where
  "example_db2 = \<lparr>streams = [example_stream 1 None], groups = [example_group_row True],
     objects = [example_object_row], envelopes = []\<rparr>"

definition example_db3 :: native_db where
  "example_db3 = \<lparr>streams = [example_stream 1 None], groups = [], objects = [], envelopes = []\<rparr>"

lemmas example_rows = example_stream_def example_group_row_def example_object_row_def
  gr_key_def ob_key_def ob_group_def en_key_def en_group_def

text \<open>What the run needs of an environment, so that it is also a run of the store inside the relay.\<close>

definition runs_example :: "'z envelope_env_scheme \<Rightarrow> bool" where
  "runs_example E \<longleftrightarrow>
     descriptor_codec E = single_postcard example_descriptor [2] \<and>
     object_codec E = single_postcard example_object [5] \<and>
     sha256 E = (\<lambda>bs. of_nat (length bs)) \<and>
     ed_verify E = (\<lambda>pk m s. s = replicate 64 (ucast pk)) \<and>
     identity_validate E example_public = Ok () \<and> identity_id E example_public = Ok 24 \<and>
     to_stdvec (descriptor_body_codec E) = (\<lambda>_. Some [1]) \<and> to_stdvec (claim_codec E) = (\<lambda>_. Some [4])"

lemma runs_example_fields:
  assumes "runs_example E"
  shows "descriptor_codec E = single_postcard example_descriptor [2]"
    "object_codec E = single_postcard example_object [5]"
    "sha256 E bs = of_nat (length bs)" "ed_verify E pk m s \<longleftrightarrow> s = replicate 64 (ucast pk)"
    "identity_validate E example_public = Ok ()" "identity_id E example_public = Ok 24"
    "to_stdvec (descriptor_body_codec E) b = Some [1]" "to_stdvec (claim_codec E) c = Some [4]"
    "postcard_ok (descriptor_codec E)" "postcard_ok (object_codec E)"
  using assms by (simp_all add: runs_example_def single_postcard_ok)

lemma example_store_runs: "runs_example example_store_env"
  unfolding runs_example_def fun_eq_iff
  by (simp add: example_store_env_def example_envelope_defs identity_validate_def identity_id_def
      example_public_def IDENTITY_VERSION_def IDENTITY_FINGERPRINT_PREFIX_def ascii_bytes_def)

lemma example_signed:
  assumes "runs_example E" and "to_stdvec c v = Some bs" and "length domain < 65536"
  shows "verify E c example_public domain v (signature_from_bytes (replicate 64 7)) = Ok ()"
  unfolding verify_ok
  using assms(2,3) by (simp add: runs_example_fields [OF assms(1)] signing_digest_def canonical_def signature_bytes_round_trip)
    (simp add: example_public_def)

lemma example_descriptor_fields:
  "d_publisher (d_body example_descriptor) = example_public" "d_stream_id (d_body example_descriptor) = 1"
  "d_signature example_descriptor = signature_from_bytes (replicate 64 7)"
  by (simp_all add: example_descriptor_def)

lemma example_descriptor_encode: "descriptor_encode E example_descriptor = Ok [2]" if "runs_example E"
proof -
  have "descriptor_verify E example_descriptor = Ok ()"
    by (rule example_descriptor_verifies) (simp_all add: runs_example_fields [OF that])
  then show ?thesis
    by (simp add: descriptor_encode_def runs_example_fields [OF that] single_postcard_def MAX_DESCRIPTOR_LEN_def)
qed

lemma example_descriptor_decode: "descriptor_decode E [2] = Ok example_descriptor" if "runs_example E"
  using example_descriptor_encode [OF that]
  by (simp add: descriptor_decode_ok runs_example_fields [OF that] single_postcard_def)

lemma example_header_fields:
  "h_stream_id (o_header example_object) = 1" "h_epoch_id (o_header example_object) = 2"
  "h_key_group (o_header example_object) = 1" "h_sequence (o_header example_object) = 1"
  "h_timestamp (o_header example_object) = 10" "h_kind (o_header example_object) = Epoch"
  "h_random_access (o_header example_object)" "h_key_id (o_header example_object) = 3"
  "h_publisher_id (o_header example_object) = 24"
  "o_signature example_object = signature_from_bytes (replicate 64 7)"
  by (simp_all add: example_object_def)

lemma example_object_shape: "validate_shape E example_object = Ok ()" if "runs_example E"
  by (simp add: validate_shape_def validate_header_def example_object_def STREAM_FORMAT_VERSION_def
      AEAD_TAG_LEN_def max_ciphertext_def MAX_EPOCH_CIPHERTEXT_LEN_def runs_example_fields [OF that])

lemma example_object_public: "verify_public E example_public example_object = Ok ()" if "runs_example E"
  by (simp add: verify_public_def example_object_shape [OF that] runs_example_fields [OF that] example_header_fields
      example_signed [OF that runs_example_fields(8) [OF that]] OBJECT_DOMAIN_def ascii_bytes_def)

lemma example_object_encode: "object_encode E example_public example_object = Ok [5]" if "runs_example E"
  by (simp add: object_encode_def example_object_public [OF that] runs_example_fields [OF that] single_postcard_def
      MAX_NATIVE_OBJECT_LEN_def)

lemma example_object_decode: "object_decode E example_public [5] = Ok example_object" if "runs_example E"
  using example_object_encode [OF that] by (simp add: object_decode_ok runs_example_fields [OF that] single_postcard_def)

section \<open>The run\<close>

lemma example_put: "put_descriptor E example_config example_descriptor empty_db = Ok example_db0" if "runs_example E"
  by (simp add: put_descriptor_def example_descriptor_encode [OF that] example_descriptor_fields runs_example_fields [OF that]
      find_stream_def empty_db_def example_config_def default_limits_def insert_stream_def stream_check_def
      sql_int_def example_db0_def example_rows)

lemma example_found: "descriptor_in_transaction E db 1 = Ok (Some example_descriptor)"
  if "runs_example E" and "find_stream db 1 = Some (example_stream hw act)"
  using that(2) by (simp add: descriptor_in_transaction_def example_stream_def example_descriptor_decode [OF that(1)])

lemma example_store:
  assumes E: "runs_example E"
  shows "store_object E example_config example_object 0 example_db0 =
     Ok (example_db1, \<lparr>committed_through = 1, evicted_groups = 0, inserted = True\<rparr>)"
proof -
  have "find_stream example_db0 1 = Some (example_stream 0 None)"
    by (simp add: find_stream_def example_db0_def example_rows)
  note found = example_found [OF E this] this
  let ?db = "\<lparr>streams = [example_stream 0 (Some (2, 1))],
    groups = [(example_group_row False)\<lparr>gr_retained_bytes := 0\<rparr>], objects = [], envelopes = []\<rparr>"
  have "enter_group (example_stream 0 None) example_object 1 1 0 example_db0 = Ok ?db"
    by (simp add: enter_group_def group_changed_def start_group_def Let_def example_header_fields
        validate_group_progression_def to_sql_u64_def insert_group_def group_check_def sql_int_def find_group_def
        find_stream_def update_stream_def stream_check_def example_db0_def example_rows)
  moreover have "check_group_growth example_config ?db 24 (1, 2, 1) 1 ObjectItem = Ok ()"
    by (simp add: check_group_growth_def find_group_def example_rows example_config_def default_limits_def
        from_sql_u64_def sql_sum_def sql_int_def publisher_owns_def find_stream_def saturating_add_u64_def)
  moreover have "append_object (1, 2, 1) 1 10 0 [5] ?db = Ok example_db1"
    by (simp add: append_object_def insert_object_def object_check_def find_object_def find_group_def
        to_sql_u64_def update_group_def group_check_def update_stream_def stream_check_def sql_int_def
        example_db1_def example_rows)
  moreover have "enforce_retention example_config 1 0 example_db1 = Ok (example_db1, 0)"
    by (simp add: enforce_retention_def enforce_retention_loop.simps example_config_def complete_groups_of_def
        groups_of_def example_db1_def example_rows first_by_def)
  moreover have "find_object example_db0 1 1 = None" by (simp add: find_object_def example_db0_def)
  ultimately show ?thesis
    by (simp add: store_object_def Let_def example_object_shape [OF E] found example_header_fields
        example_descriptor_fields example_object_public [OF E] example_object_encode [OF E] to_sql_u64_def
        runs_example_fields [OF E]) (simp add: example_stream_def)
qed

lemma example_finalize: "finalize_stream 1 example_db1 = Ok example_db2"
  by (simp add: finalize_stream_def find_stream_def example_db1_def example_db2_def example_rows update_group_def
      group_check_def sql_int_def update_stream_def stream_check_def)

lemma example_evict: "enforce_retention example_config 1 100 example_db2 = Ok (example_db3, 1)"
  by (simp add: enforce_retention_def enforce_retention_loop.simps example_config_def complete_groups_of_def
      groups_of_def example_db2_def example_db3_def example_rows first_by_def age_cutoff_def
      delete_group_def saturating_add_usize_def saturating_sub_i64_def clamp_i64_def)

lemma example_reaches:
  "(store_step example_store_env example_config)\<^sup>*\<^sup>* empty_db example_db0"
  "(store_step example_store_env example_config)\<^sup>*\<^sup>* example_db0 example_db1"
  "(store_step example_store_env example_config)\<^sup>*\<^sup>* empty_db example_db1"
  "(store_step example_store_env example_config)\<^sup>*\<^sup>* empty_db example_db2"
proof -
  have 0: "store_step example_store_env example_config empty_db example_db0"
    by (rule store_step.put [OF example_put [OF example_store_runs]])
  have 1: "store_step example_store_env example_config example_db0 example_db1"
    by (rule store_step.store [OF example_store [OF example_store_runs]])
  have 2: "store_step example_store_env example_config example_db1 example_db2"
    by (rule store_step.finalize [OF example_finalize])
  from 0 1 2 show
    "(store_step example_store_env example_config)\<^sup>*\<^sup>* empty_db example_db0"
    "(store_step example_store_env example_config)\<^sup>*\<^sup>* example_db0 example_db1"
    "(store_step example_store_env example_config)\<^sup>*\<^sup>* empty_db example_db1"
    "(store_step example_store_env example_config)\<^sup>*\<^sup>* empty_db example_db2" by auto
qed

lemma example_inv: "store_inv example_db0" "store_inv example_db1" "store_inv example_db2"
  "store_ok example_store_env example_db1"
proof -
  show "store_inv example_db0" "store_inv example_db1" "store_inv example_db2"
    using store_machine.reachable_inv [OF _ store_inv_empty] example_reaches by blast+
  have "store_ok example_store_env empty_db"
    by (simp add: store_ok_def store_inv_empty rows_hold_def) (simp add: empty_db_def)
  then show "store_ok example_store_env example_db1"
    by (rule store_contents.reachable_inv [OF example_reaches(3)])
qed

section \<open>The properties along the run\<close>

theorem retention_evicts_oldest_whole_groups_witness:
  "enforce_retention example_config 1 100 example_db2 = Ok (example_db3, 1) \<and>
   (\<exists>K. example_db3 = without_groups K example_db2 \<and> (1, 2, 1) \<in> K)"
proof -
  from retention_evicts_oldest_whole_groups [OF example_inv(3) example_evict] obtain K where
    K: "example_db3 = without_groups K example_db2" by blast
  have "groups (without_groups K example_db2) = []" by (simp add: K [symmetric] example_db3_def)
  then have "(1, 2, 1) \<in> K" by (auto simp: without_groups_def example_db2_def example_rows split: if_splits)
  with K example_evict show ?thesis by blast
qed

theorem store_object_contiguous_witness:
  "store_object example_store_env example_config example_object 0 example_db0 =
     Ok (example_db1, \<lparr>committed_through = 1, evicted_groups = 0, inserted = True\<rparr>) \<and>
   high_water example_db0 1 = Ok (Some 0) \<and> high_water example_db1 1 = Ok (Some 1) \<and>
   (\<exists>r. find_object example_db1 1 1 = Some r \<and> ob_object r = [5])"
proof -
  have "high_water example_db0 1 = Ok (Some 0)"
    by (simp add: high_water_def find_stream_def example_db0_def example_rows from_sql_u64_def)
  with store_object_contiguous [OF example_inv(1) example_store [OF example_store_runs]] example_store [OF example_store_runs] show ?thesis
    by (auto simp: example_header_fields find_object_def example_db1_def example_rows)
qed

theorem store_object_retry_witness:
  "store_object example_store_env example_config example_object 99 example_db1 =
     Ok (example_db1, \<lparr>committed_through = 1, evicted_groups = 0, inserted = False\<rparr>)"
  using store_object_retry [OF example_inv(1) example_store [OF example_store_runs]] by (simp add: example_header_fields)

lemma example_anchor: "subscription_anchor example_db1 1 Live = Ok 1"
  by (simp add: subscription_anchor_def find_stream_def example_db1_def example_rows from_sql_u64_def
      checked_add_u64_def last_by_def groups_of_def)

theorem subscription_anchor_decodable_witness:
  "subscription_anchor example_db1 1 Live = Ok 1 \<and> find_object example_db1 1 1 \<noteq> None"
proof -
  from subscription_anchor_decodable [OF example_inv(2) example_anchor] obtain s where
    s: "find_stream example_db1 1 = Some s" "\<forall>n. 1 \<le> n \<longrightarrow> n \<le> s_high_water s \<longrightarrow> find_object example_db1 1 n \<noteq> None"
    by auto
  from s(1) have "s_high_water s = 1" by (auto simp: find_stream_def example_db1_def example_rows split: if_splits)
  with s(2) example_anchor show ?thesis by simp
qed

lemma example_list: "list_objects example_store_env example_db1 1 0 10 = Ok [example_object]"
proof -
  have "find_stream example_db1 1 = Some (example_stream 1 (Some (2, 1)))"
    by (simp add: find_stream_def example_db1_def example_rows)
  note found = example_found [OF example_store_runs this]
  have "objects example_db1 = [example_object_row]" by (simp add: example_db1_def)
  then show ?thesis
    by (simp add: list_objects_def MAX_LIST_OBJECTS_def found to_sql_u64_def example_descriptor_fields)
      (simp add: example_object_row_def example_object_decode [OF example_store_runs])
qed

theorem list_objects_consecutive_witness:
  "list_objects example_store_env example_db1 1 0 10 = Ok [example_object] \<and>
   0 < uint (h_sequence (o_header example_object))"
  using list_objects_consecutive [OF runs_example_fields(10) [OF example_store_runs] example_inv(4) example_list] example_list by simp

theorem store_reachable_ok_witness:
  "(store_step example_store_env example_config)\<^sup>*\<^sup>* empty_db example_db2 \<and> store_ok example_store_env example_db2"
  using store_reachable_ok [OF example_reaches(4)] example_reaches(4) by blast

theorem stream_owner_permanent_witness:
  "\<exists>s s' d. find_stream example_db0 1 = Some s \<and> find_stream example_db1 1 = Some s' \<and>
     s_publisher_id s' = s_publisher_id s \<and> s_high_water s \<le> s_high_water s' \<and>
     descriptor_in_transaction example_store_env example_db1 1 = Ok (Some d) \<and>
     identity_id example_store_env (d_publisher (d_body d)) = Ok (s_publisher_id s)"
proof -
  have "find_stream example_db0 1 = Some (example_stream 0 None)"
    by (simp add: find_stream_def example_db0_def example_rows)
  from stream_owner_permanent [OF runs_example_fields(9) [OF example_store_runs] example_reaches(1) this example_reaches(2)] this
  show ?thesis by blast
qed

theorem store_within_quotas_witness:
  "(store_step example_store_env example_config)\<^sup>*\<^sup>* empty_db example_db1 \<and>
   within_quotas (limits example_config) example_db1"
  using store_within_quotas [OF runs_example_fields(9) [OF example_store_runs] example_reaches(3)] example_reaches(3) by blast

theorem retention_pass_ends_witness:
  "\<exists>db n. enforce_retention_at example_config 100 example_db2 = Ok (db, n) \<and>
     length (groups db) \<le> 1 \<and> n \<le> 1 - length (groups db)"
proof -
  have "uint (max_total_bytes (limits example_config)) \<le> i64_MAX"
    by (simp add: example_config_def default_limits_def)
  from retention_pass_ends [OF runs_example_fields(9) [OF example_store_runs] example_reaches(4) this, of 100]
  show ?thesis by (simp add: example_db2_def)
qed

end
