(* ===== verification/Trust.thy ===== *)
theory Trust
  imports Wire "HOL-Library.List_Lexorder"
begin

text \<open>
  \<^verbatim>\<open>crates/protocol/src/trust.rs\<close>: trust on first use for relay Noise keys.  A client pins the key a
  relay presents at its first connection and refuses any other key for the same endpoint until the
  pin is explicitly forgotten.

  The \<^verbatim>\<open>BTreeMap\<close> of pins is the list of its entries in key order; \<^verbatim>\<open>Ord for String\<close> is the
  lexicographic order of the code points.  The private file is the second part of the state.
  \<^verbatim>\<open>replace_private\<close> either replaces it, or fails before or after the rename.  Parsing and printing
  socket addresses is a parameter.
\<close>

section \<open>Data\<close>

definition KNOWN_RELAYS_VERSION :: u16 where
  "KNOWN_RELAYS_VERSION = 1"

definition MAX_KNOWN_RELAYS :: nat where
  "MAX_KNOWN_RELAYS = 4096"

definition MAX_KNOWN_RELAYS_FILE_LEN :: nat where
  "MAX_KNOWN_RELAYS_FILE_LEN = 512 * 1024"

datatype relay_trust_outcome = Known | Learned

datatype relay_trust_error =
    InvalidEndpoint
  | KeyChanged rust_str
  | TrustUnsupportedVersion u16
  | InvalidState string
  | TrustIo io_error_kind
  | TrustPostcard

record known_relay_entry =
  kre_endpoint :: rust_str
  kre_noise_static_key :: array32

record known_relay_file =
  krf_version :: u16
  krf_entries :: "known_relay_entry list"

record known_relays =
  kr_entries :: "(rust_str \<times> array32) list"
  kr_file :: "bytes option"

datatype replace_outcome = Replaced | ReplaceFailed io_error_kind bool

record trust_env =
  parse_addr :: "rust_str \<Rightarrow> socket_addr option"
  addr_text :: "socket_addr \<Rightarrow> rust_str"
  known_relay_codec :: "known_relay_file postcard"

section \<open>Endpoints\<close>

definition addr_port :: "socket_addr \<Rightarrow> u16" where
  "addr_port a = (case a of SocketV4 _ p \<Rightarrow> p | SocketV6 _ p _ _ \<Rightarrow> p)"

text \<open>\<^verbatim>\<open>rsplit_once\<close>, \<^verbatim>\<open>split\<close>, \<^verbatim>\<open>strip_suffix\<close> and \<^verbatim>\<open>to_ascii_lowercase\<close> of \<^verbatim>\<open>str\<close>\<close>

definition rsplit_once :: "nat \<Rightarrow> rust_str \<Rightarrow> (rust_str \<times> rust_str) option" where
  "rsplit_once c s =
     (if c \<in> set s
      then Some (rev (tl (dropWhile (\<lambda>x. x \<noteq> c) (rev s))), rev (takeWhile (\<lambda>x. x \<noteq> c) (rev s)))
      else None)"

fun split_on :: "nat \<Rightarrow> rust_str \<Rightarrow> rust_str \<Rightarrow> rust_str list" where
  "split_on c acc [] = [rev acc]"
| "split_on c acc (x # xs) = (if x = c then rev acc # split_on c [] xs else split_on c (x # acc) xs)"

definition strip_dot :: "rust_str \<Rightarrow> rust_str" where
  "strip_dot s = (if s \<noteq> [] \<and> last s = 46 then butlast s else s)"

definition ascii_lowercase :: "nat \<Rightarrow> nat" where
  "ascii_lowercase c = (if 65 \<le> c \<and> c \<le> 90 then c + 32 else c)"

definition is_ascii_digit :: "nat \<Rightarrow> bool" where
  "is_ascii_digit c \<longleftrightarrow> 48 \<le> c \<and> c \<le> 57"

definition is_ascii_alphanumeric :: "nat \<Rightarrow> bool" where
  "is_ascii_alphanumeric c \<longleftrightarrow> is_ascii_digit c \<or> 65 \<le> c \<and> c \<le> 90 \<or> 97 \<le> c \<and> c \<le> 122"

text \<open>\<^verbatim>\<open>str::parse::<u16>\<close>: an optional plus sign and at least one digit, within range.\<close>

definition parse_u16 :: "rust_str \<Rightarrow> nat option" where
  "parse_u16 s =
     (let digits = (if s \<noteq> [] \<and> hd s = 43 then tl s else s);
          n = foldl (\<lambda>n d. n * 10 + (d - 48)) 0 digits
      in if digits \<noteq> [] \<and> list_all is_ascii_digit digits \<and> n < 65536 then Some n else None)"

text \<open>Decimal printing of an integer.\<close>

fun decimal :: "nat \<Rightarrow> rust_str" where
  "decimal n = (if n < 10 then [48 + n] else decimal (n div 10) @ [48 + n mod 10])"

declare decimal.simps [simp del]

definition label_invalid :: "rust_str \<Rightarrow> bool" where
  "label_invalid label \<longleftrightarrow>
     label = [] \<or> str_len label > 63 \<or> hd label = 45 \<or> last label = 45 \<or>
     \<not> list_all (\<lambda>c. is_ascii_alphanumeric c \<or> c = 45) label"

definition host_invalid :: "rust_str \<Rightarrow> bool" where
  "host_invalid host \<longleftrightarrow>
     host = [] \<or> str_len host > 253 \<or> hd host = 46 \<or> last host = 46 \<or> list_ex label_invalid (split_on 46 [] host)"

definition canonical_relay_endpoint :: "trust_env \<Rightarrow> rust_str \<Rightarrow> relay_trust_error + rust_str" where
  "canonical_relay_endpoint E endpoint =
     (if endpoint = [] \<or> str_len endpoint > 512 \<or> str_trim endpoint \<noteq> endpoint then Err InvalidEndpoint
      else (case parse_addr E endpoint of
              Some address \<Rightarrow> if addr_port address = 0 then Err InvalidEndpoint else Ok (addr_text E address)
            | None \<Rightarrow>
                and_then (ok_or (rsplit_once 58 endpoint) InvalidEndpoint) (\<lambda>(host, port).
                and_then (ok_or (case parse_u16 port of Some p \<Rightarrow> if p = 0 then None else Some p | None \<Rightarrow> None)
                            InvalidEndpoint) (\<lambda>port.
                  let host = map ascii_lowercase (strip_dot host)
                  in if host_invalid host then Err InvalidEndpoint else Ok (host @ [58] @ decimal port)))))"

section \<open>The map of pins\<close>

fun btree_insert :: "'k::linorder \<Rightarrow> 'v \<Rightarrow> ('k \<times> 'v) list \<Rightarrow> ('k \<times> 'v) list" where
  "btree_insert k v [] = [(k, v)]"
| "btree_insert k v ((k', v') # es) =
     (if k < k' then (k, v) # (k', v') # es
      else if k = k' then (k, v) # es
      else (k', v') # btree_insert k v es)"

definition btree_remove :: "'k \<Rightarrow> ('k \<times> 'v) list \<Rightarrow> ('k \<times> 'v) list" where
  "btree_remove k es = filter (\<lambda>(k', _). k' \<noteq> k) es"

section \<open>Operations\<close>

fun open_entries ::
  "trust_env \<Rightarrow> rust_str option \<Rightarrow> known_relay_entry list \<Rightarrow> (rust_str \<times> array32) list
    \<Rightarrow> relay_trust_error + (rust_str \<times> array32) list" where
  "open_entries E previous [] acc = Ok acc"
| "open_entries E previous (e # es) acc =
     and_then (canonical_relay_endpoint E (kre_endpoint e)) (\<lambda>canonical_endpoint.
       if canonical_endpoint \<noteq> kre_endpoint e \<or>
          (case previous of Some p \<Rightarrow> p \<ge> kre_endpoint e | None \<Rightarrow> False) \<or> kre_noise_static_key e = 0
       then Err (InvalidState ''entries are not canonical, sorted, unique, and nonzero'')
       else open_entries E (Some (kre_endpoint e)) es
              (btree_insert (kre_endpoint e) (kre_noise_static_key e) acc))"

definition known_relays_open :: "trust_env \<Rightarrow> io_error_kind + bytes \<Rightarrow> relay_trust_error + known_relays" where
  "known_relays_open E read =
     (case read of
        Inl NotFound \<Rightarrow> Ok \<lparr>kr_entries = [], kr_file = None\<rparr>
      | Inl e \<Rightarrow> Err (TrustIo e)
      | Inr bs \<Rightarrow>
          and_then (ok_or (take_from_bytes (known_relay_codec E) bs) TrustPostcard) (\<lambda>(file, remainder).
            if remainder \<noteq> [] then Err (InvalidState ''trailing data'')
            else if krf_version file \<noteq> KNOWN_RELAYS_VERSION then Err (TrustUnsupportedVersion (krf_version file))
            else if length (krf_entries file) > MAX_KNOWN_RELAYS then Err (InvalidState ''too many relay entries'')
            else and_then (open_entries E None (krf_entries file) []) (\<lambda>entries.
              Ok \<lparr>kr_entries = entries, kr_file = Some bs\<rparr>)))"

definition known_relays_persist ::
  "trust_env \<Rightarrow> replace_outcome \<Rightarrow> known_relays \<Rightarrow> (relay_trust_error + unit) \<times> known_relays" where
  "known_relays_persist E replaced kr =
     (let file = \<lparr>krf_version = KNOWN_RELAYS_VERSION,
                  krf_entries = map (\<lambda>(e, k). \<lparr>kre_endpoint = e, kre_noise_static_key = k\<rparr>) (kr_entries kr)\<rparr>
      in case to_stdvec (known_relay_codec E) file of
           None \<Rightarrow> (Err TrustPostcard, kr)
         | Some encoded \<Rightarrow>
             if length encoded > MAX_KNOWN_RELAYS_FILE_LEN
             then (Err (InvalidState ''known-relays file is too large''), kr)
             else (case replaced of
                     Replaced \<Rightarrow> (Ok (), kr\<lparr>kr_file := Some encoded\<rparr>)
                   | ReplaceFailed e renamed \<Rightarrow>
                       (Err (TrustIo e), if renamed then kr\<lparr>kr_file := Some encoded\<rparr> else kr)))"

definition verify_or_learn ::
  "trust_env \<Rightarrow> replace_outcome \<Rightarrow> known_relays \<Rightarrow> rust_str \<Rightarrow> array32
    \<Rightarrow> (relay_trust_error + relay_trust_outcome) \<times> known_relays" where
  "verify_or_learn E replaced kr endpoint key =
     (case canonical_relay_endpoint E endpoint of
        Inl e \<Rightarrow> (Err e, kr)
      | Inr ep \<Rightarrow>
          if key = 0 then (Err (InvalidState ''zero relay key''), kr)
          else (case map_of (kr_entries kr) ep of
                  Some expected \<Rightarrow> if expected = key then (Ok Known, kr) else (Err (KeyChanged ep), kr)
                | None \<Rightarrow>
                    if length (kr_entries kr) \<ge> MAX_KNOWN_RELAYS
                    then (Err (InvalidState ''too many relay entries''), kr)
                    else let (r, kr') = known_relays_persist E replaced
                               (kr\<lparr>kr_entries := btree_insert ep key (kr_entries kr)\<rparr>)
                         in (and_then r (\<lambda>_. Ok Learned), kr')))"

definition known_relays_forget ::
  "trust_env \<Rightarrow> replace_outcome \<Rightarrow> known_relays \<Rightarrow> rust_str \<Rightarrow> (relay_trust_error + bool) \<times> known_relays" where
  "known_relays_forget E replaced kr endpoint =
     (case canonical_relay_endpoint E endpoint of
        Inl e \<Rightarrow> (Err e, kr)
      | Inr ep \<Rightarrow>
          if map_of (kr_entries kr) ep = None then (Ok False, kr)
          else let (r, kr') = known_relays_persist E replaced (kr\<lparr>kr_entries := btree_remove ep (kr_entries kr)\<rparr>)
               in (and_then r (\<lambda>_. Ok True), kr'))"

definition known_relays_get :: "trust_env \<Rightarrow> known_relays \<Rightarrow> rust_str \<Rightarrow> relay_trust_error + array32 option" where
  "known_relays_get E kr endpoint =
     and_then (canonical_relay_endpoint E endpoint) (\<lambda>ep. Ok (map_of (kr_entries kr) ep))"

section \<open>Canonical endpoints\<close>

text \<open>
  What the code relies on in \<^verbatim>\<open>SocketAddr\<close>: a printed address parses to an address with the same port
  that prints as the same text (printing an IPv6 address leaves its flow label out, so it need not
  be the address that was printed), printed addresses are short and have no whitespace, and a text
  without brackets that parses is dotted decimal, which prints as it was written when its port has
  no superfluous digits.
\<close>

definition socket_text_ok :: "trust_env \<Rightarrow> bool" where
  "socket_text_ok E \<longleftrightarrow>
     (\<forall>a. \<exists>b. parse_addr E (addr_text E a) = Some b \<and> addr_text E b = addr_text E a \<and> addr_port b = addr_port a) \<and>
     (\<forall>a. addr_text E a \<noteq> [] \<and> str_len (addr_text E a) \<le> 512 \<and> \<not> list_ex is_whitespace (addr_text E a)) \<and>
     (\<forall>host p a. list_all (\<lambda>c. is_ascii_alphanumeric c \<or> c = 45 \<or> c = 46) host \<longrightarrow>
        parse_addr E (host @ [58] @ decimal p) = Some a \<longrightarrow>
        addr_text E a = host @ [58] @ decimal p \<and> addr_port a = of_nat p)"

lemma str_trim_id: "s \<noteq> [] \<Longrightarrow> \<not> is_whitespace (hd s) \<Longrightarrow> \<not> is_whitespace (last s) \<Longrightarrow> str_trim s = s"
proof -
  assume s: "s \<noteq> []" "\<not> is_whitespace (hd s)" "\<not> is_whitespace (last s)"
  then have "dropWhile is_whitespace s = s" by (simp add: dropWhile_eq_self_iff)
  moreover have "dropWhile is_whitespace (rev s) = rev s" using s by (simp add: dropWhile_eq_self_iff hd_rev)
  ultimately show ?thesis by (simp add: str_trim_def)
qed

lemma decimal_digits: "list_all is_ascii_digit (decimal n) \<and> decimal n \<noteq> []"
proof (induction n rule: decimal.induct)
  case (1 n)
  then show ?case by (cases "n < 10") (simp_all add: decimal.simps [of n] is_ascii_digit_def)
qed

lemma foldl_decimal: "foldl (\<lambda>n d. n * 10 + (d - 48)) 0 (decimal n) = n"
proof (induction n rule: decimal.induct)
  case (1 n)
  show ?case
  proof (cases "n < 10")
    case False
    with 1 show ?thesis by (simp add: decimal.simps [of n])
  qed (simp add: decimal.simps [of n])
qed

lemma length_decimal: "n < 10 ^ Suc k \<Longrightarrow> length (decimal n) \<le> Suc k"
proof (induction k arbitrary: n)
  case (Suc k)
  then have "n div 10 < 10 ^ Suc k" by (simp add: less_mult_imp_div_less)
  with Suc.IH [of "n div 10"] show ?case by (simp add: decimal.simps [of n])
qed (simp add: decimal.simps)

lemma parse_u16_decimal: "n < 65536 \<Longrightarrow> parse_u16 (decimal n) = Some n"
  using decimal_digits [of n] foldl_decimal [of n]
  by (cases "decimal n") (auto simp: parse_u16_def is_ascii_digit_def Let_def)

lemma rsplit_once_append:
  assumes "c \<notin> set port"
  shows "rsplit_once c (host @ [c] @ port) = Some (host, port)"
proof -
  have "takeWhile (\<lambda>x. x \<noteq> c) (ys @ c # zs) = ys" "dropWhile (\<lambda>x. x \<noteq> c) (ys @ c # zs) = c # zs"
    if "c \<notin> set ys" for ys zs using that by (induction ys) auto
  from this [of "rev port" "rev host"] assms
  have "takeWhile (\<lambda>x. x \<noteq> c) (rev port @ c # rev host) = rev port"
    "dropWhile (\<lambda>x. x \<noteq> c) (rev port @ c # rev host) = c # rev host" by simp_all
  then show ?thesis by (simp add: rsplit_once_def)
qed

lemma rsplit_once_Some: "rsplit_once c s = Some (host, port) \<Longrightarrow> s = host @ [c] @ port \<and> c \<notin> set port"
proof -
  assume 1: "rsplit_once c s = Some (host, port)"
  then have "c \<in> set (rev s)" by (simp add: rsplit_once_def split: if_splits)
  then obtain ys zs where 2: "rev s = ys @ c # zs" "c \<notin> set ys" by (meson split_list_first)
  have "s = rev zs @ [c] @ rev ys" using arg_cong [OF 2(1), of rev] by simp
  moreover from this rsplit_once_append [of c "rev ys" "rev zs"] 1 2(2) have "host = rev zs" "port = rev ys" by simp_all
  ultimately show ?thesis using 2(2) by simp
qed

lemma split_on_covers: "set xs \<subseteq> {c} \<union> \<Union> (set ` set (split_on c acc xs)) \<and> set acc \<subseteq> \<Union> (set ` set (split_on c acc xs))"
proof (induction xs arbitrary: acc)
  case (Cons x xs)
  from Cons [of "[]"] Cons [of "x # acc"] show ?case by (cases "x = c") auto
qed simp

lemma host_chars:
  assumes "\<not> host_invalid host"
  shows "list_all (\<lambda>c. is_ascii_alphanumeric c \<or> c = 45 \<or> c = 46) host"
  unfolding list_all_iff
proof
  fix c assume "c \<in> set host"
  with split_on_covers [of host 46 "[]"] have "c = 46 \<or> (\<exists>l\<in>set (split_on 46 [] host). c \<in> set l)" by auto
  with assms show "is_ascii_alphanumeric c \<or> c = 45 \<or> c = 46"
    by (auto simp: host_invalid_def list_ex_iff label_invalid_def list_all_iff)
qed

lemma ascii_lowercase_idem [simp]: "ascii_lowercase (ascii_lowercase c) = ascii_lowercase c"
  by (simp add: ascii_lowercase_def)

lemma host_not_white: "list_all (\<lambda>c. is_ascii_alphanumeric c \<or> c = 45 \<or> c = 46) host \<Longrightarrow> c \<in> set host \<Longrightarrow> \<not> is_whitespace c"
  by (auto simp: list_all_iff is_ascii_alphanumeric_def is_ascii_digit_def is_whitespace_def)

lemma str_len_append: "str_len (xs @ ys) = str_len xs + str_len ys"
  by (simp add: str_len_def)

lemma str_len_digits: "list_all is_ascii_digit s \<Longrightarrow> str_len s = length s"
  by (induction s) (simp_all add: str_len_def utf8_width_def is_ascii_digit_def)

lemma host_endpoint_canonical:
  assumes ok: "socket_text_ok E" and host: "\<not> host_invalid (map ascii_lowercase h)" and port: "0 < p" "p < 65536"
  shows "canonical_relay_endpoint E (map ascii_lowercase h @ [58] @ decimal p) = Ok (map ascii_lowercase h @ [58] @ decimal p)"
proof -
  let ?h = "map ascii_lowercase h" and ?c = "map ascii_lowercase h @ [58] @ decimal p"
  note chars = host_chars [OF host]
  note digits = decimal_digits [of p]
  have ne: "?h \<noteq> []" and last: "last ?h \<noteq> 46" and len: "str_len ?h \<le> 253"
    using host by (auto simp: host_invalid_def)
  have "length (decimal p) \<le> 5" using length_decimal [of p 4] port by simp
  then have "str_len ?c \<le> 512"
    using len str_len_digits [OF conjunct1 [OF digits]] by (simp add: str_len_append) (simp add: str_len_def utf8_width_def)
  moreover have "str_trim ?c = ?c"
  proof (rule str_trim_id)
    show "\<not> is_whitespace (hd ?c)" using host_not_white [OF chars hd_in_set [OF ne]] ne by (simp add: hd_append)
    show "\<not> is_whitespace (last ?c)"
    proof -
      have "is_ascii_digit (last (decimal p))" using digits by (simp add: list_all_iff)
      then show ?thesis using digits by (auto simp: is_ascii_digit_def is_whitespace_def)
    qed
  qed simp
  moreover have "rsplit_once 58 ?c = Some (?h, decimal p)"
    using digits by (intro rsplit_once_append) (auto simp: list_all_iff is_ascii_digit_def)
  moreover have "strip_dot ?h = ?h" using last by (simp add: strip_dot_def)
  moreover have "addr_text E a = ?c \<and> addr_port a \<noteq> 0" if "parse_addr E ?c = Some a" for a
  proof -
    from ok that chars have "addr_text E a = ?c" "addr_port a = of_nat p" unfolding socket_text_ok_def by blast+
    moreover have "unat (of_nat p :: u16) = p" using port by (simp add: unsigned_of_nat take_bit_nat_eq_self)
    then have "(of_nat p :: u16) \<noteq> 0" using port by (metis less_numeral_extra(3) unsigned_0)
    ultimately show ?thesis by simp
  qed
  ultimately show ?thesis
    using host port parse_u16_decimal [of p] unfolding canonical_relay_endpoint_def
    by (auto simp: comp_def Let_def split: option.splits)
qed

lemma canonical_endpoint_idem:
  assumes ok: "socket_text_ok E" and c: "canonical_relay_endpoint E endpoint = Ok ep"
  shows "canonical_relay_endpoint E ep = Ok ep"
proof (cases "parse_addr E endpoint")
  case None
  with c obtain host port p where
    1: "parse_u16 port = Some p" "p \<noteq> 0" "\<not> host_invalid (map ascii_lowercase (strip_dot host))"
    "ep = map ascii_lowercase (strip_dot host) @ [58] @ decimal p"
    by (auto simp: canonical_relay_endpoint_def result_simps Let_def split: option.splits if_splits)
  moreover have "p < 65536" using 1(1) by (auto simp: parse_u16_def Let_def split: if_splits)
  ultimately show ?thesis using host_endpoint_canonical [OF ok 1(3), of p] by simp
next
  case (Some a)
  with c have ep: "ep = addr_text E a" "addr_port a \<noteq> 0"
    by (auto simp: canonical_relay_endpoint_def split: if_splits)
  from ok obtain b where b: "parse_addr E ep = Some b" "addr_text E b = ep" "addr_port b = addr_port a"
    unfolding ep(1) socket_text_ok_def by blast
  from ok have a: "ep \<noteq> []" "str_len ep \<le> 512" "\<not> list_ex is_whitespace ep"
    unfolding ep(1) socket_text_ok_def by blast+
  then have "str_trim ep = ep" by (intro str_trim_id) (auto simp: list_ex_iff)
  with a b ep(2) show ?thesis by (simp add: canonical_relay_endpoint_def)
qed

section \<open>The sorted map\<close>

lemma btree_insert_keys: "set (map fst (btree_insert k v es)) = insert k (set (map fst es))"
  by (induction k v es rule: btree_insert.induct) auto

lemma btree_insert_sorted: "sorted_wrt (<) (map fst es) \<Longrightarrow> sorted_wrt (<) (map fst (btree_insert k v es))"
proof (induction k v es rule: btree_insert.induct)
  case (2 k v k' v' es)
  then show ?case using btree_insert_keys [of k v es] by (auto dest: order.strict_trans)
qed simp

lemma btree_insert_lookup: "sorted_wrt (<) (map fst es) \<Longrightarrow> map_of (btree_insert k v es) = (map_of es)(k \<mapsto> v)"
  by (induction k v es rule: btree_insert.induct) (auto simp: fun_eq_iff)

lemma btree_insert_length: "length (btree_insert k v es) \<le> Suc (length es)"
  by (induction k v es rule: btree_insert.induct) auto

lemma btree_insert_members: "set (btree_insert k v es) \<subseteq> insert (k, v) (set es)"
  by (induction k v es rule: btree_insert.induct) auto

lemma btree_insert_last: "\<forall>k'\<in>set (map fst es). k' < k \<Longrightarrow> btree_insert k v es = es @ [(k, v)]"
  by (induction k v es rule: btree_insert.induct) auto

lemma btree_remove_lookup: "map_of (btree_remove k es) = (map_of es)(k := None)"
  by (induction es) (auto simp: btree_remove_def fun_eq_iff)

lemma btree_remove_sorted: "sorted_wrt (<) (map fst es) \<Longrightarrow> sorted_wrt (<) (map fst (btree_remove k es))"
  by (induction es) (auto simp: btree_remove_def)

section \<open>The invariant\<close>

definition known_relays_ok :: "trust_env \<Rightarrow> known_relays \<Rightarrow> bool" where
  "known_relays_ok E kr \<longleftrightarrow>
     sorted_wrt (<) (map fst (kr_entries kr)) \<and> length (kr_entries kr) \<le> MAX_KNOWN_RELAYS \<and>
     (\<forall>(e, k) \<in> set (kr_entries kr). canonical_relay_endpoint E e = Ok e \<and> k \<noteq> 0)"

lemma persist_entries [simp]: "kr_entries (snd (known_relays_persist E out kr)) = kr_entries kr"
  by (auto simp: known_relays_persist_def Let_def split: option.splits replace_outcome.splits)

lemma verify_or_learn_entries:
  "kr_entries (snd (verify_or_learn E out kr endpoint key)) =
     (case canonical_relay_endpoint E endpoint of
        Inl _ \<Rightarrow> kr_entries kr
      | Inr ep \<Rightarrow> if key \<noteq> 0 \<and> map_of (kr_entries kr) ep = None \<and> length (kr_entries kr) < MAX_KNOWN_RELAYS
                  then btree_insert ep key (kr_entries kr) else kr_entries kr)"
  by (auto simp: verify_or_learn_def case_prod_unfold Let_def split: sum.splits option.splits)

lemma forget_entries:
  "kr_entries (snd (known_relays_forget E out kr endpoint)) =
     (case canonical_relay_endpoint E endpoint of
        Inl _ \<Rightarrow> kr_entries kr | Inr ep \<Rightarrow> btree_remove ep (kr_entries kr))"
proof -
  have "btree_remove ep es = es" if "map_of es ep = None" for ep and es :: "(rust_str \<times> array32) list"
    using that by (force simp: btree_remove_def map_of_eq_None_iff filter_id_conv)
  then show ?thesis
    by (auto simp: known_relays_forget_def case_prod_unfold Let_def split: sum.splits)
qed

text \<open>Any use of the store: checking a key or forgetting an endpoint, whatever happens to the file.\<close>

inductive trust_step :: "trust_env \<Rightarrow> known_relays \<Rightarrow> known_relays \<Rightarrow> bool" for E where
  learn: "trust_step E kr (snd (verify_or_learn E out kr endpoint key))"
| forget: "trust_step E kr (snd (known_relays_forget E out kr endpoint))"

inductive_cases trust_stepE: "trust_step E kr kr'"

lemma insert_entry_ok:
  assumes "known_relays_ok E kr" and "canonical_relay_endpoint E ep = Ok ep" and "key \<noteq> 0"
    and "length (kr_entries kr) < MAX_KNOWN_RELAYS" and "kr_entries kr' = btree_insert ep key (kr_entries kr)"
  shows "known_relays_ok E kr'"
proof -
  have "length (kr_entries kr') \<le> MAX_KNOWN_RELAYS"
    using btree_insert_length [of ep key "kr_entries kr"] assms(4,5) by simp
  moreover have "sorted_wrt (<) (map fst (kr_entries kr'))"
    using assms(1,5) by (simp add: btree_insert_sorted known_relays_ok_def)
  moreover have "canonical_relay_endpoint E e = Ok e \<and> k \<noteq> 0" if "(e, k) \<in> set (kr_entries kr')" for e k
    using that assms btree_insert_members [of ep key "kr_entries kr"] by (auto simp: known_relays_ok_def)
  ultimately show ?thesis by (auto simp: known_relays_ok_def)
qed

lemma known_relays_ok_cong: "kr_entries kr' = kr_entries kr \<Longrightarrow> known_relays_ok E kr' = known_relays_ok E kr"
  by (simp add: known_relays_ok_def)

lemma verify_or_learn_ok:
  assumes "socket_text_ok E" and "known_relays_ok E kr"
  shows "known_relays_ok E (snd (verify_or_learn E out kr endpoint key))"
proof (cases "kr_entries (snd (verify_or_learn E out kr endpoint key)) = kr_entries kr")
  case True
  with assms(2) known_relays_ok_cong show ?thesis by blast
next
  case False
  then obtain ep where "canonical_relay_endpoint E endpoint = Ok ep" "key \<noteq> 0" "length (kr_entries kr) < MAX_KNOWN_RELAYS"
    "kr_entries (snd (verify_or_learn E out kr endpoint key)) = btree_insert ep key (kr_entries kr)"
    by (auto simp: verify_or_learn_entries split: sum.splits if_splits)
  then show ?thesis using insert_entry_ok [OF assms(2) canonical_endpoint_idem [OF assms(1)]] by blast
qed

lemma forget_ok:
  assumes "known_relays_ok E kr"
  shows "known_relays_ok E (snd (known_relays_forget E out kr endpoint))"
proof (cases "canonical_relay_endpoint E endpoint")
  case (Inl e)
  then have "kr_entries (snd (known_relays_forget E out kr endpoint)) = kr_entries kr" by (simp add: forget_entries)
  with assms known_relays_ok_cong show ?thesis by blast
next
  case (Inr ep)
  let ?es = "btree_remove ep (kr_entries kr)"
  have "set ?es \<subseteq> set (kr_entries kr)" "length ?es \<le> length (kr_entries kr)" by (auto simp: btree_remove_def)
  moreover have "sorted_wrt (<) (map fst ?es)" using assms by (simp add: known_relays_ok_def btree_remove_sorted)
  ultimately show ?thesis
    using assms Inr unfolding known_relays_ok_def forget_entries by auto
qed

lemma trust_step_ok: "socket_text_ok E \<Longrightarrow> trust_step E kr kr' \<Longrightarrow> known_relays_ok E kr \<Longrightarrow> known_relays_ok E kr'"
  by (auto elim!: trust_stepE simp: verify_or_learn_ok forget_ok)

interpretation trust_machine: invariant_machine "\<lambda>kr kr'. socket_text_ok E \<and> trust_step E kr kr'" "known_relays_ok E" for E
  by unfold_locales (blast intro: trust_step_ok)

lemma trust_steps_ok:
  assumes "socket_text_ok E" and "(trust_step E)\<^sup>*\<^sup>* kr kr'" and "known_relays_ok E kr"
  shows "known_relays_ok E kr'"
proof -
  have "(\<lambda>kr kr'. socket_text_ok E \<and> trust_step E kr kr')\<^sup>*\<^sup>* kr kr'"
    using assms(2) by (rule rtranclp_mono [THEN predicate2D, rotated]) (use assms(1) in auto)
  from trust_machine.reachable_inv [OF this assms(3)] show ?thesis .
qed

lemma empty_relays_ok: "known_relays_ok E \<lparr>kr_entries = [], kr_file = f\<rparr>"
  by (simp add: known_relays_ok_def)

section \<open>Reopening\<close>

lemma open_entries_sorted:
  assumes "sorted_wrt (<) (map fst (acc @ es))" and "\<forall>(e, k) \<in> set es. canonical_relay_endpoint E e = Ok e \<and> k \<noteq> 0"
    and "previous = (if acc = [] then None else Some (fst (last acc)))"
  shows "open_entries E previous (map (\<lambda>(e, k). \<lparr>kre_endpoint = e, kre_noise_static_key = k\<rparr>) es) acc = Ok (acc @ es)"
  using assms
proof (induction es arbitrary: acc previous)
  case (Cons x es)
  obtain e k where x: "x = (e, k)" by (cases x)
  have below: "\<forall>k'\<in>set (map fst acc). k' < e" using Cons.prems(1) by (auto simp: x sorted_wrt_append)
  then have "\<not> (case previous of Some p \<Rightarrow> p \<ge> e | None \<Rightarrow> False)"
    using Cons.prems(3) by (auto simp: not_le)
  moreover have "open_entries E (Some e) (map (\<lambda>(e, k). \<lparr>kre_endpoint = e, kre_noise_static_key = k\<rparr>) es) (acc @ [(e, k)])
      = Ok ((acc @ [(e, k)]) @ es)"
    by (rule Cons.IH) (use Cons.prems in \<open>auto simp: x\<close>)
  ultimately show ?case
    using Cons.prems(2) btree_insert_last [OF below, of k] by (cases previous) (simp_all add: x)
qed simp

text \<open>What opening the store again finds: the file as the last operation left it.\<close>

definition known_relays_reopen :: "trust_env \<Rightarrow> known_relays \<Rightarrow> relay_trust_error + known_relays" where
  "known_relays_reopen E kr =
     known_relays_open E (case kr_file kr of None \<Rightarrow> Inl NotFound | Some bs \<Rightarrow> Inr bs)"

definition durable_pins :: "trust_env \<Rightarrow> known_relays \<Rightarrow> rust_str \<rightharpoonup> array32" where
  "durable_pins E kr =
     (case known_relays_reopen E kr of Inl _ \<Rightarrow> (\<lambda>_. None) | Inr kr' \<Rightarrow> map_of (kr_entries kr'))"

lemma reopen_cong: "kr_file kr' = kr_file kr \<Longrightarrow> known_relays_reopen E kr' = known_relays_reopen E kr"
  by (simp add: known_relays_reopen_def)

lemma reopen_file: "known_relays_reopen E kr = Ok kr' \<Longrightarrow> kr_file kr' = kr_file kr"
  by (auto simp: known_relays_reopen_def known_relays_open_def result_simps split: option.splits prod.splits if_splits)

lemma reopen_again: "known_relays_reopen E kr = Ok kr' \<Longrightarrow> known_relays_reopen E kr' = Ok kr'"
  using reopen_cong [OF reopen_file] by metis

lemma open_entries_ok:
  assumes "open_entries E previous es acc = Ok entries" and "sorted_wrt (<) (map fst acc)"
    and "previous = (if acc = [] then None else Some (fst (last acc)))"
    and "\<forall>(e, k) \<in> set acc. canonical_relay_endpoint E e = Ok e \<and> k \<noteq> 0"
  shows "sorted_wrt (<) (map fst entries) \<and> length entries = length acc + length es \<and>
    (\<forall>(e, k) \<in> set entries. canonical_relay_endpoint E e = Ok e \<and> k \<noteq> 0)"
  using assms
proof (induction E previous es acc rule: open_entries.induct)
  case (2 E previous e es acc)
  let ?e = "kre_endpoint e" and ?k = "kre_noise_static_key e"
  from 2(2) have 1: "canonical_relay_endpoint E ?e = Ok ?e" "\<not> (case previous of Some p \<Rightarrow> p \<ge> ?e | None \<Rightarrow> False)"
    "?k \<noteq> 0" "open_entries E (Some ?e) es (btree_insert ?e ?k acc) = Ok entries"
    by (auto simp: result_simps split: if_splits)
  have below: "\<forall>k'\<in>set (map fst acc). k' < ?e"
  proof (cases "acc = []")
    case False
    then have "fst (last acc) < ?e" using 1(2) 2(4) by (simp add: not_le)
    moreover from False 2(3) have "\<forall>k'\<in>set (map fst acc). k' \<le> fst (last acc)"
      by (cases acc rule: rev_cases) (auto simp: sorted_wrt_append)
    ultimately show ?thesis by (meson le_less_trans)
  qed simp
  note ins = btree_insert_last [OF below, of ?k]
  from 2(1) [OF 1(1) _ 1(4)] 1 2(3,5) below show ?case by (simp add: ins sorted_wrt_append)
qed simp

lemma open_ok: "known_relays_open E read = Ok kr \<Longrightarrow> known_relays_ok E kr"
proof -
  assume "known_relays_open E read = Ok kr"
  then consider "kr_entries kr = []"
    | es where "length es \<le> MAX_KNOWN_RELAYS" "open_entries E None es [] = Ok (kr_entries kr)"
    by (auto simp: known_relays_open_def result_simps not_less split: sum.splits io_error_kind.splits if_splits prod.splits)
  then show ?thesis
  proof cases
    case 2
    with open_entries_ok [OF 2(2)] show ?thesis by (simp add: known_relays_ok_def)
  qed (simp add: known_relays_ok_def)
qed

text \<open>Persisting either leaves the file as it was, and then reports an error, or makes it one that
  opens to the very pins the store holds.\<close>

lemma persisted_reopens:
  assumes "postcard_ok (known_relay_codec E)" and "known_relays_ok E kr"
    and "known_relays_persist E out kr = (r, kr')"
  shows "kr_entries kr' = kr_entries kr \<and>
    (known_relays_reopen E kr' = Ok kr' \<or> kr_file kr' = kr_file kr \<and> (\<exists>e. r = Err e))"
proof -
  let ?es = "map (\<lambda>(e, k). \<lparr>kre_endpoint = e, kre_noise_static_key = k\<rparr>) (kr_entries kr)"
  have entries: "kr_entries kr' = kr_entries kr" using persist_entries [of E out kr] assms(3) by simp
  have "open_entries E None ?es [] = Ok ([] @ kr_entries kr)"
    by (rule open_entries_sorted) (use assms(2) in \<open>simp_all add: known_relays_ok_def\<close>)
  then have reopens: "known_relays_open E (Inr bs) = Ok (kr\<lparr>kr_file := Some bs\<rparr>)"
    if "to_stdvec (known_relay_codec E) \<lparr>krf_version = KNOWN_RELAYS_VERSION, krf_entries = ?es\<rparr> = Some bs" for bs
    using postcard_okD_exact [OF assms(1) that] assms(2) by (simp add: known_relays_open_def known_relays_ok_def)
  from assms(3) entries show ?thesis
    by (auto simp: known_relays_persist_def known_relays_reopen_def Let_def reopens
        split: option.splits if_splits replace_outcome.splits)
qed

lemma verify_or_learn_reopens:
  assumes "postcard_ok (known_relay_codec E)" and "socket_text_ok E" and "known_relays_ok E kr"
    and "verify_or_learn E out kr endpoint key = (r, kr')"
  shows "known_relays_reopen E kr' = Ok kr' \<or> kr_file kr' = kr_file kr"
proof (cases "kr' = kr")
  case False
  with assms(4) obtain ep r' where
    1: "canonical_relay_endpoint E endpoint = Ok ep" "key \<noteq> 0" "length (kr_entries kr) < MAX_KNOWN_RELAYS"
    "known_relays_persist E out (kr\<lparr>kr_entries := btree_insert ep key (kr_entries kr)\<rparr>) = (r', kr')"
    by (auto simp: verify_or_learn_def case_prod_unfold Let_def split: sum.splits option.splits if_splits)
      (metis prod.collapse)
  have "known_relays_ok E (kr\<lparr>kr_entries := btree_insert ep key (kr_entries kr)\<rparr>)"
    by (rule insert_entry_ok [OF assms(3) canonical_endpoint_idem [OF assms(2) 1(1)] 1(2,3)]) simp
  from persisted_reopens [OF assms(1) this 1(4)] show ?thesis by auto
qed simp

lemma forget_reopens:
  assumes "postcard_ok (known_relay_codec E)" and "known_relays_ok E kr"
    and "known_relays_forget E out kr endpoint = (r, kr')"
  shows "known_relays_reopen E kr' = Ok kr' \<or> kr_file kr' = kr_file kr"
proof (cases "kr' = kr")
  case False
  with assms(3) obtain ep r' where
    1: "canonical_relay_endpoint E endpoint = Ok ep"
    "known_relays_persist E out (kr\<lparr>kr_entries := btree_remove ep (kr_entries kr)\<rparr>) = (r', kr')"
    by (auto simp: known_relays_forget_def case_prod_unfold Let_def split: sum.splits if_splits)
      (metis prod.collapse)
  have "kr_entries kr' = btree_remove ep (kr_entries kr)"
    using persist_entries [of E out "kr\<lparr>kr_entries := btree_remove ep (kr_entries kr)\<rparr>"] 1(2) by simp
  moreover have "known_relays_ok E kr'" using forget_ok [OF assms(2), of out endpoint] assms(3) by simp
  ultimately have "known_relays_ok E (kr\<lparr>kr_entries := btree_remove ep (kr_entries kr)\<rparr>)"
    by (simp add: known_relays_ok_def)
  from persisted_reopens [OF assms(1) this 1(2)] show ?thesis by auto
qed simp

section \<open>Properties\<close>

text \<open>The abstract contract: a map of pins that learns the first key of an endpoint.\<close>

definition tofu :: "('e \<rightharpoonup> 'k) \<Rightarrow> 'e \<Rightarrow> 'k \<Rightarrow> relay_trust_outcome option \<times> ('e \<rightharpoonup> 'k)" where
  "tofu pins e k =
     (case pins e of
        Some k' \<Rightarrow> (if k' = k then Some Known else None, pins)
      | None \<Rightarrow> (Some Learned, pins(e \<mapsto> k)))"

text \<open>C32: The file-backed store implements trust on first use.  The abstract map is what opening
  the file would find.  Let the store be in step with its file, as it is after opening it; let the
  endpoint have a canonical form, the key not be zero, the store not be full, and the file with the
  new pin be of admissible size and be replaced.  Then checking a key answers, and changes what the
  file holds, exactly as the abstract map does, a changed key is reported for the canonical endpoint,
  and the store is again in step with its file.\<close>

theorem verify_or_learn_refines_tofu:
  assumes "postcard_ok (known_relay_codec E)" and "socket_text_ok E" and "known_relays_reopen E kr = Ok kr"
    and "canonical_relay_endpoint E endpoint = Ok ep" and "key \<noteq> 0"
    and "length (kr_entries kr) < MAX_KNOWN_RELAYS"
    and "fst (known_relays_persist E Replaced (kr\<lparr>kr_entries := btree_insert ep key (kr_entries kr)\<rparr>)) = Ok ()"
  shows "tofu (durable_pins E kr) ep key =
    (case fst (verify_or_learn E Replaced kr endpoint key) of Inr r \<Rightarrow> Some r | Inl _ \<Rightarrow> None,
     durable_pins E (snd (verify_or_learn E Replaced kr endpoint key))) \<and>
   (\<forall>e. fst (verify_or_learn E Replaced kr endpoint key) = Err e \<longrightarrow> e = KeyChanged ep) \<and>
   known_relays_reopen E (snd (verify_or_learn E Replaced kr endpoint key)) =
     Ok (snd (verify_or_learn E Replaced kr endpoint key))"
proof -
  let ?new = "kr\<lparr>kr_entries := btree_insert ep key (kr_entries kr)\<rparr>"
  have kr: "known_relays_ok E kr" using open_ok assms(3) unfolding known_relays_reopen_def by blast
  have new: "known_relays_ok E ?new"
    by (rule insert_entry_ok [OF kr canonical_endpoint_idem [OF assms(2,4)] assms(5,6)]) simp
  have sorted: "sorted_wrt (<) (map fst (kr_entries kr))" using kr by (simp add: known_relays_ok_def)
  obtain kr' where persist: "known_relays_persist E Replaced ?new = (Ok (), kr')" using assms(7) by (metis prod.collapse)
  have reopen: "kr_entries kr' = btree_insert ep key (kr_entries kr)" "known_relays_reopen E kr' = Ok kr'"
    using persisted_reopens [OF assms(1) new persist] by auto
  have "verify_or_learn E Replaced kr endpoint key =
      (case map_of (kr_entries kr) ep of
         Some k \<Rightarrow> (if k = key then Ok Known else Err (KeyChanged ep), kr) | None \<Rightarrow> (Ok Learned, kr'))"
    using assms(4-6) persist by (simp add: verify_or_learn_def split: option.splits)
  with assms(3) reopen show ?thesis
    by (auto simp: tofu_def durable_pins_def btree_insert_lookup [OF sorted] split: option.splits)
qed

text \<open>A run of the store that forgets no pin of the endpoint: keys are checked, other endpoints are
  forgotten, whatever happens to the file, and the store is closed and opened again.\<close>

inductive pin_step :: "trust_env \<Rightarrow> rust_str \<Rightarrow> known_relays \<Rightarrow> known_relays \<Rightarrow> bool" for E ep where
  pin_learn: "verify_or_learn E out kr endpoint key = (r, kr') \<Longrightarrow> pin_step E ep kr kr'"
| pin_forget: "canonical_relay_endpoint E endpoint \<noteq> Ok ep \<Longrightarrow> known_relays_forget E out kr endpoint = (r, kr')
    \<Longrightarrow> pin_step E ep kr kr'"
| pin_reopen: "known_relays_reopen E kr = Ok kr' \<Longrightarrow> pin_step E ep kr kr'"

definition pinned_durably :: "trust_env \<Rightarrow> rust_str \<Rightarrow> array32 \<Rightarrow> known_relays \<Rightarrow> bool" where
  "pinned_durably E ep key kr \<longleftrightarrow>
     known_relays_ok E kr \<and> map_of (kr_entries kr) ep = Some key \<and> durable_pins E kr ep = Some key"

lemma durable_pins_step:
  assumes "known_relays_reopen E kr' = Ok kr' \<or> kr_file kr' = kr_file kr"
    and "durable_pins E kr ep = Some key" and "map_of (kr_entries kr') ep = Some key"
  shows "durable_pins E kr' ep = Some key"
  using assms reopen_cong [of kr' kr E] by (auto simp: durable_pins_def split: sum.splits)

lemma pin_step_durable:
  assumes "postcard_ok (known_relay_codec E)" and "socket_text_ok E" and "pin_step E ep kr kr'"
    and "pinned_durably E ep key kr"
  shows "pinned_durably E ep key kr'"
proof -
  from assms(4) have kr: "known_relays_ok E kr" "map_of (kr_entries kr) ep = Some key" "durable_pins E kr ep = Some key"
    by (auto simp: pinned_durably_def)
  then have sorted: "sorted_wrt (<) (map fst (kr_entries kr))" by (simp add: known_relays_ok_def)
  from assms(3) show ?thesis
  proof cases
    case (pin_learn out endpoint k r)
    then have kr': "kr' = snd (verify_or_learn E out kr endpoint k)" by simp
    then have "map_of (kr_entries kr') ep = Some key"
      using kr(2) btree_insert_lookup [OF sorted] by (auto simp: verify_or_learn_entries split: sum.splits)
    moreover have "known_relays_ok E kr'" using verify_or_learn_ok [OF assms(2) kr(1)] kr' by simp
    ultimately show ?thesis
      using durable_pins_step [OF verify_or_learn_reopens [OF assms(1,2) kr(1) pin_learn] kr(3)]
      by (simp add: pinned_durably_def)
  next
    case (pin_forget endpoint out r)
    then have kr': "kr' = snd (known_relays_forget E out kr endpoint)" by simp
    then have "map_of (kr_entries kr') ep = Some key"
      using kr(2) pin_forget(1) by (auto simp: forget_entries btree_remove_lookup split: sum.splits)
    moreover have "known_relays_ok E kr'" using forget_ok [OF kr(1)] kr' by simp
    ultimately show ?thesis
      using durable_pins_step [OF forget_reopens [OF assms(1) kr(1) pin_forget(2)] kr(3)]
      by (simp add: pinned_durably_def)
  next
    case pin_reopen
    moreover from this have "known_relays_ok E kr'" using open_ok unfolding known_relays_reopen_def by blast
    ultimately show ?thesis using kr(3) reopen_again [OF pin_reopen] by (simp add: pinned_durably_def durable_pins_def)
  qed
qed

interpretation pin_machine: invariant_machine
  "\<lambda>kr kr'. postcard_ok (known_relay_codec E) \<and> socket_text_ok E \<and> pin_step E ep kr kr'" "pinned_durably E ep key" for E ep key
  by unfold_locales (blast intro: pin_step_durable)

text \<open>C33: A pin that is in the store and in its file survives every use of the store until its own
  endpoint is forgotten: keys checked and other endpoints forgotten, whatever happens to the file,
  and the store closed and opened again, in any order.  As long as it stands, any other key
  presented for the endpoint is refused as changed and modifies nothing.\<close>

theorem pin_until_forgotten:
  assumes "known_relays_ok E kr" and "map_of (kr_entries kr) ep = Some key" and "durable_pins E kr ep = Some key"
    and "(pin_step E ep)\<^sup>*\<^sup>* kr kr'" and "postcard_ok (known_relay_codec E)" and "socket_text_ok E"
    and "canonical_relay_endpoint E endpoint = Ok ep" and "key' \<noteq> key" and "key' \<noteq> 0"
  shows "map_of (kr_entries kr') ep = Some key \<and> durable_pins E kr' ep = Some key \<and>
    verify_or_learn E out kr' endpoint key' = (Err (KeyChanged ep), kr')"
proof -
  have "(\<lambda>kr kr'. postcard_ok (known_relay_codec E) \<and> socket_text_ok E \<and> pin_step E ep kr kr')\<^sup>*\<^sup>* kr kr'"
    using assms(4) by (rule rtranclp_mono [THEN predicate2D, rotated]) (use assms(5,6) in auto)
  from pin_machine.reachable_inv [OF this, of key] assms(1-3)
  have "map_of (kr_entries kr') ep = Some key" "durable_pins E kr' ep = Some key"
    by (simp_all add: pinned_durably_def)
  with assms(7-9) show ?thesis by (simp add: verify_or_learn_def)
qed

text \<open>What the store has learned it finds again: after any history of use starting from an empty
  store, a key that is reported as learned is in the file, and opening the file gives the very pins
  the store holds, sorted, canonical and within the limit.\<close>

theorem learned_pins_reopen:
  assumes "postcard_ok (known_relay_codec E)" and "socket_text_ok E"
    and "(trust_step E)\<^sup>*\<^sup>* \<lparr>kr_entries = [], kr_file = None\<rparr> kr"
    and "verify_or_learn E Replaced kr endpoint key = (Ok Learned, kr')"
  shows "\<exists>ep. known_relays_reopen E kr' = Ok kr' \<and>
    canonical_relay_endpoint E endpoint = Ok ep \<and> map_of (kr_entries kr') ep = Some key \<and> known_relays_ok E kr'"
proof -
  have kr: "known_relays_ok E kr" by (rule trust_steps_ok [OF assms(2,3) empty_relays_ok])
  then have sorted: "sorted_wrt (<) (map fst (kr_entries kr))" by (simp add: known_relays_ok_def)
  have kr': "known_relays_ok E kr'" using verify_or_learn_ok [OF assms(2) kr, of Replaced endpoint key] assms(4) by simp
  from assms(4) obtain ep where
    1: "canonical_relay_endpoint E endpoint = Ok ep"
    "known_relays_persist E Replaced (kr\<lparr>kr_entries := btree_insert ep key (kr_entries kr)\<rparr>) = (Ok (), kr')"
    by (auto simp: verify_or_learn_def case_prod_unfold Let_def result_simps split: sum.splits option.splits if_splits)
      (metis prod.collapse)
  have entries: "kr_entries kr' = btree_insert ep key (kr_entries kr)"
    using persist_entries [of E Replaced "kr\<lparr>kr_entries := btree_insert ep key (kr_entries kr)\<rparr>"] 1(2) by simp
  have "known_relays_ok E (kr\<lparr>kr_entries := btree_insert ep key (kr_entries kr)\<rparr>)"
    using kr' entries by (simp add: known_relays_ok_def)
  from persisted_reopens [OF assms(1) this 1(2)] 1(1) kr' entries btree_insert_lookup [OF sorted] show ?thesis by auto
qed

text \<open>When a new pin cannot be persisted the operation reports the failure, and the file keeps
  what it held; but the pin stays in memory, so checking the same key again on the same instance
  reports it as known although it was never durable.\<close>

theorem failed_learn_stays_in_memory:
  assumes "known_relays_ok E kr" and "canonical_relay_endpoint E endpoint = Ok ep" and "key \<noteq> 0"
    and "map_of (kr_entries kr) ep = None" and "length (kr_entries kr) < MAX_KNOWN_RELAYS"
    and "verify_or_learn E (ReplaceFailed io False) kr endpoint key = (r, kr1)"
  shows "(\<exists>e. r = Err e) \<and> kr_file kr1 = kr_file kr \<and> verify_or_learn E out kr1 endpoint key = (Ok Known, kr1)"
proof -
  have sorted: "sorted_wrt (<) (map fst (kr_entries kr))" using assms(1) by (simp add: known_relays_ok_def)
  have "kr_entries kr1 = btree_insert ep key (kr_entries kr)"
    using verify_or_learn_entries [of E "ReplaceFailed io False" kr endpoint key] assms(2-6) by simp
  then have "map_of (kr_entries kr1) ep = Some key" by (simp add: btree_insert_lookup [OF sorted])
  moreover have "(\<exists>e. r = Err e) \<and> kr_file kr1 = kr_file kr"
    using assms(2-6) by (auto simp: verify_or_learn_def known_relays_persist_def Let_def split: option.splits if_splits)
  ultimately show ?thesis using assms(2,3) by (simp add: verify_or_learn_def)
qed

section \<open>A concrete store\<close>

definition example_addr_text :: "socket_addr \<Rightarrow> rust_str" where
  "example_addr_text a =
     (case a of
        SocketV4 ip p \<Rightarrow> [91, 52] @ map (\<lambda>b. 256 + unat b) (to_be_bytes 4 ip @ to_be_bytes 2 p)
      | SocketV6 ip p flow scope \<Rightarrow>
          [91, 54] @ map (\<lambda>b. 256 + unat b) (to_be_bytes 16 ip @ to_be_bytes 2 p @ to_be_bytes 4 scope))"

definition example_parse_addr :: "rust_str \<Rightarrow> socket_addr option" where
  "example_parse_addr s =
     (let bs = map (\<lambda>c. of_nat (c - 256)) (drop 2 s)
      in if take 2 s = [91, 52] then Some (SocketV4 (from_be_bytes (take 4 bs)) (from_be_bytes (drop 4 bs)))
         else if take 2 s = [91, 54]
         then Some (SocketV6 (from_be_bytes (take 16 bs)) (from_be_bytes (take 2 (drop 16 bs)))
                      0 (from_be_bytes (drop 18 bs)))
         else None)"

definition example_relay_file :: known_relay_file where
  "example_relay_file = \<lparr>krf_version = 1, krf_entries = [\<lparr>kre_endpoint = [97, 58, 55], kre_noise_static_key = 5\<rparr>]\<rparr>"

definition example_trust_env :: trust_env where
  "example_trust_env = \<lparr>parse_addr = example_parse_addr, addr_text = example_addr_text,
     known_relay_codec = single_postcard example_relay_file [30]\<rparr>"

lemma example_parse_text: "example_parse_addr (example_addr_text a) =
    Some (case a of SocketV4 ip p \<Rightarrow> a | SocketV6 ip p flow scope \<Rightarrow> SocketV6 ip p 0 scope)"
proof -
  have same: "map (\<lambda>c. of_nat (c - 256)) (map (\<lambda>b. 256 + unat b) bs) = (bs :: bytes)" for bs
    by (simp add: map_idI)
  show ?thesis
    by (cases a) (simp_all add: example_parse_addr_def example_addr_text_def same Let_def del: map_map)
qed

lemma example_text_shape: "str_len (map (\<lambda>b. 256 + unat (b :: u8)) bs) = 2 * length bs"
  "\<not> list_ex is_whitespace (map (\<lambda>b. 256 + unat (b :: u8)) bs)"
proof -
  have char: "utf8_width (256 + unat b) = 2" "\<not> is_whitespace (256 + unat b)" for b :: u8
    using unsigned_less [of b, where 'a = nat] by (simp_all add: utf8_width_def is_whitespace_def)
  show "str_len (map (\<lambda>b. 256 + unat (b :: u8)) bs) = 2 * length bs"
    by (induction bs) (simp_all add: str_len_def char)
  show "\<not> list_ex is_whitespace (map (\<lambda>b. 256 + unat (b :: u8)) bs)" by (simp add: list_ex_iff char)
qed

lemma example_trust_ok: "socket_text_ok example_trust_env" "postcard_ok (known_relay_codec example_trust_env)"
proof -
  have "example_addr_text a \<noteq> [] \<and> str_len (example_addr_text a) \<le> 512 \<and> \<not> list_ex is_whitespace (example_addr_text a)" for a
    using example_text_shape
    by (cases a) (simp_all only: example_addr_text_def socket_addr.case str_len_append list_ex_append,
        simp_all add: str_len_def utf8_width_def is_whitespace_def)
  moreover have "example_parse_addr (host @ [58] @ decimal p) = None"
    if "list_all (\<lambda>c. is_ascii_alphanumeric c \<or> c = 45 \<or> c = 46) host" for host p
    using that by (cases host) (auto simp: example_parse_addr_def Let_def is_ascii_alphanumeric_def is_ascii_digit_def)
  moreover have "\<exists>b. example_parse_addr (example_addr_text a) = Some b \<and> example_addr_text b = example_addr_text a \<and>
      addr_port b = addr_port a" for a
    by (cases a) (simp_all only: example_parse_text, simp_all add: example_addr_text_def addr_port_def)
  ultimately show "socket_text_ok example_trust_env"
    by (auto simp: socket_text_ok_def example_trust_env_def)
  show "postcard_ok (known_relay_codec example_trust_env)" by (simp add: example_trust_env_def single_postcard_ok)
qed

lemma example_endpoint: "canonical_relay_endpoint example_trust_env [97, 58, 55] = Ok [97, 58, 55]"
  by (simp add: canonical_relay_endpoint_def example_trust_env_def example_parse_addr_def str_len_def utf8_width_def
      str_trim_def is_whitespace_def rsplit_once_def parse_u16_def is_ascii_digit_def strip_dot_def ascii_lowercase_def
      host_invalid_def label_invalid_def is_ascii_alphanumeric_def decimal.simps Let_def)

definition example_empty :: known_relays where
  "example_empty = \<lparr>kr_entries = [], kr_file = None\<rparr>"

definition example_pinned :: "bytes option \<Rightarrow> known_relays" where
  "example_pinned file = \<lparr>kr_entries = [([97, 58, 55], 5)], kr_file = file\<rparr>"

lemma example_relay_codec:
  "to_stdvec (known_relay_codec example_trust_env) \<lparr>krf_version = 1,
     krf_entries = [\<lparr>kre_endpoint = [97, 58, 55], kre_noise_static_key = 5\<rparr>]\<rparr> = Some [30]"
  by (simp add: example_trust_env_def single_postcard_def example_relay_file_def)

lemma example_learn:
  "verify_or_learn example_trust_env Replaced example_empty [97, 58, 55] 5 = (Ok Learned, example_pinned (Some [30]))"
  "verify_or_learn example_trust_env (ReplaceFailed OtherIo False) example_empty [97, 58, 55] 5
     = (Err (TrustIo OtherIo), example_pinned None)"
  by (simp_all add: verify_or_learn_def example_endpoint example_empty_def MAX_KNOWN_RELAYS_def
      known_relays_persist_def example_relay_codec KNOWN_RELAYS_VERSION_def MAX_KNOWN_RELAYS_FILE_LEN_def example_pinned_def)

lemma example_reopen:
  "known_relays_reopen example_trust_env example_empty = Ok example_empty"
  "known_relays_reopen example_trust_env (example_pinned (Some [30])) = Ok (example_pinned (Some [30]))"
proof -
  have "take_from_bytes (known_relay_codec example_trust_env) [30] = Some (example_relay_file, [])"
    by (simp add: example_trust_env_def single_postcard_def)
  then show "known_relays_reopen example_trust_env (example_pinned (Some [30])) = Ok (example_pinned (Some [30]))"
    by (simp add: known_relays_reopen_def known_relays_open_def example_pinned_def example_relay_file_def example_endpoint
        KNOWN_RELAYS_VERSION_def MAX_KNOWN_RELAYS_def)
qed (simp add: known_relays_reopen_def known_relays_open_def example_empty_def)

theorem verify_or_learn_refines_tofu_witness:
  "tofu (durable_pins example_trust_env example_empty) [97, 58, 55] 5 =
     (Some Learned, durable_pins example_trust_env (example_pinned (Some [30]))) \<and>
   durable_pins example_trust_env (example_pinned (Some [30])) [97, 58, 55] = Some 5"
proof -
  have "fst (known_relays_persist example_trust_env Replaced
      (example_empty\<lparr>kr_entries := btree_insert [97, 58, 55] 5 (kr_entries example_empty)\<rparr>)) = Ok ()"
    by (simp add: example_empty_def known_relays_persist_def example_relay_codec KNOWN_RELAYS_VERSION_def
        MAX_KNOWN_RELAYS_FILE_LEN_def)
  from verify_or_learn_refines_tofu [OF example_trust_ok(2,1) example_reopen(1) example_endpoint _ _ this] example_learn(1)
  show ?thesis by (simp add: durable_pins_def example_reopen) (simp add: example_empty_def MAX_KNOWN_RELAYS_def example_pinned_def)
qed

theorem pin_until_forgotten_witness:
  "(pin_step example_trust_env [97, 58, 55])\<^sup>*\<^sup>* (example_pinned (Some [30])) (example_pinned (Some [30])) \<and>
   verify_or_learn example_trust_env Replaced (example_pinned (Some [30])) [97, 58, 55] 6
     = (Err (KeyChanged [97, 58, 55]), example_pinned (Some [30]))"
proof -
  have ok: "known_relays_ok example_trust_env (example_pinned (Some [30]))"
    by (simp add: known_relays_ok_def example_pinned_def example_endpoint MAX_KNOWN_RELAYS_def)
  have run: "(pin_step example_trust_env [97, 58, 55])\<^sup>*\<^sup>* (example_pinned (Some [30])) (example_pinned (Some [30]))"
    by (rule r_into_rtranclp) (rule pin_reopen, rule example_reopen)
  have "durable_pins example_trust_env (example_pinned (Some [30])) [97, 58, 55] = Some 5"
    by (simp add: durable_pins_def example_reopen) (simp add: example_pinned_def)
  from pin_until_forgotten [OF ok _ this run example_trust_ok(2,1) example_endpoint, of 6 Replaced] run
  show ?thesis by (simp add: example_pinned_def)
qed

theorem learned_pins_reopen_witness:
  "verify_or_learn example_trust_env Replaced example_empty [97, 58, 55] 5 = (Ok Learned, example_pinned (Some [30])) \<and>
   known_relays_reopen example_trust_env (example_pinned (Some [30])) = Ok (example_pinned (Some [30]))"
  using learned_pins_reopen [OF example_trust_ok(2,1) rtranclp.rtrancl_refl
      example_learn(1) [unfolded example_empty_def]] example_learn(1)
  by (auto simp: example_pinned_def)

theorem failed_learn_stays_in_memory_witness:
  "fst (verify_or_learn example_trust_env (ReplaceFailed OtherIo False) example_empty [97, 58, 55] 5) = Err (TrustIo OtherIo) \<and>
   kr_file (example_pinned None) = None \<and>
   verify_or_learn example_trust_env Replaced (example_pinned None) [97, 58, 55] 5 = (Ok Known, example_pinned None)"
proof -
  have "known_relays_ok example_trust_env example_empty" unfolding example_empty_def by (rule empty_relays_ok)
  from failed_learn_stays_in_memory [OF this example_endpoint _ _ _ example_learn(2), of Replaced] example_learn(2)
  show ?thesis by (simp add: example_empty_def MAX_KNOWN_RELAYS_def)
qed

end
