(* ===== verification/PairingExample.thy ===== *)
theory PairingExample
  imports PairingStore Trust
begin

text \<open>
  A concrete run of the pairing queue: a request is queued, answered by an offer, confirmed by the
  viewer and approved by the publisher.  The serializers know the four records of the run; signatures
  and hashes are those of the other concrete instances.
\<close>

section \<open>Records\<close>

definition queued_request :: pair_request where
  "queued_request = \<lparr>pr_body = \<lparr>pr_version = PAIRING_VERSION, pr_protocol_version = PROTOCOL_VERSION,
      pr_publisher = example_public, pr_stream_id = 1, pr_viewer = example_public, pr_viewer_credential = None,
      pr_device_label = [120], pr_nonce = 5, pr_issued_at_ms = 0, pr_expires_at_ms = 1000\<rparr>,
    pr_signature = signature_from_bytes (replicate 64 7)\<rparr>"

definition queued_offer :: pair_offer where
  "queued_offer = \<lparr>po_body = \<lparr>po_version = PAIRING_VERSION, po_request_id = 39, po_publisher = example_public,
      po_viewer_id = 24, po_nonce = 6, po_relay_context = 8, po_issued_at_ms = 100, po_expires_at_ms = 900\<rparr>,
    po_signature = signature_from_bytes (replicate 64 7)\<rparr>"

definition queued_confirmation :: viewer_confirmation where
  "queued_confirmation = \<lparr>vc_body = \<lparr>vc_version = PAIRING_VERSION, vc_request_id = 39, vc_transcript_hash = 39,
      vc_viewer_id = 24, vc_confirmed_at_ms = 200\<rparr>, vc_signature = signature_from_bytes (replicate 64 7)\<rparr>"

definition queued_decision :: publisher_decision where
  "queued_decision = \<lparr>pd_body = \<lparr>pd_version = PAIRING_VERSION, pd_request_id = 39, pd_viewer_id = 24, pd_stream_id = 1,
      pd_transcript_hash = 39, pd_approved = True, pd_reason = ManualVerified, pd_decided_at_ms = 300\<rparr>,
    pd_signature = signature_from_bytes (replicate 64 7)\<rparr>"

definition example_queue_env :: pairing_store_env where
  "example_queue_env = wire_env.extend (example_wire_env\<lparr>pair_request_codec := single_postcard queued_request [19]\<rparr>)
     \<lparr>pair_offer_codec = single_postcard queued_offer [28], confirmation_codec = single_postcard queued_confirmation [29],
      decision_codec = single_postcard queued_decision [30], source_text = example_addr_text,
      source_parse = example_parse_addr\<rparr>"

lemma example_queue_fields:
  "pair_request_codec example_queue_env = single_postcard queued_request [19]"
  "pair_offer_codec example_queue_env = single_postcard queued_offer [28]"
  "confirmation_codec example_queue_env = single_postcard queued_confirmation [29]"
  "decision_codec example_queue_env = single_postcard queued_decision [30]"
  "source_text example_queue_env = example_addr_text" "source_parse example_queue_env = example_parse_addr"
  by (simp_all add: example_queue_env_def wire_env.extend_def)

lemma example_queue_crypto:
  "sha256 example_queue_env bs = of_nat (length bs)"
  "ed_verify example_queue_env pk m s \<longleftrightarrow> s = replicate 64 (ucast pk)"
  "identity_validate example_queue_env example_public = Ok ()"
  "identity_id example_queue_env example_public = Ok 24"
  "to_stdvec (pair_request_body_codec example_queue_env) b1 = Some [18]"
  "to_stdvec (pair_offer_body_codec example_queue_env) b3 = Some [20]"
  "to_stdvec (transcript_codec example_queue_env) b4 = Some [21]"
  "to_stdvec (confirmation_body_codec example_queue_env) b5 = Some [22]"
  "to_stdvec (decision_body_codec example_queue_env) b6 = Some [23]"
  by (simp_all add: example_queue_env_def wire_env.extend_def example_wire_defs wire_env.defs identity_id_def
      identity_validate_def example_public_def IDENTITY_VERSION_def IDENTITY_FINGERPRINT_PREFIX_def ascii_bytes_def)

lemma example_queue_env_ok: "pairing_store_env_ok example_queue_env"
  by (simp add: pairing_store_env_ok_def example_queue_fields single_postcard_ok example_parse_text)

section \<open>The ceremony\<close>

lemma example_signature:
  assumes "to_stdvec c v = Some [b]" and "length domain < 2 ^ 16"
  shows "verify example_queue_env c example_public domain v (signature_from_bytes (replicate 64 7)) = Ok ()"
  unfolding verify_ok using assms
  by (simp add: example_queue_crypto signing_digest_def canonical_def signature_bytes_round_trip)
    (simp add: example_public_def)

lemmas example_domains = PAIR_REQUEST_DOMAIN_def OFFER_DOMAIN_def CONFIRM_DOMAIN_def DECISION_DOMAIN_def ascii_bytes_def

lemma queued_metadata:
  "validate_request_metadata example_queue_env (pr_body queued_request) = Ok ()"
  "validate_offer_metadata example_queue_env (po_body queued_offer) = Ok ()"
  by (simp_all add: validate_request_metadata_def queued_request_def validate_offer_metadata_def queued_offer_def
      example_queue_crypto validate_device_label_def MAX_DEVICE_LABEL_LEN_def str_len_def str_trim_def is_control_def
      is_whitespace_def utf8_width_def)

lemma queued_ids:
  "pair_request_id example_queue_env queued_request = Ok 39"
  "fingerprint example_queue_env example_public = Ok 24"
  by (simp_all add: pair_request_id_def domain_hash_def example_queue_fields single_postcard_def example_queue_crypto
      REQUEST_ID_DOMAIN_def ascii_bytes_def fingerprint_def)

lemma queued_parts:
  "pr_viewer (pr_body queued_request) = example_public" "pr_publisher (pr_body queued_request) = example_public"
  "pr_expires_at_ms (pr_body queued_request) = 1000" "po_request_id (po_body queued_offer) = 39"
  "vc_request_id (vc_body queued_confirmation) = 39" "pd_request_id (pd_body queued_decision) = 39"
  "pd_reason (pd_body queued_decision) = ManualVerified"
  by (simp_all add: queued_request_def queued_offer_def queued_confirmation_def queued_decision_def)

lemma queued_request_ok: "pair_request_verify example_queue_env queued_request now_ms 2000 = Ok ()"
  if "0 \<le> sint now_ms" "sint now_ms < 1000"
  using that queued_metadata(1)
    example_signature [of "pair_request_body_codec example_queue_env" "pr_body queued_request" 18 PAIR_REQUEST_DOMAIN]
  by (simp add: pair_request_verify_def validate_time_eq PAIRING_CLOCK_SKEW_MS_def example_queue_crypto example_domains)
    (simp add: queued_request_def)

lemma queued_transcript:
  "check_offer_request example_queue_env queued_request queued_offer = Ok ()"
  "transcript_hash example_queue_env queued_request queued_offer = Ok 39"
proof -
  show "check_offer_request example_queue_env queued_request queued_offer = Ok ()"
    by (simp add: check_offer_request_ok queued_ids queued_parts) (simp add: queued_offer_def)
  then show "transcript_hash example_queue_env queued_request queued_offer = Ok 39"
    by (simp add: transcript_hash_ok queued_metadata domain_hash_def example_queue_crypto TRANSCRIPT_DOMAIN_def ascii_bytes_def)
qed

lemma queued_offer_ok: "pair_offer_verify example_queue_env queued_offer queued_request 150 2000 = Ok ()"
  using queued_request_ok [of 150] queued_transcript(1) queued_metadata(2)
    example_signature [of "pair_offer_body_codec example_queue_env" "po_body queued_offer" 20 OFFER_DOMAIN]
  by (simp add: pair_offer_verify_def validate_time_eq PAIRING_CLOCK_SKEW_MS_def example_queue_crypto example_domains)
    (simp add: queued_offer_def)

lemma queued_confirmation_ok: "confirmation_verify example_queue_env queued_confirmation queued_request queued_offer = Ok ()"
  using example_signature [of "confirmation_body_codec example_queue_env" "vc_body queued_confirmation" 22 CONFIRM_DOMAIN]
  by (simp add: confirmation_verify_ok queued_ids queued_transcript queued_parts example_queue_crypto example_domains)
    (simp add: queued_confirmation_def)

lemma queued_decision_ok: "decision_verify example_queue_env queued_decision queued_request example_public = Ok ()"
  using example_signature [of "decision_body_codec example_queue_env" "pd_body queued_decision" 23 DECISION_DOMAIN]
  by (simp add: decision_verify_ok validate_decision_ok queued_ids queued_parts example_queue_crypto example_domains)
    (simp add: queued_decision_def queued_request_def)

section \<open>The queue\<close>

definition example_source :: socket_addr where
  "example_source = SocketV4 5 7"

definition example_row :: "bytes option \<Rightarrow> bytes option \<Rightarrow> bytes option \<Rightarrow> i64 option \<Rightarrow> pair_row" where
  "example_row offer confirmation decision decided =
     \<lparr>pq_request_id = 39, pq_publisher_id = 24, pq_viewer_id = 24, pq_source_addr = example_addr_text example_source,
      pq_received_at_ms = 100, pq_expires_at_ms = 1000, pq_request = [19], pq_offer = offer,
      pq_confirmation = confirmation, pq_decision = decision, pq_decided_at_ms = decided\<rparr>"

lemma example_row_fields [simp]:
  "pq_request_id (example_row w x y z) = 39" "pq_publisher_id (example_row w x y z) = 24"
  "pq_viewer_id (example_row w x y z) = 24" "pq_received_at_ms (example_row w x y z) = 100"
  "pq_expires_at_ms (example_row w x y z) = 1000" "pq_request (example_row w x y z) = [19]"
  "pq_source_addr (example_row w x y z) = example_addr_text example_source"
  "pq_offer (example_row w x y z) = w" "pq_confirmation (example_row w x y z) = x"
  "pq_decision (example_row w x y z) = y" "pq_decided_at_ms (example_row w x y z) = z"
  "(example_row w x y z)\<lparr>pq_offer := w'\<rparr> = example_row w' x y z"
  "(example_row w x y z)\<lparr>pq_confirmation := x'\<rparr> = example_row w x' y z"
  "(example_row w x y z)\<lparr>pq_decision := y', pq_decided_at_ms := z'\<rparr> = example_row w x y' z'"
  by (simp_all add: example_row_def)

lemma example_codecs:
  "encode_pair (pair_request_codec example_queue_env) queued_request = Ok [19]"
  "decode_pair (pair_request_codec example_queue_env) [19] = Ok queued_request"
  "encode_pair (pair_offer_codec example_queue_env) queued_offer = Ok [28]"
  "decode_pair (pair_offer_codec example_queue_env) [28] = Ok queued_offer"
  "encode_pair (confirmation_codec example_queue_env) queued_confirmation = Ok [29]"
  "decode_pair (confirmation_codec example_queue_env) [29] = Ok queued_confirmation"
  "encode_pair (decision_codec example_queue_env) queued_decision = Ok [30]"
  "decode_pair (decision_codec example_queue_env) [30] = Ok queued_decision"
  by (simp_all add: example_queue_fields encode_pair_def decode_pair_def single_postcard_def MAX_PAIRING_MESSAGE_LEN_def)

lemma example_not_purged: "purge [example_row w x y z] now_ms = [example_row w x y z]"
  if "sint now_ms < 1000" "0 \<le> sint now_ms" "z = None \<or> z = Some 300"
  using that by (auto simp: purge_def purgeable_def sint_saturating_sub_i64 DECISION_RETENTION_MS_def split: option.splits)

lemma example_row_found: "find_row [example_row w x y z] 39 = Some (example_row w x y z)"
  by (simp add: find_row_def)

lemma example_enqueue:
  "enqueue_request example_queue_env [] queued_request example_source 100 2000 = Ok ([example_row None None None None], True)"
proof -
  have len: "length (takeWhile (\<lambda>c. c \<noteq> 0) (example_addr_text example_source)) = 8"
  proof -
    have "takeWhile (\<lambda>c. c \<noteq> 0) (example_addr_text example_source) = example_addr_text example_source"
      by (auto simp: takeWhile_eq_all_conv example_addr_text_def example_source_def)
    also have "length (example_addr_text example_source) = 8" by (simp add: example_addr_text_def example_source_def)
    finally show ?thesis .
  qed
  show ?thesis
    using len
    by (simp add: enqueue_request_def queued_request_ok example_codecs queued_ids queued_parts example_queue_crypto
        purge_def find_row_def require_count_below_def MAX_PENDING_GLOBAL_def MAX_PENDING_PER_PUBLISHER_def
        MAX_REQUESTS_PER_MINUTE_def insert_row_def example_queue_fields(5) example_row_def Let_def)
qed

lemma example_store_offer:
  "store_offer example_queue_env [example_row None None None None] queued_offer 150 2000
     = Ok ([example_row (Some [28]) None None None], True)"
  by (simp add: store_offer_def example_not_purged queued_parts request_by_id_def example_row_found example_codecs
      queued_offer_ok store_once_def column_access_def update_row_def)

lemma example_store_confirmation:
  "store_confirmation example_queue_env [example_row (Some [28]) None None None] queued_confirmation 200
     = Ok ([example_row (Some [28]) (Some [29]) None None], True)"
  by (simp add: store_confirmation_def example_not_purged queued_parts request_by_id_def offer_by_id_def example_row_found
      example_codecs queued_confirmation_ok store_once_def column_access_def update_row_def)

lemma example_store_decision:
  "store_decision example_queue_env [example_row (Some [28]) (Some [29]) None None] queued_decision 300
     = Ok ([example_row (Some [28]) (Some [29]) (Some [30]) (Some 300)], True)"
proof -
  have "pd_transcript_hash (pd_body queued_decision) = 39" by (simp add: queued_decision_def)
  then show ?thesis
    by (simp add: store_decision_def check_manual_def example_not_purged queued_parts request_by_id_def offer_by_id_def
        confirmation_by_id_def example_row_found example_codecs queued_confirmation_ok queued_decision_ok queued_transcript
        update_row_def)
qed

lemma example_reachable:
  "(pairing_step example_queue_env)\<^sup>*\<^sup>* ([], 0) ([example_row None None None None], 100)"
  "(pairing_step example_queue_env)\<^sup>*\<^sup>* ([], 0) ([example_row (Some [28]) (Some [29]) None None], 200)"
  "(pairing_step example_queue_env)\<^sup>*\<^sup>* ([], 0) ([example_row (Some [28]) (Some [29]) (Some [30]) (Some 300)], 300)"
proof -
  show 1: "(pairing_step example_queue_env)\<^sup>*\<^sup>* ([], 0) ([example_row None None None None], 100)"
    by (rule r_into_rtranclp, rule step_enqueue [OF example_enqueue]) simp
  have 2: "(pairing_step example_queue_env)\<^sup>*\<^sup>* ([], 0) ([example_row (Some [28]) None None None], 150)"
    by (rule rtranclp.rtrancl_into_rtrancl [OF 1], rule step_offer [OF example_store_offer]) simp
  show 3: "(pairing_step example_queue_env)\<^sup>*\<^sup>* ([], 0) ([example_row (Some [28]) (Some [29]) None None], 200)"
    by (rule rtranclp.rtrancl_into_rtrancl [OF 2], rule step_confirmation [OF example_store_confirmation]) simp
  show "(pairing_step example_queue_env)\<^sup>*\<^sup>* ([], 0) ([example_row (Some [28]) (Some [29]) (Some [30]) (Some 300)], 300)"
    by (rule rtranclp.rtrancl_into_rtrancl [OF 3], rule step_decision [OF example_store_decision]) simp
qed

section \<open>Witnesses\<close>

theorem delivered_decisions_authentic_witness:
  "\<exists>inbox request offer c. viewer_inbox example_queue_env [example_row (Some [28]) (Some [29]) (Some [30]) (Some 300)]
     example_public 400 = Ok ([example_row (Some [28]) (Some [29]) (Some [30]) (Some 300)], inbox) \<and>
     queued_decision \<in> set (inbox_decisions inbox) \<and>
     decision_verify example_queue_env queued_decision request (pr_publisher (pr_body request)) = Ok () \<and>
     decode_optional (pair_offer_codec example_queue_env) (Some [28]) = Ok (Some offer) \<and>
     decode_optional (confirmation_codec example_queue_env) (Some [29]) = Ok (Some c) \<and>
     confirmation_verify example_queue_env c request offer = Ok ()"
proof -
  let ?inbox = "\<lparr>inbox_offers = [queued_offer], inbox_decisions = [queued_decision]\<rparr>"
  have "viewer_inbox example_queue_env [example_row (Some [28]) (Some [29]) (Some [30]) (Some 300)] example_public 400
      = Ok ([example_row (Some [28]) (Some [29]) (Some [30]) (Some 300)], ?inbox)"
    by (simp add: viewer_inbox_def example_queue_crypto example_not_purged delivery_order_def MAX_INBOX_RECORDS_def
        decode_optional_def example_codecs somes_def)
  with delivered_decisions_authentic [OF example_queue_env_ok example_reachable(3) this, of queued_decision]
  show ?thesis by (auto simp: queued_parts)
qed

theorem publisher_inbox_complete_witness:
  "\<exists>inbox. publisher_inbox example_queue_env [example_row None None None None] example_public 400
     = Ok ([example_row None None None None], inbox) \<and> map del_request (inbox_requests inbox) = [queued_request]"
proof -
  have "map (\<lambda>d. (Ok (del_request d) :: pairing_store_error + pair_request)) xs = [Ok queued_request] \<Longrightarrow>
      map del_request xs = [queued_request]" for xs
    by (cases xs) auto
  with publisher_inbox_complete [OF example_queue_env_ok example_reachable(1) _ example_queue_crypto(4), of 400]
  show ?thesis by (auto simp: example_not_purged delivery_order_def example_codecs)
qed

theorem pairing_queue_bounded_witness:
  "length (filter (\<lambda>r. pq_decision r = None) [example_row None None None None]) \<le> 16384 \<and>
   length (filter (\<lambda>r. pq_viewer_id r = 24 \<and> 100 \<le> sint (pq_received_at_ms r) \<and> sint (pq_received_at_ms r) \<le> 100 + 60000)
     [example_row None None None None]) \<le> 10"
  using pairing_queue_bounded [OF example_queue_env_ok example_reachable(1), where vid = 24 and w = 100] by blast

theorem first_artifact_wins_witness:
  "pairing_step example_queue_env ([example_row (Some [28]) (Some [29]) None None], 200)
     ([example_row (Some [28]) (Some [29]) (Some [30]) (Some 300)], 300) \<and>
   (\<exists>r'\<in>set [example_row (Some [28]) (Some [29]) (Some [30]) (Some 300)]. pq_offer r' = Some [28] \<and> pq_confirmation r' = Some [29])"
proof -
  have step: "pairing_step example_queue_env ([example_row (Some [28]) (Some [29]) None None], 200)
     ([example_row (Some [28]) (Some [29]) (Some [30]) (Some 300)], 300)"
    by (rule step_decision [OF example_store_decision]) simp
  from first_artifact_wins [OF example_queue_env_ok example_reachable(2) step, of "example_row (Some [28]) (Some [29]) None None"]
  show ?thesis using step by (simp add: purgeable_def)
qed

end
