(* ===== verification/ServiceExample.thy ===== *)
theory ServiceExample
  imports Isolation StoreExample PairingExample
begin

text \<open>
  A run of the relay on concrete input: a publisher connects, publishes a descriptor and an object,
  and the properties of the relay hold along it.
\<close>

section \<open>The run\<close>

definition example_relay_env :: pairing_store_env where
  "example_relay_env = example_queue_env
     \<lparr>descriptor_codec := single_postcard example_descriptor [2],
      object_codec := single_postcard example_object [5],
      identity_codec := \<lparr>to_stdvec = (\<lambda>i. Some (if i = example_public then [1] else [1, 1])), take_from_bytes = (\<lambda>_. None)\<rparr>\<rparr>"

lemma example_relay_runs: "runs_example example_relay_env"
  unfolding runs_example_def fun_eq_iff
  by (simp add: example_relay_env_def example_queue_env_def wire_env.extend_def example_wire_defs wire_env.defs
      identity_id_def identity_validate_def example_public_def IDENTITY_VERSION_def IDENTITY_FINGERPRINT_PREFIX_def
      ascii_bytes_def)

definition example_session_hello :: session_hello where
  "example_session_hello =
     \<lparr>hello_protocol_version = PROTOCOL_VERSION, hello_role = RolePublisher, hello_identity = example_public,
      hello_credential = None\<rparr>"

definition example_relay :: "native_db \<Rightarrow> uuid set \<Rightarrow> (uuid \<times> live_item) list \<Rightarrow> relay_state" where
  "example_relay db online live = \<lparr>rs_db = db, rs_queue = [], rs_online = online, rs_live = live\<rparr>"

definition example_publishing :: relay_system where
  "example_publishing = \<lparr>sys_relay = example_relay example_db0 {1} [], sys_sessions = [0 \<mapsto> {1}], sys_clock = 0\<rparr>"

lemma example_publish_descriptor:
  "publisher_message_step example_relay_env example_config example_session_hello 24 (PubDescriptor example_descriptor) 0
     \<lparr>ps_relay = example_relay empty_db {} [], ps_touched = {}\<rparr>
   = ([], \<lparr>ps_relay = example_relay example_db0 {1} [], ps_touched = {1}\<rparr>, Some (Ok ()))"
  by (simp add: publisher_message_step_def require_publisher_def example_descriptor_fields example_session_hello_def
      task_then_def task_of_def task_run_def run_of_def claim_online_def on_relay_def store_call_def
      example_relay_def example_put [OF example_relay_runs])

lemma example_publish_object:
  "publisher_message_step example_relay_env example_config example_session_hello 24 (PubObject example_object) 0
     \<lparr>ps_relay = example_relay example_db0 {1} [], ps_touched = {1}\<rparr>
   = ([RpPublishAck 1 1],
      \<lparr>ps_relay = example_relay example_db1 {1} [(1, LiveObject example_object)], ps_touched = {1}\<rparr>, Some (Ok ()))"
  by (simp add: publisher_message_step_def publish_object_def Let_def example_header_fields task_then_def task_run_def
      claim_online_def on_relay_def store_call_def live_send_def write_publisher_def
      example_relay_def example_store [OF example_relay_runs])

lemma example_relay_reaches:
  "(relay_step example_relay_env example_config)\<^sup>*\<^sup>* (initial_system 0) example_publishing"
proof -
  let ?connected = "(initial_system 0)\<lparr>sys_sessions := (sys_sessions (initial_system 0))(0 \<mapsto> {})\<rparr>"
  have "relay_step example_relay_env example_config (initial_system 0) ?connected"
    by (rule sys_connect) (simp add: initial_system_def)
  moreover have "relay_step example_relay_env example_config ?connected
      \<lparr>sys_relay = ps_relay \<lparr>ps_relay = example_relay example_db0 {1} [], ps_touched = {1}\<rparr>,
       sys_sessions = (sys_sessions ?connected)(0 \<mapsto> ps_touched \<lparr>ps_relay = example_relay example_db0 {1} [], ps_touched = {1}\<rparr>),
       sys_clock = 0\<rparr>"
    by (rule sys_publish [where touched = "{}"])
      (use example_publish_descriptor in \<open>auto simp: initial_system_def example_relay_def\<close>)
  ultimately show ?thesis by (simp add: example_publishing_def initial_system_def)
qed

section \<open>The properties along the run\<close>

text \<open>Another publisher replays the object: the stream stays as it is.\<close>

definition replaying_hello :: session_hello where
  "replaying_hello = example_session_hello\<lparr>hello_identity := \<lparr>id_version = 1, signing_key = 8, kem_key = 9\<rparr>\<rparr>"

theorem sessions_isolated_witness:
  "\<exists>out p r. publisher_message_step example_relay_env example_config replaying_hello 25 (PubObject example_object) 0
     \<lparr>ps_relay = example_relay example_db0 {1} [], ps_touched = {}\<rparr> = (out, p, r) \<and>
     (\<exists>row. find_stream example_db0 1 = Some row \<and> s_publisher_id row = 24) \<and>
     stream_view (rs_db (ps_relay p)) 1 = stream_view example_db0 1"
proof -
  have id: "identity_id example_relay_env (hello_identity replaying_hello) = Ok 25"
    by (simp add: replaying_hello_def example_relay_env_def example_queue_env_def wire_env.extend_def example_wire_defs
        wire_env.defs identity_id_def identity_validate_def example_public_def IDENTITY_VERSION_def
        IDENTITY_FINGERPRINT_PREFIX_def ascii_bytes_def)
  have ok: "pairing_store_env_ok example_relay_env"
    using example_queue_env_ok by (simp add: pairing_store_env_ok_def example_relay_env_def)
  obtain out p r where run: "publisher_message_step example_relay_env example_config replaying_hello 25 (PubObject example_object) 0
     \<lparr>ps_relay = sys_relay example_publishing, ps_touched = {}\<rparr> = (out, p, r)" by (metis prod_cases3)
  have row: "find_stream example_db0 1 = Some (example_stream 0 None)" "s_publisher_id (example_stream 0 None) = 24"
    by (simp_all add: find_stream_def example_db0_def example_rows)
  have "sint (sys_clock example_publishing) \<le> sint 0" by (simp add: example_publishing_def)
  from sessions_isolated [OF example_relay_reaches this runs_example_fields(9) [OF example_relay_runs] ok id] run
  have "\<forall>sid row. find_stream (rs_db (sys_relay example_publishing)) sid = Some row \<longrightarrow> s_publisher_id row \<noteq> 25 \<longrightarrow>
      stream_view (rs_db (ps_relay p)) sid = stream_view (rs_db (sys_relay example_publishing)) sid" by blast
  then have "stream_view (rs_db (ps_relay p)) 1 = stream_view example_db0 1"
    using row by (simp add: example_publishing_def example_relay_def)
  with run row show ?thesis by (auto simp: example_publishing_def)
qed

theorem one_publisher_per_stream_witness:
  "(relay_step example_relay_env example_config)\<^sup>*\<^sup>* (initial_system 0) example_publishing \<and>
   rs_online (sys_relay example_publishing) = {sid. \<exists>i a. sys_sessions example_publishing i = Some a \<and> sid \<in> a}"
  using one_publisher_per_stream [OF example_relay_reaches] example_relay_reaches by blast

theorem catalog_always_sendable_witness:
  "\<exists>entry. catalog example_relay_env (sys_relay example_publishing) = Ok [entry] \<and> cat_publisher_online entry"
proof -
  have "uint (max_total_bytes (limits example_config)) \<le> i64_MAX"
    "unat (max_streams (limits example_config)) \<le> MAX_STREAMS_PER_MESSAGE"
    by (simp_all add: example_config_def default_limits_def MAX_STREAMS_PER_MESSAGE_def)
  from catalog_always_sendable [OF example_relay_reaches runs_example_fields(9) [OF example_relay_runs] this]
  obtain entries where entries: "catalog example_relay_env (sys_relay example_publishing) = Ok entries"
    "map (\<lambda>c. d_stream_id (d_body (cat_descriptor c))) entries = [1]"
    "\<forall>c\<in>set entries. cat_publisher_online c \<longleftrightarrow>
       (\<exists>i a. sys_sessions example_publishing i = Some a \<and> d_stream_id (d_body (cat_descriptor c)) \<in> a)"
    by (auto simp: example_publishing_def example_relay_def example_db0_def example_rows)
  from entries(2) obtain entry where "entries = [entry]" "d_stream_id (d_body (cat_descriptor entry)) = 1" by auto
  with entries(1,3) show ?thesis by (auto simp: example_publishing_def)
qed

theorem acknowledged_object_durable_witness:
  "\<exists>row. find_object example_db1 1 1 = Some row \<and> object_encode example_relay_env example_public example_object = Ok (ob_object row)"
proof -
  have "store_inv (rs_db (ps_relay \<lparr>ps_relay = example_relay example_db0 {1} [], ps_touched = {1}\<rparr>))"
    using example_inv(1) by (simp add: example_relay_def)
  from acknowledged_object_durable [OF this example_publish_object, of 1 1] show ?thesis
    using example_found [OF example_relay_runs, of example_db0 0 None]
    by (auto simp: example_relay_def example_descriptor_fields find_stream_def example_db0_def example_rows)
qed

end
