(* ===== verification/PrivateState.thy ===== *)
theory PrivateState
  imports Framing
begin

text \<open>
  \<^verbatim>\<open>crates/protocol/src/private_state.rs\<close>, as its users see it: what reading a private file returns.
\<close>

text \<open>An error of the file system, or the contents of the file when it is there and not too long\<close>

definition read_private :: "nat \<Rightarrow> io_error_kind option \<Rightarrow> bytes option \<Rightarrow> io_error_kind + bytes" where
  "read_private max_len fault contents =
     (case fault of
        Some e \<Rightarrow> Err e
      | None \<Rightarrow> (case contents of
                   None \<Rightarrow> Err NotFound
                 | Some bs \<Rightarrow> if length bs > max_len then Err InvalidData else Ok bs))"

end
