(* ===== verification/Viewer.thy ===== *)
theory Viewer
  imports PairingStore Trust Tasks Cursor PrivateState "HOL-Library.AList"
begin

text \<open>
  \<^verbatim>\<open>crates/viewer/src/lib.rs\<close>, below its window: the cache of content keys, the files of pending
  pairings and of verified publishers, pairing, the catalog, and a subscription from its request to
  the frames and cursors it shows, with reconnection.

  A task of the viewer writes messages to the relay and shows events.  Its inputs are what the relay
  answers and, between any two answers, the keys the other tasks put into the shared cache.  Hash maps
  are association lists with distinct keys.  The H.264 decoder, the clock, random bytes and the
  outcomes of file operations are parameters.
\<close>

section \<open>Constants and errors\<close>

definition DEFAULT_VIEWER_PORT :: nat where
  "DEFAULT_VIEWER_PORT = 8899"

definition PAIRING_STATE_VERSION :: u16 where
  "PAIRING_STATE_VERSION = 1"

definition MAX_PAIRING_STATE_BYTES :: nat where
  "MAX_PAIRING_STATE_BYTES = 4 * 1024 * 1024"

definition MAX_PENDING_OBJECTS :: nat where
  "MAX_PENDING_OBJECTS = 256"

definition MAX_PENDING_CIPHERTEXT_BYTES :: nat where
  "MAX_PENDING_CIPHERTEXT_BYTES = 32 * 1024 * 1024"

definition MAX_CACHED_KEYS :: nat where
  "MAX_CACHED_KEYS = 8192"

definition VERIFIED_PUBLISHERS_VERSION :: u16 where
  "VERIFIED_PUBLISHERS_VERSION = 1"

definition MAX_VERIFIED_PUBLISHERS_BYTES :: nat where
  "MAX_VERIFIED_PUBLISHERS_BYTES = 4 * 1024 * 1024"

definition PAIRING_LIFETIME_MS :: i64 where
  "PAIRING_LIFETIME_MS = 24 * 60 * 60 * 1000"

datatype viewer_error =
    VeRefused string
  | VePostcard
  | VeIo io_error_kind
  | VeIdentity identity_error
  | VeNative native_stream_error
  | VeEnvelope envelope_error
  | VePairing pairing_error
  | VeTrust relay_trust_error
  | VeCursor cursor_error
  | VeDecoder
  | VeProtocol
  | VeTimeout

section \<open>The key cache\<close>

record viewer_key =
  gk_stream_id :: uuid
  gk_epoch_id :: uuid
  gk_key_group :: u64
  gk_key_id :: array16

definition for_object :: "native_object \<Rightarrow> viewer_key" where
  "for_object obj = \<lparr>gk_stream_id = h_stream_id (o_header obj), gk_epoch_id = h_epoch_id (o_header obj),
     gk_key_group = h_key_group (o_header obj), gk_key_id = h_key_id (o_header obj)\<rparr>"

record key_cache =
  kc_keys :: "(viewer_key \<times> array32) list"
  kc_order :: "viewer_key list"

definition empty_cache :: key_cache where
  "empty_cache = \<lparr>kc_keys = [], kc_order = []\<rparr>"

text \<open>The loop that drops the oldest keys; with no order left it would not end, which is \<open>None\<close>.\<close>

fun evict :: "(viewer_key \<times> array32) list \<Rightarrow> viewer_key list \<Rightarrow> key_cache option" where
  "evict keys [] = (if length keys > MAX_CACHED_KEYS then None else Some \<lparr>kc_keys = keys, kc_order = []\<rparr>)"
| "evict keys (oldest # order) =
     (if length keys > MAX_CACHED_KEYS then evict (AList.delete oldest keys) order
      else Some \<lparr>kc_keys = keys, kc_order = oldest # order\<rparr>)"

definition cache_insert :: "viewer_key \<Rightarrow> array32 \<Rightarrow> key_cache \<Rightarrow> key_cache option" where
  "cache_insert group_id key c =
     evict (AList.update group_id key (kc_keys c))
       (if map_of (kc_keys c) group_id = None then kc_order c @ [group_id] else kc_order c)"

definition cache_get :: "key_cache \<Rightarrow> viewer_key \<Rightarrow> array32 option" where
  "cache_get c group_id = map_of (kc_keys c) group_id"

section \<open>Data\<close>

record connection_profile =
  cp_endpoint :: rust_str
  cp_identity :: identity_secret
  cp_credential :: "native_credential option"
  cp_explicit_pin :: "array32 option"

record frame =
  fr_stream_id :: uuid
  fr_width :: nat
  fr_height :: nat
  fr_rgb :: bytes
  fr_sequence :: u64
  fr_key_group :: u64

record cursor_update =
  cu_stream_id :: uuid
  cu_x_micropixels :: i64
  cu_y_micropixels :: i64
  cu_visible :: bool
  cu_bitmap :: "cursor_bitmap option"

datatype viewer_event =
    EvStatus string
  | EvCatalog "catalog_entry list"
  | EvFrame frame
  | EvCursor cursor_update
  | EvStreamStatus uuid string
  | EvStreamError uuid u64
  | EvPairingPrompt array32 rust_str
  | EvPairingApproved uuid identity_public

text \<open>A message to the relay, an event for the window, or a subscription task ended or started\<close>

datatype viewer_output =
    Sent viewer_message
  | Shown viewer_event
  | Aborted uuid
  | Spawned uuid identity_public subscription_start

type_synonym pending_pairings = "(array32 \<times> pair_request \<times> pair_offer option) list"

record pairing_state =
  vs_version :: u16
  vs_pending :: "(pair_request \<times> pair_offer option) list"

record verified_publishers_state =
  vp_version :: u16
  vp_publishers :: "(uuid \<times> identity_public) list"

record viewer_env = pairing_store_env +
  pairing_state_codec :: "pairing_state postcard"
  verified_codec :: "verified_publishers_state postcard"
  viewer_trust :: trust_env
  noise_key_text :: "rust_str \<Rightarrow> viewer_error + array32"

text \<open>\<^verbatim>\<open>openh264\<close>: the units of an Annex B stream, and a decoder that may return a picture for each.\<close>

record 'd h264_decoder =
  dec_new :: "viewer_error + 'd"
  dec_units :: "bytes \<Rightarrow> bytes list"
  dec_decode :: "'d \<Rightarrow> bytes \<Rightarrow> (viewer_error + (nat \<times> nat \<times> bytes) option) \<times> 'd"

datatype viewer_input =
    FromRelay "viewer_error + relay_viewer_message"
  | OtherTasks "(viewer_key \<times> array32) list"

text \<open>The files and the pairings pending in memory, the shared cache, and what the subscription at hand
  has received\<close>

record 'd viewer_world =
  vw_relays :: "bytes option"
  vw_pairing_file :: "bytes option"
  vw_verified_file :: "bytes option"
  vw_pending :: pending_pairings
  vw_keys :: key_cache
  vw_inputs :: "viewer_input list"
  vw_asked :: nat
  vw_decoder :: 'd
  vw_guard :: live_sequence_guard
  vw_source_size :: "(u32 \<times> u32) option"
  vw_objects :: "native_object list"
  vw_object_bytes :: nat
  vw_last_decrypted :: u64
  vw_subscriptions :: "uuid list"

record viewer_inputs =
  vi_connect :: "nat \<Rightarrow> viewer_error + unit"
  vi_relays_fault :: "nat \<Rightarrow> io_error_kind option"
  vi_remote_key :: "nat \<Rightarrow> viewer_error + array32"
  vi_replace :: "nat \<Rightarrow> replace_outcome"
  vi_lock :: "nat \<Rightarrow> io_error_kind + unit"
  vi_file_fault :: "nat \<Rightarrow> io_error_kind option"
  vi_write :: "nat \<Rightarrow> viewer_error + unit"
  vi_now_ms :: "nat \<Rightarrow> i64"
  vi_nonce :: "nat \<Rightarrow> array32"

type_synonym ('d, 'a) viewing = "(viewer_output, viewer_error, 'd viewer_world, 'a) etask"

definition view_ask :: "(nat \<Rightarrow> 'a) \<Rightarrow> ('d, 'a) viewing" where
  "view_ask f = (\<lambda>s. ([], s\<lparr>vw_asked := Suc (vw_asked s)\<rparr>, Some (Ok (f (vw_asked s)))))"

definition show_event :: "viewer_event \<Rightarrow> ('d, unit) viewing" where
  "show_event e = task_run ([Shown e], Some (Ok ()))"

section \<open>Relay sessions\<close>

definition send_viewer :: "viewer_inputs \<Rightarrow> viewer_message \<Rightarrow> ('d, unit) viewing" where
  "send_viewer I m =
     task_then (view_ask (vi_write I)) (\<lambda>written.
     task_then (task_of written) (\<lambda>_. task_run ([Sent m], Some (Ok ()))))"

text \<open>Keys of other tasks; a full cache that cannot evict would hang the task.\<close>

fun insert_keys :: "(viewer_key \<times> array32) list \<Rightarrow> key_cache \<Rightarrow> key_cache option" where
  "insert_keys [] c = Some c"
| "insert_keys ((g, k) # kvs) c = (case cache_insert g k c of None \<Rightarrow> None | Some c \<Rightarrow> insert_keys kvs c)"

fun read_inputs ::
  "viewer_input list \<Rightarrow> key_cache \<Rightarrow> viewer_input list \<times> key_cache \<times> (viewer_error + relay_viewer_message) option" where
  "read_inputs [] c = ([], c, None)"
| "read_inputs (FromRelay reply # inputs) c = (inputs, c, Some reply)"
| "read_inputs (OtherTasks kvs # inputs) c =
     (case insert_keys kvs c of None \<Rightarrow> (inputs, c, None) | Some c \<Rightarrow> read_inputs inputs c)"

definition read_viewer :: "('d, relay_viewer_message) viewing" where
  "read_viewer =
     (\<lambda>s. case read_inputs (vw_inputs s) (vw_keys s) of (inputs, c, r) \<Rightarrow>
        ([], s\<lparr>vw_inputs := inputs, vw_keys := c\<rparr>, r))"

definition view_known_relays :: "'z viewer_env_scheme \<Rightarrow> viewer_inputs \<Rightarrow> ('d, known_relays) viewing" where
  "view_known_relays E I =
     task_then (view_ask (vi_relays_fault I)) (\<lambda>fault.
     task_then (task_get (\<lambda>s. known_relays_open (viewer_trust E)
         (read_private MAX_KNOWN_RELAYS_FILE_LEN fault (vw_relays s)))) (\<lambda>opened.
       task_of (map_err VeTrust opened)))"

definition view_connect :: "'z viewer_env_scheme \<Rightarrow> viewer_inputs \<Rightarrow> connection_profile \<Rightarrow> ('d, unit) viewing" where
  "view_connect E I cp =
     task_then (view_ask (vi_connect I)) (\<lambda>connected.
     task_then (task_of connected) (\<lambda>_.
     task_then (case cp_explicit_pin cp of
                  Some pin \<Rightarrow> task_of (Ok (Some pin))
                | None \<Rightarrow> task_then (view_known_relays E I) (\<lambda>known.
                    task_of (map_err VeTrust (known_relays_get (viewer_trust E) known (cp_endpoint cp))))) (\<lambda>expected.
     task_then (view_ask (vi_remote_key I)) (\<lambda>presented.
     task_then (task_of presented) (\<lambda>remote.
     task_then (task_of (case expected of
                           Some key \<Rightarrow> if remote \<noteq> key then Err VeProtocol else Ok ()
                         | None \<Rightarrow> Ok ())) (\<lambda>_.
     task_then (if cp_explicit_pin cp = None
                then task_then (view_known_relays E I) (\<lambda>known.
                     task_then (view_ask (vi_replace I)) (\<lambda>replaced.
                     case verify_or_learn (viewer_trust E) replaced known (cp_endpoint cp) remote of (learned, known) \<Rightarrow>
                     task_then (task_modify (\<lambda>s. s\<lparr>vw_relays := kr_file known\<rparr>)) (\<lambda>_.
                     task_then (task_of (map_err VeTrust learned)) (\<lambda>_. task_of (Ok ())))))
                else task_of (Ok ())) (\<lambda>_.
     task_then (task_of (map_err VeIdentity (secret_public E (cp_identity cp)))) (\<lambda>public.
     task_then (send_viewer I (VwHello \<lparr>hello_protocol_version = PROTOCOL_VERSION, hello_role = RoleViewer,
         hello_identity = public, hello_credential = cp_credential cp\<rparr>)) (\<lambda>_.
     task_then read_viewer (\<lambda>reply. task_of
       (case reply of
          RvWelcome _ \<Rightarrow> Ok ()
        | RvError _ \<Rightarrow> Err (VeRefused ''relay rejected viewer'')
        | _ \<Rightarrow> Err (VeRefused ''relay did not send a welcome first''))))))))))))"

section \<open>Relay addresses\<close>

text \<open>\<^verbatim>\<open>strip_prefix\<close> and \<^verbatim>\<open>split_once\<close> of \<^verbatim>\<open>str\<close>\<close>

definition strip_prefix :: "rust_str \<Rightarrow> rust_str \<Rightarrow> rust_str option" where
  "strip_prefix p s = (if take (length p) s = p then Some (drop (length p) s) else None)"

definition split_once :: "nat \<Rightarrow> rust_str \<Rightarrow> (rust_str \<times> rust_str) option" where
  "split_once c s =
     (if c \<in> set s then Some (takeWhile (\<lambda>x. x \<noteq> c) s, tl (dropWhile (\<lambda>x. x \<noteq> c) s)) else None)"

fun find_map :: "('a \<Rightarrow> 'b option) \<Rightarrow> 'a list \<Rightarrow> 'b option" where
  "find_map f [] = None"
| "find_map f (x # xs) = (case f x of None \<Rightarrow> find_map f xs | Some y \<Rightarrow> Some y)"

definition parse_relay :: "'z viewer_env_scheme \<Rightarrow> rust_str \<Rightarrow> viewer_error + rust_str \<times> array32 option" where
  "parse_relay E input =
     (let value = (case strip_prefix (lit ''glacialcast://'') input of None \<Rightarrow> input | Some rest \<Rightarrow> rest);
          (authority, query) = (case split_once 63 value of None \<Rightarrow> (value, []) | Some parts \<Rightarrow> parts);
          endpoint = (if 58 \<in> set authority then authority else authority @ [58] @ decimal DEFAULT_VIEWER_PORT)
      in and_then (map_err VeTrust (canonical_relay_endpoint (viewer_trust E) endpoint)) (\<lambda>_.
         and_then (case find_map (strip_prefix (lit ''key='')) (split_on 38 [] query) of
                     None \<Rightarrow> Ok None
                   | Some text \<Rightarrow> and_then (noise_key_text E text) (\<lambda>key. Ok (Some key))) (\<lambda>pin.
           Ok (endpoint, pin))))"

section \<open>Loops over what the relay sends\<close>

text \<open>Each message is handled until the handler says that the exchange is over.\<close>

fun input_loop :: "(relay_viewer_message \<Rightarrow> ('d, bool) viewing) \<Rightarrow> viewer_input list \<Rightarrow> ('d, unit) viewing" where
  "input_loop handle [] = (\<lambda>s. ([], s\<lparr>vw_inputs := []\<rparr>, None))"
| "input_loop handle (OtherTasks kvs # inputs) =
     (\<lambda>s. case insert_keys kvs (vw_keys s) of
            None \<Rightarrow> ([], s, None)
          | Some c \<Rightarrow> input_loop handle inputs (s\<lparr>vw_keys := c\<rparr>))"
| "input_loop handle (FromRelay reply # inputs) =
     task_then (task_modify (\<lambda>s. s\<lparr>vw_inputs := inputs\<rparr>)) (\<lambda>_.
     task_then (task_of reply) (\<lambda>message.
     task_then (handle message) (\<lambda>continues.
       if continues then input_loop handle inputs else task_of (Ok ()))))"

definition read_each :: "(relay_viewer_message \<Rightarrow> ('d, bool) viewing) \<Rightarrow> ('d, unit) viewing" where
  "read_each handle = task_then (task_get vw_inputs) (input_loop handle)"

section \<open>Files\<close>

text \<open>\<^verbatim>\<open>replace_private\<close>: refused when the file it replaces is too long, whatever the length of the new
  contents; otherwise the outcome of replacing\<close>

definition replace_file ::
  "nat \<Rightarrow> bytes option \<Rightarrow> replace_outcome \<Rightarrow> bytes \<Rightarrow> (viewer_error + unit) \<times> bytes option" where
  "replace_file max_existing_len existing replaced encoded =
     (if (case existing of None \<Rightarrow> False | Some bs \<Rightarrow> length bs > max_existing_len)
      then (Err (VeIo InvalidData), existing)
      else (case replaced of
              Replaced \<Rightarrow> (Ok (), Some encoded)
            | ReplaceFailed e renamed \<Rightarrow> (Err (VeIo e), if renamed then Some encoded else existing)))"

fun index_pairings ::
  "'z pairing_env_scheme \<Rightarrow> (pair_request \<times> pair_offer option) list \<Rightarrow> pending_pairings \<Rightarrow> viewer_error + pending_pairings" where
  "index_pairings E [] pending = Ok pending"
| "index_pairings E (pair # pairs) pending =
     and_then (map_err VePairing (pair_request_id E (fst pair))) (\<lambda>rid.
       if map_of pending rid \<noteq> None then Err (VeRefused ''pending pairing state contains duplicate requests'')
       else index_pairings E pairs (AList.update rid pair pending))"

definition load_pairing_state :: "'z viewer_env_scheme \<Rightarrow> io_error_kind + bytes \<Rightarrow> viewer_error + pending_pairings" where
  "load_pairing_state E read =
     (case read of
        Inl NotFound \<Rightarrow> Ok []
      | Inl e \<Rightarrow> Err (VeIo e)
      | Inr bs \<Rightarrow>
          and_then (ok_or (take_from_bytes (pairing_state_codec E) bs) VePostcard) (\<lambda>(state, remainder).
            if remainder \<noteq> [] \<or> vs_version state \<noteq> PAIRING_STATE_VERSION
            then Err (VeRefused ''pending pairing state is invalid or non-canonical'')
            else and_then (ok_or (to_stdvec (pairing_state_codec E) state) VePostcard) (\<lambda>encoded.
              if encoded \<noteq> bs then Err (VeRefused ''pending pairing state is invalid or non-canonical'')
              else index_pairings E (vs_pending state) [])))"

definition pairing_order :: "'z pairing_env_scheme \<Rightarrow> pair_request \<times> pair_offer option \<Rightarrow> array32" where
  "pairing_order E pair = (case pair_request_id E (fst pair) of Inr rid \<Rightarrow> rid | Inl _ \<Rightarrow> 0)"

definition save_pairing_state ::
  "'z viewer_env_scheme \<Rightarrow> replace_outcome \<Rightarrow> bytes option \<Rightarrow> pending_pairings
    \<Rightarrow> (viewer_error + unit) \<times> bytes option" where
  "save_pairing_state E replaced existing pending =
     (case to_stdvec (pairing_state_codec E)
             \<lparr>vs_version = PAIRING_STATE_VERSION, vs_pending = sort_key (pairing_order E) (map snd pending)\<rparr> of
        None \<Rightarrow> (Err VePostcard, existing)
      | Some encoded \<Rightarrow> replace_file MAX_PAIRING_STATE_BYTES existing replaced encoded)"

definition save_pairings :: "'z viewer_env_scheme \<Rightarrow> viewer_inputs \<Rightarrow> ('d, unit) viewing" where
  "save_pairings E I =
     task_then (view_ask (vi_replace I)) (\<lambda>replaced s.
       case save_pairing_state E replaced (vw_pairing_file s) (vw_pending s) of (r, stored) \<Rightarrow>
         ([], s\<lparr>vw_pairing_file := stored\<rparr>, Some r))"

fun index_publishers ::
  "uuid option \<Rightarrow> (uuid \<times> identity_public) list \<Rightarrow> (uuid \<times> identity_public) list
    \<Rightarrow> viewer_error + (uuid \<times> identity_public) list" where
  "index_publishers previous [] publishers = Ok publishers"
| "index_publishers previous ((sid, publisher) # entries) publishers =
     (if (case previous of None \<Rightarrow> False | Some p \<Rightarrow> p \<ge> sid) \<or> map_of publishers sid \<noteq> None
      then Err (VeRefused ''verified publisher state is not strictly ordered'')
      else index_publishers (Some sid) entries (AList.update sid publisher publishers))"

definition load_verified_publishers_unlocked ::
  "'z viewer_env_scheme \<Rightarrow> io_error_kind + bytes \<Rightarrow> viewer_error + (uuid \<times> identity_public) list" where
  "load_verified_publishers_unlocked E read =
     (case read of
        Inl NotFound \<Rightarrow> Ok []
      | Inl e \<Rightarrow> Err (VeIo e)
      | Inr bs \<Rightarrow>
          and_then (ok_or (take_from_bytes (verified_codec E) bs) VePostcard) (\<lambda>(state, remainder).
            if remainder \<noteq> [] \<or> vp_version state \<noteq> VERIFIED_PUBLISHERS_VERSION \<or> length (vp_publishers state) > 65536
            then Err (VeRefused ''verified publisher state is invalid or non-canonical'')
            else and_then (ok_or (to_stdvec (verified_codec E) state) VePostcard) (\<lambda>encoded.
              if encoded \<noteq> bs then Err (VeRefused ''verified publisher state is invalid or non-canonical'')
              else index_publishers None (vp_publishers state) [])))"

definition encode_verified ::
  "'z viewer_env_scheme \<Rightarrow> (uuid \<times> identity_public) list \<Rightarrow> viewer_error + bytes" where
  "encode_verified E publishers =
     ok_or (to_stdvec (verified_codec E) \<lparr>vp_version = VERIFIED_PUBLISHERS_VERSION, vp_publishers = sort_key fst publishers\<rparr>) VePostcard"

definition insert_verified ::
  "'z viewer_env_scheme \<Rightarrow> uuid \<Rightarrow> identity_public \<Rightarrow> (uuid \<times> identity_public) list
    \<Rightarrow> viewer_error + (uuid \<times> identity_public) list" where
  "insert_verified E sid publisher publishers =
     (case map_of publishers sid of
        Some existing \<Rightarrow>
          and_then (map_err VeIdentity (identity_id E existing)) (\<lambda>i.
          and_then (map_err VeIdentity (identity_id E publisher)) (\<lambda>j.
            if i \<noteq> j then Err (VeRefused ''verified publisher identity changed for stream'')
            else Ok (AList.update sid publisher publishers)))
      | None \<Rightarrow> Ok (AList.update sid publisher publishers))"

definition load_verified :: "'z viewer_env_scheme \<Rightarrow> viewer_inputs \<Rightarrow> ('d, (uuid \<times> identity_public) list) viewing" where
  "load_verified E I =
     task_then (view_ask (\<lambda>n. (vi_lock I n, vi_file_fault I n))) (\<lambda>(lock, fault).
     task_then (task_of (map_err VeIo lock)) (\<lambda>_.
     task_then (task_get (\<lambda>s. load_verified_publishers_unlocked E
         (read_private MAX_VERIFIED_PUBLISHERS_BYTES fault (vw_verified_file s)))) task_of))"

definition store_verified :: "viewer_inputs \<Rightarrow> bytes \<Rightarrow> ('d, unit) viewing" where
  "store_verified I encoded =
     task_then (view_ask (vi_replace I)) (\<lambda>replaced s.
       case replace_file MAX_VERIFIED_PUBLISHERS_BYTES (vw_verified_file s) replaced encoded of (r, stored) \<Rightarrow>
         ([], s\<lparr>vw_verified_file := stored\<rparr>, Some r))"

definition remember_verified_publisher ::
  "'z viewer_env_scheme \<Rightarrow> viewer_inputs \<Rightarrow> uuid \<Rightarrow> identity_public \<Rightarrow> ('d, unit) viewing" where
  "remember_verified_publisher E I sid publisher =
     task_then (load_verified E I) (\<lambda>publishers.
     task_then (task_of (insert_verified E sid publisher publishers)) (\<lambda>publishers.
     task_then (task_of (encode_verified E publishers)) (\<lambda>encoded.
       if length encoded > MAX_VERIFIED_PUBLISHERS_BYTES
       then task_of (Err (VeRefused ''verified publisher state exceeds its file bound''))
       else store_verified I encoded)))"

definition forget_verified_publisher :: "'z viewer_env_scheme \<Rightarrow> viewer_inputs \<Rightarrow> uuid \<Rightarrow> ('d, unit) viewing" where
  "forget_verified_publisher E I sid =
     task_then (load_verified E I) (\<lambda>publishers.
     task_then (task_of (encode_verified E (AList.delete sid publishers))) (store_verified I))"

text \<open>The check in front of pairing and of subscribing\<close>

definition check_verified ::
  "'z viewer_env_scheme \<Rightarrow> viewer_inputs \<Rightarrow> uuid \<Rightarrow> identity_public \<Rightarrow> string \<Rightarrow> ('d, unit) viewing" where
  "check_verified E I sid publisher refusal =
     task_then (load_verified E I) (\<lambda>publishers. task_of
       (case map_of publishers sid of
          Some expected \<Rightarrow>
            and_then (map_err VeIdentity (identity_id E expected)) (\<lambda>i.
            and_then (map_err VeIdentity (identity_id E publisher)) (\<lambda>j.
              if i \<noteq> j then Err (VeRefused refusal) else Ok ()))
        | None \<Rightarrow> Ok ()))"

section \<open>Pairing\<close>

definition queued_reply :: "'z pairing_env_scheme \<Rightarrow> pair_request \<Rightarrow> string \<Rightarrow> string \<Rightarrow> relay_viewer_message \<Rightarrow> viewer_error + unit" where
  "queued_reply E request rejected unexpected reply =
     (case reply of
        RvPairingQueued rid \<Rightarrow>
          and_then (map_err VePairing (pair_request_id E request)) (\<lambda>i.
            if rid = i then Ok () else Err (VeRefused unexpected))
      | RvError _ \<Rightarrow> Err (VeRefused rejected)
      | _ \<Rightarrow> Err (VeRefused unexpected))"

definition begin_pairing ::
  "'z viewer_env_scheme \<Rightarrow> viewer_inputs \<Rightarrow> connection_profile \<Rightarrow> uuid \<Rightarrow> identity_public \<Rightarrow> ('d, pair_request) viewing" where
  "begin_pairing E I cp sid publisher =
     task_then (check_verified E I sid publisher ''refusing to pair with a changed publisher identity'') (\<lambda>_.
     task_then (view_ask (\<lambda>n. (vi_now_ms I n, vi_nonce I n))) (\<lambda>(now_ms, nonce).
     task_then (task_of (map_err VePairing (pair_request_new_with_credential E nonce (cp_identity cp) publisher sid
         (lit ''gcview device'') (cp_credential cp) now_ms (saturating_add_i64 now_ms PAIRING_LIFETIME_MS)))) (\<lambda>request.
     task_then (view_connect E I cp) (\<lambda>_.
     task_then (send_viewer I (VwPairRequest request)) (\<lambda>_.
     task_then read_viewer (\<lambda>reply.
     task_then (task_of (queued_reply E request ''relay rejected pairing'' ''unexpected pairing response'' reply)) (\<lambda>_.
       task_of (Ok request))))))))"

definition confirm_pairing ::
  "'z viewer_env_scheme \<Rightarrow> viewer_inputs \<Rightarrow> connection_profile \<Rightarrow> pair_request \<Rightarrow> pair_offer \<Rightarrow> ('d, unit) viewing" where
  "confirm_pairing E I cp request offer =
     task_then (view_ask (vi_now_ms I)) (\<lambda>now_ms.
     task_then (task_of (map_err VePairing (confirmation_approve E (cp_identity cp) request offer now_ms))) (\<lambda>confirmation.
     task_then (view_connect E I cp) (\<lambda>_.
     task_then (send_viewer I (VwPairConfirmation confirmation)) (\<lambda>_.
     task_then read_viewer (\<lambda>reply.
       task_of (queued_reply E request ''relay rejected confirmation'' ''unexpected confirmation response'' reply))))))"

definition receive_offer ::
  "'z viewer_env_scheme \<Rightarrow> rust_str list \<Rightarrow> viewer_inputs \<Rightarrow> pair_offer \<Rightarrow> ('d, unit) viewing" where
  "receive_offer E words I offer =
     (let rid = po_request_id (po_body offer)
      in task_then (task_get (\<lambda>s. map_of (vw_pending s) rid)) (\<lambda>found.
         case found of
           None \<Rightarrow> task_of (Ok ())
         | Some (request, stored) \<Rightarrow>
             task_then (view_ask (vi_now_ms I)) (\<lambda>now_ms.
             task_then (task_of (map_err VePairing (pair_offer_verify E offer request now_ms PAIRING_LIFETIME_MS))) (\<lambda>_.
             task_then (task_of (map_err VePairing (authentication_string E words request offer))) (\<lambda>authentication.
             task_then (task_modify (\<lambda>s. s\<lparr>vw_pending := AList.update rid (request, Some offer) (vw_pending s)\<rparr>)) (\<lambda>_.
             task_then (task_of (map_err VePairing (pair_request_id E request))) (\<lambda>request_id.
             task_then (save_pairings E I) (\<lambda>_. show_event (EvPairingPrompt request_id authentication)))))))))"

definition receive_decision :: "'z viewer_env_scheme \<Rightarrow> viewer_inputs \<Rightarrow> publisher_decision \<Rightarrow> ('d, unit) viewing" where
  "receive_decision E I decision =
     (let rid = pd_request_id (pd_body decision)
      in task_then (task_get (\<lambda>s. map_of (vw_pending s) rid)) (\<lambda>found.
         task_then (case found of
           None \<Rightarrow> task_of (Ok ())
         | Some (request, _) \<Rightarrow>
             let body = pr_body request
             in task_then (task_of (map_err VePairing (decision_verify E decision request (pr_publisher body)))) (\<lambda>_.
                task_then (if pd_approved (pd_body decision)
                           then remember_verified_publisher E I (pr_stream_id body) (pr_publisher body)
                           else task_of (Ok ())) (\<lambda>_.
                task_then (show_event (EvStatus (if pd_approved (pd_body decision) then ''Publisher approved this viewer''
                                                 else ''Publisher rejected this viewer''))) (\<lambda>_.
                if pd_approved (pd_body decision) then show_event (EvPairingApproved (pr_stream_id body) (pr_publisher body))
                else task_of (Ok ()))))) (\<lambda>_.
         task_then (task_modify (\<lambda>s. s\<lparr>vw_pending := AList.delete rid (vw_pending s)\<rparr>)) (\<lambda>_.
           save_pairings E I))))"

definition pairing_message ::
  "'z viewer_env_scheme \<Rightarrow> rust_str list \<Rightarrow> viewer_inputs \<Rightarrow> relay_viewer_message \<Rightarrow> ('d, bool) viewing" where
  "pairing_message E words I message =
     (case message of
        RvPairOffer offer \<Rightarrow> task_then (receive_offer E words I offer) (\<lambda>_. task_of (Ok True))
      | RvPairDecision decision \<Rightarrow> task_then (receive_decision E I decision) (\<lambda>_. task_of (Ok True))
      | RvInboxComplete \<Rightarrow> task_of (Ok False)
      | RvKeyEnvelope _ \<Rightarrow> task_of (Ok True)
      | RvError _ \<Rightarrow> task_of (Err (VeRefused ''pairing inbox rejected''))
      | _ \<Rightarrow> task_of (Err (VeRefused ''unexpected pairing inbox response'')))"

definition refresh_pairing ::
  "'z viewer_env_scheme \<Rightarrow> rust_str list \<Rightarrow> viewer_inputs \<Rightarrow> connection_profile \<Rightarrow> ('d, unit) viewing" where
  "refresh_pairing E words I cp =
     task_then (view_connect E I cp) (\<lambda>_.
     task_then (send_viewer I VwFetchInbox) (\<lambda>_.
       read_each (pairing_message E words I)))"

end
