(* ===== verification/Playback.thy ===== *)
theory Playback
  imports Viewer
begin

text \<open>
  The rest of \<^verbatim>\<open>crates/viewer/src/lib.rs\<close>: decoding objects, draining those that wait for a key, a
  subscription and its reconnection, the catalog, and the commands of the window.
\<close>

section \<open>Decoding\<close>

fun decode_units ::
  "('d, 'y) h264_decoder_scheme \<Rightarrow> native_object_header \<Rightarrow> bytes list \<Rightarrow> ('d, unit) viewing" where
  "decode_units D h [] = task_of (Ok ())"
| "decode_units D h (u # us) =
     (\<lambda>s. case dec_decode D (vw_decoder s) u of (r, d) \<Rightarrow>
        task_then (task_modify (\<lambda>s. s\<lparr>vw_decoder := d\<rparr>)) (\<lambda>_.
        task_then (task_of r) (\<lambda>picture.
        task_then (case picture of
                     None \<Rightarrow> task_of (Ok ())
                   | Some (width, height, rgb) \<Rightarrow>
                       show_event (EvFrame \<lparr>fr_stream_id = h_stream_id h, fr_width = width, fr_height = height,
                         fr_rgb = rgb, fr_sequence = h_sequence h, fr_key_group = h_key_group h\<rparr>)) (\<lambda>_.
          decode_units D h us))) s)"

definition cursor_shown :: "native_object_header \<Rightarrow> cursor_event \<Rightarrow> viewer_event" where
  "cursor_shown h c = EvCursor \<lparr>cu_stream_id = h_stream_id h, cu_x_micropixels = x_micropixels c,
     cu_y_micropixels = y_micropixels c, cu_visible = visible c, cu_bitmap = bitmap c\<rparr>"

definition decode_cursor :: "native_object_header \<Rightarrow> bytes \<Rightarrow> ('d, unit) viewing" where
  "decode_cursor h plaintext =
     task_then (task_get vw_source_size) (\<lambda>source_size.
     task_then (task_of (ok_or source_size (VeRefused ''cursor arrived before epoch''))) (\<lambda>(width, height).
     task_then (task_of (map_err VeCursor (decode_cursor_batch
        \<lparr>cx_stream_id = h_stream_id h, cx_epoch_id = h_epoch_id h, cx_sequence = h_sequence h,
         cx_start_timestamp = h_timestamp h, cx_source_width = width, cx_source_height = height\<rparr> plaintext))) (\<lambda>batch.
       task_each (show_event \<circ> cursor_shown h) (events batch))))"

definition decode_object ::
  "'z viewer_env_scheme \<Rightarrow> ('d, 'y) h264_decoder_scheme \<Rightarrow> identity_public \<Rightarrow> native_object \<Rightarrow> array32
    \<Rightarrow> ('d, unit) viewing" where
  "decode_object E D publisher obj key =
     (let h = o_header obj
      in task_then (task_of (map_err VeNative (content_key_from_bytes key))) (\<lambda>content_key.
         task_then (task_of (map_err VeNative (object_open E publisher content_key (h_key_id h) obj))) (\<lambda>plaintext.
         case (h_kind h, h_codec h) of
           (Cursor, _) \<Rightarrow> decode_cursor h plaintext
         | (Epoch, Some H264AnnexB) \<Rightarrow>
             task_then (task_of (map_err VeNative (epoch_decode E plaintext))) (\<lambda>epoch.
             task_then (task_modify (\<lambda>s. s\<lparr>vw_source_size := Some (ep_width epoch, ep_height epoch)\<rparr>)) (\<lambda>_.
               decode_units D h (dec_units D (ep_codec_config epoch))))
         | (Media, Some H264AnnexB) \<Rightarrow> decode_units D h (dec_units D plaintext)
         | _ \<Rightarrow> task_of (Ok ()))))"

text \<open>Objects at the front whose key is there are decoded, up to the first that must wait.\<close>

fun drain_objects ::
  "'z viewer_env_scheme \<Rightarrow> ('d, 'y) h264_decoder_scheme \<Rightarrow> identity_public \<Rightarrow> native_object list \<Rightarrow> u64 option
    \<Rightarrow> ('d, u64 option) viewing" where
  "drain_objects E D publisher [] latest = task_of (Ok latest)"
| "drain_objects E D publisher (obj # waiting) latest =
     task_then (task_get (\<lambda>s. cache_get (vw_keys s) (for_object obj))) (\<lambda>found.
       case found of
         None \<Rightarrow> task_of (Ok latest)
       | Some key \<Rightarrow>
           task_then (task_modify (\<lambda>s. s\<lparr>vw_objects := waiting,
             vw_object_bytes := vw_object_bytes s - length (o_ciphertext obj)\<rparr>)) (\<lambda>_.
           task_then (decode_object E D publisher obj key) (\<lambda>_.
             drain_objects E D publisher waiting (Some (h_sequence (o_header obj))))))"

definition drain_pending_objects ::
  "'z viewer_env_scheme \<Rightarrow> ('d, 'y) h264_decoder_scheme \<Rightarrow> identity_public \<Rightarrow> ('d, u64 option) viewing" where
  "drain_pending_objects E D publisher =
     task_then (task_get vw_objects) (\<lambda>pending. drain_objects E D publisher pending None)"

section \<open>A subscription\<close>

definition drain_and_note ::
  "'z viewer_env_scheme \<Rightarrow> ('d, 'y) h264_decoder_scheme \<Rightarrow> identity_public \<Rightarrow> ('d, unit) viewing" where
  "drain_and_note E D publisher =
     task_then (drain_pending_objects E D publisher) (\<lambda>drained.
       case drained of
         None \<Rightarrow> task_of (Ok ())
       | Some sequence \<Rightarrow> task_modify (\<lambda>s. s\<lparr>vw_last_decrypted := sequence\<rparr>))"

definition play_object ::
  "'z viewer_env_scheme \<Rightarrow> ('d, 'y) h264_decoder_scheme \<Rightarrow> identity_public \<Rightarrow> native_object \<Rightarrow> ('d, unit) viewing" where
  "play_object E D publisher obj =
     task_then (task_get vw_guard) (\<lambda>guard.
     task_then (task_of (map_err VeNative (live_guard_accept guard obj))) (\<lambda>(guard, _).
     task_then (task_modify (\<lambda>s. s\<lparr>vw_guard := guard,
         vw_object_bytes := saturating_add_usize (vw_object_bytes s) (length (o_ciphertext obj)),
         vw_objects := vw_objects s @ [obj]\<rparr>)) (\<lambda>_.
     task_then (task_get (\<lambda>s. length (vw_objects s) > MAX_PENDING_OBJECTS
                              \<or> vw_object_bytes s > MAX_PENDING_CIPHERTEXT_BYTES)) (\<lambda>full.
       if full then task_of (Err (VeRefused ''publisher key envelope did not arrive within buffer limits''))
       else drain_and_note E D publisher))))"

definition insert_key :: "viewer_key \<Rightarrow> array32 \<Rightarrow> ('d, unit) viewing" where
  "insert_key group_id key =
     (\<lambda>s. case cache_insert group_id key (vw_keys s) of
            None \<Rightarrow> ([], s, None)
          | Some c \<Rightarrow> ([], s\<lparr>vw_keys := c\<rparr>, Some (Ok ())))"

definition envelope_group :: "key_envelope_header \<Rightarrow> viewer_key" where
  "envelope_group h = \<lparr>gk_stream_id = k_stream_id h, gk_epoch_id = k_epoch_id h, gk_key_group = k_key_group_id h,
     gk_key_id = k_key_id h\<rparr>"

definition play_envelope ::
  "'z viewer_env_scheme \<Rightarrow> ('d, 'y) h264_decoder_scheme \<Rightarrow> connection_profile \<Rightarrow> uuid \<Rightarrow> identity_public \<Rightarrow> array32
    \<Rightarrow> key_envelope \<Rightarrow> ('d, unit) viewing" where
  "play_envelope E D cp sid publisher publisher_id envelope =
     (let h = e_header envelope
      in task_then (task_of (if k_publisher_id h \<noteq> publisher_id \<or> k_stream_id h \<noteq> sid
                             then Err (VeRefused ''subscription delivered a misrouted key envelope'')
                             else and_then (map_err VeIdentity (secret_public E (cp_identity cp))) (\<lambda>public.
                               and_then (map_err VeIdentity (identity_id E public)) (\<lambda>me.
                                 if k_recipient_id h \<noteq> me
                                 then Err (VeRefused ''subscription delivered a misrouted key envelope'')
                                 else Ok ())))) (\<lambda>_.
         task_then (task_of (map_err VeEnvelope (envelope_open E (cp_identity cp) publisher envelope))) (\<lambda>content_key.
         task_then (insert_key (envelope_group h) content_key) (\<lambda>_.
           drain_and_note E D publisher))))"

definition playback_message ::
  "'z viewer_env_scheme \<Rightarrow> ('d, 'y) h264_decoder_scheme \<Rightarrow> connection_profile \<Rightarrow> uuid \<Rightarrow> identity_public \<Rightarrow> array32
    \<Rightarrow> relay_viewer_message \<Rightarrow> ('d, bool) viewing" where
  "playback_message E D cp sid publisher publisher_id message =
     task_then (case message of
          RvObject obj \<Rightarrow> play_object E D publisher obj
        | RvKeyEnvelope envelope \<Rightarrow> play_envelope E D cp sid publisher publisher_id envelope
        | RvLive _ \<Rightarrow> show_event (EvStreamStatus sid ''Live'')
        | RvPong _ \<Rightarrow> task_of (Ok ())
        | RvError _ \<Rightarrow> task_of (Err (VeRefused ''relay stream error''))
        | _ \<Rightarrow> task_of (Err (VeRefused ''unexpected subscription message''))) (\<lambda>_. task_of (Ok True))"

definition start_playback :: "array32 \<Rightarrow> uuid \<Rightarrow> u64 \<Rightarrow> 'd \<Rightarrow> 'd viewer_world \<Rightarrow> 'd viewer_world" where
  "start_playback publisher_id sid first_sequence decoder s =
     s\<lparr>vw_guard := live_guard_new publisher_id sid ((if first_sequence = 0 then 0 else first_sequence - 1)), vw_decoder := decoder,
       vw_source_size := None, vw_objects := [], vw_object_bytes := 0\<rparr>"

definition subscribe_once ::
  "'z viewer_env_scheme \<Rightarrow> ('d, 'y) h264_decoder_scheme \<Rightarrow> viewer_inputs \<Rightarrow> connection_profile \<Rightarrow> uuid
    \<Rightarrow> identity_public \<Rightarrow> subscription_start \<Rightarrow> ('d, unit) viewing" where
  "subscribe_once E D I cp sid publisher start =
     task_then (check_verified E I sid publisher ''catalog publisher does not match the verified stream identity'') (\<lambda>_.
     task_then (view_connect E I cp) (\<lambda>_.
     task_then (task_of (map_err VeIdentity (identity_id E publisher))) (\<lambda>publisher_id.
     task_then (send_viewer I (VwSubscribe publisher_id sid start)) (\<lambda>_.
     task_then read_viewer (\<lambda>reply.
     task_then (task_of (case reply of
                           RvSubscriptionStarted first_sequence _ live \<Rightarrow> Ok (first_sequence, live)
                         | RvError _ \<Rightarrow> Err (VeRefused ''subscription rejected'')
                         | _ \<Rightarrow> Err (VeRefused ''unexpected subscription response''))) (\<lambda>(first_sequence, starts_live).
     task_then (show_event (EvStreamStatus sid (if starts_live then ''Waiting for live media''
                                                else ''Playing retained history''))) (\<lambda>_.
     task_then (task_of (dec_new D)) (\<lambda>decoder.
     task_then (task_modify (start_playback publisher_id sid first_sequence decoder)) (\<lambda>_.
       read_each (playback_message E D cp sid publisher publisher_id))))))))))"

section \<open>The catalog\<close>

definition ok_of :: "'e + 'a \<Rightarrow> 'a option" where
  "ok_of r = (case r of Inl _ \<Rightarrow> None | Inr x \<Rightarrow> Some x)"

definition publisher_matches :: "'z viewer_env_scheme \<Rightarrow> (uuid \<times> identity_public) list \<Rightarrow> catalog_entry \<Rightarrow> bool" where
  "publisher_matches E verified entry =
     (let body = d_body (cat_descriptor entry)
      in case map_of verified (d_stream_id body) of
           None \<Rightarrow> True
         | Some expected \<Rightarrow> ok_of (identity_id E expected) = ok_of (identity_id E (d_publisher body)))"

fun catalog_publishers ::
  "'z viewer_env_scheme \<Rightarrow> catalog_entry list \<Rightarrow> viewer_error + (array32 \<times> identity_public) list" where
  "catalog_publishers E [] = Ok []"
| "catalog_publishers E (entry # entries) =
     (let publisher = d_publisher (d_body (cat_descriptor entry))
      in and_then (map_err VeIdentity (identity_id E publisher)) (\<lambda>i.
         and_then (catalog_publishers E entries) (\<lambda>rest.
           Ok (if map_of rest i = None then (i, publisher) # rest else rest))))"

definition refresh_message ::
  "'z viewer_env_scheme \<Rightarrow> connection_profile \<Rightarrow> (array32 \<times> identity_public) list \<Rightarrow> relay_viewer_message
    \<Rightarrow> ('d, bool) viewing" where
  "refresh_message E cp publishers message =
     (case message of
        RvKeyEnvelope envelope \<Rightarrow>
          (case map_of publishers (k_publisher_id (e_header envelope)) of
             None \<Rightarrow> task_of (Ok True)
           | Some publisher \<Rightarrow>
               task_then (task_of (map_err VeEnvelope (envelope_open E (cp_identity cp) publisher envelope))) (\<lambda>content_key.
               task_then (insert_key (envelope_group (e_header envelope)) content_key) (\<lambda>_. task_of (Ok True))))
      | RvInboxComplete \<Rightarrow> task_of (Ok False)
      | RvPairOffer _ \<Rightarrow> task_of (Ok True)
      | RvPairDecision _ \<Rightarrow> task_of (Ok True)
      | RvError _ \<Rightarrow> task_of (Err (VeRefused ''inbox rejected''))
      | _ \<Rightarrow> task_of (Err (VeRefused ''unexpected inbox response'')))"

definition refresh :: "'z viewer_env_scheme \<Rightarrow> viewer_inputs \<Rightarrow> connection_profile \<Rightarrow> ('d, unit) viewing" where
  "refresh E I cp =
     task_then (view_connect E I cp) (\<lambda>_.
     task_then (send_viewer I VwCatalog) (\<lambda>_.
     task_then read_viewer (\<lambda>reply.
     task_then (task_of (case reply of
                           RvCatalog entries \<Rightarrow> Ok entries
                         | RvError _ \<Rightarrow> Err (VeRefused ''catalog rejected'')
                         | _ \<Rightarrow> Err (VeRefused ''unexpected catalog response''))) (\<lambda>entries.
     task_then (load_verified E I) (\<lambda>verified.
     let catalog = filter (publisher_matches E verified) entries
     in task_then (task_of (catalog_publishers E catalog)) (\<lambda>publishers.
        task_then (send_viewer I VwFetchInbox) (\<lambda>_.
        task_then (read_each (refresh_message E cp publishers)) (\<lambda>_.
        task_then (show_event (EvCatalog catalog)) (\<lambda>_.
          if length catalog < length entries
          then show_event (EvStatus ''Hidden streams whose publisher identity changed'')
          else task_of (Ok ()))))))))))"

section \<open>Reconnection\<close>

definition saturating_mul_u64 :: "u64 \<Rightarrow> u64 \<Rightarrow> u64" where
  "saturating_mul_u64 a b = (if unat a * unat b < 2 ^ 64 then a * b else - 1)"

definition reconnect_delay :: "u32 \<Rightarrow> u64" where
  "reconnect_delay attempt = saturating_mul_u64 250 (push_bit (unat (min attempt 5)) 1)"

text \<open>The result of a task that is not propagated\<close>

definition task_try :: "('m, 'e, 's, 'a) etask \<Rightarrow> ('m, 'e, 's, 'e + 'a) etask" where
  "task_try t = (\<lambda>s. case t s of (out, s1, r) \<Rightarrow> (out, s1, map_option Inr r))"

text \<open>What each connection of a subscription, and the refresh after it, find: the files as the other tasks
  left them and what the relay sends\<close>

record connection_turn =
  vt_files :: "bytes option \<times> bytes option"
  vt_inputs :: "viewer_input list"
  vt_refresh_inputs :: "viewer_input list"

definition turn_begins :: "connection_turn \<Rightarrow> 'd viewer_world \<Rightarrow> 'd viewer_world" where
  "turn_begins t s = s\<lparr>vw_relays := fst (vt_files t), vw_verified_file := snd (vt_files t), vw_inputs := vt_inputs t\<rparr>"

definition resume_from :: "subscription_start \<Rightarrow> u64 \<Rightarrow> subscription_start" where
  "resume_from start last_decrypted =
     (if last_decrypted = 0 then start else Sequence (saturating_add_u64 last_decrypted 1))"

fun subscribe_attempts ::
  "'z viewer_env_scheme \<Rightarrow> ('d, 'y) h264_decoder_scheme \<Rightarrow> viewer_inputs \<Rightarrow> connection_profile \<Rightarrow> uuid
    \<Rightarrow> identity_public \<Rightarrow> subscription_start \<Rightarrow> u32 \<Rightarrow> connection_turn list \<Rightarrow> ('d, unit) viewing" where
  "subscribe_attempts E D I cp sid publisher start attempt [] = (\<lambda>s. ([], s, None))"
| "subscribe_attempts E D I cp sid publisher start attempt (t # ts) =
     task_then (task_modify (turn_begins t)) (\<lambda>_.
     task_then (task_get vw_last_decrypted) (\<lambda>before.
     task_then (task_try (subscribe_once E D I cp sid publisher (resume_from start before))) (\<lambda>result.
       case result of
         Inr _ \<Rightarrow> task_of (Ok ())
       | Inl e \<Rightarrow>
           task_then (task_get (\<lambda>s. if vw_last_decrypted s > before then 0 else attempt)) (\<lambda>attempt.
           task_then (show_event (EvStreamError sid (reconnect_delay attempt))) (\<lambda>_.
           task_then (task_modify (\<lambda>s. s\<lparr>vw_inputs := vt_refresh_inputs t\<rparr>)) (\<lambda>_.
           task_then (task_try (refresh E I cp)) (\<lambda>_.
             subscribe_attempts E D I cp sid publisher start (if attempt = - 1 then attempt else attempt + 1) ts)))))))"

definition subscribe ::
  "'z viewer_env_scheme \<Rightarrow> ('d, 'y) h264_decoder_scheme \<Rightarrow> viewer_inputs \<Rightarrow> connection_profile \<Rightarrow> uuid
    \<Rightarrow> identity_public \<Rightarrow> subscription_start \<Rightarrow> connection_turn list \<Rightarrow> ('d, unit) viewing" where
  "subscribe E D I cp sid publisher start ts =
     task_then (task_modify (\<lambda>s. s\<lparr>vw_last_decrypted := 0\<rparr>)) (\<lambda>_.
       subscribe_attempts E D I cp sid publisher start 0 ts)"

section \<open>Commands\<close>

datatype viewer_command =
    CmdRefresh
  | CmdSubscribe uuid identity_public subscription_start
  | CmdPair uuid identity_public
  | CmdConfirmPairing array32 bool

definition refresh_all ::
  "'z viewer_env_scheme \<Rightarrow> rust_str list \<Rightarrow> viewer_inputs \<Rightarrow> connection_profile \<Rightarrow> viewer_input list
    \<Rightarrow> ('d, unit) viewing" where
  "refresh_all E words I cp inputs =
     task_then (task_try (refresh E I cp)) (\<lambda>r.
     task_then (case r of Inl _ \<Rightarrow> show_event (EvStatus ''Connection failed'') | Inr _ \<Rightarrow> task_of (Ok ())) (\<lambda>_.
     task_then (task_modify (\<lambda>s. s\<lparr>vw_inputs := inputs\<rparr>)) (\<lambda>_.
     task_then (task_try (refresh_pairing E words I cp)) (\<lambda>r.
       case r of Inl _ \<Rightarrow> show_event (EvStatus ''Pairing refresh failed'') | Inr _ \<Rightarrow> task_of (Ok ())))))"

definition pair_command ::
  "'z viewer_env_scheme \<Rightarrow> viewer_inputs \<Rightarrow> connection_profile \<Rightarrow> uuid \<Rightarrow> identity_public \<Rightarrow> ('d, unit) viewing" where
  "pair_command E I cp sid publisher =
     task_then (task_try (begin_pairing E I cp sid publisher)) (\<lambda>r.
       case r of
         Inl _ \<Rightarrow> show_event (EvStatus ''Pairing failed'')
       | Inr request \<Rightarrow>
           (case pair_request_id E request of
              Inl _ \<Rightarrow> task_of (Ok ())
            | Inr rid \<Rightarrow>
                task_then (task_modify (\<lambda>s. s\<lparr>vw_pending := AList.update rid (request, None) (vw_pending s)\<rparr>)) (\<lambda>_.
                task_then (task_try (save_pairings E I)) (\<lambda>_.
                  show_event (EvStatus ''Pairing request queued; waiting for publisher'')))))"

definition confirm_command ::
  "'z viewer_env_scheme \<Rightarrow> viewer_inputs \<Rightarrow> connection_profile \<Rightarrow> array32 \<Rightarrow> bool \<Rightarrow> ('d, unit) viewing" where
  "confirm_command E I cp rid approved =
     (if approved
      then task_then (task_get (\<lambda>s. map_of (vw_pending s) rid)) (\<lambda>found.
           task_then (task_try (case found of
                                  None \<Rightarrow> task_of (Err (VeRefused ''pairing request is no longer pending''))
                                | Some (request, None) \<Rightarrow> task_of (Err (VeRefused ''publisher offer is not available''))
                                | Some (request, Some offer) \<Rightarrow> confirm_pairing E I cp request offer)) (\<lambda>r.
             show_event (EvStatus (case r of Inr _ \<Rightarrow> ''Viewer confirmation queued; waiting for publisher approval''
                                           | Inl _ \<Rightarrow> ''Pair confirmation failed''))))
      else task_then (task_modify (\<lambda>s. s\<lparr>vw_pending := AList.delete rid (vw_pending s)\<rparr>)) (\<lambda>_.
           task_then (task_try (save_pairings E I)) (\<lambda>_. show_event (EvStatus ''Pairing comparison rejected''))))"

definition subscribe_command ::
  "uuid \<Rightarrow> identity_public \<Rightarrow> subscription_start \<Rightarrow> ('d, unit) viewing" where
  "subscribe_command sid publisher start =
     task_then (task_get (\<lambda>s. sid \<in> set (vw_subscriptions s))) (\<lambda>running.
     task_then (task_run (if running then [Aborted sid] else [], Some (Ok ()))) (\<lambda>_.
     task_then (task_run ([Spawned sid publisher start], Some (Ok ()))) (\<lambda>_.
       task_modify (\<lambda>s. s\<lparr>vw_subscriptions := List.insert sid (vw_subscriptions s)\<rparr>))))"

text \<open>Each command with what the relay sends while it is handled\<close>

definition handle_command ::
  "'z viewer_env_scheme \<Rightarrow> rust_str list \<Rightarrow> viewer_inputs \<Rightarrow> connection_profile
    \<Rightarrow> viewer_command \<times> viewer_input list \<times> viewer_input list \<Rightarrow> ('d, unit) viewing" where
  "handle_command E words I cp = (\<lambda>(command, inputs, more_inputs).
     task_then (task_modify (\<lambda>s. s\<lparr>vw_inputs := inputs\<rparr>)) (\<lambda>_.
       case command of
         CmdRefresh \<Rightarrow> refresh_all E words I cp more_inputs
       | CmdSubscribe sid publisher start \<Rightarrow> subscribe_command sid publisher start
       | CmdPair sid publisher \<Rightarrow> pair_command E I cp sid publisher
       | CmdConfirmPairing rid approved \<Rightarrow> confirm_command E I cp rid approved))"

definition command_worker ::
  "'z viewer_env_scheme \<Rightarrow> rust_str list \<Rightarrow> viewer_inputs \<Rightarrow> connection_profile
    \<Rightarrow> (viewer_command \<times> viewer_input list \<times> viewer_input list) list \<Rightarrow> ('d, unit) viewing" where
  "command_worker E words I cp commands =
     task_then (view_ask (vi_file_fault I)) (\<lambda>fault.
     task_then (task_get (\<lambda>s. load_pairing_state E
         (read_private MAX_PAIRING_STATE_BYTES fault (vw_pairing_file s)))) (\<lambda>loaded.
     task_then (case loaded of
                  Inr _ \<Rightarrow> task_of (Ok ())
                | Inl _ \<Rightarrow> show_event (EvStatus ''Pending pairing state is unusable'')) (\<lambda>_.
     task_then (task_modify (\<lambda>s. s\<lparr>vw_pending := (case loaded of Inr pending \<Rightarrow> pending | Inl _ \<Rightarrow> []),
         vw_keys := empty_cache, vw_subscriptions := []\<rparr>)) (\<lambda>_.
       task_each (handle_command E words I cp) commands))))"

end
