(* ===== verification/KeyCache.thy ===== *)
theory KeyCache
  imports Viewer
begin

text \<open>
  The viewer's cache of content keys: it never holds more than its bound, inserting always returns, and
  what it drops are the groups inserted first.
\<close>

definition cache_ok :: "key_cache \<Rightarrow> bool" where
  "cache_ok c \<longleftrightarrow> distinct (map fst (kc_keys c)) \<and> distinct (kc_order c) \<and>
     set (kc_order c) = fst ` set (kc_keys c) \<and> length (kc_keys c) \<le> MAX_CACHED_KEYS"

lemma cache_ok_empty: "cache_ok empty_cache"
  by (simp add: cache_ok_def empty_cache_def)

lemma order_length:
  assumes "distinct (map fst keys)" and "distinct order" and "set order = fst ` set keys"
  shows "length order = length keys"
proof -
  have "length order = card (set (map fst keys))" using assms(2,3) by (metis distinct_card set_map)
  then show ?thesis using distinct_card [OF assms(1)] by simp
qed

lemma length_delete: "distinct (map fst keys) \<Longrightarrow> g \<in> fst ` set keys \<Longrightarrow> Suc (length (AList.delete g keys)) = length keys"
proof (induction keys)
  case (Cons kv keys)
  then show ?case
    by (cases kv) auto
qed simp

text \<open>One more key than the bound: exactly the oldest goes.\<close>

lemma evict_steps:
  assumes "distinct (map fst keys)" and "distinct order" and "set order = fst ` set keys"
    and "length keys \<le> Suc MAX_CACHED_KEYS"
  shows "evict keys order =
    Some (if length keys \<le> MAX_CACHED_KEYS then \<lparr>kc_keys = keys, kc_order = order\<rparr>
          else \<lparr>kc_keys = AList.delete (hd order) keys, kc_order = tl order\<rparr>)"
proof (cases order)
  case Nil
  with assms(3) show ?thesis by simp
next
  case (Cons g order')
  have "g \<in> fst ` set keys" using assms(3) Cons by auto
  then have "length (AList.delete g keys) \<le> MAX_CACHED_KEYS" using length_delete [OF assms(1)] assms(4) by fastforce
  then show ?thesis using Cons by (cases order') auto
qed

lemma map_of_None_fst: "map_of keys g = None \<longleftrightarrow> g \<notin> fst ` set keys"
  by (rule map_of_eq_None_iff)

lemma length_update:
  "length (AList.update g k keys) = (if map_of keys g = None then Suc (length keys) else length keys)"
  by (induction keys) auto

text \<open>What one insertion leaves\<close>

lemma cache_insert_ok:
  assumes "cache_ok c"
  obtains c' where "cache_insert g k c = Some c'" and "cache_ok c'" and "cache_get c' g = Some k"
    and "kc_order c' = (if g \<in> set (kc_order c) then kc_order c
                        else if length (kc_order c) < MAX_CACHED_KEYS then kc_order c @ [g]
                        else tl (kc_order c) @ [g])"
    and "\<forall>h. h \<noteq> g \<longrightarrow> cache_get c' h = (if h \<in> set (kc_order c') then cache_get c h else None)"
proof -
  let ?keys = "AList.update g k (kc_keys c)"
  let ?order = "if map_of (kc_keys c) g = None then kc_order c @ [g] else kc_order c"
  note ok = assms [unfolded cache_ok_def]
  have keys: "distinct (map fst ?keys)" using ok by (simp add: distinct_update)
  have order: "distinct ?order" "set ?order = fst ` set ?keys"
    using ok by (auto simp: map_of_None_fst dom_update)
  have len: "length (kc_order c) = length (kc_keys c)" using ok by (intro order_length) auto
  have bound: "length ?keys \<le> Suc MAX_CACHED_KEYS" using ok by (simp add: length_update)
  have known: "map_of (kc_keys c) g = None \<longleftrightarrow> g \<notin> set (kc_order c)" using ok by (simp add: map_of_None_fst)
  have others: "\<And>h. h \<notin> set (kc_order c) \<Longrightarrow> cache_get c h = None"
    using ok by (auto simp: cache_get_def map_of_None_fst)
  show ?thesis
  proof (cases "length ?keys \<le> MAX_CACHED_KEYS")
    case True
    let ?c = "\<lparr>kc_keys = ?keys, kc_order = ?order\<rparr>"
    show ?thesis
    proof (rule that [of ?c])
      show "cache_insert g k c = Some ?c"
        unfolding cache_insert_def using evict_steps [OF keys order bound] True by simp
      show "cache_ok ?c" unfolding cache_ok_def using keys order True by simp
      show "cache_get ?c g = Some k" by (simp add: cache_get_def update_conv')
      show "kc_order ?c = (if g \<in> set (kc_order c) then kc_order c
              else if length (kc_order c) < MAX_CACHED_KEYS then kc_order c @ [g] else tl (kc_order c) @ [g])"
        using True known len by (auto simp: length_update split: if_splits)
      show "\<forall>h. h \<noteq> g \<longrightarrow> cache_get ?c h = (if h \<in> set (kc_order ?c) then cache_get c h else None)"
        using others known by (auto simp: cache_get_def update_conv')
    qed
  next
    case False
    then have new: "map_of (kc_keys c) g = None" and full: "length (kc_order c) = MAX_CACHED_KEYS"
      using ok len by (auto simp: length_update split: if_splits)
    then have nonempty: "kc_order c \<noteq> []" by (auto simp: MAX_CACHED_KEYS_def)
    then obtain oldest rest where o: "kc_order c = oldest # rest" by (cases "kc_order c") auto
    let ?c = "\<lparr>kc_keys = AList.delete oldest ?keys, kc_order = rest @ [g]\<rparr>"
    have "oldest \<noteq> g" using known new o by auto
    show ?thesis
    proof (rule that [of ?c])
      show "cache_insert g k c = Some ?c"
        unfolding cache_insert_def using evict_steps [OF keys order bound] False new o by simp
      have "oldest \<in> fst ` set ?keys" using order(2) new o by auto
      then have "length (AList.delete oldest ?keys) \<le> MAX_CACHED_KEYS"
        using length_delete [OF keys] bound by fastforce
      moreover have "fst ` set (AList.delete oldest ?keys) = set (rest @ [g])"
      proof -
        have "fst ` set (AList.delete oldest ?keys) = set (map fst (AList.delete oldest ?keys))" by simp
        also have "\<dots> = fst ` set ?keys - {oldest}" by (simp only: delete_keys set_removeAll set_map)
        also have "\<dots> = set (oldest # rest @ [g]) - {oldest}" using order(2) new o by simp
        finally show ?thesis using order(1) new o by auto
      qed
      moreover have "distinct (map fst (AList.delete oldest ?keys))" using keys by (rule distinct_delete)
      moreover have "distinct (rest @ [g])" using order(1) new o by simp
      ultimately show "cache_ok ?c" by (simp add: cache_ok_def)
      show "cache_get ?c g = Some k" using \<open>oldest \<noteq> g\<close> by (simp add: cache_get_def delete_conv' update_conv')
      show "kc_order ?c = (if g \<in> set (kc_order c) then kc_order c
              else if length (kc_order c) < MAX_CACHED_KEYS then kc_order c @ [g] else tl (kc_order c) @ [g])"
        using full known new o by simp
      show "\<forall>h. h \<noteq> g \<longrightarrow> cache_get ?c h = (if h \<in> set (kc_order ?c) then cache_get c h else None)"
        using others o ok by (auto simp: cache_get_def delete_conv' update_conv')
    qed
  qed
qed

text \<open>A sequence of insertions, and the keys that are not dropped while few enough groups were seen\<close>

lemma insert_keys_ok:
  assumes "cache_ok c"
  shows "\<exists>c'. insert_keys kvs c = Some c' \<and> cache_ok c' \<and>
    (kvs \<noteq> [] \<longrightarrow> cache_get c' (fst (last kvs)) = Some (snd (last kvs))) \<and>
    (card (set (kc_order c) \<union> fst ` set kvs) \<le> MAX_CACHED_KEYS \<longrightarrow>
       set (kc_order c') = set (kc_order c) \<union> fst ` set kvs \<and>
       cache_get c' = cache_get c ++ map_of (rev kvs))"
  using assms
proof (induction kvs arbitrary: c)
  case Nil
  then show ?case by simp
next
  case (Cons kv kvs)
  obtain g k where kv: "kv = (g, k)" by (cases kv)
  obtain c1 where c1: "cache_insert g k c = Some c1" "cache_ok c1" "cache_get c1 g = Some k"
    "kc_order c1 = (if g \<in> set (kc_order c) then kc_order c
                    else if length (kc_order c) < MAX_CACHED_KEYS then kc_order c @ [g] else tl (kc_order c) @ [g])"
    "\<forall>h. h \<noteq> g \<longrightarrow> cache_get c1 h = (if h \<in> set (kc_order c1) then cache_get c h else None)"
    by (rule cache_insert_ok [OF Cons.prems, where g = g and k = k])
  obtain c' where c': "insert_keys kvs c1 = Some c'" "cache_ok c'"
    "kvs \<noteq> [] \<Longrightarrow> cache_get c' (fst (last kvs)) = Some (snd (last kvs))"
    "card (set (kc_order c1) \<union> fst ` set kvs) \<le> MAX_CACHED_KEYS \<Longrightarrow>
       set (kc_order c') = set (kc_order c1) \<union> fst ` set kvs \<and> cache_get c' = cache_get c1 ++ map_of (rev kvs)"
    using Cons.IH [OF c1(2)] by blast
  show ?case
  proof (intro exI [of _ c'] conjI impI)
    show "insert_keys (kv # kvs) c = Some c'" using c1(1) c'(1) kv by simp
    show "cache_ok c'" by (rule c'(2))
    show "cache_get c' (fst (last (kv # kvs))) = Some (snd (last (kv # kvs)))"
      using c'(1,3) c1(3) kv by (cases kvs) auto
    let ?seen = "set (kc_order c) \<union> fst ` set (kv # kvs)"
    assume few: "card ?seen \<le> MAX_CACHED_KEYS"
    have "length (kc_order c) = card (set (kc_order c))"
      using Cons.prems distinct_card [of "kc_order c"] by (simp add: cache_ok_def)
    moreover have "card (insert g (set (kc_order c))) \<le> card ?seen" using kv by (intro card_mono) auto
    ultimately have "g \<notin> set (kc_order c) \<Longrightarrow> length (kc_order c) < MAX_CACHED_KEYS" using few by simp
    then have order: "set (kc_order c1) = insert g (set (kc_order c))" using c1(4) by auto
    then have "set (kc_order c1) \<union> fst ` set kvs = ?seen" using kv by auto
    with c'(4) few have 1: "set (kc_order c') = ?seen" "cache_get c' = cache_get c1 ++ map_of (rev kvs)" by simp_all
    have "cache_get c1 = (cache_get c)(g \<mapsto> k)"
    proof
      fix h
      have "h \<notin> set (kc_order c) \<Longrightarrow> cache_get c h = None"
        using Cons.prems by (auto simp: cache_ok_def cache_get_def map_of_None_fst)
      then show "cache_get c1 h = ((cache_get c)(g \<mapsto> k)) h" using c1(3,5) order by auto
    qed
    with 1 kv show "cache_get c' = cache_get c ++ map_of (rev (kv # kvs))" by simp
    show "set (kc_order c') = ?seen" by (rule 1(1))
  qed
qed

text \<open>C31: Whatever keys the viewer's tasks insert into the shared cache, every insertion returns (the eviction
  loop always finds an oldest group to drop), the cache never holds more than its bound, the key inserted
  last can be looked up, and as long as no more groups than the bound were seen, a lookup returns the key
  inserted last for each group and nothing for any other.\<close>

theorem key_cache_bounded:
  "\<exists>c. insert_keys kvs empty_cache = Some c \<and> length (kc_keys c) \<le> MAX_CACHED_KEYS \<and>
     length (kc_order c) = length (kc_keys c) \<and>
     (kvs \<noteq> [] \<longrightarrow> cache_get c (fst (last kvs)) = Some (snd (last kvs))) \<and>
     (card (fst ` set kvs) \<le> MAX_CACHED_KEYS \<longrightarrow> cache_get c = map_of (rev kvs))"
proof -
  obtain c where c: "insert_keys kvs empty_cache = Some c" "cache_ok c"
    "kvs \<noteq> [] \<Longrightarrow> cache_get c (fst (last kvs)) = Some (snd (last kvs))"
    "card (set (kc_order empty_cache) \<union> fst ` set kvs) \<le> MAX_CACHED_KEYS \<Longrightarrow>
       set (kc_order c) = set (kc_order empty_cache) \<union> fst ` set kvs \<and>
       cache_get c = cache_get empty_cache ++ map_of (rev kvs)"
    using insert_keys_ok [OF cache_ok_empty, of kvs] by blast
  have "length (kc_order c) = length (kc_keys c)" using c(2) by (intro order_length) (simp_all add: cache_ok_def)
  moreover have "cache_get empty_cache = Map.empty" by (simp add: cache_get_def empty_cache_def fun_eq_iff)
  ultimately show ?thesis using c by (auto simp: cache_ok_def empty_cache_def)
qed

definition example_viewer_key :: viewer_key where
  "example_viewer_key = \<lparr>gk_stream_id = 1, gk_epoch_id = 2, gk_key_group = 3, gk_key_id = 4\<rparr>"

text \<open>Two keys for one group and one for another\<close>

theorem key_cache_bounded_witness:
  "\<exists>c. insert_keys [(example_viewer_key, 5), (example_viewer_key\<lparr>gk_key_group := 4\<rparr>, 6), (example_viewer_key, 7)]
         empty_cache = Some c \<and>
     length (kc_keys c) \<le> MAX_CACHED_KEYS \<and> cache_get c example_viewer_key = Some 7 \<and>
     cache_get c (example_viewer_key\<lparr>gk_key_group := 4\<rparr>) = Some 6"
proof -
  let ?kvs = "[(example_viewer_key, 5), (example_viewer_key\<lparr>gk_key_group := 4\<rparr>, 6), (example_viewer_key, 7)]
    :: (viewer_key \<times> array32) list"
  have "card (fst ` set ?kvs) \<le> MAX_CACHED_KEYS"
    by (rule order_trans [OF card_image_le]) (simp_all add: MAX_CACHED_KEYS_def card_insert_if)
  with key_cache_bounded [of ?kvs] show ?thesis
    by (auto simp: example_viewer_key_def)
qed

end
