(* ===== verification/PlaybackProperties.thy ===== *)
theory PlaybackProperties
  imports Playback KeyCache
begin

text \<open>
  What a subscription shows.  The reference is decoding the received objects in their order, each with its
  key at hand; the viewer's queue of objects whose key is late, the shared cache and the other tasks
  change nothing of what is shown, only when.
\<close>

section \<open>Decoding is local\<close>

text \<open>Decoding reads and writes the decoder and the source size only.\<close>

definition codec_part :: "'d viewer_world \<Rightarrow> 'd \<times> (u32 \<times> u32) option" where
  "codec_part s = (vw_decoder s, vw_source_size s)"

definition with_codec :: "'d \<times> (u32 \<times> u32) option \<Rightarrow> 'd viewer_world \<Rightarrow> 'd viewer_world" where
  "with_codec p s = s\<lparr>vw_decoder := fst p, vw_source_size := snd p\<rparr>"

lemma codec_part_simps [simp]:
  "codec_part (with_codec p s) = p" "with_codec p (with_codec q s) = with_codec p s" "with_codec (codec_part s) s = s"
  by (simp_all add: codec_part_def with_codec_def)

lemma with_codec_fields [simp]:
  "vw_objects (with_codec p s) = vw_objects s" "vw_object_bytes (with_codec p s) = vw_object_bytes s"
  "vw_keys (with_codec p s) = vw_keys s" "vw_guard (with_codec p s) = vw_guard s"
  by (simp_all add: with_codec_def)

definition codec_local :: "('d, 'a) viewing \<Rightarrow> bool" where
  "codec_local t \<longleftrightarrow> (\<exists>f. \<forall>s. t s = (case f (codec_part s) of (out, p, r) \<Rightarrow> (out, with_codec p s, Some r)))"

lemma local_of: "codec_local (task_of r)"
  unfolding codec_local_def by (rule exI [of _ "\<lambda>p. ([], p, r)"]) (simp add: task_of_def task_run_def run_of_def)

lemma local_show: "codec_local (show_event e)"
  unfolding codec_local_def by (rule exI [of _ "\<lambda>p. ([Shown e], p, Ok ())"]) (simp add: show_event_def task_run_def)

lemma local_get:
  assumes "\<And>s. f s = g (codec_part s)"
  shows "codec_local (task_get f)"
  unfolding codec_local_def by (rule exI [of _ "\<lambda>p. ([], p, Ok (g p))"]) (simp add: task_get_def assms)

lemma local_modify:
  assumes "\<And>s. f s = with_codec (g (codec_part s)) s"
  shows "codec_local (task_modify f)"
  unfolding codec_local_def by (rule exI [of _ "\<lambda>p. ([], g p, Ok ())"]) (simp add: task_modify_def assms)

lemma local_then:
  assumes "codec_local m" and "\<And>x. codec_local (k x)"
  shows "codec_local (task_then m k)"
proof -
  obtain f where f: "\<And>s. m s = (case f (codec_part s) of (out, p, r) \<Rightarrow> (out, with_codec p s, Some r))"
    using assms(1) unfolding codec_local_def by blast
  obtain g where g: "\<And>x s. k x s = (case g x (codec_part s) of (out, p, r) \<Rightarrow> (out, with_codec p s, Some r))"
    using assms(2) unfolding codec_local_def by metis
  let ?h = "\<lambda>p. case f p of (out, p1, r) \<Rightarrow>
    (case r of Inl e \<Rightarrow> (out, p1, Inl e) | Inr x \<Rightarrow> (case g x p1 of (out', p2, r') \<Rightarrow> (out @ out', p2, r')))"
  have "task_then m k s = (case ?h (codec_part s) of (out, p, r) \<Rightarrow> (out, with_codec p s, Some r))" for s
    by (simp add: task_then_def f g split: prod.splits sum.splits)
  then show ?thesis unfolding codec_local_def by (intro exI [of _ ?h] allI)
qed

lemma local_each: "(\<And>x. codec_local (f x)) \<Longrightarrow> codec_local (task_each f xs)"
  by (induction xs) (simp_all add: local_of local_then)

lemma local_decode_units: "codec_local (decode_units D h us)"
proof (induction us)
  case Nil
  show ?case by (simp add: local_of)
next
  case (Cons u us)
  let ?rest = "\<lambda>(r, d). task_then (task_modify (\<lambda>s. s\<lparr>vw_decoder := d\<rparr>)) (\<lambda>_.
    task_then (task_of r) (\<lambda>picture.
    task_then (case picture of
                 None \<Rightarrow> task_of (Ok ())
               | Some (width, height, rgb) \<Rightarrow>
                   show_event (EvFrame \<lparr>fr_stream_id = h_stream_id h, fr_width = width, fr_height = height,
                     fr_rgb = rgb, fr_sequence = h_sequence h, fr_key_group = h_key_group h\<rparr>)) (\<lambda>_.
      decode_units D h us)))"
  have "decode_units D h (u # us) = task_then (task_get (\<lambda>s. dec_decode D (vw_decoder s) u)) ?rest"
    by (rule ext) (simp add: task_then_def task_get_def split: prod.splits)
  moreover have "codec_local (task_get (\<lambda>s. dec_decode D (vw_decoder s) u))"
    by (rule local_get [where g = "\<lambda>p. dec_decode D (fst p) u"]) (simp add: codec_part_def)
  moreover have "codec_local (task_modify (\<lambda>s. s\<lparr>vw_decoder := d\<rparr>))" for d
    by (rule local_modify [where g = "\<lambda>p. (d, snd p)"]) (simp add: codec_part_def with_codec_def)
  ultimately show ?case
    by (auto intro!: local_then local_of local_show Cons split: prod.splits option.splits)
qed

lemma local_decode_cursor: "codec_local (decode_cursor h plaintext)"
  unfolding decode_cursor_def comp_def
  by (intro local_then local_get [where g = snd] local_of)
    (auto simp: codec_part_def intro!: local_then local_of local_each local_show split: prod.splits)

lemma local_source_size: "codec_local (task_modify (\<lambda>s. s\<lparr>vw_source_size := z\<rparr>))"
  by (rule local_modify [where g = "\<lambda>p. (fst p, z)"]) (simp add: codec_part_def with_codec_def)

lemma local_decode_object: "codec_local (decode_object E D publisher obj key)"
  unfolding decode_object_def Let_def
  by (auto intro!: local_then local_of local_decode_units local_decode_cursor local_source_size
      split: prod.splits native_object_kind.splits option.splits codec_id.splits)

text \<open>A local task behaves alike in states with the same decoder and source size.\<close>

lemma local_elim:
  assumes "codec_local t" and "codec_part s = codec_part s2" and "t s = (out, s', r)"
  shows "t s2 = (out, with_codec (codec_part s') s2, r)" and "s' = with_codec (codec_part s') s" and "r \<noteq> None"
proof -
  obtain f where f: "\<And>s. t s = (case f (codec_part s) of (out, p, r) \<Rightarrow> (out, with_codec p s, Some r))"
    using assms(1) unfolding codec_local_def by blast
  show "t s2 = (out, with_codec (codec_part s') s2, r)" "s' = with_codec (codec_part s') s" "r \<noteq> None"
    using assms(2,3) by (auto simp: f split: prod.splits)
qed

section \<open>Decoding in order\<close>

abbreviation decode_keyed :: "'z viewer_env_scheme \<Rightarrow> ('d, 'y) h264_decoder_scheme \<Rightarrow> identity_public
    \<Rightarrow> native_object \<times> array32 \<Rightarrow> ('d, unit) viewing" where
  "decode_keyed E D publisher ok \<equiv> decode_object E D publisher (fst ok) (snd ok)"

definition is_media :: "viewer_output \<Rightarrow> bool" where
  "is_media out = (case out of Shown (EvFrame _) \<Rightarrow> True | Shown (EvCursor _) \<Rightarrow> True | _ \<Rightarrow> False)"

lemma is_media_simps [simp]:
  "is_media (Shown (EvFrame f))" "is_media (Shown (EvCursor c))" "\<not> is_media (Shown (EvStreamStatus sid t))"
  "\<not> is_media (Sent m)"
  by (simp_all add: is_media_def)

lemma writes_get: "task_writes P (task_get f)"
  by (simp add: task_writes_def task_get_def)

lemma writes_modify: "task_writes P (task_modify f)"
  by (simp add: task_writes_def task_modify_def)

lemma writes_each: "(\<And>x. task_writes P (f x)) \<Longrightarrow> task_writes P (task_each f xs)"
  by (induction xs) (simp_all add: writes_of writes_then)

lemma writes_show: "P (Shown e) \<Longrightarrow> task_writes P (show_event e)"
  unfolding show_event_def by (rule writes_run) simp

lemma writes_decode_units: "task_writes is_media (decode_units D h us)"
proof (induction us)
  case (Cons u us)
  have "task_writes is_media (task_then (task_modify (\<lambda>s. s\<lparr>vw_decoder := d\<rparr>)) (\<lambda>_.
    task_then (task_of r) (\<lambda>picture.
    task_then (case picture of
                 None \<Rightarrow> task_of (Ok ())
               | Some (width, height, rgb) \<Rightarrow>
                   show_event (EvFrame \<lparr>fr_stream_id = h_stream_id h, fr_width = width, fr_height = height,
                     fr_rgb = rgb, fr_sequence = h_sequence h, fr_key_group = h_key_group h\<rparr>)) (\<lambda>_.
      decode_units D h us))))" for d r
    by (auto intro!: writes_then writes_of writes_modify writes_show Cons split: option.splits)
  then show ?case unfolding task_writes_def by (simp split: prod.splits)
qed (simp add: writes_of)

lemma writes_decode_cursor: "task_writes is_media (decode_cursor h plaintext)"
  unfolding decode_cursor_def comp_def
  by (auto intro!: writes_then writes_get writes_of writes_each writes_show simp: cursor_shown_def split: prod.splits)

lemma writes_decode_object: "task_writes is_media (decode_object E D publisher obj key)"
  unfolding decode_object_def Let_def
  by (auto intro!: writes_then writes_of writes_decode_units writes_decode_cursor writes_modify
      split: prod.splits native_object_kind.splits option.splits codec_id.splits)

lemma decode_object_media: "decode_object E D publisher obj key s = (out, s', r) \<Longrightarrow> filter is_media out = out"
  using writes_decode_object [of E D publisher obj key] unfolding task_writes_def
  by (metis filter_True fst_conv)

definition failed :: "('e + 'a) option \<Rightarrow> bool" where
  "failed r \<longleftrightarrow> (\<exists>e. r = Some (Err e))"

lemma failed_simps [simp]: "\<not> failed None" "\<not> failed (Some (Ok x))" "failed (Some (Err e))"
  by (simp_all add: failed_def)

text \<open>The queue within its limits, counted exactly\<close>

definition queue_ok :: "'d viewer_world \<Rightarrow> bool" where
  "queue_ok s \<longleftrightarrow> length (vw_objects s) \<le> MAX_PENDING_OBJECTS \<and> vw_object_bytes s \<le> MAX_PENDING_CIPHERTEXT_BYTES \<and>
     vw_object_bytes s = (\<Sum>obj\<leftarrow>vw_objects s. length (o_ciphertext obj))"

text \<open>Draining decodes a prefix of the queue, each object with the key the cache has for it.\<close>

lemma same_objects: "vw_objects s = objs \<Longrightarrow> with_codec (codec_part s) (s\<lparr>vw_objects := objs\<rparr>) = s"
  by (cases s) (simp add: with_codec_def codec_part_def)

lemma drain_objects_decodes:
  assumes "drain_objects E D publisher objs latest s = (out, s', r)" and "vw_objects s = objs"
  shows "\<exists>done rest t q. objs = map fst done @ rest \<and> task_each (decode_keyed E D publisher) done s = (out, t, Some q) \<and>
    filter is_media out = out \<and> vw_guard s' = vw_guard s \<and> r \<noteq> None \<and>
    (\<forall>ok\<in>set done. cache_get (vw_keys s) (for_object (fst ok)) = Some (snd ok)) \<and>
    (case q of Inl e \<Rightarrow> r = Some (Err e)
     | Inr _ \<Rightarrow> r = Some (Ok (if done = [] then latest else Some (h_sequence (o_header (fst (last done)))))) \<and>
         s' = with_codec (codec_part t) (s\<lparr>vw_objects := rest,
           vw_object_bytes := vw_object_bytes s - (\<Sum>obj\<leftarrow>map fst done. length (o_ciphertext obj))\<rparr>))"
  using assms
proof (induction objs arbitrary: latest s out)
  case Nil
  then show ?case
    by (intro exI [of _ "[]"]) (auto simp: task_of_def task_run_def run_of_def same_objects)
next
  case (Cons obj objs)
  show ?case
  proof (cases "cache_get (vw_keys s) (for_object obj)")
    case None
    with Cons.prems show ?thesis
      by (intro exI [of _ "[]"] exI [of _ "obj # objs"] exI [of _ s] exI [of _ "Ok ()"])
        (auto simp: task_then_def task_get_def task_of_def task_run_def run_of_def same_objects)
  next
    case (Some key)
    let ?s1 = "s\<lparr>vw_objects := objs, vw_object_bytes := vw_object_bytes s - length (o_ciphertext obj)\<rparr>"
    obtain out1 s2 r1 where d: "decode_object E D publisher obj key ?s1 = (out1, s2, r1)"
      by (metis prod_cases3)
    have part: "codec_part ?s1 = codec_part s" by (simp add: codec_part_def)
    note l = local_elim [OF local_decode_object part d]
    have media: "filter is_media out1 = out1" by (rule decode_object_media [OF d])
    show ?thesis
    proof (cases r1)
      case None
      with l(3) show ?thesis by simp
    next
      case r1: (Some q1)
      show ?thesis
      proof (cases q1)
        case (Inl e)
        with Cons.prems Some d r1 have "out = out1" "r = Some (Err e)" "s' = s2"
          by (simp_all add: task_then_def task_get_def task_modify_def)
        moreover have "vw_guard s2 = vw_guard s" by (subst l(2)) simp
        ultimately show ?thesis using l(1) media r1 Inl Some
          by (intro exI [of _ "[(obj, key)]"] exI [of _ objs]) (simp add: task_then_def)
      next
        case (Inr u)
        obtain out2 where rest: "drain_objects E D publisher objs (Some (h_sequence (o_header obj))) s2 = (out2, s', r)"
          and out: "out = out1 @ out2"
          using Cons.prems Some d r1 Inr
          by (auto simp: task_then_def task_get_def task_modify_def split: prod.splits)
        have s2: "vw_objects s2 = objs" "vw_keys s2 = vw_keys s" "vw_guard s2 = vw_guard s"
          "vw_object_bytes s2 = vw_object_bytes s - length (o_ciphertext obj)"
          by (subst l(2), simp)+
        obtain ds rs t2 q2 where IH: "objs = map fst ds @ rs"
          "task_each (decode_keyed E D publisher) ds s2 = (out2, t2, Some q2)" "filter is_media out2 = out2" "vw_guard s' = vw_guard s2" "r \<noteq> None"
          "\<forall>ok\<in>set ds. cache_get (vw_keys s2) (for_object (fst ok)) = Some (snd ok)"
          "case q2 of Inl e \<Rightarrow> r = Some (Err e)
           | Inr _ \<Rightarrow> r = Some (Ok (if ds = [] then Some (h_sequence (o_header obj))
                                    else Some (h_sequence (o_header (fst (last ds)))))) \<and>
               s' = with_codec (codec_part t2) (s2\<lparr>vw_objects := rs,
                 vw_object_bytes := vw_object_bytes s2 - (\<Sum>obj\<leftarrow>map fst ds. length (o_ciphertext obj))\<rparr>)"
          using Cons.IH [OF rest s2(1)] by blast
        have here: "task_each (decode_keyed E D publisher) ds (with_codec (codec_part s2) s)
            = (out2, with_codec (codec_part t2) (with_codec (codec_part s2) s), Some q2)"
          by (rule local_elim(1) [OF local_each [OF local_decode_object] _ IH(2)]) simp
        have "task_each (decode_keyed E D publisher) ((obj, key) # ds) s
            = (out1 @ out2, with_codec (codec_part t2) s, Some q2)"
          using l(1) here r1 Inr by (simp add: task_then_def)
        moreover have "s2\<lparr>vw_objects := rs, vw_object_bytes := n\<rparr> = with_codec (codec_part s2) (s\<lparr>vw_objects := rs, vw_object_bytes := n\<rparr>)" for n
          by (subst l(2)) (simp add: with_codec_def)
        ultimately show ?thesis
          using IH out media Some s2 Inr
          by (intro exI [of _ "(obj, key) # ds"] exI [of _ rs]
              exI [of _ "with_codec (codec_part t2) s"] exI [of _ q2]) (auto split: sum.splits)
      qed
    qed
  qed
qed

section \<open>Playing a stream\<close>

abbreviation seq_of :: "native_object \<Rightarrow> u64" where
  "seq_of obj \<equiv> h_sequence (o_header obj)"

text \<open>During a session the cache holds keys from a set \<open>K\<close> and the guard is the stream's.\<close>

definition playing :: "(viewer_key \<times> array32) set \<Rightarrow> array32 \<Rightarrow> uuid \<Rightarrow> 'd viewer_world \<Rightarrow> bool" where
  "playing K pid sid s \<longleftrightarrow> set (kc_keys (vw_keys s)) \<subseteq> K \<and> cache_ok (vw_keys s) \<and>
     l_publisher_id (vw_guard s) = pid \<and> l_stream_id (vw_guard s) = sid"

text \<open>The objects \<open>xs\<close> arrive: those taken have increasing sequences, and what is shown is what decoding a
  prefix of the queued and taken objects shows; unless the session failed, all were taken and the rest
  is the new queue.\<close>

definition plays ::
  "'z viewer_env_scheme \<Rightarrow> ('d, 'y) h264_decoder_scheme \<Rightarrow> identity_public \<Rightarrow> (viewer_key \<times> array32) set \<Rightarrow> array32 \<Rightarrow> uuid
    \<Rightarrow> 'd viewer_world \<Rightarrow> native_object list \<Rightarrow> viewer_output list \<Rightarrow> 'd viewer_world \<Rightarrow> (viewer_error + 'a) option \<Rightarrow> bool" where
  "plays E D publisher K pid sid s xs out s' r \<longleftrightarrow>
     (\<exists>taken more done rest t q.
        xs = taken @ more \<and> vw_objects s @ taken = map fst done @ rest \<and>
        sorted_wrt (<) (map seq_of taken) \<and>
        (\<forall>obj\<in>set taken. l_last_sequence (vw_guard s) < seq_of obj \<and> seq_of obj \<le> l_last_sequence (vw_guard s') \<and>
           h_publisher_id (o_header obj) = pid \<and> h_stream_id (o_header obj) = sid) \<and>
        l_last_sequence (vw_guard s) \<le> l_last_sequence (vw_guard s') \<and>
        task_each (decode_keyed E D publisher) done s = (filter is_media out, t, Some q) \<and>
        (\<forall>ok\<in>set done. (for_object (fst ok), snd ok) \<in> K) \<and>
        (\<not> failed r \<longrightarrow> more = [] \<and> rest = vw_objects s' \<and> q = Ok () \<and> codec_part t = codec_part s' \<and>
           (queue_ok s \<longrightarrow> queue_ok s') \<and> playing K pid sid s'))"

lemma task_each_append:
  assumes "task_each f xs s = (out, t, Some (Ok ()))" and "task_each f ys t = (out', t', r)"
  shows "task_each f (xs @ ys) s = (out @ out', t', r)"
  using assms
proof (induction xs arbitrary: s out)
  case (Cons x xs)
  then show ?case
    by (auto simp: task_then_def split: prod.splits option.splits sum.splits)
qed (simp add: task_of_def task_run_def run_of_def)

lemma plays_then:
  assumes 1: "plays E D publisher K pid sid s xs out s1 (Some (Ok x))"
    and 2: "plays E D publisher K pid sid s1 ys out' s' r"
  shows "plays E D publisher K pid sid s (xs @ ys) (out @ out') s' r"
proof -
  from 1 obtain ds t where a: "vw_objects s @ xs = map fst ds @ vw_objects s1" "sorted_wrt (<) (map seq_of xs)"
    "\<forall>obj\<in>set xs. l_last_sequence (vw_guard s) < seq_of obj \<and> seq_of obj \<le> l_last_sequence (vw_guard s1) \<and>
       h_publisher_id (o_header obj) = pid \<and> h_stream_id (o_header obj) = sid"
    "l_last_sequence (vw_guard s) \<le> l_last_sequence (vw_guard s1)"
    "task_each (decode_keyed E D publisher) ds s = (filter is_media out, t, Some (Ok ()))"
    "\<forall>ok\<in>set ds. (for_object (fst ok), snd ok) \<in> K" "codec_part t = codec_part s1" "queue_ok s \<longrightarrow> queue_ok s1"
    unfolding plays_def by auto
  from 2 obtain taken more ds' rest t' q where b: "ys = taken @ more" "vw_objects s1 @ taken = map fst ds' @ rest"
    "sorted_wrt (<) (map seq_of taken)"
    "\<forall>obj\<in>set taken. l_last_sequence (vw_guard s1) < seq_of obj \<and> seq_of obj \<le> l_last_sequence (vw_guard s') \<and>
       h_publisher_id (o_header obj) = pid \<and> h_stream_id (o_header obj) = sid"
    "l_last_sequence (vw_guard s1) \<le> l_last_sequence (vw_guard s')"
    "task_each (decode_keyed E D publisher) ds' s1 = (filter is_media out', t', Some q)"
    "\<forall>ok\<in>set ds'. (for_object (fst ok), snd ok) \<in> K"
    "\<not> failed r \<longrightarrow> more = [] \<and> rest = vw_objects s' \<and> q = Ok () \<and> codec_part t' = codec_part s' \<and>
       (queue_ok s1 \<longrightarrow> queue_ok s') \<and> playing K pid sid s'"
    unfolding plays_def by (elim exE conjE) blast
  have "task_each (decode_keyed E D publisher) ds' t = (filter is_media out', with_codec (codec_part t') t, Some q)"
    by (rule local_elim(1) [OF local_each [OF local_decode_object] _ b(6)]) (simp add: a(7))
  from task_each_append [OF a(5) this]
  have each: "task_each (decode_keyed E D publisher) (ds @ ds') s
    = (filter is_media (out @ out'), with_codec (codec_part t') t, Some q)" by simp
  have order: "sorted_wrt (<) (map seq_of (xs @ taken))"
    using a(2,3) b(3,4) by (fastforce simp: sorted_wrt_append intro: order.strict_trans1)
  have bounds: "\<forall>obj\<in>set (xs @ taken). l_last_sequence (vw_guard s) < seq_of obj \<and> seq_of obj \<le> l_last_sequence (vw_guard s') \<and>
      h_publisher_id (o_header obj) = pid \<and> h_stream_id (o_header obj) = sid"
    using a(3,4) b(4,5) by (auto intro: order_trans order.strict_trans1)
  show ?thesis
    unfolding plays_def
  proof (intro exI conjI)
    show "xs @ ys = (xs @ taken) @ more" using b(1) by simp
    show "vw_objects s @ xs @ taken = map fst (ds @ ds') @ rest" using a(1) b(2) by (metis append.assoc map_append)
    show "l_last_sequence (vw_guard s) \<le> l_last_sequence (vw_guard s')" using a(4) b(5) by (rule order_trans)
    show "\<forall>ok\<in>set (ds @ ds'). (for_object (fst ok), snd ok) \<in> K" using a(6) b(7) by auto
    show "\<not> failed r \<longrightarrow> more = [] \<and> rest = vw_objects s' \<and> q = Ok () \<and> codec_part (with_codec (codec_part t') t) = codec_part s' \<and>
        (queue_ok s \<longrightarrow> queue_ok s') \<and> playing K pid sid s'" using a(8) b(8) by simp
  qed (rule order bounds each)+
qed

lemma plays_result: "plays E D publisher K pid sid s xs out s' r \<Longrightarrow> failed r \<longleftrightarrow> failed r' \<Longrightarrow> plays E D publisher K pid sid s xs out s' r'"
  by (simp add: plays_def)

lemma plays_failed:
  assumes "plays E D publisher K pid sid s xs out s' r" and "failed r"
  shows "plays E D publisher K pid sid s (xs @ ys) out s' r"
proof -
  from assms(1) obtain taken more ds rest t q where p: "xs = taken @ more" "vw_objects s @ taken = map fst ds @ rest"
    "sorted_wrt (<) (map seq_of taken)"
    "\<forall>obj\<in>set taken. l_last_sequence (vw_guard s) < seq_of obj \<and> seq_of obj \<le> l_last_sequence (vw_guard s') \<and>
       h_publisher_id (o_header obj) = pid \<and> h_stream_id (o_header obj) = sid"
    "l_last_sequence (vw_guard s) \<le> l_last_sequence (vw_guard s')"
    "task_each (decode_keyed E D publisher) ds s = (filter is_media out, t, Some q)"
    "\<forall>ok\<in>set ds. (for_object (fst ok), snd ok) \<in> K"
    unfolding plays_def by (elim exE conjE) blast
  have "xs @ ys = taken @ (more @ ys)" using p(1) by simp
  with p(2-7) assms(2) show ?thesis unfolding plays_def by blast
qed

text \<open>Nothing arrives and nothing is decoded.\<close>

lemma plays_idle:
  assumes "playing K pid sid s'" and "codec_part s' = codec_part s" and "vw_objects s' = vw_objects s"
    and "vw_object_bytes s' = vw_object_bytes s" and "vw_guard s' = vw_guard s" and "filter is_media out = []"
  shows "plays E D publisher K pid sid s [] out s' r"
  unfolding plays_def using assms
  by (intro exI [of _ "[]"] exI [of _ "vw_objects s"] exI [of _ s] exI [of _ "Ok ()"])
    (auto simp: task_of_def task_run_def run_of_def queue_ok_def)

lemma plays_refused:
  assumes "l_last_sequence (vw_guard s) \<le> l_last_sequence (vw_guard s')"
  shows "plays E D publisher K pid sid s xs [] s' (Some (Err e))"
  unfolding plays_def using assms
  by (intro exI [of _ "[]"] exI [of _ xs] exI [of _ "[]"] exI [of _ "vw_objects s"] exI [of _ s] exI [of _ "Ok ()"])
    (auto simp: task_of_def task_run_def run_of_def)

lemma drain_and_note_plays:
  assumes "playing K pid sid s" and "drain_and_note E D publisher s = (out, s', r)"
  shows "plays E D publisher K pid sid s [] out s' r"
proof -
  obtain s1 r1 where d: "drain_objects E D publisher (vw_objects s) None s = (out, s1, r1)"
    and fail: "\<And>e. r1 = Some (Err e) \<Longrightarrow> r = Some (Err e) \<and> s' = s1"
    and ok: "\<And>n. r1 = Some (Ok n) \<Longrightarrow> \<exists>m. s' = s1\<lparr>vw_last_decrypted := m\<rparr>"
    using assms(2)
    by (auto simp: drain_and_note_def drain_pending_objects_def task_then_def task_get_def task_modify_def task_of_def
        task_run_def run_of_def split: prod.splits option.splits sum.splits) (metis viewer_world.surjective viewer_world.update_convs(13))
  from drain_objects_decodes [OF d refl] obtain ds rest t q where dr: "vw_objects s = map fst ds @ rest"
    "task_each (decode_keyed E D publisher) ds s = (out, t, Some q)" "filter is_media out = out" "vw_guard s1 = vw_guard s"
    "\<forall>ok\<in>set ds. cache_get (vw_keys s) (for_object (fst ok)) = Some (snd ok)"
    "case q of Inl e \<Rightarrow> r1 = Some (Err e)
     | Inr _ \<Rightarrow> r1 = Some (Ok (if ds = [] then None else Some (seq_of (fst (last ds))))) \<and>
         s1 = with_codec (codec_part t) (s\<lparr>vw_objects := rest,
           vw_object_bytes := vw_object_bytes s - (\<Sum>obj\<leftarrow>map fst ds. length (o_ciphertext obj))\<rparr>)"
    by blast
  have keys: "\<forall>ok\<in>set ds. (for_object (fst ok), snd ok) \<in> K"
    using dr(5) assms(1) by (auto simp: playing_def cache_get_def dest!: map_of_SomeD)
  have guard: "vw_guard s' = vw_guard s"
    using fail ok dr(4,6) by (cases q) auto
  have running: "rest = vw_objects s' \<and> q = Ok () \<and> codec_part t = codec_part s' \<and>
      (queue_ok s \<longrightarrow> queue_ok s') \<and> playing K pid sid s'" if "\<not> failed r"
  proof (cases q)
    case (Inl e)
    with dr(6) fail that show ?thesis by auto
  next
    case (Inr u)
    let ?s1 = "with_codec (codec_part t) (s\<lparr>vw_objects := rest,
           vw_object_bytes := vw_object_bytes s - (\<Sum>obj\<leftarrow>map fst ds. length (o_ciphertext obj))\<rparr>)"
    from Inr dr(6) ok obtain m where s': "s' = ?s1\<lparr>vw_last_decrypted := m\<rparr>" by auto
    have "codec_part s' = codec_part ?s1" by (simp add: s' codec_part_def)
    then show ?thesis
      using assms(1) dr(1) Inr by (auto simp: s' queue_ok_def playing_def)
  qed
  show ?thesis
    unfolding plays_def
    by (rule exI [of _ "[]"], rule exI [of _ "[]"], rule exI [of _ ds], rule exI [of _ rest], rule exI [of _ t], rule exI [of _ q])
      (use dr(1,2,3) keys guard running in auto)
qed

lemma drain_and_note_returns: "snd (snd (drain_and_note E D publisher s)) \<noteq> None"
proof -
  obtain out s1 r1 where d: "drain_objects E D publisher (vw_objects s) None s = (out, s1, r1)" by (metis prod_cases3)
  have "r1 \<noteq> None" using drain_objects_decodes [OF d refl] by blast
  then show ?thesis
    using d by (auto simp: drain_and_note_def drain_pending_objects_def task_then_def task_get_def task_modify_def task_of_def
        task_run_def run_of_def split: option.splits sum.splits)
qed

lemma play_object_plays:
  assumes "playing K pid sid s" and "play_object E D publisher obj s = (out, s', r)"
  shows "plays E D publisher K pid sid s [obj] out s' r"
proof (cases "live_guard_accept (vw_guard s) obj")
  case (Inl e)
  with assms(2) have "out = []" "s' = s" "r = Some (Err (VeNative e))"
    by (auto simp: play_object_def task_then_def task_get_def task_of_def task_run_def run_of_def)
  then show ?thesis by (simp add: plays_refused)
next
  case (Inr gu)
  then obtain g where g: "live_guard_accept (vw_guard s) obj = Ok (g, ())" by (cases gu) auto
  then have accepted: "l_last_sequence (vw_guard s) < seq_of obj" "g = (vw_guard s)\<lparr>l_last_sequence := seq_of obj\<rparr>"
    "h_publisher_id (o_header obj) = l_publisher_id (vw_guard s)" "h_stream_id (o_header obj) = l_stream_id (vw_guard s)"
    by (auto simp: live_guard_accept_def split: if_splits)
  let ?s1 = "s\<lparr>vw_guard := g, vw_object_bytes := saturating_add_usize (vw_object_bytes s) (length (o_ciphertext obj)),
    vw_objects := vw_objects s @ [obj]\<rparr>"
  let ?full = "length (vw_objects ?s1) > MAX_PENDING_OBJECTS \<or> vw_object_bytes ?s1 > MAX_PENDING_CIPHERTEXT_BYTES"
  show ?thesis
  proof (cases ?full)
    case True
    with assms(2) g have "out = []" "failed r" "l_last_sequence (vw_guard s) \<le> l_last_sequence (vw_guard s')"
      using accepted(1,2)
      by (auto simp: play_object_def task_then_def task_get_def task_modify_def task_of_def task_run_def run_of_def)
    then show ?thesis by (auto simp: failed_def plays_refused)
  next
    case False
    with assms(2) g have "drain_and_note E D publisher ?s1 = (out, s', r)"
      by (auto simp: play_object_def task_then_def task_get_def task_modify_def task_of_def task_run_def run_of_def
          split: prod.splits)
    moreover have "playing K pid sid ?s1" using assms(1) accepted(2) by (simp add: playing_def)
    ultimately have "plays E D publisher K pid sid ?s1 [] out s' r" by (rule drain_and_note_plays [rotated])
    then obtain ds rest t q where p: "vw_objects s @ [obj] = map fst ds @ rest" "seq_of obj \<le> l_last_sequence (vw_guard s')"
      "task_each (decode_keyed E D publisher) ds ?s1 = (filter is_media out, t, Some q)"
      "\<forall>ok\<in>set ds. (for_object (fst ok), snd ok) \<in> K"
      "\<not> failed r \<longrightarrow> rest = vw_objects s' \<and> q = Ok () \<and> codec_part t = codec_part s' \<and>
         (queue_ok ?s1 \<longrightarrow> queue_ok s') \<and> playing K pid sid s'"
      unfolding plays_def accepted(2) by (elim exE conjE) simp
    have "codec_part ?s1 = codec_part s" by (simp add: codec_part_def)
    from local_elim(1) [OF local_each [OF local_decode_object] this p(3)]
    have each: "task_each (decode_keyed E D publisher) ds s = (filter is_media out, with_codec (codec_part t) s, Some q)" .
    have "queue_ok ?s1" if "queue_ok s"
      using that False by (auto simp: queue_ok_def saturating_add_usize_def MAX_PENDING_CIPHERTEXT_BYTES_def)
    then show ?thesis
      unfolding plays_def using p accepted assms(1) each
      by (intro exI [of _ "[obj]"] exI [of _ "[]"] exI [of _ ds] exI [of _ rest] exI [of _ "with_codec (codec_part t) s"]
          exI [of _ q]) (auto simp: playing_def)
  qed
qed

section \<open>Keys\<close>

lemma task_then_modify: "task_then (task_modify f) k s = k () (f s)"
  by (simp add: task_then_def task_modify_def split: prod.splits)

lemma task_then_of:
  "task_then (task_of r) k s = (case r of Inl e \<Rightarrow> ([], s, Some (Err e)) | Inr x \<Rightarrow> k x s)"
  by (auto simp: task_then_def task_of_def task_run_def run_of_def split: sum.splits prod.splits)

lemma evict_subset: "evict keys order = Some c \<Longrightarrow> set (kc_keys c) \<subseteq> set keys"
proof (induction keys order rule: evict.induct)
  case (2 keys oldest order)
  then show ?case by (auto simp: AList.delete_eq split: if_splits)
qed (auto split: if_splits)

lemma update_subset: "set (AList.update g k keys) \<subseteq> insert (g, k) (set keys)"
  by (induction keys) auto

lemma cache_insert_subset: "cache_insert g k c = Some c' \<Longrightarrow> set (kc_keys c') \<subseteq> insert (g, k) (set (kc_keys c))"
  unfolding cache_insert_def by (rule order_trans [OF evict_subset update_subset])

lemma insert_keys_subset: "insert_keys kvs c = Some c' \<Longrightarrow> set (kc_keys c') \<subseteq> set kvs \<union> set (kc_keys c)"
proof (induction kvs c rule: insert_keys.induct)
  case (2 g k kvs c)
  then show ?case using cache_insert_subset [of g k c] by (fastforce split: option.splits)
qed simp

text \<open>The keys a session may learn: those of other tasks, and what opens from the publisher's envelopes\<close>

fun offered_keys :: "'z envelope_env_scheme \<Rightarrow> identity_secret \<Rightarrow> identity_public \<Rightarrow> viewer_input list \<Rightarrow> (viewer_key \<times> array32) set" where
  "offered_keys E me publisher [] = {}"
| "offered_keys E me publisher (OtherTasks kvs # inputs) = set kvs \<union> offered_keys E me publisher inputs"
| "offered_keys E me publisher (FromRelay reply # inputs) =
     (case reply of
        Inr (RvKeyEnvelope envelope) \<Rightarrow>
          {(envelope_group (e_header envelope), k) | k. envelope_open E me publisher envelope = Ok k}
      | _ \<Rightarrow> {}) \<union> offered_keys E me publisher inputs"

fun objects_of :: "viewer_input list \<Rightarrow> native_object list" where
  "objects_of [] = []"
| "objects_of (OtherTasks kvs # inputs) = objects_of inputs"
| "objects_of (FromRelay reply # inputs) =
     (case reply of Inr (RvObject obj) \<Rightarrow> [obj] | _ \<Rightarrow> []) @ objects_of inputs"

lemma play_object_returns: "snd (snd (play_object E D publisher obj s)) \<noteq> None"
  using drain_and_note_returns [of E D publisher]
  by (auto simp: play_object_def task_then_def task_get_def task_modify_def task_of_def task_run_def run_of_def
      split: prod.splits sum.splits)

lemma play_envelope_returns:
  assumes "cache_ok (vw_keys s)"
  shows "snd (snd (play_envelope E D cp sid publisher pid envelope s)) \<noteq> None"
proof -
  have "snd (snd (task_then (insert_key g k) (\<lambda>_. drain_and_note E D publisher) s)) \<noteq> None" for g k
  proof -
    obtain c where "cache_insert g k (vw_keys s) = Some c" by (rule cache_insert_ok [OF assms, where g = g and k = k])
    then show ?thesis
      using drain_and_note_returns [of E D publisher "s\<lparr>vw_keys := c\<rparr>"]
      by (auto simp: task_then_def insert_key_def split: prod.splits)
  qed
  then show ?thesis by (auto simp: play_envelope_def Let_def task_then_of split: sum.splits)
qed

lemma play_envelope_plays:
  assumes "playing K pid sid s" and "offered_keys E (cp_identity cp) publisher [FromRelay (Ok (RvKeyEnvelope envelope))] \<subseteq> K"
    and "play_envelope E D cp sid publisher pid envelope s = (out, s', r)"
  shows "plays E D publisher K pid sid s [] out s' r"
proof (cases "\<exists>e. out = [] \<and> s' = s \<and> r = Some (Err e)")
  case True
  then show ?thesis by (auto simp: plays_refused)
next
  case False
  with assms(3) obtain k where k: "envelope_open E (cp_identity cp) publisher envelope = Ok k"
    "task_then (insert_key (envelope_group (e_header envelope)) k) (\<lambda>_. drain_and_note E D publisher) s = (out, s', r)"
    by (auto simp: play_envelope_def Let_def task_then_of result_simps split: if_splits sum.splits)
  let ?g = "envelope_group (e_header envelope)"
  obtain c where c: "cache_insert ?g k (vw_keys s) = Some c" "cache_ok c"
    by (rule cache_insert_ok [where c = "vw_keys s" and g = ?g and k = k]) (use assms(1) in \<open>auto simp: playing_def\<close>)
  have "set (kc_keys c) \<subseteq> K"
    using cache_insert_subset [OF c(1)] assms(1,2) k(1) by (auto simp: playing_def)
  then have p: "playing K pid sid (s\<lparr>vw_keys := c\<rparr>)" using assms(1) c(2) by (simp add: playing_def)
  have "drain_and_note E D publisher (s\<lparr>vw_keys := c\<rparr>) = (out, s', r)"
    using k(2) c(1) by (simp add: task_then_def insert_key_def split: prod.splits)
  from drain_and_note_plays [OF p this]
  have 2: "plays E D publisher K pid sid (s\<lparr>vw_keys := c\<rparr>) [] out s' r" .
  have "plays E D publisher K pid sid s [] [] (s\<lparr>vw_keys := c\<rparr>) (Some (Ok ()))"
    by (rule plays_idle [OF p]) (simp_all add: codec_part_def)
  from plays_then [OF this 2] show ?thesis by simp
qed

lemma playback_message_plays:
  assumes "playing K pid sid s" and "offered_keys E (cp_identity cp) publisher [FromRelay (Ok m)] \<subseteq> K"
    and "playback_message E D cp sid publisher pid m s = (out, s', r)"
  shows "plays E D publisher K pid sid s (objects_of [FromRelay (Ok m)]) out s' r" and "failed r \<or> r = Some (Ok True)"
proof -
  let ?t = "case m of
          RvObject obj \<Rightarrow> play_object E D publisher obj
        | RvKeyEnvelope envelope \<Rightarrow> play_envelope E D cp sid publisher pid envelope
        | RvLive _ \<Rightarrow> show_event (EvStreamStatus sid ''Live'')
        | RvPong _ \<Rightarrow> task_of (Ok ())
        | RvError _ \<Rightarrow> task_of (Err (VeRefused ''relay stream error''))
        | _ \<Rightarrow> task_of (Err (VeRefused ''unexpected subscription message''))"
  obtain r1 where t: "?t s = (out, s', r1)" and r: "r = (case r1 of None \<Rightarrow> None | Some (Inl e) \<Rightarrow> Some (Inl e) | Some (Inr _) \<Rightarrow> Some (Ok True))"
    using assms(3) by (auto simp: playback_message_def task_then_def task_of_def task_run_def run_of_def
        split: prod.splits option.splits sum.splits)
  have "plays E D publisher K pid sid s (objects_of [FromRelay (Ok m)]) out s' r1"
    using t play_object_plays [OF assms(1)] play_envelope_plays [OF assms(1)] assms(1,2)
    by (cases m) (auto simp: show_event_def task_of_def task_run_def run_of_def intro: plays_refused plays_idle)
  moreover have "failed r1 \<longleftrightarrow> failed r" using r by (auto simp: failed_def split: option.splits sum.splits)
  ultimately show "plays E D publisher K pid sid s (objects_of [FromRelay (Ok m)]) out s' r" by (simp add: plays_def)
  have "snd (snd (?t s)) \<noteq> None"
    using play_object_returns [of E D publisher] play_envelope_returns [of s E D cp sid publisher pid] assms(1)
    by (cases m) (simp_all add: playing_def show_event_def task_of_def task_run_def run_of_def)
  then show "failed r \<or> r = Some (Ok True)" using t r by (auto simp: failed_def split: option.splits sum.splits)
qed

section \<open>The loop\<close>

lemma plays_inputs: "playing K pid sid s \<Longrightarrow> plays E D publisher K pid sid s [] [] (s\<lparr>vw_inputs := inputs\<rparr>) (Some (Ok ()))"
  by (rule plays_idle) (simp_all add: playing_def codec_part_def)

lemma input_loop_plays:
  assumes "playing K pid sid s" and "offered_keys E (cp_identity cp) publisher inputs \<subseteq> K"
    and "input_loop (playback_message E D cp sid publisher pid) inputs s = (out, s', r)"
  shows "plays E D publisher K pid sid s (objects_of inputs) out s' r \<and> (r = None \<or> failed r)"
  using assms
proof (induction inputs arbitrary: s out)
  case Nil
  then show ?case using plays_inputs [OF Nil.prems(1), of E D publisher "[]"] by (auto simp: plays_def)
next
  case (Cons i inputs)
  show ?case
  proof (cases i)
    case (OtherTasks kvs)
    obtain c where c: "insert_keys kvs (vw_keys s) = Some c" "cache_ok c"
      using insert_keys_ok Cons.prems(1) unfolding playing_def by blast
    have "set (kc_keys c) \<subseteq> K"
      using insert_keys_subset [OF c(1)] Cons.prems(1,2) OtherTasks by (auto simp: playing_def)
    then have p: "playing K pid sid (s\<lparr>vw_keys := c\<rparr>)" using Cons.prems(1) c(2) by (simp add: playing_def)
    have 2: "plays E D publisher K pid sid (s\<lparr>vw_keys := c\<rparr>) (objects_of inputs) out s' r \<and> (r = None \<or> failed r)"
      by (rule Cons.IH [OF p]) (use Cons.prems(2,3) OtherTasks c(1) in auto)
    have "plays E D publisher K pid sid s [] [] (s\<lparr>vw_keys := c\<rparr>) (Some (Ok ()))"
      by (rule plays_idle [OF p]) (simp_all add: codec_part_def)
    from plays_then [OF this conjunct1 [OF 2]] 2 show ?thesis using OtherTasks by simp
  next
    case (FromRelay reply)
    let ?s = "s\<lparr>vw_inputs := inputs\<rparr>"
    have p: "playing K pid sid ?s" using Cons.prems(1) by (simp add: playing_def)
    show ?thesis
    proof (cases reply)
      case (Inl e)
      with Cons.prems(3) FromRelay have "out = []" "s' = ?s" "r = Some (Err e)"
        by (auto simp: task_then_def task_modify_def task_of_def task_run_def run_of_def)
      then show ?thesis by (simp add: plays_refused)
    next
      case (Inr m)
      obtain out1 s1 r1 where m: "playback_message E D cp sid publisher pid m ?s = (out1, s1, r1)" by (metis prod_cases3)
      have "offered_keys E (cp_identity cp) publisher [FromRelay (Ok m)] \<subseteq> K" using Cons.prems(2) FromRelay Inr by auto
      note step = playback_message_plays [OF p this m]
      have 1: "plays E D publisher K pid sid s (objects_of [FromRelay (Ok m)]) out1 s1 r1"
        using plays_then [OF plays_inputs [OF Cons.prems(1)] step(1)] by simp
      have obs: "objects_of (i # inputs) = objects_of [FromRelay (Ok m)] @ objects_of inputs" using FromRelay Inr by simp
      have run: "(case r1 of None \<Rightarrow> (out1, s1, None) | Some (Inl e) \<Rightarrow> (out1, s1, Some (Inl e))
         | Some (Inr x) \<Rightarrow> (case (if x then input_loop (playback_message E D cp sid publisher pid) inputs else task_of (Ok ())) s1
             of (out', s2, r') \<Rightarrow> (out1 @ out', s2, r'))) = (out, s', r)"
        using Cons.prems(3) FromRelay Inr by (simp add: task_then_of task_then_modify) (simp only: task_then_def m prod.case)
      consider (error) e where "r1 = Some (Err e)" | (continue) "r1 = Some (Ok True)"
        using step(2) by (auto simp: failed_def)
      then show ?thesis
      proof cases
        case error
        then have "out = out1" "s' = s1" "failed r" "failed r1" using run by (auto simp: failed_def)
        then show ?thesis using plays_result [OF plays_failed [OF 1], of r] unfolding obs by blast
      next
        case continue
        then obtain out2 where rest: "input_loop (playback_message E D cp sid publisher pid) inputs s1 = (out2, s', r)"
          "out = out1 @ out2" using run by (auto split: prod.splits)
        have "playing K pid sid s1" using 1 continue by (auto simp: plays_def)
        from Cons.IH [OF this _ rest(1)] Cons.prems(2) FromRelay
        have "plays E D publisher K pid sid s1 (objects_of inputs) out2 s' r \<and> (r = None \<or> failed r)" by simp
        with plays_then 1 continue obs rest(2) show ?thesis by (metis (no_types))
      qed
    qed
  qed
qed

section \<open>Opening a subscription\<close>

text \<open>The exchange before the first object: nothing is shown, the queue stays, and the objects the relay will
  send are still to come.\<close>

definition before_objects :: "'z envelope_env_scheme \<Rightarrow> identity_secret \<Rightarrow> identity_public \<Rightarrow> (viewer_key \<times> array32) set
    \<Rightarrow> 'd viewer_world \<Rightarrow> bool" where
  "before_objects E me publisher K s \<longleftrightarrow> cache_ok (vw_keys s) \<and> set (kc_keys (vw_keys s)) \<subseteq> K \<and>
     offered_keys E me publisher (vw_inputs s) \<subseteq> K"

definition quiet :: "'z envelope_env_scheme \<Rightarrow> identity_secret \<Rightarrow> identity_public \<Rightarrow> (viewer_key \<times> array32) set
    \<Rightarrow> ('d, 'a) viewing \<Rightarrow> bool" where
  "quiet E me publisher K t \<longleftrightarrow> (\<forall>s out s' r. before_objects E me publisher K s \<longrightarrow> t s = (out, s', r) \<longrightarrow>
     filter is_media out = [] \<and> vw_objects s' = vw_objects s \<and> vw_object_bytes s' = vw_object_bytes s \<and>
     (\<not> failed r \<longrightarrow> before_objects E me publisher K s' \<and> objects_of (vw_inputs s') = objects_of (vw_inputs s)) \<and>
     (r = None \<longrightarrow> vw_inputs s' = []))"

lemma quietD:
  assumes "quiet E me publisher K t" and "before_objects E me publisher K s" and "t s = (out, s', r)"
  shows "filter is_media out = []" "vw_objects s' = vw_objects s" "vw_object_bytes s' = vw_object_bytes s"
    "\<not> failed r \<Longrightarrow> before_objects E me publisher K s'" "\<not> failed r \<Longrightarrow> objects_of (vw_inputs s') = objects_of (vw_inputs s)"
    "r = None \<Longrightarrow> vw_inputs s' = []"
  using assms unfolding quiet_def by blast+

lemma quiet_then:
  assumes m: "quiet E me publisher K m" and k: "\<And>x. quiet E me publisher K (k x)"
  shows "quiet E me publisher K (task_then m k)"
  unfolding quiet_def
proof (intro allI impI)
  fix s out s' r
  assume b: "before_objects E me publisher K s" and t: "task_then m k s = (out, s', r)"
  obtain out1 s1 r1 where 1: "m s = (out1, s1, r1)" by (metis prod_cases3)
  note q = quietD [OF m b 1]
  show "filter is_media out = [] \<and> vw_objects s' = vw_objects s \<and> vw_object_bytes s' = vw_object_bytes s \<and>
     (\<not> failed r \<longrightarrow> before_objects E me publisher K s' \<and> objects_of (vw_inputs s') = objects_of (vw_inputs s)) \<and>
     (r = None \<longrightarrow> vw_inputs s' = [])"
  proof (cases "\<exists>x. r1 = Some (Ok x)")
    case True
    then obtain x out2 where x: "r1 = Some (Ok x)" and 2: "k x s1 = (out2, s', r)" "out = out1 @ out2"
      using t 1 by (auto simp: task_then_def split: prod.splits)
    with q(4) have b1: "before_objects E me publisher K s1" by simp
    from quietD [OF k b1 2(1)] q x 2(2) show ?thesis by simp
  next
    case False
    then have "out = out1 \<and> s' = s1 \<and> (failed r1 \<longleftrightarrow> failed r) \<and> (r = None \<longrightarrow> r1 = None)"
      using t 1 by (auto simp: task_then_def failed_def split: option.splits sum.splits)
    with q show ?thesis by auto
  qed
qed

lemma quiet_of: "quiet E me publisher K (task_of r)"
  by (simp add: quiet_def task_of_def task_run_def run_of_def)

lemma quiet_get: "quiet E me publisher K (task_get f)"
  by (simp add: quiet_def task_get_def)

lemma quiet_ask: "quiet E me publisher K (view_ask f)"
  by (simp add: quiet_def view_ask_def before_objects_def)

lemma quiet_relays: "quiet E me publisher K (task_modify (\<lambda>s. s\<lparr>vw_relays := b\<rparr>))"
  by (simp add: quiet_def task_modify_def before_objects_def)

lemma quiet_status: "quiet E me publisher K (show_event (EvStreamStatus sid t))"
  by (simp add: quiet_def show_event_def task_run_def)

lemma quiet_send: "quiet E me publisher K (send_viewer I m)"
  unfolding send_viewer_def by (intro quiet_then quiet_ask quiet_of) (simp add: quiet_def task_run_def)

lemma quiet_case_pair: "(\<And>x y. quiet E me publisher K (f x y)) \<Longrightarrow> quiet E me publisher K (case p of (x, y) \<Rightarrow> f x y)"
  by (cases p) simp

lemma quiet_case_option:
  "quiet E me publisher K a \<Longrightarrow> (\<And>x. quiet E me publisher K (f x)) \<Longrightarrow> quiet E me publisher K (case p of None \<Rightarrow> a | Some x \<Rightarrow> f x)"
  by (cases p) simp_all

lemma quiet_if: "quiet E me publisher K a \<Longrightarrow> quiet E me publisher K b \<Longrightarrow> quiet E me publisher K (if c then a else b)"
  by simp

lemmas quiet_steps = quiet_then quiet_of quiet_get quiet_ask quiet_relays quiet_status quiet_send quiet_case_pair
  quiet_case_option quiet_if

text \<open>A reply is read and anything but what is expected ends the session.\<close>

lemma read_inputs_before:
  assumes "read_inputs inputs c = (inputs', c', reply)" and "cache_ok c" and "set (kc_keys c) \<subseteq> K"
    and "offered_keys E me publisher inputs \<subseteq> K"
  shows "cache_ok c' \<and> set (kc_keys c') \<subseteq> K \<and> offered_keys E me publisher inputs' \<subseteq> K \<and>
    (case reply of None \<Rightarrow> inputs' = [] \<and> objects_of inputs = []
     | Some m \<Rightarrow> objects_of inputs = objects_of [FromRelay m] @ objects_of inputs')"
  using assms
proof (induction inputs c rule: read_inputs.induct)
  case (3 kvs inputs c)
  obtain c1 where c1: "insert_keys kvs c = Some c1" "cache_ok c1" using insert_keys_ok [OF "3.prems"(2)] by blast
  have "set (kc_keys c1) \<subseteq> K" using insert_keys_subset [OF c1(1)] "3.prems"(3,4) by auto
  from "3.IH" [OF c1(1) _ c1(2) this] "3.prems"(1,4) c1(1) show ?case by (cases reply) simp_all
qed (auto split: sum.splits)

lemma quiet_read:
  assumes "\<And>obj. failed (Some (f (RvObject obj)))"
  shows "quiet E me publisher K (task_then read_viewer (\<lambda>reply. task_of (f reply)))"
  unfolding quiet_def
proof (intro allI impI)
  fix s out s' r
  assume b: "before_objects E me publisher K s" and t: "task_then read_viewer (\<lambda>reply. task_of (f reply)) s = (out, s', r)"
  obtain inputs c reply where i: "read_inputs (vw_inputs s) (vw_keys s) = (inputs, c, reply)" by (metis prod_cases3)
  have s': "out = []" "s' = s\<lparr>vw_inputs := inputs, vw_keys := c\<rparr>"
    "r = (case reply of None \<Rightarrow> None | Some (Inl e) \<Rightarrow> Some (Err e) | Some (Inr m) \<Rightarrow> Some (f m))"
    using t i by (auto simp: task_then_def read_viewer_def task_of_def task_run_def run_of_def split: option.splits sum.splits)
  from read_inputs_before [OF i, where E = E and me = me and publisher = publisher and K = K] b
  have after: "before_objects E me publisher K s'"
    "case reply of None \<Rightarrow> inputs = [] \<and> objects_of (vw_inputs s) = []
     | Some m \<Rightarrow> objects_of (vw_inputs s) = objects_of [FromRelay m] @ objects_of inputs"
    by (simp_all add: before_objects_def s'(2))
  have "\<not> failed r \<Longrightarrow> objects_of inputs = objects_of (vw_inputs s)"
  proof (cases reply)
    case (Some m)
    assume ok: "\<not> failed r"
    with Some s'(3) obtain msg where m: "m = Inr msg" "\<not> failed (Some (f msg))" by (cases m) auto
    with assms have "\<And>obj. msg \<noteq> RvObject obj" by blast
    with m after(2) Some show ?thesis by (cases msg) auto
  qed (use after(2) in auto)
  with after(1) s' show "filter is_media out = [] \<and> vw_objects s' = vw_objects s \<and> vw_object_bytes s' = vw_object_bytes s \<and>
     (\<not> failed r \<longrightarrow> before_objects E me publisher K s' \<and> objects_of (vw_inputs s') = objects_of (vw_inputs s)) \<and>
     (r = None \<longrightarrow> vw_inputs s' = [])"
    using after(2) by (auto split: option.splits sum.splits)
qed

lemma quiet_connect: "quiet E me publisher K (view_connect E' I cp)"
  unfolding view_connect_def view_known_relays_def
  by (intro quiet_steps quiet_read) (simp_all add: failed_def)

lemma quiet_check: "quiet E me publisher K (check_verified E' I sid pub why)"
  unfolding check_verified_def load_verified_def by (intro quiet_steps)


definition open_session ::
  "'z viewer_env_scheme \<Rightarrow> ('d, 'y) h264_decoder_scheme \<Rightarrow> viewer_inputs \<Rightarrow> connection_profile \<Rightarrow> uuid
    \<Rightarrow> identity_public \<Rightarrow> subscription_start \<Rightarrow> ('d, array32 \<times> u64 \<times> 'd) viewing" where
  "open_session E D I cp sid publisher start =
     task_then (check_verified E I sid publisher ''catalog publisher does not match the verified stream identity'') (\<lambda>_.
     task_then (view_connect E I cp) (\<lambda>_.
     task_then (task_of (map_err VeIdentity (identity_id E publisher))) (\<lambda>publisher_id.
     task_then (send_viewer I (VwSubscribe publisher_id sid start)) (\<lambda>_.
     task_then (task_then read_viewer (\<lambda>reply. task_of (case reply of
                           RvSubscriptionStarted first_sequence _ live \<Rightarrow> Ok (first_sequence, live)
                         | RvError _ \<Rightarrow> Err (VeRefused ''subscription rejected'')
                         | _ \<Rightarrow> Err (VeRefused ''unexpected subscription response'')))) (\<lambda>(first_sequence, starts_live).
     task_then (show_event (EvStreamStatus sid (if starts_live then ''Waiting for live media''
                                                else ''Playing retained history''))) (\<lambda>_.
     task_then (task_of (dec_new D)) (\<lambda>decoder. task_of (Ok (publisher_id, first_sequence, decoder)))))))))"

lemma subscribe_once_opening:
  "subscribe_once E D I cp sid publisher start =
     task_then (open_session E D I cp sid publisher start) (\<lambda>(publisher_id, first_sequence, decoder).
     task_then (task_modify (start_playback publisher_id sid first_sequence decoder)) (\<lambda>_.
       read_each (playback_message E D cp sid publisher publisher_id)))"
  unfolding subscribe_once_def open_session_def task_then_assoc
  by (simp add: task_then_assoc task_then_Ok case_prod_beta')

lemma quiet_opening: "quiet E' me publisher' K (open_session E D I cp sid publisher start)"
  unfolding open_session_def by (intro quiet_steps quiet_check quiet_connect quiet_read) (simp_all add: failed_def)

lemma monitor_any: "monitor (\<lambda>a m. Some a) a out = Some a"
  by (induction out) auto

lemma monitored_any: "monitored (\<lambda>a m. Some a) P t (\<lambda>_ _ _. True)"
  by (simp add: monitored_def monitor_any)

lemma opening_result:
  assumes "open_session E D I cp sid publisher start s = (out, s', Some (Ok (pid, first, d)))"
  shows "identity_id E publisher = Ok pid" and "dec_new D = Ok d"
proof -
  have "monitored (\<lambda>a m. Some a) (\<lambda>a s. True) (open_session E D I cp sid publisher start)
     (\<lambda>(pid, first, d) (a :: nat) s. identity_id E publisher = Ok pid \<and> dec_new D = Ok d)"
    unfolding open_session_def
    by (intro monitored_then [OF monitored_any] monitored_of_then)
      (auto simp: result_simps split: prod.splits intro!: monitored_then [OF monitored_any] monitored_of_then monitored_of)
  from monitoredD [OF this _ assms, of 0] show "identity_id E publisher = Ok pid" "dec_new D = Ok d" by auto
qed

section \<open>Properties\<close>

text \<open>C5: Whatever the relay and the other tasks of the viewer send during a subscription, and wherever it breaks
  off: the objects taken are a prefix of those the relay sent, with strictly increasing sequences and the
  publisher and stream subscribed to; the frames and cursors shown are exactly those of decoding a
  prefix of them in order with a fresh decoder, each object opened under the publisher's identity with
  a key from the cache, from another task, or from an envelope that opened for this viewer; and while the
  session runs, everything received is either decoded or in the queue, which is within its limits.\<close>

theorem playback_decodes_in_order:
  assumes run: "subscribe_once E D I cp sid publisher start s = (out, s', r)"
    and cache: "cache_ok (vw_keys s)" and fresh: "vw_objects s = []" "vw_object_bytes s = 0"
  shows "\<exists>taken more done rest d t q.
    objects_of (vw_inputs s) = taken @ more \<and> taken = map fst done @ rest \<and>
    sorted_wrt (<) (map seq_of taken) \<and>
    (\<forall>obj\<in>set taken. identity_id E publisher = Ok (h_publisher_id (o_header obj)) \<and> h_stream_id (o_header obj) = sid) \<and>
    task_each (decode_keyed E D publisher) done (with_codec (d, None) s) = (filter is_media out, t, Some q) \<and>
    (done \<noteq> [] \<longrightarrow> dec_new D = Ok d) \<and>
    (\<forall>ok\<in>set done. (for_object (fst ok), snd ok)
       \<in> set (kc_keys (vw_keys s)) \<union> offered_keys E (cp_identity cp) publisher (vw_inputs s)) \<and>
    r \<noteq> Some (Ok ()) \<and>
    (r = None \<longrightarrow> more = [] \<and> rest = vw_objects s' \<and> q = Ok () \<and> length rest \<le> MAX_PENDING_OBJECTS \<and>
       vw_object_bytes s' = (\<Sum>obj\<leftarrow>rest. length (o_ciphertext obj)) \<and> vw_object_bytes s' \<le> MAX_PENDING_CIPHERTEXT_BYTES)"
proof -
  let ?K = "set (kc_keys (vw_keys s)) \<union> offered_keys E (cp_identity cp) publisher (vw_inputs s)"
  have b: "before_objects E (cp_identity cp) publisher ?K s" using cache by (auto simp: before_objects_def)
  obtain out1 s1 r1 where o: "open_session E D I cp sid publisher start s = (out1, s1, r1)" by (metis prod_cases3)
  note q = quietD [OF quiet_opening b o]
  show ?thesis
  proof (cases "\<exists>x. r1 = Some (Ok x)")
    case False
    then have "out = out1" "s' = s1" "r = None \<longrightarrow> r1 = None" "r \<noteq> Some (Ok ())"
      using run o unfolding subscribe_once_opening by (auto simp: task_then_def split: option.splits sum.splits)
    moreover have "r1 = None \<Longrightarrow> objects_of (vw_inputs s) = []" using q(5,6) by simp
    ultimately show ?thesis
      using q(1,2,3) fresh
      by (intro exI [of _ "[]"] exI [of _ "objects_of (vw_inputs s)"] exI [of _ "[]"] exI [of _ "[]"] exI [of _ "vw_decoder s"]
          exI [of _ "with_codec (vw_decoder s, None) s"] exI [of _ "Ok ()"])
        (auto simp: task_of_def task_run_def run_of_def)
  next
    case True
    then obtain pid first d where x: "r1 = Some (Ok (pid, first, d))" by (metis prod_cases3)
    let ?s = "start_playback pid sid first d s1"
    obtain out2 where 2: "input_loop (playback_message E D cp sid publisher pid) (vw_inputs s1) ?s = (out2, s', r)"
      and out: "out = out1 @ out2"
      using run o x unfolding subscribe_once_opening
      by (auto simp: task_then_def task_modify_def read_each_def task_get_def start_playback_def split: prod.splits)
    have "playing ?K pid sid ?s" "offered_keys E (cp_identity cp) publisher (vw_inputs s1) \<subseteq> ?K"
      using q(4) x by (auto simp: before_objects_def playing_def start_playback_def live_guard_new_def)
    note loop = input_loop_plays [OF this 2]
    have objects: "vw_objects ?s = []" by (simp add: start_playback_def)
    from conjunct1 [OF loop] obtain taken more ds rest t q where p: "objects_of (vw_inputs s1) = taken @ more"
      "vw_objects ?s @ taken = map fst ds @ rest" "sorted_wrt (<) (map seq_of taken)"
      "\<forall>obj\<in>set taken. l_last_sequence (vw_guard ?s) < seq_of obj \<and> seq_of obj \<le> l_last_sequence (vw_guard s') \<and>
         h_publisher_id (o_header obj) = pid \<and> h_stream_id (o_header obj) = sid"
      "task_each (decode_keyed E D publisher) ds ?s = (filter is_media out2, t, Some q)"
      "\<forall>ok\<in>set ds. (for_object (fst ok), snd ok) \<in> ?K"
      "\<not> failed r \<longrightarrow> more = [] \<and> rest = vw_objects s' \<and> q = Ok () \<and> codec_part t = codec_part s' \<and>
         (queue_ok ?s \<longrightarrow> queue_ok s') \<and> playing ?K pid sid s'"
      unfolding plays_def by (elim exE conjE) blast
    have "codec_part ?s = codec_part (with_codec (d, None) s)" by (simp add: codec_part_def with_codec_def start_playback_def)
    from local_elim(1) [OF local_each [OF local_decode_object] this p(5)]
    have each: "task_each (decode_keyed E D publisher) ds (with_codec (d, None) s) =
      (filter is_media out, with_codec (codec_part t) (with_codec (d, None) s), Some q)" using out q(1) by simp
    have "queue_ok ?s" by (simp add: queue_ok_def start_playback_def)
    with p(7) have queue: "r = None \<longrightarrow> more = [] \<and> rest = vw_objects s' \<and> q = Ok () \<and> queue_ok s'" by auto
    have "r \<noteq> Some (Ok ())" using conjunct2 [OF loop] by auto
    with p(1) p(2) [unfolded objects append_Nil] p(3,4,6) each queue q(5) x opening_result [OF o [unfolded x]] show ?thesis
      unfolding queue_ok_def by (intro exI conjI) auto
  qed
qed

end
