(* ===== verification/EndToEnd.thy ===== *)
theory EndToEnd
  imports PlaybackProperties
begin

text \<open>
  A stream from the publisher's encryptor to the viewer's decoder: what is sealed for a viewer plays,
  however late the key arrives.
\<close>

section \<open>The reference\<close>

text \<open>The decoder may refuse a unit.  That it takes given units, one after the other, from a given state;
  its state after them; and the pictures it returns.\<close>

fun decodes :: "('d, 'y) h264_decoder_scheme \<Rightarrow> 'd \<Rightarrow> bytes list \<Rightarrow> bool" where
  "decodes D d [] \<longleftrightarrow> True"
| "decodes D d (u # us) \<longleftrightarrow> is_ok (fst (dec_decode D d u)) \<and> decodes D (snd (dec_decode D d u)) us"

fun decoder_after :: "('d, 'y) h264_decoder_scheme \<Rightarrow> 'd \<Rightarrow> bytes list \<Rightarrow> 'd" where
  "decoder_after D d [] = d"
| "decoder_after D d (u # us) = decoder_after D (snd (dec_decode D d u)) us"

fun pictures :: "('d, 'y) h264_decoder_scheme \<Rightarrow> 'd \<Rightarrow> bytes list \<Rightarrow> (nat \<times> nat \<times> bytes) list" where
  "pictures D d [] = []"
| "pictures D d (u # us) =
     (case fst (dec_decode D d u) of Inr (Some p) \<Rightarrow> [p] | _ \<Rightarrow> []) @ pictures D (snd (dec_decode D d u)) us"

lemma decoder_after_append: "decoder_after D d (us @ vs) = decoder_after D (decoder_after D d us) vs"
  by (induction us arbitrary: d) auto

lemma decodes_append: "decodes D d (us @ vs) \<longleftrightarrow> decodes D d us \<and> decodes D (decoder_after D d us) vs"
  by (induction us arbitrary: d) auto

lemma pictures_append: "pictures D d (us @ vs) = pictures D d us @ pictures D (decoder_after D d us) vs"
  by (induction us arbitrary: d) auto

definition shown_pictures :: "viewer_output list \<Rightarrow> (nat \<times> nat \<times> bytes) list" where
  "shown_pictures out = concat (map (\<lambda>e. case e of Shown (EvFrame f) \<Rightarrow> [(fr_width f, fr_height f, fr_rgb f)] | _ \<Rightarrow> []) out)"

lemma shown_pictures_simps [simp]:
  "shown_pictures [] = []" "shown_pictures (a @ b) = shown_pictures a @ shown_pictures b"
  "shown_pictures (Shown (EvFrame f) # out) = (fr_width f, fr_height f, fr_rgb f) # shown_pictures out"
  by (simp_all add: shown_pictures_def)

section \<open>Decoding\<close>

lemma task_then_get: "task_then (task_get f) k s = k (f s) s"
  by (simp add: task_then_def task_get_def split: prod.splits)

lemma decode_units_taken:
  assumes "decodes D (vw_decoder s) us"
  shows "\<exists>out. decode_units D h us s = (out, s\<lparr>vw_decoder := decoder_after D (vw_decoder s) us\<rparr>, Some (Ok ())) \<and>
    shown_pictures out = pictures D (vw_decoder s) us"
  using assms
proof (induction us arbitrary: s)
  case Nil
  show ?case by (simp add: task_of_def task_run_def run_of_def)
next
  case (Cons u us)
  obtain p d where d: "dec_decode D (vw_decoder s) u = (Ok p, d)"
    using Cons.prems by (cases "dec_decode D (vw_decoder s) u") (auto simp: is_ok_iff)
  obtain out where out: "decode_units D h us (s\<lparr>vw_decoder := d\<rparr>) = (out, s\<lparr>vw_decoder := decoder_after D d us\<rparr>, Some (Ok ()))"
    "shown_pictures out = pictures D d us"
    using Cons.IH [of "s\<lparr>vw_decoder := d\<rparr>"] Cons.prems d by auto
  show ?case
  proof (cases p)
    case None
    with d out show ?thesis by (simp add: task_then_modify task_then_of)
  next
    case (Some q)
    obtain w ht rgb where q: "q = (w, ht, rgb)" by (metis prod_cases3)
    let ?f = "\<lparr>fr_stream_id = h_stream_id h, fr_width = w, fr_height = ht, fr_rgb = rgb, fr_sequence = h_sequence h,
      fr_key_group = h_key_group h\<rparr>"
    have "decode_units D h (u # us) s = ([Shown (EvFrame ?f)] @ out, s\<lparr>vw_decoder := decoder_after D d us\<rparr>, Some (Ok ()))"
      using d out Some q by (simp add: task_then_modify task_then_of) (simp add: task_then_def show_event_def task_run_def)
    moreover have "shown_pictures ([Shown (EvFrame ?f)] @ out) = [q] @ pictures D d us" using out(2) q by simp
    ultimately show ?thesis using d Some by simp
  qed
qed

text \<open>An object carries the bytes \<open>b\<close> for the decoder under a key of its group.\<close>

definition carries ::
  "'z viewer_env_scheme \<Rightarrow> identity_public \<Rightarrow> array32 \<Rightarrow> uuid \<Rightarrow> viewer_key \<Rightarrow> array32 \<Rightarrow> native_object \<Rightarrow> bytes \<Rightarrow> bool" where
  "carries E publisher pid sid gk key obj b \<longleftrightarrow>
     h_publisher_id (o_header obj) = pid \<and> h_stream_id (o_header obj) = sid \<and> for_object obj = gk \<and> key \<noteq> 0 \<and>
     h_codec (o_header obj) = Some H264AnnexB \<and> length (o_ciphertext obj) \<le> MAX_MEDIA_CIPHERTEXT_LEN \<and>
     (\<exists>plain. object_open E publisher key (h_key_id (o_header obj)) obj = Ok plain \<and>
        (case h_kind (o_header obj) of
           Media \<Rightarrow> b = plain
         | Epoch \<Rightarrow> (\<exists>ep. epoch_decode E plain = Ok ep \<and> b = ep_codec_config ep)
         | Cursor \<Rightarrow> False))"

lemma decode_object_carries:
  assumes "decodes D (vw_decoder s) (dec_units D b)" and "carries E publisher pid sid gk key obj b"
  shows "\<exists>out z. decode_object E D publisher obj key s
      = (out, s\<lparr>vw_decoder := decoder_after D (vw_decoder s) (dec_units D b), vw_source_size := z\<rparr>, Some (Ok ())) \<and>
    shown_pictures out = pictures D (vw_decoder s) (dec_units D b)"
proof -
  from assms(2) obtain plain where c: "key \<noteq> 0" "h_codec (o_header obj) = Some H264AnnexB"
    "object_open E publisher key (h_key_id (o_header obj)) obj = Ok plain"
    "case h_kind (o_header obj) of Media \<Rightarrow> b = plain
     | Epoch \<Rightarrow> (\<exists>ep. epoch_decode E plain = Ok ep \<and> b = ep_codec_config ep) | Cursor \<Rightarrow> False"
    unfolding carries_def by blast
  note d = decode_object_def Let_def content_key_from_bytes_def task_then_of task_then_modify
  show ?thesis
  proof (cases "h_kind (o_header obj)")
    case Media
    with c decode_units_taken [OF assms(1), of "o_header obj"] show ?thesis
      by (auto simp: d intro!: exI [of _ "vw_source_size s"])
  next
    case Epoch
    with c obtain ep where ep: "epoch_decode E plain = Ok ep" "b = ep_codec_config ep" by auto
    with c Epoch assms(1) decode_units_taken [of D "s\<lparr>vw_source_size := Some (ep_width ep, ep_height ep)\<rparr>"
        "dec_units D b" "o_header obj"] show ?thesis
      by (auto simp: d intro!: exI [of _ "Some (ep_width ep, ep_height ep)"])
  next
    case Cursor
    with c(4) show ?thesis by simp
  qed
qed

section \<open>Draining\<close>

abbreviation units_of :: "('d, 'y) h264_decoder_scheme \<Rightarrow> bytes list \<Rightarrow> bytes list" where
  "units_of D bs \<equiv> concat (map (dec_units D) bs)"

abbreviation total_len :: "native_object list \<Rightarrow> nat" where
  "total_len objs \<equiv> (\<Sum>obj\<leftarrow>objs. length (o_ciphertext obj))"

lemma drain_all:
  assumes "decodes D (vw_decoder s) (units_of D bs)" and "list_all2 (carries E publisher pid sid gk key) objs bs"
    and "cache_get (vw_keys s) gk = Some key" and "vw_objects s = objs" and "vw_object_bytes s = total_len objs"
  shows "\<exists>out z. drain_objects E D publisher objs latest s =
      (out, s\<lparr>vw_decoder := decoder_after D (vw_decoder s) (units_of D bs), vw_source_size := z, vw_objects := [],
         vw_object_bytes := 0\<rparr>, Some (Ok (if objs = [] then latest else Some (seq_of (last objs))))) \<and>
    shown_pictures out = pictures D (vw_decoder s) (units_of D bs)"
  using assms(2,1,3-)
proof (induction objs bs arbitrary: s latest rule: list_all2_induct)
  case Nil
  have "s\<lparr>vw_decoder := vw_decoder s, vw_source_size := vw_source_size s, vw_objects := [], vw_object_bytes := 0\<rparr> = s"
    using Nil by (cases s) simp
  then show ?case by (intro exI [of _ "[]"] exI [of _ "vw_source_size s"]) (simp add: task_of_def task_run_def run_of_def)
next
  case (Cons obj objs b bs)
  let ?s1 = "s\<lparr>vw_objects := objs, vw_object_bytes := vw_object_bytes s - length (o_ciphertext obj)\<rparr>"
  obtain out1 z1 where 1: "decode_object E D publisher obj key ?s1
      = (out1, ?s1\<lparr>vw_decoder := decoder_after D (vw_decoder s) (dec_units D b), vw_source_size := z1\<rparr>, Some (Ok ()))"
    "shown_pictures out1 = pictures D (vw_decoder s) (dec_units D b)"
    using decode_object_carries [OF _ Cons.hyps(1), of D ?s1] Cons.prems(1) by (auto simp: decodes_append)
  let ?s2 = "?s1\<lparr>vw_decoder := decoder_after D (vw_decoder s) (dec_units D b), vw_source_size := z1\<rparr>"
  obtain out2 z2 where 2: "drain_objects E D publisher objs (Some (seq_of obj)) ?s2 =
      (out2, ?s2\<lparr>vw_decoder := decoder_after D (vw_decoder ?s2) (units_of D bs), vw_source_size := z2, vw_objects := [],
         vw_object_bytes := 0\<rparr>, Some (Ok (if objs = [] then Some (seq_of obj) else Some (seq_of (last objs)))))"
    "shown_pictures out2 = pictures D (vw_decoder ?s2) (units_of D bs)"
    using Cons.IH [of ?s2 "Some (seq_of obj)"] Cons.prems by (auto simp: decodes_append)
  have key: "cache_get (vw_keys s) (for_object obj) = Some key" using Cons.hyps(1) Cons.prems(2) by (simp add: carries_def)
  have "drain_objects E D publisher (obj # objs) latest s =
      (out1 @ out2, ?s2\<lparr>vw_decoder := decoder_after D (vw_decoder ?s2) (units_of D bs), vw_source_size := z2, vw_objects := [],
         vw_object_bytes := 0\<rparr>, Some (Ok (if objs = [] then Some (seq_of obj) else Some (seq_of (last objs)))))"
    using key 1(1) 2(1) by (simp add: task_then_def task_get_def task_modify_def)
  then show ?case
    using 1(2) 2(2) by (intro exI [of _ "out1 @ out2"] exI [of _ z2]) (simp add: decoder_after_append pictures_append)
qed

lemma drain_and_note_all:
  assumes "decodes D (vw_decoder s) (units_of D bs)" and "list_all2 (carries E publisher pid sid gk key) objs bs"
    and "cache_get (vw_keys s) gk = Some key" and "vw_objects s = objs" and "vw_object_bytes s = total_len objs"
  shows "\<exists>out z. drain_and_note E D publisher s =
      (out, s\<lparr>vw_decoder := decoder_after D (vw_decoder s) (units_of D bs), vw_source_size := z, vw_objects := [],
         vw_object_bytes := 0, vw_last_decrypted := (if objs = [] then vw_last_decrypted s else seq_of (last objs))\<rparr>,
       Some (Ok ())) \<and>
    shown_pictures out = pictures D (vw_decoder s) (units_of D bs)"
proof -
  from drain_all [OF assms, of None] obtain out z where
    d: "drain_objects E D publisher objs None s =
      (out, s\<lparr>vw_decoder := decoder_after D (vw_decoder s) (units_of D bs), vw_source_size := z, vw_objects := [],
         vw_object_bytes := 0\<rparr>, Some (Ok (if objs = [] then None else Some (seq_of (last objs)))))"
    and out: "shown_pictures out = pictures D (vw_decoder s) (units_of D bs)" by blast
  have "drain_and_note E D publisher s =
      (out, s\<lparr>vw_decoder := decoder_after D (vw_decoder s) (units_of D bs), vw_source_size := z, vw_objects := [],
         vw_object_bytes := 0, vw_last_decrypted := (if objs = [] then vw_last_decrypted s else seq_of (last objs))\<rparr>,
       Some (Ok ()))"
    using d assms(4)
    by (cases "objs = []") (simp_all add: drain_and_note_def drain_pending_objects_def task_then_def task_get_def
        task_modify_def task_of_def task_run_def run_of_def)
  with out show ?thesis by blast
qed

section \<open>Messages\<close>

abbreviation object_input :: "native_object \<Rightarrow> viewer_input" where
  "object_input obj \<equiv> FromRelay (Ok (RvObject obj))"

lemma input_loop_step:
  assumes "handle m (s\<lparr>vw_inputs := inputs\<rparr>) = (out, s1, Some (Ok True))"
  shows "input_loop handle (FromRelay (Ok m) # inputs) s =
    (case input_loop handle inputs s1 of (out', s2, r) \<Rightarrow> (out @ out', s2, r))"
  using assms by (simp add: task_then_modify task_then_of) (simp add: task_then_def)

text \<open>Objects before the key: they queue up.\<close>

lemma early_objects:
  assumes "list_all2 (carries E publisher pid sid gk key) objs bs"
    and "cache_get (vw_keys s) gk = None" and "\<forall>obj\<in>set (vw_objects s). for_object obj = gk"
    and "vw_guard s = live_guard_new pid sid n" and "sorted_wrt (<) (n # map seq_of objs)"
    and "vw_object_bytes s = total_len (vw_objects s)"
    and "length (vw_objects s @ objs) \<le> MAX_PENDING_OBJECTS" and "total_len (vw_objects s @ objs) \<le> MAX_PENDING_CIPHERTEXT_BYTES"
    and "vw_inputs s = map object_input objs @ inputs"
  shows "input_loop (playback_message E D cp sid publisher pid) (map object_input objs @ inputs) s =
    input_loop (playback_message E D cp sid publisher pid) inputs
      (s\<lparr>vw_inputs := inputs, vw_guard := live_guard_new pid sid (last (n # map seq_of objs)),
         vw_object_bytes := total_len (vw_objects s @ objs), vw_objects := vw_objects s @ objs\<rparr>)"
  using assms
proof (induction objs bs arbitrary: s n rule: list_all2_induct)
  case Nil
  then have "s\<lparr>vw_inputs := inputs, vw_guard := live_guard_new pid sid (last (n # map seq_of [])),
       vw_object_bytes := total_len (vw_objects s @ []), vw_objects := vw_objects s @ []\<rparr> = s"
    by (cases s) simp
  then show ?case by simp
next
  case (Cons obj objs b bs)
  let ?is = "map object_input objs @ inputs"
  let ?s1 = "s\<lparr>vw_inputs := ?is, vw_guard := live_guard_new pid sid (seq_of obj),
     vw_object_bytes := total_len (vw_objects s @ [obj]), vw_objects := vw_objects s @ [obj]\<rparr>"
  have accept: "live_guard_accept (vw_guard s) obj = Ok (live_guard_new pid sid (seq_of obj), ())"
    using Cons.hyps(1) Cons.prems(3,4) by (simp add: live_guard_accept_def live_guard_new_def carries_def not_le)
  have bytes: "saturating_add_usize (vw_object_bytes s) (length (o_ciphertext obj)) = total_len (vw_objects s @ [obj])"
    using Cons.prems(5,7) by (simp add: saturating_add_usize_def MAX_PENDING_CIPHERTEXT_BYTES_def)
  have idle: "drain_and_note E D publisher ?s1 = ([], ?s1, Some (Ok ()))"
  proof -
    have "cache_get (vw_keys s) (for_object o') = None" if "o' \<in> set (vw_objects s @ [obj])" for o'
      using that Cons.prems(1,2) Cons.hyps(1) by (auto simp: carries_def)
    moreover have "\<exists>o' os. vw_objects s @ [obj] = o' # os" by (cases "vw_objects s") auto
    ultimately obtain o' os where "vw_objects s @ [obj] = o' # os" "cache_get (vw_keys s) (for_object o') = None"
      by (metis list.set_intros(1))
    then show ?thesis
      by (simp add: drain_and_note_def drain_pending_objects_def task_then_def task_get_def task_of_def task_run_def run_of_def)
  qed
  have "playback_message E D cp sid publisher pid (RvObject obj) (s\<lparr>vw_inputs := ?is\<rparr>) = ([], ?s1, Some (Ok True))"
  proof -
    have "play_object E D publisher obj (s\<lparr>vw_inputs := ?is\<rparr>) = drain_and_note E D publisher ?s1"
      using accept bytes Cons.prems(6,7)
      by (simp add: play_object_def task_then_of task_then_modify task_then_get not_less)
    then show ?thesis using idle by (simp add: playback_message_def task_then_def task_of_def task_run_def run_of_def)
  qed
  from input_loop_step [where handle = "playback_message E D cp sid publisher pid" and s = s and inputs = ?is, OF this]
  have "input_loop (playback_message E D cp sid publisher pid) (object_input obj # ?is) s =
    input_loop (playback_message E D cp sid publisher pid) ?is ?s1" by (simp split: prod.splits)
  also have "\<dots> = input_loop (playback_message E D cp sid publisher pid) inputs
      (?s1\<lparr>vw_inputs := inputs, vw_guard := live_guard_new pid sid (last (seq_of obj # map seq_of objs)),
         vw_object_bytes := total_len (vw_objects ?s1 @ objs), vw_objects := vw_objects ?s1 @ objs\<rparr>)"
    by (rule Cons.IH) (use Cons.prems Cons.hyps(1) in \<open>auto simp: carries_def\<close>)
  finally show ?case by simp
qed

text \<open>Objects after the key: each is decoded at once.\<close>

lemma late_object:
  assumes "decodes D (vw_decoder s) (dec_units D b)" and "carries E publisher pid sid gk key obj b" and "cache_get (vw_keys s) gk = Some key"
    and "vw_objects s = []" and "vw_object_bytes s = 0" and "vw_guard s = live_guard_new pid sid n" and "n < seq_of obj"
  shows "\<exists>out z. playback_message E D cp sid publisher pid (RvObject obj) s =
      (out, s\<lparr>vw_guard := live_guard_new pid sid (seq_of obj), vw_decoder := decoder_after D (vw_decoder s) (dec_units D b),
         vw_source_size := z, vw_objects := [], vw_object_bytes := 0, vw_last_decrypted := seq_of obj\<rparr>, Some (Ok True)) \<and>
    shown_pictures out = pictures D (vw_decoder s) (dec_units D b)"
proof -
  let ?s1 = "s\<lparr>vw_guard := live_guard_new pid sid (seq_of obj), vw_object_bytes := length (o_ciphertext obj), vw_objects := [obj]\<rparr>"
  have accept: "live_guard_accept (vw_guard s) obj = Ok (live_guard_new pid sid (seq_of obj), ())"
    using assms(2,6,7) by (simp add: live_guard_accept_def live_guard_new_def carries_def not_le)
  have len: "length (o_ciphertext obj) \<le> MAX_MEDIA_CIPHERTEXT_LEN" using assms(2) by (simp add: carries_def)
  have play: "play_object E D publisher obj s = drain_and_note E D publisher ?s1"
    using accept assms(4,5) len
    by (simp add: play_object_def task_then_of task_then_modify task_then_get saturating_add_usize_def
        MAX_PENDING_OBJECTS_def MAX_PENDING_CIPHERTEXT_BYTES_def MAX_MEDIA_CIPHERTEXT_LEN_def)
  obtain out z where "drain_and_note E D publisher ?s1 =
      (out, ?s1\<lparr>vw_decoder := decoder_after D (vw_decoder ?s1) (units_of D [b]), vw_source_size := z, vw_objects := [],
         vw_object_bytes := 0, vw_last_decrypted := (if [obj] = [] then vw_last_decrypted ?s1 else seq_of (last [obj]))\<rparr>,
       Some (Ok ()))" "shown_pictures out = pictures D (vw_decoder ?s1) (units_of D [b])"
    using drain_and_note_all [of D ?s1 "[b]" E publisher pid sid gk key "[obj]"] assms(1-3) by auto
  then show ?thesis
    using play by (intro exI [of _ out] exI [of _ z])
      (simp add: playback_message_def task_then_def task_of_def task_run_def run_of_def)
qed

lemma late_objects:
  assumes "decodes D (vw_decoder s) (units_of D bs)" and "list_all2 (carries E publisher pid sid gk key) objs bs" and "cache_get (vw_keys s) gk = Some key"
    and "vw_objects s = []" and "vw_object_bytes s = 0" and "vw_guard s = live_guard_new pid sid n"
    and "sorted_wrt (<) (n # map seq_of objs)"
  shows "\<exists>out s'. input_loop (playback_message E D cp sid publisher pid) (map object_input objs) s = (out, s', None) \<and>
    vw_objects s' = [] \<and> vw_decoder s' = decoder_after D (vw_decoder s) (units_of D bs) \<and>
    vw_last_decrypted s' = (if objs = [] then vw_last_decrypted s else seq_of (last objs)) \<and>
    shown_pictures out = pictures D (vw_decoder s) (units_of D bs)"
  using assms(2,1,3-)
proof (induction objs bs arbitrary: s n rule: list_all2_induct)
  case Nil
  then show ?case by simp
next
  case (Cons obj objs b bs)
  let ?s = "s\<lparr>vw_inputs := map object_input objs\<rparr>"
  obtain out1 z where 1: "playback_message E D cp sid publisher pid (RvObject obj) ?s =
      (out1, ?s\<lparr>vw_guard := live_guard_new pid sid (seq_of obj), vw_decoder := decoder_after D (vw_decoder s) (dec_units D b),
         vw_source_size := z, vw_objects := [], vw_object_bytes := 0, vw_last_decrypted := seq_of obj\<rparr>, Some (Ok True))"
    "shown_pictures out1 = pictures D (vw_decoder s) (dec_units D b)"
    using late_object [OF _ Cons.hyps(1), of D ?s n cp] Cons.prems by (auto simp: decodes_append)
  let ?s1 = "?s\<lparr>vw_guard := live_guard_new pid sid (seq_of obj), vw_decoder := decoder_after D (vw_decoder s) (dec_units D b),
         vw_source_size := z, vw_objects := [], vw_object_bytes := 0, vw_last_decrypted := seq_of obj\<rparr>"
  obtain out2 s2 where 2: "input_loop (playback_message E D cp sid publisher pid) (map object_input objs) ?s1 = (out2, s2, None)"
    "vw_objects s2 = []" "vw_decoder s2 = decoder_after D (vw_decoder ?s1) (units_of D bs)"
    "vw_last_decrypted s2 = (if objs = [] then vw_last_decrypted ?s1 else seq_of (last objs))"
    "shown_pictures out2 = pictures D (vw_decoder ?s1) (units_of D bs)"
    using Cons.IH [of ?s1 "seq_of obj"] Cons.prems by (auto simp: decodes_append)
  show ?case
    using input_loop_step [where handle = "playback_message E D cp sid publisher pid" and s = s, OF 1(1)] 1(2) 2
    by (intro exI [of _ "out1 @ out2"] exI [of _ s2]) (simp add: decoder_after_append pictures_append)
qed

text \<open>The key: the queue is decoded.\<close>

lemma key_arrives:
  assumes "decodes D (vw_decoder s) (units_of D bs)" and "list_all2 (carries E publisher pid sid gk key) (vw_objects s) bs"
    and "cache_ok (vw_keys s)" and "vw_object_bytes s = total_len (vw_objects s)"
    and "k_publisher_id (e_header envelope) = pid" and "k_stream_id (e_header envelope) = sid"
    and "secret_public E (cp_identity cp) = Ok viewer" and "identity_id E viewer = Ok (k_recipient_id (e_header envelope))"
    and "envelope_open E (cp_identity cp) publisher envelope = Ok key" and "envelope_group (e_header envelope) = gk"
  shows "\<exists>out c z. playback_message E D cp sid publisher pid (RvKeyEnvelope envelope) s =
      (out, s\<lparr>vw_keys := c, vw_decoder := decoder_after D (vw_decoder s) (units_of D bs), vw_source_size := z, vw_objects := [],
         vw_object_bytes := 0,
         vw_last_decrypted := (if vw_objects s = [] then vw_last_decrypted s else seq_of (last (vw_objects s)))\<rparr>,
       Some (Ok True)) \<and> cache_get c gk = Some key \<and>
    shown_pictures out = pictures D (vw_decoder s) (units_of D bs)"
proof -
  obtain c where c: "cache_insert gk key (vw_keys s) = Some c" "cache_get c gk = Some key"
    by (rule cache_insert_ok [OF assms(3), where g = gk and k = key])
  let ?s = "s\<lparr>vw_keys := c\<rparr>"
  have "play_envelope E D cp sid publisher pid envelope s = drain_and_note E D publisher ?s"
    using assms(5-) c(1)
    by (simp add: play_envelope_def Let_def task_then_of) (simp add: task_then_def insert_key_def split: prod.splits)
  moreover obtain out z where "drain_and_note E D publisher ?s =
      (out, ?s\<lparr>vw_decoder := decoder_after D (vw_decoder ?s) (units_of D bs), vw_source_size := z, vw_objects := [],
         vw_object_bytes := 0, vw_last_decrypted := (if vw_objects s = [] then vw_last_decrypted ?s else seq_of (last (vw_objects s)))\<rparr>,
       Some (Ok ()))" "shown_pictures out = pictures D (vw_decoder ?s) (units_of D bs)"
    using drain_and_note_all [OF _ assms(2), of D ?s] c(2) assms(1,4) by auto
  ultimately show ?thesis
    using c(2) by (intro exI [of _ out] exI [of _ c] exI [of _ z])
      (simp add: playback_message_def task_then_def task_of_def task_run_def run_of_def)
qed

section \<open>Sealing a stream\<close>

fun seal_each ::
  "'z native_env_scheme \<Rightarrow> identity_secret \<Rightarrow> group_encryptor \<Rightarrow> (new_native_object \<times> bytes) list
    \<Rightarrow> native_stream_error + native_object list" where
  "seal_each E publisher g [] = Ok []"
| "seal_each E publisher g (x # xs) =
     and_then (group_seal E publisher g x) (\<lambda>(g', obj). and_then (seal_each E publisher g' xs) (\<lambda>objs. Ok (obj # objs)))"

text \<open>What the decoder gets of an epoch or a media object\<close>

definition decoder_bytes :: "'z native_env_scheme \<Rightarrow> new_native_object \<times> bytes \<Rightarrow> bytes" where
  "decoder_bytes E x =
     (if n_kind (fst x) = Epoch then (case epoch_decode E (snd x) of Inr ep \<Rightarrow> ep_codec_config ep | Inl _ \<Rightarrow> []) else snd x)"

definition group_viewer_key :: "group_encryptor \<Rightarrow> viewer_key" where
  "group_viewer_key g = \<lparr>gk_stream_id = g_stream_id g, gk_epoch_id = g_epoch_id g, gk_key_group = g_key_group g, gk_key_id = g_key_id g\<rparr>"

lemma group_seal_carries:
  assumes "keys_ok E" and "aead_ok E" and "secret_public E secret = Ok publisher" and "identity_id E publisher = Ok pid"
    and "g_key g \<noteq> 0" and "group_seal E secret g x = Ok (g', obj)" and "n_kind (fst x) \<noteq> Cursor"
  shows "carries E publisher pid (g_stream_id g) (group_viewer_key g) (g_key g) obj (decoder_bytes E x)"
    and "seq_of obj = n_sequence (fst x)" and "g_last_sequence g < n_sequence (fst x)"
    and "g' = g\<lparr>g_last_sequence := n_sequence (fst x), g_media_started := (g_media_started g \<or> n_kind (fst x) = Media)\<rparr>"
    and "length (o_ciphertext obj) = length (snd x) + AEAD_TAG_LEN"
proof -
  obtain new plain where x: "x = (new, plain)" by (cases x)
  have seal: "group_seal E secret g (new, plain) = Ok (g', obj)" using assms(6) x by simp
  have opens: "validate_shape E obj = Ok ()" "object_open E publisher (g_key g) (g_key_id g) obj = Ok plain"
    using seal_then_open [OF assms(1,2,3) seal] by simp_all
  from seal show "seq_of obj = n_sequence (fst x)" "g_last_sequence g < n_sequence (fst x)"
    "g' = g\<lparr>g_last_sequence := n_sequence (fst x), g_media_started := (g_media_started g \<or> n_kind (fst x) = Media)\<rparr>"
    "length (o_ciphertext obj) = length (snd x) + AEAD_TAG_LEN"
    using opens(1) by (auto elim!: group_seal_ok simp: x seal_header_def validate_shape_def result_simps split: if_splits)
  from seal obtain ct_len where h: "o_header obj = seal_header g new ct_len" "identity_id E publisher = Ok (g_publisher_id g)"
    "validate_plaintext E (n_kind new) plain = Ok ()"
    using assms(3) by (auto elim!: group_seal_ok)
  have shape: "validate_header (o_header obj) = Ok ()" "length (o_ciphertext obj) = unat (h_ciphertext_len (o_header obj))"
    using opens(1) by (auto simp: validate_shape_def result_simps split: if_splits)
  have kind: "h_kind (o_header obj) = n_kind new" using h(1) by (simp add: seal_header_def)
  have codec: "h_codec (o_header obj) = Some H264AnnexB" "unat (h_ciphertext_len (o_header obj)) \<le> max_ciphertext (n_kind new)"
    using shape(1) assms(7) kind by (auto simp: validate_header_def x split: if_splits native_object_kind.splits)
  have max: "max_ciphertext (n_kind new) \<le> MAX_MEDIA_CIPHERTEXT_LEN"
    by (cases "n_kind new") (simp_all add: max_ciphertext_def MAX_MEDIA_CIPHERTEXT_LEN_def MAX_EPOCH_CIPHERTEXT_LEN_def
        MAX_CURSOR_CIPHERTEXT_LEN_def)
  have body: "case h_kind (o_header obj) of Media \<Rightarrow> decoder_bytes E x = plain
     | Epoch \<Rightarrow> (\<exists>ep. epoch_decode E plain = Ok ep \<and> decoder_bytes E x = ep_codec_config ep) | Cursor \<Rightarrow> False"
    using h(3) assms(7) kind x
    by (cases "n_kind new") (auto simp: decoder_bytes_def validate_plaintext_def result_simps split: if_splits)
  have "for_object obj = group_viewer_key g" "h_key_id (o_header obj) = g_key_id g"
    "h_publisher_id (o_header obj) = pid" "h_stream_id (o_header obj) = g_stream_id g"
    using h assms(4) by (simp_all add: for_object_def group_viewer_key_def seal_header_def)
  then show "carries E publisher pid (g_stream_id g) (group_viewer_key g) (g_key g) obj (decoder_bytes E x)"
    unfolding carries_def using assms(5) codec shape(2) max opens(2) body by auto
qed

lemma seal_each_carries:
  assumes "keys_ok E" and "aead_ok E" and "secret_public E secret = Ok publisher" and "identity_id E publisher = Ok pid"
    and "g_key g \<noteq> 0" and "seal_each E secret g xs = Ok objs" and "\<forall>x\<in>set xs. n_kind (fst x) \<noteq> Cursor"
  shows "list_all2 (carries E publisher pid (g_stream_id g) (group_viewer_key g) (g_key g)) objs (map (decoder_bytes E) xs) \<and>
    sorted_wrt (<) (g_last_sequence g # map seq_of objs) \<and> map seq_of objs = map (n_sequence \<circ> fst) xs \<and>
    map (\<lambda>obj. length (o_ciphertext obj)) objs = map (\<lambda>x. length (snd x) + AEAD_TAG_LEN) xs"
  using assms(5-)
proof (induction xs arbitrary: g objs)
  case (Cons x xs)
  from Cons.prems(2) obtain g' obj objs' where 1: "group_seal E secret g x = Ok (g', obj)" "seal_each E secret g' xs = Ok objs'"
    "objs = obj # objs'"
    by (auto simp: result_simps)
  note c = group_seal_carries [OF assms(1-4) Cons.prems(1) 1(1)]
  have "g_key g' \<noteq> 0" using c(4) Cons.prems(1,3) by simp
  moreover have "\<forall>x\<in>set xs. n_kind (fst x) \<noteq> Cursor" using Cons.prems(3) by simp
  ultimately have IH:
    "list_all2 (carries E publisher pid (g_stream_id g') (group_viewer_key g') (g_key g')) objs' (map (decoder_bytes E) xs)"
    "sorted_wrt (<) (g_last_sequence g' # map seq_of objs')" "map seq_of objs' = map (n_sequence \<circ> fst) xs"
    "map (\<lambda>obj. length (o_ciphertext obj)) objs' = map (\<lambda>x. length (snd x) + AEAD_TAG_LEN) xs"
    using Cons.IH [OF _ 1(2)] by blast+
  have same: "g_stream_id g' = g_stream_id g" "group_viewer_key g' = group_viewer_key g" "g_key g' = g_key g"
    "g_last_sequence g' = seq_of obj"
    using c Cons.prems(3) by (simp_all add: group_viewer_key_def)
  show ?case
    using IH c Cons.prems(3) 1(3) unfolding same by (auto intro: order.strict_trans)
qed simp

lemma sorted_from_last: "sorted_wrt P (a # xs @ ys) \<Longrightarrow> sorted_wrt P (last (a # xs) # ys)"
  by (cases xs rule: rev_cases) (auto simp: sorted_wrt_append)

lemma envelope_seal_fields:
  assumes "envelope_seal E rnd secret viewer sid epoch key_group key_id key = Ok envelope"
    and "secret_public E secret = Ok publisher" and "identity_id E publisher = Ok pid"
  shows "k_publisher_id (e_header envelope) = pid" "k_stream_id (e_header envelope) = sid"
    "identity_id E viewer = Ok (k_recipient_id (e_header envelope))"
    "envelope_group (e_header envelope) = \<lparr>gk_stream_id = sid, gk_epoch_id = epoch, gk_key_group = key_group, gk_key_id = key_id\<rparr>"
  using assms unfolding envelope_seal_def Let_def result_simps by (auto simp: envelope_group_def result_simps)

section \<open>Properties\<close>

text \<open>C4: A publisher seals a sequence of epoch and media objects under a group key and seals that key for a
  viewer who does not have it yet.  Let the decoder take the units of the published plaintexts, one after
  the other, from the state the subscription starts it in.  Wherever in the sequence the envelope reaches
  the viewer, as long as the objects before it fit the queue, the subscription keeps running, every object is decoded and none left waiting: the decoder
  has been given exactly the units of the published plaintexts, in order, every picture it returned was
  shown, and the sequence to resume from is the last published one.\<close>

theorem sealed_stream_plays:
  assumes laws: "keys_ok E" "aead_ok E" "hpke_ok E" and decoder: "decodes D d (units_of D (map (decoder_bytes E) (early @ late)))"
    and ids: "secret_public E secret = Ok publisher" "identity_id E publisher = Ok pid"
      "secret_public E (cp_identity cp) = Ok viewer"
    and key: "g_key g \<noteq> 0"
      "envelope_seal E rnd secret viewer (g_stream_id g) (g_epoch_id g) (g_key_group g) (g_key_id g) (g_key g) = Ok envelope"
    and objs: "seal_each E secret g (early @ late) = Ok objs" "\<forall>x\<in>set (early @ late). n_kind (fst x) \<noteq> Cursor"
    and limits: "length early \<le> MAX_PENDING_OBJECTS"
      "(\<Sum>x\<leftarrow>early. length (snd x) + AEAD_TAG_LEN) \<le> MAX_PENDING_CIPHERTEXT_BYTES"
    and cache: "cache_ok (vw_keys s)" "cache_get (vw_keys s) (group_viewer_key g) = None"
    and first: "first - 1 \<le> g_last_sequence g" "first \<noteq> 0"
    and inputs: "vw_inputs s = map object_input (take (length early) objs) @ FromRelay (Ok (RvKeyEnvelope envelope))
       # map object_input (drop (length early) objs)"
  shows "\<exists>out s'. read_each (playback_message E D cp (g_stream_id g) publisher pid)
      (start_playback pid (g_stream_id g) first d s) = (out, s', None) \<and> vw_objects s' = [] \<and>
    vw_decoder s' = decoder_after D d (units_of D (map (decoder_bytes E) (early @ late))) \<and>
    shown_pictures out = pictures D d (units_of D (map (decoder_bytes E) (early @ late))) \<and>
    vw_last_decrypted s' = last (vw_last_decrypted s # map (n_sequence \<circ> fst) (early @ late))"
proof -
  let ?sid = "g_stream_id g" and ?gk = "group_viewer_key g"
  let ?os = "take (length early) objs" and ?ol = "drop (length early) objs"
  let ?be = "map (decoder_bytes E) early" and ?bl = "map (decoder_bytes E) late"
  let ?h = "playback_message E D cp ?sid publisher pid"
  let ?late = "map object_input ?ol"
  let ?s0 = "start_playback pid ?sid first d s"
  note sealed = seal_each_carries [OF laws(1,2) ids(1,2) key(1) objs]
  have order: "sorted_wrt (<) (g_last_sequence g # map seq_of objs)" using sealed by blast
  have len: "length objs = length early + length late" using list_all2_lengthD [OF conjunct1 [OF sealed]] by simp
  have early: "list_all2 (carries E publisher pid ?sid ?gk (g_key g)) ?os ?be"
    using list_all2_takeI [OF conjunct1 [OF sealed], of "length early"] by simp
  have late: "list_all2 (carries E publisher pid ?sid ?gk (g_key g)) ?ol ?bl"
    using list_all2_dropI [OF conjunct1 [OF sealed], of "length early"] by simp
  have seqs: "map seq_of ?os = map (n_sequence \<circ> fst) early" "map seq_of ?ol = map (n_sequence \<circ> fst) late"
    using sealed by (simp_all add: take_map [symmetric] drop_map [symmetric])
  have total: "total_len ?os = (\<Sum>x\<leftarrow>early. length (snd x) + AEAD_TAG_LEN)"
    using sealed by (simp add: take_map [symmetric])
  have s0: "vw_objects ?s0 = []" "vw_object_bytes ?s0 = 0" "vw_guard ?s0 = live_guard_new pid ?sid (first - 1)"
    "vw_keys ?s0 = vw_keys s" "vw_inputs ?s0 = vw_inputs s" "vw_decoder ?s0 = d" "vw_last_decrypted ?s0 = vw_last_decrypted s"
    using first(2) by (simp_all add: start_playback_def)
  have sorted: "sorted_wrt (<) ((first - 1) # map seq_of ?os @ map seq_of ?ol)"
    using order first(1) by (auto simp: take_map [symmetric] drop_map [symmetric] intro: order.strict_trans1)
  let ?n = "last ((first - 1) # map seq_of ?os)"
  let ?s1 = "?s0\<lparr>vw_inputs := FromRelay (Ok (RvKeyEnvelope envelope)) # ?late, vw_guard := live_guard_new pid ?sid ?n,
     vw_object_bytes := total_len (vw_objects ?s0 @ ?os), vw_objects := vw_objects ?s0 @ ?os\<rparr>"
  have 1: "input_loop ?h (vw_inputs s) ?s0 = input_loop ?h (FromRelay (Ok (RvKeyEnvelope envelope)) # ?late) ?s1"
    unfolding inputs
    by (rule early_objects [OF early]) (use s0 cache(2) limits total sorted inputs len in \<open>auto simp: sorted_wrt_append\<close>)
  have takes: "decodes D d (units_of D ?be)" "decodes D (decoder_after D d (units_of D ?be)) (units_of D ?bl)"
    using decoder by (simp_all add: decodes_append)
  note fields = envelope_seal_fields [OF key(2) ids(1,2)]
  have opens: "envelope_open E (cp_identity cp) publisher envelope = Ok (g_key g)"
    using seal_then_open_envelope [OF laws(1,3) ids(1,3) key(2)] by simp
  define t where "t = ?s1\<lparr>vw_inputs := ?late\<rparr>"
  have t: "vw_objects t = ?os" "vw_keys t = vw_keys s" "vw_object_bytes t = total_len ?os" "vw_decoder t = d"
    "vw_guard t = live_guard_new pid ?sid ?n" "vw_last_decrypted t = vw_last_decrypted s"
    using s0 by (simp_all add: t_def)
  have queued: "list_all2 (carries E publisher pid ?sid ?gk (g_key g)) (vw_objects t) ?be" using early t(1) by simp
  have keys: "cache_ok (vw_keys t)" "vw_object_bytes t = total_len (vw_objects t)" "envelope_group (e_header envelope) = ?gk"
    using cache(1) t fields(4) by (simp_all add: group_viewer_key_def)
  obtain out1 c z where 2: "?h (RvKeyEnvelope envelope) t =
      (out1, t\<lparr>vw_keys := c, vw_decoder := decoder_after D (vw_decoder t) (units_of D ?be), vw_source_size := z, vw_objects := [],
         vw_object_bytes := 0,
         vw_last_decrypted := (if vw_objects t = [] then vw_last_decrypted t else seq_of (last (vw_objects t)))\<rparr>, Some (Ok True))"
    "cache_get c ?gk = Some (g_key g)" "shown_pictures out1 = pictures D (vw_decoder t) (units_of D ?be)"
    using key_arrives [OF takes(1) [folded t(4)] queued keys(1,2) fields(1,2) ids(3) fields(3) opens keys(3)] by blast
  define s2 where "s2 = t\<lparr>vw_keys := c, vw_decoder := decoder_after D (vw_decoder t) (units_of D ?be), vw_source_size := z,
      vw_objects := [], vw_object_bytes := 0,
      vw_last_decrypted := (if vw_objects t = [] then vw_last_decrypted t else seq_of (last (vw_objects t)))\<rparr>"
  have s2: "vw_keys s2 = c" "vw_objects s2 = []" "vw_object_bytes s2 = 0" "vw_guard s2 = live_guard_new pid ?sid ?n"
    "vw_decoder s2 = decoder_after D d (units_of D ?be)"
    "vw_last_decrypted s2 = (if ?os = [] then vw_last_decrypted s else seq_of (last ?os))"
    using t by (simp_all add: s2_def)
  have "sorted_wrt (<) (?n # map seq_of ?ol)" using sorted by (rule sorted_from_last)
  then obtain out2 s' where 3: "input_loop ?h ?late s2 = (out2, s', None)" "vw_objects s' = []"
    "vw_decoder s' = decoder_after D (vw_decoder s2) (units_of D ?bl)"
    "vw_last_decrypted s' = (if ?ol = [] then vw_last_decrypted s2 else seq_of (last ?ol))"
    "shown_pictures out2 = pictures D (vw_decoder s2) (units_of D ?bl)"
    using late_objects [OF takes(2) [folded s2(5)] late, of ?n cp] 2(2) s2 by auto
  have "input_loop ?h (FromRelay (Ok (RvKeyEnvelope envelope)) # ?late) ?s1 = (out1 @ out2, s', None)"
    using input_loop_step [where handle = ?h and s = ?s1 and inputs = ?late and m = "RvKeyEnvelope envelope", folded t_def]
      2(1) [folded s2_def] 3(1) by simp
  with 1 have "read_each ?h ?s0 = (out1 @ out2, s', None)" using s0(5) by (simp add: read_each_def task_then_get)
  moreover have "vw_last_decrypted s' = last (vw_last_decrypted s # map seq_of ?os @ map seq_of ?ol)"
    using 3(4) s2(6) by (auto simp: last_map last_append)
  ultimately show ?thesis
    using 2(3) 3 s2 t(4) seqs by (intro exI [of _ "out1 @ out2"] exI [of _ s']) (simp add: decoder_after_append pictures_append)
qed

end
