(* ===== verification/Pinning.thy ===== *)
theory Pinning
  imports Playback
begin

text \<open>
  The viewer's files: once a publisher is verified for a stream it stays so, whatever the viewer's commands
  do, and no other publisher is listed, paired with or subscribed to under that stream; and what becomes
  of pending pairings that outgrow their file.
\<close>

section \<open>Verified publishers on file\<close>

text \<open>\<^verbatim>\<open>postcard\<close> writes an identity as its two keys of 32 bytes.\<close>

definition verified_codec_wide :: "'z viewer_env_scheme \<Rightarrow> bool" where
  "verified_codec_wide E \<longleftrightarrow>
     (\<forall>st bs. to_stdvec (verified_codec E) st = Some bs \<longrightarrow> 64 * length (vp_publishers st) \<le> length bs)"

lemma index_publishers_ok:
  assumes "sorted_wrt (<) (map fst entries)" and "\<forall>e\<in>set entries. fst e \<notin> fst ` set publishers"
    and "case previous of None \<Rightarrow> True | Some p \<Rightarrow> \<forall>e\<in>set entries. p < fst e"
  shows "\<exists>r. index_publishers previous entries publishers = Ok r \<and> map_of r = map_of publishers ++ map_of entries"
  using assms
proof (induction entries arbitrary: previous publishers)
  case (Cons e entries)
  obtain sid p where e: "e = (sid, p)" by (cases e)
  have new: "map_of publishers sid = None" using Cons.prems(2) e by (simp add: map_of_eq_None_iff)
  obtain r where r: "index_publishers (Some sid) entries (AList.update sid p publishers) = Ok r"
      "map_of r = map_of (AList.update sid p publishers) ++ map_of entries"
    using Cons.IH [of "AList.update sid p publishers" "Some sid"] Cons.prems e by (auto simp: dom_update)
  have "map_of entries sid = None" using Cons.prems(1) e by (auto simp: map_of_eq_None_iff)
  then have "map_of r = map_of publishers ++ map_of (e # entries)"
    using e r(2) by (auto simp: fun_eq_iff update_conv' map_add_def split: option.splits)
  moreover have "index_publishers previous (e # entries) publishers = Ok r"
    using Cons.prems(3) new e r(1) by (cases previous) (auto simp: not_le)
  ultimately show ?case by blast
qed simp

lemma index_publishers_distinct:
  "index_publishers previous entries publishers = Ok r \<Longrightarrow> distinct (map fst publishers) \<Longrightarrow> distinct (map fst r)"
  by (induction previous entries publishers rule: index_publishers.induct) (auto split: if_splits simp: distinct_update)

lemma distinct_map_sort_key: "distinct (map f (sort_key f xs)) \<longleftrightarrow> distinct (map f xs)"
  by (simp add: distinct_map)

lemma map_of_sort_key:
  assumes "distinct (map fst xs)"
  shows "map_of (sort_key fst xs) = map_of xs"
proof
  fix k
  have "map_of (sort_key fst xs) k = Some v \<longleftrightarrow> map_of xs k = Some v" for v
    using assms by (simp add: distinct_map_sort_key)
  then show "map_of (sort_key fst xs) k = map_of xs k" by (metis not_None_eq)
qed

text \<open>What is written is read back.\<close>

lemma saved_publishers_load:
  assumes "postcard_ok (verified_codec E)" and "verified_codec_wide E" and "distinct (map fst publishers)"
    and "encode_verified E publishers = Ok encoded" and "length encoded \<le> MAX_VERIFIED_PUBLISHERS_BYTES"
  obtains r where "load_verified_publishers_unlocked E (Ok encoded) = Ok r" and "map_of r = map_of publishers"
proof -
  let ?st = "\<lparr>vp_version = VERIFIED_PUBLISHERS_VERSION, vp_publishers = sort_key fst publishers\<rparr>"
  have enc: "to_stdvec (verified_codec E) ?st = Some encoded" using assms(4) by (simp add: encode_verified_def result_simps)
  have few: "length publishers \<le> 65536"
    using assms(2,5) enc unfolding verified_codec_wide_def MAX_VERIFIED_PUBLISHERS_BYTES_def by fastforce
  have "sorted_wrt (<) (map fst (sort_key fst publishers))"
    using assms(3) by (simp add: strict_sorted_iff distinct_map_sort_key)
  then obtain r where "index_publishers None (sort_key fst publishers) [] = Ok r" "map_of r = map_of (sort_key fst publishers)"
    using index_publishers_ok [of "sort_key fst publishers" "[]" None] by auto
  then show ?thesis
    using that [of r] few postcard_okD_exact [OF assms(1) enc] enc assms(3)
    by (simp add: load_verified_publishers_unlocked_def map_of_sort_key)
qed

section \<open>A pinned stream\<close>

definition verified_in :: "'z viewer_env_scheme \<Rightarrow> uuid \<Rightarrow> array32 \<Rightarrow> (uuid \<times> identity_public) list \<Rightarrow> bool" where
  "verified_in E sid i publishers \<longleftrightarrow> (\<exists>p. map_of publishers sid = Some p \<and> identity_id E p = Ok i)"

definition pinned :: "'z viewer_env_scheme \<Rightarrow> uuid \<Rightarrow> array32 \<Rightarrow> 'd viewer_world \<Rightarrow> bool" where
  "pinned E sid i s \<longleftrightarrow>
     (\<exists>publishers. load_verified_publishers_unlocked E (read_private MAX_VERIFIED_PUBLISHERS_BYTES None (vw_verified_file s))
        = Ok publishers \<and> verified_in E sid i publishers)"

text \<open>A failing read is not a missing file.\<close>

definition faults_ok :: "viewer_inputs \<Rightarrow> bool" where
  "faults_ok I \<longleftrightarrow> (\<forall>n. vi_file_fault I n \<noteq> Some NotFound)"

lemma pinned_cong: "vw_verified_file s' = vw_verified_file s \<Longrightarrow> pinned E sid i s \<Longrightarrow> pinned E sid i s'"
  by (simp add: pinned_def)

lemma load_distinct: "load_verified_publishers_unlocked E read = Ok publishers \<Longrightarrow> distinct (map fst publishers)"
  by (auto simp: load_verified_publishers_unlocked_def result_simps split: sum.splits io_error_kind.splits if_splits
      dest!: index_publishers_distinct)

lemma pinned_file:
  assumes "pinned E sid i s"
  obtains bs where "vw_verified_file s = Some bs" and "length bs \<le> MAX_VERIFIED_PUBLISHERS_BYTES"
  using assms that
  by (auto simp: pinned_def read_private_def load_verified_publishers_unlocked_def verified_in_def split: option.splits if_splits)

lemma pinned_read:
  assumes "pinned E sid i s" and "fault \<noteq> Some NotFound"
    and "load_verified_publishers_unlocked E (read_private MAX_VERIFIED_PUBLISHERS_BYTES fault (vw_verified_file s)) = Ok publishers"
  shows "verified_in E sid i publishers"
  using assms
  by (cases fault) (auto simp: pinned_def read_private_def load_verified_publishers_unlocked_def split: io_error_kind.splits)

text \<open>What the viewer writes and shows: a catalog lists the stream under the pinned publisher only.\<close>

definition catalog_pinned :: "'z viewer_env_scheme \<Rightarrow> uuid \<Rightarrow> array32 \<Rightarrow> viewer_output \<Rightarrow> bool" where
  "catalog_pinned E sid i m =
     (case m of
        Shown (EvCatalog entries) \<Rightarrow>
          \<forall>entry\<in>set entries. d_stream_id (d_body (cat_descriptor entry)) = sid \<longrightarrow>
            identity_id E (d_publisher (d_body (cat_descriptor entry))) = Ok i
      | _ \<Rightarrow> True)"

abbreviation pins where
  "pins E sid i \<equiv> upholds (pinned E sid i) (catalog_pinned E sid i)"

lemma pins_ask: "pins E sid i (view_ask f) (\<lambda>x. \<exists>n. x = f n)"
  by (auto simp: upholds_def view_ask_def pinned_def)

lemma pins_ask_any: "pins E sid i (view_ask f) (\<lambda>_. True)"
  by (auto simp: upholds_def view_ask_def pinned_def)

lemma pins_show: "catalog_pinned E sid i (Shown e) \<Longrightarrow> pins E sid i (show_event e) (\<lambda>_. True)"
  unfolding show_event_def by (rule upholds_run) simp

lemma pins_local: "(\<And>s. vw_verified_file (f s) = vw_verified_file s) \<Longrightarrow> pins E sid i (task_modify f) (\<lambda>_. True)"
  by (auto simp: upholds_def task_modify_def pinned_def)

lemma pins_of: "pins E sid i (task_of r) (\<lambda>_. True)"
  by (rule upholds_of) simp

lemma pins_get: "pins E sid i (task_get f) (\<lambda>_. True)"
  by (rule upholds_get) simp

lemma pins_then: "pins E sid i m (\<lambda>_. True) \<Longrightarrow> (\<And>x. pins E sid i (k x) (\<lambda>_. True)) \<Longrightarrow> pins E sid i (task_then m k) (\<lambda>_. True)"
  by (rule upholds_then)

lemma pins_try: "pins E sid i t (\<lambda>_. True) \<Longrightarrow> pins E sid i (task_try t) (\<lambda>_. True)"
  unfolding upholds_def task_try_def by (auto split: prod.splits)

lemma pins_option: "pins E sid i a Q \<Longrightarrow> (\<And>x. pins E sid i (f x) Q) \<Longrightarrow> pins E sid i (case p of None \<Rightarrow> a | Some x \<Rightarrow> f x) Q"
  by (cases p) simp_all

lemma pins_sum: "(\<And>x. pins E sid i (f x) Q) \<Longrightarrow> (\<And>x. pins E sid i (g x) Q) \<Longrightarrow> pins E sid i (case p of Inl x \<Rightarrow> f x | Inr x \<Rightarrow> g x) Q"
  by (cases p) simp_all

lemma pins_pair: "(\<And>x y. pins E sid i (f x y) Q) \<Longrightarrow> pins E sid i (case p of (x, y) \<Rightarrow> f x y) Q"
  by (cases p) simp

lemma pins_if: "pins E sid i a Q \<Longrightarrow> pins E sid i b Q \<Longrightarrow> pins E sid i (if c then a else b) Q"
  by simp

lemma pins_send: "pins E sid i (send_viewer I m) (\<lambda>_. True)"
  unfolding send_viewer_def
  by (intro pins_then pins_ask_any pins_of upholds_run) (auto simp: catalog_pinned_def)

lemma pins_read: "pins E sid i read_viewer (\<lambda>_. True)"
  by (auto simp: upholds_def read_viewer_def pinned_def split: prod.splits)

lemma pins_insert_key: "pins E sid i (insert_key g k) (\<lambda>_. True)"
  by (auto simp: upholds_def insert_key_def pinned_def split: option.splits)

lemma pins_save_pairings: "pins E sid i (save_pairings E' I) (\<lambda>_. True)"
  unfolding save_pairings_def
  by (rule pins_then [OF pins_ask_any]) (auto simp: upholds_def pinned_def split: prod.splits)

lemmas pins_steps = pins_then pins_ask_any pins_of pins_get pins_local pins_option pins_sum pins_pair pins_if pins_send pins_read
  pins_insert_key pins_save_pairings

lemma pins_loop: "(\<And>m. pins E sid i (handle m) (\<lambda>_. True)) \<Longrightarrow> pins E sid i (read_each handle) (\<lambda>_. True)"
proof -
  assume h: "\<And>m. pins E sid i (handle m) (\<lambda>_. True)"
  have "pins E sid i (input_loop handle inputs) (\<lambda>_. True)" for inputs
  proof (induction inputs)
    case Nil
    show ?case by (auto simp: upholds_def pinned_def)
  next
    case (Cons input inputs)
    show ?case
    proof (cases input)
      case (FromRelay reply)
      then show ?thesis using Cons h by (auto intro!: pins_then pins_local pins_of pins_if)
    next
      case (OtherTasks kvs)
      show ?thesis
        unfolding upholds_def
      proof (intro allI impI)
        fix s out s' r
        assume p: "pinned E sid i s" and run: "input_loop handle (input # inputs) s = (out, s', r)"
        show "pinned E sid i s' \<and> (\<forall>m\<in>set out. catalog_pinned E sid i m) \<and> (\<forall>x. r = Some (Ok x) \<longrightarrow> True)"
        proof (cases "insert_keys kvs (vw_keys s)")
          case (Some c)
          have "pinned E sid i (s\<lparr>vw_keys := c\<rparr>)" by (rule pinned_cong [OF _ p]) simp
          from upholdsD [OF Cons this] run OtherTasks Some show ?thesis by simp
        qed (use p run OtherTasks in simp)
      qed
    qed
  qed
  then show ?thesis unfolding read_each_def by (intro pins_then pins_get)
qed

section \<open>The operations\<close>

lemma pins_connect: "pins E sid i (view_connect E' I cp) (\<lambda>_. True)"
  unfolding view_connect_def view_known_relays_def by (intro pins_steps) simp_all

lemma load_verified_run:
  "load_verified E I s = ([], s\<lparr>vw_asked := Suc (vw_asked s)\<rparr>,
     Some (and_then (map_err VeIo (vi_lock I (vw_asked s))) (\<lambda>_. load_verified_publishers_unlocked E
       (read_private MAX_VERIFIED_PUBLISHERS_BYTES (vi_file_fault I (vw_asked s)) (vw_verified_file s)))))"
  by (auto simp: load_verified_def view_ask_def task_then_def task_get_def task_of_def task_run_def run_of_def and_then_def
      split: sum.splits)

lemma pins_load:
  assumes "faults_ok I"
  shows "pins E sid i (load_verified E I) (verified_in E sid i)"
  unfolding upholds_def load_verified_run
  using assms by (auto simp: faults_ok_def result_simps intro: pinned_cong pinned_read)

lemma pins_load_any: "pins E sid i (load_verified E' I) (\<lambda>_. True)"
  unfolding upholds_def load_verified_run by (auto intro: pinned_cong)

lemma pins_check: "pins E sid i (check_verified E' I sid' publisher why) (\<lambda>_. True)"
  unfolding check_verified_def by (intro pins_then pins_load_any pins_of)

text \<open>Remembering a publisher: the file written keeps the pin.\<close>

lemma insert_verified_keeps:
  assumes "insert_verified E sid' publisher publishers = Ok publishers'" and "verified_in E sid i publishers"
  shows "verified_in E sid i publishers'"
  using assms
  by (auto simp: insert_verified_def verified_in_def result_simps update_conv' split: option.splits if_splits)

lemma insert_verified_distinct:
  "insert_verified E sid' publisher publishers = Ok publishers' \<Longrightarrow> distinct (map fst publishers) \<Longrightarrow> distinct (map fst publishers')"
  by (auto simp: insert_verified_def result_simps distinct_update split: option.splits if_splits)

lemma store_verified_pins:
  assumes "postcard_ok (verified_codec E)" and "verified_codec_wide E" and "distinct (map fst publishers)"
    and "verified_in E sid i publishers" and "encode_verified E publishers = Ok encoded"
    and "length encoded \<le> MAX_VERIFIED_PUBLISHERS_BYTES"
  shows "pins E sid i (store_verified I encoded) (\<lambda>_. True)"
  unfolding upholds_def
proof (intro allI impI)
  fix s out s' r
  assume p: "pinned E sid i s" and run: "store_verified I encoded s = (out, s', r)"
  obtain publishers' where "load_verified_publishers_unlocked E (Ok encoded) = Ok publishers'" "map_of publishers' = map_of publishers"
    by (rule saved_publishers_load [OF assms(1,2,3,5,6)])
  then have new: "vw_verified_file s' = Some encoded \<Longrightarrow> pinned E sid i s'"
    using assms(4,6) by (simp add: pinned_def read_private_def verified_in_def)
  have "out = []" "vw_verified_file s' = Some encoded \<or> vw_verified_file s' = vw_verified_file s"
    using run
    by (auto simp: store_verified_def task_then_def view_ask_def replace_file_def split: prod.splits if_splits replace_outcome.splits)
  with new pinned_cong [OF _ p] show "pinned E sid i s' \<and> (\<forall>m\<in>set out. catalog_pinned E sid i m) \<and> (\<forall>x. r = Some (Ok x) \<longrightarrow> True)"
    by auto
qed

lemma pins_remember:
  assumes "postcard_ok (verified_codec E)" and "verified_codec_wide E" and "faults_ok I"
  shows "pins E sid i (remember_verified_publisher E I sid' publisher) (\<lambda>_. True)"
proof -
  have load: "pins E sid i (load_verified E I) (\<lambda>ps. verified_in E sid i ps \<and> distinct (map fst ps))"
    unfolding upholds_def load_verified_run
    using assms(3) by (auto simp: faults_ok_def result_simps intro: pinned_cong pinned_read load_distinct)
  have inner: "pins E sid i (task_then (task_of (encode_verified E ps')) (\<lambda>encoded.
      if length encoded > MAX_VERIFIED_PUBLISHERS_BYTES
      then task_of (Err (VeRefused ''verified publisher state exceeds its file bound''))
      else store_verified I encoded)) (\<lambda>_. True)"
    if "verified_in E sid i ps'" "distinct (map fst ps')" for ps'
    by (rule upholds_then [where Q = "\<lambda>encoded. encode_verified E ps' = Ok encoded"])
      (use that assms in \<open>auto intro!: upholds_of store_verified_pins\<close>)
  show ?thesis
    unfolding remember_verified_publisher_def
  proof (rule upholds_then [OF load], elim conjE)
    fix ps
    assume ps: "verified_in E sid i ps" "distinct (map fst ps)"
    show "pins E sid i (task_then (task_of (insert_verified E sid' publisher ps)) (\<lambda>publishers.
       task_then (task_of (encode_verified E publishers)) (\<lambda>encoded.
         if length encoded > MAX_VERIFIED_PUBLISHERS_BYTES
         then task_of (Err (VeRefused ''verified publisher state exceeds its file bound''))
         else store_verified I encoded))) (\<lambda>_. True)"
      by (rule upholds_then [where Q = "\<lambda>ps'. verified_in E sid i ps' \<and> distinct (map fst ps')"])
        (use ps insert_verified_keeps insert_verified_distinct in \<open>auto intro!: upholds_of inner\<close>)
  qed
qed

lemma pins_show_status: "pins E sid i (show_event (EvStatus t)) (\<lambda>_. True)"
  by (rule pins_show) (simp add: catalog_pinned_def)

lemma pins_show_pairing:
  "pins E sid i (show_event (EvPairingPrompt rid t)) (\<lambda>_. True)" "pins E sid i (show_event (EvPairingApproved sid' p)) (\<lambda>_. True)"
  by (simp_all add: pins_show catalog_pinned_def)

lemmas pins_ops = pins_steps pins_connect pins_check pins_show_status pins_show_pairing

lemma pins_pairing:
  "pins E sid i (begin_pairing E' I cp sid' publisher) (\<lambda>_. True)" "pins E sid i (confirm_pairing E' I cp request offer) (\<lambda>_. True)"
  unfolding begin_pairing_def confirm_pairing_def by (intro pins_ops)+

lemma pins_receive_offer: "pins E sid i (receive_offer E' words I offer) (\<lambda>_. True)"
  unfolding receive_offer_def Let_def by (intro pins_ops) simp_all

lemma pins_receive_decision:
  assumes "postcard_ok (verified_codec E)" and "verified_codec_wide E" and "faults_ok I"
  shows "pins E sid i (receive_decision E I decision) (\<lambda>_. True)"
  unfolding receive_decision_def Let_def
  by (intro pins_ops pins_remember [OF assms]) simp_all

lemma pins_refresh_pairing:
  assumes "postcard_ok (verified_codec E)" and "verified_codec_wide E" and "faults_ok I"
  shows "pins E sid i (refresh_pairing E words I cp) (\<lambda>_. True)"
proof -
  have "pins E sid i (pairing_message E words I m) (\<lambda>_. True)" for m
    unfolding pairing_message_def
    by (cases m) (auto intro!: pins_then pins_receive_offer pins_receive_decision [OF assms] pins_of)
  then show ?thesis unfolding refresh_pairing_def by (intro pins_then pins_connect pins_send pins_loop)
qed

lemma pins_refresh_message: "pins E sid i (refresh_message E' cp publishers m) (\<lambda>_. True)"
  unfolding refresh_message_def by (cases m) (auto intro!: pins_steps split: option.splits)

lemma matching_catalog:
  "verified_in E sid i verified \<Longrightarrow> catalog_pinned E sid i (Shown (EvCatalog (filter (publisher_matches E verified) entries)))"
  by (auto simp: catalog_pinned_def publisher_matches_def verified_in_def ok_of_def Let_def split: sum.splits)

lemma pins_refresh:
  assumes "faults_ok I"
  shows "pins E sid i (refresh E I cp) (\<lambda>_. True)"
proof -
  have rest: "pins E sid i
     (let catalog = filter (publisher_matches E verified) entries
      in task_then (task_of (catalog_publishers E catalog)) (\<lambda>publishers.
         task_then (send_viewer I VwFetchInbox) (\<lambda>_.
         task_then (read_each (refresh_message E cp publishers)) (\<lambda>_.
         task_then (show_event (EvCatalog catalog)) (\<lambda>_.
           if length catalog < length entries
           then show_event (EvStatus ''Hidden streams whose publisher identity changed'')
           else task_of (Ok ())))))) (\<lambda>_. True)"
    if "verified_in E sid i verified" for verified entries
    unfolding Let_def
    by (intro pins_then pins_of pins_send pins_loop pins_refresh_message pins_if pins_show_status pins_show [OF matching_catalog [OF that]])
  show ?thesis
    unfolding refresh_def
    by (rule pins_then [OF pins_connect], rule pins_then [OF pins_send], rule pins_then [OF pins_read], rule pins_then [OF pins_of],
        rule upholds_then [OF pins_load [OF assms] rest])
qed

lemma pins_command:
  assumes "postcard_ok (verified_codec E)" and "verified_codec_wide E" and "faults_ok I"
  shows "pins E sid i (handle_command E words I cp c) (\<lambda>_. True)"
proof -
  obtain command inputs more where c: "c = (command, inputs, more)" by (metis prod_cases3)
  have "pins E sid i (subscribe_command sid' publisher start) (\<lambda>_. True)" for sid' publisher start
    unfolding subscribe_command_def
    by (intro pins_then pins_get pins_local upholds_run) (auto simp: catalog_pinned_def split: if_splits)
  moreover have "pins E sid i (pair_command E I cp sid' publisher) (\<lambda>_. True)" for sid' publisher
    unfolding pair_command_def by (intro pins_ops pins_try pins_pairing) simp_all
  moreover have "pins E sid i (confirm_command E I cp rid approved) (\<lambda>_. True)" for rid approved
    unfolding confirm_command_def by (intro pins_ops pins_try pins_pairing) simp_all
  moreover have "pins E sid i (refresh_all E words I cp more) (\<lambda>_. True)"
    unfolding refresh_all_def
    by (intro pins_ops pins_try pins_refresh [OF assms(3)] pins_refresh_pairing [OF assms]) simp_all
  ultimately show ?thesis
    unfolding handle_command_def c prod.case
    by (intro pins_then pins_local) (auto split: viewer_command.splits)
qed

lemma pins_worker:
  assumes "postcard_ok (verified_codec E)" and "verified_codec_wide E" and "faults_ok I"
  shows "pins E sid i (command_worker E words I cp commands) (\<lambda>_. True)"
  unfolding command_worker_def
  by (intro pins_ops upholds_each pins_command [OF assms]) simp_all

text \<open>A changed publisher is refused before anything is sent.\<close>

lemma check_refuses:
  assumes "pinned E sid i s" and "faults_ok I" and "identity_id E other = Ok j" and "j \<noteq> i"
  shows "\<exists>e. check_verified E I sid other why s = ([], s\<lparr>vw_asked := Suc (vw_asked s)\<rparr>, Some (Err e))"
proof -
  have "verified_in E sid i publishers"
    if "load_verified_publishers_unlocked E (read_private MAX_VERIFIED_PUBLISHERS_BYTES (vi_file_fault I (vw_asked s)) (vw_verified_file s))
      = Ok publishers" for publishers
    using pinned_read [OF assms(1) _ that] assms(2) by (simp add: faults_ok_def)
  then show ?thesis
    using assms(3,4)
    by (auto simp: check_verified_def task_then_def load_verified_run task_of_def task_run_def run_of_def and_then_def
        verified_in_def map_err_def split: sum.splits)
qed

lemma then_refused: "m s = ([], s', Some (Err e)) \<Longrightarrow> task_then m k s = ([], s', Some (Err e))"
  by (simp add: task_then_def)

section \<open>Properties\<close>

text \<open>C8: Once a publisher is verified for a stream, it stays verified whatever commands the viewer runs and
  whatever relays, files and other publishers do: the file always loads with the same identity for
  the stream, every catalog shown lists the stream under that identity only, and subscribing to or
  pairing with any other identity for it is refused before a single byte is sent to the relay.\<close>

theorem verified_publisher_pinned:
  assumes "postcard_ok (verified_codec E)" and "verified_codec_wide E" and "faults_ok I"
    and "pinned E sid i s" and "command_worker E words I cp commands s = (out, s', r)"
    and "identity_id E other = Ok j" and "j \<noteq> i"
  shows "pinned E sid i s' \<and> (\<forall>m\<in>set out. catalog_pinned E sid i m) \<and>
    (\<exists>e t. subscribe_once E D I cp sid other start s' = ([], t, Some (Err e))) \<and>
    (\<exists>e t. begin_pairing E I cp sid other s' = ([], t, Some (Err e)))"
proof -
  note w = upholdsD [OF pins_worker [OF assms(1,2,3)] assms(4,5)]
  show ?thesis
    using w(2) check_refuses [OF w(1) assms(3,6,7)] w(1)
    unfolding subscribe_once_def begin_pairing_def by (meson then_refused)
qed

section \<open>Pending pairings\<close>

text \<open>C37: Saving the pending pairings does not look at their size: with no file, or one within the limit, pairings
  that encode to more than the limit are saved all the same when the file is replaced; from then on the file is
  refused when it is loaded, and every later save fails and leaves the file as it is, whatever pairings are pending
  by then.\<close>

theorem oversize_pairings_stick:
  assumes "to_stdvec (pairing_state_codec E)
      \<lparr>vs_version = PAIRING_STATE_VERSION, vs_pending = sort_key (pairing_order E) (map snd pending)\<rparr> = Some encoded"
    and "MAX_PAIRING_STATE_BYTES < length encoded"
    and "case existing of None \<Rightarrow> True | Some bs \<Rightarrow> length bs \<le> MAX_PAIRING_STATE_BYTES"
  shows "save_pairing_state E Replaced existing pending = (Ok (), Some encoded) \<and>
    load_pairing_state E (read_private MAX_PAIRING_STATE_BYTES None (Some encoded)) = Err (VeIo InvalidData) \<and>
    \<not> is_ok (fst (save_pairing_state E replaced (Some encoded) later)) \<and>
    snd (save_pairing_state E replaced (Some encoded) later) = Some encoded"
  using assms
  by (auto simp: load_pairing_state_def read_private_def save_pairing_state_def replace_file_def split: option.splits)

end
