(* ===== verification/KeyHistory.thy ===== *)
theory KeyHistory
  imports PairingExample
begin

text \<open>
  \<^verbatim>\<open>crates/publisher/src/native_publish.rs\<close>, the key history: the content keys of the groups a
  publisher has published, kept so that a viewer approved later can be given them, in one private
  file for all streams, pruned by age and by the amount of content they open.

  What reading, locking and replacing the private file returned are arguments.
\<close>

section \<open>Data\<close>

definition KEY_HISTORY_VERSION :: u16 where
  "KEY_HISTORY_VERSION = 1"

definition MAX_KEY_HISTORY_BYTES :: nat where
  "MAX_KEY_HISTORY_BYTES = 16 * 1024 * 1024"

definition MAX_KEY_HISTORY_GROUPS :: nat where
  "MAX_KEY_HISTORY_GROUPS = 65536"

datatype publisher_error =
    PubRefused string
  | PubPostcard
  | PubIo io_error_kind
  | PubIdentity identity_error
  | PubNative native_stream_error
  | PubEnvelope envelope_error
  | PubPairing pairing_error
  | PubTrust relay_trust_error
  | PubCredential credential_error
  | PubProtocol
  | PubTimeout

record retained_group_key =
  rk_stream_id :: uuid
  rk_epoch_id :: uuid
  rk_key_group_id :: u64
  rk_key_id :: array16
  rk_content_key :: array32
  rk_created_at_ms :: i64
  rk_content_bytes :: u64

record key_history =
  kh_version :: u16
  kh_groups :: "retained_group_key list"

record history_env = pairing_store_env +
  history_codec :: "key_history postcard"

definition has_published_content :: "retained_group_key \<Rightarrow> bool" where
  "has_published_content g \<longleftrightarrow> rk_content_bytes g > 0"

section \<open>The file\<close>

definition load_key_history_unlocked ::
  "'z history_env_scheme \<Rightarrow> io_error_kind + bytes \<Rightarrow> publisher_error + retained_group_key list" where
  "load_key_history_unlocked E read =
     (case read of
        Inr bs \<Rightarrow>
          and_then (ok_or (take_from_bytes (history_codec E) bs) PubPostcard) (\<lambda>(history, remainder).
            if remainder \<noteq> [] \<or> kh_version history \<noteq> KEY_HISTORY_VERSION
            then Err (PubRefused ''publisher key history is invalid or non-canonical'')
            else and_then (ok_or (to_stdvec (history_codec E) history) PubPostcard) (\<lambda>encoded.
              if encoded \<noteq> bs \<or> length (kh_groups history) > MAX_KEY_HISTORY_GROUPS
              then Err (PubRefused ''publisher key history is invalid or non-canonical'')
              else Ok (kh_groups history)))
      | Inl NotFound \<Rightarrow> Ok []
      | Inl e \<Rightarrow> Err (PubIo e))"

definition load_key_history ::
  "'z history_env_scheme \<Rightarrow> io_error_kind + unit \<Rightarrow> io_error_kind + bytes \<Rightarrow> publisher_error + retained_group_key list" where
  "load_key_history E lock read = and_then (map_err PubIo lock) (\<lambda>_. load_key_history_unlocked E read)"

text \<open>What the file holds afterwards, if it was replaced: replacing may fail after the rename.\<close>

definition save_key_history_unlocked ::
  "'z history_env_scheme \<Rightarrow> replace_outcome \<Rightarrow> retained_group_key list \<Rightarrow> (publisher_error + unit) \<times> bytes option" where
  "save_key_history_unlocked E replaced gs =
     (case to_stdvec (history_codec E) \<lparr>kh_version = KEY_HISTORY_VERSION, kh_groups = gs\<rparr> of
        None \<Rightarrow> (Err PubPostcard, None)
      | Some encoded \<Rightarrow>
          if length encoded > MAX_KEY_HISTORY_BYTES
          then (Err (PubRefused ''publisher key history exceeds its file bound''), None)
          else (case replaced of
                  Replaced \<Rightarrow> (Ok (), Some encoded)
                | ReplaceFailed e renamed \<Rightarrow> (Err (PubIo e), if renamed then Some encoded else None)))"

definition history_order :: "retained_group_key \<Rightarrow> uuid \<times> int \<times> uuid \<times> u64" where
  "history_order g = (rk_stream_id g, sint (rk_created_at_ms g), rk_epoch_id g, rk_key_group_id g)"

definition replace_stream_key_history ::
  "'z history_env_scheme \<Rightarrow> io_error_kind + unit \<Rightarrow> io_error_kind + bytes \<Rightarrow> replace_outcome \<Rightarrow> uuid
    \<Rightarrow> retained_group_key list \<Rightarrow> (publisher_error + unit) \<times> bytes option" where
  "replace_stream_key_history E lock read replaced sid stream_groups =
     (case and_then (map_err PubIo lock) (\<lambda>_. load_key_history_unlocked E read) of
        Inl e \<Rightarrow> (Err e, None)
      | Inr gs \<Rightarrow>
          save_key_history_unlocked E replaced
            (sort_key history_order (filter (\<lambda>g. rk_stream_id g \<noteq> sid) gs @ stream_groups)))"

section \<open>Pruning\<close>

text \<open>The loop over the groups from the newest: the bytes retained so far and the index to keep from.\<close>

fun prune_scan :: "u64 \<Rightarrow> nat \<Rightarrow> u64 \<Rightarrow> nat \<Rightarrow> (nat \<times> retained_group_key) list \<Rightarrow> nat" where
  "prune_scan max_content_bytes count retained_bytes keep_from [] = keep_from"
| "prune_scan max_content_bytes count retained_bytes keep_from ((index, g) # rest) =
     (let next_bytes = saturating_add_u64 retained_bytes (rk_content_bytes g)
      in if next_bytes > max_content_bytes \<and> keep_from < count then keep_from
         else prune_scan max_content_bytes count next_bytes index rest)"

definition prune_key_history :: "retained_group_key list \<Rightarrow> i64 \<Rightarrow> u64 \<Rightarrow> i64 \<Rightarrow> retained_group_key list" where
  "prune_key_history gs now_ms max_content_bytes max_age_ms =
     (let gs = filter (\<lambda>g. sint (saturating_sub_i64 now_ms (rk_created_at_ms g)) \<le> sint max_age_ms) gs
      in drop (prune_scan max_content_bytes (length gs) 0 (length gs) (rev (enumerate 0 gs))) gs)"

section \<open>What pruning keeps\<close>

definition content_total :: "retained_group_key list \<Rightarrow> nat" where
  "content_total gs = (\<Sum>g\<leftarrow>gs. unat (rk_content_bytes g))"

abbreviation fits_within :: "u64 \<Rightarrow> retained_group_key list \<Rightarrow> bool" where
  "fits_within limit gs \<equiv> min (2 ^ 64 - 1) (content_total gs) \<le> unat limit"

lemma content_total_Cons: "content_total (g # gs) = unat (rk_content_bytes g) + content_total gs"
  by (simp add: content_total_def)

lemma content_total_drop: "content_total (drop n gs) \<le> content_total gs"
proof (induction gs arbitrary: n)
  case (Cons g gs)
  show ?case by (cases n) (use Cons.IH le_trans in \<open>auto simp: content_total_Cons intro: trans_le_add2\<close>)
qed simp

lemma enumerate_take_Suc:
  assumes "j < length gs"
  shows "rev (enumerate 0 (take (Suc j) gs)) = (j, gs ! j) # rev (enumerate 0 (take j gs))"
  using assms by (simp add: take_Suc_conv_app_nth enumerate_append_eq)

lemma prune_scan_keeps:
  assumes "j \<le> length gs" and "unat retained = min (2 ^ 64 - 1) (content_total (drop j gs))"
    and "j < length gs \<Longrightarrow> fits_within limit (drop j gs) \<or> j = length gs - 1"
    and "k = prune_scan limit (length gs) retained j (rev (enumerate 0 (take j gs)))"
  shows "k \<le> j \<and> (k < length gs \<longrightarrow> fits_within limit (drop k gs) \<or> k = length gs - 1) \<and>
    (0 < k \<longrightarrow> k < length gs \<and> \<not> fits_within limit (drop (k - 1) gs))"
  using assms
proof (induction j arbitrary: retained k)
  case 0
  then show ?case by simp
next
  case (Suc j)
  let ?next = "saturating_add_u64 retained (rk_content_bytes (gs ! j))"
  from Suc.prems(1) have j: "j < length gs" by simp
  have drop: "drop j gs = gs ! j # drop (Suc j) gs" using j by (simp add: Cons_nth_drop_Suc)
  have total: "unat ?next = min (2 ^ 64 - 1) (content_total (drop j gs))"
    using Suc.prems(2) by (simp add: unat_saturating_add_u64 drop content_total_Cons)
  have over: "?next > limit \<longleftrightarrow> \<not> fits_within limit (drop j gs)"
    by (simp only: word_less_nat_alt total not_le)
  show ?case
  proof (cases "?next > limit \<and> Suc j < length gs")
    case True
    then have "k = Suc j" using Suc.prems(4) j by (simp add: enumerate_take_Suc Let_def)
    with True over Suc.prems(3) show ?thesis by simp
  next
    case False
    then have "k = prune_scan limit (length gs) ?next j (rev (enumerate 0 (take j gs)))"
      using Suc.prems(4) j by (auto simp: enumerate_take_Suc Let_def)
    moreover have "fits_within limit (drop j gs) \<or> j = length gs - 1" using False over j by auto
    ultimately have "k \<le> j \<and> (k < length gs \<longrightarrow> fits_within limit (drop k gs) \<or> k = length gs - 1) \<and>
        (0 < k \<longrightarrow> k < length gs \<and> \<not> fits_within limit (drop (k - 1) gs))"
      using Suc.IH [of ?next k] total j by simp
    then show ?thesis by auto
  qed
qed

section \<open>Properties\<close>

text \<open>C34: Pruning keeps the newest keys and exactly as many as the limits allow: among the groups young
  enough it keeps a suffix, the longest whose content fits the byte limit; the newest of them is
  kept even when it alone exceeds it.  Sums saturate at the width of the counters.\<close>

theorem prune_key_history_longest_suffix:
  "\<exists>young k. young = filter (\<lambda>g. sint now_ms - sint (rk_created_at_ms g) \<le> sint max_age_ms \<or> sint max_age_ms = i64_MAX) gs \<and>
     prune_key_history gs now_ms limit max_age_ms = drop k young \<and>
     (young \<noteq> [] \<longrightarrow> k < length young) \<and>
     (k + 1 < length young \<longrightarrow> fits_within limit (drop k young)) \<and>
     (\<forall>j<k. \<not> fits_within limit (drop j young))"
proof -
  let ?young = "filter (\<lambda>g. sint (saturating_sub_i64 now_ms (rk_created_at_ms g)) \<le> sint max_age_ms) gs"
  have young: "?young = filter (\<lambda>g. sint now_ms - sint (rk_created_at_ms g) \<le> sint max_age_ms \<or> sint max_age_ms = i64_MAX) gs"
    using sint_i64_bounds [of max_age_ms] by (intro filter_cong) (auto simp: sint_saturating_sub_i64)
  define k where "k = prune_scan limit (length ?young) 0 (length ?young) (rev (enumerate 0 ?young))"
  have k: "k \<le> length ?young" "k < length ?young \<longrightarrow> fits_within limit (drop k ?young) \<or> k = length ?young - 1"
    "0 < k \<longrightarrow> k < length ?young \<and> \<not> fits_within limit (drop (k - 1) ?young)"
    using prune_scan_keeps [of "length ?young" ?young 0 limit k] by (simp_all add: k_def content_total_def)
  have older: "\<not> fits_within limit (drop j ?young)" if "j < k" for j
  proof -
    have "drop (k - 1) ?young = drop (k - 1 - j) (drop j ?young)" using that by simp
    then have "content_total (drop (k - 1) ?young) \<le> content_total (drop j ?young)" by (simp only: content_total_drop)
    moreover have "\<not> fits_within limit (drop (k - 1) ?young)" using k(3) that by auto
    ultimately show ?thesis by linarith
  qed
  have "prune_key_history gs now_ms limit max_age_ms = drop k ?young"
    by (simp add: prune_key_history_def k_def Let_def)
  moreover have "?young \<noteq> [] \<longrightarrow> k < length ?young" using k(1,3) by (cases "k = 0") auto
  ultimately show ?thesis using k(2) older unfolding young by (intro exI [of _ k] exI conjI refl) auto
qed

lemma save_key_history_ok:
  "save_key_history_unlocked E replaced gs = (Ok (), file) \<longleftrightarrow>
     replaced = Replaced \<and>
     (\<exists>bs. to_stdvec (history_codec E) \<lparr>kh_version = KEY_HISTORY_VERSION, kh_groups = gs\<rparr> = Some bs \<and>
        length bs \<le> MAX_KEY_HISTORY_BYTES \<and> file = Some bs)"
  by (auto simp: save_key_history_unlocked_def split: option.splits replace_outcome.splits)

lemma load_saved_history:
  assumes "postcard_ok (history_codec E)"
    and "to_stdvec (history_codec E) \<lparr>kh_version = KEY_HISTORY_VERSION, kh_groups = gs\<rparr> = Some bs"
  shows "load_key_history_unlocked E (Ok bs) =
    (if length gs \<le> MAX_KEY_HISTORY_GROUPS then Ok gs
     else Err (PubRefused ''publisher key history is invalid or non-canonical''))"
  using postcard_okD_exact [OF assms] assms(2) by (simp add: load_key_history_unlocked_def)

text \<open>C35: What a saved history reads back as: the saved groups when they are at most 65536, and an error
  otherwise.  Saving checks only the size of the file, which the small entries reach much later, so
  a publisher with many groups writes a history that it then refuses to load.\<close>

theorem saved_key_history_reloads:
  assumes "postcard_ok (history_codec E)" and "save_key_history_unlocked E replaced gs = (Ok (), Some bs)"
  shows "load_key_history E (Ok ()) (Ok bs) =
    (if length gs \<le> MAX_KEY_HISTORY_GROUPS then Ok gs
     else Err (PubRefused ''publisher key history is invalid or non-canonical''))"
  using assms load_saved_history [OF assms(1)] by (auto simp: save_key_history_ok load_key_history_def)

text \<open>Streams of one publisher share the file without disturbing each other: replacing the history
  of a stream leaves every other stream's entries as they were, up to the order of the file, and the
  stream's own entries are the given ones, oldest first.\<close>

theorem key_history_update_isolated:
  assumes "postcard_ok (history_codec E)"
    and "load_key_history_unlocked E read = Ok gs"
    and "replace_stream_key_history E (Ok ()) read replaced sid stream_groups = (Ok (), Some bs)"
    and "\<forall>g\<in>set stream_groups. rk_stream_id g = sid"
    and "load_key_history_unlocked E (Ok bs) = Ok gs'"
  shows "filter (\<lambda>g. rk_stream_id g = sid) gs' = sort_key history_order stream_groups \<and>
    filter (\<lambda>g. rk_stream_id g \<noteq> sid) gs' = sort_key history_order (filter (\<lambda>g. rk_stream_id g \<noteq> sid) gs)"
proof -
  let ?gs = "sort_key history_order (filter (\<lambda>g. rk_stream_id g \<noteq> sid) gs @ stream_groups)"
  have "save_key_history_unlocked E replaced ?gs = (Ok (), Some bs)"
    using assms(2,3) by (simp add: replace_stream_key_history_def)
  then have "to_stdvec (history_codec E) \<lparr>kh_version = KEY_HISTORY_VERSION, kh_groups = ?gs\<rparr> = Some bs"
    by (simp add: save_key_history_ok)
  from load_saved_history [OF assms(1) this] assms(5) have "gs' = ?gs" by (simp split: if_splits)
  moreover have "filter (\<lambda>g. rk_stream_id g = sid) stream_groups = stream_groups"
    "filter (\<lambda>g. rk_stream_id g \<noteq> sid) stream_groups = []"
    using assms(4) by (auto simp: filter_id_conv filter_empty_conv)
  ultimately show ?thesis by (simp add: filter_sort)
qed

section \<open>Concrete instances\<close>

definition example_key :: retained_group_key where
  "example_key = \<lparr>rk_stream_id = 1, rk_epoch_id = 2, rk_key_group_id = 1, rk_key_id = 3, rk_content_key = 4,
     rk_created_at_ms = 5, rk_content_bytes = 6\<rparr>"

text \<open>Three groups of six bytes and a limit of twelve: the newest two stay.\<close>

theorem prune_key_history_longest_suffix_witness:
  "prune_key_history [example_key, example_key, example_key] 10 12 100 = [example_key, example_key]"
proof -
  let ?gs = "[example_key, example_key, example_key]"
  have young: "filter (\<lambda>g. sint (10 :: i64) - sint (rk_created_at_ms g) \<le> sint (100 :: i64) \<or> sint (100 :: i64) = i64_MAX) ?gs = ?gs"
    by (simp add: example_key_def)
  obtain k where k: "prune_key_history ?gs 10 12 100 = drop k ?gs" "k < 3"
    "k + 1 < 3 \<Longrightarrow> fits_within 12 (drop k ?gs)" "\<And>j. j < k \<Longrightarrow> \<not> fits_within 12 (drop j ?gs)"
    using prune_key_history_longest_suffix [of 10 100 ?gs 12] unfolding young by auto
  have fits: "\<not> fits_within 12 ?gs" "fits_within 12 (drop 1 ?gs)" by (simp_all add: content_total_def example_key_def)
  have "k \<noteq> 0" by (rule notI) (use k(3) fits(1) in simp)
  moreover have "\<not> 1 < k" using k(4) fits(2) by blast
  ultimately have "k = 1" using k(2) by linarith
  with k(1) show ?thesis by simp
qed

definition example_history_env :: "retained_group_key list \<Rightarrow> history_env" where
  "example_history_env gs =
     pairing_store_env.extend example_queue_env
       \<lparr>history_codec = single_postcard \<lparr>kh_version = KEY_HISTORY_VERSION, kh_groups = gs\<rparr> [7]\<rparr>"

lemma example_history_saves:
  "save_key_history_unlocked (example_history_env gs) Replaced gs = (Ok (), Some [7])"
  "postcard_ok (history_codec (example_history_env gs))"
  by (simp_all add: save_key_history_ok example_history_env_def pairing_store_env.extend_def single_postcard_ok)
    (simp add: single_postcard_def MAX_KEY_HISTORY_BYTES_def)

theorem saved_key_history_reloads_witness:
  "load_key_history (example_history_env [example_key]) (Ok ()) (Ok [7]) = Ok [example_key] \<and>
   save_key_history_unlocked (example_history_env (replicate 65537 example_key)) Replaced (replicate 65537 example_key)
     = (Ok (), Some [7]) \<and>
   load_key_history (example_history_env (replicate 65537 example_key)) (Ok ()) (Ok [7])
     = Err (PubRefused ''publisher key history is invalid or non-canonical'')"
  using saved_key_history_reloads [OF example_history_saves(2,1), of "[example_key]"]
    saved_key_history_reloads [OF example_history_saves(2,1), of "replicate 65537 example_key"]
    example_history_saves(1) [of "replicate 65537 example_key"]
  by (simp add: MAX_KEY_HISTORY_GROUPS_def)

theorem key_history_update_isolated_witness:
  "replace_stream_key_history (example_history_env [example_key]) (Ok ()) (Err NotFound) Replaced 1 [example_key]
     = (Ok (), Some [7]) \<and> filter (\<lambda>g. rk_stream_id g = 1) [example_key] = sort_key history_order [example_key]"
proof -
  let ?E = "example_history_env [example_key]"
  have load: "load_key_history_unlocked ?E (Err NotFound) = Ok []" by (simp add: load_key_history_unlocked_def)
  have repl: "replace_stream_key_history ?E (Ok ()) (Err NotFound) Replaced 1 [example_key] = (Ok (), Some [7])"
    using example_history_saves(1) [of "[example_key]"] by (simp add: replace_stream_key_history_def load)
  have again: "load_key_history_unlocked ?E (Ok [7]) = Ok [example_key]"
    using load_saved_history [OF example_history_saves(2), of "[example_key]" "[example_key]" "[7]"]
    by (simp add: MAX_KEY_HISTORY_GROUPS_def) (simp add: example_history_env_def pairing_store_env.extend_def single_postcard_def)
  have own: "\<forall>g\<in>set [example_key]. rk_stream_id g = 1" by (simp add: example_key_def)
  from key_history_update_isolated [OF example_history_saves(2) load repl own again] repl show ?thesis by blast
qed

end
