(* ===== verification/Publication.thy ===== *)
theory Publication
  imports KeyHistory Tasks Cursor NativeStore
begin

text \<open>
  \<^verbatim>\<open>crates/publisher/src/native_publish.rs\<close>, the publication loop: one turn per captured frame seals the
  frame (and, at the start of a key group, the epoch) under the group's key, has it acknowledged by
  the relay, gives the key to the approved viewers and records it in the key history.

  What the environment answers in a turn is a record of inputs: the approvals on disk, the entropy,
  the encoder's output, the cursor, the clock readings, the relay's replies and the outcomes of
  writing and of the history file.  Capture, encoding and pacing are not part of the model; the
  scaling of cursor coordinates is floating point, so a cursor message carries the scaled values.
\<close>

section \<open>Cursor events\<close>

definition CURSOR_BITMAP_REFRESH_TICKS :: u64 where
  "CURSOR_BITMAP_REFRESH_TICKS = 90000 * 60"

record cursor_message =
  cm_x_micropixels :: i64
  cm_y_micropixels :: i64
  cm_visible :: bool
  cm_bitmap :: "cursor_bitmap option"

record cursor_bitmap_state =
  cb_current_id :: u64
  cb_last :: "cursor_bitmap option"
  cb_last_sent_timestamp :: "u64 option"

definition cursor_bitmap_checked :: "cursor_bitmap \<Rightarrow> publisher_error + cursor_bitmap" where
  "cursor_bitmap_checked b =
     and_then (ok_or (Option.bind (checked_mul_usize (unat (bm_width b)) (unat (bm_height b))) (\<lambda>pixels.
                        checked_mul_usize pixels 4))
                 (PubRefused ''PipeWire cursor bitmap dimensions overflow'')) (\<lambda>expected_len.
       if length (rgba b) \<noteq> expected_len
       then Err (PubRefused ''PipeWire cursor bitmap dimensions do not match its RGBA payload'')
       else Ok b)"

definition cursor_to_event ::
  "cursor_message \<Rightarrow> u64 \<Rightarrow> cursor_bitmap_state \<Rightarrow> publisher_error + cursor_bitmap_state \<times> cursor_event" where
  "cursor_to_event cursor timestamp st =
     and_then
       (case cm_bitmap cursor of
          Some b \<Rightarrow>
            if cb_last st = Some b
            then if (case cb_last_sent_timestamp st of
                       None \<Rightarrow> True
                     | Some last_sent \<Rightarrow>
                         (if timestamp < last_sent then 0 else timestamp - last_sent) \<ge> CURSOR_BITMAP_REFRESH_TICKS)
                 then and_then (cursor_bitmap_checked b) (\<lambda>image.
                        Ok (st\<lparr>cb_last_sent_timestamp := Some timestamp\<rparr>, Some image))
                 else Ok (st, None)
            else and_then (cursor_bitmap_checked b) (\<lambda>image.
                   Ok (\<lparr>cb_current_id = max (cb_current_id st + 1) 1, cb_last = Some b,
                        cb_last_sent_timestamp = Some timestamp\<rparr>, Some image))
        | None \<Rightarrow> Ok (st, None)) (\<lambda>(st, image).
       Ok (st, \<lparr>ev_timestamp = timestamp, x_micropixels = cm_x_micropixels cursor,
                y_micropixels = cm_y_micropixels cursor, visible = cm_visible cursor,
                bitmap_id = cb_current_id st, bitmap = image\<rparr>))"

section \<open>State and inputs\<close>

record publication_settings =
  pb_secret :: identity_secret
  pb_stream_id :: uuid
  pb_epoch_id :: uuid
  pb_width :: u32
  pb_height :: u32
  pb_group_frames :: u16
  pb_duration :: u32
  pb_history_bytes :: u64
  pb_history_age_ms :: i64

record publication =
  pn_approved :: "identity_public list"
  pn_history :: "retained_group_key list"
  pn_sequence :: u64
  pn_timestamp :: u64
  pn_frame_index :: u64
  pn_group_id :: u64
  pn_group :: "group_encryptor option"
  pn_cursor :: cursor_bitmap_state
  pn_history_file :: "bytes option"

record avc_config =
  avc_sps :: bytes
  avc_pps :: bytes

record encoded_frame =
  ef_annex_b :: bytes
  ef_keyframe :: bool
  ef_config :: "avc_config option"

record history_io =
  hio_lock :: "io_error_kind + unit"
  hio_read :: "io_error_kind + bytes"
  hio_replaced :: replace_outcome

record frame_turn =
  ft_shutdown :: bool
  ft_approved :: "publisher_error + identity_public list"
  ft_key_id :: array16
  ft_nonce_prefix :: array4
  ft_content_key :: array32
  ft_seal_rnd :: "identity_public \<Rightarrow> bytes"
  ft_write :: "publisher_message \<Rightarrow> publisher_error + unit"
  ft_reply :: "native_object \<Rightarrow> publisher_error + relay_publisher_message"
  ft_frame :: "publisher_error + bool"
  ft_encoded :: "bool \<Rightarrow> publisher_error + encoded_frame"
  ft_cursor :: "publisher_error + cursor_message option"
  ft_created_ms :: i64
  ft_prune_ms :: i64
  ft_end_ms :: i64
  ft_epoch_history :: history_io
  ft_end_history :: history_io

type_synonym 'a publishing = "(publisher_message, publisher_error, publication, 'a) etask"

section \<open>Talking to the relay\<close>

definition send_message :: "frame_turn \<Rightarrow> publisher_message \<Rightarrow> unit publishing" where
  "send_message turn m =
     (\<lambda>s. case ft_write turn m of Inl e \<Rightarrow> ([], s, Some (Err e)) | Inr _ \<Rightarrow> ([m], s, Some (Ok ())))"

definition publish_reply :: "uuid \<Rightarrow> u64 \<Rightarrow> relay_publisher_message \<Rightarrow> publisher_error + unit" where
  "publish_reply sid expected reply =
     (case reply of
        RpPublishAck acknowledged through \<Rightarrow>
          if acknowledged = sid \<and> through = expected then Ok ()
          else Err (PubRefused ''unexpected publication acknowledgement'')
      | RpError e \<Rightarrow> Err (PubRefused ''relay refused object'')
      | _ \<Rightarrow> Err (PubRefused ''unexpected publication acknowledgement''))"

definition publish :: "frame_turn \<Rightarrow> native_object \<Rightarrow> u64 \<Rightarrow> unit publishing" where
  "publish turn obj expected =
     task_then (send_message turn (PubObject obj)) (\<lambda>_.
     task_then (task_of (ft_reply turn obj)) (\<lambda>reply.
       task_of (publish_reply (h_stream_id (o_header obj)) expected reply)))"

text \<open>\<^verbatim>\<open>group.seal\<close> and \<^verbatim>\<open>publish\<close>.  The group was created before; the code states so with \<^verbatim>\<open>expect\<close>.\<close>

definition seal_and_publish ::
  "'z history_env_scheme \<Rightarrow> publication_settings \<Rightarrow> frame_turn \<Rightarrow> new_native_object \<Rightarrow> bytes \<Rightarrow> unit publishing" where
  "seal_and_publish E cfg turn obj plain =
     task_then (task_get pn_group) (\<lambda>group.
     task_then (task_of (ok_or group (PubRefused ''group created above''))) (\<lambda>g.
     task_then (task_of (map_err PubNative (group_seal E (pb_secret cfg) g (obj, plain)))) (\<lambda>(g', sealed).
     task_then (task_modify (\<lambda>s. s\<lparr>pn_group := Some g'\<rparr>)) (\<lambda>_.
       publish turn sealed (n_sequence obj)))))"

definition send_key ::
  "'z history_env_scheme \<Rightarrow> publication_settings \<Rightarrow> frame_turn \<Rightarrow> identity_public \<Rightarrow> unit publishing" where
  "send_key E cfg turn viewer =
     task_then (task_get (\<lambda>s. (pn_group s, pn_group_id s))) (\<lambda>(group, group_id).
     task_then (task_of (ok_or group (PubRefused ''group created above''))) (\<lambda>g.
     task_then (task_of (map_err PubEnvelope
         (envelope_seal E (ft_seal_rnd turn viewer) (pb_secret cfg) viewer (pb_stream_id cfg) (pb_epoch_id cfg) group_id
            (g_key_id g) (g_key g)))) (\<lambda>envelope.
       send_message turn (PubKeyEnvelope envelope))))"

section \<open>Approvals\<close>

definition newly_approved :: "'z identity_env_scheme \<Rightarrow> array32 list \<Rightarrow> identity_public list \<Rightarrow> identity_public list" where
  "newly_approved E previous_ids latest =
     filter (\<lambda>viewer. case identity_id E viewer of Inr i \<Rightarrow> i \<notin> set previous_ids | Inl _ \<Rightarrow> False) latest"

text \<open>Whether the turn starts a group: there is none, a viewer lost its approval, or the group is full.
  A group that goes on is given to the viewers approved since.\<close>

definition rotate_group ::
  "'z history_env_scheme \<Rightarrow> publication_settings \<Rightarrow> frame_turn \<Rightarrow> bool publishing" where
  "rotate_group E cfg turn =
     task_then (task_of (ft_approved turn)) (\<lambda>latest.
     task_then (task_get pn_approved) (\<lambda>approved.
     task_then (task_of (map_err PubIdentity (try_map (identity_id E) approved))) (\<lambda>previous_ids.
     task_then (task_of (map_err PubIdentity (try_map (identity_id E) latest))) (\<lambda>latest_ids.
     task_then (task_get (\<lambda>s. pn_group s = None \<or> (\<exists>i\<in>set previous_ids. i \<notin> set latest_ids) \<or>
                   unat (pn_frame_index s) mod unat (pb_group_frames cfg) = 0)) (\<lambda>starts_group.
     task_then
       (if starts_group
        then task_then (task_modify (\<lambda>s. s\<lparr>pn_group_id := saturating_add_u64 (pn_group_id s) 1\<rparr>)) (\<lambda>_.
             task_then (task_of (map_err PubIdentity (secret_public E (pb_secret cfg)))) (\<lambda>public.
             task_then (task_get (\<lambda>s. (pn_group_id s, pn_sequence s))) (\<lambda>(group_id, sequence).
             task_then (task_of (map_err PubNative
                 (group_generate E (ft_key_id turn) (ft_nonce_prefix turn) (ft_content_key turn) public
                    (pb_stream_id cfg) (pb_epoch_id cfg) group_id sequence))) (\<lambda>g.
               task_modify (\<lambda>s. s\<lparr>pn_group := Some g\<rparr>)))))
        else task_each (send_key E cfg turn) (newly_approved E previous_ids latest)) (\<lambda>_.
     task_then (task_modify (\<lambda>s. s\<lparr>pn_approved := latest\<rparr>)) (\<lambda>_.
       task_of (Ok starts_group))))))))"

section \<open>History\<close>

definition record_history :: "'z history_env_scheme \<Rightarrow> publication_settings \<Rightarrow> history_io \<Rightarrow> i64 \<Rightarrow> unit publishing" where
  "record_history E cfg io now_ms =
     task_then (task_modify (\<lambda>s. s\<lparr>pn_history :=
         prune_key_history (pn_history s) now_ms (pb_history_bytes cfg) (pb_history_age_ms cfg)\<rparr>)) (\<lambda>_.
       (\<lambda>s. case replace_stream_key_history E (hio_lock io) (hio_read io) (hio_replaced io) (pb_stream_id cfg)
                   (pn_history s) of
            (r, file) \<Rightarrow> ([], s\<lparr>pn_history_file := (case file of None \<Rightarrow> pn_history_file s | Some bs \<Rightarrow> Some bs)\<rparr>, Some r)))"

definition count_content :: "publication_settings \<Rightarrow> u64 \<Rightarrow> publication \<Rightarrow> publication" where
  "count_content cfg content_bytes s =
     (if pn_history s \<noteq> [] \<and> rk_stream_id (last (pn_history s)) = pb_stream_id cfg \<and>
         rk_epoch_id (last (pn_history s)) = pb_epoch_id cfg \<and> rk_key_group_id (last (pn_history s)) = pn_group_id s
      then s\<lparr>pn_history := butlast (pn_history s) @
                [(last (pn_history s))\<lparr>rk_content_bytes :=
                    saturating_add_u64 (rk_content_bytes (last (pn_history s))) content_bytes\<rparr>]\<rparr>
      else s)"

section \<open>One turn\<close>

definition publish_epoch ::
  "'z history_env_scheme \<Rightarrow> publication_settings \<Rightarrow> frame_turn \<Rightarrow> encoded_frame \<Rightarrow> unit publishing" where
  "publish_epoch E cfg turn encoded =
     task_then (task_of (ok_or (ef_config encoded) (PubRefused ''IDR omitted SPS/PPS''))) (\<lambda>config.
     let annex_b_config = [0, 0, 0, 1] @ avc_sps config @ [0, 0, 0, 1] @ avc_pps config
     in task_then (task_modify (\<lambda>s. s\<lparr>pn_sequence := saturating_add_u64 (pn_sequence s) 1\<rparr>)) (\<lambda>_.
        task_then (task_get (\<lambda>s. (pn_sequence s, pn_timestamp s))) (\<lambda>(sequence, timestamp).
        task_then (task_of (map_err PubNative (epoch_encode E
            \<lparr>ep_width = pb_width cfg, ep_height = pb_height cfg, ep_codec_config = annex_b_config\<rparr>))) (\<lambda>payload.
        task_then (seal_and_publish E cfg turn
            \<lparr>n_sequence = sequence, n_timestamp = timestamp, n_duration = 1, n_kind = Epoch, n_random_access = True,
             n_codec = Some H264AnnexB\<rparr> payload) (\<lambda>_.
        task_then (task_get (\<lambda>s. (pn_group s, pn_approved s))) (\<lambda>(group, approved).
        task_then (task_of (ok_or group (PubRefused ''group created above''))) (\<lambda>g.
        task_then (task_modify (\<lambda>s. s\<lparr>pn_history := pn_history s @
            [\<lparr>rk_stream_id = pb_stream_id cfg, rk_epoch_id = pb_epoch_id cfg, rk_key_group_id = pn_group_id s,
              rk_key_id = g_key_id g, rk_content_key = g_key g, rk_created_at_ms = ft_created_ms turn,
              rk_content_bytes = 0\<rparr>]\<rparr>)) (\<lambda>_.
        task_then (record_history E cfg (ft_epoch_history turn) (ft_prune_ms turn)) (\<lambda>_.
          task_each (send_key E cfg turn) approved)))))))))"

definition publish_cursor ::
  "'z history_env_scheme \<Rightarrow> publication_settings \<Rightarrow> frame_turn \<Rightarrow> cursor_message \<Rightarrow> u64 publishing" where
  "publish_cursor E cfg turn cursor =
     task_then (task_get (\<lambda>s. (pn_sequence s, pn_timestamp s, pn_cursor s))) (\<lambda>(sequence, timestamp, bitmap_state).
     task_then (task_of (cursor_to_event cursor timestamp bitmap_state)) (\<lambda>(bitmap_state, event).
     task_then (task_modify (\<lambda>s. s\<lparr>pn_cursor := bitmap_state\<rparr>)) (\<lambda>_.
     task_then (task_of (ok_or (checked_add_u64 sequence 1) (PubRefused ''native cursor sequence space exhausted''))) (\<lambda>cursor_sequence.
     task_then (task_of (map_err (\<lambda>_. PubProtocol) (encode_cursor_batch
         \<lparr>cx_stream_id = pb_stream_id cfg, cx_epoch_id = pb_epoch_id cfg, cx_sequence = cursor_sequence,
          cx_start_timestamp = timestamp, cx_source_width = pb_width cfg, cx_source_height = pb_height cfg\<rparr>
         \<lparr>source_width = pb_width cfg, source_height = pb_height cfg, events = [event]\<rparr>))) (\<lambda>payload.
     task_then (task_modify (\<lambda>s. s\<lparr>pn_sequence := cursor_sequence\<rparr>)) (\<lambda>_.
     task_then (seal_and_publish E cfg turn
         \<lparr>n_sequence = cursor_sequence, n_timestamp = timestamp, n_duration = 1, n_kind = Cursor,
          n_random_access = False, n_codec = None\<rparr> payload) (\<lambda>_.
       task_of (Ok (of_nat (length payload))))))))))"

definition publish_frame ::
  "'z history_env_scheme \<Rightarrow> publication_settings \<Rightarrow> frame_turn \<Rightarrow> bool \<Rightarrow> unit publishing" where
  "publish_frame E cfg turn starts_group =
     task_then (task_of (ft_encoded turn starts_group)) (\<lambda>encoded.
     if starts_group \<and> \<not> ef_keyframe encoded
     then task_of (Err (PubRefused ''H.264 key group did not begin with an IDR''))
     else task_then (if starts_group then publish_epoch E cfg turn encoded else task_of (Ok ())) (\<lambda>_.
       task_then (task_modify (\<lambda>s. s\<lparr>pn_sequence := saturating_add_u64 (pn_sequence s) 1\<rparr>)) (\<lambda>_.
       task_then (task_get (\<lambda>s. (pn_sequence s, pn_timestamp s))) (\<lambda>(sequence, timestamp).
       task_then (seal_and_publish E cfg turn
           \<lparr>n_sequence = sequence, n_timestamp = timestamp, n_duration = pb_duration cfg, n_kind = Media,
            n_random_access = ef_keyframe encoded, n_codec = Some H264AnnexB\<rparr> (ef_annex_b encoded)) (\<lambda>_.
       task_then (task_of (ft_cursor turn)) (\<lambda>cursor.
       task_then (case cursor of None \<Rightarrow> task_of (Ok 0) | Some message \<Rightarrow> publish_cursor E cfg turn message) (\<lambda>cursor_bytes.
       task_then (task_modify (count_content cfg
           (saturating_add_u64 (of_nat (length (ef_annex_b encoded))) cursor_bytes))) (\<lambda>_.
       task_then (record_history E cfg (ft_end_history turn) (ft_end_ms turn)) (\<lambda>_.
         task_modify (\<lambda>s. s\<lparr>pn_frame_index := saturating_add_u64 (pn_frame_index s) 1,
                            pn_timestamp := saturating_add_u64 (pn_timestamp s) (ucast (pb_duration cfg))\<rparr>))))))))))"

text \<open>Whether the loop goes on: it ends when a shutdown is seen before or while a frame is awaited.\<close>

definition publication_turn ::
  "'z history_env_scheme \<Rightarrow> publication_settings \<Rightarrow> frame_turn \<Rightarrow> bool publishing" where
  "publication_turn E cfg turn =
     (if ft_shutdown turn then task_of (Ok False)
      else task_then (rotate_group E cfg turn) (\<lambda>starts_group.
           task_then (task_of (ft_frame turn)) (\<lambda>captured.
             if captured then task_then (publish_frame E cfg turn starts_group) (\<lambda>_. task_of (Ok True))
             else task_of (Ok False))))"

fun publication_loop ::
  "'z history_env_scheme \<Rightarrow> publication_settings \<Rightarrow> frame_turn list \<Rightarrow> unit publishing" where
  "publication_loop E cfg [] = (\<lambda>s. ([], s, None))"
| "publication_loop E cfg (turn # turns) =
     task_then (publication_turn E cfg turn) (\<lambda>continue.
       if continue then publication_loop E cfg turns else task_of (Ok ()))"

section \<open>Who holds the key in use\<close>

text \<open>The identifiers of a list of viewers.\<close>

definition viewer_ids :: "'z identity_env_scheme \<Rightarrow> identity_public list \<Rightarrow> array32 set" where
  "viewer_ids E vs = {i. \<exists>v\<in>set vs. identity_id E v = Ok i}"

text \<open>The monitor of one turn: who was given the key of which group.  An envelope goes to an approved
  viewer only, and an object is published only while every holder of its group's key is approved.\<close>

fun holders_step :: "array32 set \<Rightarrow> (u64 \<times> array32) set \<Rightarrow> publisher_message \<Rightarrow> (u64 \<times> array32) set option" where
  "holders_step ids H (PubKeyEnvelope e) =
     (if k_recipient_id (e_header e) \<in> ids
      then Some (insert (k_key_group_id (e_header e), k_recipient_id (e_header e)) H) else None)"
| "holders_step ids H (PubObject obj) =
     (if \<forall>i. (h_key_group (o_header obj), i) \<in> H \<longrightarrow> i \<in> ids then Some H else None)"
| "holders_step ids H m = Some H"

text \<open>Group \<open>n\<close> is in use, the key of no later group was given to anyone, and that of \<open>n\<close> to \<open>ids\<close> only.\<close>

definition holders_inv :: "u64 \<Rightarrow> array32 set \<Rightarrow> (u64 \<times> array32) set \<Rightarrow> publication \<Rightarrow> bool" where
  "holders_inv n ids H s \<longleftrightarrow>
     pn_group_id s = n \<and> (\<forall>g. pn_group s = Some g \<longrightarrow> g_key_group g = n) \<and>
     (\<forall>k i. (k, i) \<in> H \<longrightarrow> k \<le> n) \<and> (\<forall>i. (n, i) \<in> H \<longrightarrow> i \<in> ids)"

lemma envelope_seal_header:
  "envelope_seal E rnd secret viewer sid eid key_group kid key = Ok e \<Longrightarrow>
     identity_id E viewer = Ok (k_recipient_id (e_header e)) \<and> k_key_group_id (e_header e) = key_group"
  by (auto simp: envelope_seal_def Let_def result_simps split: if_splits)

lemma group_seal_header:
  assumes "group_seal E secret g (obj, plain) = Ok (g', sealed)"
  shows "g_key_group g' = g_key_group g" "g_key_id g' = g_key_id g" "g_epoch_id g' = g_epoch_id g"
    "g_stream_id g' = g_stream_id g" "\<exists>n. o_header sealed = seal_header g obj n"
  using assms by (auto simp: group_seal_def Let_def result_simps split: if_splits)

lemma group_generate_fields:
  assumes "group_generate E kid prefix key public sid eid k prior = Ok g"
  shows "g_key_group g = k" "g_epoch_id g = eid" "g_stream_id g = sid" "g_key_id g = kid" "g_key g = key"
  using assms by (auto simp: group_generate_def group_restore_def content_key_from_bytes_def result_simps split: if_splits)

lemma monitored_send:
  assumes "\<And>a s. P a s \<Longrightarrow> \<exists>a'. step a m = Some a' \<and> Q a' s"
  shows "monitored step P (send_message turn m) (\<lambda>_. Q)"
  unfolding monitored_def
proof (intro allI impI)
  fix a s out s' r
  assume "P a s" and "send_message turn m s = (out, s', r)"
  with assms [of a s] show "\<exists>a'. monitor step a out = Some a' \<and> (\<forall>x. r = Some (Ok x) \<longrightarrow> Q a' s')"
    by (auto simp: send_message_def split: sum.splits)
qed

lemma monitored_publish:
  assumes "\<And>a s. P a s \<Longrightarrow> \<exists>a'. step a (PubObject obj) = Some a' \<and> Q a' s"
  shows "monitored step P (publish turn obj expected) (\<lambda>_. Q)"
  unfolding publish_def
  by (intro monitored_then [OF monitored_send [where P = P and Q = Q]] monitored_of
      monitored_then [OF monitored_of [where P = Q and Q = "\<lambda>_. Q"]]) (use assms in auto)

text \<open>Sealing: the object carries the group's identifiers, and the group keeps them.\<close>

lemma monitored_seal:
  assumes "\<And>a s g g' sealed n. P a s \<Longrightarrow> pn_group s = Some g \<Longrightarrow> o_header sealed = seal_header g obj n \<Longrightarrow>
      g_key_group g' = g_key_group g \<Longrightarrow> g_key_id g' = g_key_id g \<Longrightarrow> g_epoch_id g' = g_epoch_id g \<Longrightarrow>
      g_stream_id g' = g_stream_id g \<Longrightarrow>
      \<exists>a'. step a (PubObject sealed) = Some a' \<and> Q a' (s\<lparr>pn_group := Some g'\<rparr>)"
  shows "monitored step P (seal_and_publish E cfg turn obj plain) (\<lambda>_. Q)"
  unfolding seal_and_publish_def
proof (intro monitored_get_then monitored_of_then, clarsimp simp: ok_or_def result_simps split: option.splits)
  fix g g' sealed
  assume seal: "group_seal E (pb_secret cfg) g (obj, plain) = Ok (g', sealed)"
  from group_seal_header(5) [OF this] obtain n where n: "o_header sealed = seal_header g obj n" by blast
  show "monitored step (\<lambda>a s. P a s \<and> pn_group s = Some g)
      (task_then (task_modify (pn_group_update (\<lambda>_. Some g'))) (\<lambda>_. publish turn sealed (n_sequence obj))) (\<lambda>_. Q)"
    by (rule monitored_modify_then [where R = "\<lambda>a s'. \<exists>s. P a s \<and> pn_group s = Some g \<and> s' = s\<lparr>pn_group := Some g'\<rparr>"],
        blast, rule monitored_publish)
      (use assms n group_seal_header [OF seal] in \<open>blast\<close>)
qed

lemma monitored_send_key:
  assumes "\<And>a s e. P a s \<Longrightarrow> identity_id E viewer = Ok (k_recipient_id (e_header e)) \<Longrightarrow>
      k_key_group_id (e_header e) = pn_group_id s \<Longrightarrow> \<exists>a'. step a (PubKeyEnvelope e) = Some a' \<and> P a' s"
  shows "monitored step P (send_key E cfg turn viewer) (\<lambda>_. P)"
  unfolding send_key_def
proof (intro monitored_get_then, clarsimp, intro monitored_of_then)
  fix group group_id g envelope
  assume "map_err PubEnvelope (envelope_seal E (ft_seal_rnd turn viewer) (pb_secret cfg) viewer (pb_stream_id cfg)
      (pb_epoch_id cfg) group_id (g_key_id g) (g_key g)) = Ok envelope"
  then have "identity_id E viewer = Ok (k_recipient_id (e_header envelope))" "k_key_group_id (e_header envelope) = group_id"
    by (auto simp: map_err_eq_Ok dest!: envelope_seal_header)
  then have "monitored step (\<lambda>a s. P a s \<and> pn_group s = group \<and> pn_group_id s = group_id)
      (send_message turn (PubKeyEnvelope envelope)) (\<lambda>_ a s. P a s \<and> pn_group s = group \<and> pn_group_id s = group_id)"
    using assms by (intro monitored_send) auto
  then show "monitored step (\<lambda>a s. P a s \<and> pn_group s = group \<and> pn_group_id s = group_id)
      (send_message turn (PubKeyEnvelope envelope)) (\<lambda>_. P)"
    by (rule monitored_weaken) auto
qed

lemma monitored_history:
  assumes "\<And>a s hs f. P a s \<Longrightarrow> P a (s\<lparr>pn_history := hs, pn_history_file := f\<rparr>)"
  shows "monitored step P (record_history E cfg io now_ms) (\<lambda>_. P)"
proof -
  have keep: "P a (s\<lparr>pn_history := hs\<rparr>)" "P a (s\<lparr>pn_history_file := f\<rparr>)" if "P a s" for a s hs f
    using assms [OF that, where hs = hs and f = "pn_history_file s"] assms [OF that, where hs = "pn_history s" and f = f] by simp_all
  show ?thesis
    unfolding record_history_def
    by (rule monitored_modify_then [where R = P], erule keep) (auto simp: monitored_def intro: keep split: prod.splits)
qed

text \<open>A turn that has settled its group keeps the invariant and passes the monitor.\<close>

definition holders_settled ::
  "'z identity_env_scheme \<Rightarrow> identity_public list \<Rightarrow> u64 \<Rightarrow> (u64 \<times> array32) set \<Rightarrow> publication \<Rightarrow> bool" where
  "holders_settled E latest n H s \<longleftrightarrow> holders_inv n (viewer_ids E latest) H s \<and> pn_approved s = latest"

abbreviation holders_monitored where
  "holders_monitored E latest n t \<equiv>
     monitored (holders_step (viewer_ids E latest)) (holders_settled E latest n) t (\<lambda>_. holders_settled E latest n)"

lemma holders_update:
  "holders_settled E latest n H s \<Longrightarrow> pn_approved s' = pn_approved s \<Longrightarrow> pn_group s' = pn_group s \<Longrightarrow>
   pn_group_id s' = pn_group_id s \<Longrightarrow> holders_settled E latest n H s'"
  by (simp add: holders_settled_def holders_inv_def)

lemma holders_seal: "holders_monitored E latest n (seal_and_publish E cfg turn obj plain)"
  by (rule monitored_seal) (auto simp: holders_settled_def holders_inv_def seal_header_def)

lemma holders_key: "viewer \<in> set latest \<Longrightarrow> holders_monitored E latest n (send_key E cfg turn viewer)"
  by (rule monitored_send_key) (auto simp: holders_settled_def holders_inv_def viewer_ids_def)

lemma holders_history: "holders_monitored E latest n (record_history E cfg io now_ms)"
  by (rule monitored_history) (erule holders_update, simp_all)

lemma holders_modify_then:
  "(\<And>s. pn_approved (f s) = pn_approved s \<and> pn_group (f s) = pn_group s \<and> pn_group_id (f s) = pn_group_id s) \<Longrightarrow>
   monitored step (holders_settled E latest n) (k ()) Q \<Longrightarrow>
   monitored step (holders_settled E latest n) (task_then (task_modify f) k) Q"
  by (rule monitored_update_then) (auto elim: holders_update)

lemmas holders_steps = monitored_of_then monitored_get_any holders_modify_then
  monitored_keep_then [OF holders_seal] monitored_keep_then [OF holders_history]

lemma holders_epoch: "holders_monitored E latest n (publish_epoch E cfg turn encoded)"
proof -
  have keys: "holders_monitored E latest n
      (task_then (task_get (\<lambda>s. (pn_group s, pn_approved s))) (\<lambda>(group, approved). k group approved))"
    if "\<And>group. holders_monitored E latest n (k group latest)" for k :: "_ \<Rightarrow> _ \<Rightarrow> unit publishing"
  proof (rule monitored_get_then, clarsimp)
    fix group approved
    show "monitored (holders_step (viewer_ids E latest))
        (\<lambda>a s. holders_settled E latest n a s \<and> pn_group s = group \<and> pn_approved s = approved) (k group approved)
        (\<lambda>_. holders_settled E latest n)"
    proof (cases "approved = latest")
      case True
      from that [of group] show ?thesis unfolding True by (rule monitored_weaken) simp_all
    next
      case False
      then show ?thesis by (auto simp: monitored_def holders_settled_def)
    qed
  qed
  have each: "holders_monitored E latest n (task_each (send_key E cfg turn) latest)"
    by (rule monitored_each) (rule holders_key)
  show ?thesis
    unfolding publish_epoch_def Let_def
    by (intro holders_steps keys each) (auto intro!: holders_steps keys each)
qed

lemma holders_cursor: "holders_monitored E latest n (publish_cursor E cfg turn cursor)"
  unfolding publish_cursor_def
  by (rule monitored_get_any) (auto intro!: holders_steps monitored_of split: prod.splits)

lemma holders_frame: "holders_monitored E latest n (publish_frame E cfg turn starts_group)"
proof -
  have cursor: "holders_monitored E latest n (case c of None \<Rightarrow> task_of (Ok 0) | Some m \<Rightarrow> publish_cursor E cfg turn m)" for c
    by (cases c) (auto intro: monitored_of holders_cursor)
  have content: "holders_monitored E latest n (task_modify f)"
    if "\<And>s. pn_approved (f s) = pn_approved s \<and> pn_group (f s) = pn_group s \<and> pn_group_id (f s) = pn_group_id s" for f
    by (rule monitored_modify) (use that in \<open>auto elim: holders_update\<close>)
  show ?thesis
    unfolding publish_frame_def
    by (auto intro!: holders_steps monitored_of content monitored_keep_then [OF holders_epoch] monitored_keep_then [OF cursor]
        simp: count_content_def)
qed

text \<open>The beginning of a turn: a new group, whose key nobody has, or the old one while nobody who has its
  key lost the approval.\<close>

lemma try_map_ids: "try_map (identity_id E) vs = Ok ids \<Longrightarrow> set ids = viewer_ids E vs"
  unfolding viewer_ids_def
  by (induction vs arbitrary: ids) (auto simp: and_then_eq_Ok)

lemma monitored_rotate:
  assumes approved: "ft_approved turn = Ok latest"
    and fresh: "\<And>a s g. P a s \<Longrightarrow> g_key_group g = saturating_add_u64 (pn_group_id s) 1 \<Longrightarrow> g_epoch_id g = pb_epoch_id cfg \<Longrightarrow>
      g_stream_id g = pb_stream_id cfg \<Longrightarrow>
      Q True a (s\<lparr>pn_group_id := saturating_add_u64 (pn_group_id s) 1, pn_group := Some g, pn_approved := latest\<rparr>)"
    and keep: "\<And>a s. P a s \<Longrightarrow> pn_group s \<noteq> None \<Longrightarrow> viewer_ids E (pn_approved s) \<subseteq> viewer_ids E latest \<Longrightarrow> K a s"
    and key: "\<And>a s e. K a s \<Longrightarrow> k_recipient_id (e_header e) \<in> viewer_ids E latest \<Longrightarrow>
      k_key_group_id (e_header e) = pn_group_id s \<Longrightarrow> \<exists>a'. step a (PubKeyEnvelope e) = Some a' \<and> K a' s"
    and settle: "\<And>a s. K a s \<Longrightarrow> Q False a (s\<lparr>pn_approved := latest\<rparr>)"
  shows "monitored step P (rotate_group E cfg turn) Q"
proof (rule monitored_pointwise)
  fix a s
  assume P: "P a s"
  have keys: "monitored step K (task_each (send_key E cfg turn) (newly_approved E ids latest)) (\<lambda>_. K)" for ids
    by (rule monitored_each, rule monitored_send_key, rule key) (auto simp: newly_approved_def viewer_ids_def)
  show "monitored step (at_state a s) (rotate_group E cfg turn) Q"
    unfolding rotate_group_def approved
  proof (intro monitored_at)
    fix latest' previous_ids latest_ids
    assume "Ok latest = Ok latest'" and
      ids: "map_err PubIdentity (try_map (identity_id E) (pn_approved s)) = Ok previous_ids"
        "map_err PubIdentity (try_map (identity_id E) latest') = Ok latest_ids"
    then have latest': "latest' = latest" by simp
    have sets: "set previous_ids = viewer_ids E (pn_approved s)" "set latest_ids = viewer_ids E latest"
      using ids by (simp_all add: map_err_eq_Ok try_map_ids latest')
    let ?starts = "pn_group s = None \<or> (\<exists>i\<in>set previous_ids. i \<notin> set latest_ids) \<or>
       unat (pn_frame_index s) mod unat (pb_group_frames cfg) = 0"
    show "monitored step (at_state a s)
      (task_then
        (if ?starts
         then task_then (task_modify (\<lambda>s. s\<lparr>pn_group_id := saturating_add_u64 (pn_group_id s) 1\<rparr>)) (\<lambda>_.
              task_then (task_of (map_err PubIdentity (secret_public E (pb_secret cfg)))) (\<lambda>public.
              task_then (task_get (\<lambda>s. (pn_group_id s, pn_sequence s))) (\<lambda>(group_id, sequence).
              task_then (task_of (map_err PubNative
                  (group_generate E (ft_key_id turn) (ft_nonce_prefix turn) (ft_content_key turn) public
                     (pb_stream_id cfg) (pb_epoch_id cfg) group_id sequence))) (\<lambda>g.
                task_modify (\<lambda>s. s\<lparr>pn_group := Some g\<rparr>)))))
         else task_each (send_key E cfg turn) (newly_approved E previous_ids latest')) (\<lambda>_.
      task_then (task_modify (\<lambda>s. s\<lparr>pn_approved := latest'\<rparr>)) (\<lambda>_. task_of (Ok ?starts)))) Q"
    proof (cases ?starts)
      case True
      let ?R = "\<lambda>(_ :: unit) a' s'. a' = a \<and> (\<exists>g :: group_encryptor. g_key_group g = saturating_add_u64 (pn_group_id s) 1 \<and>
          g_epoch_id g = pb_epoch_id cfg \<and> g_stream_id g = pb_stream_id cfg \<and>
          s' = s\<lparr>pn_group_id := saturating_add_u64 (pn_group_id s) 1, pn_group := Some g\<rparr>)"
      from True have T: "?starts = True" by (rule eqTrueI)
      show ?thesis
        unfolding latest' T if_True
      proof (rule monitored_then [where R = ?R], intro monitored_at, unfold prod.case, rule monitored_of_then,
          rule monitored_modify)
        show "?R () a' (s'\<lparr>pn_group := Some g\<rparr>)"
          if "map_err PubNative (group_generate E (ft_key_id turn) (ft_nonce_prefix turn) (ft_content_key turn) public
              (pb_stream_id cfg) (pb_epoch_id cfg) (pn_group_id (s\<lparr>pn_group_id := saturating_add_u64 (pn_group_id s) 1\<rparr>))
              (pn_sequence (s\<lparr>pn_group_id := saturating_add_u64 (pn_group_id s) 1\<rparr>))) = Ok g"
            "at_state a (s\<lparr>pn_group_id := saturating_add_u64 (pn_group_id s) 1\<rparr>) a' s'" for public g a' s'
          using that by (auto simp: at_state_def map_err_eq_Ok dest: group_generate_fields intro!: exI [of _ g])
      next
        show "monitored step (?R x) (task_then (task_modify (\<lambda>s. s\<lparr>pn_approved := latest\<rparr>)) (\<lambda>_. task_of (Ok True))) Q" for x :: unit
        proof (rule monitored_pointwise)
          fix a' s'
          assume "?R x a' s'"
          then obtain g where "a' = a" "g_key_group g = saturating_add_u64 (pn_group_id s) 1" "g_epoch_id g = pb_epoch_id cfg"
            "g_stream_id g = pb_stream_id cfg" "s' = s\<lparr>pn_group_id := saturating_add_u64 (pn_group_id s) 1, pn_group := Some g\<rparr>"
            by blast
          with fresh [OF P, of g] show "monitored step (at_state a' s')
              (task_then (task_modify (\<lambda>s. s\<lparr>pn_approved := latest\<rparr>)) (\<lambda>_. task_of (Ok True))) Q"
            by (intro monitored_at monitored_at_of) simp
        qed
      qed
    next
      case False
      then have K: "K a s" using keep [OF P] sets by auto
      have F: "?starts = False" using False by (simp only: simp_thms)
      show ?thesis
        unfolding latest' F if_False
      proof (rule monitored_then [where R = "\<lambda>_. K"])
        show "monitored step (at_state a s) (task_each (send_key E cfg turn) (newly_approved E previous_ids latest)) (\<lambda>_. K)"
          by (rule monitored_weaken [OF keys]) (use K in \<open>simp_all add: at_state_def\<close>)
        show "monitored step K (task_then (task_modify (\<lambda>s. s\<lparr>pn_approved := latest\<rparr>)) (\<lambda>_. task_of (Ok False))) Q"
          by (rule monitored_pointwise, rule monitored_at_modify, rule monitored_at_of) (use settle in \<open>auto\<close>)
      qed
    qed
  qed
qed

lemma holders_rotate:
  assumes "unat n < 2 ^ 64 - 1" and "ft_approved turn = Ok latest"
  shows "monitored (holders_step (viewer_ids E latest)) (holders_settled E previous n) (rotate_group E cfg turn)
    (\<lambda>_ H s. \<exists>n'. unat n' \<le> unat n + 1 \<and> holders_settled E latest n' H s)"
proof -
  have n: "saturating_add_u64 n 1 = n + 1" "unat (n + 1) = unat n + 1"
    using assms(1) by (simp_all add: saturating_add_u64_def unat_word_ariths)
  have less: "n < n + 1" using n(2) by (simp add: word_less_nat_alt)
  show ?thesis
  proof (rule monitored_rotate [OF assms(2), where K = "holders_inv n (viewer_ids E latest)"])
    fix H s and g :: group_encryptor
    assume "holders_settled E previous n H s" "g_key_group g = saturating_add_u64 (pn_group_id s) 1"
    then have "holders_settled E latest (n + 1) H
        (s\<lparr>pn_group_id := saturating_add_u64 (pn_group_id s) 1, pn_group := Some g, pn_approved := latest\<rparr>)"
      using n(1) less by (auto simp: holders_settled_def holders_inv_def intro: order.trans less_imp_le)
    then show "\<exists>n'. unat n' \<le> unat n + 1 \<and> holders_settled E latest n' H
        (s\<lparr>pn_group_id := saturating_add_u64 (pn_group_id s) 1, pn_group := Some g, pn_approved := latest\<rparr>)"
      using n(2) by (intro exI [of _ "n + 1"]) simp
  next
    fix H s
    assume "holders_settled E previous n H s" "viewer_ids E (pn_approved s) \<subseteq> viewer_ids E latest"
    then show "holders_inv n (viewer_ids E latest) H s" by (auto simp: holders_settled_def holders_inv_def)
  next
    fix H s
    assume "holders_inv n (viewer_ids E latest) H s"
    then show "\<exists>n'. unat n' \<le> unat n + 1 \<and> holders_settled E latest n' H (s\<lparr>pn_approved := latest\<rparr>)"
      by (intro exI [of _ n]) (simp add: holders_settled_def holders_inv_def)
  qed (auto simp: holders_inv_def)
qed

section \<open>The messages of each turn\<close>

fun turn_messages ::
  "'z history_env_scheme \<Rightarrow> publication_settings \<Rightarrow> frame_turn list \<Rightarrow> publication \<Rightarrow> publisher_message list list" where
  "turn_messages E cfg [] s = []"
| "turn_messages E cfg (turn # turns) s =
     (case publication_turn E cfg turn s of (out, s', r) \<Rightarrow>
        out # (if r = Some (Ok True) then turn_messages E cfg turns s' else []))"

lemma concat_turn_messages: "concat (turn_messages E cfg turns s) = fst (publication_loop E cfg turns s)"
proof (induction turns arbitrary: s)
  case (Cons turn turns)
  obtain out s' r where "publication_turn E cfg turn s = (out, s', r)" by (cases "publication_turn E cfg turn s")
  with Cons [of s'] show ?case
    by (auto simp: task_then_def task_of_def task_run_def run_of_def split: option.splits sum.splits prod.splits)
qed simp

lemma length_turn_messages: "length (turn_messages E cfg turns s) \<le> length turns"
  by (induction turns arbitrary: s) (auto split: prod.splits)

text \<open>What is approved in a turn, as read from the disk.\<close>

definition turn_approved :: "'z identity_env_scheme \<Rightarrow> frame_turn \<Rightarrow> array32 set" where
  "turn_approved E turn = (case ft_approved turn of Inl _ \<Rightarrow> {} | Inr latest \<Rightarrow> viewer_ids E latest)"

lemma holders_turn:
  assumes "unat n < 2 ^ 64 - 1" and "holders_settled E previous n H s" and "publication_turn E cfg turn s = (out, s', r)"
  shows "\<exists>H'. monitor (holders_step (turn_approved E turn)) H out = Some H' \<and>
    (r = Some (Ok True) \<longrightarrow> (\<exists>latest n'. unat n' \<le> unat n + 1 \<and> holders_settled E latest n' H' s'))"
proof (cases "ft_approved turn")
  case (Inl e)
  then have "out = []" "r \<noteq> Some (Ok True)"
    using assms(3)
    by (auto simp: publication_turn_def rotate_group_def task_then_def task_of_def task_run_def run_of_def split: if_splits)
  then show ?thesis by simp
next
  case (Inr latest)
  let ?Q = "\<lambda>H s. \<exists>n'. unat n' \<le> unat n + 1 \<and> holders_settled E latest n' H s"
  have frame: "monitored (holders_step (viewer_ids E latest)) ?Q (publish_frame E cfg turn b) (\<lambda>_. ?Q)" for b
    by (rule monitored_ex) (rule holders_frame)
  have whole: "monitored (holders_step (viewer_ids E latest)) (holders_settled E previous n) (publication_turn E cfg turn)
      (\<lambda>x H s. x = True \<longrightarrow> ?Q H s)"
    unfolding publication_turn_def
    by (auto intro!: monitored_of monitored_then [OF holders_rotate [OF assms(1) Inr]] monitored_of_then
        monitored_then [OF frame [simplified]])
  obtain H' where H': "monitor (holders_step (viewer_ids E latest)) H out = Some H'"
    "\<forall>x. r = Some (Ok x) \<longrightarrow> x = True \<longrightarrow> ?Q H' s'"
    by (rule monitoredD [OF whole assms(2,3)])
  have "\<exists>latest n'. unat n' \<le> unat n + 1 \<and> holders_settled E latest n' H' s'" if "r = Some (Ok True)"
    using H'(2) that by blast
  with H'(1) show ?thesis unfolding turn_approved_def Inr by (simp only: sum.case) blast
qed

lemma monitor_holders_grow: "monitor (holders_step ids) H out = Some H' \<Longrightarrow> H \<subseteq> H'"
proof (induction out arbitrary: H)
  case (Cons m out)
  then obtain H1 where "holders_step ids H m = Some H1" "H1 \<subseteq> H'" by (auto split: option.splits)
  moreover have "H \<subseteq> H1" using calculation(1) by (cases m) (auto split: if_splits)
  ultimately show ?case by blast
qed simp

lemma monitor_holders_envelope:
  "monitor (holders_step ids) H out = Some H' \<Longrightarrow> PubKeyEnvelope e \<in> set out \<Longrightarrow>
   (k_key_group_id (e_header e), k_recipient_id (e_header e)) \<in> H' \<and> k_recipient_id (e_header e) \<in> ids"
  by (induction out arbitrary: H) (auto split: option.splits if_splits intro: monitor_holders_grow [THEN subsetD])

lemma monitor_holders_object:
  "monitor (holders_step ids) H out = Some H' \<Longrightarrow> PubObject obj \<in> set out \<Longrightarrow>
   (h_key_group (o_header obj), i) \<in> H \<Longrightarrow> i \<in> ids"
proof (induction out arbitrary: H)
  case (Cons m out)
  then obtain H1 where H1: "holders_step ids H m = Some H1" "monitor (holders_step ids) H1 out = Some H'" by (auto split: option.splits)
  have "H \<subseteq> H1" using H1(1) by (cases m) (auto split: if_splits)
  with Cons H1 show ?case by (cases "m = PubObject obj") (auto split: if_splits)
qed simp

lemma published_to_approved:
  assumes "holders_settled E previous n H s" and "unat n + length turns < 2 ^ 64"
    and "i < length (turn_messages E cfg turns s)" and "PubObject obj \<in> set (turn_messages E cfg turns s ! i)"
    and "j \<le> i \<and> PubKeyEnvelope e \<in> set (turn_messages E cfg turns s ! j) \<and>
           (h_key_group (o_header obj), k_recipient_id (e_header e)) = (k_key_group_id (e_header e), v) \<or>
         (h_key_group (o_header obj), v) \<in> H"
  shows "v \<in> turn_approved E (turns ! i)"
  using assms
proof (induction turns arbitrary: s H n previous i j)
  case (Cons turn turns)
  obtain out s' r where step: "publication_turn E cfg turn s = (out, s', r)" by (cases "publication_turn E cfg turn s")
  have "unat n < 2 ^ 64 - 1" using Cons.prems(2) by simp
  from holders_turn [OF this Cons.prems(1) step] obtain H' where
    H': "monitor (holders_step (turn_approved E turn)) H out = Some H'"
    "r = Some (Ok True) \<longrightarrow> (\<exists>latest n'. unat n' \<le> unat n + 1 \<and> holders_settled E latest n' H' s')" by blast
  note grow = monitor_holders_grow [OF H'(1)]
  show ?case
  proof (cases i)
    case 0
    with Cons.prems(4,5) step show ?thesis
      using monitor_holders_object [OF H'(1)] monitor_holders_envelope [OF H'(1)] by auto
  next
    case (Suc i')
    then have r: "r = Some (Ok True)" using Cons.prems(3) step by (auto split: if_splits)
    then obtain latest n' where next_turn: "holders_settled E latest n' H' s'" "unat n' \<le> unat n + 1" using H'(2) by blast
    have len: "unat n' + length turns < 2 ^ 64" using next_turn(2) Cons.prems(2) by simp
    have tail: "turn_messages E cfg (turn # turns) s = out # turn_messages E cfg turns s'" using step r by simp
    have "j - 1 \<le> i' \<and> PubKeyEnvelope e \<in> set (turn_messages E cfg turns s' ! (j - 1)) \<and>
           (h_key_group (o_header obj), k_recipient_id (e_header e)) = (k_key_group_id (e_header e), v) \<or>
         (h_key_group (o_header obj), v) \<in> H'"
      using Cons.prems(5) grow monitor_holders_envelope [OF H'(1), of e] unfolding tail Suc by (cases j) auto
    with Cons.IH [OF next_turn(1) len, of i' "j - 1"] Cons.prems(3,4) show ?thesis unfolding tail Suc by simp
  qed
qed simp

section \<open>The order of what is published\<close>

text \<open>The monitor applies the relay's own rules of order to the objects of the stream: the next sequence,
  and, when the object is not in the active group, the rules for starting one.  Its state is the
  stream's row and the key identifier of the active group.\<close>

fun relay_order_step :: "stream_row \<times> array16 \<Rightarrow> publisher_message \<Rightarrow> (stream_row \<times> array16) option" where
  "relay_order_step (row, kid) (PubObject obj) =
     (let h = o_header obj; k = uint (h_key_group h);
          row' = row\<lparr>s_high_water := uint (h_sequence h), s_active_epoch := Some (h_epoch_id h), s_active_group := Some k\<rparr>
      in if h_stream_id h \<noteq> s_stream_id row \<or> uint (h_sequence h) \<noteq> s_high_water row + 1 then None
         else if group_changed row (h_epoch_id h) k
         then (case validate_group_progression (s_active_epoch row) (s_active_group row) (h_epoch_id h) k obj of
                 Inl _ \<Rightarrow> None | Inr _ \<Rightarrow> Some (row', h_key_id h))
         else if h_key_id h \<noteq> kid then None else Some (row', kid))"
| "relay_order_step a m = Some a"

text \<open>Between the publisher and the row: \<open>d\<close> is how far the publisher's sequence is ahead, \<open>b\<close> whether
  the relay has seen the current group.\<close>

definition order_group :: "publication_settings \<Rightarrow> bool \<Rightarrow> stream_row \<times> array16 \<Rightarrow> u64 \<Rightarrow> group_encryptor option \<Rightarrow> bool" where
  "order_group cfg b a group_id current =
     (case current of
        None \<Rightarrow> False
      | Some g \<Rightarrow>
          g_stream_id g = pb_stream_id cfg \<and> g_epoch_id g = pb_epoch_id cfg \<and> g_key_group g = group_id \<and>
          (if b then s_active_epoch (fst a) = Some (pb_epoch_id cfg) \<and> s_active_group (fst a) = Some (uint group_id) \<and>
                     snd a = g_key_id g
           else s_active_epoch (fst a) \<noteq> Some (pb_epoch_id cfg) \<or>
                (\<exists>k. s_active_group (fst a) = Some k \<and> k < uint group_id)))"

definition order_rel :: "publication_settings \<Rightarrow> u64 \<Rightarrow> nat \<Rightarrow> bool \<Rightarrow> nat \<Rightarrow> stream_row \<times> array16 \<Rightarrow> publication \<Rightarrow> bool" where
  "order_rel cfg n d b lim a s \<longleftrightarrow>
     s_stream_id (fst a) = pb_stream_id cfg \<and> uint (pn_sequence s) = s_high_water (fst a) + int d \<and>
     unat (pn_sequence s) \<le> lim \<and> pn_group_id s = n \<and> order_group cfg b a n (pn_group s)"

lemma order_update:
  "order_rel cfg n d b lim a s \<Longrightarrow> pn_sequence s' = pn_sequence s \<Longrightarrow> pn_group s' = pn_group s \<Longrightarrow>
   pn_group_id s' = pn_group_id s \<Longrightarrow> order_rel cfg n d b lim a s'"
  by (simp add: order_rel_def)

lemma order_next:
  "order_rel cfg n 0 b lim a s \<Longrightarrow> lim < 2 ^ 64 - 1 \<Longrightarrow>
   order_rel cfg n 1 b (lim + 1) a (s\<lparr>pn_sequence := saturating_add_u64 (pn_sequence s) 1\<rparr>)"
proof -
  assume rel: "order_rel cfg n 0 b lim a s" and lim: "lim < 2 ^ 64 - 1"
  then have "unat (pn_sequence s) < 2 ^ 64 - 1" by (auto simp: order_rel_def)
  then have seq: "unat (saturating_add_u64 (pn_sequence s) 1) = unat (pn_sequence s) + 1"
    by (simp add: unat_saturating_add_u64)
  then have "uint (saturating_add_u64 (pn_sequence s) 1) = uint (pn_sequence s) + 1"
    unfolding uint_nat by simp
  with rel seq show ?thesis by (auto simp: order_rel_def)
qed

lemma order_seal:
  assumes "b \<or> n_kind obj \<noteq> Cursor \<and> n_random_access obj"
  shows "monitored relay_order_step (\<lambda>a s. order_rel cfg n 1 b lim a s \<and> pn_sequence s = n_sequence obj)
    (seal_and_publish E cfg turn obj plain) (\<lambda>_. order_rel cfg n 0 True lim)"
proof (rule monitored_seal)
  fix a :: "stream_row \<times> array16" and s and g g' :: group_encryptor and sealed :: native_object and len
  assume rel: "order_rel cfg n 1 b lim a s \<and> pn_sequence s = n_sequence obj"
    and g: "pn_group s = Some g" and sealed: "o_header sealed = seal_header g obj len"
    and g': "g_key_group g' = g_key_group g" "g_key_id g' = g_key_id g" "g_epoch_id g' = g_epoch_id g"
      "g_stream_id g' = g_stream_id g"
  obtain row kid where a: "a = (row, kid)" by (cases a)
  from rel g sealed have h: "h_stream_id (o_header sealed) = s_stream_id row"
    "uint (h_sequence (o_header sealed)) = s_high_water row + 1" "h_epoch_id (o_header sealed) = pb_epoch_id cfg"
    "h_key_group (o_header sealed) = pn_group_id s" "h_key_id (o_header sealed) = g_key_id g"
    "h_kind (o_header sealed) = n_kind obj" "h_random_access (o_header sealed) = n_random_access obj"
    by (auto simp: order_rel_def order_group_def a seal_header_def)
  have "relay_order_step a (PubObject sealed) =
      Some (row\<lparr>s_high_water := uint (h_sequence (o_header sealed)), s_active_epoch := Some (pb_epoch_id cfg),
                s_active_group := Some (uint (pn_group_id s))\<rparr>, g_key_id g)"
  proof (cases b)
    case True
    with rel g h show ?thesis by (auto simp: order_rel_def order_group_def a Let_def group_changed_def)
  next
    case False
    with assms have "n_kind obj \<noteq> Cursor" "n_random_access obj" by auto
    with rel g h False show ?thesis
      by (auto simp: order_rel_def order_group_def a Let_def group_changed_def validate_group_progression_def split: option.splits)
  qed
  moreover have "order_rel cfg n 0 True lim
      (row\<lparr>s_high_water := uint (h_sequence (o_header sealed)), s_active_epoch := Some (pb_epoch_id cfg),
           s_active_group := Some (uint (pn_group_id s))\<rparr>, g_key_id g) (s\<lparr>pn_group := Some g'\<rparr>)"
    using rel g g' h by (auto simp: order_rel_def order_group_def a)
  ultimately show "\<exists>a'. relay_order_step a (PubObject sealed) = Some a' \<and> order_rel cfg n 0 True lim a' (s\<lparr>pn_group := Some g'\<rparr>)"
    by blast
qed

text \<open>Steps that publish nothing keep the relation.\<close>

abbreviation order_monitored where
  "order_monitored cfg n lim t \<equiv> monitored relay_order_step (order_rel cfg n 0 True lim) t (\<lambda>_. order_rel cfg n 0 True lim)"

lemma order_key: "order_monitored cfg n lim (send_key E cfg turn viewer)"
  by (rule monitored_send_key) auto

lemma order_history: "order_monitored cfg n lim (record_history E cfg io now_ms)"
  by (rule monitored_history) (erule order_update, simp_all)

lemma order_modify_then:
  "(\<And>s. pn_sequence (f s) = pn_sequence s \<and> pn_group (f s) = pn_group s \<and> pn_group_id (f s) = pn_group_id s) \<Longrightarrow>
   monitored step (order_rel cfg n d b lim) (k ()) Q \<Longrightarrow> monitored step (order_rel cfg n d b lim) (task_then (task_modify f) k) Q"
  by (rule monitored_update_then) (auto elim: order_update)

lemmas order_steps = monitored_of_then monitored_get_any order_modify_then monitored_keep_then [OF order_history]

text \<open>The next sequence, sealed and published.\<close>

lemma order_publish_next:
  assumes "lim < 2 ^ 64 - 1"
    and "\<And>sequence timestamp. b \<or> n_kind (obj sequence timestamp) \<noteq> Cursor \<and> n_random_access (obj sequence timestamp)"
    and "\<And>sequence timestamp. n_sequence (obj sequence timestamp) = sequence"
    and "\<And>x. monitored relay_order_step (order_rel cfg n 0 True (lim + 1)) (k x) Q"
  shows "monitored relay_order_step (order_rel cfg n 0 b lim)
    (task_then (task_modify (\<lambda>s. s\<lparr>pn_sequence := saturating_add_u64 (pn_sequence s) 1\<rparr>)) (\<lambda>_.
     task_then (task_get (\<lambda>s. (pn_sequence s, pn_timestamp s))) (\<lambda>(sequence, timestamp).
     task_then (task_of plain) (\<lambda>plain.
     task_then (seal_and_publish E cfg turn (obj sequence timestamp) plain) k)))) Q"
proof (rule monitored_pointwise, intro monitored_at, unfold prod.case, rule monitored_of_then)
  fix a s payload
  assume rel: "order_rel cfg n 0 b lim a s"
  let ?s = "s\<lparr>pn_sequence := saturating_add_u64 (pn_sequence s) 1\<rparr>"
  have "monitored relay_order_step (at_state a ?s) (seal_and_publish E cfg turn (obj (pn_sequence ?s) (pn_timestamp ?s)) payload)
      (\<lambda>_. order_rel cfg n 0 True (lim + 1))"
    by (rule monitored_weaken [OF order_seal [OF assms(2), where lim = "lim + 1" and cfg = cfg]])
      (use order_next [OF rel assms(1)] assms(3) in \<open>auto simp: at_state_def\<close>)
  then show "monitored relay_order_step (at_state a ?s)
      (task_then (seal_and_publish E cfg turn (obj (pn_sequence ?s) (pn_timestamp ?s)) payload) k) Q"
    by (rule monitored_then) (rule assms(4))
qed

lemma order_epoch:
  assumes "lim < 2 ^ 64 - 1"
  shows "monitored relay_order_step (order_rel cfg n 0 False lim) (publish_epoch E cfg turn encoded)
    (\<lambda>_. order_rel cfg n 0 True (lim + 1))"
proof -
  have keys: "order_monitored cfg n l (task_each (send_key E cfg turn) viewers)" for l viewers
    by (rule monitored_each) (rule order_key)
  show ?thesis
    unfolding publish_epoch_def Let_def
    by (intro monitored_of_then order_publish_next [OF assms]) (auto intro!: order_steps keys split: prod.splits)
qed

lemma order_cursor:
  assumes "lim < 2 ^ 64 - 1"
  shows "monitored relay_order_step (order_rel cfg n 0 True lim) (publish_cursor E cfg turn cursor)
    (\<lambda>_. order_rel cfg n 0 True (lim + 1))"
  unfolding publish_cursor_def
proof (rule monitored_pointwise, rule monitored_at_get, unfold prod.case, rule monitored_of_then_pair, intro monitored_at)
  fix a s bitmap_state event cursor_sequence payload
  assume rel: "order_rel cfg n 0 True lim a s" and "ok_or (checked_add_u64 (pn_sequence s) 1)
      (PubRefused ''native cursor sequence space exhausted'') = Ok cursor_sequence"
  then have "checked_add_u64 (pn_sequence s) 1 = Some cursor_sequence" by (auto simp: ok_or_def split: option.splits)
  then have "cursor_sequence = saturating_add_u64 (pn_sequence s) 1"
    by (auto simp: checked_add_u64_def saturating_add_u64_def split: if_splits)
  with order_next [OF rel assms] have
    "order_rel cfg n 1 True (lim + 1) a (s\<lparr>pn_cursor := bitmap_state, pn_sequence := cursor_sequence\<rparr>)"
    by (auto elim: order_update)
  then show "monitored relay_order_step (at_state a ((s\<lparr>pn_cursor := bitmap_state\<rparr>)\<lparr>pn_sequence := cursor_sequence\<rparr>))
      (task_then (seal_and_publish E cfg turn
         \<lparr>n_sequence = cursor_sequence, n_timestamp = pn_timestamp s, n_duration = 1, n_kind = Cursor,
          n_random_access = False, n_codec = None\<rparr> payload) (\<lambda>_. task_of (Ok (of_nat (length payload)))))
      (\<lambda>_. order_rel cfg n 0 True (lim + 1))"
    by (intro monitored_then [OF monitored_weaken [OF order_seal [where b = True and lim = "lim + 1" and cfg = cfg]]] monitored_of)
      (auto simp: at_state_def)
qed

lemma order_frame:
  assumes "lim + 3 \<le> 2 ^ 64 - 1"
  shows "monitored relay_order_step (order_rel cfg n 0 (\<not> starts_group) lim) (publish_frame E cfg turn starts_group)
    (\<lambda>_. order_rel cfg n 0 True (lim + 3))"
proof -
  have raise: "order_rel cfg n 0 True l a s \<Longrightarrow> l \<le> l' \<Longrightarrow> order_rel cfg n 0 True l' a s" for l l' a s
    by (auto simp: order_rel_def)
  have cursor: "monitored relay_order_step (order_rel cfg n 0 True (lim + 2))
      (case c of None \<Rightarrow> task_of (Ok 0) | Some m \<Rightarrow> publish_cursor E cfg turn m) (\<lambda>_. order_rel cfg n 0 True (lim + 3))" for c
  proof (cases c)
    case None
    then show ?thesis by (auto intro!: monitored_of elim: raise)
  next
    case (Some m)
    have "lim + 2 < 2 ^ 64 - 1" using assms by simp
    from order_cursor [OF this] Some show ?thesis by (simp add: numeral_eq_Suc)
  qed
  have epoch: "monitored relay_order_step (order_rel cfg n 0 (\<not> starts_group) lim)
      (if starts_group then publish_epoch E cfg turn encoded else task_of (Ok ())) (\<lambda>_. order_rel cfg n 0 True (lim + 1))" for encoded
  proof (cases starts_group)
    case True
    have "lim < 2 ^ 64 - 1" using assms by simp
    from order_epoch [OF this] True show ?thesis by simp
  next
    case False
    then show ?thesis by (auto intro!: monitored_of elim: raise)
  qed
  have content: "order_monitored cfg n l (task_modify f)"
    if "\<And>s. pn_sequence (f s) = pn_sequence s \<and> pn_group (f s) = pn_group s \<and> pn_group_id (f s) = pn_group_id s" for f l
    by (rule monitored_modify) (use that in \<open>auto elim: order_update\<close>)
  have tail: "monitored relay_order_step (order_rel cfg n 0 True (lim + 2))
     (task_then (task_of (ft_cursor turn)) (\<lambda>cursor.
      task_then (case cursor of None \<Rightarrow> task_of (Ok 0) | Some message \<Rightarrow> publish_cursor E cfg turn message) (\<lambda>cursor_bytes.
      task_then (task_modify (count_content cfg (c cursor_bytes))) (\<lambda>_.
      task_then (record_history E cfg (ft_end_history turn) (ft_end_ms turn)) (\<lambda>_.
        task_modify (\<lambda>s. s\<lparr>pn_frame_index := saturating_add_u64 (pn_frame_index s) 1,
                            pn_timestamp := saturating_add_u64 (pn_timestamp s) (ucast (pb_duration cfg))\<rparr>))))))
     (\<lambda>_. order_rel cfg n 0 True (lim + 3))" for c
    by (intro monitored_of_then monitored_then [OF cursor] order_steps content) (auto simp: count_content_def)
  have media: "monitored relay_order_step (order_rel cfg n 0 True (lim + 1))
     (task_then (task_modify (\<lambda>s. s\<lparr>pn_sequence := saturating_add_u64 (pn_sequence s) 1\<rparr>)) (\<lambda>_.
      task_then (task_get (\<lambda>s. (pn_sequence s, pn_timestamp s))) (\<lambda>(sequence, timestamp).
      task_then (seal_and_publish E cfg turn (obj sequence timestamp) plain) k))) Q"
    if "\<And>x. monitored relay_order_step (order_rel cfg n 0 True (lim + 2)) (k x) Q"
      "\<And>sequence timestamp. n_sequence (obj sequence timestamp) = sequence" for obj plain k Q
  proof -
    show ?thesis
      using order_publish_next [of "lim + 1" True obj cfg n k Q "Ok plain" E turn] that assms by (simp add: task_then_Ok)
  qed
  have branch: "monitored relay_order_step (order_rel cfg n 0 (\<not> starts_group) lim) (if starts_group \<and> \<not> ef_keyframe encoded then t else
        task_then (if starts_group then publish_epoch E cfg turn encoded else task_of (Ok ())) k) Q"
    if "monitored relay_order_step (order_rel cfg n 0 (\<not> starts_group) lim) t Q"
      "\<And>x. monitored relay_order_step (order_rel cfg n 0 True (lim + 1)) (k x) Q"
    for t k Q and encoded :: encoded_frame
  proof (cases "starts_group \<and> \<not> ef_keyframe encoded")
    case True
    show ?thesis unfolding if_P [OF True] by (rule that(1))
  next
    case False
    show ?thesis unfolding if_not_P [OF False] by (rule monitored_then [OF epoch that(2)])
  qed
  show ?thesis
    unfolding publish_frame_def
    by (rule monitored_of_then, rule branch, rule monitored_of, simp, rule media, rule tail, simp)
qed

text \<open>Between turns: nothing published yet under this epoch, or the relay has seen the current group.\<close>

definition order_turn :: "publication_settings \<Rightarrow> nat \<Rightarrow> stream_row \<times> array16 \<Rightarrow> publication \<Rightarrow> bool" where
  "order_turn cfg lim a s \<longleftrightarrow>
     (\<exists>n. unat n \<le> lim \<and> order_rel cfg n 0 True lim a s) \<or>
     pn_group_id s = 0 \<and> pn_group s = None \<and> s_stream_id (fst a) = pb_stream_id cfg \<and>
     uint (pn_sequence s) = s_high_water (fst a) \<and> unat (pn_sequence s) \<le> lim \<and> s_active_epoch (fst a) \<noteq> Some (pb_epoch_id cfg)"

lemma order_rotate:
  assumes "lim + 3 \<le> 2 ^ 64 - 1"
  shows "monitored relay_order_step (order_turn cfg lim) (rotate_group E cfg turn)
    (\<lambda>starts_group a s. \<exists>n. unat n \<le> lim + 1 \<and> order_rel cfg n 0 (\<not> starts_group) lim a s)"
proof (cases "ft_approved turn")
  case (Inl e)
  then show ?thesis by (simp add: monitored_def rotate_group_def task_then_def task_of_def task_run_def run_of_def)
next
  case (Inr latest)
  show ?thesis
  proof (rule monitored_rotate [OF Inr, where K = "\<lambda>a s. \<exists>n. unat n \<le> lim + 1 \<and> order_rel cfg n 0 True lim a s"])
    fix a :: "stream_row \<times> array16" and s and g :: group_encryptor
    assume turn: "order_turn cfg lim a s" and g: "g_key_group g = saturating_add_u64 (pn_group_id s) 1"
      "g_epoch_id g = pb_epoch_id cfg" "g_stream_id g = pb_stream_id cfg"
    let ?n = "saturating_add_u64 (pn_group_id s) 1"
    have small: "unat (pn_group_id s) \<le> lim" using turn by (auto simp: order_turn_def order_rel_def)
    with assms have n: "unat ?n = unat (pn_group_id s) + 1" by (simp add: unat_saturating_add_u64)
    then have less: "uint (pn_group_id s) < uint ?n" unfolding uint_nat by simp
    have "order_rel cfg ?n 0 (\<not> True) lim a (s\<lparr>pn_group_id := ?n, pn_group := Some g, pn_approved := latest\<rparr>)"
      using turn g less by (auto simp: order_turn_def order_rel_def order_group_def split: option.splits)
    with n small show "\<exists>n. unat n \<le> lim + 1 \<and>
        order_rel cfg n 0 (\<not> True) lim a (s\<lparr>pn_group_id := ?n, pn_group := Some g, pn_approved := latest\<rparr>)"
      by (intro exI [of _ ?n]) simp
  next
    fix a :: "stream_row \<times> array16" and s
    assume "order_turn cfg lim a s" "pn_group s \<noteq> None"
    then obtain n where "unat n \<le> lim" "order_rel cfg n 0 True lim a s" by (auto simp: order_turn_def)
    then show "\<exists>n. unat n \<le> lim + 1 \<and> order_rel cfg n 0 True lim a s" by (intro exI [of _ n]) simp
  next
    fix a :: "stream_row \<times> array16" and s
    assume "\<exists>n. unat n \<le> lim + 1 \<and> order_rel cfg n 0 True lim a s"
    then obtain n where "unat n \<le> lim + 1" "order_rel cfg n 0 True lim a s" by blast
    moreover from this(2) have "order_rel cfg n 0 True lim a (s\<lparr>pn_approved := latest\<rparr>)" by (rule order_update) simp_all
    ultimately show "\<exists>n. unat n \<le> lim + 1 \<and> order_rel cfg n 0 (\<not> False) lim a (s\<lparr>pn_approved := latest\<rparr>)" by auto
  qed auto
qed

lemma order_loop:
  "lim + 3 * length turns \<le> 2 ^ 64 - 1 \<Longrightarrow>
   monitored relay_order_step (order_turn cfg lim) (publication_loop E cfg turns) (\<lambda>_ _ _. True)"
proof (induction turns arbitrary: lim)
  case Nil
  then show ?case by (simp add: monitored_def)
next
  case (Cons turn turns)
  then have lim: "lim + 3 \<le> 2 ^ 64 - 1" by simp
  let ?after = "\<lambda>go a s. go \<longrightarrow> order_turn cfg (lim + 3) a s"
  have frame: "monitored relay_order_step (\<lambda>a s. \<exists>n. unat n \<le> lim + 1 \<and> order_rel cfg n 0 (\<not> b) lim a s)
      (publish_frame E cfg turn b) (\<lambda>_. order_turn cfg (lim + 3))" for b
  proof (rule monitored_weaken [OF monitored_ex])
    show "monitored relay_order_step (order_rel cfg n 0 (\<not> b) lim) (publish_frame E cfg turn b)
        (\<lambda>_. order_rel cfg n 0 True (lim + 3))" for n by (rule order_frame [OF lim])
    show "order_turn cfg (lim + 3) a s" if "\<exists>n. unat n \<le> lim + 1 \<and> order_rel cfg n 0 True (lim + 3) a s" for a s
    proof -
      from that obtain n where "unat n \<le> lim + 1" "order_rel cfg n 0 True (lim + 3) a s" by blast
      then show ?thesis unfolding order_turn_def by (intro disjI1 exI [of _ n]) simp
    qed
  qed simp
  have "monitored relay_order_step (order_turn cfg lim) (publication_turn E cfg turn) ?after"
    unfolding publication_turn_def
    by (auto intro!: monitored_of monitored_of_then monitored_then [OF order_rotate [OF lim, simplified]]
        monitored_then [OF frame [simplified]])
  then show ?case
    unfolding publication_loop.simps
  proof (rule monitored_then)
    show "monitored relay_order_step (?after go) (if go then publication_loop E cfg turns else task_of (Ok ())) (\<lambda>_ _ _. True)" for go
      using Cons.IH [of "lim + 3"] Cons.prems by (cases go) (auto intro: monitored_of)
  qed
qed

section \<open>Properties\<close>

definition publication_start :: "u64 \<Rightarrow> identity_public list \<Rightarrow> retained_group_key list \<Rightarrow> bytes option \<Rightarrow> publication" where
  "publication_start committed approved history file_bytes =
     \<lparr>pn_approved = approved, pn_history = history, pn_sequence = committed, pn_timestamp = 0, pn_frame_index = 0,
      pn_group_id = 0, pn_group = None, pn_cursor = \<lparr>cb_current_id = 0, cb_last = None, cb_last_sent_timestamp = None\<rparr>,
      pn_history_file = file_bytes\<rparr>"

text \<open>C20: Revoking a viewer takes effect with the next frame: whenever the publisher publishes an object,
  every viewer that was ever given the key of the object's group, in this turn or before it, is
  approved on disk at that moment.  So a viewer whose approval is gone holds no key of anything
  published from then on, however approvals change and wherever a turn fails.\<close>

theorem published_only_to_approved:
  assumes "length turns < 2 ^ 64 - 1"
    and "ms = turn_messages E cfg turns (publication_start committed approved history file_bytes)"
    and "i < length ms" and "PubObject obj \<in> set (ms ! i)"
    and "j \<le> i" and "PubKeyEnvelope e \<in> set (ms ! j)" and "k_key_group_id (e_header e) = h_key_group (o_header obj)"
  shows "k_recipient_id (e_header e) \<in> turn_approved E (turns ! i)"
proof -
  have "holders_settled E approved 0 {} (publication_start committed approved history file_bytes)"
    by (simp add: holders_settled_def holders_inv_def publication_start_def)
  from published_to_approved [OF this, of turns i cfg obj j e "k_recipient_id (e_header e)"] assms show ?thesis by simp
qed

text \<open>C18: What the publisher sends is in the order the relay demands: starting from the relay's state of
  the stream, each object carries the next sequence, and whenever its group is not the active one it
  passes the relay's rules for starting a group; within a group the key identifier stays.  This
  covers resuming after any earlier session, whose epoch was another one.\<close>

theorem published_in_relay_order:
  assumes "s_stream_id row = pb_stream_id cfg" and "s_high_water row = uint committed"
    and "s_active_epoch row \<noteq> Some (pb_epoch_id cfg)" and "unat committed + 3 * length turns < 2 ^ 64"
  shows "monitor relay_order_step (row, kid)
    (fst (publication_loop E cfg turns (publication_start committed approved history file_bytes))) \<noteq> None"
proof -
  let ?s = "publication_start committed approved history file_bytes"
  obtain out s' r where run: "publication_loop E cfg turns ?s = (out, s', r)" by (cases "publication_loop E cfg turns ?s")
  have start: "order_turn cfg (unat committed) (row, kid) ?s"
    using assms(1-3) by (simp add: order_turn_def publication_start_def)
  have lim: "unat committed + 3 * length turns \<le> 2 ^ 64 - 1" using assms(4) by simp
  obtain a where "monitor relay_order_step (row, kid) out = Some a"
    by (rule monitoredD [OF order_loop [OF lim] start run])
  with run show ?thesis by simp
qed

end
