(* ===== verification/Admin.thy ===== *)
theory Admin
  imports KeyHistory Tasks PrivateState
begin

text \<open>
  \<^verbatim>\<open>crates/publisher/src/native_admin.rs\<close>: the publisher's durable record of viewer approvals.  The
  relay queues pairing requests; the publisher fetches them, answers each with an offer, and when the
  viewer has confirmed the words both sides compare, its operator approves or denies it.  Approvals
  are per stream, revocations permanent.  The outboxes hold what the relay has not acknowledged yet.

  The state file is replaced as a whole; what is in memory is lost when an operation fails.  The
  clock, the relay's answers, random bytes and the outcome of every file operation are inputs: the
  ones that are asked for again and again are functions of the number of requests made so far.
\<close>

section \<open>Data\<close>

definition STATE_VERSION :: u16 where
  "STATE_VERSION = 3"

definition MAX_STATE_BYTES :: nat where
  "MAX_STATE_BYTES = 4 * 1024 * 1024"

definition MAX_RECORDS :: nat where
  "MAX_RECORDS = 65536"

definition PAIR_LIFETIME_MS :: i64 where
  "PAIR_LIFETIME_MS = 24 * 60 * 60 * 1000"

datatype viewer_policy = RequiredPolicy | OpenViewers | TrustedCa

datatype admin_command =
    CmdRequests
  | CmdApprove rust_str
  | CmdApproveAll
  | CmdDeny rust_str
  | CmdRevoke rust_str uuid
  | CmdViewers

record pending_pairing =
  pp_request :: pair_request
  pp_offer :: pair_offer
  pp_confirmation :: "viewer_confirmation option"
  pp_source_addr :: rust_str

record stream_grant =
  sg_stream_id :: uuid
  sg_viewer :: identity_public

text \<open>The derived order of the struct: by stream, then by viewer.\<close>

datatype revoked_grant = RevokedGrant (rv_stream_id: uuid) (rv_viewer_id: array32)

instantiation revoked_grant :: linorder
begin

definition less_eq_revoked_grant :: "revoked_grant \<Rightarrow> revoked_grant \<Rightarrow> bool" where
  "less_eq_revoked_grant a b \<longleftrightarrow> (rv_stream_id a, rv_viewer_id a) \<le> (rv_stream_id b, rv_viewer_id b)"

definition less_revoked_grant :: "revoked_grant \<Rightarrow> revoked_grant \<Rightarrow> bool" where
  "less_revoked_grant a b \<longleftrightarrow> (rv_stream_id a, rv_viewer_id a) < (rv_stream_id b, rv_viewer_id b)"

instance
  by standard (auto simp: less_eq_revoked_grant_def less_revoked_grant_def intro: revoked_grant.expand)

end

record publisher_state =
  ps_version :: u16
  ps_pending :: "pending_pairing list"
  ps_approved :: "stream_grant list"
  ps_revoked :: "revoked_grant list"
  ps_offer_outbox :: "array32 list"
  ps_decision_outbox :: "publisher_decision list"
  ps_history_outbox :: "stream_grant list"

record publisher_state_v2 =
  p2_version :: u16
  p2_pending :: "pending_pairing list"
  p2_approved :: "stream_grant list"
  p2_revoked :: "revoked_grant list"

definition default_state :: publisher_state where
  "default_state = \<lparr>ps_version = STATE_VERSION, ps_pending = [], ps_approved = [], ps_revoked = [], ps_offer_outbox = [],
     ps_decision_outbox = [], ps_history_outbox = []\<rparr>"

record profile =
  pf_relay :: rust_str
  pf_identity :: identity_secret
  pf_credential :: "native_credential option"
  pf_pin :: "array32 option"

record approval_policy =
  ap_mode :: viewer_policy
  ap_authority :: "certificate_authority_public option"
  ap_revocations :: "revocation_list option"

record admin_env = history_env +
  state_codec :: "publisher_state postcard"
  state_v2_codec :: "publisher_state_v2 postcard"
  relay_trust :: trust_env

section \<open>Identifiers\<close>

definition hex_digit :: "nat \<Rightarrow> nat" where
  "hex_digit d = (if d < 10 then 48 + d else 87 + d)"

definition hex :: "bytes \<Rightarrow> rust_str" where
  "hex bs = concat (map (\<lambda>b. [hex_digit (unat b div 16), hex_digit (unat b mod 16)]) bs)"

definition is_ascii_hexdigit :: "nat \<Rightarrow> bool" where
  "is_ascii_hexdigit c \<longleftrightarrow> is_ascii_digit c \<or> 65 \<le> c \<and> c \<le> 70 \<or> 97 \<le> c \<and> c \<le> 102"

definition starts_with :: "rust_str \<Rightarrow> rust_str \<Rightarrow> bool" where
  "starts_with s p \<longleftrightarrow> take (length p) s = p"

fun one_match :: "nat list \<Rightarrow> publisher_error + nat" where
  "one_match [index] = Ok index"
| "one_match [] = Err (PubRefused ''no matching ID'')"
| "one_match _ = Err (PubRefused ''ID prefix is ambiguous'')"

definition unique_index :: "('e + rust_str) list \<Rightarrow> rust_str \<Rightarrow> publisher_error + nat" where
  "unique_index values prefix =
     (if prefix = [] \<or> \<not> list_all is_ascii_hexdigit prefix then Err (PubRefused ''ID prefix must be hexadecimal'')
      else let prefix = map ascii_lowercase prefix
           in one_match (map fst (filter
                (\<lambda>(_, value). case value of Inr text \<Rightarrow> starts_with text prefix | Inl _ \<Rightarrow> False)
                (enumerate 0 values))))"

definition unique_request ::
  "'z pairing_env_scheme \<Rightarrow> pending_pairing list \<Rightarrow> rust_str \<Rightarrow> publisher_error + nat" where
  "unique_request E pending prefix =
     unique_index (map (\<lambda>p. and_then (pair_request_id E (pp_request p)) (\<lambda>i. Ok (hex (to_be_bytes 32 i)))) pending) prefix"

definition unique_grant ::
  "'z identity_env_scheme \<Rightarrow> stream_grant list \<Rightarrow> uuid \<Rightarrow> rust_str \<Rightarrow> publisher_error + nat" where
  "unique_grant E grants sid prefix =
     (if prefix = [] \<or> \<not> list_all is_ascii_hexdigit prefix then Err (PubRefused ''ID prefix must be hexadecimal'')
      else let prefix = map ascii_lowercase prefix
           in one_match (map fst (filter
                (\<lambda>(_, grant). case identity_id E (sg_viewer grant) of
                   Inr i \<Rightarrow> starts_with (hex (to_be_bytes 32 i)) prefix | Inl _ \<Rightarrow> False)
                (filter (\<lambda>(_, grant). sg_stream_id grant = sid) (enumerate 0 grants)))))"

definition normalize_relay :: "rust_str \<Rightarrow> rust_str" where
  "normalize_relay relay = (if 58 \<in> set relay then relay else relay @ lit '':8900'')"

section \<open>The state file\<close>

text \<open>\<^verbatim>\<open>viewer.id().unwrap_or([0; 32])\<close> and the key of the sorted lists\<close>

definition id_or_zero :: "'e + array32 \<Rightarrow> array32" where
  "id_or_zero r = (case r of Inr i \<Rightarrow> i | Inl _ \<Rightarrow> 0)"

definition grant_order :: "'z identity_env_scheme \<Rightarrow> stream_grant \<Rightarrow> uuid \<times> array32" where
  "grant_order E g = (sg_stream_id g, id_or_zero (identity_id E (sg_viewer g)))"

text \<open>Strictly increasing, as \<^verbatim>\<open>windows(2).all(|pair| pair[0] < pair[1])\<close> checks it\<close>

definition increasing :: "'a::linorder list \<Rightarrow> bool" where
  "increasing xs \<longleftrightarrow> \<not> windows2_any (\<ge>) xs"

definition validate_state :: "'z pairing_env_scheme \<Rightarrow> publisher_state \<Rightarrow> publisher_error + unit" where
  "validate_state E st =
     (if length (ps_pending st) > MAX_RECORDS \<or> length (ps_approved st) > MAX_RECORDS \<or>
         length (ps_revoked st) > MAX_RECORDS \<or> length (ps_offer_outbox st) > MAX_RECORDS \<or>
         length (ps_decision_outbox st) > MAX_RECORDS \<or> length (ps_history_outbox st) > MAX_RECORDS \<or>
         \<not> increasing (ps_offer_outbox st) \<or>
         \<not> increasing (map (\<lambda>d. pd_request_id (pd_body d)) (ps_decision_outbox st)) \<or>
         \<not> increasing (map (grant_order E) (ps_history_outbox st)) \<or>
         list_ex (\<lambda>rid. \<not> list_ex (\<lambda>p. pair_request_id E (pp_request p) = Ok rid) (ps_pending st)) (ps_offer_outbox st)
      then Err (PubRefused ''publisher state has invalid bounds, ordering, or outbox references'')
      else Ok ())"

definition migrate_state :: "publisher_state_v2 \<Rightarrow> publisher_state" where
  "migrate_state old = \<lparr>ps_version = STATE_VERSION, ps_pending = p2_pending old, ps_approved = p2_approved old,
     ps_revoked = p2_revoked old, ps_offer_outbox = [], ps_decision_outbox = [], ps_history_outbox = p2_approved old\<rparr>"

definition load_state_v2 :: "'z admin_env_scheme \<Rightarrow> bytes \<Rightarrow> publisher_error + publisher_state" where
  "load_state_v2 E bs =
     and_then (ok_or (take_from_bytes (state_v2_codec E) bs) PubPostcard) (\<lambda>(old, remainder).
       if remainder \<noteq> [] \<or> p2_version old \<noteq> 2
       then Err (PubRefused ''publisher state is invalid or non-canonical'')
       else and_then (ok_or (to_stdvec (state_v2_codec E) old) PubPostcard) (\<lambda>encoded.
         if encoded \<noteq> bs then Err (PubRefused ''publisher state is invalid or non-canonical'')
         else and_then (validate_state E (migrate_state old)) (\<lambda>_. Ok (migrate_state old))))"

definition load_state_unlocked :: "'z admin_env_scheme \<Rightarrow> io_error_kind + bytes \<Rightarrow> publisher_error + publisher_state" where
  "load_state_unlocked E read =
     (case read of
        Inr bs \<Rightarrow>
          (case take_from_bytes (state_codec E) bs of
             None \<Rightarrow> load_state_v2 E bs
           | Some (st, remainder) \<Rightarrow>
               if remainder = [] \<and> ps_version st = STATE_VERSION
               then and_then (ok_or (to_stdvec (state_codec E) st) PubPostcard) (\<lambda>encoded.
                      if encoded = bs then and_then (validate_state E st) (\<lambda>_. Ok st) else load_state_v2 E bs)
               else load_state_v2 E bs)
      | Inl NotFound \<Rightarrow> Ok default_state
      | Inl e \<Rightarrow> Err (PubIo e))"

definition load_state ::
  "'z admin_env_scheme \<Rightarrow> io_error_kind + unit \<Rightarrow> io_error_kind + bytes \<Rightarrow> publisher_error + publisher_state" where
  "load_state E lock read = and_then (map_err PubIo lock) (\<lambda>_. load_state_unlocked E read)"

definition save_state_unlocked ::
  "'z admin_env_scheme \<Rightarrow> replace_outcome \<Rightarrow> publisher_state \<Rightarrow> (publisher_error + unit) \<times> bytes option" where
  "save_state_unlocked E replaced st =
     (case and_then (validate_state E st) (\<lambda>_. ok_or (to_stdvec (state_codec E) st) PubPostcard) of
        Inl e \<Rightarrow> (Err e, None)
      | Inr encoded \<Rightarrow>
          if length encoded > MAX_STATE_BYTES then (Err (PubRefused ''publisher state exceeds its bound''), None)
          else (case replaced of
                  Replaced \<Rightarrow> (Ok (), Some encoded)
                | ReplaceFailed e renamed \<Rightarrow> (Err (PubIo e), if renamed then Some encoded else None)))"

definition approved_viewers ::
  "'z admin_env_scheme \<Rightarrow> io_error_kind + unit \<Rightarrow> io_error_kind + bytes \<Rightarrow> uuid \<Rightarrow> publisher_error + identity_public list" where
  "approved_viewers E lock read sid =
     and_then (load_state E lock read) (\<lambda>st. Ok (map sg_viewer (filter (\<lambda>g. sg_stream_id g = sid) (ps_approved st))))"

section \<open>Policy\<close>

text \<open>The files of the configuration, as read, when it names them\<close>

definition load_policy ::
  "'z credential_env_scheme \<Rightarrow> viewer_policy \<Rightarrow> (io_error_kind + bytes) option \<Rightarrow> (io_error_kind + bytes) option \<Rightarrow> i64
    \<Rightarrow> publisher_error + approval_policy" where
  "load_policy E mode authority_file revocations_file now_ms =
     and_then (case authority_file of
                 None \<Rightarrow> Ok None
               | Some read \<Rightarrow> and_then (map_err PubIo read) (\<lambda>bs.
                   and_then (map_err PubCredential (authority_decode E bs)) (\<lambda>a. Ok (Some a)))) (\<lambda>authority.
     and_then (case revocations_file of
                 None \<Rightarrow> Ok None
               | Some read \<Rightarrow> and_then (map_err PubIo read) (\<lambda>bs.
                   and_then (map_err PubCredential (revocation_decode E bs)) (\<lambda>l. Ok (Some l)))) (\<lambda>revocations.
       if mode = TrustedCa \<and> authority = None
       then Err (PubRefused ''trusted_ca policy requires viewers.trusted_authority_file'')
       else and_then (case (authority, revocations) of
                        (Some a, Some l) \<Rightarrow> map_err PubCredential (revocation_verify_at E l a now_ms)
                      | _ \<Rightarrow> Ok ()) (\<lambda>_.
         Ok \<lparr>ap_mode = mode, ap_authority = authority, ap_revocations = revocations\<rparr>)))"

section \<open>Decisions\<close>

definition grant_of :: "'z identity_env_scheme \<Rightarrow> uuid \<Rightarrow> array32 \<Rightarrow> stream_grant \<Rightarrow> bool" where
  "grant_of E sid vid g \<longleftrightarrow> sg_stream_id g = sid \<and> identity_id E (sg_viewer g) = Ok vid"

definition add_approved ::
  "'z identity_env_scheme \<Rightarrow> uuid \<Rightarrow> identity_public \<Rightarrow> publisher_state \<Rightarrow> publisher_error + publisher_state" where
  "add_approved E sid viewer st =
     and_then (map_err PubIdentity (identity_id E viewer)) (\<lambda>vid.
       if binary_search_found (ps_revoked st) (RevokedGrant sid vid)
       then Err (PubRefused ''viewer is permanently revoked for this stream'')
       else if list_ex (grant_of E sid vid) (ps_approved st) then Ok st
       else let grant = \<lparr>sg_stream_id = sid, sg_viewer = viewer\<rparr>
            in Ok (st\<lparr>ps_approved := sort_key (grant_order E) (ps_approved st @ [grant]),
                      ps_history_outbox := sort_key (grant_order E) (ps_history_outbox st @ [grant])\<rparr>))"

definition queue_decision :: "publisher_decision \<Rightarrow> publisher_state \<Rightarrow> publisher_error + publisher_state" where
  "queue_decision decision st =
     (case find (\<lambda>queued. pd_request_id (pd_body queued) = pd_request_id (pd_body decision)) (ps_decision_outbox st) of
        Some existing \<Rightarrow>
          if existing \<noteq> decision then Err (PubRefused ''publisher decision outbox contains conflicting content'') else Ok st
      | None \<Rightarrow> Ok (st\<lparr>ps_decision_outbox :=
          sort_key (\<lambda>queued. pd_request_id (pd_body queued)) (ps_decision_outbox st @ [decision])\<rparr>))"

definition remove_at :: "nat \<Rightarrow> 'a list \<Rightarrow> 'a list" where
  "remove_at i xs = take i xs @ drop (Suc i) xs"

definition decide ::
  "'z pairing_env_scheme \<Rightarrow> identity_secret \<Rightarrow> i64 \<Rightarrow> bool \<Rightarrow> rust_str \<Rightarrow> publisher_state
    \<Rightarrow> publisher_error + publisher_state" where
  "decide E identity now_ms approve prefix st =
     and_then (unique_request E (ps_pending st) prefix) (\<lambda>index.
       let pending = ps_pending st ! index; body = pr_body (pp_request pending)
       in and_then (if approve
                    then and_then (ok_or (pp_confirmation pending)
                           (PubRefused ''viewer has not confirmed the authentication string; approval cannot be skipped''))
                         (\<lambda>confirmation. map_err PubPairing
                           (decision_approve_manual E identity (pp_request pending) (pp_offer pending) confirmation now_ms))
                    else map_err PubPairing (decision_reject E identity (pp_request pending) now_ms)) (\<lambda>decision.
          and_then (if approve then add_approved E (pr_stream_id body) (pr_viewer body) st else Ok st) (\<lambda>st1.
          and_then (if approve then map_err PubIdentity (identity_id E (pr_viewer body))
                    else map_err PubPairing (pair_request_id E (pp_request pending))) (\<lambda>_.
          and_then (queue_decision decision st1) (\<lambda>st2.
          and_then (map_err PubPairing (pair_request_id E (pp_request pending))) (\<lambda>rid.
            Ok (st2\<lparr>ps_pending := remove_at index (ps_pending st2),
                    ps_offer_outbox := filter (\<lambda>queued. queued \<noteq> rid) (ps_offer_outbox st2)\<rparr>)))))))"

text \<open>The requests confirmed when the command starts, by the names they are then decided by; a request
  without an identifier panics.\<close>

definition confirmed_requests :: "'z pairing_env_scheme \<Rightarrow> publisher_state \<Rightarrow> publisher_error + rust_str list" where
  "confirmed_requests E st =
     try_map (\<lambda>p. and_then (map_err PubPairing (pair_request_id E (pp_request p))) (\<lambda>rid. Ok (hex (to_be_bytes 32 rid))))
       (filter (\<lambda>p. pp_confirmation p \<noteq> None) (ps_pending st))"

fun decide_each ::
  "'z pairing_env_scheme \<Rightarrow> identity_secret \<Rightarrow> (nat \<Rightarrow> i64) \<Rightarrow> nat \<Rightarrow> rust_str list \<Rightarrow> publisher_state
    \<Rightarrow> publisher_error + publisher_state" where
  "decide_each E identity clock n [] st = Ok st"
| "decide_each E identity clock n (request # requests) st =
     and_then (decide E identity (clock n) True request st) (decide_each E identity clock (Suc n) requests)"

definition revoke ::
  "'z identity_env_scheme \<Rightarrow> rust_str \<Rightarrow> uuid \<Rightarrow> publisher_state \<Rightarrow> publisher_error + publisher_state" where
  "revoke E viewer sid st =
     and_then (unique_grant E (ps_approved st) sid viewer) (\<lambda>index.
     and_then (map_err PubIdentity (identity_id E (sg_viewer (ps_approved st ! index)))) (\<lambda>vid.
       let revoked = RevokedGrant sid vid
       in Ok (st\<lparr>ps_approved := remove_at index (ps_approved st),
                 ps_revoked := (if revoked \<in> set (ps_revoked st) then ps_revoked st
                                else sort (ps_revoked st @ [revoked])),
                 ps_history_outbox := filter (\<lambda>g. \<not> grant_of E sid vid g) (ps_history_outbox st)\<rparr>)))"

section \<open>The pairing inbox\<close>

text \<open>What one request is handled with: the clock whenever it is read, and the nonce of its offer\<close>

record request_inputs =
  ri_verify_ms :: i64
  ri_credential_ms :: i64
  ri_decided_ms :: i64
  ri_offer_ms :: i64
  ri_nonce :: array32

text \<open>The reason the policy approves a request for, if any; \<open>None\<close> skips the request.\<close>

definition policy_reason ::
  "'z credential_env_scheme \<Rightarrow> approval_policy \<Rightarrow> i64 \<Rightarrow> pair_request \<Rightarrow> pair_decision_reason option option" where
  "policy_reason E policy now_ms request =
     (case ap_mode policy of
        OpenViewers \<Rightarrow> Some (Some OpenPolicy)
      | TrustedCa \<Rightarrow>
          (case (pr_viewer_credential (pr_body request), ap_authority policy) of
             (Some credential, Some authority) \<Rightarrow>
               if is_ok (credential_verify_at E credential authority (ap_revocations policy) RoleViewer
                     (cr_noise_static_key (cr_body credential)) now_ms)
               then Some (Some TrustedViewerCa) else None
           | _ \<Rightarrow> None)
      | RequiredPolicy \<Rightarrow> Some None)"

definition insert_offer_outbox :: "array32 \<Rightarrow> array32 list \<Rightarrow> array32 list" where
  "insert_offer_outbox rid outbox = (if rid \<in> set outbox then outbox else sort (outbox @ [rid]))"

definition receive_request ::
  "'z pairing_env_scheme \<Rightarrow> identity_secret \<Rightarrow> approval_policy \<Rightarrow> array32 \<Rightarrow> revoked_grant set \<Rightarrow> request_inputs
    \<Rightarrow> pair_request \<Rightarrow> rust_str \<Rightarrow> publisher_state \<Rightarrow> publisher_error + publisher_state" where
  "receive_request E identity policy relay_key revoked ri request source_addr st =
     and_then (map_err PubPairing (pair_request_verify E request (ri_verify_ms ri) PAIR_LIFETIME_MS)) (\<lambda>_.
     and_then (map_err PubPairing (pair_request_id E request)) (\<lambda>rid.
     and_then (map_err PubIdentity (identity_id E (pr_viewer (pr_body request)))) (\<lambda>vid.
       if RevokedGrant (pr_stream_id (pr_body request)) vid \<in> revoked then Ok st
       else if list_ex (\<lambda>p. pair_request_id E (pp_request p) = Ok rid) (ps_pending st) then Ok st
       else (case policy_reason E policy (ri_credential_ms ri) request of
               None \<Rightarrow> Ok st
             | Some (Some reason) \<Rightarrow>
                 and_then (map_err PubPairing (decision_approve_by_policy E identity request reason (ri_decided_ms ri)))
                   (\<lambda>decision.
                 and_then (add_approved E (pr_stream_id (pr_body request)) (pr_viewer (pr_body request)) st) (\<lambda>st1.
                   queue_decision decision st1))
             | Some None \<Rightarrow>
                 and_then (map_err PubPairing (pair_offer_new E (ri_nonce ri) identity request
                     (sha256 E (to_be_bytes 32 relay_key)) (ri_offer_ms ri) (pr_expires_at_ms (pr_body request))
                     PAIR_LIFETIME_MS)) (\<lambda>offer.
                   Ok (st\<lparr>ps_pending := ps_pending st @ [\<lparr>pp_request = request, pp_offer = offer,
                             pp_confirmation = None, pp_source_addr = source_addr\<rparr>],
                          ps_offer_outbox := insert_offer_outbox rid (ps_offer_outbox st)\<rparr>))))))"

fun receive_requests ::
  "'z pairing_env_scheme \<Rightarrow> identity_secret \<Rightarrow> approval_policy \<Rightarrow> array32 \<Rightarrow> revoked_grant set \<Rightarrow> (nat \<Rightarrow> request_inputs)
    \<Rightarrow> nat \<Rightarrow> (pair_request \<times> rust_str) list \<Rightarrow> publisher_state \<Rightarrow> publisher_error + publisher_state" where
  "receive_requests E identity policy relay_key revoked inputs n [] st = Ok st"
| "receive_requests E identity policy relay_key revoked inputs n ((request, source_addr) # requests) st =
     and_then (receive_request E identity policy relay_key revoked (inputs n) request source_addr st)
       (receive_requests E identity policy relay_key revoked inputs (Suc n) requests)"

text \<open>The confirmation goes to the first pending request it names.\<close>

fun confirm_pending ::
  "'z pairing_env_scheme \<Rightarrow> viewer_confirmation \<Rightarrow> pending_pairing list \<Rightarrow> publisher_error + pending_pairing list" where
  "confirm_pending E confirmation [] = Ok []"
| "confirm_pending E confirmation (p # pending) =
     (if pair_request_id E (pp_request p) = Ok (vc_request_id (vc_body confirmation))
      then and_then (map_err PubPairing (confirmation_verify E confirmation (pp_request p) (pp_offer p))) (\<lambda>_.
             Ok (p\<lparr>pp_confirmation := Some confirmation\<rparr> # pending))
      else and_then (confirm_pending E confirmation pending) (\<lambda>pending. Ok (p # pending)))"

fun receive_confirmations ::
  "'z pairing_env_scheme \<Rightarrow> viewer_confirmation list \<Rightarrow> pending_pairing list \<Rightarrow> publisher_error + pending_pairing list" where
  "receive_confirmations E [] pending = Ok pending"
| "receive_confirmations E (confirmation # confirmations) pending =
     and_then (confirm_pending E confirmation pending) (receive_confirmations E confirmations)"

definition process_inbox ::
  "'z pairing_env_scheme \<Rightarrow> identity_secret \<Rightarrow> approval_policy \<Rightarrow> array32 \<Rightarrow> (nat \<Rightarrow> request_inputs)
    \<Rightarrow> (pair_request \<times> rust_str) list \<Rightarrow> viewer_confirmation list \<Rightarrow> publisher_state \<Rightarrow> publisher_error + publisher_state" where
  "process_inbox E identity policy relay_key inputs requests confirmations st =
     and_then (receive_requests E identity policy relay_key (set (ps_revoked st)) inputs 0 requests st) (\<lambda>st1.
     and_then (receive_confirmations E confirmations (ps_pending st1)) (\<lambda>pending.
       Ok (st1\<lparr>ps_pending := sort_key (\<lambda>p. id_or_zero (pair_request_id E (pp_request p))) pending\<rparr>)))"

section \<open>Sessions\<close>

record admin_world =
  aw_state :: publisher_state
  aw_file :: "bytes option"
  aw_relays :: "bytes option"
  aw_replies :: "(publisher_error + relay_publisher_message) list"
  aw_asked :: nat

text \<open>The relay's messages and read errors are \<open>aw_replies\<close>; the rest of the world answers here.\<close>

record admin_inputs =
  ai_lock :: "io_error_kind + unit"
  ai_state_fault :: "io_error_kind option"
  ai_connect :: "nat \<Rightarrow> publisher_error + unit"
  ai_relays_fault :: "nat \<Rightarrow> io_error_kind option"
  ai_remote_key :: "nat \<Rightarrow> publisher_error + array32"
  ai_write :: "nat \<Rightarrow> publisher_error + unit"
  ai_replace :: "nat \<Rightarrow> replace_outcome"
  ai_history_lock :: "nat \<Rightarrow> io_error_kind + unit"
  ai_history_read :: "nat \<Rightarrow> io_error_kind + bytes"
  ai_seal_rnd :: "nat \<Rightarrow> bytes"
  ai_now_ms :: "nat \<Rightarrow> i64"
  ai_requests :: "nat \<Rightarrow> nat \<Rightarrow> request_inputs"

type_synonym 'a administering = "(publisher_message, publisher_error, admin_world, 'a) etask"

definition ask :: "(nat \<Rightarrow> 'a) \<Rightarrow> 'a administering" where
  "ask f = (\<lambda>s. ([], s\<lparr>aw_asked := Suc (aw_asked s)\<rparr>, Some (Ok (f (aw_asked s)))))"

definition admin_write :: "admin_inputs \<Rightarrow> publisher_message \<Rightarrow> unit administering" where
  "admin_write I m =
     task_then (ask (ai_write I)) (\<lambda>written.
     task_then (task_of written) (\<lambda>_. task_run ([m], Some (Ok ()))))"

definition read_relay :: "relay_publisher_message administering" where
  "read_relay =
     (\<lambda>s. case aw_replies s of
            [] \<Rightarrow> ([], s, None)
          | reply # replies \<Rightarrow> ([], s\<lparr>aw_replies := replies\<rparr>, Some reply))"

definition save_state :: "'z admin_env_scheme \<Rightarrow> admin_inputs \<Rightarrow> unit administering" where
  "save_state E I =
     task_then (ask (ai_replace I)) (\<lambda>replaced s.
       case save_state_unlocked E replaced (aw_state s) of (r, file) \<Rightarrow>
         ([], s\<lparr>aw_file := (case file of None \<Rightarrow> aw_file s | Some bs \<Rightarrow> Some bs)\<rparr>, Some r))"

definition update_state :: "(publisher_state \<Rightarrow> publisher_error + publisher_state) \<Rightarrow> unit administering" where
  "update_state f =
     task_then (task_get (\<lambda>s. f (aw_state s))) (\<lambda>r.
     task_then (task_of r) (\<lambda>st. task_modify (\<lambda>s. s\<lparr>aw_state := st\<rparr>)))"

definition open_known_relays :: "'z admin_env_scheme \<Rightarrow> admin_inputs \<Rightarrow> known_relays administering" where
  "open_known_relays E I =
     task_then (ask (ai_relays_fault I)) (\<lambda>fault.
     task_then (task_get (\<lambda>s. known_relays_open (relay_trust E)
         (read_private MAX_KNOWN_RELAYS_FILE_LEN fault (aw_relays s)))) (\<lambda>opened.
       task_of (map_err PubTrust opened)))"

text \<open>A relay whose key is not the pinned or known one is refused inside the handshake, before the
  publisher's own key is sent.\<close>

definition connect :: "'z admin_env_scheme \<Rightarrow> admin_inputs \<Rightarrow> profile \<Rightarrow> array32 administering" where
  "connect E I pf =
     task_then (ask (ai_connect I)) (\<lambda>connected.
     task_then (task_of connected) (\<lambda>_.
     task_then (open_known_relays E I) (\<lambda>known.
     task_then (task_of (map_err PubTrust (known_relays_get (relay_trust E) known (pf_relay pf)))) (\<lambda>pinned.
     task_then (ask (ai_remote_key I)) (\<lambda>presented.
     task_then (task_of presented) (\<lambda>remote.
     task_then (task_of (case (case pf_pin pf of None \<Rightarrow> pinned | Some pin \<Rightarrow> Some pin) of
                           Some expected \<Rightarrow> if remote \<noteq> expected then Err PubProtocol else Ok ()
                         | None \<Rightarrow> Ok ())) (\<lambda>_.
     task_then (if pf_pin pf = None
                then task_then (open_known_relays E I) (\<lambda>known.
                     task_then (ask (ai_replace I)) (\<lambda>replaced.
                     case verify_or_learn (relay_trust E) replaced known (pf_relay pf) remote of (learned, known) \<Rightarrow>
                     task_then (task_modify (\<lambda>s. s\<lparr>aw_relays := kr_file known\<rparr>)) (\<lambda>_.
                     task_then (task_of (map_err PubTrust learned)) (\<lambda>_. task_of (Ok ())))))
                else task_of (Ok ())) (\<lambda>_.
     task_then (task_of (map_err PubIdentity (secret_public E (pf_identity pf)))) (\<lambda>public.
     task_then (admin_write I (PubHello \<lparr>hello_protocol_version = PROTOCOL_VERSION, hello_role = RolePublisher,
         hello_identity = public, hello_credential = pf_credential pf\<rparr>)) (\<lambda>_.
     task_then read_relay (\<lambda>reply. task_of
       (case reply of
          RpWelcome _ \<Rightarrow> Ok remote
        | RpError _ \<Rightarrow> Err (PubRefused ''relay rejected publisher'')
        | _ \<Rightarrow> Err (PubRefused ''relay did not welcome publisher'')))))))))))))"

section \<open>Outboxes\<close>

definition expect_pairing_ack :: "array32 \<Rightarrow> unit administering" where
  "expect_pairing_ack expected =
     task_then read_relay (\<lambda>reply. task_of
       (case reply of
          RpPairingAck rid \<Rightarrow> if rid = expected then Ok () else Err (PubRefused ''unexpected pairing acknowledgement'')
        | RpError _ \<Rightarrow> Err (PubRefused ''relay rejected pairing record'')
        | _ \<Rightarrow> Err (PubRefused ''unexpected pairing acknowledgement'')))"

definition flush_offer :: "'z admin_env_scheme \<Rightarrow> admin_inputs \<Rightarrow> array32 \<Rightarrow> unit administering" where
  "flush_offer E I rid =
     task_then (task_get (\<lambda>s. find (\<lambda>p. pair_request_id E (pp_request p) = Ok rid) (ps_pending (aw_state s)))) (\<lambda>pending.
     task_then (task_of (ok_or pending (PubRefused ''publisher offer outbox lost its pending request''))) (\<lambda>p.
     task_then (admin_write I (PubPairOffer (pp_offer p))) (\<lambda>_.
     task_then (expect_pairing_ack rid) (\<lambda>_.
     task_then (task_modify (\<lambda>s. s\<lparr>aw_state := (aw_state s)\<lparr>ps_offer_outbox := tl (ps_offer_outbox (aw_state s))\<rparr>\<rparr>)) (\<lambda>_.
       save_state E I)))))"

definition flush_decision :: "'z admin_env_scheme \<Rightarrow> admin_inputs \<Rightarrow> publisher_decision \<Rightarrow> unit administering" where
  "flush_decision E I decision =
     task_then (admin_write I (PubPairDecision decision)) (\<lambda>_.
     task_then (expect_pairing_ack (pd_request_id (pd_body decision))) (\<lambda>_.
     task_then (task_modify (\<lambda>s. s\<lparr>aw_state := (aw_state s)\<lparr>ps_decision_outbox := tl (ps_decision_outbox (aw_state s))\<rparr>\<rparr>))
       (\<lambda>_. save_state E I)))"

text \<open>The loops take the first record until none is left; only they change the outbox, by removing it.\<close>

definition flush_outbox :: "'z admin_env_scheme \<Rightarrow> admin_inputs \<Rightarrow> profile \<Rightarrow> unit administering" where
  "flush_outbox E I pf =
     task_then (task_get aw_state) (\<lambda>st.
       if ps_offer_outbox st = [] \<and> ps_decision_outbox st = [] then task_of (Ok ())
       else task_then (connect E I pf) (\<lambda>_.
            task_then (task_each (flush_offer E I) (ps_offer_outbox st)) (\<lambda>_.
              task_each (flush_decision E I) (ps_decision_outbox st))))"

text \<open>Newest first, and only groups the relay holds content of\<close>

definition publish_history_groups ::
  "'z admin_env_scheme \<Rightarrow> admin_inputs \<Rightarrow> identity_secret \<Rightarrow> identity_public \<Rightarrow> uuid \<Rightarrow> retained_group_key list
    \<Rightarrow> unit administering" where
  "publish_history_groups E I publisher viewer sid history =
     (let gs = filter (\<lambda>g. rk_stream_id g = sid \<and> has_published_content g) (rev history)
      in if gs = [] then task_of (Ok ())
         else task_then (task_each (\<lambda>g.
                task_then (ask (ai_seal_rnd I)) (\<lambda>rnd.
                task_then (task_of (map_err PubEnvelope (envelope_seal E rnd publisher viewer (rk_stream_id g) (rk_epoch_id g)
                    (rk_key_group_id g) (rk_key_id g) (rk_content_key g)))) (\<lambda>envelope.
                  admin_write I (PubKeyEnvelope envelope)))) gs) (\<lambda>_.
              task_then (ask (ai_now_ms I)) (\<lambda>now_ms.
              task_then (admin_write I (PubPing now_ms)) (\<lambda>_.
              task_then read_relay (\<lambda>reply. task_of
                (case reply of
                   RpPong _ \<Rightarrow> Ok ()
                 | RpError _ \<Rightarrow> Err (PubRefused ''relay rejected retained key envelope'')
                 | _ \<Rightarrow> Err (PubRefused ''relay did not confirm retained key-envelope processing'')))))))"

definition publish_history_envelopes ::
  "'z admin_env_scheme \<Rightarrow> admin_inputs \<Rightarrow> profile \<Rightarrow> uuid \<Rightarrow> identity_public \<Rightarrow> unit administering" where
  "publish_history_envelopes E I pf sid viewer =
     task_then (ask (\<lambda>n. load_key_history E (ai_history_lock I n) (ai_history_read I n))) (\<lambda>loaded.
     task_then (task_of loaded) (\<lambda>history.
     task_then (connect E I pf) (\<lambda>_.
       publish_history_groups E I (pf_identity pf) viewer sid history)))"

text \<open>The result of a task as a value, \<^verbatim>\<open>match task.await\<close>\<close>

definition task_result :: "('m, 'e, 's, 'a) etask \<Rightarrow> ('m, 'e, 's, 'e + 'a) etask" where
  "task_result t = (\<lambda>s. case t s of (out, s', r) \<Rightarrow> (out, s', map_option Ok r))"

text \<open>\<^verbatim>\<open>queued.viewer.id().ok() != grant.viewer.id().ok()\<close>\<close>

definition same_viewer :: "'z identity_env_scheme \<Rightarrow> identity_public \<Rightarrow> identity_public \<Rightarrow> bool" where
  "same_viewer E v w \<longleftrightarrow>
     (case (identity_id E v, identity_id E w) of (Inr i, Inr j) \<Rightarrow> i = j | (Inl _, Inl _) \<Rightarrow> True | _ \<Rightarrow> False)"

fun flush_history_outbox ::
  "'z admin_env_scheme \<Rightarrow> admin_inputs \<Rightarrow> profile \<Rightarrow> stream_grant list \<Rightarrow> unit administering" where
  "flush_history_outbox E I pf [] = task_of (Ok ())"
| "flush_history_outbox E I pf (grant # grants) =
     task_then (task_result (publish_history_envelopes E I pf (sg_stream_id grant) (sg_viewer grant))) (\<lambda>published.
       if is_ok published
       then task_then (task_modify (\<lambda>s. s\<lparr>aw_state := (aw_state s)\<lparr>ps_history_outbox :=
                filter (\<lambda>queued. \<not> (sg_stream_id queued = sg_stream_id grant \<and> same_viewer E (sg_viewer queued) (sg_viewer grant)))
                  (ps_history_outbox (aw_state s))\<rparr>\<rparr>)) (\<lambda>_.
            task_then (task_result (save_state E I)) (\<lambda>saved.
              if is_ok saved then flush_history_outbox E I pf grants else task_of (Ok ())))
       else flush_history_outbox E I pf grants)"

section \<open>Commands\<close>

text \<open>The inbox as the relay sends it, read until it is complete\<close>

fun read_inbox ::
  "'z pairing_store_env_scheme \<Rightarrow> (pair_request \<times> rust_str) list \<Rightarrow> viewer_confirmation list
    \<Rightarrow> (publisher_error + relay_publisher_message) list
    \<Rightarrow> (publisher_error + relay_publisher_message) list \<times> (publisher_error + (pair_request \<times> rust_str) list \<times> viewer_confirmation list) option" where
  "read_inbox E requests confirmations [] = ([], None)"
| "read_inbox E requests confirmations (reply # replies) =
     (case reply of
        Inl e \<Rightarrow> (replies, Some (Err e))
      | Inr (RpPairRequest request source_addr _) \<Rightarrow>
          read_inbox E (requests @ [(request, source_text E source_addr)]) confirmations replies
      | Inr (RpViewerConfirmation confirmation) \<Rightarrow> read_inbox E requests (confirmations @ [confirmation]) replies
      | Inr RpPairingInboxComplete \<Rightarrow> (replies, Some (Ok (requests, confirmations)))
      | Inr (RpError _) \<Rightarrow> (replies, Some (Err (PubRefused ''relay pairing inbox failed'')))
      | Inr _ \<Rightarrow> (replies, Some (Err (PubRefused ''unexpected publisher inbox response''))))"

definition refresh_requests ::
  "'z admin_env_scheme \<Rightarrow> admin_inputs \<Rightarrow> profile \<Rightarrow> approval_policy \<Rightarrow> unit administering" where
  "refresh_requests E I pf policy =
     task_then (connect E I pf) (\<lambda>relay_key.
     task_then (admin_write I PubFetchPairingInbox) (\<lambda>_.
     task_then (\<lambda>s. case read_inbox E [] [] (aw_replies s) of (replies, r) \<Rightarrow> ([], s\<lparr>aw_replies := replies\<rparr>, r))
       (\<lambda>(requests, confirmations).
     task_then (ask (ai_requests I)) (\<lambda>inputs.
       update_state (process_inbox E (pf_identity pf) policy relay_key inputs requests confirmations)))))"

definition read_state :: "'z admin_env_scheme \<Rightarrow> admin_inputs \<Rightarrow> unit administering" where
  "read_state E I =
     task_then (task_get (\<lambda>s. load_state_unlocked E (read_private MAX_STATE_BYTES (ai_state_fault I) (aw_file s)))) (\<lambda>loaded.
     task_then (task_of loaded) (\<lambda>st. task_modify (\<lambda>s. s\<lparr>aw_state := st\<rparr>)))"

text \<open>Printing a request needs its identifier and its words.\<close>

definition print_requests :: "'z pairing_env_scheme \<Rightarrow> rust_str list \<Rightarrow> publisher_state \<Rightarrow> publisher_error + publisher_state" where
  "print_requests E words st =
     and_then (try_map (\<lambda>p. and_then (map_err PubPairing (pair_request_id E (pp_request p))) (\<lambda>_.
                 map_err PubPairing (authentication_string E words (pp_request p) (pp_offer p)))) (ps_pending st)) (\<lambda>_. Ok st)"

definition run_command ::
  "'z pairing_env_scheme \<Rightarrow> rust_str list \<Rightarrow> identity_secret \<Rightarrow> (nat \<Rightarrow> i64) \<Rightarrow> admin_command \<Rightarrow> publisher_state
    \<Rightarrow> publisher_error + publisher_state" where
  "run_command E words identity clock command st =
     (case command of
        CmdRequests \<Rightarrow> print_requests E words st
      | CmdApprove request \<Rightarrow> decide E identity (clock 0) True request st
      | CmdApproveAll \<Rightarrow> and_then (confirmed_requests E st) (\<lambda>requests. decide_each E identity clock 0 requests st)
      | CmdDeny request \<Rightarrow> decide E identity (clock 0) False request st
      | CmdRevoke viewer sid \<Rightarrow> revoke E viewer sid st
      | CmdViewers \<Rightarrow>
          and_then (try_map (\<lambda>g. map_err PubIdentity (identity_id E (sg_viewer g))) (ps_approved st)) (\<lambda>_. Ok st))"

definition offline_command :: "admin_command \<Rightarrow> bool" where
  "offline_command command = (case command of CmdViewers \<Rightarrow> True | CmdRevoke _ _ \<Rightarrow> True | _ \<Rightarrow> False)"

definition synchronize :: "'z admin_env_scheme \<Rightarrow> admin_inputs \<Rightarrow> profile \<Rightarrow> approval_policy \<Rightarrow> unit administering" where
  "synchronize E I pf policy =
     task_then (flush_outbox E I pf) (\<lambda>_.
     task_then (refresh_requests E I pf policy) (\<lambda>_.
     task_then (save_state E I) (\<lambda>_. flush_outbox E I pf)))"

definition deliver_history :: "'z admin_env_scheme \<Rightarrow> admin_inputs \<Rightarrow> profile \<Rightarrow> unit administering" where
  "deliver_history E I pf = task_then (task_get (\<lambda>s. ps_history_outbox (aw_state s))) (flush_history_outbox E I pf)"

definition administer ::
  "'z admin_env_scheme \<Rightarrow> rust_str list \<Rightarrow> admin_inputs \<Rightarrow> profile \<Rightarrow> approval_policy \<Rightarrow> admin_command \<Rightarrow> unit administering" where
  "administer E words I pf policy command =
     task_then (if offline_command command then task_of (Ok ()) else synchronize E I pf policy) (\<lambda>_.
     task_then (ask (\<lambda>n k. ai_now_ms I (n + k))) (\<lambda>clock.
     task_then (update_state (run_command E words (pf_identity pf) clock command)) (\<lambda>_.
     task_then (save_state E I) (\<lambda>_.
       if offline_command command then task_of (Ok ())
       else task_then (flush_outbox E I pf) (\<lambda>_. deliver_history E I pf)))))"

text \<open>Every command but the request for a relay credential, which touches no state\<close>

definition execute ::
  "'z admin_env_scheme \<Rightarrow> rust_str list \<Rightarrow> admin_inputs \<Rightarrow> profile \<Rightarrow> approval_policy \<Rightarrow> admin_command \<Rightarrow> unit administering" where
  "execute E words I pf policy command =
     task_then (task_of (map_err PubIo (ai_lock I))) (\<lambda>_.
     task_then (read_state E I) (\<lambda>_. administer E words I pf policy command))"

text \<open>The body of the approval worker's loop; the policy is read after the lock is taken.\<close>

definition approval_cycle ::
  "'z admin_env_scheme \<Rightarrow> admin_inputs \<Rightarrow> profile \<Rightarrow> publisher_error + approval_policy \<Rightarrow> unit administering" where
  "approval_cycle E I pf loaded_policy =
     task_then (task_of (map_err PubIo (ai_lock I))) (\<lambda>_.
     task_then (task_of loaded_policy) (\<lambda>policy.
     task_then (read_state E I) (\<lambda>_.
     task_then (synchronize E I pf policy) (\<lambda>_. deliver_history E I pf))))"

end
