(* ===== verification/AdminProperties.thy ===== *)
theory AdminProperties
  imports Admin
begin

text \<open>
  What the publisher's approval state always satisfies, whatever the relay answers, whatever fails
  and in whatever order commands and the approval worker run.
\<close>

section \<open>Sorted lists\<close>

lemma increasing_iff: "increasing xs \<longleftrightarrow> sorted_wrt (<) xs"
  by (simp add: increasing_def windows2_ge_iff)

lemma sorted_insert_key:
  assumes "sorted_wrt (<) (map f xs)" and "f x \<notin> f ` set xs"
  shows "sorted_wrt (<) (map f (sort_key f (xs @ [x])))"
proof -
  have "distinct xs" "inj_on f (set xs)" using assms(1) by (simp_all add: strict_sorted_iff distinct_map)
  then have "distinct (xs @ [x])" "inj_on f (insert x (set xs))" using assms(2) by auto
  then have "distinct (map f (sort_key f (xs @ [x])))" by (simp add: distinct_map)
  then show ?thesis by (simp only: strict_sorted_iff sorted_sort_key)
qed

lemma sorted_insert:
  "sorted_wrt (<) xs \<Longrightarrow> x \<notin> set xs \<Longrightarrow> sorted_wrt (<) (sort (xs @ [x]))" for xs :: "'a::linorder list"
  using sorted_insert_key [of "\<lambda>x. x" xs x] by simp

lemma sorted_filter_key: "sorted_wrt (<) (map f xs) \<Longrightarrow> sorted_wrt (<) (map f (filter p xs))"
  by (simp add: sorted_wrt_map sorted_wrt_filter)

lemma sorted_tl_key: "sorted_wrt (<) (map f xs) \<Longrightarrow> sorted_wrt (<) (map f (tl xs))"
  by (cases xs) auto

lemma in_tl: "x \<in> set (tl xs) \<Longrightarrow> x \<in> set xs"
  by (cases xs) auto

lemma set_remove_at: "set (remove_at i xs) \<subseteq> set xs"
  by (auto simp: remove_at_def dest: in_set_takeD in_set_dropD)

lemma removed_or_kept: "i < length xs \<Longrightarrow> x \<in> set xs \<Longrightarrow> x = xs ! i \<or> x \<in> set (remove_at i xs)"
  by (subst (asm) id_take_nth_drop [of i xs]) (auto simp: remove_at_def)

lemma distinct_remove_at:
  assumes "distinct (map f xs)" and "i < length xs"
  shows "distinct (map f (remove_at i xs)) \<and> f (xs ! i) \<notin> f ` set (remove_at i xs)"
proof -
  have "map f xs = map f (take i xs) @ f (xs ! i) # map f (drop (Suc i) xs)"
    using arg_cong [OF id_take_nth_drop [OF assms(2)], of "map f"] by simp
  with assms(1) have "distinct (map f (take i xs) @ f (xs ! i) # map f (drop (Suc i) xs))" by simp
  then show ?thesis by (auto simp: remove_at_def)
qed

section \<open>The invariant of the state\<close>

definition revoked_as :: "'z identity_env_scheme \<Rightarrow> stream_grant \<Rightarrow> revoked_grant" where
  "revoked_as E g = RevokedGrant (sg_stream_id g) (id_or_zero (identity_id E (sg_viewer g)))"

definition grants_ok :: "'z identity_env_scheme \<Rightarrow> publisher_state \<Rightarrow> bool" where
  "grants_ok E st \<longleftrightarrow>
     sorted_wrt (<) (ps_revoked st) \<and>
     (\<forall>g\<in>set (ps_approved st). is_ok (identity_id E (sg_viewer g))) \<and>
     distinct (map (revoked_as E) (ps_approved st)) \<and>
     revoked_as E ` set (ps_approved st) \<inter> set (ps_revoked st) = {} \<and>
     set (ps_history_outbox st) \<subseteq> set (ps_approved st)"

definition outboxes_ok :: "'z pairing_env_scheme \<Rightarrow> publisher_state \<Rightarrow> bool" where
  "outboxes_ok E st \<longleftrightarrow>
     sorted_wrt (<) (ps_offer_outbox st) \<and>
     sorted_wrt (<) (map (\<lambda>d. pd_request_id (pd_body d)) (ps_decision_outbox st)) \<and>
     sorted_wrt (<) (map (grant_order E) (ps_history_outbox st)) \<and>
     (\<forall>rid\<in>set (ps_offer_outbox st). \<exists>p\<in>set (ps_pending st). pair_request_id E (pp_request p) = Ok rid)"

definition admin_ok :: "'z pairing_env_scheme \<Rightarrow> publisher_state \<Rightarrow> bool" where
  "admin_ok E st \<longleftrightarrow> ps_version st = STATE_VERSION \<and> grants_ok E st \<and> outboxes_ok E st"

lemma revoked_as_eq: "revoked_as E g = RevokedGrant (fst (grant_order E g)) (snd (grant_order E g))"
  by (simp add: revoked_as_def grant_order_def)

lemma revoked_as_iff: "revoked_as E g = revoked_as E h \<longleftrightarrow> grant_order E g = grant_order E h"
  by (auto simp: revoked_as_eq prod_eq_iff)

lemma grant_of_iff:
  "is_ok (identity_id E (sg_viewer g)) \<Longrightarrow> grant_of E sid vid g \<longleftrightarrow> revoked_as E g = RevokedGrant sid vid"
  by (auto simp: grant_of_def revoked_as_def id_or_zero_def is_ok_def split: sum.splits)

lemma default_state_ok: "admin_ok E default_state"
  by (simp add: admin_ok_def default_state_def grants_ok_def outboxes_ok_def)

text \<open>With the invariant, only the bounds can be wrong.\<close>

lemma validate_state_iff:
  assumes "outboxes_ok E st"
  shows "validate_state E st = Ok () \<longleftrightarrow>
    (\<forall>n\<in>{length (ps_pending st), length (ps_approved st), length (ps_revoked st), length (ps_offer_outbox st),
           length (ps_decision_outbox st), length (ps_history_outbox st)}. n \<le> MAX_RECORDS)"
  using assms by (auto simp: validate_state_def outboxes_ok_def increasing_iff list_ex_iff)

section \<open>What the operations keep\<close>

lemma add_approved_cases:
  assumes "add_approved E sid viewer st = Ok st'" and "grants_ok E st"
  obtains vid where "identity_id E viewer = Ok vid" "RevokedGrant sid vid \<notin> set (ps_revoked st)"
    and "st' = st \<or> RevokedGrant sid vid \<notin> revoked_as E ` set (ps_approved st) \<and>
      st' = st\<lparr>ps_approved := sort_key (grant_order E) (ps_approved st @ [\<lparr>sg_stream_id = sid, sg_viewer = viewer\<rparr>]),
             ps_history_outbox := sort_key (grant_order E) (ps_history_outbox st @ [\<lparr>sg_stream_id = sid, sg_viewer = viewer\<rparr>])\<rparr>"
  using assms
  by (auto simp: add_approved_def result_simps binary_search_found_iff grants_ok_def list_ex_iff grant_of_iff Let_def
      image_iff split: if_splits) metis

lemma add_approved_ok:
  assumes "add_approved E sid viewer st = Ok st'" and "admin_ok E st"
  shows "admin_ok E st' \<and> ps_revoked st' = ps_revoked st \<and> ps_pending st' = ps_pending st \<and>
    ps_offer_outbox st' = ps_offer_outbox st \<and> ps_decision_outbox st' = ps_decision_outbox st \<and>
    (\<forall>g\<in>set (ps_approved st'). g \<in> set (ps_approved st) \<or> g = \<lparr>sg_stream_id = sid, sg_viewer = viewer\<rparr>)"
proof -
  let ?g = "\<lparr>sg_stream_id = sid, sg_viewer = viewer\<rparr>"
  have ok: "grants_ok E st" "outboxes_ok E st" using assms(2) by (simp_all add: admin_ok_def)
  from add_approved_cases [OF assms(1) ok(1)] obtain vid where
    vid: "identity_id E viewer = Ok vid" "RevokedGrant sid vid \<notin> set (ps_revoked st)" and
    st': "st' = st \<or> RevokedGrant sid vid \<notin> revoked_as E ` set (ps_approved st) \<and>
      st' = st\<lparr>ps_approved := sort_key (grant_order E) (ps_approved st @ [?g]),
             ps_history_outbox := sort_key (grant_order E) (ps_history_outbox st @ [?g])\<rparr>" by metis
  from st' show ?thesis
  proof
    assume new: "RevokedGrant sid vid \<notin> revoked_as E ` set (ps_approved st) \<and>
      st' = st\<lparr>ps_approved := sort_key (grant_order E) (ps_approved st @ [?g]),
             ps_history_outbox := sort_key (grant_order E) (ps_history_outbox st @ [?g])\<rparr>"
    have key: "revoked_as E ?g = RevokedGrant sid vid" by (simp add: revoked_as_def vid id_or_zero_def)
    then have "grant_order E ?g \<notin> grant_order E ` set (ps_history_outbox st)"
      using new ok(1) by (auto simp: grants_ok_def simp flip: revoked_as_iff)
    then have history: "sorted_wrt (<) (map (grant_order E) (sort_key (grant_order E) (ps_history_outbox st @ [?g])))"
      using ok(2) by (intro sorted_insert_key) (auto simp: outboxes_ok_def)
    have "distinct (map (revoked_as E) (sort_key (grant_order E) (ps_approved st @ [?g])))"
      using ok(1) new key by (simp add: grants_ok_def distinct_map inj_on_def) (metis imageI)
    with new key history vid ok assms(2) show ?thesis
      by (auto simp: admin_ok_def grants_ok_def outboxes_ok_def is_ok_def)
  qed (use assms(2) in simp)
qed

lemma queue_decision_ok:
  assumes "queue_decision d st = Ok st'" and "admin_ok E st"
  shows "admin_ok E st' \<and> ps_revoked st' = ps_revoked st \<and> ps_pending st' = ps_pending st \<and>
    ps_offer_outbox st' = ps_offer_outbox st \<and> ps_approved st' = ps_approved st \<and>
    set (ps_decision_outbox st') = insert d (set (ps_decision_outbox st))"
proof (cases "find (\<lambda>q. pd_request_id (pd_body q) = pd_request_id (pd_body d)) (ps_decision_outbox st)")
  case None
  let ?id = "\<lambda>d. pd_request_id (pd_body d)"
  from None have "?id d \<notin> ?id ` set (ps_decision_outbox st)" by (auto simp: find_None_iff)
  then have "sorted_wrt (<) (map ?id (sort_key ?id (ps_decision_outbox st @ [d])))"
    using assms(2) by (intro sorted_insert_key) (simp_all add: admin_ok_def outboxes_ok_def)
  moreover have "st' = st\<lparr>ps_decision_outbox := sort_key ?id (ps_decision_outbox st @ [d])\<rparr>"
    using assms(1) None by (simp add: queue_decision_def)
  ultimately show ?thesis using assms(2) by (simp add: admin_ok_def grants_ok_def outboxes_ok_def)
next
  case (Some q)
  then have "q \<in> set (ps_decision_outbox st)" by (auto simp: find_Some_iff)
  with Some assms show ?thesis by (auto simp: queue_decision_def split: if_splits)
qed

section \<open>Where grants come from\<close>

text \<open>The viewer confirmed the words of a pairing with this publisher for the stream.\<close>

definition confirmed_by_viewer :: "'z pairing_env_scheme \<Rightarrow> identity_secret \<Rightarrow> stream_grant \<Rightarrow> bool" where
  "confirmed_by_viewer E identity g \<longleftrightarrow>
     (\<exists>request offer confirmation. confirmation_verify E confirmation request offer = Ok () \<and>
        secret_public E identity = Ok (pr_publisher (pr_body request)) \<and>
        g = \<lparr>sg_stream_id = pr_stream_id (pr_body request), sg_viewer = pr_viewer (pr_body request)\<rparr>)"

text \<open>The policy admits a request the viewer signed: any, or one with a credential of its authority.\<close>

definition admitted_by_policy :: "'z pairing_env_scheme \<Rightarrow> approval_policy \<Rightarrow> stream_grant \<Rightarrow> bool" where
  "admitted_by_policy E policy g \<longleftrightarrow>
     (\<exists>request now_ms. pair_request_verify E request now_ms PAIR_LIFETIME_MS = Ok () \<and>
        g = \<lparr>sg_stream_id = pr_stream_id (pr_body request), sg_viewer = pr_viewer (pr_body request)\<rparr> \<and>
        (case ap_mode policy of
           RequiredPolicy \<Rightarrow> False
         | OpenViewers \<Rightarrow> True
         | TrustedCa \<Rightarrow>
             (\<exists>c a at_ms. pr_viewer_credential (pr_body request) = Some c \<and> ap_authority policy = Some a \<and>
                credential_verify_at E c a (ap_revocations policy) RoleViewer (cr_noise_static_key (cr_body c)) at_ms = Ok ())))"

definition advances ::
  "'z pairing_env_scheme \<Rightarrow> identity_secret \<Rightarrow> approval_policy set \<Rightarrow> publisher_state \<Rightarrow> publisher_state \<Rightarrow> bool" where
  "advances E identity policies st st' \<longleftrightarrow>
     admin_ok E st' \<and> set (ps_revoked st) \<subseteq> set (ps_revoked st') \<and>
     (\<forall>g\<in>set (ps_approved st'). g \<in> set (ps_approved st) \<or> confirmed_by_viewer E identity g \<or>
        (\<exists>policy\<in>policies. admitted_by_policy E policy g))"

lemma advances_refl: "admin_ok E st \<Longrightarrow> advances E identity policies st st"
  by (simp add: advances_def)

lemma advances_trans:
  "advances E identity policies st st' \<Longrightarrow> advances E identity policies st' st'' \<Longrightarrow> advances E identity policies st st''"
  by (auto simp: advances_def)

lemma advances_ok: "advances E identity policies st st' \<Longrightarrow> admin_ok E st'"
  by (simp add: advances_def)

lemma one_match_Ok: "one_match is = Ok i \<longleftrightarrow> is = [i]"
  by (cases "is" rule: one_match.cases) auto

lemma unique_match_bound:
  "one_match (map fst (filter p (enumerate 0 xs))) = Ok i \<Longrightarrow> i < length xs \<and> p (i, xs ! i)"
proof -
  assume "one_match (map fst (filter p (enumerate 0 xs))) = Ok i"
  then have "i \<in> fst ` set (filter p (enumerate 0 xs))" by (simp only: one_match_Ok flip: set_map) simp
  then show ?thesis by (auto simp: in_set_enumerate_eq)
qed

lemma unique_request_bound: "unique_request E pending prefix = Ok i \<Longrightarrow> i < length pending"
  by (auto simp: unique_request_def unique_index_def Let_def split: if_splits dest!: unique_match_bound)

lemma unique_grant_bound:
  "unique_grant E grants sid prefix = Ok i \<Longrightarrow> i < length grants \<and> sg_stream_id (grants ! i) = sid"
  by (auto simp: unique_grant_def Let_def split: if_splits dest!: unique_match_bound)

text \<open>Removing a decided request leaves every offer still to be sent with its request.\<close>

lemma pending_removed_ok:
  assumes "admin_ok E st" and "i < length (ps_pending st)" and "pair_request_id E (pp_request (ps_pending st ! i)) = Ok rid"
  shows "admin_ok E (st\<lparr>ps_pending := remove_at i (ps_pending st),
    ps_offer_outbox := filter (\<lambda>queued. queued \<noteq> rid) (ps_offer_outbox st)\<rparr>)"
proof -
  have "\<exists>p\<in>set (remove_at i (ps_pending st)). pair_request_id E (pp_request p) = Ok r"
    if "r \<in> set (ps_offer_outbox st)" "r \<noteq> rid" for r
  proof -
    from that(1) assms(1) obtain p where p: "p \<in> set (ps_pending st)" "pair_request_id E (pp_request p) = Ok r"
      by (auto simp: admin_ok_def outboxes_ok_def)
    with assms(3) that(2) have "p \<noteq> ps_pending st ! i" by auto
    with p removed_or_kept [OF assms(2)] show ?thesis by blast
  qed
  with assms(1) show ?thesis by (simp add: admin_ok_def outboxes_ok_def grants_ok_def sorted_wrt_filter)
qed

lemma manual_decision_confirms:
  assumes "decision_approve_manual E identity request offer confirmation now_ms = Ok d"
  shows "confirmed_by_viewer E identity
    \<lparr>sg_stream_id = pr_stream_id (pr_body request), sg_viewer = pr_viewer (pr_body request)\<rparr>"
  using assms unfolding confirmed_by_viewer_def
  by (auto simp: decision_approve_manual_def result_simps split: if_splits)

lemma decide_advances:
  assumes "decide E identity now_ms approve prefix st = Ok st'" and "admin_ok E st"
  shows "advances E identity policies st st'"
proof -
  obtain i where i: "unique_request E (ps_pending st) prefix = Ok i"
    using assms(1) by (auto simp: decide_def result_simps)
  let ?p = "ps_pending st ! i"
  let ?g = "\<lparr>sg_stream_id = pr_stream_id (pr_body (pp_request ?p)), sg_viewer = pr_viewer (pr_body (pp_request ?p))\<rparr>"
  from assms(1) i obtain decision st1 st2 rid where
    decision: "approve \<longrightarrow> (\<exists>c. decision_approve_manual E identity (pp_request ?p) (pp_offer ?p) c now_ms = Ok decision)" and
    st1: "(if approve then add_approved E (sg_stream_id ?g) (sg_viewer ?g) st else Ok st) = Ok st1" and
    st2: "queue_decision decision st1 = Ok st2" and
    rid: "pair_request_id E (pp_request ?p) = Ok rid" and
    st': "st' = st2\<lparr>ps_pending := remove_at i (ps_pending st2),
        ps_offer_outbox := filter (\<lambda>queued. queued \<noteq> rid) (ps_offer_outbox st2)\<rparr>"
    by (cases approve; simp add: decide_def result_simps Let_def; blast)
  have 1: "admin_ok E st1 \<and> ps_revoked st1 = ps_revoked st \<and> ps_pending st1 = ps_pending st \<and>
      (\<forall>g\<in>set (ps_approved st1). g \<in> set (ps_approved st) \<or> approve \<and> g = ?g)"
    using st1 add_approved_ok [OF _ assms(2)] assms(2) by (cases approve) fastforce+
  then have 2: "admin_ok E st2 \<and> ps_revoked st2 = ps_revoked st \<and> ps_pending st2 = ps_pending st \<and>
      ps_approved st2 = ps_approved st1"
    using queue_decision_ok [OF st2, of E] by simp
  moreover have "admin_ok E st'"
    using pending_removed_ok [of E st2 i rid] 2 rid unique_request_bound [OF i] by (simp add: st')
  moreover have "approve \<longrightarrow> confirmed_by_viewer E identity ?g"
    using decision manual_decision_confirms by blast
  ultimately show ?thesis using 1 by (auto simp: advances_def st')
qed

lemma decide_each_advances:
  "decide_each E identity clock n requests st = Ok st' \<Longrightarrow> admin_ok E st \<Longrightarrow> advances E identity policies st st'"
proof (induction requests arbitrary: n st)
  case (Cons request requests)
  from Cons.prems(1) obtain st1 where st1: "decide E identity (clock n) True request st = Ok st1"
    "decide_each E identity clock (Suc n) requests st1 = Ok st'" by (auto simp: result_simps)
  have "advances E identity policies st st1" using st1(1) Cons.prems(2) by (rule decide_advances)
  moreover from this Cons.IH [OF st1(2)] have "advances E identity policies st1 st'" by (simp add: advances_ok)
  ultimately show ?case by (rule advances_trans)
qed (simp add: advances_refl)

lemma revoke_cases:
  assumes "revoke E viewer sid st = Ok st'"
  obtains i vid where "i < length (ps_approved st)" "sg_stream_id (ps_approved st ! i) = sid"
    and "identity_id E (sg_viewer (ps_approved st ! i)) = Ok vid"
    and "st' = st\<lparr>ps_approved := remove_at i (ps_approved st),
        ps_revoked := (if RevokedGrant sid vid \<in> set (ps_revoked st) then ps_revoked st
                       else sort (ps_revoked st @ [RevokedGrant sid vid])),
        ps_history_outbox := filter (\<lambda>g. \<not> grant_of E sid vid g) (ps_history_outbox st)\<rparr>"
  using assms unique_grant_bound by (fastforce simp: revoke_def result_simps Let_def)

lemma revoke_advances:
  assumes "revoke E viewer sid st = Ok st'" and "admin_ok E st"
  shows "advances E identity policies st st'"
proof -
  have ok: "grants_ok E st" "outboxes_ok E st" using assms(2) by (simp_all add: admin_ok_def)
  obtain i vid where i: "i < length (ps_approved st)" "sg_stream_id (ps_approved st ! i) = sid"
    "identity_id E (sg_viewer (ps_approved st ! i)) = Ok vid" and
    st': "st' = st\<lparr>ps_approved := remove_at i (ps_approved st),
        ps_revoked := (if RevokedGrant sid vid \<in> set (ps_revoked st) then ps_revoked st
                       else sort (ps_revoked st @ [RevokedGrant sid vid])),
        ps_history_outbox := filter (\<lambda>g. \<not> grant_of E sid vid g) (ps_history_outbox st)\<rparr>"
    by (rule revoke_cases [OF assms(1)])
  let ?r = "RevokedGrant sid vid"
  have key: "revoked_as E (ps_approved st ! i) = ?r" using i by (simp add: revoked_as_def id_or_zero_def)
  have removed: "distinct (map (revoked_as E) (remove_at i (ps_approved st)))"
    "?r \<notin> revoked_as E ` set (remove_at i (ps_approved st))"
    using distinct_remove_at [of "revoked_as E" "ps_approved st" i] ok(1) i(1) by (simp_all add: grants_ok_def key)
  have history: "g \<in> set (remove_at i (ps_approved st))" if "g \<in> set (ps_history_outbox st)" "\<not> grant_of E sid vid g" for g
  proof -
    from that(1) ok(1) have g: "g \<in> set (ps_approved st)" by (auto simp: grants_ok_def)
    have "g \<noteq> ps_approved st ! i" using that(2) i by (auto simp: grant_of_def)
    with removed_or_kept [OF i(1) g] show ?thesis by simp
  qed
  have "sorted_wrt (<) (ps_revoked st')"
    using ok(1) by (simp add: st' grants_ok_def sorted_insert)
  moreover have "set (ps_revoked st') = insert ?r (set (ps_revoked st))" by (auto simp: st')
  moreover have "set (ps_approved st') \<subseteq> set (ps_approved st)" by (simp add: st' set_remove_at)
  moreover have "revoked_as E ` set (ps_approved st') \<inter> insert ?r (set (ps_revoked st)) = {}"
    using ok(1) removed(2) set_remove_at [of i "ps_approved st"] by (simp add: st' grants_ok_def) blast
  moreover have "set (ps_history_outbox st') \<subseteq> set (ps_approved st')" using history by (auto simp: st')
  ultimately have "grants_ok E st'"
    using ok(1) removed(1) by (simp add: grants_ok_def st' subset_iff)
  moreover have "outboxes_ok E st'" using ok(2) by (simp add: outboxes_ok_def st' sorted_filter_key)
  ultimately show ?thesis
    using assms(2) \<open>set (ps_approved st') \<subseteq> _\<close> by (auto simp: advances_def admin_ok_def st')
qed

lemma policy_admits:
  assumes "policy_reason E policy at_ms request = Some (Some reason)"
    and "pair_request_verify E request now_ms PAIR_LIFETIME_MS = Ok ()"
  shows "admitted_by_policy E policy
    \<lparr>sg_stream_id = pr_stream_id (pr_body request), sg_viewer = pr_viewer (pr_body request)\<rparr>"
proof -
  have "case ap_mode policy of
      RequiredPolicy \<Rightarrow> False
    | OpenViewers \<Rightarrow> True
    | TrustedCa \<Rightarrow>
        (\<exists>c a at_ms. pr_viewer_credential (pr_body request) = Some c \<and> ap_authority policy = Some a \<and>
           credential_verify_at E c a (ap_revocations policy) RoleViewer (cr_noise_static_key (cr_body c)) at_ms = Ok ())"
    using assms(1)
    by (auto simp: policy_reason_def is_ok_def split: viewer_policy.splits option.splits if_splits sum.splits)
  with assms(2) show ?thesis unfolding admitted_by_policy_def by blast
qed

lemma pending_added_ok:
  assumes "admin_ok E st" and "pair_request_id E (pp_request p) = Ok rid"
  shows "admin_ok E (st\<lparr>ps_pending := ps_pending st @ [p], ps_offer_outbox := insert_offer_outbox rid (ps_offer_outbox st)\<rparr>)"
proof -
  have "sorted_wrt (<) (insert_offer_outbox rid (ps_offer_outbox st))"
    using assms(1) by (simp add: insert_offer_outbox_def admin_ok_def outboxes_ok_def sorted_insert)
  moreover have "set (insert_offer_outbox rid (ps_offer_outbox st)) = insert rid (set (ps_offer_outbox st))"
    by (auto simp: insert_offer_outbox_def)
  ultimately show ?thesis using assms by (simp add: admin_ok_def outboxes_ok_def grants_ok_def)
qed

lemma receive_request_advances:
  assumes "receive_request E identity policy relay_key revoked ri request source_addr st = Ok st'"
    and "admin_ok E st" and "policy \<in> policies"
  shows "advances E identity policies st st'"
proof -
  let ?g = "\<lparr>sg_stream_id = pr_stream_id (pr_body request), sg_viewer = pr_viewer (pr_body request)\<rparr>"
  from assms(1) obtain rid where verified: "pair_request_verify E request (ri_verify_ms ri) PAIR_LIFETIME_MS = Ok ()"
    and rid: "pair_request_id E request = Ok rid"
    by (auto simp: receive_request_def result_simps)
  from assms(1) verified rid consider "st' = st"
    | reason d st1 where "policy_reason E policy (ri_credential_ms ri) request = Some (Some reason)"
        "add_approved E (sg_stream_id ?g) (sg_viewer ?g) st = Ok st1" "queue_decision d st1 = Ok st'"
    | offer where "st' = st\<lparr>ps_pending := ps_pending st @ [\<lparr>pp_request = request, pp_offer = offer,
          pp_confirmation = None, pp_source_addr = source_addr\<rparr>],
        ps_offer_outbox := insert_offer_outbox rid (ps_offer_outbox st)\<rparr>"
    by (auto simp: receive_request_def result_simps split: if_splits option.splits)
  then show ?thesis
  proof cases
    case 2
    have "admitted_by_policy E policy ?g" using policy_admits [OF 2(1) verified] .
    moreover have "admin_ok E st1 \<and> ps_revoked st1 = ps_revoked st \<and>
        (\<forall>g\<in>set (ps_approved st1). g \<in> set (ps_approved st) \<or> g = ?g)"
      using add_approved_ok [OF 2(2) assms(2)] by simp
    ultimately show ?thesis using queue_decision_ok [OF 2(3), of E] assms(3) by (auto simp: advances_def)
  next
    case 3
    then show ?thesis using pending_added_ok [OF assms(2)] rid by (simp add: advances_def)
  qed (simp add: advances_refl assms(2))
qed

lemma receive_requests_advances:
  "receive_requests E identity policy relay_key revoked inputs n requests st = Ok st' \<Longrightarrow> admin_ok E st \<Longrightarrow>
    policy \<in> policies \<Longrightarrow> advances E identity policies st st'"
proof (induction requests arbitrary: n st)
  case (Cons r requests)
  obtain request addr where r: "r = (request, addr)" by (cases r)
  from Cons.prems(1) obtain st1 where
    st1: "receive_request E identity policy relay_key revoked (inputs n) request addr st = Ok st1"
    "receive_requests E identity policy relay_key revoked inputs (Suc n) requests st1 = Ok st'"
    by (auto simp: r result_simps)
  have "advances E identity policies st st1" using st1(1) Cons.prems(2,3) by (rule receive_request_advances)
  moreover from this Cons.IH [OF st1(2)] Cons.prems(3) have "advances E identity policies st1 st'" by (simp add: advances_ok)
  ultimately show ?case by (rule advances_trans)
qed (simp add: advances_refl)

lemma confirm_pending_requests:
  "confirm_pending E c pending = Ok pending' \<Longrightarrow> map pp_request pending' = map pp_request pending"
  by (induction pending arbitrary: pending') (auto simp: result_simps split: if_splits)

lemma receive_confirmations_requests:
  "receive_confirmations E cs pending = Ok pending' \<Longrightarrow> map pp_request pending' = map pp_request pending"
  by (induction cs arbitrary: pending) (auto simp: result_simps dest: confirm_pending_requests)

lemma pending_renewed_ok:
  assumes "admin_ok E st" and "pp_request ` set pending = pp_request ` set (ps_pending st)"
  shows "admin_ok E (st\<lparr>ps_pending := pending\<rparr>)"
proof -
  have "\<exists>p\<in>set pending. pair_request_id E (pp_request p) = Ok rid"
    if "\<exists>p\<in>set (ps_pending st). pair_request_id E (pp_request p) = Ok rid" for rid
    using that assms(2) by (metis imageE imageI)
  with assms(1) show ?thesis by (auto simp: admin_ok_def outboxes_ok_def grants_ok_def)
qed

lemma process_inbox_advances:
  assumes "process_inbox E identity policy relay_key inputs requests confirmations st = Ok st'"
    and "admin_ok E st" and "policy \<in> policies"
  shows "advances E identity policies st st'"
proof -
  from assms(1) obtain st1 pending where
    st1: "receive_requests E identity policy relay_key (set (ps_revoked st)) inputs 0 requests st = Ok st1" and
    pending: "receive_confirmations E confirmations (ps_pending st1) = Ok pending" and
    st': "st' = st1\<lparr>ps_pending := sort_key (\<lambda>p. id_or_zero (pair_request_id E (pp_request p))) pending\<rparr>"
    by (auto simp: process_inbox_def result_simps)
  have 1: "advances E identity policies st st1" using st1 assms(2,3) by (rule receive_requests_advances)
  have "pp_request ` set pending = pp_request ` set (ps_pending st1)"
    using receive_confirmations_requests [OF pending] by (metis set_map)
  then have "admin_ok E st'" using pending_renewed_ok [OF advances_ok [OF 1]] by (simp add: st')
  then show ?thesis using 1 by (simp add: advances_def st')
qed

lemma run_command_advances:
  assumes "run_command E words identity clock command st = Ok st'" and "admin_ok E st"
  shows "advances E identity policies st st'"
proof (cases command)
  case CmdApproveAll
  with assms show ?thesis by (auto simp: run_command_def result_simps intro: decide_each_advances)
qed (use assms in \<open>auto simp: run_command_def print_requests_def result_simps
       intro: decide_advances revoke_advances advances_refl\<close>)

section \<open>The file\<close>

text \<open>What the state file says when it can be read\<close>

definition stored :: "'z admin_env_scheme \<Rightarrow> bytes option \<Rightarrow> publisher_error + publisher_state" where
  "stored E file = load_state_unlocked E (read_private MAX_STATE_BYTES None file)"

definition file_keeps :: "'z admin_env_scheme \<Rightarrow> (publisher_state \<Rightarrow> bool) \<Rightarrow> admin_world \<Rightarrow> bool" where
  "file_keeps E J s \<longleftrightarrow> (\<exists>st. stored E (aw_file s) = Ok st \<and> J st)"

definition world_keeps :: "'z admin_env_scheme \<Rightarrow> (publisher_state \<Rightarrow> bool) \<Rightarrow> admin_world \<Rightarrow> bool" where
  "world_keeps E J s \<longleftrightarrow> file_keeps E J s \<and> J (aw_state s)"

lemma save_state_file:
  assumes "save_state_unlocked E replaced st = (r, Some bs)" and "postcard_ok (state_codec E)"
    and "ps_version st = STATE_VERSION"
  shows "stored E (Some bs) = Ok st"
proof -
  have bs: "to_stdvec (state_codec E) st = Some bs" "validate_state E st = Ok ()" "length bs \<le> MAX_STATE_BYTES"
    using assms(1)
    by (auto simp: save_state_unlocked_def result_simps split: sum.splits if_splits replace_outcome.splits)
  from postcard_okD_exact [OF assms(2) bs(1)] bs assms(3) show ?thesis
    by (simp add: stored_def load_state_unlocked_def read_private_def)
qed

text \<open>A property of the state that every operation keeps: it then holds of the file at all times.\<close>

locale kept_state =
  fixes E :: "'z admin_env_scheme"
    and identity :: identity_secret
    and policies :: "approval_policy set"
    and J :: "publisher_state \<Rightarrow> bool"
  assumes versioned: "J st \<Longrightarrow> ps_version st = STATE_VERSION"
    and inbox: "J st \<Longrightarrow> policy \<in> policies \<Longrightarrow>
      process_inbox E identity policy relay_key inputs requests confirmations st = Ok st' \<Longrightarrow> J st'"
    and command: "J st \<Longrightarrow> run_command E words identity clock c st = Ok st' \<Longrightarrow> J st'"
    and offer_sent: "J st \<Longrightarrow> J (st\<lparr>ps_offer_outbox := tl (ps_offer_outbox st)\<rparr>)"
    and decision_sent: "J st \<Longrightarrow> J (st\<lparr>ps_decision_outbox := tl (ps_decision_outbox st)\<rparr>)"
    and history_sent: "J st \<Longrightarrow> J (st\<lparr>ps_history_outbox := filter p (ps_history_outbox st)\<rparr>)"
begin

abbreviation "keeps \<equiv> task_keeps (\<lambda>s s'. world_keeps E J s \<longrightarrow> world_keeps E J s')"

lemma keeps_order: "reflp (\<lambda>s s'. world_keeps E J s \<longrightarrow> world_keeps E J s')" "transp (\<lambda>s s'. world_keeps E J s \<longrightarrow> world_keeps E J s')"
  by (auto simp: reflp_def transp_def)

lemmas keeps_of = keeps_of [OF keeps_order(1)] keeps_run [OF keeps_order(1)]
lemmas keeps_then = keeps_then [OF keeps_order(2)]

lemma keeps_local:
  "keeps (ask f)" "keeps (task_get g)" "keeps read_relay" "keeps (task_modify (\<lambda>s. s\<lparr>aw_relays := file\<rparr>))"
  by (auto simp: task_keeps_def ask_def task_get_def read_relay_def task_modify_def world_keeps_def file_keeps_def
      split: list.splits)

lemma keeps_update: "(\<And>st st'. J st \<Longrightarrow> f st = Ok st' \<Longrightarrow> J st') \<Longrightarrow> keeps (update_state f)"
  by (auto simp: task_keeps_def update_state_def task_then_def task_get_def task_of_def task_run_def run_of_def
      task_modify_def world_keeps_def file_keeps_def split: sum.splits)

lemma keeps_change: "(\<And>st. J st \<Longrightarrow> J (f st)) \<Longrightarrow> keeps (task_modify (\<lambda>s. s\<lparr>aw_state := f (aw_state s)\<rparr>))"
  by (simp add: task_keeps_def task_modify_def world_keeps_def file_keeps_def)

lemma keeps_save:
  assumes "postcard_ok (state_codec E)"
  shows "keeps (save_state E I)"
  unfolding save_state_def
proof (rule keeps_then)
  show "keeps (\<lambda>s. case save_state_unlocked E replaced (aw_state s) of (r, file) \<Rightarrow>
      ([], s\<lparr>aw_file := (case file of None \<Rightarrow> aw_file s | Some bs \<Rightarrow> Some bs)\<rparr>, Some r))" for replaced
  proof (unfold task_keeps_def, intro allI impI)
    fix s
    assume s: "world_keeps E J s"
    obtain r saved_bs where saved: "save_state_unlocked E replaced (aw_state s) = (r, saved_bs)" by fastforce
    have J: "J (aw_state s)" using s by (simp add: world_keeps_def)
    have "stored E (Some bs) = Ok (aw_state s)" if "saved_bs = Some bs" for bs
      using save_state_file [OF _ assms versioned [OF J]] saved that by blast
    with s saved J show "world_keeps E J (fst (snd (case save_state_unlocked E replaced (aw_state s) of (r, file) \<Rightarrow>
        ([], s\<lparr>aw_file := (case file of None \<Rightarrow> aw_file s | Some bs \<Rightarrow> Some bs)\<rparr>, Some r))))"
      by (auto simp: world_keeps_def file_keeps_def split: option.splits)
  qed
qed (rule keeps_local)

lemma keeps_result: "keeps t \<Longrightarrow> keeps (task_result t)"
  unfolding task_keeps_def task_result_def by (metis (mono_tags, lifting) case_prod_beta fst_conv snd_conv)

lemma keeps_if: "(b \<Longrightarrow> keeps t) \<Longrightarrow> (\<not> b \<Longrightarrow> keeps u) \<Longrightarrow> keeps (if b then t else u)"
  by simp

lemma keeps_pair: "(\<And>a b. keeps (f a b)) \<Longrightarrow> keeps (case p of (a, b) \<Rightarrow> f a b)"
  by (cases p) simp

lemma keeps_each: "(\<And>x. keeps (f x)) \<Longrightarrow> keeps (task_each f xs)"
  by (induction xs) (auto intro: keeps_then keeps_of)

lemmas keeps_steps = keeps_then keeps_of keeps_local keeps_if keeps_pair keeps_each

lemma keeps_write: "keeps (admin_write I m)"
  unfolding admin_write_def by (intro keeps_steps)

lemma keeps_connect: "keeps (connect E I pf)"
  unfolding connect_def open_known_relays_def
  by (intro keeps_steps keeps_write)

lemma keeps_flush:
  assumes "postcard_ok (state_codec E)"
  shows "keeps (flush_outbox E I pf)"
proof -
  note steps = keeps_steps keeps_write keeps_save [OF assms]
  have ack: "keeps (expect_pairing_ack rid)" for rid unfolding expect_pairing_ack_def by (intro keeps_steps)
  have "keeps (flush_offer E I rid)" for rid
    unfolding flush_offer_def by (intro steps ack keeps_change offer_sent)
  moreover have "keeps (flush_decision E I d)" for d
    unfolding flush_decision_def by (intro steps ack keeps_change decision_sent)
  ultimately show ?thesis unfolding flush_outbox_def by (intro keeps_steps keeps_connect)
qed

lemma keeps_history:
  assumes "postcard_ok (state_codec E)"
  shows "keeps (deliver_history E I pf)"
proof -
  have "keeps (publish_history_envelopes E I pf sid viewer)" for sid viewer
    unfolding publish_history_envelopes_def publish_history_groups_def Let_def
    by (intro keeps_steps keeps_connect keeps_write)
  then have "keeps (flush_history_outbox E I pf grants)" for grants
    by (induction grants)
      (auto intro!: keeps_steps keeps_result keeps_save [OF assms] keeps_change history_sent)
  then show ?thesis unfolding deliver_history_def by (intro keeps_steps)
qed

lemma keeps_synchronize:
  assumes "postcard_ok (state_codec E)" and "policy \<in> policies" and "pf_identity pf = identity"
  shows "keeps (synchronize E I pf policy)"
proof -
  have "keeps (\<lambda>s. case read_inbox E [] [] (aw_replies s) of (replies, r) \<Rightarrow> ([], s\<lparr>aw_replies := replies\<rparr>, r))"
    by (auto simp: task_keeps_def world_keeps_def file_keeps_def split: prod.splits)
  note reading = this
  have "keeps (refresh_requests E I pf policy)"
    unfolding refresh_requests_def assms(3)
    by (intro keeps_steps keeps_connect keeps_write keeps_update reading) (erule inbox [OF _ assms(2)])
  then show ?thesis
    unfolding synchronize_def by (intro keeps_steps keeps_flush [OF assms(1)] keeps_save [OF assms(1)])
qed

lemma keeps_administer:
  assumes "postcard_ok (state_codec E)" and "policy \<in> policies" and "pf_identity pf = identity"
  shows "keeps (administer E words I pf policy c)"
  unfolding administer_def assms(3)
  by (intro keeps_steps keeps_synchronize [OF assms] keeps_update keeps_save [OF assms(1)] keeps_flush [OF assms(1)]
      keeps_history [OF assms(1)]) (erule command)

text \<open>Reading the file brings what it holds into memory, or changes nothing.\<close>

lemma read_state_then:
  assumes "file_keeps E J s" and "ai_state_fault I \<noteq> Some NotFound" and "keeps t"
  shows "file_keeps E J (fst (snd (task_then (read_state E I) (\<lambda>_. t) s)))"
proof (cases "load_state_unlocked E (read_private MAX_STATE_BYTES (ai_state_fault I) (aw_file s))")
  case (Inl e)
  then show ?thesis
    using assms(1) by (simp add: read_state_def task_then_def task_get_def task_of_def task_run_def run_of_def)
next
  case (Inr st)
  have "ai_state_fault I = None"
    using Inr assms(2)
    by (cases "ai_state_fault I") (auto simp: read_private_def load_state_unlocked_def split: io_error_kind.splits)
  with Inr assms(1) have "world_keeps E J (s\<lparr>aw_state := st\<rparr>)"
    by (simp add: world_keeps_def file_keeps_def stored_def)
  with assms(3) have "world_keeps E J (fst (snd (t (s\<lparr>aw_state := st\<rparr>))))" by (simp add: task_keeps_def)
  with Inr show ?thesis
    by (simp add: read_state_def task_then_def task_get_def task_of_def task_run_def run_of_def task_modify_def
        world_keeps_def split: prod.splits)
qed

lemma execute_keeps_file:
  assumes "file_keeps E J s" and "ai_state_fault I \<noteq> Some NotFound" and "postcard_ok (state_codec E)"
    and "policy \<in> policies" and "pf_identity pf = identity"
  shows "file_keeps E J (fst (snd (execute E words I pf policy c s)))"
proof (cases "ai_lock I")
  case (Inl e)
  with assms(1) show ?thesis by (simp add: execute_def task_then_def task_of_def task_run_def run_of_def)
next
  case (Inr u)
  then show ?thesis
    using read_state_then [OF assms(1,2) keeps_administer [OF assms(3-5), of words I c]] by (simp add: execute_def task_then_Ok)
qed

lemma cycle_keeps_file:
  assumes "file_keeps E J s" and "ai_state_fault I \<noteq> Some NotFound" and "postcard_ok (state_codec E)"
    and "\<And>policy. loaded_policy = Ok policy \<Longrightarrow> policy \<in> policies" and "pf_identity pf = identity"
  shows "file_keeps E J (fst (snd (approval_cycle E I pf loaded_policy s)))"
proof (cases "ai_lock I")
  case (Inl e)
  with assms(1) show ?thesis by (simp add: approval_cycle_def task_then_def task_of_def task_run_def run_of_def)
next
  case (Inr u)
  show ?thesis
  proof (cases loaded_policy)
    case (Inl e)
    with \<open>ai_lock I = Inr u\<close> assms(1) show ?thesis
      by (simp add: approval_cycle_def task_then_Ok) (simp add: task_then_def task_of_def task_run_def run_of_def)
  next
    case (Inr policy)
    have "keeps (task_then (synchronize E I pf policy) (\<lambda>_. deliver_history E I pf))"
      by (intro keeps_then keeps_synchronize keeps_history assms(3-5) Inr)
    from read_state_then [OF assms(1,2) this] show ?thesis
      using \<open>ai_lock I = Inr u\<close> Inr by (simp add: approval_cycle_def task_then_Ok)
  qed
qed

end

interpretation kept: kept_state E identity policies "advances E identity policies st0"
  for E :: "'z admin_env_scheme" and identity policies st0
proof
  fix st st' :: publisher_state and policy relay_key inputs requests confirmations words clock c p
  assume J: "advances E identity policies st0 st"
  then have ok: "admin_ok E st" by (rule advances_ok)
  then show "ps_version st = STATE_VERSION" by (simp add: admin_ok_def)
  show "advances E identity policies st0 st'"
    if "policy \<in> policies" "process_inbox E identity policy relay_key inputs requests confirmations st = Ok st'"
    using J process_inbox_advances [OF that(2) ok that(1)] by (rule advances_trans)
  show "advances E identity policies st0 st'" if "run_command E words identity clock c st = Ok st'"
    using J run_command_advances [OF that ok] by (rule advances_trans)
  show "advances E identity policies st0 (st\<lparr>ps_offer_outbox := tl (ps_offer_outbox st)\<rparr>)"
    "advances E identity policies st0 (st\<lparr>ps_decision_outbox := tl (ps_decision_outbox st)\<rparr>)"
    "advances E identity policies st0 (st\<lparr>ps_history_outbox := filter p (ps_history_outbox st)\<rparr>)"
    using J sorted_tl_key [of "\<lambda>x. x" "ps_offer_outbox st"] sorted_tl_key [of _ "ps_decision_outbox st"]
    by (auto simp: advances_def admin_ok_def grants_ok_def outboxes_ok_def sorted_filter_key dest: in_tl)
qed

section \<open>Sequences of commands and cycles\<close>

datatype admin_action =
    RunCommand "rust_str list" admin_inputs profile approval_policy admin_command
      "(publisher_error + relay_publisher_message) list"
  | RunCycle admin_inputs profile "publisher_error + approval_policy" "(publisher_error + relay_publisher_message) list"

fun run_action :: "'z admin_env_scheme \<Rightarrow> admin_world \<Rightarrow> admin_action \<Rightarrow> admin_world" where
  "run_action E s (RunCommand words I pf policy c replies) =
     fst (snd (execute E words I pf policy c (s\<lparr>aw_replies := replies\<rparr>)))"
| "run_action E s (RunCycle I pf loaded_policy replies) =
     fst (snd (approval_cycle E I pf loaded_policy (s\<lparr>aw_replies := replies\<rparr>)))"

text \<open>The publisher's own identity, one of the given policies, and a file that is there is found.\<close>

fun action_ok :: "identity_secret \<Rightarrow> approval_policy set \<Rightarrow> admin_action \<Rightarrow> bool" where
  "action_ok identity policies (RunCommand words I pf policy c replies) \<longleftrightarrow>
     pf_identity pf = identity \<and> policy \<in> policies \<and> ai_state_fault I \<noteq> Some NotFound"
| "action_ok identity policies (RunCycle I pf loaded_policy replies) \<longleftrightarrow>
     pf_identity pf = identity \<and> (\<forall>policy. loaded_policy = Ok policy \<longrightarrow> policy \<in> policies) \<and> ai_state_fault I \<noteq> Some NotFound"

lemma action_keeps_file:
  assumes "file_keeps E (advances E identity policies st0) s" and "action_ok identity policies a" and "postcard_ok (state_codec E)"
  shows "file_keeps E (advances E identity policies st0) (run_action E s a)"
proof -
  have s: "file_keeps E (advances E identity policies st0) (s\<lparr>aw_replies := replies\<rparr>)" for replies
    using assms(1) by (simp add: file_keeps_def)
  show ?thesis
    using assms(2,3) kept.execute_keeps_file [OF s] kept.cycle_keeps_file [OF s] by (cases a) simp_all
qed

lemma actions_keep_file:
  assumes "stored E (aw_file s) = Ok st0" and "admin_ok E st0" and "postcard_ok (state_codec E)"
    and "\<forall>a\<in>set actions. action_ok identity policies a"
  shows "\<exists>st. stored E (aw_file (foldl (run_action E) s actions)) = Ok st \<and> advances E identity policies st0 st"
proof -
  have "file_keeps E (advances E identity policies st0) s"
    using assms(1,2) by (simp add: file_keeps_def advances_refl)
  then have "file_keeps E (advances E identity policies st0) (foldl (run_action E) s actions)"
    using assms(4) by (induction actions arbitrary: s) (simp_all add: action_keeps_file [OF _ _ assms(3)])
  then show ?thesis by (simp add: file_keeps_def)
qed

lemma revoked_not_approved:
  assumes "stored E file_bytes = Ok st" and "admin_ok E st" and "RevokedGrant sid vid \<in> set (ps_revoked st)"
  shows "\<exists>vs. approved_viewers E (Ok ()) (read_private MAX_STATE_BYTES None file_bytes) sid = Ok vs \<and>
    (\<forall>v\<in>set vs. identity_id E v \<noteq> Ok vid)"
proof -
  have "identity_id E (sg_viewer g) \<noteq> Ok vid" if "g \<in> set (ps_approved st)" "sg_stream_id g = sid" for g
  proof
    assume "identity_id E (sg_viewer g) = Ok vid"
    then have "revoked_as E g = RevokedGrant sid vid" using that(2) by (simp add: revoked_as_def id_or_zero_def)
    with that(1) assms(2,3) show False by (auto simp: admin_ok_def grants_ok_def)
  qed
  with assms(1) show ?thesis by (auto simp: approved_viewers_def load_state_def stored_def)
qed

lemma revoke_effect:
  assumes "revoke E viewer sid st = Ok st'"
  shows "\<exists>g\<in>set (ps_approved st). \<exists>vid. sg_stream_id g = sid \<and> identity_id E (sg_viewer g) = Ok vid \<and>
    starts_with (hex (to_be_bytes 32 vid)) (map ascii_lowercase viewer) \<and> RevokedGrant sid vid \<in> set (ps_revoked st')"
proof -
  obtain i where i: "unique_grant E (ps_approved st) sid viewer = Ok i" using assms by (auto simp: revoke_def result_simps)
  then obtain vid where vid: "identity_id E (sg_viewer (ps_approved st ! i)) = Ok vid"
    "starts_with (hex (to_be_bytes 32 vid)) (map ascii_lowercase viewer)"
    by (cases "identity_id E (sg_viewer (ps_approved st ! i))")
      (auto simp: unique_grant_def Let_def split: if_splits dest!: unique_match_bound)
  have "RevokedGrant sid vid \<in> set (ps_revoked st')"
    using assms i vid(1) by (auto simp: revoke_def result_simps Let_def)
  with vid unique_grant_bound [OF i] show ?thesis by (intro bexI [of _ "ps_approved st ! i"]) auto
qed

lemma save_state_ok: "save_state_unlocked E replaced st = (Ok (), saved) \<Longrightarrow> \<exists>bs. saved = Some bs"
  by (auto simp: save_state_unlocked_def split: sum.splits if_splits replace_outcome.splits)

lemma execute_revoke:
  assumes "execute E words I pf policy (CmdRevoke viewer sid) s = (out, s', Some (Ok ()))"
    and "stored E (aw_file s) = Ok st" and "admin_ok E st" and "postcard_ok (state_codec E)"
    and "ai_state_fault I \<noteq> Some NotFound"
  shows "\<exists>st'. revoke E viewer sid st = Ok st' \<and> admin_ok E st' \<and> stored E (aw_file s') = Ok st'"
proof -
  note unfold = execute_def administer_def read_state_def update_state_def save_state_def ask_def task_then_def
    task_get_def task_of_def task_run_def run_of_def task_modify_def offline_command_def run_command_def
  have "ai_state_fault I = None"
    using assms(1,5) by (cases "ai_state_fault I") (auto simp: unfold read_private_def load_state_unlocked_def
        split: io_error_kind.splits sum.splits)
  note run = assms(1) [unfolded unfold this] assms(2) [unfolded stored_def]
  then obtain st' where st': "revoke E viewer sid st = Ok st'" by (auto split: sum.splits)
  let ?replaced = "ai_replace I (Suc (aw_asked s))"
  obtain r saved where saved: "save_state_unlocked E ?replaced st' = (r, saved)" by (cases "save_state_unlocked E ?replaced st'")
  with run st' have r: "r = Ok ()" by (auto split: sum.splits)
  with saved obtain bs where bs: "saved = Some bs" using save_state_ok by blast
  have s': "aw_file s' = Some bs" using run st' saved by (auto simp: bs split: sum.splits)
  note saved = saved [unfolded r bs] s'
  have ok: "admin_ok E st'" using revoke_advances [OF st' assms(3)] by (rule advances_ok)
  with save_state_file [OF saved(1) assms(4)] saved(2) st' show ?thesis by (simp add: admin_ok_def)
qed

section \<open>Identifiers as prefixes\<close>

lemma hex_digit_lower:
  assumes "d < 16"
  shows "is_ascii_hexdigit (hex_digit d)" "ascii_lowercase (hex_digit d) = hex_digit d"
  using assms by (auto simp: hex_digit_def is_ascii_hexdigit_def is_ascii_digit_def ascii_lowercase_def)

lemma hex_lower: "list_all is_ascii_hexdigit (hex bs)" "map ascii_lowercase (hex bs) = hex bs"
proof -
  have digits: "unat b div 16 < 16" for b :: u8
    using unsigned_less [of b, where 'a = nat] by (simp add: less_mult_imp_div_less)
  show "list_all is_ascii_hexdigit (hex bs)"
    by (auto simp: hex_def list_all_iff hex_digit_lower digits)
  show "map ascii_lowercase (hex bs) = hex bs"
    by (induction bs) (simp_all add: hex_def hex_digit_lower digits)
qed

text \<open>A full identifier selects the only pending request that has it.\<close>

lemma unique_request_full:
  assumes "unique_request E pending (hex (to_be_bytes 32 rid)) = Ok i"
    and "p \<in> set pending" and "pair_request_id E (pp_request p) = Ok rid"
  shows "pending ! i = p"
proof -
  let ?text = "\<lambda>p. and_then (pair_request_id E (pp_request p)) (\<lambda>rid. Ok (hex (to_be_bytes 32 rid)))"
  let ?hit = "\<lambda>(_ :: nat, value). case value of Inr text \<Rightarrow> starts_with text (hex (to_be_bytes 32 rid)) | Inl _ \<Rightarrow> False"
  from assms(2) obtain j where j: "j < length pending" "pending ! j = p" by (auto simp: in_set_conv_nth)
  have "one_match (map fst (filter ?hit (enumerate 0 (map ?text pending)))) = Ok i"
    using assms(1) by (simp add: unique_request_def unique_index_def Let_def hex_lower split: if_splits)
  then have only: "map fst (filter ?hit (enumerate 0 (map ?text pending))) = [i]" by (simp only: one_match_Ok)
  have "(j, ?text p) \<in> set (filter ?hit (enumerate 0 (map ?text pending)))"
    using j assms(3) by (auto simp: in_set_enumerate_eq starts_with_def)
  then have "j \<in> set (map fst (filter ?hit (enumerate 0 (map ?text pending))))" by force
  with only j show ?thesis by simp
qed

lemma try_map_member: "try_map f xs = Ok ys \<Longrightarrow> x \<in> set xs \<Longrightarrow> \<exists>y\<in>set ys. f x = Ok y"
  by (induction xs arbitrary: ys) (auto simp: and_then_eq_Ok)

lemma decide_keeps_revoked:
  assumes "decide E identity now_ms True prefix st = Ok st'" and "admin_ok E st"
    and "p \<in> set (ps_pending st)" and "identity_id E (pr_viewer (pr_body (pp_request p))) = Ok vid"
    and "RevokedGrant (pr_stream_id (pr_body (pp_request p))) vid \<in> set (ps_revoked st)"
  shows "(\<forall>i. unique_request E (ps_pending st) prefix = Ok i \<longrightarrow> ps_pending st ! i \<noteq> p) \<and>
    p \<in> set (ps_pending st') \<and> ps_revoked st' = ps_revoked st \<and> admin_ok E st'"
proof -
  obtain i st1 st2 decision where i: "unique_request E (ps_pending st) prefix = Ok i" and
    st1: "add_approved E (pr_stream_id (pr_body (pp_request (ps_pending st ! i))))
        (pr_viewer (pr_body (pp_request (ps_pending st ! i)))) st = Ok st1" and
    st2: "queue_decision decision st1 = Ok st2" and
    st': "ps_pending st' = remove_at i (ps_pending st2)" "ps_revoked st' = ps_revoked st2"
    using assms(1) by (auto simp: decide_def result_simps Let_def)
  have 1: "ps_pending st1 = ps_pending st" "ps_revoked st1 = ps_revoked st" "admin_ok E st1"
    using add_approved_ok [OF st1 assms(2)] by simp_all
  have 2: "ps_pending st2 = ps_pending st" "ps_revoked st2 = ps_revoked st"
    using queue_decision_ok [OF st2 1(3)] 1 by simp_all
  have "grants_ok E st" using assms(2) by (simp add: admin_ok_def)
  then have other: "ps_pending st ! i \<noteq> p"
    using add_approved_cases [OF st1] assms(4,5) by (metis Inr_inject)
  with removed_or_kept [OF unique_request_bound [OF i] assms(3)] have "p \<in> set (ps_pending st')" by (simp add: st' 2)
  moreover have "admin_ok E st'" using decide_advances [OF assms(1,2)] by (rule advances_ok)
  ultimately show ?thesis using other i by (simp add: st' 2)
qed

lemma decide_each_blocked:
  assumes "admin_ok E st" and "p \<in> set (ps_pending st)"
    and "identity_id E (pr_viewer (pr_body (pp_request p))) = Ok vid" and "pair_request_id E (pp_request p) = Ok rid"
    and "RevokedGrant (pr_stream_id (pr_body (pp_request p))) vid \<in> set (ps_revoked st)"
    and "hex (to_be_bytes 32 rid) \<in> set requests"
  shows "\<not> is_ok (decide_each E identity clock n requests st)"
  using assms
proof (induction requests arbitrary: n st)
  case (Cons request requests)
  show ?case
  proof (cases "decide E identity (clock n) True request st")
    case (Inr st')
    note kept = decide_keeps_revoked [OF Inr Cons.prems(1,2,3,5)]
    obtain i where i: "unique_request E (ps_pending st) request = Ok i" using Inr by (auto simp: decide_def result_simps)
    then have "request \<noteq> hex (to_be_bytes 32 rid)"
      using kept unique_request_full [OF _ Cons.prems(2,4)] by blast
    with Cons.prems(6) Cons.IH [of st' "Suc n"] kept Cons.prems(3,4,5) Inr show ?thesis by simp
  qed simp
qed simp

section \<open>Properties\<close>

text \<open>C7: A revocation is permanent: when a revoke command succeeds, it hits an approved viewer of the
  stream whose identifier has the given prefix, and whatever commands and approval cycles run after
  it, under any policy, with any answers of the relay and with any failures, the state file can be
  loaded and that viewer is never again among the viewers approved for the stream.\<close>

theorem revocation_permanent:
  assumes "postcard_ok (state_codec E)" and "stored E (aw_file s) = Ok st" and "admin_ok E st"
    and "ai_state_fault I \<noteq> Some NotFound"
    and "execute E words I pf policy (CmdRevoke viewer sid) s = (out, s', Some (Ok ()))"
    and "\<forall>a\<in>set actions. action_ok identity UNIV a"
  shows "\<exists>g\<in>set (ps_approved st). \<exists>vid vs. sg_stream_id g = sid \<and> identity_id E (sg_viewer g) = Ok vid \<and>
    starts_with (hex (to_be_bytes 32 vid)) (map ascii_lowercase viewer) \<and>
    approved_viewers E (Ok ()) (read_private MAX_STATE_BYTES None (aw_file (foldl (run_action E) s' actions))) sid = Ok vs \<and>
    (\<forall>v\<in>set vs. identity_id E v \<noteq> Ok vid)"
proof -
  obtain st' where st': "revoke E viewer sid st = Ok st'" "admin_ok E st'" "stored E (aw_file s') = Ok st'"
    using execute_revoke [OF assms(5,2,3,1,4)] by blast
  obtain g vid where g: "g \<in> set (ps_approved st)" "sg_stream_id g = sid" "identity_id E (sg_viewer g) = Ok vid"
    "starts_with (hex (to_be_bytes 32 vid)) (map ascii_lowercase viewer)" "RevokedGrant sid vid \<in> set (ps_revoked st')"
    using revoke_effect [OF st'(1)] by blast
  obtain st'' where "stored E (aw_file (foldl (run_action E) s' actions)) = Ok st''" "advances E identity UNIV st' st''"
    using actions_keep_file [OF st'(3,2) assms(1,6)] by blast
  then show ?thesis
    using g revoked_not_approved [of E "aw_file (foldl (run_action E) s' actions)" st'' sid vid]
    by (auto simp: advances_def)
qed

text \<open>C19: No viewer is approved without consent: starting with no state, every grant the file ever
  holds belongs to a viewer that confirmed the words of a pairing with this publisher for that
  stream, or was admitted by a policy in force that approves without an operator.  Under the policy
  that requires approval, only the former exist.\<close>

theorem grants_authorized:
  assumes "postcard_ok (state_codec E)" and "aw_file s = None" and "\<forall>a\<in>set actions. action_ok identity policies a"
  shows "\<exists>st. stored E (aw_file (foldl (run_action E) s actions)) = Ok st \<and>
    (\<forall>g\<in>set (ps_approved st). confirmed_by_viewer E identity g \<or> (\<exists>policy\<in>policies. admitted_by_policy E policy g)) \<and>
    ((\<forall>policy\<in>policies. ap_mode policy = RequiredPolicy) \<longrightarrow> (\<forall>g\<in>set (ps_approved st). confirmed_by_viewer E identity g))"
proof -
  have "stored E (aw_file s) = Ok default_state"
    by (simp add: stored_def assms(2) read_private_def load_state_unlocked_def)
  from actions_keep_file [OF this default_state_ok assms(1,3)] obtain st where
    st: "stored E (aw_file (foldl (run_action E) s actions)) = Ok st" "advances E identity policies default_state st" by blast
  then have "\<forall>g\<in>set (ps_approved st). confirmed_by_viewer E identity g \<or> (\<exists>policy\<in>policies. admitted_by_policy E policy g)"
    by (auto simp: advances_def default_state_def)
  with st(1) show ?thesis by (auto simp: admitted_by_policy_def)
qed

text \<open>C36: One revoked viewer blocks everybody: approving every confirmed request fails, and saves
  nothing, as long as one of them is of a viewer that is revoked for the stream it asks for.  Revoking
  leaves such a request in place.\<close>

theorem approve_all_blocked:
  assumes "admin_ok E st" and "p \<in> set (ps_pending st)" and "pp_confirmation p \<noteq> None"
    and "identity_id E (pr_viewer (pr_body (pp_request p))) = Ok vid"
    and "RevokedGrant (pr_stream_id (pr_body (pp_request p))) vid \<in> set (ps_revoked st)"
  shows "\<not> is_ok (run_command E words identity clock CmdApproveAll st)"
proof (cases "confirmed_requests E st")
  case (Inr requests)
  from assms(2,3) have "p \<in> set (filter (\<lambda>p. pp_confirmation p \<noteq> None) (ps_pending st))" by simp
  with Inr obtain rid where "pair_request_id E (pp_request p) = Ok rid" "hex (to_be_bytes 32 rid) \<in> set requests"
    using try_map_member [OF Inr [unfolded confirmed_requests_def]] by (fastforce simp: result_simps)
  from decide_each_blocked [OF assms(1,2,4) this(1) assms(5) this(2)] show ?thesis by (simp add: run_command_def Inr)
qed (simp add: run_command_def)

end
