(* ===== verification/PublisherSession.thy ===== *)
theory PublisherSession
  imports Publication AdminProperties
begin

text \<open>
  \<^verbatim>\<open>crates/publisher/src/native_publish.rs\<close>, the opening of a publication: the stream's identifier, the
  resumption the relay answers and the stream's descriptor; and what the publication and the approval
  state promise together.
\<close>

section \<open>Opening\<close>

text \<open>\<^verbatim>\<open>str::as_bytes\<close>\<close>

definition utf8_char :: "nat \<Rightarrow> bytes" where
  "utf8_char c =
     (if c < 0x80 then [of_nat c]
      else if c < 0x800 then [of_nat (0xc0 + c div 64), of_nat (0x80 + c mod 64)]
      else if c < 0x10000 then [of_nat (0xe0 + c div 4096), of_nat (0x80 + c div 64 mod 64), of_nat (0x80 + c mod 64)]
      else [of_nat (0xf0 + c div 262144), of_nat (0x80 + c div 4096 mod 64), of_nat (0x80 + c div 64 mod 64), of_nat (0x80 + c mod 64)])"

definition as_bytes :: "rust_str \<Rightarrow> bytes" where
  "as_bytes s = concat (map utf8_char s)"

definition stable_stream_id :: "'z identity_env_scheme \<Rightarrow> identity_secret \<Rightarrow> rust_str \<Rightarrow> publisher_error + uuid" where
  "stable_stream_id E publisher label =
     and_then (map_err PubIdentity (secret_public E publisher)) (\<lambda>public.
     and_then (map_err PubIdentity (identity_id E public)) (\<lambda>pid.
       let digest = to_be_bytes 32 (sha256 E (ascii_bytes ''glacialcast-native-stream-id-v1'' @ to_be_bytes 32 pid @ as_bytes label));
           bs = take 16 digest;
           bs = bs[6 := (bs ! 6 AND 0x0f) OR 0x40];
           bs = bs[8 := (bs ! 8 AND 0x3f) OR 0x80]
       in Ok (from_be_bytes bs)))"

definition normalize_endpoint :: "rust_str \<Rightarrow> rust_str" where
  "normalize_endpoint endpoint = (if 58 \<in> set endpoint then endpoint else endpoint @ lit '':8900'')"

definition resume_committed :: "uuid \<Rightarrow> relay_publisher_message \<Rightarrow> publisher_error + u64" where
  "resume_committed sid reply =
     (case reply of
        RpResumeState states \<Rightarrow>
          (case states of
             state # _ \<Rightarrow>
               if resume_stream_id state = sid then Ok (resume_committed_through state)
               else Err (PubRefused ''relay omitted resumed stream'')
           | [] \<Rightarrow> Err (PubRefused ''relay omitted resumed stream''))
      | RpError _ \<Rightarrow> Err (PubRefused ''resume rejected'')
      | _ \<Rightarrow> Err (PubRefused ''unexpected resume response''))"

definition stream_name :: "rust_str \<Rightarrow> rust_str option \<Rightarrow> rust_str" where
  "stream_name display_name label =
     (case label of None \<Rightarrow> display_name | Some l \<Rightarrow> display_name @ lit '' ('' @ l @ lit '')'')"

text \<open>The stream and the sequence the relay holds it up to\<close>

definition open_publication ::
  "'z admin_env_scheme \<Rightarrow> admin_inputs \<Rightarrow> profile \<Rightarrow> rust_str \<Rightarrow> rust_str option \<Rightarrow> rust_str \<Rightarrow> uuid
    \<Rightarrow> (uuid \<times> u64) administering" where
  "open_publication E I pf display_name label backend epoch_id =
     task_then (connect E I pf) (\<lambda>_.
     task_then (task_of (stable_stream_id E (pf_identity pf) (case label of None \<Rightarrow> lit ''default'' | Some l \<Rightarrow> l))) (\<lambda>sid.
     task_then (task_of (and_then (map_err PubIdentity (secret_public E (pf_identity pf)))
         (\<lambda>public. map_err PubIdentity (identity_id E public)))) (\<lambda>pid.
     task_then (admin_write I (PubResume pid
         [\<lparr>pub_resume_stream_id = sid, pub_resume_next_sequence = 1, pub_resume_epoch_id = epoch_id, pub_resume_key_group = 1\<rparr>])) (\<lambda>_.
     task_then read_relay (\<lambda>reply.
     task_then (task_of (resume_committed sid reply)) (\<lambda>committed.
     task_then (ask (ai_now_ms I)) (\<lambda>now_ms.
     task_then (task_of (map_err PubNative
         (descriptor_new E (pf_identity pf) sid (stream_name display_name label) backend True now_ms))) (\<lambda>descriptor.
     task_then (admin_write I (PubDescriptor descriptor)) (\<lambda>_.
       task_of (Ok (sid, committed)))))))))))"

section \<open>Properties\<close>

text \<open>A derived identifier is a version 4 UUID of the standard variant, so it is never the nil one that
  descriptors, objects and requests refuse.\<close>

lemma stable_stream_id_version:
  assumes "stable_stream_id E publisher label = Ok sid"
  shows "to_be_bytes 16 sid ! 6 AND 0xf0 = 0x40" "to_be_bytes 16 sid ! 8 AND 0xc0 = 0x80" "\<not> is_nil sid"
proof -
  obtain pid :: array32 where pid: "sid = (let digest = to_be_bytes 32 (sha256 E
        (ascii_bytes ''glacialcast-native-stream-id-v1'' @ to_be_bytes 32 pid @ as_bytes label));
      bs = take 16 digest; bs = bs[6 := (bs ! 6 AND 0x0f) OR 0x40]; bs = bs[8 := (bs ! 8 AND 0x3f) OR 0x80]
    in from_be_bytes bs)"
    using assms by (auto simp: stable_stream_id_def Let_def result_simps)
  define bs where "bs = take 16 (to_be_bytes 32 (sha256 E
        (ascii_bytes ''glacialcast-native-stream-id-v1'' @ to_be_bytes 32 pid @ as_bytes label)))"
  have len: "length bs = 16" by (simp add: bs_def)
  have sid: "sid = from_be_bytes (bs[6 := (bs ! 6 AND 0x0f) OR 0x40, 8 := (bs ! 8 AND 0x3f) OR 0x80])"
    unfolding pid Let_def bs_def [symmetric] by simp
  let ?bs = "bs[6 := (bs ! 6 AND 0x0f) OR 0x40, 8 := (bs ! 8 AND 0x3f) OR 0x80]"
  have bytes: "to_be_bytes 16 sid = ?bs" by (simp add: sid len)
  have masks: "((b AND 0x0f) OR 0x40) AND 0xf0 = (0x40 :: u8)" "((b AND 0x3f) OR 0x80) AND 0xc0 = (0x80 :: u8)" for b
    by (simp_all add: and.assoc bit.conj_disj_distrib2)
  show version: "to_be_bytes 16 sid ! 6 AND 0xf0 = 0x40" "to_be_bytes 16 sid ! 8 AND 0xc0 = 0x80"
    by (simp_all add: bytes len masks)
  show "\<not> is_nil sid"
  proof
    assume "is_nil sid"
    then have "to_be_bytes 16 sid ! 6 = 0" by (simp add: to_be_bytes_def rev_nth)
    with version(1) show False by simp
  qed
qed

text \<open>C6: A revoked viewer is cut off: once a revoke command has succeeded, an object published in a
  turn that reads the approvals afterwards, whatever commands and approval cycles ran in between, is
  sealed with a key that was not given to the revoked viewer, neither in that turn nor earlier in the
  publication.\<close>

theorem revoked_viewer_cut_off:
  assumes "postcard_ok (state_codec E)" and "stored E (aw_file s) = Ok st" and "admin_ok E st"
    and "ai_state_fault I \<noteq> Some NotFound"
    and "execute E words I pf policy (CmdRevoke viewer (pb_stream_id cfg)) s = (out, s', Some (Ok ()))"
    and "\<forall>a\<in>set actions. action_ok identity UNIV a"
    and "length turns < 2 ^ 64 - 1"
    and "ms = turn_messages E cfg turns (publication_start committed approved history file_bytes)"
    and "i < length ms" and "PubObject obj \<in> set (ms ! i)"
    and "ft_approved (turns ! i) = approved_viewers E (Ok ())
      (read_private MAX_STATE_BYTES None (aw_file (foldl (run_action E) s' actions))) (pb_stream_id cfg)"
  shows "\<exists>g\<in>set (ps_approved st). \<exists>vid. sg_stream_id g = pb_stream_id cfg \<and> identity_id E (sg_viewer g) = Ok vid \<and>
    starts_with (hex (to_be_bytes 32 vid)) (map ascii_lowercase viewer) \<and>
    (\<forall>j\<le>i. \<forall>e. PubKeyEnvelope e \<in> set (ms ! j) \<longrightarrow> k_key_group_id (e_header e) = h_key_group (o_header obj) \<longrightarrow>
       k_recipient_id (e_header e) \<noteq> vid)"
proof -
  let ?sid = "pb_stream_id cfg"
  obtain st' where st': "revoke E viewer ?sid st = Ok st'" "admin_ok E st'" "stored E (aw_file s') = Ok st'"
    using execute_revoke [OF assms(5,2,3,1,4)] by blast
  obtain g vid where g: "g \<in> set (ps_approved st)" "sg_stream_id g = ?sid" "identity_id E (sg_viewer g) = Ok vid"
    "starts_with (hex (to_be_bytes 32 vid)) (map ascii_lowercase viewer)" "RevokedGrant ?sid vid \<in> set (ps_revoked st')"
    using revoke_effect [OF st'(1)] by blast
  obtain st'' where "stored E (aw_file (foldl (run_action E) s' actions)) = Ok st''" "advances E identity UNIV st' st''"
    using actions_keep_file [OF st'(3,2) assms(1,6)] by blast
  then obtain vs where vs: "ft_approved (turns ! i) = Ok vs" "\<forall>v\<in>set vs. identity_id E v \<noteq> Ok vid"
    using revoked_not_approved [of E "aw_file (foldl (run_action E) s' actions)" st'' ?sid vid] g(5) assms(11)
    by (auto simp: advances_def)
  have start: "holders_settled E approved 0 {} (publication_start committed approved history file_bytes)"
    by (simp add: holders_settled_def holders_inv_def publication_start_def)
  have "k_recipient_id (e_header e) \<noteq> vid"
    if "j \<le> i" "PubKeyEnvelope e \<in> set (ms ! j)" "k_key_group_id (e_header e) = h_key_group (o_header obj)" for j e
  proof -
    have "k_recipient_id (e_header e) \<in> turn_approved E (turns ! i)"
      using published_to_approved [OF start, of turns i cfg obj j e] assms(7-10) that by simp
    with vs show ?thesis by (auto simp: turn_approved_def viewer_ids_def)
  qed
  with g(1-4) show ?thesis by blast
qed

end
