(* ===== verification/AdminExample.thy ===== *)
theory AdminExample
  imports AdminProperties
begin

text \<open>
  The approval state on concrete inputs: a viewer approved by policy, revoked by its operator, and a
  request of that viewer that waits all the while.
\<close>

section \<open>Environment\<close>

definition example_grant :: stream_grant where
  "example_grant = \<lparr>sg_stream_id = 1, sg_viewer = example_public\<rparr>"

definition approved_state :: publisher_state where
  "approved_state = default_state\<lparr>ps_approved := [example_grant]\<rparr>"

definition revoked_state :: publisher_state where
  "revoked_state = default_state\<lparr>ps_revoked := [RevokedGrant 1 24]\<rparr>"

definition policy_decision :: publisher_decision where
  "policy_decision = \<lparr>pd_body = \<lparr>pd_version = PAIRING_VERSION, pd_request_id = 39, pd_viewer_id = 24, pd_stream_id = 1,
      pd_transcript_hash = 0, pd_approved = True, pd_reason = OpenPolicy, pd_decided_at_ms = 100\<rparr>,
    pd_signature = signature_from_bytes (replicate 64 7)\<rparr>"

definition admitted_state :: publisher_state where
  "admitted_state = default_state\<lparr>ps_approved := [example_grant], ps_decision_outbox := [policy_decision],
     ps_history_outbox := [example_grant]\<rparr>"

definition states_codec :: "publisher_state postcard" where
  "states_codec = \<lparr>
     to_stdvec = (\<lambda>st. if st = approved_state then Some [41] else if st = revoked_state then Some [42]
                       else if st = admitted_state then Some [43] else None),
     take_from_bytes = (\<lambda>bs. case bs of
         b # rest \<Rightarrow> if b = 41 then Some (approved_state, rest) else if b = 42 then Some (revoked_state, rest)
                     else if b = 43 then Some (admitted_state, rest) else None
       | [] \<Rightarrow> None)\<rparr>"

lemma states_codec_ok: "postcard_ok states_codec"
  by (auto simp: postcard_ok_def states_codec_def)

definition example_epoch_payload :: h264_epoch_payload where
  "example_epoch_payload = \<lparr>ep_width = 64, ep_height = 64, ep_codec_config = [0, 0, 0, 1, 103, 0, 0, 0, 1, 104]\<rparr>"

definition example_admin_env :: admin_env where
  "example_admin_env = history_env.extend
     (pairing_store_env.extend (example_queue_env\<lparr>epoch_codec := single_postcard example_epoch_payload [6]\<rparr>)
        \<lparr>history_codec = tag_postcard [31]\<rparr>)
     \<lparr>state_codec = states_codec, state_v2_codec = tag_postcard [44], relay_trust = example_trust_env\<rparr>"

lemma example_admin_fields:
  "state_codec example_admin_env = states_codec" "relay_trust example_admin_env = example_trust_env"
  "identity_validate example_admin_env example_public = Ok ()"
  "identity_id example_admin_env example_public = Ok 24" "secret_public example_admin_env example_secret = Ok example_public"
  "sha256 example_admin_env bs = of_nat (length bs)"
  "pair_request_id example_admin_env queued_request = Ok 39"
  "ed_verify example_admin_env pk m sg \<longleftrightarrow> sg = replicate 64 (ucast pk)"
  "ed_sign example_admin_env sk m = replicate 64 (ucast sk)"
  "to_stdvec (pair_request_body_codec example_admin_env) b1 = Some [18]"
  "to_stdvec (decision_body_codec example_admin_env) b6 = Some [23]"
  by (simp_all add: example_admin_env_def history_env.extend_def pairing_store_env.extend_def
      example_queue_env_def wire_env.extend_def example_wire_defs wire_env.defs pairing_store_env.defs history_env.defs
      identity_id_def identity_validate_def secret_public_def example_secret_def
      example_public_def IDENTITY_VERSION_def IDENTITY_FINGERPRINT_PREFIX_def ascii_bytes_def pair_request_id_def
      domain_hash_def REQUEST_ID_DOMAIN_def single_postcard_def)

lemma example_states:
  "validate_state example_admin_env approved_state = Ok ()" "validate_state example_admin_env revoked_state = Ok ()"
  "validate_state example_admin_env admitted_state = Ok ()"
  by (simp_all add: validate_state_def approved_state_def revoked_state_def admitted_state_def default_state_def
      MAX_RECORDS_def increasing_def)

lemma states_codec_tags:
  "to_stdvec states_codec approved_state = Some [41]" "to_stdvec states_codec revoked_state = Some [42]"
  "to_stdvec states_codec admitted_state = Some [43]"
  "take_from_bytes states_codec [41] = Some (approved_state, [])" "take_from_bytes states_codec [42] = Some (revoked_state, [])"
  "take_from_bytes states_codec [43] = Some (admitted_state, [])"
  by (simp_all add: states_codec_def) (simp_all add: approved_state_def revoked_state_def admitted_state_def default_state_def)

lemma example_versions:
  "ps_version approved_state = STATE_VERSION" "ps_version revoked_state = STATE_VERSION" "ps_version admitted_state = STATE_VERSION"
  by (simp_all add: approved_state_def revoked_state_def admitted_state_def default_state_def)

lemma example_stored:
  "stored example_admin_env (Some [41]) = Ok approved_state" "stored example_admin_env (Some [42]) = Ok revoked_state"
  "stored example_admin_env (Some [43]) = Ok admitted_state"
  by (simp_all add: stored_def read_private_def load_state_unlocked_def example_admin_fields example_states
      MAX_STATE_BYTES_def states_codec_tags example_versions)

lemma example_saved:
  "save_state_unlocked example_admin_env Replaced revoked_state = (Ok (), Some [42])"
  "save_state_unlocked example_admin_env Replaced admitted_state = (Ok (), Some [43])"
  by (simp_all add: save_state_unlocked_def example_admin_fields example_states MAX_STATE_BYTES_def states_codec_tags)

definition example_inputs :: admin_inputs where
  "example_inputs = \<lparr>ai_lock = Ok (), ai_state_fault = None, ai_connect = (\<lambda>_. Ok ()), ai_relays_fault = (\<lambda>_. None),
     ai_remote_key = (\<lambda>_. Ok 5), ai_write = (\<lambda>_. Ok ()), ai_replace = (\<lambda>_. Replaced), ai_history_lock = (\<lambda>_. Ok ()),
     ai_history_read = (\<lambda>_. Err NotFound), ai_seal_rnd = (\<lambda>_. []), ai_now_ms = (\<lambda>_. 100),
     ai_requests = (\<lambda>_ _. \<lparr>ri_verify_ms = 100, ri_credential_ms = 100, ri_decided_ms = 100, ri_offer_ms = 100, ri_nonce = 5\<rparr>)\<rparr>"

definition example_profile :: profile where
  "example_profile = \<lparr>pf_relay = [97, 58, 55], pf_identity = example_secret, pf_credential = None, pf_pin = None\<rparr>"

definition example_policy :: "viewer_policy \<Rightarrow> approval_policy" where
  "example_policy mode = \<lparr>ap_mode = mode, ap_authority = None, ap_revocations = None\<rparr>"

definition example_world :: "bytes option \<Rightarrow> admin_world" where
  "example_world state_bytes = \<lparr>aw_state = default_state, aw_file = state_bytes, aw_relays = None, aw_replies = [], aw_asked = 0\<rparr>"

lemmas run_defs = task_then_def task_get_def task_of_def task_run_def run_of_def task_modify_def ask_def update_state_def
  save_state_def read_state_def

section \<open>Revocation\<close>

lemma example_unique: "unique_grant example_admin_env [example_grant] 1 [48] = Ok 0"
  by (simp add: unique_grant_def is_ascii_hexdigit_def is_ascii_digit_def example_grant_def example_admin_fields
      ascii_lowercase_def starts_with_def hex_def to_be_bytes_def hex_digit_def upt_rec)

lemma example_revoke: "revoke example_admin_env [48] 1 approved_state = Ok revoked_state"
  by (simp add: revoke_def approved_state_def revoked_state_def default_state_def example_unique)
    (simp add: example_grant_def example_admin_fields remove_at_def)

lemma example_revoke_run:
  "\<exists>s. execute example_admin_env [] example_inputs example_profile (example_policy RequiredPolicy) (CmdRevoke [48] 1)
     (example_world (Some [41])) = ([], s, Some (Ok ())) \<and> aw_file s = Some [42]"
  using example_stored(1) example_revoke example_saved(1)
  by (simp add: execute_def administer_def run_defs offline_command_def run_command_def example_inputs_def
      example_world_def stored_def)

lemma approved_state_ok: "admin_ok example_admin_env approved_state"
  by (simp add: admin_ok_def grants_ok_def outboxes_ok_def approved_state_def default_state_def example_grant_def
      example_admin_fields is_ok_def)

theorem revocation_permanent_witness:
  "\<exists>s vs. execute example_admin_env [] example_inputs example_profile (example_policy RequiredPolicy) (CmdRevoke [48] 1)
       (example_world (Some [41])) = ([], s, Some (Ok ())) \<and>
     approved_viewers example_admin_env (Ok ()) (read_private MAX_STATE_BYTES None (aw_file
       (run_action example_admin_env s (RunCommand [] example_inputs example_profile (example_policy OpenViewers) CmdViewers [])))) 1
       = Ok vs \<and> (\<forall>v\<in>set vs. identity_id example_admin_env v \<noteq> Ok 24)"
proof -
  obtain s where s: "execute example_admin_env [] example_inputs example_profile (example_policy RequiredPolicy)
      (CmdRevoke [48] 1) (example_world (Some [41])) = ([], s, Some (Ok ()))" using example_revoke_run by blast
  let ?actions = "[RunCommand [] example_inputs example_profile (example_policy OpenViewers) CmdViewers []]"
  have codec: "postcard_ok (state_codec example_admin_env)" by (simp add: example_admin_fields states_codec_ok)
  have "stored example_admin_env (aw_file (example_world (Some [41]))) = Ok approved_state"
    by (simp add: example_world_def example_stored)
  moreover have "ai_state_fault example_inputs \<noteq> Some NotFound" by (simp add: example_inputs_def)
  moreover have "\<forall>a\<in>set ?actions. action_ok example_secret UNIV a" by (simp add: example_profile_def example_inputs_def)
  ultimately have "\<exists>g\<in>set (ps_approved approved_state). \<exists>vid vs. sg_stream_id g = 1 \<and>
      identity_id example_admin_env (sg_viewer g) = Ok vid \<and>
      starts_with (hex (to_be_bytes 32 vid)) (map ascii_lowercase [48]) \<and>
      approved_viewers example_admin_env (Ok ())
        (read_private MAX_STATE_BYTES None (aw_file (foldl (run_action example_admin_env) s ?actions))) 1 = Ok vs \<and>
      (\<forall>v\<in>set vs. identity_id example_admin_env v \<noteq> Ok vid)"
    by (intro revocation_permanent [OF codec _ approved_state_ok _ s])
  with s show ?thesis by (auto simp: approved_state_def example_grant_def example_admin_fields)
qed

section \<open>Approval by policy\<close>

lemma queued_request_verified: "pair_request_verify example_admin_env queued_request 100 PAIR_LIFETIME_MS = Ok ()"
proof -
  have "verify example_admin_env (pair_request_body_codec example_admin_env) example_public PAIR_REQUEST_DOMAIN
      (pr_body queued_request) (signature_from_bytes (replicate 64 7)) = Ok ()"
    unfolding verify_ok
    by (simp add: example_admin_fields signing_digest_def canonical_def signature_bytes_round_trip example_domains)
      (simp add: example_public_def)
  then show ?thesis
    by (simp add: pair_request_verify_def validate_request_metadata_def validate_time_eq PAIRING_CLOCK_SKEW_MS_def
        PAIR_LIFETIME_MS_def queued_request_def example_admin_fields validate_device_label_def MAX_DEVICE_LABEL_LEN_def
        str_len_def str_trim_def is_control_def is_whitespace_def utf8_width_def)
qed

lemma example_policy_decision:
  "decision_approve_by_policy example_admin_env example_secret queued_request OpenPolicy 100 = Ok policy_decision"
  by (simp add: decision_approve_by_policy_def example_admin_fields queued_parts fingerprint_def decision_sign_def
      validate_decision_def sign_def signing_digest_def canonical_def example_domains)
    (simp add: policy_decision_def queued_request_def example_secret_def)

lemma example_process:
  "process_inbox example_admin_env example_secret (example_policy OpenViewers) 5
     (\<lambda>_. \<lparr>ri_verify_ms = 100, ri_credential_ms = 100, ri_decided_ms = 100, ri_offer_ms = 100, ri_nonce = 5\<rparr>)
     [(queued_request, source_addr)] [] default_state = Ok admitted_state"
  by (simp add: process_inbox_def receive_request_def queued_request_verified example_admin_fields queued_parts
      policy_reason_def example_policy_def example_policy_decision add_approved_def binary_search_found_def
      queue_decision_def default_state_def Let_def)
    (simp add: admitted_state_def default_state_def example_grant_def queued_request_def)

definition offline_after_inbox :: admin_inputs where
  "offline_after_inbox = example_inputs\<lparr>ai_connect := (\<lambda>n. if n = 0 then Ok () else Err PubTimeout)\<rparr>"

definition example_welcome :: relay_publisher_message where
  "example_welcome = RpWelcome \<lparr>welcome_protocol_version = PROTOCOL_VERSION, welcome_access_mode = PublicAccess,
     welcome_relay_time_ms = 100, welcome_credential_expires_at_ms = None\<rparr>"

lemma example_open:
  "open_known_relays example_admin_env offline_after_inbox
     \<lparr>aw_state = st, aw_file = state_bytes, aw_relays = None, aw_replies = replies, aw_asked = n\<rparr> =
   ([], \<lparr>aw_state = st, aw_file = state_bytes, aw_relays = None, aw_replies = replies, aw_asked = Suc n\<rparr>, Some (Ok example_empty))"
  by (simp add: open_known_relays_def run_defs offline_after_inbox_def example_inputs_def known_relays_open_def
      read_private_def example_empty_def)

lemma example_admin_write:
  "admin_write offline_after_inbox m
     \<lparr>aw_state = st, aw_file = state_bytes, aw_relays = relays, aw_replies = replies, aw_asked = n\<rparr> =
   ([m], \<lparr>aw_state = st, aw_file = state_bytes, aw_relays = relays, aw_replies = replies, aw_asked = Suc n\<rparr>, Some (Ok ()))"
  by (simp add: admin_write_def run_defs offline_after_inbox_def example_inputs_def)

lemma example_inputs_simps:
  "ai_connect offline_after_inbox 0 = Ok ()" "ai_remote_key offline_after_inbox n = Ok 5"
  "ai_replace offline_after_inbox n = Replaced" "ai_lock offline_after_inbox = Ok ()"
  "ai_state_fault offline_after_inbox = None"
  "ai_requests offline_after_inbox n =
     (\<lambda>_. \<lparr>ri_verify_ms = 100, ri_credential_ms = 100, ri_decided_ms = 100, ri_offer_ms = 100, ri_nonce = 5\<rparr>)"
  by (simp_all add: offline_after_inbox_def example_inputs_def)

lemma example_connect:
  "\<exists>m. connect example_admin_env offline_after_inbox example_profile
      \<lparr>aw_state = st, aw_file = state_bytes, aw_relays = None, aw_replies = Ok example_welcome # replies, aw_asked = 0\<rparr> =
     ([m], \<lparr>aw_state = st, aw_file = state_bytes, aw_relays = Some [30], aw_replies = replies, aw_asked = Suc (Suc (Suc (Suc (Suc (Suc 0)))))\<rparr>, Some (Ok 5))"
proof -
  have pinned: "known_relays_get example_trust_env example_empty [97, 58, 55] = Ok None"
    by (simp add: known_relays_get_def example_endpoint example_empty_def)
  have profile: "pf_relay example_profile = [97, 58, 55]" "pf_pin example_profile = None"
    "pf_identity example_profile = example_secret" by (simp_all add: example_profile_def)
  show ?thesis
    by (simp add: connect_def run_defs example_open example_admin_write example_inputs_simps pinned profile example_admin_fields
        example_learn read_relay_def example_pinned_def) (simp add: example_welcome_def)
qed

definition inbox_replies :: "(publisher_error + relay_publisher_message) list" where
  "inbox_replies = [Ok example_welcome, Ok (RpPairRequest queued_request example_source 0), Ok RpPairingInboxComplete]"

abbreviation policy_cycle :: admin_action where
  "policy_cycle \<equiv> RunCycle offline_after_inbox example_profile (Ok (example_policy OpenViewers)) inbox_replies"

lemma example_cycle: "aw_file (run_action example_admin_env (example_world None) policy_cycle) = Some [43]"
proof -
  have loaded: "load_state_unlocked example_admin_env (read_private MAX_STATE_BYTES None None) = Ok default_state"
    by (simp add: load_state_unlocked_def read_private_def)
  have empty: "flush_outbox example_admin_env I pf
      \<lparr>aw_state = default_state, aw_file = a, aw_relays = b, aw_replies = c, aw_asked = d\<rparr> =
      ([], \<lparr>aw_state = default_state, aw_file = a, aw_relays = b, aw_replies = c, aw_asked = d\<rparr>, Some (Ok ()))" for I pf a b c d
    by (simp add: flush_outbox_def run_defs default_state_def)
  have offline: "flush_outbox example_admin_env offline_after_inbox example_profile
      \<lparr>aw_state = admitted_state, aw_file = a, aw_relays = b, aw_replies = c, aw_asked = Suc d\<rparr> =
      ([], \<lparr>aw_state = admitted_state, aw_file = a, aw_relays = b, aw_replies = c, aw_asked = Suc (Suc d)\<rparr>, Some (Err PubTimeout))"
    for a b c d
    by (simp add: flush_outbox_def connect_def run_defs offline_after_inbox_def admitted_state_def)
  obtain m where connected: "connect example_admin_env offline_after_inbox example_profile
      \<lparr>aw_state = default_state, aw_file = None, aw_relays = None,
       aw_replies = Ok example_welcome # tl inbox_replies, aw_asked = 0\<rparr> =
     ([m], \<lparr>aw_state = default_state, aw_file = None, aw_relays = Some [30], aw_replies = tl inbox_replies, aw_asked = Suc (Suc (Suc (Suc (Suc (Suc 0)))))\<rparr>, Some (Ok 5))"
    using example_connect by blast
  obtain m' where refreshed: "refresh_requests example_admin_env offline_after_inbox example_profile (example_policy OpenViewers)
      \<lparr>aw_state = default_state, aw_file = None, aw_relays = None, aw_replies = inbox_replies, aw_asked = 0\<rparr> =
    ([m, m'], \<lparr>aw_state = admitted_state, aw_file = None, aw_relays = Some [30], aw_replies = [], aw_asked = Suc (Suc (Suc (Suc (Suc (Suc (Suc (Suc 0)))))))\<rparr>, Some (Ok ()))"
    using connected example_process [of "source_text example_admin_env example_source"]
    by (simp add: refresh_requests_def inbox_replies_def run_defs example_admin_write example_inputs_simps example_profile_def)
  show ?thesis
    by (simp add: offline approval_cycle_def synchronize_def run_defs example_world_def empty refreshed loaded
        example_inputs_simps example_saved split: prod.splits)
qed

theorem grants_authorized_witness:
  "stored example_admin_env (aw_file (run_action example_admin_env (example_world None) policy_cycle)) = Ok admitted_state \<and>
   example_grant \<in> set (ps_approved admitted_state) \<and>
   (confirmed_by_viewer example_admin_env example_secret example_grant \<or>
    admitted_by_policy example_admin_env (example_policy OpenViewers) example_grant)"
proof -
  have codec: "postcard_ok (state_codec example_admin_env)" by (simp add: example_admin_fields states_codec_ok)
  have none: "aw_file (example_world None) = None" by (simp add: example_world_def)
  have "\<forall>a\<in>set [policy_cycle]. action_ok example_secret {example_policy OpenViewers} a"
    by (simp add: example_profile_def offline_after_inbox_def example_inputs_def)
  from grants_authorized [OF codec none this] show ?thesis
    by (simp del: run_action.simps add: example_cycle example_stored) (simp add: admitted_state_def)
qed

section \<open>The blocked request\<close>

definition waiting_state :: publisher_state where
  "waiting_state = default_state\<lparr>ps_revoked := [RevokedGrant 1 24], ps_pending := [\<lparr>pp_request = queued_request,
     pp_offer = queued_offer, pp_confirmation = Some queued_confirmation, pp_source_addr = []\<rparr>]\<rparr>"

theorem approve_all_blocked_witness:
  "\<not> is_ok (run_command example_admin_env [] example_secret (\<lambda>_. 100) CmdApproveAll waiting_state) \<and>
   is_ok (revoke example_admin_env [48] 1 (waiting_state\<lparr>ps_approved := [example_grant], ps_revoked := []\<rparr>))"
proof -
  have "admin_ok example_admin_env waiting_state"
    by (simp add: admin_ok_def grants_ok_def outboxes_ok_def waiting_state_def default_state_def)
  moreover have "identity_id example_admin_env (pr_viewer (pr_body queued_request)) = Ok 24"
    by (simp add: queued_parts example_admin_fields)
  ultimately have "\<not> is_ok (run_command example_admin_env [] example_secret (\<lambda>_. 100) CmdApproveAll waiting_state)"
    by (intro approve_all_blocked [where vid = 24 and p = "\<lparr>pp_request = queued_request, pp_offer = queued_offer,
          pp_confirmation = Some queued_confirmation, pp_source_addr = []\<rparr>"])
      (simp_all add: waiting_state_def default_state_def queued_request_def)
  then show ?thesis
    using example_unique by (simp add: revoke_def waiting_state_def default_state_def)
      (simp add: example_grant_def example_admin_fields)
qed

end
