(* ===== verification/PublicationExample.thy ===== *)
theory PublicationExample
  imports PublisherSession AdminExample
begin

text \<open>
  A turn of the publication loop on concrete input: the first frame of a stream with one approved
  viewer.
\<close>

lemma example_publisher_fields:
  "sha256 example_admin_env bs = of_nat (length bs)"
  "ed_sign example_admin_env sk m = replicate 64 (ucast sk)"
  "aead_encrypt example_admin_env key nonce aad msg = Some (msg @ replicate 16 0)"
  "to_stdvec (header_codec example_admin_env) h = Some [3]"
  "to_stdvec (claim_codec example_admin_env) c = Some [4]"
  "epoch_codec example_admin_env = single_postcard example_epoch_payload [6]"
  "history_codec example_admin_env = tag_postcard [31]"
  "secret_public example_admin_env example_secret = Ok example_public"
  "identity_validate example_admin_env example_public = Ok ()"
  "identity_id example_admin_env example_public = Ok 24"
  "kem_public_key example_admin_env example_public = Ok 9"
  "hpke_seal example_admin_env rnd pk info msg aad = Some (pk, msg @ replicate 16 0)"
  "to_stdvec (envelope_header_codec example_admin_env) eh = Some [7]"
  "to_stdvec (unsigned_envelope_codec example_admin_env) u = Some [8]"
  by (simp_all add: example_admin_env_def history_env.extend_def history_env.defs pairing_store_env.extend_def example_queue_env_def wire_env.extend_def
      example_wire_defs wire_env.defs pairing_store_env.defs secret_public_def identity_id_def identity_validate_def kem_public_key_def
      example_secret_def example_public_def IDENTITY_VERSION_def IDENTITY_FINGERPRINT_PREFIX_def ascii_bytes_def)

definition example_settings :: publication_settings where
  "example_settings = \<lparr>pb_secret = example_secret, pb_stream_id = 1, pb_epoch_id = 2, pb_width = 64, pb_height = 64,
     pb_group_frames = 4, pb_duration = 90000, pb_history_bytes = 1000, pb_history_age_ms = 1000\<rparr>"

definition example_history_io :: history_io where
  "example_history_io = \<lparr>hio_lock = Ok (), hio_read = Err NotFound, hio_replaced = Replaced\<rparr>"

definition example_turn :: "identity_public list \<Rightarrow> frame_turn" where
  "example_turn viewers = \<lparr>ft_shutdown = False, ft_approved = Ok viewers, ft_key_id = 3, ft_nonce_prefix = 4,
     ft_content_key = 6, ft_seal_rnd = (\<lambda>_. []), ft_write = (\<lambda>_. Ok ()),
     ft_reply = (\<lambda>obj. Ok (RpPublishAck 1 (h_sequence (o_header obj)))), ft_frame = Ok True,
     ft_encoded = (\<lambda>_. Ok \<lparr>ef_annex_b = [0, 0, 1, 101], ef_keyframe = True,
                           ef_config = Some \<lparr>avc_sps = [103], avc_pps = [104]\<rparr>\<rparr>),
     ft_cursor = Ok None, ft_created_ms = 10, ft_prune_ms = 10, ft_end_ms = 20,
     ft_epoch_history = example_history_io, ft_end_history = example_history_io\<rparr>"

definition example_first_group :: "u64 \<Rightarrow> bool \<Rightarrow> group_encryptor" where
  "example_first_group last_sequence started =
     \<lparr>g_publisher_id = 24, g_stream_id = 1, g_epoch_id = 2, g_key_group = 1, g_key_id = 3, g_nonce_prefix = 4,
      g_last_sequence = last_sequence, g_media_started = started, g_key = 6\<rparr>"

definition example_sealed :: "new_native_object \<Rightarrow> bytes \<Rightarrow> native_object" where
  "example_sealed obj plain =
     \<lparr>o_header = seal_header (example_first_group 0 False) obj (of_nat (length plain + 16)),
      o_ciphertext_hash = of_nat (length plain + 16), o_signature = signature_from_bytes (replicate 64 7),
      o_ciphertext = plain @ replicate 16 0\<rparr>"

definition example_epoch_object :: new_native_object where
  "example_epoch_object = \<lparr>n_sequence = 1, n_timestamp = 0, n_duration = 1, n_kind = Epoch, n_random_access = True,
     n_codec = Some H264AnnexB\<rparr>"

definition example_media_object :: new_native_object where
  "example_media_object = \<lparr>n_sequence = 2, n_timestamp = 0, n_duration = 90000, n_kind = Media, n_random_access = True,
     n_codec = Some H264AnnexB\<rparr>"

lemma example_epoch_payload_encoded:
  "epoch_encode example_admin_env example_epoch_payload = Ok [6]"
  "epoch_decode example_admin_env [6] = Ok example_epoch_payload"
  by (simp_all add: epoch_encode_def epoch_decode_def validate_epoch_def example_publisher_fields single_postcard_def
      is_annex_b_def MAX_CODEC_CONFIG_LEN_def) (simp_all add: example_epoch_payload_def)

lemma example_seals:
  "group_seal example_admin_env example_secret (example_first_group 0 False) (example_epoch_object, [6]) =
     Ok (example_first_group 1 False, example_sealed example_epoch_object [6])"
  "group_seal example_admin_env example_secret (example_first_group 1 False) (example_media_object, [0, 0, 1, 101]) =
     Ok (example_first_group 2 True, example_sealed example_media_object [0, 0, 1, 101])"
proof -
  have nonce: "(from_be_bytes (drop 4 (to_be_bytes 12 (seal_nonce 4 1))) :: u64) = 1"
    "(from_be_bytes (drop 4 (to_be_bytes 12 (seal_nonce 4 2))) :: u64) = 2" by simp_all
  have idr: "contains_h264_idr [0, 0, 1, 101]"
    by (simp add: contains_h264_idr_def idr_scan.simps nal_offset_at_def)
  note defs = group_seal_def example_publisher_fields example_first_group_def example_sealed_def
    validate_plaintext_def max_ciphertext_def saturating_add_usize_def AEAD_TAG_LEN_def MAX_EPOCH_CIPHERTEXT_LEN_def
    MAX_MEDIA_CIPHERTEXT_LEN_def checked_add_usize_def Let_def seal_header_def validate_header_def
    STREAM_FORMAT_VERSION_def sign_def signing_digest_def canonical_def OBJECT_DOMAIN_def ascii_bytes_def
    example_epoch_payload_encoded
  show "group_seal example_admin_env example_secret (example_first_group 0 False) (example_epoch_object, [6]) =
     Ok (example_first_group 1 False, example_sealed example_epoch_object [6])"
    using nonce(1) by (simp add: defs example_epoch_object_def del: nonce_sequence) (simp add: example_secret_def)
  show "group_seal example_admin_env example_secret (example_first_group 1 False) (example_media_object, [0, 0, 1, 101]) =
     Ok (example_first_group 2 True, example_sealed example_media_object [0, 0, 1, 101])"
    using nonce(2) idr by (simp add: defs example_media_object_def is_annex_b_def del: nonce_sequence)
      (simp add: example_secret_def word_le_nat_alt)
qed

lemma example_key_sealed:
  "\<exists>e. envelope_seal example_admin_env [] example_secret example_public 1 2 1 3 6 = Ok e"
  by (simp add: envelope_seal_def example_publisher_fields Let_def envelope_header_validate_def
      KEY_ENVELOPE_VERSION_def hpke_context_def canonical_def HPKE_CIPHERTEXT_LEN_def sign_def
      signing_digest_def ENVELOPE_DOMAIN_def ascii_bytes_def)

section \<open>The turn\<close>

definition example_key_envelope :: key_envelope where
  "example_key_envelope =
     \<lparr>e_header = \<lparr>k_version = KEY_ENVELOPE_VERSION, k_publisher_id = 24, k_recipient_id = 24, k_stream_id = 1, k_epoch_id = 2,
                  k_key_group_id = 1, k_key_id = 3\<rparr>,
      e_encapsulated_key = 9, e_ciphertext = to_be_bytes 32 (6 :: array32) @ replicate 16 0,
      e_publisher_signature = signature_from_bytes (replicate 64 7)\<rparr>"

abbreviation example_begin :: publication where
  "example_begin \<equiv> publication_start 0 [] [] None"

lemmas task_defs = task_then_def task_of_def task_run_def run_of_def task_get_def task_modify_def

lemma example_rotation:
  "rotate_group example_admin_env example_settings (example_turn vs) example_begin =
     ([], example_begin\<lparr>pn_group_id := 1, pn_group := Some (example_first_group 0 False), pn_approved := vs\<rparr>,
      Some (Ok True))"
  if "vs = [] \<or> vs = [example_public]"
  using that by (auto simp: rotate_group_def task_defs example_turn_def publication_start_def example_publisher_fields
      example_settings_def saturating_add_u64_def group_generate_def group_restore_def content_key_from_bytes_def
      example_first_group_def)

lemma example_sealed_header:
  "h_stream_id (o_header (example_sealed obj plain)) = 1" "h_sequence (o_header (example_sealed obj plain)) = n_sequence obj"
  "h_key_group (o_header (example_sealed obj plain)) = 1"
  by (simp_all add: example_sealed_def seal_header_def example_first_group_def)

lemma example_publishes:
  assumes "group_seal example_admin_env example_secret g (obj, plain) = Ok (g', example_sealed obj plain)" and "pn_group s = Some g"
  shows "seal_and_publish example_admin_env example_settings (example_turn vs) obj plain s =
     ([PubObject (example_sealed obj plain)], s\<lparr>pn_group := Some g'\<rparr>, Some (Ok ()))"
  using assms
  by (simp add: seal_and_publish_def task_defs example_settings_def publish_def send_message_def example_turn_def
      publish_reply_def example_sealed_header)

lemma example_history_ok:
  "record_history example_admin_env example_settings example_history_io now_ms s =
     ([], s\<lparr>pn_history := prune_key_history (pn_history s) now_ms 1000 1000, pn_history_file := Some [31]\<rparr>, Some (Ok ()))"
  by (simp add: record_history_def task_defs example_settings_def replace_stream_key_history_def example_history_io_def
      load_key_history_unlocked_def save_key_history_unlocked_def example_publisher_fields tag_postcard_def
      MAX_KEY_HISTORY_BYTES_def)

lemma example_sends_key:
  "send_key example_admin_env example_settings (example_turn vs) example_public s =
     ([PubKeyEnvelope example_key_envelope], s, Some (Ok ()))"
  if "pn_group s = Some (example_first_group n b)" "pn_group_id s = 1"
proof -
  have "envelope_seal example_admin_env [] example_secret example_public 1 2 1 3 6 = Ok example_key_envelope"
    by (simp add: envelope_seal_def example_publisher_fields Let_def envelope_header_validate_def
        KEY_ENVELOPE_VERSION_def hpke_context_def canonical_def HPKE_CIPHERTEXT_LEN_def sign_def
        signing_digest_def ENVELOPE_DOMAIN_def ascii_bytes_def example_key_envelope_def) (simp add: example_secret_def)
  then show ?thesis
    using that by (simp add: send_key_def task_defs example_settings_def example_turn_def send_message_def example_first_group_def)
qed

lemma example_epoch_published:
  assumes "pn_group s = Some (example_first_group 0 False)" "pn_group_id s = 1" "pn_sequence s = 0" "pn_timestamp s = 0"
    "pn_approved s = vs" "vs = [] \<or> vs = [example_public]" "pn_history s = []"
  shows "\<exists>hs. publish_epoch example_admin_env example_settings (example_turn vs)
      \<lparr>ef_annex_b = [0, 0, 1, 101], ef_keyframe = True, ef_config = Some \<lparr>avc_sps = [103], avc_pps = [104]\<rparr>\<rparr> s =
    (PubObject (example_sealed example_epoch_object [6]) # map (\<lambda>_. PubKeyEnvelope example_key_envelope) vs,
     s\<lparr>pn_sequence := 1, pn_group := Some (example_first_group 1 False), pn_history := hs, pn_history_file := Some [31]\<rparr>,
     Some (Ok ()))"
proof -
  have enc: "epoch_encode example_admin_env
      \<lparr>ep_width = pb_width example_settings, ep_height = pb_height example_settings,
       ep_codec_config = [0, 0, 0, 1, 103, 0, 0, 0, 1, 104]\<rparr> = Ok [6]"
    using example_epoch_payload_encoded(1) by (simp add: example_settings_def example_epoch_payload_def)
  have obj: "\<lparr>n_sequence = 1, n_timestamp = 0, n_duration = 1, n_kind = Epoch, n_random_access = True,
     n_codec = Some H264AnnexB\<rparr> = example_epoch_object" by (simp add: example_epoch_object_def)
  have io: "ft_epoch_history (example_turn viewers) = example_history_io" for viewers by (simp add: example_turn_def)
  show ?thesis
    by (rule disjE [OF assms(6)]; simp add: assms(1-5,7) publish_epoch_def Let_def task_defs saturating_add_u64_def enc obj io example_publishes [OF example_seals(1)]
        example_history_ok example_sends_key; (rule exI, rule refl)?)
qed

lemma example_turn_published:
  assumes "vs = [] \<or> vs = [example_public]"
  shows "\<exists>s. publication_turn example_admin_env example_settings (example_turn vs) example_begin =
     (PubObject (example_sealed example_epoch_object [6]) # map (\<lambda>_. PubKeyEnvelope example_key_envelope) vs @
       [PubObject (example_sealed example_media_object [0, 0, 1, 101])], s, Some (Ok True))"
proof -
  let ?s = "example_begin\<lparr>pn_group_id := 1, pn_group := Some (example_first_group 0 False), pn_approved := vs\<rparr>"
  let ?frame = "\<lparr>ef_annex_b = [0, 0, 1, 101], ef_keyframe = True, ef_config = Some \<lparr>avc_sps = [103], avc_pps = [104]\<rparr>\<rparr>"
  from example_epoch_published [of ?s vs] assms obtain hs where epoch:
    "publish_epoch example_admin_env example_settings (example_turn vs) ?frame ?s =
      (PubObject (example_sealed example_epoch_object [6]) # map (\<lambda>_. PubKeyEnvelope example_key_envelope) vs,
       ?s\<lparr>pn_sequence := 1, pn_group := Some (example_first_group 1 False), pn_history := hs, pn_history_file := Some [31]\<rparr>,
       Some (Ok ()))" by (auto simp: publication_start_def)
  have obj: "\<lparr>n_sequence = 2, n_timestamp = 0, n_duration = pb_duration example_settings, n_kind = Media, n_random_access = True,
     n_codec = Some H264AnnexB\<rparr> = example_media_object" by (simp add: example_media_object_def example_settings_def)
  have inputs: "ft_encoded (example_turn vs) b = Ok ?frame" "ft_cursor (example_turn vs) = Ok None"
    "ft_shutdown (example_turn vs) = False" "ft_frame (example_turn vs) = Ok True"
    "ft_end_history (example_turn vs) = example_history_io" for b
    by (simp_all add: example_turn_def)
  show ?thesis
    by (simp add: publication_turn_def publish_frame_def task_defs inputs example_rotation [OF assms] epoch)
      (simp add: saturating_add_u64_def publication_start_def obj example_publishes [OF example_seals(2)] example_history_ok
        count_content_def task_defs)
qed

section \<open>The properties of the turn\<close>

theorem published_only_to_approved_witness:
  "PubObject (example_sealed example_media_object [0, 0, 1, 101]) \<in>
     set (turn_messages example_admin_env example_settings [example_turn [example_public]] example_begin ! 0) \<and>
   k_recipient_id (e_header example_key_envelope) \<in> turn_approved example_admin_env (example_turn [example_public])"
proof -
  let ?ms = "turn_messages example_admin_env example_settings [example_turn [example_public]] example_begin"
  from example_turn_published [of "[example_public]"] have ms: "?ms = [[PubObject (example_sealed example_epoch_object [6]),
      PubKeyEnvelope example_key_envelope, PubObject (example_sealed example_media_object [0, 0, 1, 101])]]" by auto
  have objects: "0 < length ?ms" "PubObject (example_sealed example_media_object [0, 0, 1, 101]) \<in> set (?ms ! 0)"
    "PubKeyEnvelope example_key_envelope \<in> set (?ms ! 0)" unfolding ms by simp_all
  have same: "k_key_group_id (e_header example_key_envelope) =
      h_key_group (o_header (example_sealed example_media_object [0, 0, 1, 101]))"
    by (simp add: example_sealed_header example_key_envelope_def)
  have "length [example_turn [example_public]] < 2 ^ 64 - 1" by simp
  from published_only_to_approved [OF this refl objects(1,2) order_refl objects(3) same]
  have "k_recipient_id (e_header example_key_envelope) \<in> turn_approved example_admin_env ([example_turn [example_public]] ! 0)" .
  with objects(2) show ?thesis by (simp del: turn_messages.simps)
qed

theorem published_in_relay_order_witness:
  "monitor relay_order_step
     (\<lparr>s_stream_id = 1, s_publisher_id = 24, s_descriptor = [2], s_high_water = 0, s_active_epoch = None, s_active_group = None\<rparr>, 0)
     (fst (publication_loop example_admin_env example_settings [example_turn [example_public]] example_begin)) \<noteq> None \<and>
   PubObject (example_sealed example_media_object [0, 0, 1, 101]) \<in>
     set (fst (publication_loop example_admin_env example_settings [example_turn [example_public]] example_begin))"
proof -
  from example_turn_published [of "[example_public]"] have "PubObject (example_sealed example_media_object [0, 0, 1, 101]) \<in>
     set (fst (publication_loop example_admin_env example_settings [example_turn [example_public]] example_begin))"
    by (auto simp: task_then_def)
  then show ?thesis
    by (intro conjI published_in_relay_order) (simp_all add: example_settings_def)
qed

theorem revoked_viewer_cut_off_witness:
  "\<exists>s. execute example_admin_env [] example_inputs example_profile (example_policy RequiredPolicy) (CmdRevoke [48] 1)
       (example_world (Some [41])) = ([], s, Some (Ok ())) \<and>
     approved_viewers example_admin_env (Ok ()) (read_private MAX_STATE_BYTES None (aw_file s)) 1 = Ok [] \<and>
     PubObject (example_sealed example_media_object [0, 0, 1, 101]) \<in>
       set (turn_messages example_admin_env example_settings [example_turn []] example_begin ! 0) \<and>
     (\<forall>e. PubKeyEnvelope e \<in> set (turn_messages example_admin_env example_settings [example_turn []] example_begin ! 0) \<longrightarrow>
        k_key_group_id (e_header e) = h_key_group (o_header (example_sealed example_media_object [0, 0, 1, 101])) \<longrightarrow>
        k_recipient_id (e_header e) \<noteq> 24)"
proof -
  let ?ms = "turn_messages example_admin_env example_settings [example_turn []] example_begin"
  obtain s where s: "execute example_admin_env [] example_inputs example_profile (example_policy RequiredPolicy)
      (CmdRevoke [48] (pb_stream_id example_settings)) (example_world (Some [41])) = ([], s, Some (Ok ()))" "aw_file s = Some [42]"
    using example_revoke_run by (auto simp: example_settings_def)
  have codec: "postcard_ok (state_codec example_admin_env)" by (simp add: example_admin_fields states_codec_ok)
  have stored: "stored example_admin_env (aw_file (example_world (Some [41]))) = Ok approved_state"
    by (simp add: example_world_def example_stored)
  have fault: "ai_state_fault example_inputs \<noteq> Some NotFound" by (simp add: example_inputs_def)
  have none: "approved_viewers example_admin_env (Ok ()) (read_private MAX_STATE_BYTES None (aw_file s)) (pb_stream_id example_settings) = Ok []"
    using example_stored(2) by (simp add: s(2) approved_viewers_def load_state_def stored_def)
      (simp add: revoked_state_def default_state_def)
  from example_turn_published [of "[]"] have ms: "?ms = [[PubObject (example_sealed example_epoch_object [6]),
      PubObject (example_sealed example_media_object [0, 0, 1, 101])]]" by auto
  have obj: "0 < length ?ms" "PubObject (example_sealed example_media_object [0, 0, 1, 101]) \<in> set (?ms ! 0)"
    unfolding ms by simp_all
  have approvals: "ft_approved ([example_turn []] ! 0) = approved_viewers example_admin_env (Ok ())
      (read_private MAX_STATE_BYTES None (aw_file (foldl (run_action example_admin_env) s []))) (pb_stream_id example_settings)"
    by (simp add: none) (simp add: example_turn_def)
  have "\<forall>a\<in>set []. action_ok example_secret UNIV a" "length [example_turn []] < 2 ^ 64 - 1" by simp_all
  from revoked_viewer_cut_off [OF codec stored approved_state_ok fault s(1) this refl obj approvals]
  have "\<forall>e. PubKeyEnvelope e \<in> set (?ms ! 0) \<longrightarrow>
      k_key_group_id (e_header e) = h_key_group (o_header (example_sealed example_media_object [0, 0, 1, 101])) \<longrightarrow>
      k_recipient_id (e_header e) \<noteq> 24"
    by (auto simp: approved_state_def example_grant_def example_admin_fields simp del: turn_messages.simps)
  with s(1) none obj(2) show ?thesis unfolding example_settings_def by (auto simp del: turn_messages.simps)
qed

end
