(* ===== verification/ViewerExample.thy ===== *)
theory ViewerExample
  imports EndToEnd Pinning PublicationExample
begin

text \<open>
  The viewer on concrete inputs: a stream of two objects whose key comes between them, a pinned publisher,
  and a pairing state that is too long.
\<close>

section \<open>Environment\<close>

definition other_public :: identity_public where
  "other_public = \<lparr>id_version = 1, signing_key = 8, kem_key = 9\<rparr>"

definition example_verified :: verified_publishers_state where
  "example_verified = \<lparr>vp_version = VERIFIED_PUBLISHERS_VERSION, vp_publishers = [(1, example_public)]\<rparr>"

definition long_pairing_state :: pairing_state where
  "long_pairing_state = \<lparr>vs_version = PAIRING_STATE_VERSION, vs_pending = [(queued_request, None)]\<rparr>"

definition example_viewer_env :: viewer_env where
  "example_viewer_env = pairing_store_env.extend
     (example_queue_env\<lparr>epoch_codec := single_postcard example_epoch_payload [6],
        identity_codec := \<lparr>to_stdvec = (\<lambda>i. Some (if i = example_public then [1] else [1, 1])), take_from_bytes = (\<lambda>_. None)\<rparr>\<rparr>)
     \<lparr>pairing_state_codec = single_postcard long_pairing_state (replicate 4194305 9),
      verified_codec = single_postcard example_verified (replicate 64 9),
      viewer_trust = example_trust_env, noise_key_text = (\<lambda>_. Err VeProtocol)\<rparr>"

lemmas example_viewer_defs = example_viewer_env_def pairing_store_env.extend_def example_queue_env_def wire_env.extend_def
  example_wire_defs wire_env.defs pairing_store_env.defs

lemma example_viewer_fields:
  "sha256 example_viewer_env bs = of_nat (length bs)"
  "ed_sign example_viewer_env sk m = replicate 64 (ucast sk)"
  "aead_encrypt example_viewer_env key nonce aad msg = Some (msg @ replicate 16 0)"
  "to_stdvec (header_codec example_viewer_env) h = Some [3]"
  "to_stdvec (claim_codec example_viewer_env) c = Some [4]"
  "epoch_codec example_viewer_env = single_postcard example_epoch_payload [6]"
  "secret_public example_viewer_env example_secret = Ok example_public"
  "identity_validate example_viewer_env example_public = Ok ()"
  "identity_id example_viewer_env example_public = Ok 24"
  "identity_id example_viewer_env other_public = Ok 25"
  "kem_public_key example_viewer_env example_public = Ok 9"
  "hpke_seal example_viewer_env rnd pk info msg aad = Some (pk, msg @ replicate 16 0)"
  "to_stdvec (envelope_header_codec example_viewer_env) eh = Some [7]"
  "to_stdvec (unsigned_envelope_codec example_viewer_env) u = Some [8]"
  "verified_codec example_viewer_env = single_postcard example_verified (replicate 64 9)"
  "pairing_state_codec example_viewer_env = single_postcard long_pairing_state (replicate 4194305 9)"
  by (simp_all add: example_viewer_defs secret_public_def identity_id_def identity_validate_def kem_public_key_def
      example_secret_def example_public_def other_public_def IDENTITY_VERSION_def IDENTITY_FINGERPRINT_PREFIX_def ascii_bytes_def)

lemma example_viewer_env_ok: "keys_ok example_viewer_env" "aead_ok example_viewer_env" "hpke_ok example_viewer_env"
  by (auto simp: keys_ok_def signatures_ok_def aead_ok_def hpke_ok_def example_viewer_defs)

text \<open>A decoder that refuses the empty unit, keeps the others and returns each as a picture\<close>

definition keeping_decoder :: "bytes list h264_decoder" where
  "keeping_decoder = \<lparr>dec_new = Ok [], dec_units = (\<lambda>bs. [bs]), dec_decode = (\<lambda>d u. if u = [] then (Err VeDecoder, d) else (Ok (Some (1, 1, u)), d @ [u]))\<rparr>"

definition example_viewer_profile :: connection_profile where
  "example_viewer_profile = \<lparr>cp_endpoint = [], cp_identity = example_secret, cp_credential = None, cp_explicit_pin = Some 5\<rparr>"

definition example_viewing :: "viewer_input list \<Rightarrow> bytes list viewer_world" where
  "example_viewing inputs = \<lparr>vw_relays = None, vw_pairing_file = None, vw_verified_file = Some (replicate 64 9), vw_pending = [],
     vw_keys = empty_cache, vw_inputs = inputs, vw_asked = 0, vw_decoder = [], vw_guard = live_guard_new 24 1 0,
     vw_source_size = None, vw_objects = [], vw_object_bytes = 0, vw_last_decrypted = 0, vw_subscriptions = []\<rparr>"

section \<open>A stream\<close>

lemma example_epoch_decodes: "epoch_decode example_viewer_env [6] = Ok example_epoch_payload"
  by (simp add: epoch_decode_def validate_epoch_def example_viewer_fields single_postcard_def
      is_annex_b_def MAX_CODEC_CONFIG_LEN_def) (simp add: example_epoch_payload_def)

lemma example_stream_seals:
  "group_seal example_viewer_env example_secret (example_first_group 0 False) (example_epoch_object, [6]) =
     Ok (example_first_group 1 False, example_sealed example_epoch_object [6])"
  "group_seal example_viewer_env example_secret (example_first_group 1 False) (example_media_object, [0, 0, 1, 101]) =
     Ok (example_first_group 2 True, example_sealed example_media_object [0, 0, 1, 101])"
proof -
  have nonce: "(from_be_bytes (drop 4 (to_be_bytes 12 (seal_nonce 4 1))) :: u64) = 1"
    "(from_be_bytes (drop 4 (to_be_bytes 12 (seal_nonce 4 2))) :: u64) = 2" by simp_all
  have idr: "contains_h264_idr [0, 0, 1, 101]"
    by (simp add: contains_h264_idr_def idr_scan.simps nal_offset_at_def)
  note defs = group_seal_def example_viewer_fields example_first_group_def example_sealed_def
    validate_plaintext_def max_ciphertext_def saturating_add_usize_def AEAD_TAG_LEN_def MAX_EPOCH_CIPHERTEXT_LEN_def
    MAX_MEDIA_CIPHERTEXT_LEN_def checked_add_usize_def Let_def seal_header_def validate_header_def
    STREAM_FORMAT_VERSION_def sign_def signing_digest_def canonical_def OBJECT_DOMAIN_def ascii_bytes_def example_epoch_decodes
  show "group_seal example_viewer_env example_secret (example_first_group 0 False) (example_epoch_object, [6]) =
     Ok (example_first_group 1 False, example_sealed example_epoch_object [6])"
    using nonce(1) by (simp add: defs example_epoch_object_def del: nonce_sequence) (simp add: example_secret_def)
  show "group_seal example_viewer_env example_secret (example_first_group 1 False) (example_media_object, [0, 0, 1, 101]) =
     Ok (example_first_group 2 True, example_sealed example_media_object [0, 0, 1, 101])"
    using nonce(2) idr by (simp add: defs example_media_object_def is_annex_b_def del: nonce_sequence)
      (simp add: example_secret_def word_le_nat_alt)
qed

lemma example_stream_key: "\<exists>e. envelope_seal example_viewer_env [] example_secret example_public 1 2 1 3 6 = Ok e"
  by (simp add: envelope_seal_def example_viewer_fields Let_def envelope_header_validate_def
      KEY_ENVELOPE_VERSION_def hpke_context_def canonical_def HPKE_CIPHERTEXT_LEN_def sign_def
      signing_digest_def ENVELOPE_DOMAIN_def ascii_bytes_def)

text \<open>The key comes after the epoch and before the first frame; the decoder gets both.\<close>

theorem sealed_stream_plays_witness:
  "\<exists>envelope out s'. envelope_seal example_viewer_env [] example_secret example_public 1 2 1 3 6 = Ok envelope \<and>
     read_each (playback_message example_viewer_env keeping_decoder example_viewer_profile 1 example_public 24)
       (start_playback 24 1 1 [] (example_viewing [object_input (example_sealed example_epoch_object [6]),
          FromRelay (Ok (RvKeyEnvelope envelope)), object_input (example_sealed example_media_object [0, 0, 1, 101])]))
       = (out, s', None) \<and> vw_objects s' = [] \<and>
     vw_decoder s' = [[0, 0, 0, 1, 103, 0, 0, 0, 1, 104], [0, 0, 1, 101]] \<and>
     shown_pictures out = [(1, 1, [0, 0, 0, 1, 103, 0, 0, 0, 1, 104]), (1, 1, [0, 0, 1, 101])] \<and> vw_last_decrypted s' = 2"
proof -
  let ?early = "[(example_epoch_object, [6])] :: (new_native_object \<times> bytes) list"
  let ?late = "[(example_media_object, [0, 0, 1, 101])] :: (new_native_object \<times> bytes) list"
  obtain envelope where e: "envelope_seal example_viewer_env [] example_secret example_public 1 2 1 3 6 = Ok envelope"
    using example_stream_key by blast
  let ?objs = "[example_sealed example_epoch_object [6], example_sealed example_media_object [0, 0, 1, 101]]"
  let ?inputs = "[object_input (example_sealed example_epoch_object [6]),
          FromRelay (Ok (RvKeyEnvelope envelope)), object_input (example_sealed example_media_object [0, 0, 1, 101])]"
  have sealed: "seal_each example_viewer_env example_secret (example_first_group 0 False) (?early @ ?late) = Ok ?objs"
    by (simp add: example_stream_seals)
  have g: "g_stream_id (example_first_group 0 False) = 1" "g_epoch_id (example_first_group 0 False) = 2"
    "g_key_group (example_first_group 0 False) = 1" "g_key_id (example_first_group 0 False) = 3"
    "g_key (example_first_group 0 False) = 6" "g_last_sequence (example_first_group 0 False) = 0"
    by (simp_all add: example_first_group_def)
  have e': "envelope_seal example_viewer_env [] example_secret example_public (g_stream_id (example_first_group 0 False))
      (g_epoch_id (example_first_group 0 False)) (g_key_group (example_first_group 0 False))
      (g_key_id (example_first_group 0 False)) (g_key (example_first_group 0 False)) = Ok envelope"
    using e by (simp add: g)
  have "cache_get empty_cache k = None" for k by (simp add: cache_get_def empty_cache_def)
  moreover have units: "units_of keeping_decoder (map (decoder_bytes example_viewer_env) (?early @ ?late))
      = [[0, 0, 0, 1, 103, 0, 0, 0, 1, 104], [0, 0, 1, 101]]"
    by (simp add: keeping_decoder_def decoder_bytes_def example_epoch_object_def example_media_object_def example_epoch_decodes)
      (simp add: example_epoch_payload_def)
  then have "decodes keeping_decoder [] (units_of keeping_decoder (map (decoder_bytes example_viewer_env) (?early @ ?late)))"
    by (simp add: keeping_decoder_def)
  note played = sealed_stream_plays [OF example_viewer_env_ok this example_viewer_fields(7,9) _ _ e' sealed]
  ultimately have "\<exists>out s'. read_each (playback_message example_viewer_env keeping_decoder example_viewer_profile
        (g_stream_id (example_first_group 0 False)) example_public 24)
      (start_playback 24 (g_stream_id (example_first_group 0 False)) 1 [] (example_viewing ?inputs)) = (out, s', None) \<and> vw_objects s' = [] \<and>
    vw_decoder s' = decoder_after keeping_decoder [] (units_of keeping_decoder (map (decoder_bytes example_viewer_env) (?early @ ?late))) \<and>
    shown_pictures out = pictures keeping_decoder [] (units_of keeping_decoder (map (decoder_bytes example_viewer_env) (?early @ ?late))) \<and>
    vw_last_decrypted s' = last (vw_last_decrypted (example_viewing ?inputs) # map (n_sequence \<circ> fst) (?early @ ?late))"
    by (intro played)
      (simp_all add: example_viewer_profile_def example_viewer_fields g example_epoch_object_def example_media_object_def
        MAX_PENDING_OBJECTS_def MAX_PENDING_CIPHERTEXT_BYTES_def AEAD_TAG_LEN_def example_viewing_def cache_ok_empty)
  moreover note units
  moreover have "decoder_after keeping_decoder [] [a, b] = [a, b]" "pictures keeping_decoder [] [a, b] = [(1, 1, a), (1, 1, b)]"
    if "a \<noteq> []" "b \<noteq> []" for a b
    using that by (simp_all add: keeping_decoder_def)
  ultimately show ?thesis
    using e by (simp add: g example_media_object_def)
qed

section \<open>A subscription\<close>

definition example_viewer_inputs :: viewer_inputs where
  "example_viewer_inputs = \<lparr>vi_connect = (\<lambda>_. Ok ()), vi_relays_fault = (\<lambda>_. None), vi_remote_key = (\<lambda>_. Ok 5),
     vi_replace = (\<lambda>_. Replaced), vi_lock = (\<lambda>_. Ok ()), vi_file_fault = (\<lambda>_. None), vi_write = (\<lambda>_. Ok ()),
     vi_now_ms = (\<lambda>_. 100), vi_nonce = (\<lambda>_. 1)\<rparr>"

definition session_welcome :: relay_welcome where
  "session_welcome = \<lparr>welcome_protocol_version = PROTOCOL_VERSION, welcome_access_mode = PublicAccess, welcome_relay_time_ms = 100,
     welcome_credential_expires_at_ms = None\<rparr>"

definition example_session :: "viewer_input list" where
  "example_session = [FromRelay (Ok (RvWelcome session_welcome)), FromRelay (Ok (RvSubscriptionStarted 1 None True)),
     object_input (example_sealed example_epoch_object [6]), object_input (example_sealed example_media_object [0, 0, 1, 101])]"

lemma example_publisher_pinned: "pinned example_viewer_env 1 24 (example_viewing inputs)"
  by (simp add: pinned_def example_viewing_def read_private_def MAX_VERIFIED_PUBLISHERS_BYTES_def load_verified_publishers_unlocked_def
      example_viewer_fields single_postcard_def verified_in_def)
    (simp add: example_verified_def example_viewer_fields)

lemma example_session_opens:
  "\<exists>out s1. open_session example_viewer_env keeping_decoder example_viewer_inputs example_viewer_profile 1 example_public Live
     (example_viewing example_session) = (out, s1, Some (Ok (24, 1, [])))"
  by (simp add: open_session_def check_verified_def load_verified_run task_then_def task_of_def task_run_def run_of_def
      view_connect_def view_ask_def send_viewer_def read_viewer_def show_event_def example_viewer_inputs_def example_viewer_profile_def
      example_viewing_def example_session_def example_viewer_fields read_private_def MAX_VERIFIED_PUBLISHERS_BYTES_def
      load_verified_publishers_unlocked_def single_postcard_def keeping_decoder_def)
    (simp add: example_verified_def example_viewer_fields)

text \<open>Two objects arrive without their key: the session opens, both are taken and wait.\<close>

theorem playback_decodes_in_order_witness:
  "\<exists>out s1 out' s' r taken more done rest.
     open_session example_viewer_env keeping_decoder example_viewer_inputs example_viewer_profile 1 example_public Live
       (example_viewing example_session) = (out, s1, Some (Ok (24, 1, []))) \<and>
     subscribe_once example_viewer_env keeping_decoder example_viewer_inputs example_viewer_profile 1 example_public Live
       (example_viewing example_session) = (out', s', r) \<and>
     [example_sealed example_epoch_object [6], example_sealed example_media_object [0, 0, 1, 101]] = taken @ more \<and>
     taken = map fst done @ rest \<and> done = ([] :: (native_object \<times> array32) list) \<and> filter is_media out' = [] \<and> r \<noteq> Some (Ok ())"
proof -
  let ?s = "example_viewing example_session"
  obtain out' s' r where run: "subscribe_once example_viewer_env keeping_decoder example_viewer_inputs example_viewer_profile 1 example_public Live ?s
      = (out', s', r)" by (metis prod_cases3)
  have fresh: "cache_ok (vw_keys ?s)" "vw_objects ?s = []" "vw_object_bytes ?s = 0"
    by (simp_all add: example_viewing_def cache_ok_empty)
  have inputs: "objects_of (vw_inputs ?s) = [example_sealed example_epoch_object [6], example_sealed example_media_object [0, 0, 1, 101]]"
    "offered_keys example_viewer_env (cp_identity example_viewer_profile) example_public (vw_inputs ?s) = {}" "kc_keys (vw_keys ?s) = []"
    by (simp_all add: example_viewing_def example_session_def empty_cache_def)
  obtain taken more ds rest d t q where p: "objects_of (vw_inputs ?s) = taken @ more" "taken = map fst ds @ rest"
    "task_each (decode_keyed example_viewer_env keeping_decoder example_public) ds (with_codec (d, None) ?s)
       = (filter is_media out', t, Some q)"
    "\<forall>ok\<in>set ds. (for_object (fst ok), snd ok)
       \<in> set (kc_keys (vw_keys ?s)) \<union> offered_keys example_viewer_env (cp_identity example_viewer_profile) example_public (vw_inputs ?s)"
    "r \<noteq> Some (Ok ())"
    using playback_decodes_in_order [OF run fresh] by blast
  have "ds = []" using p(4) inputs by (cases ds) auto
  with p(3) have media: "filter is_media out' = []" by (simp add: task_of_def task_run_def run_of_def)
  have objs: "[example_sealed example_epoch_object [6], example_sealed example_media_object [0, 0, 1, 101]] = taken @ more"
    using p(1) inputs(1) by simp
  from example_session_opens obtain out s1 where "open_session example_viewer_env keeping_decoder example_viewer_inputs
      example_viewer_profile 1 example_public Live ?s = (out, s1, Some (Ok (24, 1, [])))" by blast
  with run objs p(2,5) media \<open>ds = []\<close> show ?thesis by blast
qed

section \<open>A pinned publisher\<close>

theorem verified_publisher_pinned_witness:
  "\<exists>out s' r. command_worker example_viewer_env [] example_viewer_inputs example_viewer_profile
       [(CmdSubscribe 1 other_public Live, [], []), (CmdPair 1 other_public, [], [])] (example_viewing []) = (out, s', r) \<and>
     pinned example_viewer_env 1 24 s' \<and>
     (\<exists>e t. subscribe_once example_viewer_env keeping_decoder example_viewer_inputs example_viewer_profile 1 other_public Live s' = ([], t, Some (Err e)))"
proof -
  let ?commands = "[(CmdSubscribe 1 other_public Live, [], []), (CmdPair 1 other_public, [], [])]
    :: (viewer_command \<times> viewer_input list \<times> viewer_input list) list"
  obtain out s' r where run: "command_worker example_viewer_env [] example_viewer_inputs example_viewer_profile ?commands (example_viewing []) = (out, s', r)"
    by (metis prod_cases3)
  have ok: "postcard_ok (verified_codec example_viewer_env)" "verified_codec_wide example_viewer_env" "faults_ok example_viewer_inputs"
    by (simp_all add: example_viewer_fields single_postcard_ok verified_codec_wide_def faults_ok_def example_viewer_inputs_def)
      (simp add: single_postcard_def example_verified_def)
  from verified_publisher_pinned [OF ok example_publisher_pinned run example_viewer_fields(10), of keeping_decoder Live] run show ?thesis
    by auto
qed

section \<open>A long pairing state\<close>

theorem oversize_pairings_stick_witness:
  "save_pairing_state example_viewer_env Replaced None [(39, queued_request, None)] = (Ok (), Some (replicate 4194305 9)) \<and>
   load_pairing_state example_viewer_env (read_private MAX_PAIRING_STATE_BYTES None (Some (replicate 4194305 9))) = Err (VeIo InvalidData) \<and>
   \<not> is_ok (fst (save_pairing_state example_viewer_env Replaced (Some (replicate 4194305 9)) []))"
proof -
  let ?pending = "[(39, queued_request, None)] :: pending_pairings"
  have enc: "to_stdvec (pairing_state_codec example_viewer_env)
      \<lparr>vs_version = PAIRING_STATE_VERSION, vs_pending = sort_key (pairing_order example_viewer_env) (map snd ?pending)\<rparr>
      = Some (replicate 4194305 9)"
    by (simp add: example_viewer_fields single_postcard_def long_pairing_state_def)
  have long: "MAX_PAIRING_STATE_BYTES < length (replicate 4194305 (9 :: u8))" by (simp add: MAX_PAIRING_STATE_BYTES_def)
  from oversize_pairings_stick [OF enc long, of None Replaced "[]"] show ?thesis by simp
qed

end
