(* ===== verification/Spec2Isabelle.thy ===== *)
theory Spec2Isabelle
  imports Cursor ServiceExample ViewerExample
begin

text \<open>
  Verification of GlacialCast, a system that streams screens through a relay that cannot read them.

  \<^bold>\<open>The program.\<close>  A publisher (\<^verbatim>\<open>crates/publisher\<close>) captures and encodes a screen, seals every object of the
  stream under the content key of its key group, and seals that key for each approved viewer.  A relay
  (\<^verbatim>\<open>crates/relay\<close>) admits publishers and viewers, stores the opaque objects and key envelopes, evicts old
  groups, replays and forwards objects to subscribers, and queues the messages of pairing ceremonies.  A viewer
  (\<^verbatim>\<open>crates/viewer\<close>) pairs with publishers, collects keys, subscribes, decrypts and shows.  The formats and the
  cryptographic protocols are in \<^verbatim>\<open>crates/protocol\<close>.  Publisher and viewer talk to the relay only, over Noise
  sessions; they never trust it with keys.

  \<^bold>\<open>Theories and sources.\<close>  The formats and ceremonies of \<^verbatim>\<open>crates/protocol/src\<close>:
  \<^item> \<open>Prelude\<close>: machine integers, results, byte and string functions of the Rust library, binary search.
  \<^item> \<open>Interfaces\<close>: the foreign code as parameters, and the contracts components share.
  \<^item> \<open>Identity\<close> (\<^verbatim>\<open>identity.rs\<close>), \<open>Native\<close> (\<^verbatim>\<open>native.rs\<close>: descriptors, objects, the group encryptor, the live
    guard, the scan for IDR slices), \<open>Envelope\<close> (\<^verbatim>\<open>envelope.rs\<close>), \<open>Credential\<close> (\<^verbatim>\<open>credential.rs\<close>),
    \<open>Pairing\<close> (\<^verbatim>\<open>pairing.rs\<close>, \<^verbatim>\<open>auth_words.rs\<close>), \<open>Wire\<close> (\<^verbatim>\<open>wire.rs\<close>), \<open>Trust\<close> (\<^verbatim>\<open>trust.rs\<close>), \<open>Cursor\<close>
    (\<^verbatim>\<open>cursor.rs\<close>), \<open>Framing\<close> (frames, segments, handshake and socket of \<^verbatim>\<open>lib.rs\<close>), \<open>PrivateState\<close>
    (\<^verbatim>\<open>private_state.rs\<close>: what reading returns).

  The relay, \<^verbatim>\<open>crates/relay/src\<close>:
  \<^item> \<open>NativeStore\<close> (\<^verbatim>\<open>native_store.rs\<close>): the tables as lists of records and every transaction on them;
    \<open>StoreInvariant\<close>, \<open>StoreProperties\<close>, \<open>StoreQuotas\<close>, \<open>StoreTotality\<close>: what holds in its reachable states.
  \<^item> \<open>PairingStore\<close> (\<^verbatim>\<open>pairing_store.rs\<close>): the queue of pairings.  \<open>Access\<close> (\<^verbatim>\<open>native_access.rs\<close>): admission.
  \<^item> \<open>Delivery\<close> and \<open>Service\<close> (\<^verbatim>\<open>native_service.rs\<close>): subscriptions, and sessions of publishers and viewers over
    the shared state; \<open>ServiceProperties\<close>: the relay as a transition system; \<open>Isolation\<close>: what one session cannot
    do to the others.

  The publisher, \<^verbatim>\<open>crates/publisher/src\<close>:
  \<^item> \<open>KeyHistory\<close>, \<open>Publication\<close>, \<open>PublisherSession\<close> (\<^verbatim>\<open>native_publish.rs\<close>, and the cursor conversion of
    \<^verbatim>\<open>lib.rs\<close>): the retained keys, the loop that rotates groups and publishes, the opening of a stream.
  \<^item> \<open>Admin\<close> (\<^verbatim>\<open>native_admin.rs\<close>): approvals, their file, the pairing inbox, commands and the approval worker;
    \<open>AdminProperties\<close>.

  The viewer, \<^verbatim>\<open>crates/viewer/src/lib.rs\<close>:
  \<^item> \<open>Viewer\<close>: the key cache, the files, connecting and pairing.  \<open>Playback\<close>: decoding, the queue, a subscription
    and its reconnection, the catalog, the command worker.
  \<^item> \<open>KeyCache\<close>, \<open>PlaybackProperties\<close>, \<open>Pinning\<close>: what they guarantee.  \<open>EndToEnd\<close>: publisher to decoder.

  \<open>StoreExample\<close>, \<open>PairingExample\<close>, \<open>ServiceExample\<close>, \<open>AdminExample\<close>, \<open>PublicationExample\<close> and \<open>ViewerExample\<close> run
  the definitions on concrete inputs and instantiate the properties there.

  \<^bold>\<open>State and operations.\<close>  A struct is a record, an enum a datatype, \<^verbatim>\<open>Result\<close> the sum type (\<open>Ok\<close> and \<open>Err\<close>
  abbreviate its constructors), an integer of the sources a word of its width; \<^verbatim>\<open>usize\<close> is a natural number with
  saturation at \<^verbatim>\<open>usize::MAX\<close> written out.  A function is a definition of the same name, or one with a prefix
  where a name would clash; its errors keep their order.  SQL tables are lists of rows, and each transaction is a
  function on the database that returns the new database or an error and no change.  A session is a task
  (\<open>Tasks\<close>): a function from its state to the messages written, the state left behind and the outcome, which is
  \<open>None\<close> while it waits for input; sequencing is \<^verbatim>\<open>?\<close> and \<^verbatim>\<open>.await?\<close>.  What tasks read from sockets, files and
  clocks is an input, indexed by the order of the calls, or a list of what arrives; what happens between two
  steps of a task (other sessions, other tasks) is part of the input or a step of a transition relation, so every
  property holds for all interleavings at that grain.  The grain of the relay is one message: the calls a handler
  makes while it claims a stream and stores, closing a session with its finalization and its going offline, and
  assembling a catalog from the store and the online set are one step each, where the code makes separate calls.
  The pairing queue is stepped with times that do not decrease.  A message whose write fails counts as not sent,
  and a session that ends with an error keeps no state of its own (such as the cursor shapes seen before it).

  \<^bold>\<open>Parameters and laws.\<close>  Code outside the repository is an argument of the definitions, with its documented
  behaviour as hypotheses: \<open>postcard_ok\<close> (a Postcard value is read back from its own encoding, and from no
  other prefix), \<open>signatures_ok\<close> and \<open>keys_ok\<close> (a signature made with a key verifies under its public key),
  \<open>aead_ok\<close> and \<open>hpke_ok\<close> (what was sealed opens, with the overhead of the tag), the laws of Noise in
  \<open>Framing\<close>, of socket address texts in \<open>Trust\<close> and \<open>PairingStore\<close> (a printed address parses, to one that prints
  the same; the flow label of an IPv6 address is not printed), and \<open>verified_codec_wide\<close> (an identity takes at
  least its two keys in a file).  The H.264 decoder may fail at any unit; \<open>EndToEnd\<close> assumes only that it takes the
  units of the stream in question.  No hypothesis says that forging is impossible: what is shown of received data is that it
  verified, over which bytes and under which key.  Each law has a concrete instance in the example theories.

  \<^bold>\<open>Contracts as locales.\<close>  \<open>canonical_format\<close>: encoder and decoder of a canonical format agree; interpreted by
  every format of the protocol.  \<open>increasing_guard\<close>: a guard that accepts increasing sequences; interpreted by
  the group encryptor and the live guard.  \<open>invariant_machine\<close>: steps that keep an invariant; interpreted by the
  store (contents and quotas), the pairing queue, the relay, the trust file (its form, and a pin in it) and the
  revocation lists in force.  \<open>reader_field\<close>: a field reader
  that inverts its writer; interpreted by every field of cursor batches.  \<open>kept_state\<close>: a relation between
  approval states that every operation advances; interpreted for revocations and grants.

  \<^bold>\<open>What is shown.\<close>
  \<^item> \<^emph>\<open>The relay\<close> acknowledges only what its store holds; its store keeps an invariant over all transactions, stays
    within its quotas, evicts whole groups oldest first and no more than the limits ask for, always finishes
    retention and can always send its catalog; a subscription receives consecutive sequences; a stream has one
    publisher at a time and one owner for ever, who alone can replace its descriptor; no session changes the
    streams or the pairings of another identity.
  \<^item> \<^emph>\<open>Admission and pairing\<close>: the verdict on credentials at every time, the equivalence of the cheap re-check with
    full verification, the end of revoked sessions while the lists in force name them, and the completeness and authenticity of the ceremony, on the
    wire and through the queue.
  \<^item> \<^emph>\<open>The publisher\<close> publishes in the order the relay demands and seals objects under keys that only viewers approved
    at that time were sent; a revocation is permanent and takes effect with the next turn; approvals come from
    confirmed ceremonies or a policy in force; the key history keeps the longest suffix within its limits.
  \<^item> \<^emph>\<open>The viewer\<close> shows what decoding the received objects in order shows, within its queue limits, under keys it
    obtained from verified envelopes; its cache is bounded; a verified publisher stays pinned.
  \<^item> \<^emph>\<open>Across them\<close>: what a publisher seals, for a viewer and at any time before or after its key, is what the
    viewer's decoder is given.
  \<^item> \<^emph>\<open>Formats\<close>: round trips of objects, envelopes, frames and cursor batches, distinct nonces, well-formed
    catalogs, and trust on first use as a refinement of its specification, on what the file holds.

  \<^bold>\<open>Termination and bounds.\<close>  Every loop of the sources is structural recursion over its input or has a termination
  proof; there is no fuel.  Loops that read from a peer recurse over the list of what arrives and are \<open>None\<close> when
  it is used up.  The eviction loop of the key cache is \<open>None\<close> where it would not end, and \<open>KeyCache\<close> shows that
  this does not happen.

  \<^bold>\<open>Not modelled.\<close>  Screen capture, GPU readback and video encoding (\<^verbatim>\<open>publisher/src/lib.rs\<close> apart from cursor
  events, \<^verbatim>\<open>egl_readback.rs\<close>, \<^verbatim>\<open>encoder.rs\<close>) are calls into PipeWire, EGL, VA-API and OpenH264; encoded
  frames are inputs.  The viewer's window is \<^verbatim>\<open>egui\<close>.  Command lines, configuration paths, daemon set-up, the
  relay's accept loop and process runtime, SQL text and schema migration, metadata checks of private files and the
  entropy source have no logic the properties depend on.  Lock poisoning, cancellation in the middle of a call and
  the text of error messages are left out.
\<close>

end
